(* ===== verification/Prelude.thy ===== *)
theory Prelude
  imports Main "HOL-Library.Sublist"
begin

text \<open>
  What every component shares: Go strings as byte lists with the operations of
  package \<open>strings\<close> and \<open>strconv\<close> that the code calls, the list lemmas the proofs
  need, and the theorem collections of the development.

  A Go \<open>string\<close> or \<open>[]byte\<close> is a \<open>string\<close>, a list of bytes (\<open>char\<close> is exactly one
  byte), so \<open>length\<close> is Go's \<open>len\<close>.
\<close>

named_theorems go_str \<open>facts about the string operations\<close>
named_theorems heaven_inv \<open>preservation lemmas of the Heaven daemon\<close>

type_synonym path = string
type_synonym blob_id = string

text \<open>The run-time panics of Go that the code can run into.\<close>

datatype go_panic = Nil_Deref | Out_Of_Range

section \<open>Splitting and joining\<close>

abbreviation LF :: char where "LF \<equiv> CHR 0x0A"
abbreviation CR :: char where "CR \<equiv> CHR 0x0D"
abbreviation TAB :: char where "TAB \<equiv> CHR 0x09"

text \<open>\<open>strings.Split(s, sep)\<close> for a one-byte separator: never the empty list.\<close>

fun split_on :: "char \<Rightarrow> string \<Rightarrow> string list" where
  "split_on c [] = [[]]"
| "split_on c (x # xs) =
     (if x = c then [] # split_on c xs
      else (case split_on c xs of [] \<Rightarrow> [[x]] | y # ys \<Rightarrow> (x # y) # ys))"

text \<open>\<open>strings.Join(xs, sep)\<close>.\<close>

fun join_with :: "string \<Rightarrow> string list \<Rightarrow> string" where
  "join_with sep [] = []"
| "join_with sep [x] = x"
| "join_with sep (x # y # ys) = x @ sep @ join_with sep (y # ys)"

lemma split_on_nonempty [simp]: "split_on c s \<noteq> []"
  by (induction s) (auto split: list.splits)

lemma join_split_on [go_str]: "join_with [c] (split_on c s) = s"
proof (induction s)
  case (Cons x xs)
  obtain y ys where yy: "split_on c xs = y # ys"
    by (cases "split_on c xs") auto
  show ?case
  proof (cases "x = c")
    case True
    with Cons yy show ?thesis by simp
  next
    case False
    with Cons yy show ?thesis by (cases ys) auto
  qed
qed simp

lemma split_on_no_sep [go_str]: "c \<notin> set s \<Longrightarrow> split_on c s = [s]"
  by (induction s) auto

lemma split_on_append_sep [go_str]:
  "c \<notin> set s \<Longrightarrow> split_on c (s @ c # t) = s # split_on c t"
  by (induction s) auto

lemma split_on_join [go_str]:
  "xs \<noteq> [] \<Longrightarrow> \<forall>x \<in> set xs. c \<notin> set x \<Longrightarrow> split_on c (join_with [c] xs) = xs"
  by (induction "[c]" xs rule: join_with.induct) (auto simp: split_on_append_sep split_on_no_sep)

lemma split_on_pieces: "p \<in> set (split_on c s) \<Longrightarrow> c \<notin> set p"
  by (induction s arbitrary: p) (auto split: list.splits if_splits)

text \<open>\<open>strings.SplitAfter(s, sep)\<close>: the pieces keep their separator.\<close>

definition split_after :: "char \<Rightarrow> string \<Rightarrow> string list" where
  "split_after c s = (let ps = split_on c s in map (\<lambda>p. p @ [c]) (butlast ps) @ [last ps])"

lemma concat_split_after [go_str]: "List.concat (split_after c s) = s"
proof -
  have j: "List.concat (map (\<lambda>p. p @ [c]) (butlast ps) @ [last ps]) = join_with [c] ps" if "ps \<noteq> []" for ps
    using that by (induction "[c]" ps rule: join_with.induct) auto
  show ?thesis unfolding split_after_def Let_def by (simp only: j [OF split_on_nonempty] join_split_on)
qed

text \<open>Appending a piece that ends in the separator appends its pieces.\<close>

lemma split_on_append:
  "split_on c (s @ c # t) = split_on c s @ split_on c t"
  by (induction s) (auto split: list.splits)

lemma join_with_append:
  "xs \<noteq> [] \<Longrightarrow> ys \<noteq> [] \<Longrightarrow> join_with sep (xs @ ys) = join_with sep xs @ sep @ join_with sep ys"
proof (induction sep xs rule: join_with.induct)
  case (2 sep x)
  then show ?case by (cases ys) auto
qed auto

text \<open>\<open>strings.SplitN(s, sep, 2)\<close>: at most one cut.\<close>

fun split2 :: "char \<Rightarrow> string \<Rightarrow> string \<times> string option" where
  "split2 c [] = ([], None)"
| "split2 c (x # xs) =
     (if x = c then ([], Some xs) else (let (a, b) = split2 c xs in (x # a, b)))"

lemma split2_join:
  "split2 c s = (a, b) \<Longrightarrow> s = (case b of None \<Rightarrow> a | Some r \<Rightarrow> a @ c # r) \<and> c \<notin> set a"
  by (induction s arbitrary: a b) (auto split: if_splits prod.splits option.splits)

section \<open>Prefixes, suffixes and searching\<close>

definition has_prefix :: "string \<Rightarrow> string \<Rightarrow> bool" where
  "has_prefix s p \<longleftrightarrow> take (length p) s = p"

definition has_suffix :: "string \<Rightarrow> string \<Rightarrow> bool" where
  "has_suffix s p \<longleftrightarrow> length p \<le> length s \<and> drop (length s - length p) s = p"

definition trim_prefix :: "string \<Rightarrow> string \<Rightarrow> string" where
  "trim_prefix s p = (if has_prefix s p then drop (length p) s else s)"

definition trim_suffix :: "string \<Rightarrow> string \<Rightarrow> string" where
  "trim_suffix s p = (if has_suffix s p then take (length s - length p) s else s)"

lemma has_prefix_iff: "has_prefix s p \<longleftrightarrow> (\<exists>r. s = p @ r)"
  unfolding has_prefix_def by (metis append_eq_conv_conj append_take_drop_id)

lemma has_prefix_append [simp]: "has_prefix (p @ r) p"
  by (simp add: has_prefix_def)

lemma has_prefix_Nil [simp]: "has_prefix s []"
  by (simp add: has_prefix_def)

lemma has_suffix_append [simp]: "has_suffix (r @ p) p"
  by (simp add: has_suffix_def)

lemma has_suffix_iff: "has_suffix s p \<longleftrightarrow> (\<exists>r. s = r @ p)"
proof
  assume "has_suffix s p"
  then have "s = take (length s - length p) s @ p"
    by (metis append_take_drop_id has_suffix_def)
  then show "\<exists>r. s = r @ p" ..
qed auto

lemma trim_suffix_append [simp]: "trim_suffix (r @ p) p = r"
  by (auto simp: trim_suffix_def has_suffix_def)

lemma trim_suffix_snoc [simp]: "trim_suffix (r @ [c]) [c] = r"
  by (rule trim_suffix_append)

text \<open>\<open>strings.Index(s, sub)\<close>; \<open>None\<close> is Go's \<open>-1\<close>.\<close>

fun index_of :: "string \<Rightarrow> string \<Rightarrow> nat option" where
  "index_of [] sub = (if sub = [] then Some 0 else None)"
| "index_of (x # xs) sub =
     (if has_prefix (x # xs) sub then Some 0 else map_option Suc (index_of xs sub))"

definition contains :: "string \<Rightarrow> string \<Rightarrow> bool" where
  "contains s sub \<longleftrightarrow> index_of s sub \<noteq> None"

text \<open>\<open>strings.LastIndex(s, sub)\<close>.\<close>

fun last_index_of :: "string \<Rightarrow> string \<Rightarrow> nat option" where
  "last_index_of [] sub = (if sub = [] then Some 0 else None)"
| "last_index_of (x # xs) sub =
     (case last_index_of xs sub of
        Some i \<Rightarrow> Some (Suc i)
      | None \<Rightarrow> (if has_prefix (x # xs) sub then Some 0 else None))"

lemma index_of_Some:
  "index_of s sub = Some i \<Longrightarrow> i + length sub \<le> length s \<and> take (length sub) (drop i s) = sub"
  by (induction s arbitrary: i) (auto simp: has_prefix_def min_def split: if_splits dest: arg_cong [where f = length])

lemma last_index_of_Some:
  "last_index_of s sub = Some i \<Longrightarrow> i + length sub \<le> length s \<and> take (length sub) (drop i s) = sub"
proof (induction s arbitrary: i)
  case (Cons x xs)
  show ?case
  proof (cases "last_index_of xs sub")
    case None
    with Cons.prems have "has_prefix (x # xs) sub" "i = 0" by (auto split: if_splits)
    then show ?thesis by (auto simp: has_prefix_iff) (metis length_Cons length_append le_add1)
  next
    case (Some j)
    with Cons.prems Cons.IH [of j] show ?thesis by auto
  qed
qed (auto split: if_splits)

lemma contains_iff: "contains s sub \<longleftrightarrow> (\<exists>a b. s = a @ sub @ b)"
proof
  assume "contains s sub"
  then obtain i where "index_of s sub = Some i" by (auto simp: contains_def)
  from index_of_Some [OF this] have "s = take i s @ sub @ drop (length sub) (drop i s)"
    by (metis append_take_drop_id)
  then show "\<exists>a b. s = a @ sub @ b" by blast
next
  assume "\<exists>a b. s = a @ sub @ b"
  then obtain a b where "s = a @ sub @ b" by blast
  moreover have "index_of (a @ sub @ b) sub \<noteq> None"
  proof (induction a)
    case Nil
    then show ?case by (cases sub) (auto simp: has_prefix_def, cases b, auto)
  qed auto
  ultimately show "contains s sub" by (simp add: contains_def)
qed

text \<open>\<open>strings.ReplaceAll(s, old, new)\<close> for a non-empty \<open>old\<close> (with an empty one
  Go inserts \<open>new\<close> between runes; the code never does that).\<close>

function replace_all :: "string \<Rightarrow> string \<Rightarrow> string \<Rightarrow> string" where
  "replace_all s old new =
     (if old = [] \<or> s = [] then s
      else if has_prefix s old then new @ replace_all (drop (length old) s) old new
      else hd s # replace_all (tl s) old new)"
  by pat_completeness auto
termination
  by (relation "measure (\<lambda>(s, old, new). length s)") auto

declare replace_all.simps [simp del]

section \<open>White space\<close>

text \<open>
  \<open>unicode.IsSpace\<close> on UTF-8: the byte sequences of the runes it accepts. A sequence
  starts with a byte that is no continuation byte, so matching it at a position is
  what Go's rune decoding does there, also in strings that are not valid UTF-8.
\<close>

definition space_runes :: "string list" where
  "space_runes =
     [[CHR 0x20], [TAB], [LF], [CHR 0x0B], [CHR 0x0C], [CR],
      [CHR 0xC2, CHR 0x85], [CHR 0xC2, CHR 0xA0], [CHR 0xE1, CHR 0x9A, CHR 0x80],
      [CHR 0xE2, CHR 0x80, CHR 0x80], [CHR 0xE2, CHR 0x80, CHR 0x81],
      [CHR 0xE2, CHR 0x80, CHR 0x82], [CHR 0xE2, CHR 0x80, CHR 0x83],
      [CHR 0xE2, CHR 0x80, CHR 0x84], [CHR 0xE2, CHR 0x80, CHR 0x85],
      [CHR 0xE2, CHR 0x80, CHR 0x86], [CHR 0xE2, CHR 0x80, CHR 0x87],
      [CHR 0xE2, CHR 0x80, CHR 0x88], [CHR 0xE2, CHR 0x80, CHR 0x89],
      [CHR 0xE2, CHR 0x80, CHR 0x8A], [CHR 0xE2, CHR 0x80, CHR 0xA8],
      [CHR 0xE2, CHR 0x80, CHR 0xA9], [CHR 0xE2, CHR 0x80, CHR 0xAF],
      [CHR 0xE2, CHR 0x81, CHR 0x9F], [CHR 0xE3, CHR 0x80, CHR 0x80]]"

text \<open>The length of the white-space rune a string starts with, 0 when it does not.\<close>

definition space_len :: "string \<Rightarrow> nat" where
  "space_len s =
     (case find (\<lambda>r. has_prefix s r) space_runes of None \<Rightarrow> 0 | Some r \<Rightarrow> length r)"

definition space_len_rev :: "string \<Rightarrow> nat" where
  "space_len_rev s =
     (case find (\<lambda>r. has_prefix s (rev r)) space_runes of None \<Rightarrow> 0 | Some r \<Rightarrow> length r)"

lemma space_len_le: "space_len s \<le> length s"
  by (auto simp: space_len_def has_prefix_iff find_Some_iff split: option.splits)

function trim_left :: "string \<Rightarrow> string" where
  "trim_left s = (if space_len s = 0 then s else trim_left (drop (space_len s) s))"
  by pat_completeness auto
termination
proof (relation "measure length")
  fix s :: string
  assume "space_len s \<noteq> 0"
  with space_len_le [of s] show "(drop (space_len s) s, s) \<in> measure length" by simp
qed simp

lemma space_len_rev_le: "space_len_rev s \<le> length s"
proof (cases "find (\<lambda>r. has_prefix s (rev r)) space_runes")
  case (Some r)
  then have "has_prefix s (rev r)" by (auto simp: find_Some_iff)
  then show ?thesis using Some by (auto simp: space_len_rev_def has_prefix_iff)
qed (simp add: space_len_rev_def)

function trim_left_rev :: "string \<Rightarrow> string" where
  "trim_left_rev s = (if space_len_rev s = 0 then s else trim_left_rev (drop (space_len_rev s) s))"
  by pat_completeness auto
termination
proof (relation "measure length")
  fix s :: string
  assume "space_len_rev s \<noteq> 0"
  with space_len_rev_le [of s] show "(drop (space_len_rev s) s, s) \<in> measure length" by simp
qed simp

declare trim_left.simps [simp del] trim_left_rev.simps [simp del]

definition trim_right :: "string \<Rightarrow> string" where
  "trim_right s = rev (trim_left_rev (rev s))"

text \<open>\<open>strings.TrimSpace\<close>.\<close>

definition trim_space :: "string \<Rightarrow> string" where
  "trim_space s = trim_right (trim_left s)"

text \<open>\<open>strings.TrimRight(s, cutset)\<close> and \<open>strings.TrimLeft\<close> for an ASCII cutset,
  and \<open>strings.Trim\<close>.\<close>

definition trim_left_set :: "string \<Rightarrow> string \<Rightarrow> string" where
  "trim_left_set s cs = dropWhile (\<lambda>c. c \<in> set cs) s"

definition trim_right_set :: "string \<Rightarrow> string \<Rightarrow> string" where
  "trim_right_set s cs = rev (dropWhile (\<lambda>c. c \<in> set cs) (rev s))"

text \<open>\<open>strings.Fields\<close>: the maximal runs of bytes between white space.\<close>

function fields_aux :: "string \<Rightarrow> string \<Rightarrow> string list" where
  "fields_aux cur s =
     (if s = [] then (if cur = [] then [] else [rev cur])
      else if space_len s = 0 then fields_aux (hd s # cur) (tl s)
      else (if cur = [] then fields_aux [] (drop (space_len s) s)
            else rev cur # fields_aux [] (drop (space_len s) s)))"
  by pat_completeness auto
termination
proof (relation "measure (\<lambda>(cur, s). length s)", goal_cases)
  case (3 cur s)
  then show ?case by (cases s) auto
next
  case (4 cur s)
  then show ?case by (cases s) auto
qed auto

declare fields_aux.simps [simp del]

definition fields :: "string \<Rightarrow> string list" where
  "fields s = fields_aux [] s"


section \<open>Decimal numbers\<close>

definition digit_char :: "nat \<Rightarrow> char" where
  "digit_char d = ''0123456789'' ! d"

definition digit_val :: "char \<Rightarrow> nat option" where
  "digit_val c =
     map_of [(CHR ''0'', 0), (CHR ''1'', 1), (CHR ''2'', 2), (CHR ''3'', 3), (CHR ''4'', 4),
             (CHR ''5'', 5), (CHR ''6'', 6), (CHR ''7'', 7), (CHR ''8'', 8), (CHR ''9'', 9)] c"

definition is_digit :: "char \<Rightarrow> bool" where
  "is_digit c \<longleftrightarrow> digit_val c \<noteq> None"

lemma less_10_cases: "(d::nat) < 10 \<Longrightarrow> d \<in> {0, 1, 2, 3, 4, 5, 6, 7, 8, 9}"
  by auto

lemma digit_val_char [simp]: "d < 10 \<Longrightarrow> digit_val (digit_char d) = Some d"
  by (drule less_10_cases) (auto simp: digit_val_def digit_char_def)

lemma digit_val_bound: "digit_val c = Some d \<Longrightarrow> d < 10"
  by (auto simp: digit_val_def split: if_splits)

text \<open>\<open>strconv.Itoa\<close> and the verb \<open>%d\<close>.\<close>

fun nat_str :: "nat \<Rightarrow> string" where
  "nat_str n = (if n < 10 then [digit_char n] else nat_str (n div 10) @ [digit_char (n mod 10)])"

declare nat_str.simps [simp del]

definition itoa :: "int \<Rightarrow> string" where
  "itoa i = (if i < 0 then CHR ''-'' # nat_str (nat (- i)) else nat_str (nat i))"

text \<open>The value of a digit string, \<open>None\<close> at the first byte that is no digit.\<close>

fun dec_val :: "nat \<Rightarrow> string \<Rightarrow> nat option" where
  "dec_val acc [] = Some acc"
| "dec_val acc (c # cs) =
     (case digit_val c of None \<Rightarrow> None | Some d \<Rightarrow> dec_val (10 * acc + d) cs)"

definition in_int64 :: "int \<Rightarrow> bool" where
  "in_int64 i \<longleftrightarrow> - (2 ^ 63) \<le> i \<and> i < 2 ^ 63"

text \<open>Go's \<open>int\<close> and \<open>int64\<close> arithmetic wraps.\<close>

definition wrap64 :: "int \<Rightarrow> int" where
  "wrap64 i = (i + 2 ^ 63) mod 2 ^ 64 - 2 ^ 63"

lemma wrap64_id: "in_int64 i \<Longrightarrow> wrap64 i = i"
  by (simp add: wrap64_def in_int64_def)

lemma wrap64_range: "in_int64 (wrap64 i)"
proof -
  have "0 \<le> (i + 2 ^ 63) mod 2 ^ 64" "(i + 2 ^ 63) mod 2 ^ 64 < 2 ^ 64" by simp_all
  then show ?thesis unfolding wrap64_def in_int64_def by simp
qed

lemma wrap64_over:
  assumes "2 ^ 63 \<le> i" "i < 2 ^ 64"
  shows "wrap64 i = i - 2 ^ 64"
proof -
  have "(i + 2 ^ 63) mod 2 ^ 64 = (i + 2 ^ 63 - 2 ^ 64) mod 2 ^ 64" by (rule minus_mod_self2 [symmetric])
  also have "\<dots> = i + 2 ^ 63 - 2 ^ 64" using assms by (intro mod_pos_pos_trivial) auto
  finally show ?thesis by (simp add: wrap64_def)
qed

lemma wrap64_wrap64: "wrap64 (wrap64 i + j) = wrap64 (i + j)"
proof -
  have "wrap64 i + j + 2 ^ 63 = (i + 2 ^ 63) mod 2 ^ 64 + j" by (simp add: wrap64_def)
  then have "(wrap64 i + j + 2 ^ 63) mod 2 ^ 64 = (i + 2 ^ 63 + j) mod 2 ^ 64"
    by (simp only: mod_add_left_eq)
  then show ?thesis by (simp add: wrap64_def algebra_simps)
qed

text \<open>\<open>strconv.Atoi\<close> and \<open>strconv.ParseInt(s, 10, 64)\<close>: \<open>None\<close> is their error, for a
  syntax error or a value outside 64 bits.\<close>

definition atoi :: "string \<Rightarrow> int option" where
  "atoi s =
     (let (neg, ds) = (case s of
           [] \<Rightarrow> (False, [])
         | c # r \<Rightarrow> if c = CHR ''-'' then (True, r) else if c = CHR ''+'' then (False, r) else (False, s))
      in if ds = [] then None
         else case dec_val 0 ds of
           None \<Rightarrow> None
         | Some n \<Rightarrow> (let i = (if neg then - int n else int n) in if in_int64 i then Some i else None))"

lemma dec_val_append:
  "dec_val acc (s @ t) = (case dec_val acc s of None \<Rightarrow> None | Some v \<Rightarrow> dec_val v t)"
  by (induction acc s rule: dec_val.induct) (auto split: option.splits)

lemma dec_val_nat_str [simp]: "dec_val 0 (nat_str n) = Some n"
proof (induction n rule: nat_str.induct)
  case (1 n)
  then show ?case by (auto simp: nat_str.simps [of n] dec_val_append)
qed

lemma nat_str_nonempty [simp]: "nat_str n \<noteq> []"
  by (subst nat_str.simps) simp

lemma nat_str_digits: "c \<in> set (nat_str n) \<Longrightarrow> is_digit c"
proof (induction n rule: nat_str.induct)
  case (1 n)
  then show ?case
    by (cases "n < 10") (auto simp: nat_str.simps [of n] is_digit_def)
qed

lemma not_digit [simp]:
  "\<not> is_digit CHR ''-''" "\<not> is_digit CHR ''+''" "\<not> is_digit CHR '':''" "\<not> is_digit LF"
  "\<not> is_digit CHR ''\"''" "\<not> is_digit CHR '' ''" "\<not> is_digit CHR '',''"
  by (simp_all add: is_digit_def digit_val_def)

lemma nat_str_head: "nat_str n = c # r \<Longrightarrow> c \<noteq> CHR ''-'' \<and> c \<noteq> CHR ''+''"
  using nat_str_digits [of c n] by auto

lemma atoi_itoa [go_str]: "in_int64 i \<Longrightarrow> atoi (itoa i) = Some i"
proof (cases "i < 0")
  case True
  assume "in_int64 i"
  with True show ?thesis by (simp add: itoa_def atoi_def)
next
  case False
  assume b: "in_int64 i"
  obtain c r where "nat_str (nat i) = c # r"
    by (cases "nat_str (nat i)") auto
  with False b nat_str_head [OF this] dec_val_nat_str [of "nat i"] show ?thesis
    by (simp add: itoa_def atoi_def)
qed

lemma nat_str_inj [simp]: "nat_str m = nat_str n \<longleftrightarrow> m = n"
  by (metis dec_val_nat_str option.inject)

lemma nat_str_not_minus: "nat_str n \<noteq> CHR ''-'' # r"
  using nat_str_head [of n "CHR ''-''" r] by blast

lemma itoa_inj [simp]: "itoa i = itoa j \<longleftrightarrow> i = j"
proof
  assume eq: "itoa i = itoa j"
  consider "i < 0" "j < 0" | "i < 0" "0 \<le> j" | "0 \<le> i" "j < 0" | "0 \<le> i" "0 \<le> j"
    by linarith
  then show "i = j"
  proof cases
    case 1
    with eq have "nat (- i) = nat (- j)" by (simp add: itoa_def)
    with 1 show ?thesis by linarith
  next
    case 2
    with eq show ?thesis by (simp add: itoa_def nat_str_not_minus [symmetric])
  next
    case 3
    with eq show ?thesis by (simp add: itoa_def nat_str_not_minus)
  next
    case 4
    with eq have "nat i = nat j" by (simp add: itoa_def)
    with 4 show ?thesis by linarith
  qed
qed simp

section \<open>Letter case and quoting\<close>

definition fold_char :: "char \<Rightarrow> char" where
  "fold_char c = (let n = of_char c :: nat in if 65 \<le> n \<and> n \<le> 90 then char_of (n + 32) else c)"

text \<open>\<open>strings.ToLower\<close>: exact on ASCII; the Unicode case tables are the parameter \<open>ul\<close>.\<close>

definition to_lower :: "(string \<Rightarrow> string) \<Rightarrow> string \<Rightarrow> string" where
  "to_lower ul s = (if list_all (\<lambda>c. (of_char c :: nat) < 128) s then map fold_char s else ul s)"

text \<open>\<open>strconv.Quote\<close> and the verb \<open>%q\<close>, on ASCII input (other bytes pass through).\<close>

definition hex_digit :: "nat \<Rightarrow> char" where
  "hex_digit d = ''0123456789abcdef'' ! d"

definition go_quote_byte :: "char \<Rightarrow> string" where
  "go_quote_byte c =
     (if c = CHR 0x22 then [CHR 0x5C, CHR 0x22]
      else if c = CHR 0x5C then [CHR 0x5C, CHR 0x5C]
      else if c = CHR 0x07 then [CHR 0x5C, CHR ''a'']
      else if c = CHR 0x08 then [CHR 0x5C, CHR ''b'']
      else if c = CHR 0x0C then [CHR 0x5C, CHR ''f'']
      else if c = LF then [CHR 0x5C, CHR ''n'']
      else if c = CR then [CHR 0x5C, CHR ''r'']
      else if c = TAB then [CHR 0x5C, CHR ''t'']
      else if c = CHR 0x0B then [CHR 0x5C, CHR ''v'']
      else (let n = of_char c :: nat in
        if n < 32 \<or> n = 127
        then [CHR 0x5C, CHR ''x'', hex_digit (n div 16), hex_digit (n mod 16)] else [c]))"

definition go_quote :: "string \<Rightarrow> string" where
  "go_quote s = CHR 0x22 # List.concat (map go_quote_byte s) @ [CHR 0x22]"

section \<open>Association lists\<close>

text \<open>
  A Go map is an association list with distinct keys; \<open>m[k] = v\<close> is \<open>aput\<close> (in place
  when the key is there, at the end otherwise), \<open>delete(m, k)\<close> is \<open>adel\<close>. Go iterates
  in an unspecified order: a property of an iteration may use the list only up to order.
\<close>

fun aput :: "'k \<Rightarrow> 'v \<Rightarrow> ('k \<times> 'v) list \<Rightarrow> ('k \<times> 'v) list" where
  "aput k v [] = [(k, v)]"
| "aput k v ((k', v') # m) = (if k' = k then (k, v) # m else (k', v') # aput k v m)"

definition adel :: "'k \<Rightarrow> ('k \<times> 'v) list \<Rightarrow> ('k \<times> 'v) list" where
  "adel k m = filter (\<lambda>e. fst e \<noteq> k) m"

lemma map_of_aput [simp]: "map_of (aput k v m) = (map_of m)(k \<mapsto> v)"
  by (induction m) auto

lemma map_of_adel [simp]: "map_of (adel k m) = (map_of m)(k := None)"
  by (induction m) (auto simp: adel_def)

lemma dom_map_of_fst: "dom (map_of m) = fst ` set m"
  by (simp add: dom_map_of_conv_image_fst)

lemma fst_set_aput [simp]: "fst ` set (aput k v m) = insert k (fst ` set m)"
  using dom_map_of_fst [of "aput k v m"] by (simp add: dom_map_of_fst)

lemma distinct_aput [simp]: "distinct (map fst (aput k v m)) = distinct (map fst m)"
proof (induction m)
  case (Cons e m)
  then show ?case
    using fst_set_aput [of k v m] by (cases e) (auto simp del: fst_set_aput)
qed simp

lemma distinct_adel [simp]: "distinct (map fst m) \<Longrightarrow> distinct (map fst (adel k m))"
  by (auto simp: adel_def distinct_map inj_on_def)

lemma fst_set_adel [simp]: "fst ` set (adel k m) = fst ` set m - {k}"
  by (auto simp: adel_def)

section \<open>Invariants of a step relation\<close>

text \<open>The shape of every invariant proof over runs: one preservation law, any number of steps.\<close>

locale step_invariant =
  fixes step :: "'s \<Rightarrow> 's \<Rightarrow> bool"
    and inv :: "'s \<Rightarrow> bool"
  assumes step_inv: "inv s \<Longrightarrow> step s s' \<Longrightarrow> inv s'"
begin

lemma run_inv: "rtranclp step s s' \<Longrightarrow> inv s \<Longrightarrow> inv s'"
  by (induction rule: rtranclp_induct) (auto intro: step_inv)

end

end
