(* ===== verification/Disk.thy ===== *)
theory Disk
  imports Prelude
begin

text \<open>
  The file system as the code uses it: \<open>path/filepath\<close> (\<open>Clean\<close>, \<open>Join\<close>, \<open>Dir\<close>, on
  Unix) and the calls \<open>os.Stat\<close>, \<open>os.ReadFile\<close>, \<open>os.WriteFile\<close>, \<open>os.MkdirAll\<close> and the
  opening of a file for appending. Files and directories are keyed by their cleaned
  path, there are no symbolic links, and every call on a path of \<open>d_bad\<close> fails, which
  stands for the I/O errors of the host (permissions, a full or broken disk).
\<close>

section \<open>Paths\<close>

text \<open>The components of a path with \<open>.\<close>, \<open>..\<close> and empty ones resolved; the accumulator
  holds the components kept so far, the last one first.\<close>

fun clean_comps :: "bool \<Rightarrow> string list \<Rightarrow> string list \<Rightarrow> string list" where
  "clean_comps rooted out [] = rev out"
| "clean_comps rooted out (x # xs) =
     (if x = [] \<or> x = ''.'' then clean_comps rooted out xs
      else if x = ''..'' then
        (case out of
           [] \<Rightarrow> clean_comps rooted (if rooted then [] else [x]) xs
         | y # ys \<Rightarrow> (if y = ''..'' then clean_comps rooted (x # out) xs
                     else clean_comps rooted ys xs))
      else clean_comps rooted (x # out) xs)"

definition rooted :: "path \<Rightarrow> bool" where
  "rooted p \<longleftrightarrow> has_prefix p ''/''"

definition path_clean :: "path \<Rightarrow> path" where
  "path_clean p =
     (let r = join_with ''/'' (clean_comps (rooted p) [] (split_on CHR ''/'' p))
      in if rooted p then CHR ''/'' # r else if r = [] then ''.'' else r)"

definition path_join :: "string list \<Rightarrow> path" where
  "path_join es =
     (let es' = filter (\<lambda>e. e \<noteq> []) es
      in if es' = [] then [] else path_clean (join_with ''/'' es'))"

text \<open>\<open>filepath.Dir\<close>: what precedes the last slash, cleaned.\<close>

definition path_dir :: "path \<Rightarrow> path" where
  "path_dir p = path_clean (rev (dropWhile (\<lambda>c. c \<noteq> CHR ''/'') (rev p)))"

text \<open>Every directory above a cleaned path, the path itself included.\<close>

definition path_prefixes :: "path \<Rightarrow> path list" where
  "path_prefixes p =
     (let cs = split_on CHR ''/'' p
      in map (\<lambda>n. path_clean (if rooted p then CHR ''/'' # join_with ''/'' (take n cs)
                              else join_with ''/'' (take n cs))) [0..<Suc (length cs)])"

text \<open>A name that is one path component: joining it to a cleaned directory only appends it.\<close>

definition plain_name :: "string \<Rightarrow> bool" where
  "plain_name s \<longleftrightarrow> s \<noteq> [] \<and> CHR ''/'' \<notin> set s \<and> s \<noteq> ''.'' \<and> s \<noteq> ''..''"

section \<open>Files and directories\<close>

record disk =
  d_files :: "(path \<times> string) list"
  d_dirs :: "path list"
  d_bad :: "path list"

datatype io_error = NotExist | IO_Denied | Is_Dir

definition os_stat :: "disk \<Rightarrow> path \<Rightarrow> bool" where
  "os_stat d p \<longleftrightarrow>
     \<not> List.member (d_bad d) p \<and> (map_of (d_files d) p \<noteq> None \<or> List.member (d_dirs d) p)"

definition read_file :: "disk \<Rightarrow> path \<Rightarrow> io_error + string" where
  "read_file d p =
     (if List.member (d_bad d) p then Inl IO_Denied
      else case map_of (d_files d) p of
        Some c \<Rightarrow> Inr c
      | None \<Rightarrow> Inl (if List.member (d_dirs d) p then Is_Dir else NotExist))"

text \<open>\<open>os.WriteFile\<close>: creates or truncates.\<close>

definition write_file :: "path \<Rightarrow> string \<Rightarrow> disk \<Rightarrow> io_error + disk" where
  "write_file p c d =
     (if List.member (d_bad d) p then Inl IO_Denied
      else if List.member (d_dirs d) p then Inl Is_Dir
      else if map_of (d_files d) p = None \<and> \<not> List.member (d_dirs d) (path_dir p) then Inl NotExist
      else Inr (d\<lparr>d_files := aput p c (d_files d)\<rparr>))"

text \<open>Opening with \<open>O_CREATE|O_WRONLY|O_APPEND\<close> and writing once: the old size and the
  new disk.\<close>

definition append_file :: "path \<Rightarrow> string \<Rightarrow> disk \<Rightarrow> io_error + (nat \<times> disk)" where
  "append_file p c d =
     (let old = (case map_of (d_files d) p of None \<Rightarrow> [] | Some s \<Rightarrow> s)
      in case write_file p (old @ c) d of
           Inl e \<Rightarrow> Inl e
         | Inr d' \<Rightarrow> Inr (length old, d'))"

definition mkdir_all :: "path \<Rightarrow> disk \<Rightarrow> io_error + disk" where
  "mkdir_all p d =
     (let ps = path_prefixes (path_clean p)
      in if list_ex (\<lambda>q. List.member (d_bad d) q \<or> map_of (d_files d) q \<noteq> None) ps then Inl IO_Denied
         else Inr (d\<lparr>d_dirs := d_dirs d @ filter (\<lambda>q. \<not> List.member (d_dirs d) q) ps\<rparr>))"

text \<open>\<open>os.Remove\<close>: a file or an empty directory.\<close>

definition os_remove :: "path \<Rightarrow> disk \<Rightarrow> io_error + disk" where
  "os_remove p d =
     (if List.member (d_bad d) p then Inl IO_Denied
      else if map_of (d_files d) p \<noteq> None then Inr (d\<lparr>d_files := adel p (d_files d)\<rparr>)
      else if List.member (d_dirs d) p then
        (if list_ex (\<lambda>q. has_prefix q (p @ ''/'')) (map fst (d_files d) @ d_dirs d) then Inl IO_Denied
         else Inr (d\<lparr>d_dirs := filter (\<lambda>q. q \<noteq> p) (d_dirs d)\<rparr>))
      else Inl NotExist)"

section \<open>What a call leaves alone\<close>

text \<open>\<open>reads d\<close> is the contents of the file system as a map, the abstraction under which
  the stores above this layer are specified.\<close>

definition reads :: "disk \<Rightarrow> path \<Rightarrow> string option" where
  "reads d p = (case read_file d p of Inl _ \<Rightarrow> None | Inr c \<Rightarrow> Some c)"

lemma reads_alt: "reads d p = (if List.member (d_bad d) p then None else map_of (d_files d) p)"
  by (auto simp: reads_def read_file_def split: option.splits)

lemma read_file_reads: "read_file d p = Inr c \<longleftrightarrow> reads d p = Some c"
  by (auto simp: reads_def split: sum.splits)

lemma write_file_reads:
  "write_file p c d = Inr d' \<Longrightarrow> reads d' = (reads d)(p \<mapsto> c)"
  by (auto simp: write_file_def reads_alt split: if_splits)

lemma write_file_stat:
  "write_file p c d = Inr d' \<Longrightarrow> os_stat d' q \<longleftrightarrow> q = p \<or> os_stat d q"
  by (auto simp: write_file_def os_stat_def split: if_splits)

lemma write_file_frame:
  "write_file p c d = Inr d' \<Longrightarrow> d_dirs d' = d_dirs d \<and> d_bad d' = d_bad d"
  by (auto simp: write_file_def split: if_splits)

lemma append_file_reads:
  "append_file p c d = Inr (n, d') \<Longrightarrow>
   reads d' = (reads d)(p \<mapsto> (case reads d p of None \<Rightarrow> [] | Some s \<Rightarrow> s) @ c)
   \<and> n = length (case reads d p of None \<Rightarrow> [] | Some s \<Rightarrow> s)"
  by (auto simp: append_file_def Let_def write_file_def reads_alt
      split: sum.splits if_splits option.splits)

lemma append_file_frame:
  "append_file p c d = Inr (n, d') \<Longrightarrow>
   d_dirs d' = d_dirs d \<and> d_bad d' = d_bad d \<and> (\<forall>q. os_stat d' q \<longleftrightarrow> q = p \<or> os_stat d q)"
  by (auto simp: append_file_def Let_def split: sum.splits
      dest: write_file_frame write_file_stat)

lemma mkdir_all_reads: "mkdir_all p d = Inr d' \<Longrightarrow> reads d' = reads d"
  by (auto simp: mkdir_all_def Let_def reads_alt fun_eq_iff split: if_splits)

lemma os_remove_reads: "os_remove p d = Inr d' \<Longrightarrow> reads d' q = (if q = p then None else reads d q)"
  by (auto simp: os_remove_def reads_alt split: if_splits)

lemma reads_stat: "reads d p = Some c \<Longrightarrow> os_stat d p"
  by (auto simp: reads_alt os_stat_def split: if_splits)

text \<open>A file that exists and is not faulty can be written and appended to.\<close>

lemma write_file_existing:
  "reads d p \<noteq> None \<Longrightarrow> \<not> List.member (d_dirs d) p \<Longrightarrow> \<exists>d'. write_file p c d = Inr d'"
  by (auto simp: write_file_def reads_alt split: if_splits)

section \<open>Cleaning\<close>

text \<open>Plain components survive cleaning, so joining plain names is concatenation.\<close>

lemma clean_comps_plain:
  "list_all plain_name xs \<Longrightarrow> clean_comps r out xs = rev out @ xs"
  by (induction xs arbitrary: out) (auto simp: plain_name_def)

lemma clean_comps_append_plain:
  assumes "list_all plain_name ys"
  shows "clean_comps r out (xs @ ys) = clean_comps r out xs @ ys"
proof (induction xs arbitrary: out)
  case Nil
  show ?case by (simp add: clean_comps_plain assms)
next
  case (Cons x xs)
  then show ?case by (auto split: list.splits)
qed

lemma clean_comps_append:
  "clean_comps r out (xs @ ys) = clean_comps r (rev (clean_comps r out xs)) ys"
  by (induction r out xs rule: clean_comps.induct) (auto split: list.splits)

lemma plain_name_split: "plain_name s \<Longrightarrow> split_on CHR ''/'' s = [s]"
  by (simp add: plain_name_def split_on_no_sep)

text \<open>Joining two plain names to one directory gives two different paths.\<close>

lemma path_join_root:
  assumes "root \<noteq> []" "list_all plain_name ns" "ns \<noteq> []"
  shows "path_join (root # ns) =
    (let cs = clean_comps (rooted root) [] (split_on CHR ''/'' root) @ ns
     in if rooted root then CHR ''/'' # join_with ''/'' cs else join_with ''/'' cs)"
proof -
  have ne: "filter (\<lambda>e. e \<noteq> []) (root # ns) = root # ns"
    using assms by (auto simp: list_all_iff plain_name_def filter_id_conv)
  have j: "join_with ''/'' (root # ns) = root @ CHR ''/'' # join_with ''/'' ns"
    using assms(3) by (cases ns) auto
  have s: "split_on CHR ''/'' (root @ CHR ''/'' # join_with ''/'' ns)
      = split_on CHR ''/'' root @ ns"
    using assms by (auto simp: split_on_append split_on_join list_all_iff plain_name_def)
  have r: "rooted (root @ CHR ''/'' # t) = rooted root" for t
    using assms(1) by (cases root) (auto simp: rooted_def has_prefix_def)
  have nn: "join_with ''/'' (cs @ ns) \<noteq> []" for cs
  proof -
    have "join_with ''/'' ns \<noteq> []"
      using assms(2,3) by (cases ns rule: list.exhaust; cases "tl ns") (auto simp: plain_name_def)
    then show ?thesis using assms(3) by (cases "cs = []") (auto simp: join_with_append)
  qed
  show ?thesis
    unfolding path_join_def Let_def ne j
    using nn by (simp add: path_clean_def s r clean_comps_append_plain assms(2))
qed

lemma join_with_snoc_inj:
  "join_with ''/'' (cs @ [a]) = join_with ''/'' (cs @ [b]) \<Longrightarrow> a = b"
  by (cases "cs = []") (auto simp: join_with_append)

lemma path_join_inj:
  assumes "root \<noteq> []" "list_all plain_name ns" "plain_name a" "plain_name b"
    and "path_join (root # ns @ [a]) = path_join (root # ns @ [b])"
  shows "a = b"
proof -
  let ?c = "clean_comps (rooted root) [] (split_on CHR ''/'' root)"
  have "join_with ''/'' ((?c @ ns) @ [a]) = join_with ''/'' ((?c @ ns) @ [b])"
    using assms path_join_root [of root "ns @ [a]"] path_join_root [of root "ns @ [b]"]
    by (auto simp: Let_def split: if_splits)
  then show ?thesis by (rule join_with_snoc_inj)
qed

end
