(* ===== verification/Blob_Store.thy ===== *)
theory Blob_Store
  imports Disk
begin

text \<open>
  The content-addressed blob store of the daemon, \<open>heaven/blob.go\<close>. A store is its
  root directory on the disk; a blob lies at \<open><root>/blobs/sha256/<id>\<close> where the id is
  the hex SHA-256 digest of its bytes. The digest is a parameter \<open>sha\<close>.

  The locale \<open>content_store\<close> is the contract the prompt store and the page-fault router
  rely on; it is interpreted here on the model of the code.
\<close>

section \<open>The operations\<close>

datatype blob_error = Blob_Init io_error | Blob_Put io_error | Blob_Get blob_id io_error

definition blob_dir :: "path \<Rightarrow> path" where
  "blob_dir root = path_join [root, ''blobs'', ''sha256'']"

definition blob_path :: "path \<Rightarrow> blob_id \<Rightarrow> path" where
  "blob_path root bid = path_join [root, ''blobs'', ''sha256'', bid]"

definition new_blob_store :: "path \<Rightarrow> disk \<Rightarrow> blob_error + disk" where
  "new_blob_store root d =
     (case mkdir_all (blob_dir root) d of Inl e \<Rightarrow> Inl (Blob_Init e) | Inr d' \<Rightarrow> Inr d')"

definition blob_put ::
  "(string \<Rightarrow> string) \<Rightarrow> path \<Rightarrow> string \<Rightarrow> disk \<Rightarrow> (blob_error + blob_id) \<times> disk" where
  "blob_put sha root content d =
     (let bid = sha content; p = blob_path root bid
      in if os_stat d p then (Inr bid, d)
         else case write_file p content d of
           Inl e \<Rightarrow> (Inl (Blob_Put e), d)
         | Inr d' \<Rightarrow> (Inr bid, d'))"

definition blob_get :: "path \<Rightarrow> blob_id \<Rightarrow> disk \<Rightarrow> blob_error + string" where
  "blob_get root bid d =
     (case read_file d (blob_path root bid) of Inl e \<Rightarrow> Inl (Blob_Get bid e) | Inr c \<Rightarrow> Inr c)"

definition blob_exists :: "path \<Rightarrow> blob_id \<Rightarrow> disk \<Rightarrow> bool" where
  "blob_exists root bid d \<longleftrightarrow> os_stat d (blob_path root bid)"

section \<open>The contract of a content-addressed store\<close>

text \<open>Storing a list of contents, stopping at the first failure.\<close>

fun put_all :: "(string \<Rightarrow> 'd \<Rightarrow> ('e + blob_id) \<times> 'd) \<Rightarrow> string list \<Rightarrow> 'd \<Rightarrow> ('e + blob_id list) \<times> 'd" where
  "put_all put [] d = (Inr [], d)"
| "put_all put (c # cs) d =
     (case put c d of
        (Inl e, d') \<Rightarrow> (Inl e, d')
      | (Inr i, d') \<Rightarrow>
          (case put_all put cs d' of (Inl e, d'') \<Rightarrow> (Inl e, d'') | (Inr js, d'') \<Rightarrow> (Inr (i # js), d'')))"

text \<open>
  \<open>ok S d\<close> says that \<open>d\<close> is a state in which the contents of \<open>S\<close> can be stored: no two
  of them share an address and nothing else lies at their addresses.
\<close>

locale content_store =
  fixes put :: "string \<Rightarrow> 'd \<Rightarrow> ('e + blob_id) \<times> 'd"
    and get :: "blob_id \<Rightarrow> 'd \<Rightarrow> 'f + string"
    and addr :: "string \<Rightarrow> blob_id"
    and ok :: "string set \<Rightarrow> 'd \<Rightarrow> bool"
  assumes put_addr: "put c d = (Inr bid, d') \<Longrightarrow> bid = addr c"
    and put_get: "ok S d \<Longrightarrow> c \<in> S \<Longrightarrow> put c d = (Inr bid, d') \<Longrightarrow> get bid d' = Inr c"
    and put_keeps: "put c d = (r, d') \<Longrightarrow> get i d = Inr x \<Longrightarrow> get i d' = Inr x"
    and put_ok: "ok S d \<Longrightarrow> c \<in> S \<Longrightarrow> put c d = (r, d') \<Longrightarrow> ok S d'"
    and put_again: "ok S d \<Longrightarrow> c \<in> S \<Longrightarrow> put c d = (Inr bid, d') \<Longrightarrow> put c d' = (Inr bid, d')"
begin

lemma put_all_keeps: "put_all put cs d = (r, d') \<Longrightarrow> get i d = Inr x \<Longrightarrow> get i d' = Inr x"
proof (induction cs arbitrary: d r)
  case (Cons c cs)
  obtain r1 d1 where p: "put c d = (r1, d1)" by (cases "put c d")
  have k: "get i d1 = Inr x" using put_keeps [OF p Cons.prems(2)] .
  show ?case using Cons.prems(1) p k Cons.IH [of d1]
    by (auto split: sum.splits prod.splits)
qed simp

lemma put_all_ok: "ok S d \<Longrightarrow> set cs \<subseteq> S \<Longrightarrow> put_all put cs d = (r, d') \<Longrightarrow> ok S d'"
proof (induction cs arbitrary: d r)
  case (Cons c cs)
  obtain r1 d1 where p: "put c d = (r1, d1)" by (cases "put c d")
  have k: "ok S d1" using put_ok [OF Cons.prems(1) _ p] Cons.prems(2) by simp
  show ?case using Cons.prems(2,3) p k Cons.IH [OF k]
    by (auto split: sum.splits prod.splits)
qed simp

lemma put_all_ConsD:
  "put_all put (c # cs) d = (Inr ids, d') \<Longrightarrow>
   \<exists>i d1 ids1. put c d = (Inr i, d1) \<and> put_all put cs d1 = (Inr ids1, d') \<and> ids = i # ids1"
  by (auto split: sum.splits prod.splits)

lemma put_all_addr: "put_all put cs d = (Inr ids, d') \<Longrightarrow> ids = map addr cs"
proof (induction cs arbitrary: d ids)
  case (Cons c cs)
  from put_all_ConsD [OF Cons.prems] Cons.IH put_addr show ?case by fastforce
qed simp

text \<open>Every stored content can be read back, whatever was stored around it.\<close>

lemma put_all_get:
  "ok S d \<Longrightarrow> set cs \<subseteq> S \<Longrightarrow> put_all put cs d = (Inr ids, d') \<Longrightarrow>
   list_all2 (\<lambda>i c. get i d' = Inr c) ids cs"
proof (induction cs arbitrary: d ids)
  case (Cons c cs)
  from put_all_ConsD [OF Cons.prems(3)] obtain i d1 ids1 where
    p: "put c d = (Inr i, d1)" "put_all put cs d1 = (Inr ids1, d')" "ids = i # ids1" by blast
  have "get i d1 = Inr c" using put_get [OF Cons.prems(1) _ p(1)] Cons.prems(2) by simp
  then have "get i d' = Inr c" by (rule put_all_keeps [OF p(2)])
  moreover have "ok S d1" using put_ok [OF Cons.prems(1) _ p(1)] Cons.prems(2) by simp
  ultimately show ?case using Cons.IH [OF _ _ p(2)] Cons.prems(2) p(3) by simp
qed simp

end

section \<open>The code keeps the contract\<close>

text \<open>The address space of the store: digests are plain names, so different digests are
  different files, and the digest does not collide on the contents in question.\<close>

definition blob_ok :: "(string \<Rightarrow> string) \<Rightarrow> path \<Rightarrow> string set \<Rightarrow> disk \<Rightarrow> bool" where
  "blob_ok sha root S d \<longleftrightarrow>
     root \<noteq> [] \<and> inj_on sha S \<and> (\<forall>c \<in> S. plain_name (sha c)) \<and>
     (\<forall>c \<in> S. blob_exists root (sha c) d \<longrightarrow> blob_get root (sha c) d = Inr c)"

lemma blob_get_reads: "blob_get root bid d = Inr c \<longleftrightarrow> reads d (blob_path root bid) = Some c"
  by (auto simp: blob_get_def read_file_reads [symmetric] split: sum.splits)

lemma blob_path_inj:
  "root \<noteq> [] \<Longrightarrow> plain_name a \<Longrightarrow> plain_name b \<Longrightarrow> blob_path root a = blob_path root b \<Longrightarrow> a = b"
  unfolding blob_path_def
  by (rule path_join_inj [of root "[''blobs'', ''sha256'']"]) (auto simp: plain_name_def)

lemma blob_put_cases:
  assumes "blob_put sha root c d = (r, d')"
  obtains (dedupe) "os_stat d (blob_path root (sha c))" "r = Inr (sha c)" "d' = d"
  | (store) "\<not> os_stat d (blob_path root (sha c))" "r = Inr (sha c)"
      "write_file (blob_path root (sha c)) c d = Inr d'"
  | (fail) e where "\<not> os_stat d (blob_path root (sha c))" "r = Inl (Blob_Put e)" "d' = d"
      "write_file (blob_path root (sha c)) c d = Inl e"
  using assms by (auto simp: blob_put_def Let_def split: if_splits sum.splits)

lemma blob_put_keeps:
  assumes "blob_put sha root c d = (r, d')" "blob_get root i d = Inr x"
  shows "blob_get root i d' = Inr x"
  using assms(1)
proof (cases rule: blob_put_cases)
  case store
  from assms(2) have "reads d (blob_path root i) = Some x" by (simp add: blob_get_reads)
  then have "blob_path root i \<noteq> blob_path root (sha c)" using store(1) reads_stat by metis
  then show ?thesis using assms(2) write_file_reads [OF store(3)] by (simp add: blob_get_reads)
qed (use assms(2) in auto)

lemma blob_put_ok:
  assumes "blob_ok sha root S d" "c \<in> S" "blob_put sha root c d = (r, d')"
  shows "blob_ok sha root S d'"
  using assms(3)
proof (cases rule: blob_put_cases)
  case store
  have "blob_get root (sha x) d' = Inr x" if "x \<in> S" "blob_exists root (sha x) d'" for x
  proof (cases "x = c")
    case True
    then show ?thesis using write_file_reads [OF store(3)] by (simp add: blob_get_reads)
  next
    case False
    then have "blob_path root (sha x) \<noteq> blob_path root (sha c)"
      using assms(1,2) that(1) unfolding blob_ok_def inj_on_def by (metis blob_path_inj)
    then show ?thesis using that assms(1) write_file_reads [OF store(3)] write_file_stat [OF store(3)]
      by (auto simp: blob_get_reads blob_ok_def blob_exists_def)
  qed
  then show ?thesis using assms(1) by (auto simp: blob_ok_def)
qed (use assms in auto)

interpretation blobs: content_store "blob_put sha root" "blob_get root" sha "blob_ok sha root"
  for sha root
proof unfold_locales
  fix c d bid d' S
  assume p: "blob_put sha root c d = (Inr bid, d')"
  then show bid: "bid = sha c" by (auto elim: blob_put_cases)
  assume ok: "blob_ok sha root S d" "c \<in> S"
  show get: "blob_get root bid d' = Inr c"
    using p
  proof (cases rule: blob_put_cases)
    case dedupe
    then show ?thesis using ok by (auto simp: blob_ok_def blob_exists_def)
  next
    case store
    then show ?thesis using write_file_reads by (auto simp: blob_get_reads)
  qed auto
  then show "blob_put sha root c d' = (Inr bid, d')"
    using bid by (auto simp: blob_put_def Let_def blob_get_reads dest: reads_stat)
qed (use blob_put_keeps blob_put_ok in blast)+

text \<open>What storing a blob leaves alone: every other file.\<close>

lemma blob_put_frame:
  "blob_put sha root c d = (r, d') \<Longrightarrow> p \<noteq> blob_path root (sha c) \<Longrightarrow> reads d' p = reads d p"
  by (auto elim!: blob_put_cases dest: write_file_reads)

section \<open>Properties\<close>

text \<open>A concrete injective digest and an empty store, to instantiate the properties with.\<close>

definition hex_sha :: "string \<Rightarrow> string" where
  "hex_sha c = CHR ''h'' # List.concat (map (\<lambda>x. [hex_digit (of_char x div 16), hex_digit (of_char x mod 16)]) c)"

lemma hex_digit_table:
  "list_all (\<lambda>m. hex_digit m \<noteq> CHR ''/'' \<and> list_all (\<lambda>n. hex_digit m = hex_digit n \<longrightarrow> m = n) [0..<16]) [0..<16]"
  by code_simp

lemma hex_digit_inj: "m < 16 \<Longrightarrow> n < 16 \<Longrightarrow> hex_digit m = hex_digit n \<Longrightarrow> m = n"
  using hex_digit_table by (auto simp: list_all_iff)

lemma hex_digit_plain: "n < 16 \<Longrightarrow> hex_digit n \<noteq> CHR ''/''"
  using hex_digit_table by (auto simp: list_all_iff)

lemma byte_halves: "of_char x div 16 < (16::nat)" "of_char x mod 16 < (16::nat)"
  by (rule less_mult_imp_div_less) simp_all

lemma hex_pair_inj:
  assumes "hex_digit (of_char x div 16) = hex_digit (of_char y div 16)"
    and "hex_digit (of_char x mod 16) = hex_digit (of_char y mod 16)"
  shows "x = y"
proof -
  have e: "of_char x div 16 = (of_char y div 16 :: nat)" "of_char x mod 16 = (of_char y mod 16 :: nat)"
    by (rule hex_digit_inj [OF byte_halves(1) byte_halves(1) assms(1)],
        rule hex_digit_inj [OF byte_halves(2) byte_halves(2) assms(2)])
  have "(of_char x :: nat) = of_char x div 16 * 16 + of_char x mod 16" by simp
  also have "\<dots> = of_char y" unfolding e by simp
  finally show ?thesis by simp
qed

lemma hex_sha_inj: "inj hex_sha"
proof (rule injI)
  fix a b :: string
  assume "hex_sha a = hex_sha b"
  then show "a = b"
  proof (induction a arbitrary: b)
    case Nil
    then show ?case by (cases b) (auto simp: hex_sha_def)
  next
    case (Cons x a)
    then obtain y b' where b: "b = y # b'" by (cases b) (auto simp: hex_sha_def)
    from Cons.prems have "hex_digit (of_char x div 16) = hex_digit (of_char y div 16)"
      "hex_digit (of_char x mod 16) = hex_digit (of_char y mod 16)" "hex_sha a = hex_sha b'"
      by (simp_all add: hex_sha_def b)
    with Cons.IH [of b'] hex_pair_inj b show ?case by blast
  qed
qed

lemma hex_sha_no_slash: "CHR ''/'' \<notin> set (hex_sha c)"
proof (induction c)
  case (Cons x c)
  have "CHR ''/'' \<noteq> hex_digit (of_char x div 16)" "CHR ''/'' \<noteq> hex_digit (of_char x mod 16)"
    using hex_digit_plain [OF byte_halves(1) [of x]] hex_digit_plain [OF byte_halves(2) [of x]] by metis+
  with Cons show ?case by (simp add: hex_sha_def)
qed (simp add: hex_sha_def)

lemma hex_sha_plain: "plain_name (hex_sha c)"
  using hex_sha_no_slash [of c] by (simp add: plain_name_def) (simp add: hex_sha_def)

definition ex_disk :: disk where
  "ex_disk = \<lparr>d_files = [], d_dirs = [''.'', ''h'', ''h/blobs'', ''h/blobs/sha256''], d_bad = []\<rparr>"

text \<open> Storing a blob and reading it back by the returned id gives the stored bytes, for
  every content on which the digest does not collide with another stored content, and
  whatever other blobs are stored before and after. \<close>

theorem blob_roundtrip:
  assumes "blob_ok sha root S d" "set cs \<subseteq> S"
    and "put_all (blob_put sha root) cs d = (Inr ids, d')"
  shows "ids = map sha cs \<and> list_all2 (\<lambda>i c. blob_get root i d' = Inr c) ids cs"
  using blobs.put_all_addr [OF assms(3)] blobs.put_all_get [OF assms] by blast

lemma ex_disk_blob_ok: "blob_ok hex_sha ''h'' {''ab'', ''c''} ex_disk"
proof -
  have "hex_sha ''ab'' = ''h6162''" "hex_sha ''c'' = ''h63''" by code_simp+
  moreover have "plain_name ''h6162''" "plain_name ''h63''"
    "\<not> blob_exists ''h'' ''h6162'' ex_disk" "\<not> blob_exists ''h'' ''h63'' ex_disk" by code_simp+
  ultimately show ?thesis by (simp add: blob_ok_def)
qed

theorem blob_roundtrip_witness:
  "list_all2 (\<lambda>i c. blob_get ''h'' i (snd (put_all (blob_put hex_sha ''h'') [''ab'', ''c''] ex_disk)) = Inr c)
     [''h6162'', ''h63''] [''ab'', ''c'']"
proof -
  have "fst (put_all (blob_put hex_sha ''h'') [''ab'', ''c''] ex_disk) = Inr [''h6162'', ''h63'']"
    by code_simp
  then have "put_all (blob_put hex_sha ''h'') [''ab'', ''c''] ex_disk = (Inr [''h6162'', ''h63''],
      snd (put_all (blob_put hex_sha ''h'') [''ab'', ''c''] ex_disk))"
    by (metis prod.collapse)
  moreover have "set [''ab'', ''c''] \<subseteq> {''ab'', ''c''}" by simp
  ultimately show ?thesis by (blast dest: blob_roundtrip [OF ex_disk_blob_ok])
qed

end
