(* ===== verification/Prompt_Sectioner.thy ===== *)
theory Prompt_Sectioner
  imports Prelude
begin

text \<open>
  The splitting of a raw prompt into typed sections, \<open>heaven/sectioner.go\<close>: at markdown
  headings outside code fences, a type from the words of the title, and a cut of what is
  too long at paragraph ends. The digest \<open>sha\<close> and the Unicode part of \<open>strings.ToLower\<close>
  (\<open>ul\<close>) are parameters.
\<close>

record prompt_section =
  sec_index :: nat
  sec_type :: string
  sec_title :: string
  sec_content :: string
  sec_sha :: string
  sec_off :: nat
  sec_len :: nat

section \<open>Headings and code fences\<close>

definition is_heading :: "string \<Rightarrow> bool" where
  "is_heading line \<longleftrightarrow> has_prefix line ''# '' \<or> has_prefix line ''## '' \<or> has_prefix line ''### ''"

definition heading_title :: "string \<Rightarrow> string" where
  "heading_title line = trim_space (trim_left_set line ''#'')"

definition fence :: string where
  "fence = [CHR 0x60, CHR 0x60, CHR 0x60]"

text \<open>One pass over the lines: finished chunks, current content, current title, inside a
  fence. A chunk is its title and content.\<close>

record head_state =
  hs_done :: "(string \<times> string) list"
  hs_cur :: string
  hs_title :: string
  hs_fence :: bool

definition heading_step :: "string \<Rightarrow> head_state \<Rightarrow> head_state" where
  "heading_step line st =
     (let trimmed = trim_space line;
          fenced = (if has_prefix trimmed fence then \<not> hs_fence st else hs_fence st);
          cuts = (\<not> fenced \<and> is_heading trimmed);
          st1 = (if cuts \<and> hs_cur st \<noteq> []
                 then st\<lparr>hs_done := hs_done st @ [(hs_title st, hs_cur st)], hs_cur := [],
                         hs_title := heading_title trimmed\<rparr>
                 else if cuts \<and> hs_cur st = [] then st\<lparr>hs_title := heading_title trimmed\<rparr>
                 else st)
      in st1\<lparr>hs_cur := hs_cur st1 @ line, hs_fence := fenced\<rparr>)"

definition split_on_headings :: "string \<Rightarrow> (string \<times> string) list" where
  "split_on_headings text =
     (let st = fold heading_step (split_after LF text)
                 \<lparr>hs_done = [], hs_cur = [], hs_title = [], hs_fence = False\<rparr>;
          secs = (if hs_cur st \<noteq> [] then hs_done st @ [(hs_title st, hs_cur st)] else hs_done st)
      in if secs = [] then [([], text)] else secs)"

section \<open>The type of a section\<close>

definition sentinels :: "(string \<times> string list) list" where
  "sentinels =
     [(''constraints'', [''constraint'', ''rule'', ''must'', ''never'']),
      (''acceptance'', [''acceptance'', ''criteria'', ''pass'', ''verify'']),
      (''api'', [''api'', ''endpoint'', ''contract'', ''interface'']),
      (''examples'', [''example'', ''sample'', ''demo'']),
      (''security'', [''security'', ''auth'', ''permission'']),
      (''style'', [''style'', ''format'', ''convention'']),
      (''glossary'', [''glossary'', ''definition'', ''term'']),
      (''spec'', [''spec'', ''requirement'', ''overview'', ''summary''])]"

definition classify_sentinel :: "(string \<Rightarrow> string) \<Rightarrow> string \<Rightarrow> string" where
  "classify_sentinel ul title =
     (let lower = to_lower ul title
      in case find (\<lambda>(ty, kws). list_ex (\<lambda>kw. contains lower kw) kws) sentinels of
           None \<Rightarrow> ''other''
         | Some (ty, kws) \<Rightarrow> ty)"

section \<open>Cutting long sections\<close>

text \<open>Where \<open>splitAtParagraphs\<close> cuts a text longer than \<open>mx\<close>: after the last blank line, else
  after the last line feed, else hard at \<open>mx\<close>.\<close>

definition split_idx :: "nat \<Rightarrow> string \<Rightarrow> nat" where
  "split_idx mx remaining =
     (let cutoff = take mx remaining;
          i1 = last_index_of cutoff [LF, LF];
          i2 = (case i1 of Some (Suc i) \<Rightarrow> i1 | _ \<Rightarrow> last_index_of cutoff [LF])
      in case i2 of
           Some (Suc i) \<Rightarrow>
             (let k = Suc i + 1
              in if k < length cutoff \<and> cutoff ! k = LF then k + 1 else k)
         | _ \<Rightarrow> mx)"

text \<open>The loop; with \<open>mx = 0\<close> it makes no progress and never returns (\<open>None\<close>).\<close>

partial_function (option) split_loop :: "nat \<Rightarrow> string \<Rightarrow> string list option" where
  "split_loop mx remaining =
     (if mx < length remaining
      then (let k = split_idx mx remaining
            in Option.bind (split_loop mx (drop k remaining)) (\<lambda>ps. Some (take k remaining # ps)))
      else Some (if remaining = [] then [] else [remaining]))"

definition split_at_paragraphs :: "string \<Rightarrow> nat \<Rightarrow> string list option" where
  "split_at_paragraphs text mx = (if length text \<le> mx then Some [text] else split_loop mx text)"

text \<open>A chunk is now a type, a title and a content; the parts after the first are marked.\<close>

definition cont_parts :: "string \<Rightarrow> string \<Rightarrow> string list \<Rightarrow> (string \<times> string \<times> string) list" where
  "cont_parts ty title parts =
     map (\<lambda>(i, p). (ty, if 0 < i then title @ '' (cont.)'' else title, p)) (List.enumerate 0 parts)"

fun split_large :: "nat \<Rightarrow> (string \<times> string \<times> string) list \<Rightarrow> (string \<times> string \<times> string) list option" where
  "split_large mx [] = Some []"
| "split_large mx ((ty, title, c) # cs) =
     (if length c \<le> mx then map_option (\<lambda>r. (ty, title, c) # r) (split_large mx cs)
      else case split_at_paragraphs c mx of
        None \<Rightarrow> None
      | Some parts \<Rightarrow> map_option (\<lambda>r. cont_parts ty title parts @ r) (split_large mx cs))"

fun number_sections ::
  "(string \<Rightarrow> string) \<Rightarrow> nat \<Rightarrow> nat \<Rightarrow> (string \<times> string \<times> string) list \<Rightarrow> prompt_section list" where
  "number_sections sha i off [] = []"
| "number_sections sha i off ((ty, title, c) # cs) =
     \<lparr>sec_index = i, sec_type = ty, sec_title = title, sec_content = c, sec_sha = sha c,
      sec_off = off, sec_len = length c\<rparr> # number_sections sha (Suc i) (off + length c) cs"

definition section_prompt ::
  "(string \<Rightarrow> string) \<Rightarrow> (string \<Rightarrow> string) \<Rightarrow> nat \<Rightarrow> string \<Rightarrow> prompt_section list option" where
  "section_prompt sha ul mx raw =
     (if raw = []
      then Some [\<lparr>sec_index = 0, sec_type = ''other'', sec_title = [], sec_content = [],
                  sec_sha = sha [], sec_off = 0, sec_len = 0\<rparr>]
      else map_option (number_sections sha 0 0)
             (split_large mx (map (\<lambda>(t, c). (classify_sentinel ul t, t, c)) (split_on_headings raw))))"

definition default_section_bytes :: nat where
  "default_section_bytes = 4096"

section \<open>What the steps keep\<close>

lemma heading_step_content:
  "List.concat (map snd (hs_done (heading_step l st))) @ hs_cur (heading_step l st)
     = List.concat (map snd (hs_done st)) @ hs_cur st @ l"
  by (simp add: heading_step_def Let_def)

lemma heading_fold_content:
  "List.concat (map snd (hs_done (fold heading_step ls st))) @ hs_cur (fold heading_step ls st)
     = List.concat (map snd (hs_done st)) @ hs_cur st @ List.concat ls"
proof (induction ls arbitrary: st)
  case (Cons l ls)
  have "List.concat (map snd (hs_done (heading_step l st))) @ hs_cur (heading_step l st) @ t
     = List.concat (map snd (hs_done st)) @ hs_cur st @ l @ t" for t
    using heading_step_content [of l st] by (metis append_assoc)
  with Cons show ?case by simp
qed simp

lemma split_on_headings_concat: "List.concat (map snd (split_on_headings text)) = text"
  using heading_fold_content [of "split_after LF text" "\<lparr>hs_done = [], hs_cur = [], hs_title = [], hs_fence = False\<rparr>"]
  by (auto simp: split_on_headings_def Let_def concat_split_after)

lemma split_on_headings_ne: "split_on_headings text \<noteq> []"
  by (simp add: split_on_headings_def Let_def)

lemma split_idx_bounds:
  assumes "0 < mx" "mx < length s"
  shows "0 < split_idx mx s \<and> split_idx mx s \<le> mx"
proof -
  have i: "last_index_of (take mx s) [LF] = Some i \<Longrightarrow> Suc i \<le> mx" for i
    using last_index_of_Some [of "take mx s" "[LF]" i] assms by simp
  have j: "last_index_of (take mx s) [LF, LF] = Some i \<Longrightarrow> Suc (Suc i) \<le> mx" for i
    using last_index_of_Some [of "take mx s" "[LF, LF]" i] assms by simp
  show ?thesis
    using assms by (auto simp: split_idx_def Let_def split: option.splits nat.splits dest!: i j)
qed

lemma split_loop_ok:
  assumes "0 < mx"
  shows "\<exists>ps. split_loop mx s = Some ps \<and> List.concat ps = s \<and> (\<forall>p \<in> set ps. p \<noteq> [] \<and> length p \<le> mx)"
proof (induction s rule: length_induct)
  case (1 s)
  show ?case
  proof (cases "mx < length s")
    case True
    note b = split_idx_bounds [OF assms True]
    then have "length (drop (split_idx mx s) s) < length s" using True unfolding length_drop by linarith
    with 1 obtain ps where ps: "split_loop mx (drop (split_idx mx s) s) = Some ps"
      "List.concat ps = drop (split_idx mx s) s" "\<forall>p \<in> set ps. p \<noteq> [] \<and> length p \<le> mx" by blast
    have "split_loop mx s = Some (take (split_idx mx s) s # ps)"
      using True ps(1) by (subst split_loop.simps) simp
    with ps b True show ?thesis by auto
  next
    case False
    then show ?thesis by (subst split_loop.simps) auto
  qed
qed

lemma split_large_ok:
  assumes "0 < mx"
  shows "\<exists>r. split_large mx cs = Some r \<and> List.concat (map (\<lambda>c. snd (snd c)) r) = List.concat (map (\<lambda>c. snd (snd c)) cs)
    \<and> (\<forall>c \<in> set r. length (snd (snd c)) \<le> mx)"
proof (induction cs)
  case (Cons c cs)
  obtain ty title x where c: "c = (ty, title, x)" by (cases c)
  obtain r where r: "split_large mx cs = Some r" "List.concat (map (\<lambda>c. snd (snd c)) r) = List.concat (map (\<lambda>c. snd (snd c)) cs)"
    "\<forall>c \<in> set r. length (snd (snd c)) \<le> mx" using Cons by blast
  show ?case
  proof (cases "length x \<le> mx")
    case False
    obtain ps where ps: "split_loop mx x = Some ps" "List.concat ps = x" "\<forall>p \<in> set ps. length p \<le> mx"
      using split_loop_ok [OF assms, of x] by blast
    have m: "map (\<lambda>c. snd (snd c)) (cont_parts ty title ps) = ps"
      by (simp add: cont_parts_def comp_def case_prod_beta)
    then have "\<forall>c \<in> set (cont_parts ty title ps). snd (snd c) \<in> set ps"
      by (metis (no_types, lifting) image_eqI list.set_map)
    moreover have "split_large mx ((ty, title, x) # cs) = Some (cont_parts ty title ps @ r)"
      using ps(1) r(1) False by (simp add: split_at_paragraphs_def)
    ultimately show ?thesis using ps(2,3) r(3)
      by (auto simp: c m r(2) simp del: split_large.simps)
  qed (use r c in auto)
qed simp

lemma number_sections_facts:
  "map sec_content (number_sections sha i off cs) = map (\<lambda>c. snd (snd c)) cs"
  "map sec_index (number_sections sha i off cs) = [i..<i + length cs]"
  "\<forall>s \<in> set (number_sections sha i off cs). sec_sha s = sha (sec_content s) \<and> sec_len s = length (sec_content s)"
  by (induction sha i off cs rule: number_sections.induct)
    (auto simp: upt_rec)

lemma number_sections_off:
  "n < length cs \<Longrightarrow> sec_off (number_sections sha i off cs ! n) =
     off + length (List.concat (map (\<lambda>c. snd (snd c)) (take n cs)))"
proof (induction sha i off cs arbitrary: n rule: number_sections.induct)
  case (2 sha i off ty title c cs)
  then show ?case by (cases n) auto
qed simp

lemma length_number_sections [simp]: "length (number_sections sha i off cs) = length cs"
  by (induction sha i off cs rule: number_sections.induct) auto

lemma section_prompt_spec:
  assumes "0 < mx"
  shows "\<exists>secs. section_prompt sha ul mx raw = Some secs \<and>
    List.concat (map sec_content secs) = raw \<and>
    map sec_index secs = [0..<length secs] \<and>
    (\<forall>s \<in> set secs. length (sec_content s) \<le> mx \<and> sec_len s = length (sec_content s)
       \<and> sec_sha s = sha (sec_content s)) \<and>
    (\<forall>n < length secs. sec_off (secs ! n) = length (List.concat (map sec_content (take n secs))))"
proof (cases "raw = []")
  case False
  let ?cs = "map (\<lambda>(t, c). (classify_sentinel ul t, t, c)) (split_on_headings raw)"
  have snds: "map (\<lambda>c. snd (snd c)) ?cs = map snd (split_on_headings raw)" by (simp add: comp_def case_prod_beta)
  obtain r where r: "split_large mx ?cs = Some r"
    "List.concat (map (\<lambda>c. snd (snd c)) r) = raw" "\<forall>c \<in> set r. length (snd (snd c)) \<le> mx"
    using split_large_ok [OF assms, of ?cs] unfolding snds split_on_headings_concat by blast
  let ?s = "number_sections sha 0 0 r"
  note f = number_sections_facts [of sha 0 0 r]
  have "sec_content ` set ?s = (\<lambda>c. snd (snd c)) ` set r" using f(1) by (metis set_map)
  with r(3) f(3) have "\<forall>s \<in> set ?s. length (sec_content s) \<le> mx \<and> sec_len s = length (sec_content s)
       \<and> sec_sha s = sha (sec_content s)" by fastforce
  moreover have "\<forall>n < length ?s. sec_off (?s ! n) = length (List.concat (map sec_content (take n ?s)))"
    using number_sections_off [of _ r sha 0 0] f(1) by (simp add: take_map [symmetric])
  ultimately show ?thesis using r(1,2) f(1,2) False by (simp add: section_prompt_def)
qed (use assms in \<open>simp add: section_prompt_def\<close>)

section \<open>Properties\<close>

text \<open> C10: sectioning returns for every prompt and every positive limit; the contents of the
  sections, in order, are the raw prompt byte for byte; no section is longer than the limit;
  index, offset, length and digest of each section are those of its content. \<close>

theorem section_prompt_partition:
  assumes "0 < mx"
  shows "\<exists>secs. section_prompt sha ul mx raw = Some secs \<and>
    List.concat (map sec_content secs) = raw \<and>
    map sec_index secs = [0..<length secs] \<and>
    (\<forall>s \<in> set secs. length (sec_content s) \<le> mx \<and> sec_len s = length (sec_content s)
       \<and> sec_sha s = sha (sec_content s)) \<and>
    (\<forall>n < length secs. sec_off (secs ! n) = length (List.concat (map sec_content (take n secs))))"
  by (rule section_prompt_spec [OF assms])

theorem section_prompt_partition_witness:
  "\<exists>secs. section_prompt (\<lambda>s. nat_str (length s)) (\<lambda>s. s) 8 (''# A'' @ [LF] @ ''text'' @ [LF]) = Some secs \<and>
    List.concat (map sec_content secs) = ''# A'' @ [LF] @ ''text'' @ [LF]"
proof -
  have "0 < (8::nat)" by simp
  from section_prompt_partition [OF this, of "\<lambda>s. nat_str (length s)" "\<lambda>s. s" "''# A'' @ [LF] @ ''text'' @ [LF]"]
  show ?thesis by blast
qed

end
