(* ===== verification/Prompt_Store.thy ===== *)
theory Prompt_Store
  imports Blob_Store Prompt_Sectioner
begin

text \<open>
  The content-addressed prompts of the daemon, \<open>heaven/prompt.go\<close>: a prompt is sectioned
  once, its raw bytes go to the blob store, and it is read back through its digest. A
  revision of a prompt carries the list of sections that changed.

  The store is the map from prompt id to artifact; the blobs are on the disk.
\<close>

section \<open>The state\<close>

datatype delta_op = D_Add | D_Remove | D_Replace

record section_delta =
  sd_op :: delta_op
  sd_index :: nat
  sd_old :: string
  sd_new :: string

record prompt_artifact =
  pa_id :: string
  pa_blob :: blob_id
  pa_sections :: "prompt_section list"
  pa_bytes :: nat
  pa_tokens :: nat
  pa_count :: nat
  pa_created :: string
  pa_parent :: string
  pa_deltas :: "section_delta list"

type_synonym prompts = "(string \<times> prompt_artifact) list"

datatype prompt_error =
    Prompt_Not_Found string
  | Prompt_Put_Raw blob_error
  | Prompt_Fetch blob_error
  | Prompt_Hash string string
  | Prompt_Range int nat

section \<open>The operations\<close>

text \<open>The sections of a prompt under the default limit; sectioning always returns.\<close>

definition default_sections :: "(string \<Rightarrow> string) \<Rightarrow> (string \<Rightarrow> string) \<Rightarrow> string \<Rightarrow> prompt_section list" where
  "default_sections sha ul raw =
     (case section_prompt sha ul default_section_bytes raw of None \<Rightarrow> [] | Some secs \<Rightarrow> secs)"

definition prompt_get :: "string \<Rightarrow> prompts \<Rightarrow> prompt_error + prompt_artifact" where
  "prompt_get pid ps = (case map_of ps pid of None \<Rightarrow> Inl (Prompt_Not_Found pid) | Some a \<Rightarrow> Inr a)"

definition prompt_store ::
  "(string \<Rightarrow> string) \<Rightarrow> (string \<Rightarrow> string) \<Rightarrow> path \<Rightarrow> string \<Rightarrow> string \<Rightarrow> prompts \<times> disk \<Rightarrow>
   (prompt_error + prompt_artifact) \<times> prompts \<times> disk" where
  "prompt_store sha ul root now raw st =
     (let (ps, d) = st; pid = sha raw
      in case map_of ps pid of
           Some existing \<Rightarrow> (Inr existing, ps, d)
         | None \<Rightarrow>
             (case blob_put sha root raw d of
                (Inl e, d') \<Rightarrow> (Inl (Prompt_Put_Raw e), ps, d')
              | (Inr bid, d') \<Rightarrow>
                  (let secs = default_sections sha ul raw;
                       a = \<lparr>pa_id = pid, pa_blob = bid, pa_sections = secs, pa_bytes = length raw,
                            pa_tokens = sum_list (map (\<lambda>s. length (sec_content s) div 4 + 10) secs),
                            pa_count = length secs, pa_created = now, pa_parent = [], pa_deltas = []\<rparr>
                   in (Inr a, aput pid a ps, d'))))"

definition prompt_get_section :: "string \<Rightarrow> int \<Rightarrow> prompts \<Rightarrow> prompt_error + prompt_section" where
  "prompt_get_section pid i ps =
     (case prompt_get pid ps of
        Inl e \<Rightarrow> Inl e
      | Inr a \<Rightarrow>
          (if i < 0 \<or> int (length (pa_sections a)) \<le> i then Inl (Prompt_Range i (length (pa_sections a)))
           else Inr (pa_sections a ! nat i)))"

definition prompt_search ::
  "(string \<Rightarrow> string) \<Rightarrow> string \<Rightarrow> string \<Rightarrow> prompts \<Rightarrow> prompt_error + prompt_section list" where
  "prompt_search ul pid query ps =
     (case prompt_get pid ps of
        Inl e \<Rightarrow> Inl e
      | Inr a \<Rightarrow> Inr (filter (\<lambda>s. contains (to_lower ul (sec_content s)) (to_lower ul query)
                                \<or> contains (to_lower ul (sec_title s)) (to_lower ul query)) (pa_sections a)))"

definition prompt_reconstruct ::
  "(string \<Rightarrow> string) \<Rightarrow> path \<Rightarrow> string \<Rightarrow> prompts \<times> disk \<Rightarrow> prompt_error + string" where
  "prompt_reconstruct sha root pid st =
     (case prompt_get pid (fst st) of
        Inl e \<Rightarrow> Inl e
      | Inr a \<Rightarrow>
          (case blob_get root (pa_blob a) (snd st) of
             Inl e \<Rightarrow> Inl (Prompt_Fetch e)
           | Inr c \<Rightarrow> (if sha c = pid then Inr c else Inl (Prompt_Hash (sha c) pid))))"

definition delta_at :: "prompt_section list \<Rightarrow> prompt_section list \<Rightarrow> nat \<Rightarrow> section_delta list" where
  "delta_at old new i =
     (if length old \<le> i then [\<lparr>sd_op = D_Add, sd_index = i, sd_old = [], sd_new = sec_sha (new ! i)\<rparr>]
      else if length new \<le> i then [\<lparr>sd_op = D_Remove, sd_index = i, sd_old = sec_sha (old ! i), sd_new = []\<rparr>]
      else if sec_sha (old ! i) \<noteq> sec_sha (new ! i)
        then [\<lparr>sd_op = D_Replace, sd_index = i, sd_old = sec_sha (old ! i), sd_new = sec_sha (new ! i)\<rparr>]
      else [])"

definition compute_deltas :: "prompt_section list \<Rightarrow> prompt_section list \<Rightarrow> section_delta list" where
  "compute_deltas old new = List.concat (map (delta_at old new) [0..<max (length old) (length new)])"

definition prompt_store_delta ::
  "(string \<Rightarrow> string) \<Rightarrow> (string \<Rightarrow> string) \<Rightarrow> path \<Rightarrow> string \<Rightarrow> string \<Rightarrow> string \<Rightarrow> prompts \<times> disk \<Rightarrow>
   (prompt_error + prompt_artifact) \<times> prompts \<times> disk" where
  "prompt_store_delta sha ul root now raw parent_id st =
     (case prompt_get parent_id (fst st) of
        Inl e \<Rightarrow> (Inl e, st)
      | Inr parent \<Rightarrow>
          (case prompt_store sha ul root now raw st of
             (Inl e, st') \<Rightarrow> (Inl e, st')
           | (Inr a, ps', d') \<Rightarrow>
               (let a' = a\<lparr>pa_parent := parent_id,
                           pa_deltas := compute_deltas (pa_sections parent) (pa_sections a)\<rparr>
                in (Inr a', aput (pa_id a') a' ps', d'))))"

section \<open>The invariant\<close>

text \<open>Every artifact is filed under the digest of bytes that are in the blob store and that its
  sections are a cut of.\<close>

definition artifact_ok :: "(string \<Rightarrow> string) \<Rightarrow> path \<Rightarrow> disk \<Rightarrow> string \<Rightarrow> prompt_artifact \<Rightarrow> bool" where
  "artifact_ok sha root d pid a \<longleftrightarrow>
     pa_id a = pid \<and>
     (\<exists>raw. sha raw = pid \<and> blob_get root (pa_blob a) d = Inr raw \<and>
        List.concat (map sec_content (pa_sections a)) = raw)"

definition prompts_inv :: "(string \<Rightarrow> string) \<Rightarrow> path \<Rightarrow> prompts \<times> disk \<Rightarrow> bool" where
  "prompts_inv sha root st \<longleftrightarrow> (\<forall>pid a. map_of (fst st) pid = Some a \<longrightarrow> artifact_ok sha root (snd st) pid a)"

lemma default_sections_concat: "List.concat (map sec_content (default_sections sha ul raw)) = raw"
proof -
  have "0 < default_section_bytes" by (simp add: default_section_bytes_def)
  from section_prompt_spec [OF this, of sha ul raw] show ?thesis
    by (auto simp: default_sections_def)
qed

lemma artifact_ok_mono:
  "artifact_ok sha root d pid a \<Longrightarrow> (\<And>i x. blob_get root i d = Inr x \<Longrightarrow> blob_get root i d' = Inr x) \<Longrightarrow>
   artifact_ok sha root d' pid a"
  unfolding artifact_ok_def by blast

lemma prompt_store_cases:
  assumes "prompt_store sha ul root now raw (ps, d) = (r, ps', d')"
  obtains (known) a where "map_of ps (sha raw) = Some a" "r = Inr a" "ps' = ps" "d' = d"
  | (failed) e where "map_of ps (sha raw) = None" "blob_put sha root raw d = (Inl e, d')"
      "r = Inl (Prompt_Put_Raw e)" "ps' = ps"
  | (stored) bid a where "map_of ps (sha raw) = None" "blob_put sha root raw d = (Inr bid, d')"
      "r = Inr a" "ps' = aput (sha raw) a ps" "pa_id a = sha raw" "pa_blob a = bid"
      "pa_sections a = default_sections sha ul raw"
  using assms by (auto simp: prompt_store_def Let_def split: option.splits prod.splits sum.splits)

lemma prompt_store_inv:
  assumes "prompts_inv sha root (ps, d)" "blob_ok sha root S d" "raw \<in> S"
    and "prompt_store sha ul root now raw (ps, d) = (r, ps', d')"
  shows "prompts_inv sha root (ps', d') \<and> blob_ok sha root S d' \<and>
    (\<forall>a. r = Inr a \<longrightarrow> map_of ps' (sha raw) = Some a \<and> pa_id a = sha raw)"
  using assms(4)
proof (cases rule: prompt_store_cases)
  case (known a)
  then show ?thesis using assms(1,2) by (auto simp: prompts_inv_def artifact_ok_def)
next
  case (failed e)
  have "prompts_inv sha root (ps, d')"
    using assms(1) artifact_ok_mono blob_put_keeps [OF failed(2)] unfolding prompts_inv_def by fastforce
  then show ?thesis using failed blob_put_ok [OF assms(2,3) failed(2)] by simp
next
  case (stored bid a)
  have "blob_get root bid d' = Inr raw" by (rule blobs.put_get [OF assms(2,3) stored(2)])
  then have "artifact_ok sha root d' (sha raw) a"
    using stored default_sections_concat [of sha ul raw] by (auto simp: artifact_ok_def)
  moreover have "artifact_ok sha root d' pid b" if "map_of ps pid = Some b" for pid b
    using that assms(1) artifact_ok_mono blob_put_keeps [OF stored(2)] unfolding prompts_inv_def by fastforce
  ultimately have "prompts_inv sha root (ps', d')" using stored by (auto simp: prompts_inv_def)
  then show ?thesis using stored blob_put_ok [OF assms(2,3) stored(2)] by simp
qed

lemma prompt_store_delta_inv:
  assumes "prompts_inv sha root (ps, d)" "blob_ok sha root S d" "raw \<in> S"
    and "prompt_store_delta sha ul root now raw parent (ps, d) = (r, ps', d')"
  shows "prompts_inv sha root (ps', d') \<and> blob_ok sha root S d'"
proof (cases "prompt_get parent ps")
  case (Inl e)
  then show ?thesis using assms by (auto simp: prompt_store_delta_def)
next
  case (Inr p)
  obtain r1 ps1 d1 where s: "prompt_store sha ul root now raw (ps, d) = (r1, ps1, d1)" by (rule prod_cases3)
  note i = prompt_store_inv [OF assms(1-3) s]
  show ?thesis
  proof (cases r1)
    case (Inl e)
    then show ?thesis using assms(4) \<open>prompt_get parent ps = Inr p\<close> s i by (simp add: prompt_store_delta_def)
  next
    case (Inr a)
    have eq: "ps' = aput (pa_id a) (a\<lparr>pa_parent := parent, pa_deltas := compute_deltas (pa_sections p) (pa_sections a)\<rparr>) ps1"
      "d' = d1"
      using assms(4) \<open>prompt_get parent ps = Inr p\<close> s Inr by (auto simp: prompt_store_delta_def Let_def)
    have "artifact_ok sha root d1 (pa_id a) a" using i Inr by (auto simp: prompts_inv_def)
    then have "artifact_ok sha root d1 (pa_id a)
        (a\<lparr>pa_parent := parent, pa_deltas := compute_deltas (pa_sections p) (pa_sections a)\<rparr>)"
      by (simp add: artifact_ok_def)
    then show ?thesis using i eq by (auto simp: prompts_inv_def)
  qed
qed

lemma prompt_reconstruct_inv:
  "prompts_inv sha root (ps, d) \<Longrightarrow> map_of ps pid = Some a \<Longrightarrow>
   \<exists>raw. prompt_reconstruct sha root pid (ps, d) = Inr raw \<and> sha raw = pid \<and>
     List.concat (map sec_content (pa_sections a)) = raw"
  by (fastforce simp: prompts_inv_def artifact_ok_def prompt_reconstruct_def prompt_get_def)

section \<open>What a delta means\<close>

text \<open>Deltas are applied to the digests of the parent's sections, in order.\<close>

definition apply_delta :: "section_delta \<Rightarrow> string list \<Rightarrow> string list" where
  "apply_delta dl shas =
     (case sd_op dl of
        D_Add \<Rightarrow> shas @ [sd_new dl]
      | D_Remove \<Rightarrow> take (sd_index dl) shas
      | D_Replace \<Rightarrow> shas[sd_index dl := sd_new dl])"

lemma apply_delta_simps:
  "apply_delta \<lparr>sd_op = D_Add, sd_index = i, sd_old = x, sd_new = y\<rparr> shas = shas @ [y]"
  "apply_delta \<lparr>sd_op = D_Remove, sd_index = i, sd_old = x, sd_new = y\<rparr> shas = take i shas"
  "apply_delta \<lparr>sd_op = D_Replace, sd_index = i, sd_old = x, sd_new = y\<rparr> shas = shas[i := y]"
  by (simp_all add: apply_delta_def)

text \<open>The digests after the deltas of the first \<open>k\<close> positions.\<close>

definition mixed_shas :: "prompt_section list \<Rightarrow> prompt_section list \<Rightarrow> nat \<Rightarrow> string list" where
  "mixed_shas old new k =
     map sec_sha (take k new) @ (if k \<le> length new then map sec_sha (drop k old) else [])"

lemma mixed_shas_step:
  assumes "k < max (length old) (length new)"
  shows "fold apply_delta (delta_at old new k) (mixed_shas old new k) = mixed_shas old new (Suc k)"
proof -
  consider "length old \<le> k" "k < length new" | "k < length old" "length new \<le> k"
    | "k < length old" "k < length new" using assms by linarith
  then show ?thesis
  proof cases
    case 1
    then show ?thesis
      by (simp add: delta_at_def apply_delta_simps mixed_shas_def take_Suc_conv_app_nth)
  next
    case 2
    then show ?thesis by (auto simp: delta_at_def apply_delta_simps mixed_shas_def)
  next
    case 3
    then have "map sec_sha (drop k old) = sec_sha (old ! k) # map sec_sha (drop (Suc k) old)"
      by (simp add: Cons_nth_drop_Suc [symmetric])
    with 3 show ?thesis
      by (simp add: delta_at_def apply_delta_simps mixed_shas_def take_Suc_conv_app_nth list_update_append min_def)
  qed
qed

lemma apply_delta_prefix:
  "k \<le> max (length old) (length new) \<Longrightarrow>
   fold apply_delta (List.concat (map (delta_at old new) [0..<k])) (map sec_sha old) = mixed_shas old new k"
proof (induction k)
  case 0
  show ?case by (simp add: mixed_shas_def)
next
  case (Suc k)
  then show ?case using mixed_shas_step [of k old new] by simp
qed

section \<open>Properties\<close>

text \<open> C11: a prompt that was stored can be reconstructed by its id: the bytes returned are the
  concatenation of its sections and have the digest of what was stored; a revision stored
  after it keeps the invariant under which every stored prompt can be reconstructed. \<close>

theorem prompt_store_reconstruct:
  assumes "prompts_inv sha root (ps, d)" "blob_ok sha root S d" "raw \<in> S" "raw2 \<in> S"
    and "prompt_store sha ul root now raw (ps, d) = (Inr a, ps1, d1)"
    and "prompt_store_delta sha ul root now2 raw2 parent (ps1, d1) = (r, ps2, d2)"
  shows "prompt_reconstruct sha root (pa_id a) (ps1, d1) = Inr (List.concat (map sec_content (pa_sections a)))
    \<and> sha (List.concat (map sec_content (pa_sections a))) = sha raw
    \<and> prompts_inv sha root (ps2, d2)"
proof -
  note i = prompt_store_inv [OF assms(1,2,3,5)]
  then have "map_of ps1 (sha raw) = Some a" "pa_id a = sha raw" "prompts_inv sha root (ps1, d1)" by auto
  with prompt_reconstruct_inv [of sha root ps1 d1 "sha raw" a] show ?thesis
    using prompt_store_delta_inv [of sha root ps1 d1 S raw2] i assms(4,6) by auto
qed

theorem prompt_store_reconstruct_witness:
  "\<exists>a ps1 d1. prompt_store hex_sha id ''h'' ''t'' ''ab'' ([], ex_disk) = (Inr a, ps1, d1)
    \<and> prompt_reconstruct hex_sha ''h'' (pa_id a) (ps1, d1) = Inr (List.concat (map sec_content (pa_sections a)))"
proof -
  have inv: "prompts_inv hex_sha ''h'' ([], ex_disk)" by (simp add: prompts_inv_def)
  have "fst (blob_put hex_sha ''h'' ''ab'' ex_disk) = Inr ''h6162''" by code_simp
  then obtain d0 where "blob_put hex_sha ''h'' ''ab'' ex_disk = (Inr ''h6162'', d0)" by (metis prod.collapse)
  then obtain a ps1 d1 where s: "prompt_store hex_sha id ''h'' ''t'' ''ab'' ([], ex_disk) = (Inr a, ps1, d1)"
    by (auto simp: prompt_store_def Let_def split: prod.splits)
  obtain r ps2 d2 where s2: "prompt_store_delta hex_sha id ''h'' ''t'' ''c'' ''x'' (ps1, d1) = (r, ps2, d2)"
    by (rule prod_cases3)
  from prompt_store_reconstruct [OF inv ex_disk_blob_ok _ _ s s2] s show ?thesis by blast
qed

text \<open> Whatever is on the disk, reconstructing a prompt never returns bytes whose digest is
  not the prompt id. \<close>

theorem prompt_reconstruct_verified:
  "prompt_reconstruct sha root pid st = Inr raw \<Longrightarrow> sha raw = pid"
  by (auto simp: prompt_reconstruct_def split: sum.splits if_splits)

theorem prompt_reconstruct_verified_witness:
  "hex_sha ''ab'' = ''h6162''"
proof -
  let ?a = "\<lparr>pa_id = ''h6162'', pa_blob = ''h6162'', pa_sections = [], pa_bytes = 2, pa_tokens = 0,
    pa_count = 0, pa_created = [], pa_parent = [], pa_deltas = []\<rparr>"
  have "blob_path ''h'' ''h6162'' = ''h/blobs/sha256/h6162''" "hex_sha ''ab'' = ''h6162''" by code_simp+
  then have "prompt_reconstruct hex_sha ''h'' ''h6162''
      ([(''h6162'', ?a)], ex_disk\<lparr>d_files := [(''h/blobs/sha256/h6162'', ''ab'')]\<rparr>) = Inr ''ab''"
    by (simp add: prompt_reconstruct_def prompt_get_def blob_get_def read_file_def ex_disk_def)
  then show ?thesis by (rule prompt_reconstruct_verified)
qed

text \<open> The delta list of a revision is complete: applied in order to the section digests of
  the parent it gives the section digests of the revision. \<close>

theorem compute_deltas_complete:
  "fold apply_delta (compute_deltas old new) (map sec_sha old) = map sec_sha new"
  using apply_delta_prefix [of "max (length old) (length new)" old new]
  by (auto simp: compute_deltas_def mixed_shas_def max_def split: if_splits)

end
