(* ===== verification/Mission_DAG.thy ===== *)
theory Mission_DAG
  imports Prelude
begin

text \<open>
  Missions and their dependency graph, \<open>god/mission.go\<close>, and the check of the plan an oracle
  returns, \<open>god/oracle.go\<close>: \<open>detect_cycle\<close> is the coloured depth-first search of the code.
  The recursion of \<open>visit\<close> is bounded by fuel; \<open>None\<close> is running out of it, and
  \<open>detect_cycle_decides\<close> shows that the fuel given, the number of names in the graph, is
  always enough. A Go slice that can be nil is an option where the code tests it for nil.
\<close>

section \<open>Missions\<close>

record scope =
  sc_type :: string
  sc_value :: string

record mission =
  mi_id :: string
  mi_goal :: string
  mi_base_rev :: string
  mi_scopes :: "scope list"
  mi_leases :: "string list"
  mi_tasks :: "string list"
  mi_budget :: int
  mi_created :: string

record dag_node =
  dn_mission :: mission
  dn_depends :: "string list"

record mission_dag =
  dag_plan :: string
  dag_task :: string
  dag_repo :: string
  dag_nodes :: "dag_node list option"
  dag_created :: string

abbreviation node_id :: "dag_node \<Rightarrow> string" where
  "node_id n \<equiv> mi_id (dn_mission n)"

definition nodes_of :: "mission_dag \<Rightarrow> dag_node list" where
  "nodes_of dag = (case dag_nodes dag of None \<Rightarrow> [] | Some ns \<Rightarrow> ns)"

definition new_mission_dag :: "string \<Rightarrow> string \<Rightarrow> string \<Rightarrow> string \<Rightarrow> mission_dag" where
  "new_mission_dag now plan task repo =
     \<lparr>dag_plan = plan, dag_task = task, dag_repo = repo, dag_nodes = Some [], dag_created = now\<rparr>"

definition add_node :: "dag_node \<Rightarrow> mission_dag \<Rightarrow> mission_dag" where
  "add_node n dag = dag\<lparr>dag_nodes := Some (nodes_of dag @ [n])\<rparr>"

definition mission_ids :: "mission_dag \<Rightarrow> string list" where
  "mission_ids dag = map node_id (nodes_of dag)"

definition dag_roots :: "mission_dag \<Rightarrow> dag_node list" where
  "dag_roots dag = filter (\<lambda>n. dn_depends n = []) (nodes_of dag)"

section \<open>Cycle detection\<close>

datatype colour = White | Gray | Black

type_synonym colours = "string \<Rightarrow> colour"
type_synonym deps = "string \<Rightarrow> string list"

definition deps_of :: "dag_node list \<Rightarrow> deps" where
  "deps_of nodes = fold (\<lambda>n deps. deps(node_id n := dn_depends n)) nodes (\<lambda>_. [])"

text \<open>\<open>Inl (v, d)\<close> is the error that the edge from \<open>v\<close> to \<open>d\<close> closes a cycle.\<close>

fun visit :: "nat \<Rightarrow> deps \<Rightarrow> string \<Rightarrow> colours \<Rightarrow> ((string \<times> string) + colours) option"
  and visit_deps :: "nat \<Rightarrow> deps \<Rightarrow> string \<Rightarrow> string list \<Rightarrow> colours \<Rightarrow> ((string \<times> string) + colours) option"
where
  "visit 0 deps v c = None"
| "visit (Suc n) deps v c =
     (case visit_deps n deps v (deps v) (c(v := Gray)) of
        Some (Inr c') \<Rightarrow> Some (Inr (c'(v := Black)))
      | r \<Rightarrow> r)"
| "visit_deps n deps v [] c = Some (Inr c)"
| "visit_deps n deps v (d # ds) c =
     (case c d of
        Gray \<Rightarrow> Some (Inl (v, d))
      | White \<Rightarrow>
          (case visit n deps d c of
             Some (Inr c') \<Rightarrow> visit_deps n deps v ds c'
           | r \<Rightarrow> r)
      | Black \<Rightarrow> visit_deps n deps v ds c)"

fun visit_all :: "nat \<Rightarrow> deps \<Rightarrow> string list \<Rightarrow> colours \<Rightarrow> ((string \<times> string) + colours) option" where
  "visit_all n deps [] c = Some (Inr c)"
| "visit_all n deps (v # vs) c =
     (if c v = White
      then (case visit n deps v c of
              Some (Inr c') \<Rightarrow> visit_all n deps vs c'
            | r \<Rightarrow> r)
      else visit_all n deps vs c)"

definition graph_names :: "dag_node list \<Rightarrow> string list" where
  "graph_names nodes = List.concat (map (\<lambda>n. node_id n # dn_depends n) nodes)"

definition detect_cycle :: "dag_node list \<Rightarrow> ((string \<times> string) + colours) option" where
  "detect_cycle nodes =
     visit_all (length (graph_names nodes)) (deps_of nodes) (map node_id nodes) (\<lambda>_. White)"

section \<open>The oracle's plan\<close>

record oracle_response =
  or_dag :: "mission_dag option"
  or_leases :: "scope list option"
  or_hotspots :: "string list option"
  or_tests :: "string list option"

datatype oracle_error =
    No_Dag | No_Plan_Id | Nil_Nodes | No_Nodes
  | No_Mission_Id nat | No_Goal nat
  | Cyclic string string
  | No_Leases | No_Hotspots | No_Tests

fun check_nodes :: "nat \<Rightarrow> dag_node list \<Rightarrow> oracle_error option" where
  "check_nodes i [] = None"
| "check_nodes i (n # ns) =
     (if node_id n = [] then Some (No_Mission_Id i)
      else if mi_goal (dn_mission n) = [] then Some (No_Goal i)
      else check_nodes (Suc i) ns)"

text \<open>\<open>None\<close> is a search that does not return, \<open>Some None\<close> an accepted plan.\<close>

definition validate_oracle :: "oracle_response \<Rightarrow> oracle_error option option" where
  "validate_oracle r =
     (case or_dag r of
        None \<Rightarrow> Some (Some No_Dag)
      | Some dag \<Rightarrow>
          (if dag_plan dag = [] then Some (Some No_Plan_Id)
           else case dag_nodes dag of
             None \<Rightarrow> Some (Some Nil_Nodes)
           | Some ns \<Rightarrow>
               (if ns = [] then Some (Some No_Nodes)
                else case check_nodes 0 ns of
                  Some e \<Rightarrow> Some (Some e)
                | None \<Rightarrow>
                    (case detect_cycle ns of
                       None \<Rightarrow> None
                     | Some (Inl (v, d)) \<Rightarrow> Some (Some (Cyclic v d))
                     | Some (Inr _) \<Rightarrow>
                         (if or_leases r = None then Some (Some No_Leases)
                          else if or_hotspots r = None then Some (Some No_Hotspots)
                          else if or_tests r = None then Some (Some No_Tests)
                          else Some None)))))"

section \<open>The search\<close>

definition edges :: "deps \<Rightarrow> (string \<times> string) set" where
  "edges deps = {(v, d). d \<in> set (deps v)}"

text \<open>Black names are closed under the edges, and no cycle runs through them.\<close>

definition search_inv :: "deps \<Rightarrow> colours \<Rightarrow> bool" where
  "search_inv deps c \<longleftrightarrow>
     (\<forall>v d. c v = Black \<and> d \<in> set (deps v) \<longrightarrow> c d = Black) \<and>
     acyclic {(v, d). d \<in> set (deps v) \<and> c v = Black}"

lemma search_inv_closed: "search_inv deps c \<Longrightarrow> c v = Black \<Longrightarrow> d \<in> set (deps v) \<Longrightarrow> c d = Black"
  by (auto simp: search_inv_def)

lemma search_inv_gray: "search_inv deps c \<Longrightarrow> c v = White \<Longrightarrow> search_inv deps (c(v := Gray))"
  by (force simp: search_inv_def split: if_splits elim!: acyclic_subset)

lemma search_inv_black:
  assumes "search_inv deps c" "c v = Gray" "\<forall>d \<in> set (deps v). c d = Black"
  shows "search_inv deps (c(v := Black))"
proof -
  define R where "R = {(x, d). d \<in> set (deps x) \<and> c x = Black}"
  define S where "S = R \<union> {v} \<times> set (deps v)"
  have R: "acyclic R" using assms(1) by (simp add: search_inv_def R_def)
  have step: "(y, z) \<in> R \<and> c z = Black" if "(y, z) \<in> S" "c y = Black" for y z
    using that assms(2) search_inv_closed [OF assms(1)] by (auto simp: S_def R_def)
  have stay: "c z = Black \<and> (y, z) \<in> R\<^sup>+" if "(y, z) \<in> S\<^sup>+" "c y = Black" for y z
    using that by (induction rule: trancl_induct) (meson r_into_trancl step trancl_into_trancl)+
  have "acyclic S"
  proof (rule acyclicI, rule allI, rule notI)
    fix x assume x: "(x, x) \<in> S\<^sup>+"
    show False
    proof (cases "c x = Black")
      case True
      with stay [OF x] R show False by (simp add: acyclic_def)
    next
      case False
      from x obtain y where y: "(x, y) \<in> S" "y = x \<or> (y, x) \<in> S\<^sup>+" by (blast elim: converse_tranclE)
      with False assms(3) have "c y = Black" by (auto simp: S_def R_def)
      with y(2) stay [of y x] False show False by blast
    qed
  qed
  moreover have "{(x, d). d \<in> set (deps x) \<and> (c(v := Black)) x = Black} \<subseteq> S"
    by (auto simp: S_def R_def split: if_splits)
  ultimately have "acyclic {(x, d). d \<in> set (deps x) \<and> (c(v := Black)) x = Black}"
    by (rule acyclic_subset)
  with assms(3) search_inv_closed [OF assms(1)] show ?thesis
    unfolding search_inv_def fun_upd_apply by (metis colour.distinct(5))
qed

text \<open>What a search that ends without an error has done.\<close>

definition extends :: "colours \<Rightarrow> colours \<Rightarrow> bool" where
  "extends c c' \<longleftrightarrow> (\<forall>x. c x \<noteq> White \<longrightarrow> c' x = c x) \<and> (\<forall>x. c' x = Gray \<longrightarrow> c x = Gray)"

lemma extends_refl [simp]: "extends c c"
  by (simp add: extends_def)

lemma extends_trans: "extends c c1 \<Longrightarrow> extends c1 c2 \<Longrightarrow> extends c c2"
  unfolding extends_def by metis

lemma extends_same: "extends c c' \<Longrightarrow> c x \<noteq> White \<Longrightarrow> c' x = c x"
  unfolding extends_def by blast

lemma extends_visit:
  assumes "extends (c(v := Gray)) c'" "c v = White"
  shows "extends c (c'(v := Black))"
  unfolding extends_def
proof (intro conjI allI impI)
  fix x assume x: "c x \<noteq> White"
  with assms(2) have "v \<noteq> x" by blast
  then show "(c'(v := Black)) x = c x"
    using extends_same [OF assms(1), of x] x by simp
next
  fix x assume x: "(c'(v := Black)) x = Gray"
  then have v: "v \<noteq> x" by (metis colour.distinct(5) fun_upd_same)
  with x have "c' x = Gray" by (simp only: fun_upd_other not_sym)
  with assms(1) have "(c(v := Gray)) x = Gray" unfolding extends_def by blast
  with v show "c x = Gray" by (simp only: fun_upd_other not_sym)
qed

lemma visit_sound:
  "visit n deps v c = Some (Inr c') \<Longrightarrow> search_inv deps c \<Longrightarrow> c v = White \<Longrightarrow>
   search_inv deps c' \<and> c' v = Black \<and> extends c c'"
  "visit_deps n deps v ds c = Some (Inr c') \<Longrightarrow> search_inv deps c \<Longrightarrow>
   search_inv deps c' \<and> (\<forall>d \<in> set ds. c' d = Black) \<and> extends c c'"
proof (induction n deps v c and n deps v ds c arbitrary: c' and c' rule: visit_visit_deps.induct)
  case (2 n deps v c)
  from 2(2) obtain c1 where c1: "visit_deps n deps v (deps v) (c(v := Gray)) = Some (Inr c1)" "c' = c1(v := Black)"
    by (auto split: option.splits sum.splits)
  note ih = 2(1) [OF c1(1) search_inv_gray [OF 2(3,4)]]
  then have "c1 v = (c(v := Gray)) v" by (intro extends_same) (simp_all only: fun_upd_same colour.distinct not_False_eq_True)
  then have "c1 v = Gray" by simp
  with ih have "search_inv deps c'" unfolding c1(2) by (intro search_inv_black) auto
  moreover have "extends c c'" "c' v = Black" using ih 2(4) extends_visit unfolding c1(2) by (blast, simp)
  ultimately show ?case by blast
next
  case (4 n deps v d ds c)
  show ?case
  proof (cases "c d")
    case White
    with 4(4) obtain c1 where c1: "visit n deps d c = Some (Inr c1)" "visit_deps n deps v ds c1 = Some (Inr c')"
      by (auto split: option.splits sum.splits)
    note a = 4(1) [OF White c1(1) 4(5) White]
    then have "search_inv deps c1" by simp
    note b = 4(2) [OF White c1(1) refl c1(2) this]
    from a b have "c' d = Black" using extends_same [of c1 c' d] by simp
    with a b show ?thesis by (simp add: extends_trans [of c c1 c'])
  next
    case Gray
    with 4(4) show ?thesis by simp
  next
    case Black
    then have "visit_deps n deps v ds c = Some (Inr c')" using 4(4) by simp
    from 4(3) [OF Black this 4(5)] show ?thesis using extends_same [of c c' d] Black by simp
  qed
qed auto

text \<open>An error names an edge that lies on a cycle: the gray names lead to the current one.\<close>

lemma visit_cycle:
  "visit n deps v c = Some (Inl (a, b)) \<Longrightarrow> search_inv deps c \<Longrightarrow> c v = White \<Longrightarrow>
   \<forall>g. c g = Gray \<longrightarrow> (g, v) \<in> (edges deps)\<^sup>* \<Longrightarrow> (a, b) \<in> edges deps \<and> (b, a) \<in> (edges deps)\<^sup>*"
  "visit_deps n deps v ds c = Some (Inl (a, b)) \<Longrightarrow> search_inv deps c \<Longrightarrow> set ds \<subseteq> set (deps v) \<Longrightarrow>
   \<forall>g. c g = Gray \<longrightarrow> (g, v) \<in> (edges deps)\<^sup>* \<Longrightarrow> (a, b) \<in> edges deps \<and> (b, a) \<in> (edges deps)\<^sup>*"
proof (induction n deps v c and n deps v ds c rule: visit_visit_deps.induct)
  case (2 n deps v c)
  have "visit_deps n deps v (deps v) (c(v := Gray)) = Some (Inl (a, b))"
    using 2(2) by (auto split: option.splits sum.splits)
  from 2(1) [OF this search_inv_gray [OF 2(3,4)] subset_refl] 2(5) show ?case by simp
next
  case (4 n deps v d ds c)
  have d: "(v, d) \<in> edges deps" using 4(6) by (simp add: edges_def)
  show ?case
  proof (cases "c d")
    case White
    show ?thesis
    proof (cases "visit n deps d c")
      case None
      with White 4(4) show ?thesis by simp
    next
      case (Some r)
      show ?thesis
      proof (cases r)
        case (Inl ab)
        with Some White 4(4) have "visit n deps d c = Some (Inl (a, b))" by simp
        from 4(1) [OF White this 4(5) White] 4(7) d show ?thesis by (meson rtrancl.rtrancl_into_rtrancl)
      next
        case (Inr c1)
        have v: "visit n deps d c = Some (Inr c1)" "visit_deps n deps v ds c1 = Some (Inl (a, b))"
          using Some White Inr 4(4) by simp_all
        from visit_sound(1) [OF v(1) 4(5) White] have "search_inv deps c1" "extends c c1" by simp_all
        from 4(2) [OF White Some Inr v(2) this(1)] \<open>extends c c1\<close> 4(6,7) show ?thesis
          by (simp add: extends_def)
      qed
    qed
  next
    case Gray
    with 4(4,7) d show ?thesis by simp
  next
    case Black
    with 4 show ?thesis by simp
  qed
qed auto

text \<open>The fuel is enough as soon as it is the number of white names.\<close>

definition whites :: "string set \<Rightarrow> colours \<Rightarrow> nat" where
  "whites U c = card {x \<in> U. c x = White}"

lemma whites_gray:
  assumes "finite U" "v \<in> U" "c v = White"
  shows "whites U c = Suc (whites U (c(v := Gray)))"
proof -
  have "{x \<in> U. c x = White} = insert v {x \<in> U. (c(v := Gray)) x = White}" using assms(2,3) by auto
  then show ?thesis using assms(1) by (simp add: whites_def)
qed

lemma whites_extends:
  assumes "finite U" "extends c c'"
  shows "whites U c' \<le> whites U c"
  unfolding whites_def by (rule card_mono) (use assms extends_same [OF assms(2)] in fastforce)+

lemma visit_total:
  "finite U \<Longrightarrow> (\<forall>x \<in> U. set (deps x) \<subseteq> U) \<Longrightarrow> v \<in> U \<Longrightarrow> c v = White \<Longrightarrow> search_inv deps c \<Longrightarrow>
   whites U c \<le> n \<Longrightarrow> visit n deps v c \<noteq> None"
  "finite U \<Longrightarrow> (\<forall>x \<in> U. set (deps x) \<subseteq> U) \<Longrightarrow> set ds \<subseteq> U \<Longrightarrow> search_inv deps c \<Longrightarrow>
   whites U c \<le> n \<Longrightarrow> visit_deps n deps v ds c \<noteq> None"
proof (induction n deps v c and n deps v ds c rule: visit_visit_deps.induct)
  case (1 deps v c)
  then show ?case using whites_gray [of U v c] by simp
next
  case (2 n deps v c)
  have "visit_deps n deps v (deps v) (c(v := Gray)) \<noteq> None"
    using 2(2,3,4,7) whites_gray [of U v c, OF 2(2,4,5)] search_inv_gray [OF 2(6,5)] by (intro 2(1)) (simp_all add: fun_upd_def)
  then show ?case by (auto split: option.splits sum.splits)
next
  case (4 n deps v d ds c)
  show ?case
  proof (cases "c d")
    case White
    with 4 have "visit n deps d c \<noteq> None" by simp
    then obtain r where r: "visit n deps d c = Some r" by blast
    show ?thesis
    proof (cases r)
      case (Inr c1)
      with r visit_sound(1) [of n deps d c c1] White 4(7) have "search_inv deps c1" "extends c c1" by simp_all
      with 4(2) [OF White r Inr 4(4,5)] whites_extends [OF 4(4), of c c1] 4(6,8) r Inr White show ?thesis by simp
    qed (use r White in simp)
  next
    case Gray
    then show ?thesis by simp
  next
    case Black
    with 4 show ?thesis by simp
  qed
qed simp

lemma visit_all_spec:
  assumes "finite U" "\<forall>x \<in> U. set (deps x) \<subseteq> U"
  shows "set vs \<subseteq> U \<Longrightarrow> search_inv deps c \<Longrightarrow> \<forall>x. c x \<noteq> Gray \<Longrightarrow> whites U c \<le> n \<Longrightarrow>
    \<exists>r. visit_all n deps vs c = Some r \<and>
      (case r of Inl (a, b) \<Rightarrow> (a, b) \<in> edges deps \<and> (b, a) \<in> (edges deps)\<^sup>*
       | Inr c' \<Rightarrow> search_inv deps c' \<and> extends c c' \<and> (\<forall>v \<in> set vs. c' v = Black))"
proof (induction vs arbitrary: c)
  case (Cons v vs)
  show ?case
  proof (cases "c v = White")
    case True
    have "visit n deps v c \<noteq> None"
      by (rule visit_total(1) [OF assms]) (use Cons.prems True in simp_all)
    then obtain r where r: "visit n deps v c = Some r" by blast
    show ?thesis
    proof (cases r)
      case (Inl ab)
      obtain a b where ab: "ab = (a, b)" by (cases ab)
      have "(a, b) \<in> edges deps \<and> (b, a) \<in> (edges deps)\<^sup>*"
        by (rule visit_cycle(1) [OF r [unfolded Inl ab] Cons.prems(2) True]) (use Cons.prems(3) in simp)
      then show ?thesis using r Inl ab True by simp
    next
      case (Inr c1)
      have c1: "search_inv deps c1" "c1 v = Black" "extends c c1"
        using visit_sound(1) [OF r [unfolded Inr] Cons.prems(2) True] by simp_all
      have "\<forall>x. c1 x \<noteq> Gray" using c1(3) Cons.prems(3) unfolding extends_def by blast
      with Cons.IH [of c1] c1 whites_extends [OF assms(1) c1(3)] Cons.prems(1,4) obtain r' where
        r': "visit_all n deps vs c1 = Some r'"
          "case r' of Inl (a, b) \<Rightarrow> (a, b) \<in> edges deps \<and> (b, a) \<in> (edges deps)\<^sup>*
           | Inr c' \<Rightarrow> search_inv deps c' \<and> extends c1 c' \<and> (\<forall>v \<in> set vs. c' v = Black)" by auto
      moreover have "c' v = Black" "extends c c'" if "extends c1 c'" for c'
        using extends_same [OF that, of v] c1(2) extends_trans [OF c1(3) that] by simp_all
      ultimately show ?thesis using r Inr True by (cases r') simp_all
    qed
  next
    case False
    with Cons.prems(3) have "c v = Black" using colour.exhaust by blast
    then have v: "c' v = Black" if "extends c c'" for c' using extends_same [OF that, of v] by simp
    from Cons.IH [OF _ Cons.prems(2-4)] Cons.prems(1) obtain r where
      "visit_all n deps vs c = Some r"
      "case r of Inl (a, b) \<Rightarrow> (a, b) \<in> edges deps \<and> (b, a) \<in> (edges deps)\<^sup>*
       | Inr c' \<Rightarrow> search_inv deps c' \<and> extends c c' \<and> (\<forall>v \<in> set vs. c' v = Black)" by auto
    with v False show ?thesis by (cases r) simp_all
  qed
qed (auto simp: extends_def)

lemma deps_of_fold:
  "fold (\<lambda>n deps. deps(node_id n := dn_depends n)) nodes f v = f v \<or>
   (\<exists>n \<in> set nodes. node_id n = v \<and> fold (\<lambda>n deps. deps(node_id n := dn_depends n)) nodes f v = dn_depends n)"
proof (induction nodes arbitrary: f)
  case (Cons a nodes)
  show ?case using Cons.IH [of "f(node_id a := dn_depends a)"] by (cases "node_id a = v") auto
qed simp

lemma deps_of_cases: "deps_of nodes v = [] \<or> (\<exists>n \<in> set nodes. node_id n = v \<and> deps_of nodes v = dn_depends n)"
  unfolding deps_of_def using deps_of_fold [of nodes "\<lambda>_. []" v] by simp

lemma detect_cycle_spec:
  "\<exists>r. detect_cycle nodes = Some r \<and>
    (case r of Inl (v, d) \<Rightarrow> (v, d) \<in> edges (deps_of nodes) \<and> (d, v) \<in> (edges (deps_of nodes))\<^sup>*
     | Inr _ \<Rightarrow> acyclic (edges (deps_of nodes)))"
proof -
  define U where "U = set (graph_names nodes)"
  have closed: "\<forall>x \<in> U. set (deps_of nodes x) \<subseteq> U"
  proof
    fix x assume "x \<in> U"
    show "set (deps_of nodes x) \<subseteq> U"
      using deps_of_cases [of nodes x] by (auto simp: U_def graph_names_def)
  qed
  have "set (map node_id nodes) \<subseteq> U" by (auto simp: U_def graph_names_def)
  moreover have "search_inv (deps_of nodes) (\<lambda>_. White)" by (simp add: search_inv_def acyclic_def)
  moreover have "whites U (\<lambda>_. White) \<le> length (graph_names nodes)"
    by (simp add: whites_def U_def card_length)
  ultimately obtain r where r: "detect_cycle nodes = Some r"
    "case r of Inl (a, b) \<Rightarrow> (a, b) \<in> edges (deps_of nodes) \<and> (b, a) \<in> (edges (deps_of nodes))\<^sup>*
     | Inr c' \<Rightarrow> search_inv (deps_of nodes) c' \<and> extends (\<lambda>_. White) c' \<and> (\<forall>v \<in> set (map node_id nodes). c' v = Black)"
    using visit_all_spec [OF _ closed, of "map node_id nodes" "\<lambda>_. White" "length (graph_names nodes)"]
    unfolding detect_cycle_def by (force simp: U_def)
  have "acyclic (edges (deps_of nodes))" if "r = Inr c" for c
  proof -
    have "edges (deps_of nodes) \<subseteq> {(v, d). d \<in> set (deps_of nodes v) \<and> c v = Black}"
    proof (rule subrelI)
      fix v d assume "(v, d) \<in> edges (deps_of nodes)"
      then show "(v, d) \<in> {(v, d). d \<in> set (deps_of nodes v) \<and> c v = Black}"
        using deps_of_cases [of nodes v] r(2) that by (auto simp: edges_def)
    qed
    with r(2) that show ?thesis by (auto simp: search_inv_def intro: acyclic_subset)
  qed
  with r show ?thesis by (auto split: sum.splits)
qed

lemma on_cycle: "(v, d) \<in> R \<Longrightarrow> (d, v) \<in> R\<^sup>* \<Longrightarrow> \<not> acyclic R"
  by (auto simp: acyclic_def intro: rtrancl_into_trancl2)

lemma check_nodes_None: "check_nodes i ns = None \<longleftrightarrow> list_all (\<lambda>n. node_id n \<noteq> [] \<and> mi_goal (dn_mission n) \<noteq> []) ns"
  by (induction i ns rule: check_nodes.induct) simp_all

section \<open>Properties\<close>


text \<open> The validation of an oracle response returns, and accepts it exactly when all its parts
  are there, the plan has an id and at least one node, every node a mission id and a goal, and
  the dependencies, the last node of each id counting, form no cycle. \<close>

theorem validate_oracle_accepts:
  "\<exists>res. validate_oracle r = Some res \<and>
    (res = None \<longleftrightarrow>
      (\<exists>dag ns. or_dag r = Some dag \<and> dag_plan dag \<noteq> [] \<and> dag_nodes dag = Some ns \<and> ns \<noteq> [] \<and>
         list_all (\<lambda>n. node_id n \<noteq> [] \<and> mi_goal (dn_mission n) \<noteq> []) ns \<and>
         acyclic (edges (deps_of ns)) \<and>
         or_leases r \<noteq> None \<and> or_hotspots r \<noteq> None \<and> or_tests r \<noteq> None))"
proof (cases "or_dag r")
  case (Some dag)
  show ?thesis
  proof (cases "dag_nodes dag")
    case (Some ns)
    obtain x where "detect_cycle ns = Some x" and
      "case x of Inl (v, d) \<Rightarrow> (v, d) \<in> edges (deps_of ns) \<and> (d, v) \<in> (edges (deps_of ns))\<^sup>*
       | Inr _ \<Rightarrow> acyclic (edges (deps_of ns))" using detect_cycle_spec [of ns] by blast
    then show ?thesis
      using on_cycle [of _ _ "edges (deps_of ns)"] \<open>or_dag r = Some dag\<close> Some check_nodes_None [of 0 ns]
      by (cases x) (auto simp: validate_oracle_def split: option.splits prod.splits)
  qed (use \<open>or_dag r = Some dag\<close> in \<open>simp add: validate_oracle_def\<close>)
qed (simp add: validate_oracle_def)

text \<open> A plan that repeats its mission ids hides its cycles: whatever nodes it has, followed by
  copies of them without dependencies they pass the search. \<close>

theorem repeated_ids_hide_cycles:
  "\<exists>c. detect_cycle (nodes @ map (\<lambda>n. n\<lparr>dn_depends := []\<rparr>) nodes) = Some (Inr c)"
proof -
  let ?ns = "nodes @ map (\<lambda>n. n\<lparr>dn_depends := []\<rparr>) nodes"
  have "fold (\<lambda>n deps. deps(node_id n := dn_depends n)) (map (\<lambda>n. n\<lparr>dn_depends := []\<rparr>) ns) f v =
      (if v \<in> node_id ` set ns then [] else f v)" for ns :: "dag_node list" and f v
    by (induction ns arbitrary: f) auto
  then have "deps_of ?ns v = []" for v
    using deps_of_cases [of nodes v]
    by (auto simp: deps_of_def [of ?ns] deps_of_def [of nodes, symmetric])
  then have "deps_of ?ns = (\<lambda>_. [])" by blast
  then have "edges (deps_of ?ns) = {}" by (simp add: edges_def)
  moreover obtain r where "detect_cycle ?ns = Some r"
    "case r of Inl (v, d) \<Rightarrow> (v, d) \<in> edges (deps_of ?ns) \<and> (d, v) \<in> (edges (deps_of ?ns))\<^sup>*
     | Inr _ \<Rightarrow> acyclic (edges (deps_of ?ns))" using detect_cycle_spec [of ?ns] by blast
  ultimately show ?thesis by (cases r) auto
qed

end
