(* ===== verification/Prompt_Compiler.thy ===== *)
theory Prompt_Compiler
  imports Mission_DAG "HOL-Library.Multiset"
begin

text \<open>
  Compiling a mission pack, \<open>god/prompt_compiler.go\<close>: candidate shards are scored, those with
  the same blob id merged, ranked by score and packed greedily under the token budget of the
  mission, after the pinned sections of a prompt.

  A score is an integer, in hundredths: the code computes the same sum in floating point, so
  scores that differ here differ there in the same direction, and only among shards whose
  scores are equal here may rounding prefer one. The order \<open>sort.Slice\<close> gives shards of equal
  score is not determined, so the sort is the parameter \<open>srt\<close> of the locale \<open>ranking\<close>, with
  what the library promises; \<open>json.Marshal\<close> of a mission is the parameter \<open>marshal\<close>.
\<close>

section \<open>Shards and packs\<close>

record candidate =
  cs_kind :: string
  cs_blob :: string
  cs_content :: string
  cs_symbol :: string
  cs_path :: string
  cs_test :: bool
  cs_hot :: bool
  cs_recent :: bool

record scored =
  ss_shard :: candidate
  ss_score :: int
  ss_tokens :: nat

record prompt_ref =
  pr_id :: string
  pr_pinned :: "int list"
  pr_by_role :: "(string \<times> int list) list"
  pr_sections :: int
  pr_total_tokens :: int
  pr_inlined_tokens :: int

text \<open>The metadata of a packed shard: of a pinned section its index, of a ranked shard its score
  and tokens, and its symbol and path unless they are empty.\<close>

datatype pack_meta = Pinned int | Ranked int nat string string

record packed =
  pk_kind :: string
  pk_blob :: string
  pk_content :: string
  pk_meta :: pack_meta

record budget_meta =
  bm_budget :: int
  bm_header :: nat
  bm_mission :: nat
  bm_shards :: nat
  bm_total :: nat
  bm_included :: nat
  bm_dropped :: nat

record mission_pack =
  mp_header :: string
  mp_mission :: mission
  mp_shards :: "packed list"
  mp_endpoint :: string
  mp_budget :: budget_meta
  mp_prompt :: "prompt_ref option"
  mp_phase :: string

record section_info =
  si_index :: int
  si_type :: string

section \<open>Prompt sections\<close>

definition prompt_section_scores :: "(string \<times> int) list" where
  "prompt_section_scores =
     [(''constraints'', 300), (''acceptance'', 250), (''api'', 200), (''security'', 200), (''style'', 150),
      (''spec'', 100), (''examples'', 100), (''glossary'', 50), (''other'', 0)]"

definition score_prompt_section :: "string \<Rightarrow> int" where
  "score_prompt_section t = (case map_of prompt_section_scores t of Some s \<Rightarrow> s | None \<Rightarrow> 0)"

definition pin_types :: "(string \<times> string list) list" where
  "pin_types =
     [(''planner'', [''constraints'', ''acceptance'', ''spec'']),
      (''builder'', [''api'', ''constraints'', ''examples'']),
      (''reviewer'', [''acceptance'', ''security'', ''constraints''])]"

definition pinned_for_role :: "string \<Rightarrow> section_info list \<Rightarrow> int list" where
  "pinned_for_role role secs =
     (let types = (case map_of pin_types role of
                     Some ts \<Rightarrow> ts
                   | None \<Rightarrow> (case map_of pin_types ''builder'' of Some ts \<Rightarrow> ts | None \<Rightarrow> []))
      in map si_index (filter (\<lambda>s. List.member types (si_type s)) secs))"

section \<open>Scores\<close>

definition estimate_tokens :: "string \<Rightarrow> nat" where
  "estimate_tokens data = length data div 4 + 10"

definition score_shard :: "candidate \<Rightarrow> int" where
  "score_shard c =
     (if cs_kind c = ''symdef'' then 300 else if cs_kind c = ''callers'' then 150 else 0) +
     (if cs_test c then 200 else 0) + (if cs_hot c then 100 else 0) + (if cs_recent c then 50 else 0) -
     int (estimate_tokens (cs_content c))"

definition scored_of :: "candidate \<Rightarrow> scored" where
  "scored_of c = \<lparr>ss_shard = c, ss_score = score_shard c, ss_tokens = estimate_tokens (cs_content c)\<rparr>"

fun score_loop :: "candidate list \<Rightarrow> (string \<times> nat) list \<Rightarrow> scored list \<Rightarrow> scored list" where
  "score_loop [] seen scored = scored"
| "score_loop (c # cs) seen scored =
     (let s = scored_of c
      in if cs_blob c \<noteq> []
         then (case map_of seen (cs_blob c) of
                 Some i \<Rightarrow> score_loop cs seen (if ss_score (scored ! i) < ss_score s then scored[i := s] else scored)
               | None \<Rightarrow> score_loop cs (aput (cs_blob c) (length scored) seen) (scored @ [s]))
         else score_loop cs seen (scored @ [s]))"

definition score_shards :: "(scored list \<Rightarrow> scored list) \<Rightarrow> candidate list \<Rightarrow> scored list" where
  "score_shards srt cs = srt (score_loop cs [] [])"

section \<open>Packing\<close>

definition section_symbol :: "int \<Rightarrow> string" where
  "section_symbol i = ''section_'' @ itoa i"

text \<open>The first candidate for a pinned section that still fits is taken.\<close>

fun pack_pinned :: "candidate list \<Rightarrow> int list \<Rightarrow> int \<Rightarrow> packed list" where
  "pack_pinned cs [] left = []"
| "pack_pinned cs (i # is') left =
     (case find (\<lambda>c. cs_kind c = ''prompt_section'' \<and> cs_symbol c = section_symbol i \<and>
                     int (estimate_tokens (cs_content c)) \<le> left) cs of
        None \<Rightarrow> pack_pinned cs is' left
      | Some c \<Rightarrow>
          \<lparr>pk_kind = ''prompt_section'', pk_blob = cs_blob c, pk_content = cs_content c, pk_meta = Pinned i\<rparr>
          # pack_pinned cs is' (left - int (estimate_tokens (cs_content c))))"

definition pack_ranked :: "scored \<Rightarrow> packed" where
  "pack_ranked s =
     \<lparr>pk_kind = cs_kind (ss_shard s), pk_blob = cs_blob (ss_shard s), pk_content = cs_content (ss_shard s),
      pk_meta = Ranked (ss_score s) (ss_tokens s) (cs_symbol (ss_shard s)) (cs_path (ss_shard s))\<rparr>"

text \<open>The greedy loop: what is packed, and how many shards are dropped.\<close>

fun greedy :: "scored list \<Rightarrow> int \<Rightarrow> scored list \<times> nat" where
  "greedy [] left = ([], 0)"
| "greedy (s # ss) left =
     (if left \<le> 0 \<or> left < int (ss_tokens s)
      then (let (taken, dropped) = greedy ss left in (taken, dropped + 1))
      else (let (taken, dropped) = greedy ss (left - int (ss_tokens s)) in (s # taken, dropped)))"

definition pack_tokens :: "packed list \<Rightarrow> nat" where
  "pack_tokens ps = sum_list (map (\<lambda>p. estimate_tokens (pk_content p)) ps)"

definition em_dash :: string where
  "em_dash = [CHR 0xE2, CHR 0x80, CHR 0x94]"

definition pack_header :: "string \<Rightarrow> string \<Rightarrow> mission \<Rightarrow> prompt_ref option \<Rightarrow> string" where
  "pack_header now endpoint m pr =
     ''GENESIS SSMP '' @ em_dash @ '' Angel Mission Pack'' @ [LF] @
     ''Generated: '' @ now @ [LF] @ ''Mission: '' @ mi_id m @ [LF] @ ''PF Endpoint: '' @ endpoint @
     (case pr of
        None \<Rightarrow> []
      | Some p \<Rightarrow>
          [LF, LF] @ ''PROMPT VM:'' @ [LF] @
          ''The full user prompt is stored as artifact '' @ pr_id p @ ''.'' @ [LF] @
          ''Pinned sections are inlined below. To access other sections:'' @ [LF] @
          ''- PF_PROMPT_SECTION(prompt_id, section_index) '' @ em_dash @ '' page in one section'' @ [LF] @
          ''- PF_PROMPT_SEARCH(prompt_id, query) '' @ em_dash @ '' find relevant content'' @ [LF] @
          ''- PF_PROMPT_SUMMARY(prompt_id) '' @ em_dash @ '' list all section titles + types'')"

definition shard_budget :: "(mission \<Rightarrow> string) \<Rightarrow> string \<Rightarrow> mission \<Rightarrow> int" where
  "shard_budget marshal header m =
     max 0 (mi_budget m - int (estimate_tokens header) - int (estimate_tokens (marshal m)))"

definition pinned_part :: "candidate list \<Rightarrow> prompt_ref option \<Rightarrow> int \<Rightarrow> packed list" where
  "pinned_part cs pr left = (case pr of None \<Rightarrow> [] | Some p \<Rightarrow> pack_pinned cs (pr_pinned p) left)"

definition regular :: "candidate list \<Rightarrow> candidate list" where
  "regular cs = filter (\<lambda>c. cs_kind c \<noteq> ''prompt_section'') cs"

definition compile_with_ref ::
  "(mission \<Rightarrow> string) \<Rightarrow> (scored list \<Rightarrow> scored list) \<Rightarrow> string \<Rightarrow> string \<Rightarrow> mission \<Rightarrow> candidate list \<Rightarrow>
   prompt_ref option \<Rightarrow> mission_pack" where
  "compile_with_ref marshal srt now endpoint m cs pr =
     (let header = pack_header now endpoint m pr;
          ht = estimate_tokens header; mt = estimate_tokens (marshal m);
          left = shard_budget marshal header m;
          pinned = pinned_part cs pr left;
          (taken, dropped) = greedy (score_shards srt (regular cs)) (left - int (pack_tokens pinned));
          shards = pinned @ map pack_ranked taken;
          st = pack_tokens pinned + sum_list (map ss_tokens taken)
      in \<lparr>mp_header = header, mp_mission = m, mp_shards = shards, mp_endpoint = endpoint,
          mp_budget = \<lparr>bm_budget = mi_budget m, bm_header = ht, bm_mission = mt, bm_shards = st,
             bm_total = ht + mt + st, bm_included = length shards, bm_dropped = dropped\<rparr>,
          mp_prompt = pr, mp_phase = []\<rparr>)"

definition compile_pack ::
  "(mission \<Rightarrow> string) \<Rightarrow> (scored list \<Rightarrow> scored list) \<Rightarrow> string \<Rightarrow> string \<Rightarrow> mission \<Rightarrow> candidate list \<Rightarrow>
   mission_pack" where
  "compile_pack marshal srt now endpoint m cs = compile_with_ref marshal srt now endpoint m cs None"

section \<open>Scoring and merging\<close>

text \<open>The best shard of each blob id, in the order of their first occurrences, is what merging is
  for; shards without an id are all kept.\<close>

definition blob_of :: "scored \<Rightarrow> string" where
  "blob_of s = cs_blob (ss_shard s)"

definition merge_inv :: "candidate list \<Rightarrow> (string \<times> nat) list \<Rightarrow> scored list \<Rightarrow> bool" where
  "merge_inv done seen sc \<longleftrightarrow>
     (\<forall>i < length sc. sc ! i \<in> scored_of ` set done) \<and>
     (\<forall>b i. map_of seen b = Some i \<longleftrightarrow> b \<noteq> [] \<and> i < length sc \<and> blob_of (sc ! i) = b) \<and>
     (\<forall>c \<in> set done. \<exists>s \<in> set sc. blob_of s = cs_blob c \<and> score_shard c \<le> ss_score s)"

lemma scored_of_simps [simp]:
  "blob_of (scored_of c) = cs_blob c" "ss_score (scored_of c) = score_shard c" "ss_shard (scored_of c) = c"
  "ss_tokens (scored_of c) = estimate_tokens (cs_content c)"
  by (simp_all add: scored_of_def blob_of_def)

lemma merge_inv_new:
  assumes "merge_inv done seen sc" "cs_blob c = [] \<or> map_of seen (cs_blob c) = None"
  shows "merge_inv (done @ [c]) (if cs_blob c = [] then seen else aput (cs_blob c) (length sc) seen) (sc @ [scored_of c])"
proof -
  have "(if b = cs_blob c \<and> b \<noteq> [] then Some (length sc) else map_of seen b) = Some i \<longleftrightarrow>
      b \<noteq> [] \<and> i < Suc (length sc) \<and> blob_of ((sc @ [scored_of c]) ! i) = b" for b i
  proof -
    have seen: "map_of seen b = Some i \<longleftrightarrow> b \<noteq> [] \<and> i < length sc \<and> blob_of (sc ! i) = b" for b i
      using assms(1) unfolding merge_inv_def by blast
    show ?thesis
    proof (cases "b = cs_blob c \<and> b \<noteq> []")
      case True
      with assms(2) have "map_of seen b = None" by auto
      with seen [of b i] True show ?thesis by (auto simp: nth_append less_Suc_eq)
    next
      case False
      with seen [of b i] show ?thesis by (auto simp: nth_append less_Suc_eq)
    qed
  qed
  moreover have "map_of (if cs_blob c = [] then seen else aput (cs_blob c) (length sc) seen) b =
      (if b = cs_blob c \<and> b \<noteq> [] then Some (length sc) else map_of seen b)" for b by simp
  moreover have "\<forall>i < length (sc @ [scored_of c]). (sc @ [scored_of c]) ! i \<in> scored_of ` set (done @ [c])"
    using assms(1) by (auto simp: merge_inv_def nth_append less_Suc_eq)
  moreover have "\<forall>d \<in> set (done @ [c]). \<exists>s \<in> set (sc @ [scored_of c]). blob_of s = cs_blob d \<and> score_shard d \<le> ss_score s"
    using assms(1) by (auto simp: merge_inv_def)
  ultimately show ?thesis unfolding merge_inv_def by simp
qed

lemma merge_inv_old:
  assumes "merge_inv done seen sc" "map_of seen (cs_blob c) = Some i"
  shows "merge_inv (done @ [c]) seen (if ss_score (sc ! i) < score_shard c then sc[i := scored_of c] else sc)"
proof -
  have i: "i < length sc" "blob_of (sc ! i) = cs_blob c" "cs_blob c \<noteq> []"
    using assms unfolding merge_inv_def by blast+
  define sc' where "sc' = (if ss_score (sc ! i) < score_shard c then sc[i := scored_of c] else sc)"
  have len: "length sc' = length sc" by (simp add: sc'_def)
  have blob: "blob_of (sc' ! j) = blob_of (sc ! j)" if "j < length sc" for j
    using that i by (auto simp: sc'_def nth_list_update)
  have mono: "ss_score (sc ! j) \<le> ss_score (sc' ! j)" if "j < length sc" for j
    using that i by (auto simp: sc'_def nth_list_update)
  have "sc' ! j \<in> scored_of ` set (done @ [c])" if "j < length sc" for j
    using that assms(1) i by (auto simp: sc'_def nth_list_update merge_inv_def)
  moreover have "\<exists>s \<in> set sc'. blob_of s = cs_blob d \<and> score_shard d \<le> ss_score s" if d: "d \<in> set (done @ [c])" for d
  proof (cases "d = c")
    case True
    then show ?thesis using i len blob [OF i(1)]
      by (intro bexI [of _ "sc' ! i"]) (auto simp: sc'_def)
  next
    case False
    with d have "d \<in> set done" by simp
    with assms(1) obtain s where "s \<in> set sc" "blob_of s = cs_blob d" "score_shard d \<le> ss_score s"
      unfolding merge_inv_def by blast
    then obtain j where "j < length sc" "blob_of (sc ! j) = cs_blob d" "score_shard d \<le> ss_score (sc ! j)"
      by (metis in_set_conv_nth)
    with blob mono len show ?thesis by (intro bexI [of _ "sc' ! j"]) fastforce+
  qed
  ultimately show ?thesis using assms(1) blob len unfolding merge_inv_def sc'_def [symmetric] by auto
qed

lemma score_loop_merges: "merge_inv done seen sc \<Longrightarrow> \<exists>seen'. merge_inv (done @ cs) seen' (score_loop cs seen sc)"
proof (induction cs seen sc arbitrary: "done" rule: score_loop.induct)
  case (2 c cs seen sc)
  show ?case
  proof (cases "cs_blob c = []")
    case True
    with 2(3) [OF refl] merge_inv_new [OF 2(4), of c] show ?thesis by (fastforce simp: Let_def)
  next
    case False
    show ?thesis
    proof (cases "map_of seen (cs_blob c)")
      case None
      with 2(1) [OF refl False] merge_inv_new [OF 2(4), of c] False show ?thesis by (fastforce simp: Let_def)
    next
      case (Some i)
      with 2(2) [OF refl False Some] merge_inv_old [OF 2(4) Some] False show ?thesis
        by (fastforce simp: Let_def)
    qed
  qed
qed auto

lemma merge_inv_distinct: "merge_inv done seen sc \<Longrightarrow> distinct (filter (\<lambda>b. b \<noteq> []) (map blob_of sc))"
proof -
  assume m: "merge_inv done seen sc"
  have "i = j" if "i < length sc" "j < length sc" "blob_of (sc ! i) = blob_of (sc ! j)" "blob_of (sc ! i) \<noteq> []" for i j
    using m that unfolding merge_inv_def by (metis option.inject)
  then show ?thesis
  proof (induction sc rule: rev_induct)
    case (snoc s sc)
    have "distinct (filter (\<lambda>b. b \<noteq> []) (map blob_of sc))"
      by (rule snoc.IH) (use snoc.prems in \<open>fastforce simp: nth_append\<close>)
    moreover have "blob_of s \<notin> blob_of ` set sc" if "blob_of s \<noteq> []"
    proof
      assume "blob_of s \<in> blob_of ` set sc"
      then obtain j where "j < length sc" "blob_of (sc ! j) = blob_of s" by (auto simp: in_set_conv_nth)
      with snoc.prems [of j "length sc"] that show False by (simp add: nth_append)
    qed
    ultimately show ?case by auto
  qed simp
qed

section \<open>The ranking\<close>

locale ranking =
  fixes srt :: "scored list \<Rightarrow> scored list"
  assumes perm: "mset (srt ss) = mset ss"
    and ranked: "sorted_wrt (\<lambda>a b. ss_score b \<le> ss_score a) (srt ss)"
begin

lemma set_srt [simp]: "set (srt ss) = set ss"
  using perm by (metis set_mset_mset)

lemma distinct_srt: "distinct (filter P (map f (srt ss))) \<longleftrightarrow> distinct (filter P (map f ss))"
  by (rule mset_eq_imp_distinct_iff) (simp add: perm)

lemma length_srt [simp]: "length (srt ss) = length ss"
  by (rule mset_eq_length [OF perm])

end

definition rank_stable :: "scored list \<Rightarrow> scored list" where
  "rank_stable ss = sort_key (\<lambda>s. - ss_score s) ss"

interpretation stable: ranking rank_stable
proof
  fix ss
  have "sorted (map (\<lambda>s. - ss_score s) (rank_stable ss))" unfolding rank_stable_def by (rule sorted_sort_key)
  then show "sorted_wrt (\<lambda>a b. ss_score b \<le> ss_score a) (rank_stable ss)"
    by (simp add: sorted_wrt_map sorted_wrt_mono_rel)
qed (simp add: rank_stable_def)

section \<open>Packing under the budget\<close>

lemma pack_tokens_simps [simp]:
  "pack_tokens [] = 0" "pack_tokens (p # ps) = estimate_tokens (pk_content p) + pack_tokens ps"
  "pack_tokens (ps @ qs) = pack_tokens ps + pack_tokens qs"
  by (simp_all add: pack_tokens_def)

lemma pack_pinned_fits: "0 \<le> left \<Longrightarrow> int (pack_tokens (pack_pinned cs is' left)) \<le> left"
proof (induction cs is' left rule: pack_pinned.induct)
  case (2 cs i is' left)
  show ?case
  proof (cases "find (\<lambda>c. cs_kind c = ''prompt_section'' \<and> cs_symbol c = section_symbol i \<and>
                     int (estimate_tokens (cs_content c)) \<le> left) cs")
    case (Some c)
    then have "int (estimate_tokens (cs_content c)) \<le> left" by (auto simp: find_Some_iff)
    with 2(2) [OF Some] Some show ?thesis by simp
  qed (use 2 in simp)
qed simp

lemma greedy_fits:
  "greedy ss left = (taken, dropped) \<Longrightarrow> 0 \<le> left \<Longrightarrow>
   int (sum_list (map ss_tokens taken)) \<le> left \<and> length taken + dropped = length ss \<and> set taken \<subseteq> set ss"
proof (induction ss left arbitrary: taken dropped rule: greedy.induct)
  case (2 s ss left)
  show ?case
  proof (cases "left \<le> 0 \<or> left < int (ss_tokens s)")
    case True
    then obtain d where "greedy ss left = (taken, d)" "dropped = d + 1"
      using 2(3) by (auto split: prod.splits)
    with 2(1) [OF True] 2(4) show ?thesis by auto
  next
    case False
    then obtain t where "greedy ss (left - int (ss_tokens s)) = (t, dropped)" "taken = s # t"
      using 2(3) by (auto split: prod.splits)
    with 2(2) [OF False] False show ?thesis by fastforce
  qed
qed simp

text \<open>A dropped shard does not fit in what is left at the end.\<close>

lemma greedy_maximal:
  "greedy ss left = (taken, dropped) \<Longrightarrow> 0 \<le> left \<Longrightarrow> s \<in> set ss \<Longrightarrow>
   s \<in> set taken \<or> left - int (sum_list (map ss_tokens taken)) \<le> 0 \<or>
   left - int (sum_list (map ss_tokens taken)) < int (ss_tokens s)"
proof (induction ss left arbitrary: taken dropped rule: greedy.induct)
  case (2 a ss left)
  show ?case
  proof (cases "left \<le> 0 \<or> left < int (ss_tokens a)")
    case True
    then obtain d where d: "greedy ss left = (taken, d)"
      using 2(3) by (auto split: prod.splits)
    with True 2(1) [OF True d] greedy_fits [OF d] 2(4,5) show ?thesis by auto
  next
    case False
    then obtain t where t: "greedy ss (left - int (ss_tokens a)) = (t, dropped)" "taken = a # t"
      using 2(3) by (auto split: prod.splits)
    with False 2(2) [OF False t(1)] 2(5) show ?thesis by auto
  qed
qed simp

lemma scored_tokens: "s \<in> set sc \<Longrightarrow> merge_inv done seen sc \<Longrightarrow> ss_tokens s = estimate_tokens (cs_content (ss_shard s))"
  by (auto simp: merge_inv_def in_set_conv_nth)

text \<open>The parts a pack is made of.\<close>

lemma compile_parts:
  assumes "pack = compile_with_ref marshal srt now endpoint m cs pr"
    and "left = shard_budget marshal (pack_header now endpoint m pr) m" "pinned = pinned_part cs pr left"
    and "greedy (score_shards srt (regular cs)) (left - int (pack_tokens pinned)) = (taken, dropped)"
  shows "mp_shards pack = pinned @ map pack_ranked taken" "mp_header pack = pack_header now endpoint m pr"
    and "bm_shards (mp_budget pack) = pack_tokens pinned + sum_list (map ss_tokens taken)"
    and "bm_included (mp_budget pack) = length pinned + length taken" "bm_dropped (mp_budget pack) = dropped"
    and "max 0 (mi_budget m - int (bm_header (mp_budget pack)) - int (bm_mission (mp_budget pack))) = left"
proof -
  have "pack = (case greedy (score_shards srt (regular cs)) (left - int (pack_tokens pinned)) of (taken, dropped) \<Rightarrow>
      \<lparr>mp_header = pack_header now endpoint m pr, mp_mission = m, mp_shards = pinned @ map pack_ranked taken, mp_endpoint = endpoint,
       mp_budget = \<lparr>bm_budget = mi_budget m, bm_header = estimate_tokens (pack_header now endpoint m pr),
         bm_mission = estimate_tokens (marshal m), bm_shards = pack_tokens pinned + sum_list (map ss_tokens taken),
         bm_total = estimate_tokens (pack_header now endpoint m pr) + estimate_tokens (marshal m) + (pack_tokens pinned + sum_list (map ss_tokens taken)),
         bm_included = length (pinned @ map pack_ranked taken), bm_dropped = dropped\<rparr>,
       mp_prompt = pr, mp_phase = []\<rparr>)"
    unfolding assms(1) compile_with_ref_def Let_def assms(2) [symmetric] assms(3) [symmetric] ..
  then show "mp_shards pack = pinned @ map pack_ranked taken" "mp_header pack = pack_header now endpoint m pr"
    "bm_shards (mp_budget pack) = pack_tokens pinned + sum_list (map ss_tokens taken)"
    "bm_included (mp_budget pack) = length pinned + length taken" "bm_dropped (mp_budget pack) = dropped"
    "max 0 (mi_budget m - int (bm_header (mp_budget pack)) - int (bm_mission (mp_budget pack))) = left"
    using assms(4) by (simp_all add: assms(2) shard_budget_def)
qed

lemma pinned_part_fits: "int (pack_tokens (pinned_part cs pr (shard_budget marshal h m))) \<le> shard_budget marshal h m"
  by (cases pr) (simp_all add: pinned_part_def shard_budget_def pack_pinned_fits)

context ranking
begin

lemma score_shards_merged:
  "set (score_shards srt cs) \<subseteq> scored_of ` set cs \<and>
   distinct (filter (\<lambda>b. b \<noteq> []) (map blob_of (score_shards srt cs))) \<and>
   (\<forall>c \<in> set cs. \<exists>s \<in> set (score_shards srt cs). blob_of s = cs_blob c \<and> score_shard c \<le> ss_score s) \<and>
   sorted_wrt (\<lambda>a b. ss_score b \<le> ss_score a) (score_shards srt cs)"
proof -
  have "merge_inv [] [] []" by (simp add: merge_inv_def)
  from score_loop_merges [OF this, of cs] obtain seen where m: "merge_inv cs seen (score_loop cs [] [])" by auto
  then have "set (score_loop cs [] []) \<subseteq> scored_of ` set cs" unfolding merge_inv_def by (metis in_set_conv_nth subsetI)
  moreover have "distinct (filter (\<lambda>b. b \<noteq> []) (map blob_of (srt (score_loop cs [] []))))"
    using merge_inv_distinct [OF m] by (simp add: distinct_srt)
  moreover have "\<forall>c \<in> set cs. \<exists>s \<in> set (score_loop cs [] []). blob_of s = cs_blob c \<and> score_shard c \<le> ss_score s"
    using m unfolding merge_inv_def by blast
  ultimately show ?thesis unfolding score_shards_def set_srt by (simp add: ranked)
qed

lemma score_shards_tokens: "s \<in> set (score_shards srt cs) \<Longrightarrow> ss_tokens s = estimate_tokens (cs_content (ss_shard s))"
  using score_shards_merged [of cs] by auto

lemma compile_budget:
  assumes "pack = compile_with_ref marshal srt now endpoint m cs pr" "b = mp_budget pack"
  shows "bm_shards b = pack_tokens (mp_shards pack)"
    and "int (bm_shards b) \<le> max 0 (mi_budget m - int (bm_header b) - int (bm_mission b))"
    and "bm_included b = length (mp_shards pack)"
    and "bm_included b + bm_dropped b = length (pinned_part cs pr (shard_budget marshal (mp_header pack) m))
           + length (score_shards srt (regular cs))"
proof -
  define left where "left = shard_budget marshal (pack_header now endpoint m pr) m"
  define pinned where "pinned = pinned_part cs pr left"
  obtain taken dropped where g: "greedy (score_shards srt (regular cs)) (left - int (pack_tokens pinned)) = (taken, dropped)"
    by fastforce
  note parts = compile_parts [OF assms(1) left_def pinned_def g, folded assms(2)]
  have "int (pack_tokens pinned) \<le> left" unfolding pinned_def left_def by (rule pinned_part_fits)
  with greedy_fits [OF g] have t: "int (sum_list (map ss_tokens taken)) \<le> left - int (pack_tokens pinned)"
    "length taken + dropped = length (score_shards srt (regular cs))" "set taken \<subseteq> set (score_shards srt (regular cs))"
    by simp_all
  have "sum_list (map ss_tokens taken) = pack_tokens (map pack_ranked taken)"
    unfolding pack_tokens_def map_map comp_def
    by (intro arg_cong [where f = sum_list] map_cong refl) (use t(3) score_shards_tokens in \<open>auto simp: pack_ranked_def\<close>)
  then show "bm_shards b = pack_tokens (mp_shards pack)" by (simp add: parts)
  show "int (bm_shards b) \<le> max 0 (mi_budget m - int (bm_header b) - int (bm_mission b))"
    using t(1) by (simp add: parts)
  show "bm_included b = length (mp_shards pack)" by (simp add: parts)
  show "bm_included b + bm_dropped b = length (pinned_part cs pr (shard_budget marshal (mp_header pack) m))
           + length (score_shards srt (regular cs))"
    using t(2) by (simp add: parts left_def [symmetric] pinned_def [symmetric])
qed

lemma compile_leaves_none:
  assumes "pack = compile_with_ref marshal srt now endpoint m cs pr" "s \<in> set (score_shards srt (regular cs))"
  shows "pack_ranked s \<in> set (mp_shards pack) \<or>
    max 0 (mi_budget m - int (bm_header (mp_budget pack)) - int (bm_mission (mp_budget pack)))
      - int (bm_shards (mp_budget pack)) < int (ss_tokens s)"
proof -
  define left where "left = shard_budget marshal (pack_header now endpoint m pr) m"
  define pinned where "pinned = pinned_part cs pr left"
  obtain taken dropped where g: "greedy (score_shards srt (regular cs)) (left - int (pack_tokens pinned)) = (taken, dropped)"
    by fastforce
  note parts = compile_parts [OF assms(1) left_def pinned_def g]
  have "int (pack_tokens pinned) \<le> left" unfolding pinned_def left_def by (rule pinned_part_fits)
  moreover have "0 < ss_tokens s" using score_shards_tokens [OF assms(2)] by (simp add: estimate_tokens_def)
  ultimately have "s \<in> set taken \<or> left - int (pack_tokens pinned) - int (sum_list (map ss_tokens taken)) < int (ss_tokens s)"
    using greedy_maximal [OF g _ assms(2)] by auto
  then show ?thesis by (auto simp: parts)
qed

end

section \<open>Properties\<close>

definition ex_candidate :: "string \<Rightarrow> bool \<Rightarrow> candidate" where
  "ex_candidate b t = \<lparr>cs_kind = ''symdef'', cs_blob = b, cs_content = ''x'', cs_symbol = ''f'', cs_path = [],
     cs_test = t, cs_hot = False, cs_recent = False\<rparr>"

definition ex_mission :: "int \<Rightarrow> mission" where
  "ex_mission budget = \<lparr>mi_id = ''m'', mi_goal = ''g'', mi_base_rev = ''HEAD'', mi_scopes = [], mi_leases = [],
     mi_tasks = [], mi_budget = budget, mi_created = []\<rparr>"

text \<open> Scoring merges the candidates with the same blob id: whatever sort is used, the ranking has
  candidates only, no blob id twice, for each candidate one with its blob id and at least its
  score, and falls in score. \<close>

theorem score_shards_ranks:
  assumes "ranking srt"
  shows "set (score_shards srt cs) \<subseteq> scored_of ` set cs \<and>
    distinct (filter (\<lambda>b. b \<noteq> []) (map blob_of (score_shards srt cs))) \<and>
    (\<forall>c \<in> set cs. \<exists>s \<in> set (score_shards srt cs). blob_of s = cs_blob c \<and> score_shard c \<le> ss_score s) \<and>
    sorted_wrt (\<lambda>a b. ss_score b \<le> ss_score a) (score_shards srt cs)"
  by (rule ranking.score_shards_merged [OF assms])

lemma score_shards_ranks_witness:
  "ranking rank_stable \<and> score_shards rank_stable [ex_candidate ''a'' False, ex_candidate ''a'' True]
     = [scored_of (ex_candidate ''a'' True)] \<and>
   set (score_shards rank_stable [ex_candidate ''a'' False]) \<subseteq> scored_of ` {ex_candidate ''a'' False}"
  using score_shards_ranks [OF stable.ranking_axioms, of "[ex_candidate ''a'' False]"] stable.ranking_axioms
  by (simp add: score_shards_def rank_stable_def ex_candidate_def scored_of_def score_shard_def estimate_tokens_def)

text \<open> C7: a mission pack keeps within its budget: the shard tokens it reports are those of the
  shards it carries, and never more than the token budget leaves beside header and mission;
  every ranked shard is either included or counted as dropped. \<close>

theorem compile_within_budget:
  assumes "ranking srt" "compile_with_ref marshal srt now endpoint m cs pr = pack"
  shows "bm_shards (mp_budget pack) = pack_tokens (mp_shards pack) \<and>
    int (bm_shards (mp_budget pack)) \<le> max 0 (mi_budget m - int (bm_header (mp_budget pack)) - int (bm_mission (mp_budget pack))) \<and>
    bm_included (mp_budget pack) = length (mp_shards pack) \<and>
    bm_included (mp_budget pack) + bm_dropped (mp_budget pack) =
      length (pinned_part cs pr (shard_budget marshal (mp_header pack) m)) + length (score_shards srt (regular cs))"
  using ranking.compile_budget [OF assms(1) assms(2) [symmetric] refl] by simp

lemma compile_within_budget_witness:
  "ranking rank_stable \<and>
   int (bm_shards (mp_budget (compile_with_ref (\<lambda>_. []) rank_stable ''t'' ''e'' (ex_mission 60) [ex_candidate ''a'' True] None))) \<le> 60"
  using compile_within_budget [OF stable.ranking_axioms refl, of "\<lambda>_. []" "''t''" "''e''" "ex_mission 60" "[ex_candidate ''a'' True]" None]
    stable.ranking_axioms by (auto simp: ex_mission_def)

text \<open> No shard is dropped that would still fit: each shard of the ranking is in the pack, or
  needs more tokens than the budget has left when packing is done. \<close>

theorem compile_maximal:
  assumes "ranking srt" "compile_with_ref marshal srt now endpoint m cs pr = pack"
    and "s \<in> set (score_shards srt (regular cs))"
  shows "pack_ranked s \<in> set (mp_shards pack) \<or>
    max 0 (mi_budget m - int (bm_header (mp_budget pack)) - int (bm_mission (mp_budget pack)))
      - int (bm_shards (mp_budget pack)) < int (ss_tokens s)"
  using ranking.compile_leaves_none [OF assms(1) assms(2) [symmetric] assms(3)] .

lemma compile_maximal_witness:
  "score_shards rank_stable [ex_candidate ''a'' True] = [scored_of (ex_candidate ''a'' True)] \<and>
   (pack_ranked (scored_of (ex_candidate ''a'' True)) \<in>
      set (mp_shards (compile_with_ref (\<lambda>_. []) rank_stable ''t'' ''e'' (ex_mission 60) [ex_candidate ''a'' True] None)) \<or>
    60 - int (bm_shards (mp_budget (compile_with_ref (\<lambda>_. []) rank_stable ''t'' ''e'' (ex_mission 60) [ex_candidate ''a'' True] None))) < 70)"
proof -
  have r: "score_shards rank_stable [ex_candidate ''a'' True] = [scored_of (ex_candidate ''a'' True)]"
    by (simp add: score_shards_def rank_stable_def ex_candidate_def)
  then have "scored_of (ex_candidate ''a'' True) \<in> set (score_shards rank_stable (regular [ex_candidate ''a'' True]))"
    by (simp add: regular_def ex_candidate_def)
  from compile_maximal [OF stable.ranking_axioms refl this, of "\<lambda>_. []" "''t''" "''e''" "ex_mission 60" None] r
  show ?thesis by (auto simp: ex_candidate_def scored_of_def estimate_tokens_def)
qed

end
