(* ===== verification/Edit_Apply.thy ===== *)
theory Edit_Apply
  imports Disk
begin

text \<open>
  Applying an edit IR to the files of a repository, \<open>god/edit_apply.go\<close>: nine operations on
  whole files or on lines, in order, each line operation guarded by the hash of the three
  lines before and after its place. The digest is the parameter \<open>sha\<close>. A Go map of template
  values is an association list in the order of iteration.
\<close>

section \<open>Operations and errors\<close>

record edit_op =
  eo_op :: string
  eo_path :: path
  eo_anchor :: string
  eo_lines :: "int list"
  eo_content :: string
  eo_symbol :: string
  eo_template :: string
  eo_instances :: "(string \<times> string) list list"

datatype edit_error =
    E_Lines_Count nat
  | E_Range int int
  | E_Read path io_error
  | E_Beyond int nat
  | E_Anchor string string
  | E_Symbol string path
  | E_Mkdir io_error
  | E_Write io_error
  | E_Remove path io_error
  | E_No_Template
  | E_No_Instances
  | E_Unknown_Op string

record apply_result =
  ap_modified :: "path list"
  ap_created :: "path list"
  ap_deleted :: "path list"
  ap_count :: nat

section \<open>Lines and anchors\<close>

definition read_file_lines :: "path \<Rightarrow> disk \<Rightarrow> edit_error + string list" where
  "read_file_lines p d =
     (case read_file d p of Inl e \<Rightarrow> Inl (E_Read p e) | Inr c \<Rightarrow> Inr (split_on LF (trim_suffix c [LF])))"

definition write_file_lines :: "path \<Rightarrow> string list \<Rightarrow> disk \<Rightarrow> edit_error + disk" where
  "write_file_lines p ls d =
     (case write_file p (join_with [LF] ls @ [LF]) d of Inl e \<Rightarrow> Inl (E_Write e) | Inr d' \<Rightarrow> Inr d')"

definition split_content :: "string \<Rightarrow> string list" where
  "split_content c = (if c = [] then [] else split_on LF (trim_suffix c [LF]))"

definition anchor_line :: "string list \<Rightarrow> int \<Rightarrow> string" where
  "anchor_line ls i = (if 0 \<le> i \<and> i < int (length ls) then ls ! nat i @ [LF] else [])"

definition anchor_text :: "string list \<Rightarrow> int \<Rightarrow> int \<Rightarrow> string" where
  "anchor_text ls s e =
     List.concat (map (anchor_line ls) [s - 4, s - 3, s - 2]) @ List.concat (map (anchor_line ls) [e, e + 1, e + 2])"

definition compute_anchor_hash :: "(string \<Rightarrow> string) \<Rightarrow> string list \<Rightarrow> int \<Rightarrow> int \<Rightarrow> string" where
  "compute_anchor_hash sha ls s e = sha (anchor_text ls s e)"

definition find_symbol_line :: "string \<Rightarrow> string list \<Rightarrow> nat option" where
  "find_symbol_line name ls = map_option fst (find (\<lambda>(i, l). contains l name) (List.enumerate 0 ls))"

section \<open>The nine operations\<close>

text \<open>The end that all line operations share: check the anchor of the lines \<open>s\<close> to \<open>e\<close>, write.\<close>

definition anchored_write ::
  "(string \<Rightarrow> string) \<Rightarrow> path \<Rightarrow> edit_op \<Rightarrow> string list \<Rightarrow> int \<Rightarrow> int \<Rightarrow> string list \<Rightarrow> disk \<Rightarrow> edit_error + disk" where
  "anchored_write sha p op ls s e new d =
     (let actual = compute_anchor_hash sha ls s e
      in if actual \<noteq> eo_anchor op then Inl (E_Anchor (eo_anchor op) actual)
         else write_file_lines p new d)"

definition apply_replace_span :: "(string \<Rightarrow> string) \<Rightarrow> path \<Rightarrow> edit_op \<Rightarrow> disk \<Rightarrow> edit_error + disk" where
  "apply_replace_span sha p op d =
     (if length (eo_lines op) \<noteq> 2 then Inl (E_Lines_Count 2)
      else (let s = eo_lines op ! 0; e = eo_lines op ! 1
            in if s < 1 \<or> e < s then Inl (E_Range s e)
               else case read_file_lines p d of
                 Inl x \<Rightarrow> Inl x
               | Inr ls \<Rightarrow>
                   (if int (length ls) < e then Inl (E_Beyond e (length ls))
                    else anchored_write sha p op ls s e
                           (take (nat (s - 1)) ls @ split_content (eo_content op) @ drop (nat e) ls) d)))"

definition apply_delete_span :: "(string \<Rightarrow> string) \<Rightarrow> path \<Rightarrow> edit_op \<Rightarrow> disk \<Rightarrow> edit_error + disk" where
  "apply_delete_span sha p op d =
     (if length (eo_lines op) \<noteq> 2 then Inl (E_Lines_Count 2)
      else (let s = eo_lines op ! 0; e = eo_lines op ! 1
            in if s < 1 \<or> e < s then Inl (E_Range s e)
               else case read_file_lines p d of
                 Inl x \<Rightarrow> Inl x
               | Inr ls \<Rightarrow>
                   (if int (length ls) < e then Inl (E_Beyond e (length ls))
                    else anchored_write sha p op ls s e (take (nat (s - 1)) ls @ drop (nat e) ls) d)))"

definition apply_insert_after_symbol :: "(string \<Rightarrow> string) \<Rightarrow> path \<Rightarrow> edit_op \<Rightarrow> disk \<Rightarrow> edit_error + disk" where
  "apply_insert_after_symbol sha p op d =
     (case read_file_lines p d of
        Inl x \<Rightarrow> Inl x
      | Inr ls \<Rightarrow>
          (case find_symbol_line (eo_symbol op) ls of
             None \<Rightarrow> Inl (E_Symbol (eo_symbol op) p)
           | Some i \<Rightarrow> anchored_write sha p op ls (int i + 1) (int i + 1)
                         (take (i + 1) ls @ split_content (eo_content op) @ drop (i + 1) ls) d))"

definition apply_add_file :: "path \<Rightarrow> edit_op \<Rightarrow> disk \<Rightarrow> (edit_error + disk) \<times> disk" where
  "apply_add_file p op d =
     (case mkdir_all (path_dir p) d of
        Inl e \<Rightarrow> (Inl (E_Mkdir e), d)
      | Inr d' \<Rightarrow> (case write_file p (eo_content op) d' of Inl e \<Rightarrow> (Inl (E_Write e), d') | Inr d'' \<Rightarrow> (Inr d'', d'')))"

definition apply_insert_before_symbol :: "(string \<Rightarrow> string) \<Rightarrow> path \<Rightarrow> edit_op \<Rightarrow> disk \<Rightarrow> edit_error + disk" where
  "apply_insert_before_symbol sha p op d =
     (case read_file_lines p d of
        Inl x \<Rightarrow> Inl x
      | Inr ls \<Rightarrow>
          (case find_symbol_line (eo_symbol op) ls of
             None \<Rightarrow> Inl (E_Symbol (eo_symbol op) p)
           | Some i \<Rightarrow> anchored_write sha p op ls (int i + 1) (int i + 1)
                         (take i ls @ split_content (eo_content op) @ drop i ls) d))"

definition apply_delete_file :: "path \<Rightarrow> disk \<Rightarrow> edit_error + disk" where
  "apply_delete_file p d = (case os_remove p d of Inl e \<Rightarrow> Inl (E_Remove p e) | Inr d' \<Rightarrow> Inr d')"

definition apply_replace_line :: "(string \<Rightarrow> string) \<Rightarrow> path \<Rightarrow> edit_op \<Rightarrow> disk \<Rightarrow> edit_error + disk" where
  "apply_replace_line sha p op d =
     (if length (eo_lines op) \<noteq> 1 then Inl (E_Lines_Count 1)
      else (let n = eo_lines op ! 0
            in if n < 1 then Inl (E_Range n n)
               else case read_file_lines p d of
                 Inl x \<Rightarrow> Inl x
               | Inr ls \<Rightarrow>
                   (if int (length ls) < n then Inl (E_Beyond n (length ls))
                    else anchored_write sha p op ls n n
                           (take (nat (n - 1)) ls @ split_content (eo_content op) @ drop (nat n) ls) d)))"

definition apply_insert_lines :: "(string \<Rightarrow> string) \<Rightarrow> path \<Rightarrow> edit_op \<Rightarrow> disk \<Rightarrow> edit_error + disk" where
  "apply_insert_lines sha p op d =
     (if length (eo_lines op) \<noteq> 1 then Inl (E_Lines_Count 1)
      else (let n = eo_lines op ! 0
            in if n < 1 then Inl (E_Range n n)
               else case read_file_lines p d of
                 Inl x \<Rightarrow> Inl x
               | Inr ls \<Rightarrow>
                   (if int (length ls) + 1 < n then Inl (E_Beyond n (length ls))
                    else (let a = (if int (length ls) < n then int (length ls) else n)
                          in anchored_write sha p op ls a a
                               (take (nat (n - 1)) ls @ split_content (eo_content op) @ drop (nat (n - 1)) ls) d))))"

definition expand_instance :: "string \<Rightarrow> (string \<times> string) list \<Rightarrow> string" where
  "expand_instance t inst = fold (\<lambda>(k, v) text. replace_all text (''{{'' @ k @ ''}}'') v) inst t"

definition expand_template :: "string \<Rightarrow> (string \<times> string) list list \<Rightarrow> string" where
  "expand_template t insts = join_with [LF] (map (expand_instance t) insts)"

definition apply_template :: "(string \<Rightarrow> string) \<Rightarrow> path \<Rightarrow> edit_op \<Rightarrow> disk \<Rightarrow> edit_error + disk" where
  "apply_template sha p op d =
     (if eo_template op = [] then Inl E_No_Template
      else if eo_instances op = [] then Inl E_No_Instances
      else case read_file_lines p d of
        Inl x \<Rightarrow> Inl x
      | Inr ls \<Rightarrow>
          (case find_symbol_line (eo_symbol op) ls of
             None \<Rightarrow> Inl (E_Symbol (eo_symbol op) p)
           | Some i \<Rightarrow> anchored_write sha p op ls (int i + 1) (int i + 1)
                         (take (i + 1) ls @ split_content (expand_template (eo_template op) (eo_instances op)) @ drop (i + 1) ls) d))"

section \<open>Applying an edit IR\<close>

definition append_unique :: "string list \<Rightarrow> string \<Rightarrow> string list" where
  "append_unique xs v = (if List.member xs v then xs else xs @ [v])"

text \<open>One operation: the new disk, which \<open>add_file\<close> may change even when it fails.\<close>

definition with_disk :: "disk \<Rightarrow> edit_error + disk \<Rightarrow> (edit_error + disk) \<times> disk" where
  "with_disk d r = (r, case r of Inl e \<Rightarrow> d | Inr d' \<Rightarrow> d')"

definition apply_op :: "(string \<Rightarrow> string) \<Rightarrow> path \<Rightarrow> edit_op \<Rightarrow> disk \<Rightarrow> (edit_error + disk) \<times> disk" where
  "apply_op sha root op d =
     (let p = path_join [root, eo_path op]; k = eo_op op
      in if k = ''replace_span'' then with_disk d (apply_replace_span sha p op d)
         else if k = ''delete_span'' then with_disk d (apply_delete_span sha p op d)
         else if k = ''insert_after_symbol'' then with_disk d (apply_insert_after_symbol sha p op d)
         else if k = ''add_file'' then apply_add_file p op d
         else if k = ''insert_before_symbol'' then with_disk d (apply_insert_before_symbol sha p op d)
         else if k = ''delete_file'' then with_disk d (apply_delete_file p d)
         else if k = ''replace_line'' then with_disk d (apply_replace_line sha p op d)
         else if k = ''insert_lines'' then with_disk d (apply_insert_lines sha p op d)
         else if k = ''template'' then with_disk d (apply_template sha p op d)
         else (Inl (E_Unknown_Op k), d))"

definition record_op :: "edit_op \<Rightarrow> apply_result \<Rightarrow> apply_result" where
  "record_op op r =
     (let r' = (if eo_op op = ''add_file'' then r\<lparr>ap_created := append_unique (ap_created r) (eo_path op)\<rparr>
                else if eo_op op = ''delete_file'' then r\<lparr>ap_deleted := append_unique (ap_deleted r) (eo_path op)\<rparr>
                else r\<lparr>ap_modified := append_unique (ap_modified r) (eo_path op)\<rparr>)
      in r'\<lparr>ap_count := ap_count r + 1\<rparr>)"

fun apply_ops ::
  "(string \<Rightarrow> string) \<Rightarrow> path \<Rightarrow> nat \<Rightarrow> edit_op list \<Rightarrow> apply_result \<Rightarrow> disk \<Rightarrow>
   ((nat \<times> edit_error) + apply_result) \<times> disk" where
  "apply_ops sha root i [] r d = (Inr r, d)"
| "apply_ops sha root i (op # ops) r d =
     (case apply_op sha root op d of
        (Inl e, d') \<Rightarrow> (Inl (i, e), d')
      | (Inr _, d') \<Rightarrow> apply_ops sha root (Suc i) ops (record_op op r) d')"

definition apply_edit_ir ::
  "(string \<Rightarrow> string) \<Rightarrow> path \<Rightarrow> edit_op list \<Rightarrow> disk \<Rightarrow> ((nat \<times> edit_error) + apply_result) \<times> disk" where
  "apply_edit_ir sha root ops d =
     apply_ops sha root 0 ops \<lparr>ap_modified = [], ap_created = [], ap_deleted = [], ap_count = 0\<rparr> d"

section \<open>Reading back what was written\<close>

lemma read_after_write:
  assumes "write_file_lines p ls d = Inr d'" "\<forall>l \<in> set ls. LF \<notin> set l"
  shows "read_file_lines p d' = Inr (if ls = [] then [[]] else ls)"
proof -
  from assms(1) obtain d1 where w: "write_file p (join_with [LF] ls @ [LF]) d = Inr d'"
    by (auto simp: write_file_lines_def split: sum.splits)
  have "read_file d' p = Inr (join_with [LF] ls @ [LF])"
    using write_file_reads [OF w] by (simp add: read_file_reads)
  then show ?thesis using assms(2) split_on_join [of ls LF] trim_suffix_append [of "[]" "[LF]"]
    by (cases ls) (simp_all add: read_file_lines_def)
qed

lemma split_content_no_LF: "l \<in> set (split_content c) \<Longrightarrow> LF \<notin> set l"
  by (auto simp: split_content_def dest: split_on_pieces split: if_splits)

lemma read_file_lines_no_LF: "read_file_lines p d = Inr ls \<Longrightarrow> ls \<noteq> [] \<and> (\<forall>l \<in> set ls. LF \<notin> set l)"
  by (auto simp: read_file_lines_def dest: split_on_pieces split: sum.splits)

lemma read_file_lines_same:
  assumes "read_file_lines p d = Inr ls" "reads d' p = reads d p"
  shows "read_file_lines p d' = Inr ls"
proof -
  from assms(1) obtain t where t: "read_file d p = Inr t" by (auto simp: read_file_lines_def split: sum.splits)
  then have "read_file d' p = Inr t" by (simp add: read_file_reads assms(2))
  with t assms(1) show ?thesis by (simp add: read_file_lines_def)
qed

text \<open>A successful write changes one file, a failed operation none.\<close>

lemma write_file_lines_frame: "write_file_lines p ls d = Inr d' \<Longrightarrow> q \<noteq> p \<Longrightarrow> reads d' q = reads d q"
  by (auto simp: write_file_lines_def split: sum.splits dest: write_file_reads)

lemma anchored_write_frame: "anchored_write sha p op ls s e new d = Inr d' \<Longrightarrow> q \<noteq> p \<Longrightarrow> reads d' q = reads d q"
  by (auto simp: anchored_write_def Let_def split: if_splits dest: write_file_lines_frame)

lemma apply_line_op_writes:
  "apply_replace_span sha p op d = Inr d' \<Longrightarrow> \<exists>ls s e new. anchored_write sha p op ls s e new d = Inr d'"
  "apply_delete_span sha p op d = Inr d' \<Longrightarrow> \<exists>ls s e new. anchored_write sha p op ls s e new d = Inr d'"
  "apply_insert_after_symbol sha p op d = Inr d' \<Longrightarrow> \<exists>ls s e new. anchored_write sha p op ls s e new d = Inr d'"
  "apply_insert_before_symbol sha p op d = Inr d' \<Longrightarrow> \<exists>ls s e new. anchored_write sha p op ls s e new d = Inr d'"
  "apply_replace_line sha p op d = Inr d' \<Longrightarrow> \<exists>ls s e new. anchored_write sha p op ls s e new d = Inr d'"
  "apply_insert_lines sha p op d = Inr d' \<Longrightarrow> \<exists>ls s e new. anchored_write sha p op ls s e new d = Inr d'"
  "apply_template sha p op d = Inr d' \<Longrightarrow> \<exists>ls s e new. anchored_write sha p op ls s e new d = Inr d'"
  unfolding apply_replace_span_def apply_delete_span_def apply_insert_after_symbol_def
    apply_insert_before_symbol_def apply_replace_line_def apply_insert_lines_def apply_template_def Let_def
  by (fastforce split: if_split_asm sum.split_asm option.split_asm)+

lemma apply_line_op_frame:
  assumes "q \<noteq> p"
  shows "apply_replace_span sha p op d = Inr d' \<Longrightarrow> reads d' q = reads d q"
    "apply_delete_span sha p op d = Inr d' \<Longrightarrow> reads d' q = reads d q"
    "apply_insert_after_symbol sha p op d = Inr d' \<Longrightarrow> reads d' q = reads d q"
    "apply_insert_before_symbol sha p op d = Inr d' \<Longrightarrow> reads d' q = reads d q"
    "apply_replace_line sha p op d = Inr d' \<Longrightarrow> reads d' q = reads d q"
    "apply_insert_lines sha p op d = Inr d' \<Longrightarrow> reads d' q = reads d q"
    "apply_template sha p op d = Inr d' \<Longrightarrow> reads d' q = reads d q"
    "apply_delete_file p d = Inr d' \<Longrightarrow> reads d' q = reads d q"
  by (blast dest: apply_line_op_writes intro: anchored_write_frame [OF _ assms])+
    (use assms in \<open>auto simp: apply_delete_file_def os_remove_reads split: sum.splits\<close>)

lemma apply_add_file_frame: "apply_add_file p op d = (r, d') \<Longrightarrow> q \<noteq> p \<Longrightarrow> reads d' q = reads d q"
  by (auto simp: apply_add_file_def split: sum.splits dest!: mkdir_all_reads write_file_reads)

lemma apply_op_frame:
  assumes "apply_op sha root op d = (r, d')" "q \<noteq> path_join [root, eo_path op]"
  shows "reads d' q = reads d q"
  using assms(1) apply_line_op_frame [OF assms(2)] apply_add_file_frame [OF _ assms(2)]
  by (auto simp: apply_op_def Let_def with_disk_def split: if_splits sum.splits)

lemma apply_ops_frame:
  "apply_ops sha root i ops r d = (x, d') \<Longrightarrow> q \<notin> (\<lambda>op. path_join [root, eo_path op]) ` set ops \<Longrightarrow>
   reads d' q = reads d q"
proof (induction sha root i ops r d rule: apply_ops.induct)
  case (2 sha root i op ops r d)
  obtain y d1 where a: "apply_op sha root op d = (y, d1)" by (cases "apply_op sha root op d")
  have f: "reads d1 q = reads d q" by (rule apply_op_frame [OF a]) (use 2(3) in auto)
  show ?case
  proof (cases y)
    case (Inl e)
    with 2(2) a f show ?thesis by simp
  next
    case (Inr z)
    have "reads d' q = reads d1 q"
      by (rule 2(1) [OF a [symmetric] Inr]) (use 2(2,3) a Inr in auto)
    with f show ?thesis by simp
  qed
qed simp

section \<open>Anchors\<close>

definition lines_text :: "string list \<Rightarrow> string" where
  "lines_text ls = List.concat (map (\<lambda>l. l @ [LF]) ls)"

lemma anchor_line_append:
  "anchor_line (xs @ ys) (int (length xs) + int k) = (if k < length ys then ys ! k @ [LF] else [])"
  by (simp add: anchor_line_def nth_append nat_int_add)

lemma anchor_line_before:
  assumes "0 \<le> i" "i < int (length xs)"
  shows "anchor_line (xs @ ys) i = xs ! nat i @ [LF]"
proof -
  have "nat i < length xs" using assms by linarith
  with assms show ?thesis by (simp add: anchor_line_def nth_append)
qed

lemma take3_text: "List.concat (map (\<lambda>k. if k < length ys then ys ! k @ [LF] else []) [0, 1, 2]) = lines_text (take 3 ys)"
proof (cases ys)
  case (Cons a as)
  show ?thesis
  proof (cases as)
    case (Cons b bs)
    then show ?thesis using \<open>ys = a # as\<close> by (cases bs) (simp_all add: lines_text_def)
  qed (use \<open>ys = a # as\<close> in \<open>simp add: lines_text_def\<close>)
qed (simp add: lines_text_def)

lemma last3_text:
  "List.concat (map (anchor_line (xs @ ys)) [int (length xs) - 3, int (length xs) - 2, int (length xs) - 1])
   = lines_text (drop (length xs - 3) xs)"
proof (cases xs rule: rev_cases)
  case Nil
  then show ?thesis by (simp add: anchor_line_def lines_text_def)
next
  case (snoc as a)
  show ?thesis
  proof (cases as rule: rev_cases)
    case Nil
    with snoc show ?thesis by (simp add: anchor_line_def lines_text_def)
  next
    case (snoc bs b)
    note as = \<open>as = bs @ [b]\<close> and xs = \<open>xs = as @ [a]\<close>
    show ?thesis
    proof (cases bs rule: rev_cases)
      case Nil
      with as xs show ?thesis by (simp add: anchor_line_def lines_text_def)
    next
      case (snoc cs c)
      with as xs show ?thesis
        by (simp add: anchor_line_def lines_text_def nth_append nat_add_distrib)
    qed
  qed
qed

text \<open>The anchor of a span is made of the three lines before and after it only.\<close>

lemma anchor_text_span:
  "anchor_text (pre @ mid @ post) (int (length pre) + 1) (int (length pre + length mid)) =
   lines_text (drop (length pre - 3) pre) @ lines_text (take 3 post)"
proof -
  have a: "List.concat (map (anchor_line (pre @ mid @ post))
      [int (length pre) + 1 - 4, int (length pre) + 1 - 3, int (length pre) + 1 - 2]) = lines_text (drop (length pre - 3) pre)"
    using last3_text [of pre "mid @ post"] by simp
  have "List.concat (map (anchor_line (pre @ mid @ post))
      [int (length pre + length mid), int (length pre + length mid) + 1, int (length pre + length mid) + 2])
      = List.concat (map (\<lambda>k. if k < length post then post ! k @ [LF] else []) [0, 1, 2])"
    using anchor_line_append [of "pre @ mid" post 0] anchor_line_append [of "pre @ mid" post 1]
      anchor_line_append [of "pre @ mid" post 2] by simp
  with a take3_text [of post] show ?thesis by (simp add: anchor_text_def)
qed

lemma write_lines_exists:
  assumes "read_file_lines p d = Inr ls" "\<not> List.member (d_dirs d) p"
  shows "\<exists>d'. write_file_lines p new d = Inr d'"
proof -
  have "reads d p \<noteq> None" using assms(1)
    by (auto simp: read_file_lines_def reads_def split: sum.splits)
  then obtain d' where "write_file p (join_with [LF] new @ [LF]) d = Inr d'"
    using write_file_existing [OF _ assms(2)] by blast
  then show ?thesis by (simp add: write_file_lines_def)
qed

text \<open>Where the first line that contains the symbol is.\<close>

lemma find_symbol_line_Some:
  assumes "find_symbol_line name ls = Some i"
  shows "i < length ls" "contains (ls ! i) name" "\<forall>j < i. \<not> contains (ls ! j) name"
proof -
  from assms obtain l where "find (\<lambda>(i, l). contains l name) (List.enumerate 0 ls) = Some (i, l)"
    by (auto simp: find_symbol_line_def)
  then obtain k where k: "k < length ls" "List.enumerate 0 ls ! k = (i, l)" "contains l name"
    "\<forall>j < k. \<not> (case List.enumerate 0 ls ! j of (i, l) \<Rightarrow> contains l name)"
    by (auto simp: find_Some_iff)
  then have "k = i" "ls ! i = l" by (auto simp: nth_enumerate_eq)
  moreover have "\<not> contains (ls ! j) name" if "j < k" for j
    using k that by (auto simp: nth_enumerate_eq)
  ultimately show "i < length ls" "contains (ls ! i) name" "\<forall>j < i. \<not> contains (ls ! j) name"
    using k by auto
qed

section \<open>Properties\<close>

text \<open>Replacing \<open>mid\<close> in \<open>pre\<close>, \<open>mid\<close>, \<open>post\<close>.\<close>

lemma replace_span_written:
  assumes "read_file_lines p d = Inr (pre @ mid @ post)" "mid \<noteq> []" "\<not> List.member (d_dirs d) p"
    and "eo_lines op = [int (length pre) + 1, int (length pre + length mid)]"
  defines "new \<equiv> pre @ split_content (eo_content op) @ post"
  shows "apply_replace_span sha p op d =
      anchored_write sha p op (pre @ mid @ post) (int (length pre) + 1) (int (length pre + length mid)) new d"
    and "\<exists>d'. write_file_lines p new d = Inr d' \<and> read_file_lines p d' = Inr (if new = [] then [[]] else new)"
proof -
  let ?s = "int (length pre) + 1" and ?e = "int (length pre + length mid)"
  have new: "take (nat (?s - 1)) (pre @ mid @ post) @ split_content (eo_content op) @ drop (nat ?e) (pre @ mid @ post) = new"
    unfolding new_def nat_int by simp
  have len: "0 < length mid" using assms(2) by simp
  show "apply_replace_span sha p op d = anchored_write sha p op (pre @ mid @ post) ?s ?e new d"
    unfolding apply_replace_span_def using assms(1,4) len new by (simp add: Let_def)
  obtain d' where w: "write_file_lines p new d = Inr d'" using write_lines_exists [OF assms(1,3)] by blast
  have "\<forall>l \<in> set new. LF \<notin> set l"
    using read_file_lines_no_LF [OF assms(1)] split_content_no_LF by (auto simp: new_def)
  from read_after_write [OF w this] w
  show "\<exists>d'. write_file_lines p new d = Inr d' \<and> read_file_lines p d' = Inr (if new = [] then [[]] else new)" by blast
qed

definition ex_op :: "string \<Rightarrow> edit_op" where
  "ex_op a = \<lparr>eo_op = ''replace_span'', eo_path = ''a'', eo_anchor = a, eo_lines = [2, 2],
     eo_content = ''new'', eo_symbol = [], eo_template = [], eo_instances = []\<rparr>"

definition ex_repo :: "string \<Rightarrow> disk" where
  "ex_repo c = \<lparr>d_files = [(''r/a'', c)], d_dirs = [''.'', ''r''], d_bad = []\<rparr>"

definition ex_text :: string where
  "ex_text = ''x'' @ [LF] @ ''y'' @ [LF] @ ''z'' @ [LF]"

text \<open> C3: replacing a span of a file whose lines are \<open>pre\<close>, \<open>mid\<close>, \<open>post\<close> succeeds exactly when the
  anchor is the hash of the last three lines of \<open>pre\<close> and the first three of \<open>post\<close>; then the
  file reads back as \<open>pre\<close>, the new lines, \<open>post\<close>, and otherwise the error names both hashes. \<close>

theorem replace_span_splices:
  fixes sha :: "string \<Rightarrow> string"
  assumes "read_file_lines p d = Inr (pre @ mid @ post)" "mid \<noteq> []" "\<not> List.member (d_dirs d) p"
    and "eo_lines op = [int (length pre) + 1, int (length pre + length mid)]"
  defines "h \<equiv> sha (lines_text (drop (length pre - 3) pre) @ lines_text (take 3 post))"
  defines "new \<equiv> pre @ split_content (eo_content op) @ post"
  shows "if h = eo_anchor op
    then \<exists>d'. apply_replace_span sha p op d = Inr d' \<and> read_file_lines p d' = Inr (if new = [] then [[]] else new)
    else apply_replace_span sha p op d = Inl (E_Anchor (eo_anchor op) h)"
proof -
  have hash: "compute_anchor_hash sha (pre @ mid @ post) (int (length pre) + 1) (int (length pre + length mid)) = h"
    unfolding compute_anchor_hash_def h_def anchor_text_span by (rule refl)
  show ?thesis
    unfolding replace_span_written(1) [OF assms(1-4)] anchored_write_def hash new_def
    using replace_span_written(2) [OF assms(1-4)] by (auto simp: Let_def)
qed

theorem replace_span_splices_witness:
  "\<exists>d'. apply_replace_span id ''r/a'' (ex_op (''x'' @ [LF] @ ''z'' @ [LF])) (ex_repo ex_text) = Inr d'
    \<and> read_file_lines ''r/a'' d' = Inr [''x'', ''new'', ''z'']"
proof -
  have "read_file_lines ''r/a'' (ex_repo ex_text) = Inr ([''x''] @ [''y''] @ [''z''])" by code_simp
  moreover have "\<not> List.member (d_dirs (ex_repo ex_text)) ''r/a''" by code_simp
  moreover have "split_content ''new'' = [''new'']" by code_simp
  ultimately show ?thesis
    using replace_span_splices [of "''r/a''" "ex_repo ex_text" "[''x'']" "[''y'']" "[''z'']"
        "ex_op (''x'' @ [LF] @ ''z'' @ [LF])" id]
    by (simp add: ex_op_def lines_text_def)
qed

text \<open> C4: applying an edit IR, also one that fails on the way, changes no file but those its
  operations name. \<close>

theorem apply_edit_ir_confined:
  assumes "apply_edit_ir sha root ops d = (x, d')" "\<forall>op \<in> set ops. q \<noteq> path_join [root, eo_path op]"
  shows "reads d' q = reads d q"
  by (rule apply_ops_frame [OF assms(1) [unfolded apply_edit_ir_def]]) (use assms(2) in auto)

theorem apply_edit_ir_confined_witness:
  "reads (snd (apply_edit_ir id ''r'' [ex_op []] (ex_repo ex_text))) ''r/b'' = None"
proof -
  have "path_join [''r'', ''a''] = ''r/a''" by code_simp
  then show ?thesis
    using apply_edit_ir_confined [OF prod.collapse [symmetric], of "[ex_op []]" "''r/b''" "''r''" id "ex_repo ex_text"]
    by (simp add: ex_op_def ex_repo_def reads_alt)
qed

text \<open> An anchor does not see the span it guards: the hash computed on a file is accepted on
  any file that differs inside the span only, so a concurrent change of these lines is
  overwritten without an error. \<close>

theorem anchor_blind_to_span:
  assumes "read_file_lines p d = Inr (pre @ mid' @ post)" "length mid' = length mid" "mid \<noteq> []"
    and "\<not> List.member (d_dirs d) p"
    and "eo_lines op = [int (length pre) + 1, int (length pre + length mid)]"
    and "eo_anchor op = compute_anchor_hash sha (pre @ mid @ post) (int (length pre) + 1) (int (length pre + length mid))"
  shows "\<exists>d'. apply_replace_span sha p op d = Inr d'"
proof -
  let ?s = "int (length pre) + 1" and ?e = "int (length pre + length mid)"
  have h: "compute_anchor_hash sha (pre @ mid' @ post) ?s ?e = eo_anchor op"
    unfolding assms(6) compute_anchor_hash_def anchor_text_span
    using anchor_text_span [of pre mid' post] assms(2) by simp
  have len: "0 < length mid'" using assms(2,3) by (cases mid) auto
  have "apply_replace_span sha p op d = write_file_lines p
      (take (nat (?s - 1)) (pre @ mid' @ post) @ split_content (eo_content op) @ drop (nat ?e) (pre @ mid' @ post)) d"
    unfolding apply_replace_span_def using assms(1,2,5) len h by (simp add: Let_def anchored_write_def)
  then show ?thesis using write_lines_exists [OF assms(1,4)] by metis
qed

theorem anchor_blind_to_span_witness:
  "\<exists>d'. apply_replace_span id ''r/a'' (ex_op (''x'' @ [LF] @ ''z'' @ [LF]))
      (ex_repo (''x'' @ [LF] @ ''other'' @ [LF] @ ''z'' @ [LF])) = Inr d'"
proof (rule anchor_blind_to_span)
  show "read_file_lines ''r/a'' (ex_repo (''x'' @ [LF] @ ''other'' @ [LF] @ ''z'' @ [LF])) = Inr ([''x''] @ [''other''] @ [''z''])"
    by code_simp
  show "eo_anchor (ex_op (''x'' @ [LF] @ ''z'' @ [LF])) = compute_anchor_hash id ([''x''] @ [''y''] @ [''z'']) (int (length [''x'']) + 1)
      (int (length [''x''] + length [''y'']))"
    by code_simp
  show "\<not> List.member (d_dirs (ex_repo (''x'' @ [LF] @ ''other'' @ [LF] @ ''z'' @ [LF]))) ''r/a''" by code_simp
qed (simp_all add: ex_op_def)

end
