(* ===== verification/Provider.thy ===== *)
theory Provider
  imports Prompt_Compiler Edit_Apply
begin

text \<open>
  The answers of an agent: macro operations and their expansion (\<open>god/macro_ops.go\<close>), the
  validation of a response, the retry with a repair prompt (\<open>god/provider.go\<close>) and the output
  modes (\<open>god/output_vm.go\<close>). The provider is the parameter \<open>send\<close>, whose answer may depend on
  how often it was called; \<open>json.Unmarshal\<close> into a response is \<open>decode\<close>, \<open>json.Marshal\<close> of a pack
  is \<open>encode\<close>, the hex digest of SHA-256 is \<open>sha\<close>. A pointer or slice that can be nil is an option
  where the code tests it. Times are left out of the usage record.
\<close>

section \<open>Macro operations\<close>

record macro_op =
  mo_kind :: string
  mo_old :: string
  mo_new :: string
  mo_scope :: string
  mo_func :: string
  mo_param :: string
  mo_ptype :: string
  mo_position :: int
  mo_path :: string
  mo_import :: string
  mo_test :: string
  mo_case :: string
  mo_body :: string
  mo_sig :: string
  mo_start :: int
  mo_end :: int
  mo_content :: string

definition edit_of :: "string \<Rightarrow> path \<Rightarrow> string \<Rightarrow> int list \<Rightarrow> string \<Rightarrow> string \<Rightarrow> edit_op" where
  "edit_of k p a ls c s = \<lparr>eo_op = k, eo_path = p, eo_anchor = a, eo_lines = ls, eo_content = c, eo_symbol = s,
     eo_template = [], eo_instances = []\<rparr>"

definition macro_anchor :: "(string \<Rightarrow> string) \<Rightarrow> string list \<Rightarrow> string" where
  "macro_anchor sha parts = ''macro-'' @ take 32 (sha (''macro:'' @ join_with '':'' parts))"

definition or_star :: "path \<Rightarrow> path" where
  "or_star p = (if p = [] then ''*'' else p)"

definition expand_rename_symbol :: "(string \<Rightarrow> string) \<Rightarrow> macro_op \<Rightarrow> edit_op list" where
  "expand_rename_symbol sha m =
     [edit_of ''replace_span'' (or_star (mo_scope m)) (macro_anchor sha [''rename'', mo_old m, mo_new m]) []
        (mo_new m) (mo_old m)]"

definition expand_add_param :: "(string \<Rightarrow> string) \<Rightarrow> macro_op \<Rightarrow> edit_op list" where
  "expand_add_param sha m =
     [edit_of ''insert_after_symbol'' (or_star (mo_path m)) (macro_anchor sha [''add_param'', mo_func m, mo_param m]) []
        (mo_param m @ '' '' @ mo_ptype m) (mo_func m)]"

definition expand_insert_import :: "(string \<Rightarrow> string) \<Rightarrow> macro_op \<Rightarrow> edit_op list" where
  "expand_insert_import sha m =
     [edit_of ''insert_after_symbol'' (mo_path m) (macro_anchor sha [''insert_import'', mo_path m, mo_import m]) []
        (mo_import m) ''import'']"

definition expand_add_test_case :: "(string \<Rightarrow> string) \<Rightarrow> macro_op \<Rightarrow> edit_op list" where
  "expand_add_test_case sha m =
     [edit_of ''insert_after_symbol'' (or_star (mo_path m)) (macro_anchor sha [''add_test_case'', mo_test m, mo_case m]) []
        (mo_body m) (mo_test m)]"

definition expand_add_function_stub :: "(string \<Rightarrow> string) \<Rightarrow> macro_op \<Rightarrow> edit_op list" where
  "expand_add_function_stub sha m =
     [edit_of ''insert_after_symbol'' (mo_path m) (macro_anchor sha [''add_func_stub'', mo_path m, mo_sig m]) []
        (mo_sig m) []]"

definition expand_replace_span :: "(string \<Rightarrow> string) \<Rightarrow> macro_op \<Rightarrow> edit_op list" where
  "expand_replace_span sha m =
     [edit_of ''replace_span'' (mo_path m)
        (macro_anchor sha [''replace_span'', mo_path m, itoa (mo_start m) @ ''-'' @ itoa (mo_end m)])
        [mo_start m, mo_end m] (mo_content m) []]"

definition expand_macro :: "(string \<Rightarrow> string) \<Rightarrow> macro_op \<Rightarrow> string + edit_op list" where
  "expand_macro sha m =
     (let k = mo_kind m
      in if k = ''RENAME_SYMBOL'' then Inr (expand_rename_symbol sha m)
         else if k = ''ADD_PARAM'' then Inr (expand_add_param sha m)
         else if k = ''INSERT_IMPORT'' then Inr (expand_insert_import sha m)
         else if k = ''ADD_TEST_CASE'' then Inr (expand_add_test_case sha m)
         else if k = ''ADD_FUNCTION_STUB'' then Inr (expand_add_function_stub sha m)
         else if k = ''REPLACE_SPAN'' then Inr (expand_replace_span sha m)
         else Inl (''unknown macro kind '' @ go_quote k))"

fun expand_macro_ops :: "(string \<Rightarrow> string) \<Rightarrow> nat \<Rightarrow> macro_op list \<Rightarrow> string + edit_op list" where
  "expand_macro_ops sha i [] = Inr []"
| "expand_macro_ops sha i (m # ms) =
     (case expand_macro sha m of
        Inl e \<Rightarrow> Inl (''macro_ops['' @ itoa (int i) @ ''] '' @ mo_kind m @ '': '' @ e)
      | Inr ops \<Rightarrow>
          (case expand_macro_ops sha (Suc i) ms of Inl e \<Rightarrow> Inl e | Inr rest \<Rightarrow> Inr (ops @ rest)))"

text \<open>The first of the named fields that is empty.\<close>

fun first_empty :: "(string \<times> string) list \<Rightarrow> string option" where
  "first_empty [] = None"
| "first_empty ((name, v) # fs) = (if v = [] then Some (name @ '' required'') else first_empty fs)"

definition validate_macro_op :: "macro_op \<Rightarrow> nat \<Rightarrow> string option" where
  "validate_macro_op m i =
     map_option (\<lambda>e. ''macro_ops['' @ itoa (int i) @ '']: '' @ e)
       (let k = mo_kind m
        in if k = ''RENAME_SYMBOL'' then first_empty [(''old_name'', mo_old m), (''new_name'', mo_new m)]
           else if k = ''ADD_PARAM'' then
             first_empty [(''func_name'', mo_func m), (''param_name'', mo_param m), (''param_type'', mo_ptype m)]
           else if k = ''INSERT_IMPORT'' then first_empty [(''path'', mo_path m), (''import_spec'', mo_import m)]
           else if k = ''ADD_TEST_CASE'' then
             first_empty [(''test_func'', mo_test m), (''case_name'', mo_case m), (''case_body'', mo_body m)]
           else if k = ''ADD_FUNCTION_STUB'' then first_empty [(''path'', mo_path m), (''func_sig'', mo_sig m)]
           else if k = ''REPLACE_SPAN'' then
             (if mo_path m = [] then Some ''path required''
              else if mo_start m \<le> 0 then Some ''start_line must be > 0''
              else if mo_end m < mo_start m then Some ''end_line must be >= start_line''
              else None)
           else Some (''unknown kind '' @ go_quote k))"

section \<open>Responses\<close>

record angel_response =
  ar_mission :: string
  ar_type :: string
  ar_edit :: "edit_op list option option"
  ar_macro :: "macro_op list option option"
  ar_diff :: string
  ar_symbols :: "string list option"
  ar_files :: "string list option"

record provider_usage =
  us_mission :: string
  us_request :: nat
  us_response :: nat
  us_retries :: nat
  us_success :: bool

definition edit_kinds :: "string list" where
  "edit_kinds = [''replace_span'', ''insert_after_symbol'', ''add_file'', ''delete_span'',
     ''insert_before_symbol'', ''delete_file'', ''replace_line'', ''insert_lines'', ''template'']"

definition validate_edit_op :: "edit_op \<Rightarrow> nat \<Rightarrow> string option" where
  "validate_edit_op op i =
     (let pre = ''ops['' @ itoa (int i) @ '']: ''
      in if \<not> List.member edit_kinds (eo_op op) then Some (pre @ ''invalid op '' @ go_quote (eo_op op))
         else if eo_path op = [] then Some (pre @ ''path is required'')
         else if eo_anchor op = [] \<and> eo_op op \<noteq> ''add_file'' \<and> eo_op op \<noteq> ''delete_file''
           then Some (pre @ ''anchor_hash is required'')
         else if eo_op op = ''template'' \<and> eo_template op = [] then Some (pre @ ''template field is required for template op'')
         else if eo_op op = ''template'' \<and> eo_instances op = [] then Some (pre @ ''instances field is required for template op'')
         else None)"

fun first_error :: "('a \<Rightarrow> nat \<Rightarrow> string option) \<Rightarrow> nat \<Rightarrow> 'a list \<Rightarrow> string option" where
  "first_error f i [] = None"
| "first_error f i (x # xs) = (case f x i of Some e \<Rightarrow> Some e | None \<Rightarrow> first_error f (Suc i) xs)"

definition validate_output :: "angel_response \<Rightarrow> string option" where
  "validate_output r =
     (if ar_type r = ''edit_ir'' then
        (case ar_edit r of
           None \<Rightarrow> Some ''output_type is edit_ir but edit_ir field is nil''
         | Some None \<Rightarrow> Some ''edit_ir.ops must not be nil''
         | Some (Some ops) \<Rightarrow> first_error validate_edit_op 0 ops)
      else if ar_type r = ''macro_ops'' then
        (case ar_macro r of
           None \<Rightarrow> Some ''output_type is macro_ops but macro_ops field is nil''
         | Some None \<Rightarrow> Some ''macro_ops.ops must not be nil''
         | Some (Some ops) \<Rightarrow> first_error validate_macro_op 0 ops)
      else if ar_type r = ''diff_fallback'' then
        (if ar_diff r = [] then Some ''output_type is diff_fallback but diff field is empty'' else None)
      else Some (''invalid output_type '' @ go_quote (ar_type r) @ '' (expected edit_ir, macro_ops, or diff_fallback)''))"

definition validate_angel_response :: "angel_response \<Rightarrow> string \<Rightarrow> string option" where
  "validate_angel_response r mission =
     (if ar_mission r = [] then Some ''response missing mission_id''
      else if ar_mission r \<noteq> mission
        then Some (''response mission_id '' @ go_quote (ar_mission r) @ '' does not match expected '' @ go_quote mission)
      else case validate_output r of
        Some e \<Rightarrow> Some e
      | None \<Rightarrow>
          (if ar_symbols r = None then Some ''manifest.symbols_touched must not be nil''
           else if ar_files r = None then Some ''manifest.files_touched must not be nil''
           else None))"

section \<open>Sending a pack\<close>

definition max_repair_bytes :: nat where
  "max_repair_bytes = 512"

definition build_repair_pack :: "mission_pack \<Rightarrow> string \<Rightarrow> string \<Rightarrow> mission_pack" where
  "build_repair_pack p invalid err =
     (let snippet = (if max_repair_bytes < length invalid
                     then take max_repair_bytes invalid @ [LF] @ ''... [truncated]'' else invalid);
          dq = [CHR 0x22]
      in \<lparr>mp_header = mp_header p @ [LF, LF] @ ''--- REPAIR REQUEST ---'' @ [LF] @
            ''Your previous response failed validation.'' @ [LF] @ ''Error: '' @ err @ [LF] @
            ''Response snippet:'' @ [LF] @ snippet @ [LF] @
            ''Please return a corrected response matching the required JSON schema.'' @ [LF] @
            ''Required: {'' @ dq @ ''mission_id'' @ dq @ '': '' @ dq @ ''...'' @ dq @ '', '' @
            dq @ ''output_type'' @ dq @ '': '' @ dq @ ''edit_ir'' @ dq @ ''|'' @ dq @ ''macro_ops'' @ dq @ ''|'' @
            dq @ ''diff_fallback'' @ dq @ '', '' @
            dq @ ''edit_ir'' @ dq @ '': {'' @ dq @ ''ops'' @ dq @ '': [...]}, '' @
            dq @ ''manifest'' @ dq @ '': {'' @ dq @ ''symbols_touched'' @ dq @ '': [...], '' @
            dq @ ''files_touched'' @ dq @ '': [...]}}'',
          mp_mission = mp_mission p, mp_shards = mp_shards p, mp_endpoint = mp_endpoint p,
          mp_budget = mp_budget p, mp_prompt = None, mp_phase = []\<rparr>)"

datatype provider_error = P_Send string | P_Expand string | P_Invalid nat string

definition auto_expand :: "(string \<Rightarrow> string) \<Rightarrow> angel_response \<Rightarrow> string + angel_response" where
  "auto_expand sha r =
     (if ar_type r = ''macro_ops''
      then (case ar_macro r of
              None \<Rightarrow> Inr r
            | Some ms \<Rightarrow>
                (case expand_macro_ops sha 0 (case ms of None \<Rightarrow> [] | Some ops \<Rightarrow> ops) of
                   Inl e \<Rightarrow> Inl e
                 | Inr ops \<Rightarrow> Inr (r\<lparr>ar_edit := Some (if ops = [] then None else Some ops), ar_type := ''edit_ir''\<rparr>)))
      else Inr r)"

text \<open>The loop of \<open>Execute\<close>, with \<open>k\<close> retries left.\<close>

fun execute_loop ::
  "(string \<Rightarrow> string) \<Rightarrow> (nat \<Rightarrow> mission_pack \<Rightarrow> string + string) \<Rightarrow> (string \<Rightarrow> string + angel_response) \<Rightarrow>
   nat \<Rightarrow> nat \<Rightarrow> mission_pack \<Rightarrow> provider_usage \<Rightarrow> (provider_error + angel_response) \<times> provider_usage" where
  "execute_loop sha send decode k attempt pack u =
     (case send attempt pack of
        Inl e \<Rightarrow> (Inl (P_Send e), u)
      | Inr raw \<Rightarrow>
          (let u' = u\<lparr>us_response := length raw\<rparr>;
               checked = (case decode raw of
                            Inl e \<Rightarrow> Inl (''invalid JSON: '' @ e)
                          | Inr r \<Rightarrow> (case validate_angel_response r (mi_id (mp_mission pack)) of
                                        Some e \<Rightarrow> Inl e | None \<Rightarrow> Inr r))
           in case checked of
                Inr r \<Rightarrow>
                  (case auto_expand sha r of
                     Inl e \<Rightarrow> (Inl (P_Expand e), u')
                   | Inr r' \<Rightarrow> (Inr r', u'\<lparr>us_success := True\<rparr>))
              | Inl e \<Rightarrow>
                  (case k of
                     0 \<Rightarrow> (Inl (P_Invalid (us_retries u') e), u')
                   | Suc k' \<Rightarrow> execute_loop sha send decode k' (Suc attempt) (build_repair_pack pack raw e)
                                (u'\<lparr>us_retries := us_retries u' + 1\<rparr>))))"

declare execute_loop.simps [simp del]

definition max_retries :: nat where
  "max_retries = 1"

definition execute_pack ::
  "(string \<Rightarrow> string) \<Rightarrow> (nat \<Rightarrow> mission_pack \<Rightarrow> string + string) \<Rightarrow> (string \<Rightarrow> string + angel_response) \<Rightarrow>
   (mission_pack \<Rightarrow> string) \<Rightarrow> mission_pack \<Rightarrow> (provider_error + angel_response) \<times> provider_usage" where
  "execute_pack sha send decode encode pack =
     execute_loop sha send decode max_retries 0 pack
       \<lparr>us_mission = mi_id (mp_mission pack), us_request = length (encode pack), us_response = 0,
        us_retries = 0, us_success = False\<rparr>"

section \<open>Output modes\<close>

record output_result =
  ov_accepted :: bool
  ov_mode :: string
  ov_type :: string
  ov_reason :: string

definition enforce_output :: "string \<Rightarrow> angel_response \<Rightarrow> output_result" where
  "enforce_output mode r =
     (let t = ar_type r; structured = (t = ''edit_ir'' \<or> t = ''macro_ops'');
          res = (\<lambda>ok why. \<lparr>ov_accepted = ok, ov_mode = mode, ov_type = t, ov_reason = why\<rparr>)
      in if mode = ''soft''
           then res True (if t = ''diff_fallback'' then ''warning: diff_fallback accepted in soft mode'' else [])
         else if mode = ''medium''
           then (if structured then res True [] else res False ''diff_fallback rejected in medium mode; retry with edit_ir'')
         else if mode = ''hard''
           then (if structured then res True [] else res False ''only edit_ir or macro_ops accepted in hard mode; no retry'')
         else res False [])"

section \<open>What validation accepts\<close>

definition edit_op_ok :: "edit_op \<Rightarrow> bool" where
  "edit_op_ok op \<longleftrightarrow> eo_op op \<in> set edit_kinds \<and> eo_path op \<noteq> [] \<and>
     (eo_anchor op \<noteq> [] \<or> eo_op op \<in> {''add_file'', ''delete_file''}) \<and>
     (eo_op op \<noteq> ''template'' \<or> eo_template op \<noteq> [] \<and> eo_instances op \<noteq> [])"

definition macro_op_ok :: "macro_op \<Rightarrow> bool" where
  "macro_op_ok m \<longleftrightarrow>
     mo_kind m = ''RENAME_SYMBOL'' \<and> mo_old m \<noteq> [] \<and> mo_new m \<noteq> [] \<or>
     mo_kind m = ''ADD_PARAM'' \<and> mo_func m \<noteq> [] \<and> mo_param m \<noteq> [] \<and> mo_ptype m \<noteq> [] \<or>
     mo_kind m = ''INSERT_IMPORT'' \<and> mo_path m \<noteq> [] \<and> mo_import m \<noteq> [] \<or>
     mo_kind m = ''ADD_TEST_CASE'' \<and> mo_test m \<noteq> [] \<and> mo_case m \<noteq> [] \<and> mo_body m \<noteq> [] \<or>
     mo_kind m = ''ADD_FUNCTION_STUB'' \<and> mo_path m \<noteq> [] \<and> mo_sig m \<noteq> [] \<or>
     mo_kind m = ''REPLACE_SPAN'' \<and> mo_path m \<noteq> [] \<and> 0 < mo_start m \<and> mo_start m \<le> mo_end m"

lemma validate_edit_op_None: "validate_edit_op op i = None \<longleftrightarrow> edit_op_ok op"
  by (auto simp: validate_edit_op_def edit_op_ok_def Let_def)

lemma validate_macro_op_None: "validate_macro_op m i = None \<longleftrightarrow> macro_op_ok m"
  by (auto simp: validate_macro_op_def macro_op_ok_def Let_def)

lemma first_error_None:
  assumes "\<And>x i. f x i = None \<longleftrightarrow> P x"
  shows "first_error f i xs = None \<longleftrightarrow> list_all P xs"
proof (induction xs arbitrary: i)
  case (Cons x xs)
  then show ?case using assms [of x i] by (cases "f x i") simp_all
qed simp

lemmas validation_None =
  first_error_None [of validate_edit_op edit_op_ok, OF validate_edit_op_None]
  first_error_None [of validate_macro_op macro_op_ok, OF validate_macro_op_None]

lemma validate_output_None:
  "validate_output r = None \<longleftrightarrow>
     ar_type r = ''edit_ir'' \<and> (\<exists>ops. ar_edit r = Some (Some ops) \<and> list_all edit_op_ok ops) \<or>
     ar_type r = ''macro_ops'' \<and> (\<exists>ms. ar_macro r = Some (Some ms) \<and> list_all macro_op_ok ms) \<or>
     ar_type r = ''diff_fallback'' \<and> ar_diff r \<noteq> []"
  by (auto simp: validate_output_def validation_None split: option.split)

lemma validate_response_None:
  "validate_angel_response r mission = None \<longleftrightarrow>
     mission \<noteq> [] \<and> ar_mission r = mission \<and> ar_symbols r \<noteq> None \<and> ar_files r \<noteq> None \<and> validate_output r = None"
  by (auto simp: validate_angel_response_def split: option.split)

text \<open>A valid macro operation is expanded.\<close>

lemma expand_macro_ok: "macro_op_ok m \<Longrightarrow> \<exists>op. expand_macro sha m = Inr [op]"
  by (auto simp: macro_op_ok_def expand_macro_def expand_rename_symbol_def expand_add_param_def
      expand_insert_import_def expand_add_test_case_def expand_add_function_stub_def expand_replace_span_def)

lemma expand_macro_ops_ok:
  "list_all macro_op_ok ms \<Longrightarrow> \<exists>ops. expand_macro_ops sha i ms = Inr ops \<and> length ops = length ms"
proof (induction ms arbitrary: i)
  case (Cons m ms)
  then obtain op ops where "expand_macro sha m = Inr [op]" "expand_macro_ops sha (Suc i) ms = Inr ops" "length ops = length ms"
    using expand_macro_ok [of m sha] by (metis list.pred_inject(2))
  then show ?case by simp
qed simp

lemma auto_expand_ok:
  assumes "validate_angel_response r mission = None"
  shows "\<exists>r'. auto_expand sha r = Inr r' \<and> ar_type r' \<noteq> ''macro_ops'' \<and> ar_mission r' = mission \<and>
    ar_symbols r' = ar_symbols r \<and> ar_files r' = ar_files r"
proof (cases "ar_type r = ''macro_ops''")
  case True
  with assms obtain ms where ms: "ar_macro r = Some (Some ms)" "list_all macro_op_ok ms"
    by (auto simp: validate_response_None validate_output_None)
  then obtain ops where "expand_macro_ops sha 0 ms = Inr ops" using expand_macro_ops_ok by blast
  with True ms assms show ?thesis by (simp add: auto_expand_def validate_response_None)
next
  case False
  with assms show ?thesis by (simp add: auto_expand_def validate_response_None)
qed

section \<open>The retry loop\<close>

definition execute_post ::
  "(string \<Rightarrow> string) \<Rightarrow> string \<Rightarrow> nat \<Rightarrow> (provider_error + angel_response) \<times> provider_usage \<Rightarrow> bool" where
  "execute_post sha mission n x =
     (case x of (res, u) \<Rightarrow> us_retries u \<le> n \<and> us_mission u = mission \<and>
        (case res of
           Inr r' \<Rightarrow> us_success u \<and> (\<exists>r. validate_angel_response r mission = None \<and> auto_expand sha r = Inr r' \<and> ar_type r' \<noteq> ''macro_ops'')
         | Inl (P_Send e) \<Rightarrow> \<not> us_success u
         | Inl (P_Expand e) \<Rightarrow> False
         | Inl (P_Invalid k e) \<Rightarrow> \<not> us_success u \<and> k = n))"

lemma repair_mission [simp]: "mp_mission (build_repair_pack p raw e) = mp_mission p"
  by (simp add: build_repair_pack_def Let_def)

lemma execute_loop_post:
  "us_mission u = mi_id (mp_mission pack) \<Longrightarrow> \<not> us_success u \<Longrightarrow>
   execute_post sha (mi_id (mp_mission pack)) (us_retries u + k) (execute_loop sha send decode k attempt pack u)"
proof (induction k arbitrary: attempt pack u)
  case (Suc k)
  then show ?case
  proof (cases "send attempt pack")
    case (Inr raw)
    show ?thesis
    proof (cases "decode raw")
      case (Inl e)
      show ?thesis
        using Suc.IH [of "u\<lparr>us_response := length raw, us_retries := us_retries u + 1\<rparr>" "build_repair_pack pack raw (''invalid JSON: '' @ e)" "Suc attempt"] Suc.prems Inr Inl
        by (subst execute_loop.simps) (simp add: Let_def)
    next
      case (Inr r)
      show ?thesis
      proof (cases "validate_angel_response r (mi_id (mp_mission pack))")
        case None
        from auto_expand_ok [OF this, of sha] obtain r' where "auto_expand sha r = Inr r'" "ar_type r' \<noteq> ''macro_ops''" by blast
        with None Inr \<open>send attempt pack = Inr raw\<close> Suc.prems show ?thesis
          by (subst execute_loop.simps) (auto simp: Let_def execute_post_def)
      next
        case (Some e)
        then show ?thesis
          using Suc.IH [of "u\<lparr>us_response := length raw, us_retries := us_retries u + 1\<rparr>" "build_repair_pack pack raw e" "Suc attempt"] Suc.prems Inr \<open>send attempt pack = Inr raw\<close>
          by (subst execute_loop.simps) (simp add: Let_def)
      qed
    qed
  qed (subst execute_loop.simps, simp add: execute_post_def)
next
  case 0
  then show ?case
  proof (cases "send attempt pack")
    case (Inr raw)
    show ?thesis
    proof (cases "decode raw")
      case (Inl e)
      with Inr 0 show ?thesis by (subst execute_loop.simps) (simp add: Let_def execute_post_def)
    next
      case (Inr r)
      show ?thesis
      proof (cases "validate_angel_response r (mi_id (mp_mission pack))")
        case None
        from auto_expand_ok [OF this, of sha] obtain r' where "auto_expand sha r = Inr r'" "ar_type r' \<noteq> ''macro_ops''" by blast
        with None Inr \<open>send attempt pack = Inr raw\<close> 0 show ?thesis
          by (subst execute_loop.simps) (auto simp: Let_def execute_post_def)
      qed (use Inr \<open>send attempt pack = Inr raw\<close> 0 in \<open>subst execute_loop.simps, simp add: Let_def execute_post_def\<close>)
    qed
  qed (subst execute_loop.simps, simp add: execute_post_def)
qed

section \<open>Expanded macros do not apply\<close>

text \<open>An operation whose anchor is no digest at all is refused on every file.\<close>

definition hopeless :: "(string \<Rightarrow> string) \<Rightarrow> edit_op \<Rightarrow> bool" where
  "hopeless sha op \<longleftrightarrow> eo_op op \<in> {''replace_span'', ''delete_span'', ''insert_after_symbol''} \<and> (\<forall>t. sha t \<noteq> eo_anchor op)"

lemma hopeless_write: "hopeless sha op \<Longrightarrow> \<exists>e. anchored_write sha p op ls s e' new d = Inl e"
  by (simp add: hopeless_def anchored_write_def compute_anchor_hash_def)

lemma hopeless_fails:
  assumes "hopeless sha op"
  shows "\<exists>e. apply_op sha root op d = (Inl e, d)"
proof -
  have no: "r \<noteq> Inr d'" if "r = Inr d' \<Longrightarrow> \<exists>ls s e new. anchored_write sha p op ls s e new d = Inr d'" for r d' p
    using that hopeless_write [OF assms] by (metis sum.distinct(1))
  have "\<exists>e. apply_replace_span sha p op d = Inl e" "\<exists>e. apply_delete_span sha p op d = Inl e"
    "\<exists>e. apply_insert_after_symbol sha p op d = Inl e" for p
    using no [OF apply_line_op_writes(1)] no [OF apply_line_op_writes(2)] no [OF apply_line_op_writes(3)] by (metis sum.exhaust)+
  then show ?thesis using assms unfolding apply_op_def Let_def with_disk_def hopeless_def by fastforce
qed

lemma hopeless_stops:
  "\<exists>op \<in> set ops. hopeless sha op \<Longrightarrow> \<exists>k e d'. apply_ops sha root i ops r d = (Inl (k, e), d')"
proof (induction ops arbitrary: i r d)
  case (Cons op ops)
  show ?case
  proof (cases "hopeless sha op")
    case True
    from hopeless_fails [OF this, of root d] obtain e where "apply_op sha root op d = (Inl e, d)" by blast
    then show ?thesis by simp
  next
    case False
    with Cons show ?thesis by (auto split: prod.split sum.split)
  qed
qed simp

lemma macro_anchor_no_digest: "\<forall>t. CHR ''-'' \<notin> set (sha t) \<Longrightarrow> sha t \<noteq> macro_anchor sha parts"
  by (metis macro_anchor_def Un_iff list.set_intros(1) list.set_intros(2) set_append)

lemma expand_macro_hopeless:
  assumes "\<forall>t. CHR ''-'' \<notin> set (sha t)" "expand_macro sha m = Inr ops"
  shows "list_all (hopeless sha) ops"
  using assms macro_anchor_no_digest [OF assms(1)]
  by (auto simp: expand_macro_def Let_def hopeless_def edit_of_def expand_rename_symbol_def expand_add_param_def
      expand_insert_import_def expand_add_test_case_def expand_add_function_stub_def expand_replace_span_def split: if_splits)

section \<open>Properties\<close>

definition ex_macro :: macro_op where
  "ex_macro = \<lparr>mo_kind = ''RENAME_SYMBOL'', mo_old = ''f'', mo_new = ''g'', mo_scope = ''a'', mo_func = [], mo_param = [],
     mo_ptype = [], mo_position = 0, mo_path = [], mo_import = [], mo_test = [], mo_case = [], mo_body = [],
     mo_sig = [], mo_start = 0, mo_end = 0, mo_content = []\<rparr>"

text \<open> A response passes validation exactly when it answers the mission, has both lists of its
  manifest, and carries valid edit operations, valid macro operations or a diff, as its type
  says. \<close>

theorem angel_response_accepted:
  "validate_angel_response r mission = None \<longleftrightarrow>
     mission \<noteq> [] \<and> ar_mission r = mission \<and> ar_symbols r \<noteq> None \<and> ar_files r \<noteq> None \<and>
     (ar_type r = ''edit_ir'' \<and> (\<exists>ops. ar_edit r = Some (Some ops) \<and> list_all edit_op_ok ops) \<or>
      ar_type r = ''macro_ops'' \<and> (\<exists>ms. ar_macro r = Some (Some ms) \<and> list_all macro_op_ok ms) \<or>
      ar_type r = ''diff_fallback'' \<and> ar_diff r \<noteq> [])"
  by (simp only: validate_response_None validate_output_None)

text \<open> Sending a pack ends, for every provider, after at most one retry: with an answer that
  passed validation for this mission and has its macro operations expanded, with an error of
  the provider, or as invalid after exactly one retry; expanding never fails. \<close>

theorem execute_pack_checked:
  "(case execute_pack sha send decode encode pack of (res, u) \<Rightarrow>
     us_retries u \<le> 1 \<and> us_mission u = mi_id (mp_mission pack) \<and>
     (case res of
        Inr r' \<Rightarrow> us_success u \<and>
          (\<exists>r. validate_angel_response r (mi_id (mp_mission pack)) = None \<and> auto_expand sha r = Inr r' \<and> ar_type r' \<noteq> ''macro_ops'')
      | Inl (P_Send e) \<Rightarrow> \<not> us_success u
      | Inl (P_Expand e) \<Rightarrow> False
      | Inl (P_Invalid k e) \<Rightarrow> \<not> us_success u \<and> k = 1))"
proof -
  have "execute_post sha (mi_id (mp_mission pack)) 1 (execute_pack sha send decode encode pack)"
    using execute_loop_post [of "\<lparr>us_mission = mi_id (mp_mission pack), us_request = length (encode pack), us_response = 0,
        us_retries = 0, us_success = False\<rparr>" pack sha max_retries send decode 0]
    by (simp add: execute_pack_def max_retries_def)
  then show ?thesis unfolding execute_post_def .
qed

text \<open> Macro operations never change a file: the placeholder anchors of their expansion are no
  digests, so applying the expansion of valid, non-empty macro operations fails at the first
  operation, on every disk, and leaves the disk as it was. \<close>

theorem macro_ops_never_apply:
  assumes "\<forall>t. CHR ''-'' \<notin> set (sha t)" "list_all macro_op_ok ms" "ms \<noteq> []"
  shows "\<exists>ops e. expand_macro_ops sha 0 ms = Inr ops \<and> apply_edit_ir sha root ops d = (Inl (0, e), d)"
proof -
  obtain m ms' where ms: "ms = m # ms'" using assms(3) by (cases ms) auto
  obtain op where op: "expand_macro sha m = Inr [op]" using assms(2) ms expand_macro_ok by fastforce
  obtain rest where "expand_macro_ops sha (Suc 0) ms' = Inr rest"
    using assms(2) ms expand_macro_ops_ok by fastforce
  moreover obtain e where "apply_op sha root op d = (Inl e, d)"
    using hopeless_fails expand_macro_hopeless [OF assms(1) op] by fastforce
  ultimately show ?thesis using ms op by (simp add: apply_edit_ir_def)
qed

lemma macro_ops_never_apply_witness:
  "macro_op_ok ex_macro \<and>
   (\<exists>ops e. expand_macro_ops (\<lambda>_. ''00'') 0 [ex_macro] = Inr ops \<and>
      apply_edit_ir (\<lambda>_. ''00'') ''r'' ops (ex_repo ex_text) = (Inl (0, e), ex_repo ex_text))"
  using macro_ops_never_apply [of "\<lambda>_. ''00''" "[ex_macro]" "''r''" "ex_repo ex_text"]
  by (simp add: ex_macro_def macro_op_ok_def)

end
