(* ===== verification/Edit_Diff.thy ===== *)
theory Edit_Diff
  imports Prelude "HOL-Library.Sublist"
begin

text \<open>
  Unified diffs of two versions of a file, \<open>god/edit_diff.go\<close>: a table of longest common
  subsequences, the script of kept, deleted and added lines that is traced from it, and the
  hunks with three lines of context. A script is a list of \<open>diff_op\<close>, the constructor being
  the code's kind byte. The reference definitions are \<open>lcs_len\<close> (what the table holds) and
  \<open>patch\<close> (what a reader of the hunks does with them).
\<close>

section \<open>The script\<close>

datatype diff_op = Keep string | Del string | Add string

record hunk =
  hk_a_start :: nat
  hk_a_count :: nat
  hk_b_start :: nat
  hk_b_count :: nat
  hk_lines :: "string list"

definition split_lines :: "string \<Rightarrow> string list" where
  "split_lines s = (if s = [] then [] else split_on LF (trim_suffix s [LF]))"

text \<open>The table, row by row from the last one; a row ends with the column after the last line.\<close>

fun lcs_row :: "string \<Rightarrow> string list \<Rightarrow> nat list \<Rightarrow> nat list" where
  "lcs_row x [] below = [0]"
| "lcs_row x (y # ys) below =
     (let row = lcs_row x ys (tl below)
      in (if x = y then hd (tl below) + 1
          else if hd row \<le> hd below then hd below else hd row) # row)"

fun lcs_table :: "string list \<Rightarrow> string list \<Rightarrow> nat list list" where
  "lcs_table [] ys = [replicate (length ys + 1) 0]"
| "lcs_table (x # xs) ys = (let t = lcs_table xs ys in lcs_row x ys (hd t) # t)"

function diff_trace :: "nat list list \<Rightarrow> string list \<Rightarrow> string list \<Rightarrow> nat \<Rightarrow> nat \<Rightarrow> diff_op list" where
  "diff_trace t a b i j =
     (if i < length a \<and> j < length b
      then if a ! i = b ! j then Keep (a ! i) # diff_trace t a b (i + 1) (j + 1)
           else if t ! i ! (j + 1) \<le> t ! (i + 1) ! j then Del (a ! i) # diff_trace t a b (i + 1) j
           else Add (b ! j) # diff_trace t a b i (j + 1)
      else map Del (drop i a) @ map Add (drop j b))"
  by pat_completeness auto
termination by (relation "measure (\<lambda>(t, a, b, i, j). (length a - i) + (length b - j))") auto

declare diff_trace.simps [simp del]

definition compute_diff :: "string list \<Rightarrow> string list \<Rightarrow> diff_op list" where
  "compute_diff a b = diff_trace (lcs_table a b) a b 0 0"

section \<open>Hunks\<close>

definition diff_context :: nat where
  "diff_context = 3"

fun is_keep :: "diff_op \<Rightarrow> bool" where
  "is_keep (Keep _) = True"
| "is_keep _ = False"

text \<open>The maximal runs of changes, from position \<open>i\<close> on.\<close>

function change_ranges :: "nat \<Rightarrow> diff_op list \<Rightarrow> (nat \<times> nat) list" where
  "change_ranges i [] = []"
| "change_ranges i (op # ops) =
     (if is_keep op then change_ranges (i + 1) ops
      else (let k = length (takeWhile (\<lambda>x. \<not> is_keep x) (op # ops))
            in (i, i + k) # change_ranges (i + k) (drop k (op # ops))))"
  by pat_completeness auto
termination by (relation "measure (\<lambda>(i, ops). length ops)") auto

fun merge_ranges :: "nat \<times> nat \<Rightarrow> (nat \<times> nat) list \<Rightarrow> (nat \<times> nat) list" where
  "merge_ranges cur [] = [cur]"
| "merge_ranges (s, e) ((s', e') # rs) =
     (if s' \<le> e + 2 * diff_context then merge_ranges (s, e') rs
      else (s, e) # merge_ranges (s', e') rs)"

fun op_line :: "diff_op \<Rightarrow> string" where
  "op_line (Keep l) = '' '' @ l"
| "op_line (Del l) = ''-'' @ l"
| "op_line (Add l) = ''+'' @ l"

definition a_lines :: "diff_op list \<Rightarrow> nat" where
  "a_lines ops = length (filter (\<lambda>x. case x of Add _ \<Rightarrow> False | _ \<Rightarrow> True) ops)"

definition b_lines :: "diff_op list \<Rightarrow> nat" where
  "b_lines ops = length (filter (\<lambda>x. case x of Del _ \<Rightarrow> False | _ \<Rightarrow> True) ops)"

definition hunk_of :: "diff_op list \<Rightarrow> nat \<times> nat \<Rightarrow> hunk" where
  "hunk_of ops w =
     (let before = take (fst w) ops; body = take (snd w - fst w) (drop (fst w) ops)
      in \<lparr>hk_a_start = a_lines before, hk_a_count = a_lines body,
          hk_b_start = b_lines before, hk_b_count = b_lines body, hk_lines = map op_line body\<rparr>)"

definition window :: "nat \<Rightarrow> nat \<times> nat \<Rightarrow> nat \<times> nat" where
  "window n g = (fst g - diff_context, min n (snd g + diff_context))"

definition build_hunks :: "diff_op list \<Rightarrow> hunk list" where
  "build_hunks ops =
     (case change_ranges 0 ops of
        [] \<Rightarrow> []
      | c # cs \<Rightarrow> map (\<lambda>g. hunk_of ops (window (length ops) g)) (merge_ranges c cs))"

definition hunk_text :: "hunk \<Rightarrow> string" where
  "hunk_text h =
     ''@@ -'' @ itoa (int (hk_a_start h) + 1) @ '','' @ itoa (int (hk_a_count h)) @
     '' +'' @ itoa (int (hk_b_start h) + 1) @ '','' @ itoa (int (hk_b_count h)) @ '' @@'' @ [LF] @
     List.concat (map (\<lambda>l. l @ [LF]) (hk_lines h))"

definition unified_diff :: "string \<Rightarrow> string \<Rightarrow> string list \<Rightarrow> string list \<Rightarrow> string" where
  "unified_diff pa pb a b =
     (let ops = compute_diff a b
      in if list_all is_keep ops \<or> build_hunks ops = [] then []
         else ''--- '' @ pa @ [LF] @ ''+++ '' @ pb @ [LF] @ List.concat (map hunk_text (build_hunks ops)))"

definition generate_diff :: "path \<Rightarrow> string \<Rightarrow> string \<Rightarrow> string" where
  "generate_diff p old new = unified_diff (''a/'' @ p) (''b/'' @ p) (split_lines old) (split_lines new)"

section \<open>Both sides of a script\<close>

fun old_side :: "diff_op list \<Rightarrow> string list" where
  "old_side [] = []"
| "old_side (Keep l # ops) = l # old_side ops"
| "old_side (Del l # ops) = l # old_side ops"
| "old_side (Add l # ops) = old_side ops"

fun new_side :: "diff_op list \<Rightarrow> string list" where
  "new_side [] = []"
| "new_side (Keep l # ops) = l # new_side ops"
| "new_side (Del l # ops) = new_side ops"
| "new_side (Add l # ops) = l # new_side ops"

fun kept :: "diff_op list \<Rightarrow> string list" where
  "kept [] = []"
| "kept (Keep l # ops) = l # kept ops"
| "kept (_ # ops) = kept ops"

definition changed :: "diff_op list \<Rightarrow> nat" where
  "changed ops = length (filter (\<lambda>x. \<not> is_keep x) ops)"

lemma sides_append [simp]:
  "old_side (xs @ ys) = old_side xs @ old_side ys" "new_side (xs @ ys) = new_side xs @ new_side ys"
  by (induction xs rule: old_side.induct) simp_all

lemma sides_map [simp]:
  "old_side (map Del xs) = xs" "new_side (map Del xs) = []"
  "old_side (map Add xs) = []" "new_side (map Add xs) = xs"
  by (induction xs) simp_all

lemma kept_append [simp]: "kept (xs @ ys) = kept xs @ kept ys"
  by (induction xs rule: kept.induct) simp_all

lemma kept_map [simp]: "kept (map Del xs) = []" "kept (map Add xs) = []"
  by (induction xs) simp_all

lemma kept_subseq: "subseq (kept ops) (old_side ops) \<and> subseq (kept ops) (new_side ops)"
  by (induction ops rule: old_side.induct) auto

lemma changed_kept: "changed ops + 2 * length (kept ops) = length (old_side ops) + length (new_side ops)"
  by (induction ops rule: old_side.induct) (simp_all add: changed_def)

lemma line_counts: "a_lines ops = length (old_side ops)" "b_lines ops = length (new_side ops)"
  by (induction ops rule: old_side.induct) (simp_all add: a_lines_def b_lines_def)

lemma all_keep_sides: "list_all is_keep ops \<Longrightarrow> old_side ops = new_side ops"
  by (induction ops rule: old_side.induct) simp_all

section \<open>The table holds the longest common subsequences\<close>

fun lcs_len :: "string list \<Rightarrow> string list \<Rightarrow> nat" where
  "lcs_len [] ys = 0"
| "lcs_len xs [] = 0"
| "lcs_len (x # xs) (y # ys) =
     (if x = y then lcs_len xs ys + 1
      else if lcs_len (x # xs) ys \<le> lcs_len xs (y # ys) then lcs_len xs (y # ys) else lcs_len (x # xs) ys)"

lemma lcs_len_Nil [simp]: "lcs_len xs [] = 0"
  by (cases xs) simp_all

lemma hd_upt_map [simp]: "hd (map f [0..<Suc n]) = f 0"
  by (simp add: upt_conv_Cons del: upt_Suc)

lemma lcs_row_spec:
  "below = map (\<lambda>j. lcs_len xs (drop j ys)) [0..<length ys + 1] \<Longrightarrow>
   lcs_row x ys below = map (\<lambda>j. lcs_len (x # xs) (drop j ys)) [0..<length ys + 1]"
proof (induction ys arbitrary: below)
  case (Cons y ys)
  have u: "[0..<length (y # ys) + 1] = 0 # map Suc [0..<length ys + 1]"
    by (simp add: map_Suc_upt upt_conv_Cons del: upt_Suc)
  have t: "tl below = map (\<lambda>j. lcs_len xs (drop j ys)) [0..<length ys + 1]"
    unfolding Cons.prems u by (simp add: o_def del: upt_Suc)
  have h: "hd below = lcs_len xs (y # ys)" "hd (tl below) = lcs_len xs ys"
    by (simp add: Cons.prems del: upt_Suc) (simp add: t del: upt_Suc)
  have r: "hd (lcs_row x ys (tl below)) = lcs_len (x # xs) ys"
    unfolding Cons.IH [OF t] by (simp del: upt_Suc)
  show ?case unfolding u lcs_row.simps Let_def r h by (simp add: Cons.IH [OF t] o_def del: upt_Suc)
qed simp

lemma lcs_table_rows:
  "lcs_table xs ys = map (\<lambda>i. map (\<lambda>j. lcs_len (drop i xs) (drop j ys)) [0..<length ys + 1]) [0..<length xs + 1]"
proof (induction xs)
  case Nil
  show ?case by (simp add: map_replicate_const)
next
  case (Cons x xs)
  have u: "[0..<length (x # xs) + 1] = 0 # map Suc [0..<length xs + 1]"
    by (simp add: map_Suc_upt upt_conv_Cons del: upt_Suc)
  have h: "hd (lcs_table xs ys) = map (\<lambda>j. lcs_len xs (drop j ys)) [0..<length ys + 1]"
    unfolding Cons by (simp del: upt_Suc)
  show ?case unfolding u using lcs_row_spec [OF h, of x] Cons by (simp add: Let_def o_def del: upt_Suc)
qed

lemma lcs_table_nth:
  assumes "i \<le> length xs" "j \<le> length ys"
  shows "lcs_table xs ys ! i ! j = lcs_len (drop i xs) (drop j ys)"
  using assms by (simp add: lcs_table_rows nth_map del: upt_Suc)

text \<open>No common subsequence is longer.\<close>

lemma lcs_len_max: "subseq cs xs \<Longrightarrow> subseq cs ys \<Longrightarrow> length cs \<le> lcs_len xs ys"
proof (induction xs ys arbitrary: cs rule: lcs_len.induct)
  case (3 x xs y ys)
  show ?case
  proof (cases cs)
    case (Cons c cs')
    have sub: "if c = x then subseq cs' xs else subseq cs xs" "if c = y then subseq cs' ys else subseq cs ys"
      using 3(6,7) by (simp_all add: Cons split: if_splits)
    show ?thesis
    proof (cases "x = y")
      case True
      have "subseq cs' xs" "subseq cs' ys"
        using sub True Cons by (auto dest: subseq_Cons' split: if_splits)
      from 3(1) [OF True this] show ?thesis using True Cons by simp
    next
      case False
      show ?thesis
      proof (cases "c = x")
        case True
        with sub False have "subseq cs ys" by simp
        then show ?thesis using 3(2) [OF False 3(6)] False by simp
      next
        case False2: False
        with sub have "subseq cs xs" by simp
        then show ?thesis using 3(3) [OF False _ 3(7)] False by simp
      qed
    qed
  qed simp
qed auto

lemma diff_trace_spec:
  assumes "i \<le> length a" "j \<le> length b" "t = lcs_table a b"
  shows "old_side (diff_trace t a b i j) = drop i a \<and> new_side (diff_trace t a b i j) = drop j b \<and>
         length (kept (diff_trace t a b i j)) = lcs_len (drop i a) (drop j b)"
  using assms
proof (induction t a b i j rule: diff_trace.induct)
  case (1 t a b i j)
  show ?case
  proof (cases "i < length a \<and> j < length b")
    case True
    then have d: "drop i a = a ! i # drop (i + 1) a" "drop j b = b ! j # drop (j + 1) b"
      by (simp_all add: Cons_nth_drop_Suc)
    have t: "t ! i ! (j + 1) = lcs_len (drop i a) (drop (j + 1) b)"
      "t ! (i + 1) ! j = lcs_len (drop (i + 1) a) (drop j b)"
      using True 1(6) by (simp_all add: lcs_table_nth)
    consider (eq) "a ! i = b ! j"
      | (del) "a ! i \<noteq> b ! j" "t ! i ! (j + 1) \<le> t ! (i + 1) ! j"
      | (add) "a ! i \<noteq> b ! j" "\<not> t ! i ! (j + 1) \<le> t ! (i + 1) ! j" by blast
    then show ?thesis
    proof cases
      case eq
      have "diff_trace t a b i j = Keep (a ! i) # diff_trace t a b (i + 1) (j + 1)"
        using True eq by (subst diff_trace.simps) simp
      with 1(1) [OF True eq] 1(6) True eq d show ?thesis by simp
    next
      case del
      have "diff_trace t a b i j = Del (a ! i) # diff_trace t a b (i + 1) j"
        using True del by (subst diff_trace.simps) simp
      moreover have "lcs_len (drop i a) (drop j b) = lcs_len (drop (i + 1) a) (drop j b)"
        using del unfolding t d by simp
      ultimately show ?thesis using 1(2) [OF True del] 1(5,6) True d(1) by simp
    next
      case add
      have "diff_trace t a b i j = Add (b ! j) # diff_trace t a b i (j + 1)"
        using True add by (subst diff_trace.simps) simp
      moreover have "lcs_len (drop i a) (drop j b) = lcs_len (drop i a) (drop (j + 1) b)"
        using add unfolding t d by simp
      ultimately show ?thesis using 1(3) [OF True add] 1(4,6) True d(2) by simp
    qed
  next
    case False
    then show ?thesis using 1(4,5) by (subst (1 2 3) diff_trace.simps) auto
  qed
qed

lemma compute_diff_sides [simp]:
  "old_side (compute_diff a b) = a" "new_side (compute_diff a b) = b"
  "length (kept (compute_diff a b)) = lcs_len a b"
  using diff_trace_spec [of 0 a 0 b] by (simp_all add: compute_diff_def)

section \<open>Hunks are a patch\<close>

text \<open>What a reader of the hunks does: copy up to the hunk, check its counts, its place in the
  new file and the old lines it quotes, write the new lines it quotes.\<close>

fun hunk_side :: "char \<Rightarrow> string list \<Rightarrow> string list" where
  "hunk_side c [] = []"
| "hunk_side c (l # ls) =
     (case l of [] \<Rightarrow> hunk_side c ls
      | x # t \<Rightarrow> if x = CHR '' '' \<or> x = c then t # hunk_side c ls else hunk_side c ls)"

primrec patch :: "hunk list \<Rightarrow> string list \<Rightarrow> nat \<Rightarrow> string list \<Rightarrow> string list option" where
  "patch [] a pos out = Some (out @ drop pos a)"
| "patch (h # hs) a pos out =
     (let out' = out @ take (hk_a_start h - pos) (drop pos a);
          old = hunk_side (CHR ''-'') (hk_lines h); new = hunk_side (CHR ''+'') (hk_lines h)
      in if pos \<le> hk_a_start h \<and> hk_b_start h = length out' \<and>
            hk_a_count h = length old \<and> hk_b_count h = length new \<and>
            take (hk_a_count h) (drop (hk_a_start h) a) = old
         then patch hs a (hk_a_start h + hk_a_count h) (out' @ new) else None)"

lemma hunk_sides [simp]:
  "hunk_side (CHR ''-'') (map op_line ops) = old_side ops"
  "hunk_side (CHR ''+'') (map op_line ops) = new_side ops"
  by (induction ops rule: old_side.induct) simp_all

text \<open>The ranges \<open>rs\<close> from \<open>lo\<close> on lie in order and leave out kept lines only.\<close>

fun covers :: "nat \<Rightarrow> diff_op list \<Rightarrow> (nat \<times> nat) list \<Rightarrow> bool" where
  "covers lo ops [] = (\<forall>k. lo \<le> k \<and> k < length ops \<longrightarrow> is_keep (ops ! k))"
| "covers lo ops ((s, e) # rs) =
     (lo \<le> s \<and> s \<le> e \<and> e \<le> length ops \<and> (\<forall>k. lo \<le> k \<and> k < s \<longrightarrow> is_keep (ops ! k)) \<and> covers e ops rs)"

lemma covers_keep: "covers (Suc i) ops rs \<Longrightarrow> is_keep (ops ! i) \<Longrightarrow> covers i ops rs"
  by (cases rs) (auto, (metis le_eq_less_or_eq Suc_le_eq)+)

lemma change_ranges_covers:
  "xs = drop i ops \<Longrightarrow> i \<le> length ops \<Longrightarrow> covers i ops (change_ranges i xs)"
proof (induction i xs rule: change_ranges.induct)
  case (2 i op xs)
  have i: "i < length ops" "op = ops ! i" "xs = drop (i + 1) ops"
    using 2(3) by (metis drop_eq_Nil linorder_not_less list.discI, metis drop_eq_Nil hd_drop_conv_nth linorder_not_less list.discI list.sel(1),
        metis Suc_eq_plus1 drop_Suc list.sel(3) tl_drop)
  show ?case
  proof (cases "is_keep op")
    case True
    have "covers (i + 1) ops (change_ranges (i + 1) xs)"
      by (rule 2(1) [OF True]) (use i in simp_all)
    with True i show ?thesis by (simp add: covers_keep)
  next
    case False
    define k where "k = length (takeWhile (\<lambda>x. \<not> is_keep x) (op # xs))"
    have k: "k \<le> length (op # xs)" unfolding k_def by (rule length_takeWhile_le)
    moreover have "length (op # xs) = length ops - i" unfolding 2(3) by simp
    ultimately have "i + k \<le> length ops" using i(1) by linarith
    moreover have "covers (i + k) ops (change_ranges (i + k) (drop k (op # xs)))"
      using 2(2) [OF False k_def] \<open>i + k \<le> length ops\<close> unfolding 2(3) by (simp add: add.commute)
    ultimately show ?thesis using False by (auto simp: Let_def k_def)
  qed
qed auto

lemma merge_ranges_covers: "covers lo ops (c # cs) \<Longrightarrow> covers lo ops (merge_ranges c cs)"
  by (induction c cs arbitrary: lo rule: merge_ranges.induct) auto

fun apart :: "nat \<Rightarrow> (nat \<times> nat) list \<Rightarrow> bool" where
  "apart lo [] = True"
| "apart lo ((s, e) # rs) = (lo \<le> s - diff_context \<and> apart (e + diff_context) rs)"

lemma merge_ranges_apart: "lo \<le> fst c - diff_context \<Longrightarrow> apart lo (merge_ranges c cs)"
  by (induction c cs arbitrary: lo rule: merge_ranges.induct) (auto simp: diff_context_def)

lemma covers_window:
  "covers lo ops rs \<Longrightarrow> apart lo' rs \<Longrightarrow> lo \<le> lo' \<Longrightarrow> covers (min (length ops) lo') ops (map (window (length ops)) rs)"
proof (induction rs arbitrary: lo lo')
  case (Cons r rs)
  obtain s e where r: "r = (s, e)" by (cases r)
  have "covers (min (length ops) (e + diff_context)) ops (map (window (length ops)) rs)"
    by (rule Cons.IH [of e]) (use Cons.prems r in simp_all)
  moreover have "lo' \<le> s - diff_context" "s \<le> e" "e \<le> length ops"
    "\<forall>k. lo \<le> k \<and> k < s \<longrightarrow> is_keep (ops ! k)" using Cons.prems r by simp_all
  moreover from this have "min (length ops) lo' = lo'" by linarith
  moreover have "s - diff_context \<le> length ops" "s - diff_context \<le> e + diff_context"
    using \<open>s \<le> e\<close> \<open>e \<le> length ops\<close> by linarith+
  ultimately show ?case using Cons.prems(3) unfolding r
    by (auto simp: window_def [of "length ops" "(s, e)"])
qed auto

lemma keep_slice: "\<forall>k. lo \<le> k \<and> k < s \<longrightarrow> is_keep (ops ! k) \<Longrightarrow> list_all is_keep (take (s - lo) (drop lo ops))"
  by (auto simp: list_all_length)

lemma take_slice: "lo \<le> s \<Longrightarrow> take s ops = take lo ops @ take (s - lo) (drop lo ops)"
  by (metis le_add_diff_inverse take_add)

lemma patch_windows:
  "covers lo ops ws \<Longrightarrow> lo \<le> length ops \<Longrightarrow>
   patch (map (hunk_of ops) ws) (old_side ops) (length (old_side (take lo ops))) (new_side (take lo ops))
   = Some (new_side ops)"
proof (induction ws arbitrary: lo)
  case Nil
  have split: "old_side ops = old_side (take lo ops) @ old_side (drop lo ops)"
    "new_side ops = new_side (take lo ops) @ new_side (drop lo ops)"
    by (metis append_take_drop_id sides_append(1), metis append_take_drop_id sides_append(2))
  have "list_all is_keep (drop lo ops)" using Nil(1) by (auto simp: list_all_length)
  from all_keep_sides [OF this] show ?case
    by (simp add: split)
next
  case (Cons w ws)
  obtain s e where w: "w = (s, e)" by (cases w)
  define mid where "mid = take (s - lo) (drop lo ops)"
  define body where "body = take (e - s) (drop s ops)"
  have c: "lo \<le> s" "s \<le> e" "e \<le> length ops" "covers e ops ws" and k: "list_all is_keep mid"
    using Cons.prems w keep_slice [of lo s ops] by (simp_all add: mid_def)
  have ts: "take s ops = take lo ops @ mid" unfolding mid_def by (rule take_slice [OF c(1)])
  have te: "take e ops = take s ops @ body" unfolding body_def by (rule take_slice [OF c(2)])
  have old: "old_side ops = old_side (take lo ops) @ old_side mid @ old_side body @ old_side (drop e ops)"
    using arg_cong [OF append_take_drop_id [of e ops, symmetric], of old_side] by (simp add: te ts)
  have "hunk_of ops w = \<lparr>hk_a_start = length (old_side (take s ops)), hk_a_count = length (old_side body),
      hk_b_start = length (new_side (take s ops)), hk_b_count = length (new_side body), hk_lines = map op_line body\<rparr>"
    by (simp add: hunk_of_def w Let_def line_counts body_def)
  moreover have "old_side mid = new_side mid" by (rule all_keep_sides [OF k])
  moreover have "patch (map (hunk_of ops) ws) (old_side ops) (length (old_side (take e ops))) (new_side (take e ops)) = Some (new_side ops)"
    by (rule Cons.IH [OF c(4,3)])
  ultimately show ?case by (simp add: te ts old add.assoc)
qed

lemma build_hunks_patch: "patch (build_hunks ops) (old_side ops) 0 [] = Some (new_side ops)"
proof (cases "change_ranges 0 ops")
  case Nil
  with change_ranges_covers [of ops 0 ops] have "covers 0 ops []" by simp
  from patch_windows [OF this] Nil show ?thesis by (simp add: build_hunks_def)
next
  case (Cons c cs)
  with change_ranges_covers [of ops 0 ops] have "covers 0 ops (merge_ranges c cs)"
    by (intro merge_ranges_covers) simp
  from covers_window [OF this merge_ranges_apart [of 0]]
  have "covers 0 ops (map (window (length ops)) (merge_ranges c cs))" by simp
  from patch_windows [OF this] Cons show ?thesis by (simp add: build_hunks_def comp_def)
qed

lemma change_ranges_Nil: "change_ranges i ops = [] \<longleftrightarrow> list_all is_keep ops"
  by (induction i ops rule: change_ranges.induct) (simp_all add: Let_def)

lemma merge_ranges_ne: "merge_ranges c cs \<noteq> []"
  by (induction c cs rule: merge_ranges.induct) simp_all

lemma build_hunks_Nil: "build_hunks ops = [] \<longleftrightarrow> list_all is_keep ops"
  using merge_ranges_ne by (simp add: build_hunks_def change_ranges_Nil [of 0, symmetric] split: list.split)

lemma all_keep_changed: "list_all is_keep ops \<longleftrightarrow> changed ops = 0"
  by (induction ops) (simp_all add: changed_def)

section \<open>Properties\<close>

text \<open> The script of two versions of a file reads as the old one with its deletions and as the
  new one with its additions, and no script between the two changes fewer lines. \<close>

theorem compute_diff_minimal:
  "old_side (compute_diff a b) = a \<and> new_side (compute_diff a b) = b \<and>
   Min {changed ops |ops. old_side ops = a \<and> new_side ops = b} = changed (compute_diff a b)"
proof -
  have le: "changed (compute_diff (old_side ops) (new_side ops)) \<le> changed ops" for ops
    using lcs_len_max [of "kept ops" "old_side ops" "new_side ops"] kept_subseq [of ops]
      changed_kept [of ops] changed_kept [of "compute_diff (old_side ops) (new_side ops)"] by simp
  have "changed ops \<le> length a + length b" if "old_side ops = a" "new_side ops = b" for ops
    using changed_kept [of ops] that by simp
  then have "finite {changed ops |ops. old_side ops = a \<and> new_side ops = b}"
    by (auto intro!: finite_subset [of _ "{..length a + length b}"])
  then have "Min {changed ops |ops. old_side ops = a \<and> new_side ops = b} = changed (compute_diff a b)"
    by (rule Min_eqI) (use le in force, use compute_diff_sides in blast)
  then show ?thesis by simp
qed

text \<open> C5: the hunks of a diff are a patch: their positions and counts fit, each quotes the lines of
  the old file at its place, and applying them to the old file gives the new file; there is no
  hunk, and the diff is empty, exactly when the two files have the same lines. \<close>

theorem unified_diff_patches:
  "patch (build_hunks (compute_diff a b)) a 0 [] = Some b \<and>
   (build_hunks (compute_diff a b) = [] \<longleftrightarrow> a = b) \<and>
   (unified_diff pa pb a b = [] \<longleftrightarrow> a = b)"
proof -
  have same: "list_all is_keep (compute_diff a b) \<longleftrightarrow> a = b"
  proof
    assume "list_all is_keep (compute_diff a b)"
    from all_keep_sides [OF this] show "a = b" by simp
  next
    assume eq: "a = b"
    have "changed (compute_diff a b) + 2 * lcs_len a b = length a + length b"
      using changed_kept [of "compute_diff a b"] by simp
    moreover have "length a \<le> lcs_len a b" using lcs_len_max [of a a b] eq by simp
    ultimately show "list_all is_keep (compute_diff a b)" using eq by (simp add: all_keep_changed)
  qed
  have "patch (build_hunks (compute_diff a b)) a 0 [] = Some b"
    using build_hunks_patch [of "compute_diff a b"] by simp
  with same show ?thesis by (auto simp: unified_diff_def Let_def build_hunks_Nil)
qed

end
