(* ===== verification/Plain_Text.thy ===== *)
theory Plain_Text
  imports Prelude
begin

text \<open>
  Words and texts of printable ASCII, the arguments the line-oriented languages of God print and
  parse: splitting at blanks, trimming and cutting comments leave them as they are.
\<close>

section \<open>Words and texts\<close>

definition word_char :: "char \<Rightarrow> bool" where
  "word_char c \<longleftrightarrow> 0x21 \<le> (of_char c :: nat) \<and> (of_char c :: nat) \<le> 0x7E"

fun no_hash :: "string \<Rightarrow> bool" where
  "no_hash (x # y # r) = (\<not> (x = CHR '' '' \<and> y = CHR ''#'') \<and> no_hash (y # r))"
| "no_hash _ = True"

definition is_word :: "string \<Rightarrow> bool" where
  "is_word w \<longleftrightarrow> w \<noteq> [] \<and> list_all word_char w \<and> hd w \<noteq> CHR ''#''"

definition is_text :: "string \<Rightarrow> bool" where
  "is_text t \<longleftrightarrow> t \<noteq> [] \<and> list_all (\<lambda>c. word_char c \<or> c = CHR '' '') t \<and> word_char (hd t) \<and> word_char (last t) \<and>
     no_hash t \<and> hd t \<noteq> CHR ''#''"

lemma word_char_not_space [simp]: "\<not> word_char (CHR '' '')" "\<not> word_char LF"
  by (simp_all add: word_char_def)

lemma has_prefix_Cons [simp]: "has_prefix (x # s) (y # p) \<longleftrightarrow> x = y \<and> has_prefix s p"
  by (auto simp: has_prefix_def)

lemma space_len_word:
  assumes "word_char c"
  shows "space_len (c # r) = 0" "space_len_rev (c # r) = 0"
proof -
  have "c \<noteq> y" if "\<not> word_char y" for y using assms that by blast
  then have "\<not> has_prefix (c # r) p" if "p \<in> set space_runes \<union> rev ` set space_runes" for p
    using that by (auto simp: space_runes_def word_char_def)
  then have "find (\<lambda>p. has_prefix (c # r) p) space_runes = None"
    "find (\<lambda>p. has_prefix (c # r) (rev p)) space_runes = None" by (auto simp: find_None_iff)
  then show "space_len (c # r) = 0" "space_len_rev (c # r) = 0"
    by (simp_all add: space_len_def space_len_rev_def)
qed

lemma space_len_blank [simp]: "space_len (CHR '' '' # r) = 1"
  by (simp add: space_len_def space_runes_def)

lemma trim_space_id:
  assumes "s \<noteq> []" "word_char (hd s)" "word_char (last s)"
  shows "trim_space s = s"
proof -
  obtain c r where c: "s = c # r" using assms(1) by (cases s) auto
  obtain q e where e: "s = q @ [e]" using assms(1) by (cases s rule: rev_cases) auto
  have "trim_left s = s" using c assms(2) by (subst trim_left.simps) (simp add: space_len_word)
  moreover have "trim_left_rev (rev s) = rev s" using e assms(3) by (subst trim_left_rev.simps) (simp add: space_len_word)
  ultimately show ?thesis by (simp add: trim_space_def trim_right_def)
qed

lemma trim_blank:
  assumes "s \<noteq> []" "word_char (hd s)" "word_char (last s)"
  shows "trim_space (CHR '' '' # s) = s"
proof -
  have "trim_left (CHR '' '' # s) = trim_left s" by (subst trim_left.simps) simp
  then have "trim_space (CHR '' '' # s) = trim_space s" by (simp add: trim_space_def)
  with trim_space_id [OF assms] show ?thesis by simp
qed

lemma trim_text: "is_text t \<Longrightarrow> trim_space t = t"
  by (simp add: is_text_def trim_space_id)

lemma no_hash_index: "no_hash s \<Longrightarrow> index_of s '' #'' = None"
  by (induction s rule: no_hash.induct) (auto simp: has_prefix_def)

lemma no_hash_word: "list_all word_char w \<Longrightarrow> no_hash w"
  by (induction w rule: no_hash.induct) auto

lemma no_hash_join:
  assumes "no_hash a" "no_hash b" "b \<noteq> []" "hd b \<noteq> CHR ''#''"
  shows "no_hash (a @ CHR '' '' # b)"
proof -
  obtain y r where "b = y # r" using assms(3) by (cases b) auto
  with assms show ?thesis by (induction a rule: no_hash.induct) auto
qed

lemma word_text: "is_word w \<Longrightarrow> is_text w"
  by (auto simp: is_word_def is_text_def no_hash_word list.pred_set)

lemma text_join: "is_word w \<Longrightarrow> is_text t \<Longrightarrow> is_text (w @ CHR '' '' # t)"
  using no_hash_join [of w t] by (auto simp: is_word_def is_text_def no_hash_word list.pred_set)

lemma fields_aux_word: "list_all word_char w \<Longrightarrow> fields_aux cur (w @ r) = fields_aux (rev w @ cur) r"
proof (induction w arbitrary: cur)
  case (Cons c w)
  then show ?case by (subst fields_aux.simps) (simp add: space_len_word)
qed simp

text \<open>A run of printable characters is one field.\<close>

definition nonblank :: "string \<Rightarrow> bool" where
  "nonblank w \<longleftrightarrow> w \<noteq> [] \<and> list_all word_char w"

lemma fields_nonblank:
  "nonblank w \<Longrightarrow> Prelude.fields w = [w]"
  "nonblank w \<Longrightarrow> Prelude.fields (w @ CHR '' '' # r) = w # Prelude.fields r"
proof -
  assume w: "nonblank w"
  have "fields_aux (rev w) [] = [w]" using w by (subst fields_aux.simps) (simp add: nonblank_def)
  then show "Prelude.fields w = [w]"
    using w fields_aux_word [of w "[]" "[]"] by (simp add: Prelude.fields_def nonblank_def)
  have "fields_aux (rev w) (CHR '' '' # r) = w # fields_aux [] r"
    using w by (subst fields_aux.simps) (simp add: nonblank_def)
  then show "Prelude.fields (w @ CHR '' '' # r) = w # Prelude.fields r"
    using w fields_aux_word [of w "[]" "CHR '' '' # r"] by (simp add: Prelude.fields_def nonblank_def)
qed

lemma nonblank_no_LF: "nonblank w \<Longrightarrow> LF \<notin> set w"
  by (auto simp: nonblank_def list.pred_set)

lemma word_nonblank: "is_word w \<Longrightarrow> nonblank w"
  by (simp add: is_word_def nonblank_def)

lemmas fields_word = fields_nonblank(1) [OF word_nonblank] fields_nonblank(2) [OF word_nonblank]

lemma nonblank_ends: "nonblank w \<Longrightarrow> word_char (hd w) \<and> word_char (last w)"
  by (simp add: nonblank_def list.pred_set)

lemma fields_join: "ws \<noteq> [] \<Longrightarrow> list_all nonblank ws \<Longrightarrow> Prelude.fields (join_with '' '' ws) = ws"
  by (induction "'' ''" ws rule: join_with.induct) (simp_all add: fields_nonblank)

lemma last_join_nonblank: "ws \<noteq> [] \<Longrightarrow> list_all nonblank ws \<Longrightarrow> join_with sep ws \<noteq> [] \<and> word_char (last (join_with sep ws))"
proof (induction sep ws rule: join_with.induct)
  case (3 sep x y ys)
  then show ?case by simp
qed (simp_all add: nonblank_def list.pred_set)

lemma last_join:
  "xs \<noteq> [] \<Longrightarrow> last xs \<noteq> [] \<Longrightarrow> join_with sep xs \<noteq> [] \<and> last (join_with sep xs) = last (last xs)"
  by (induction sep xs rule: join_with.induct) auto

lemma hd_join_nonblank: "ws \<noteq> [] \<Longrightarrow> list_all nonblank ws \<Longrightarrow> word_char (hd (join_with sep ws))"
  by (cases ws rule: list.exhaust) (auto simp: nonblank_def list.pred_set neq_Nil_conv intro: list.exhaust [of "tl ws"])

text \<open>What two printable characters start keeps them when trimmed.\<close>

lemma space_run_short:
  assumes "p \<in> set space_runes \<union> rev ` set space_runes" "has_prefix (x @ [a] @ y) p" "word_char a"
  shows "length p \<le> length x"
proof (rule ccontr)
  assume "\<not> length p \<le> length x"
  then have l: "length x < length p" by simp
  obtain r where r: "x @ [a] @ y = p @ r" using assms(2) by (auto simp: has_prefix_iff)
  then have "p ! length x = a" using l by (metis nth_append nth_append_length append_Cons append_Nil)
  then have "a \<in> set p" using l nth_mem by blast
  moreover have "\<forall>p \<in> set space_runes. \<forall>c \<in> set p. \<not> word_char c" by (simp add: space_runes_def word_char_def)
  ultimately show False using assms(1,3) by auto
qed

lemma trim_left_rev_keeps:
  assumes "word_char a"
  shows "\<exists>x'. trim_left_rev (x @ [a] @ y) = x' @ [a] @ y"
proof (induction x rule: length_induct)
  case (1 x)
  let ?s = "x @ [a] @ y"
  show ?case
  proof (cases "space_len_rev ?s = 0")
    case True
    then show ?thesis by (subst trim_left_rev.simps) auto
  next
    case False
    then obtain p where p: "find (\<lambda>p. has_prefix ?s (rev p)) space_runes = Some p" "space_len_rev ?s = length p" "p \<noteq> []"
      by (auto simp: space_len_rev_def split: option.splits)
    then have "p \<in> set space_runes" "has_prefix ?s (rev p)" by (auto simp: find_Some_iff)
    then have l: "length p \<le> length x" using space_run_short [of "rev p" x a y] assms by auto
    then have "drop (space_len_rev ?s) ?s = drop (length p) x @ [a] @ y" using p(2) by simp
    moreover have "length (drop (length p) x) < length x" using l p(3) by (cases p) auto
    ultimately show ?thesis using 1 False by (subst trim_left_rev.simps) auto
  qed
qed

lemma trim_space_starts:
  assumes "word_char a" "word_char b"
  shows "\<exists>r'. trim_space (a # b # r) = a # b # r'"
proof -
  have "trim_left (a # b # r) = a # b # r" by (subst trim_left.simps) (simp add: space_len_word assms)
  moreover obtain x' where "trim_left_rev (rev r @ [b] @ [a]) = x' @ [b] @ [a]" using trim_left_rev_keeps [OF assms(2)] by blast
  ultimately show ?thesis by (simp add: trim_space_def trim_right_def)
qed

lemma split2_blank: "list_all word_char w \<Longrightarrow> split2 (CHR '' '') (w @ CHR '' '' # r) = (w, Some r)"
  by (induction w) auto

lemma itoa_word:
  assumes "0 \<le> i"
  shows "is_word (itoa i)"
proof -
  have "word_char c" if "is_digit c" for c
    using that by (auto simp: is_digit_def digit_val_def word_char_def split: if_splits)
  then have "list_all word_char (nat_str n)" for n using nat_str_digits by (auto simp: list.pred_set)
  moreover have "\<not> is_digit (CHR ''#'')" by (simp add: is_digit_def digit_val_def)
  then have "hd (nat_str n) \<noteq> CHR ''#''" for n using nat_str_digits [of _ n] nat_str_nonempty [of n] hd_in_set by metis
  ultimately show ?thesis using assms by (auto simp: is_word_def itoa_def)
qed

end
