(* ===== verification/Angel_Assembly.thy ===== *)
theory Angel_Assembly
  imports Plain_Text Mission_DAG
begin

text \<open>
  Angel Assembly, the line language of missions: the parser (\<open>god/aa_parser.go\<close>), the compiler
  to a mission and its prefetch requests (\<open>god/aa_compiler.go\<close>) and the check of a mission
  (\<open>god/aa_validate.go\<close>). A parse error is a line number, 0 for what the whole program lacks,
  and a message. The identifier and time a mission gets are arguments; \<open>time.Parse\<close> with the
  layout RFC 3339 is the parameter \<open>rfc3339\<close>. \<open>aa_text\<close> prints a program back.
\<close>

section \<open>Programs\<close>

record aa_need =
  ne_kind :: string
  ne_symbol :: string
  ne_path :: string
  ne_start :: int
  ne_n :: int

record aa_assert =
  as_kind :: string
  as_selector :: string

record aa_program =
  aa_base :: string
  aa_leases :: "scope list"
  aa_needs :: "aa_need list"
  aa_dos :: "string list"
  aa_asserts :: "aa_assert list"
  aa_return :: string

type_synonym aa_error = "nat \<times> string"

section \<open>Parsing\<close>

definition parse_need :: "nat \<Rightarrow> string \<Rightarrow> aa_error + aa_need" where
  "parse_need n rest =
     (let fs = Prelude.fields rest; kind = hd fs
      in if kind = ''symdef'' then
           (if length fs \<noteq> 2 then Inl (n, ''NEED symdef requires exactly 1 argument: symbol'')
            else Inr \<lparr>ne_kind = ''symdef'', ne_symbol = fs ! 1, ne_path = [], ne_start = 0, ne_n = 0\<rparr>)
         else if kind = ''callers'' then
           (if length fs < 2 \<or> 3 < length fs then Inl (n, ''NEED callers requires 1-2 arguments: symbol [top_k]'')
            else if length fs = 3 then
              (case atoi (fs ! 2) of
                 Some k \<Rightarrow>
                   (if k \<le> 0 then Inl (n, ''NEED callers top_k must be a positive integer'')
                    else Inr \<lparr>ne_kind = ''callers'', ne_symbol = fs ! 1, ne_path = [], ne_start = 0, ne_n = k\<rparr>)
               | None \<Rightarrow> Inl (n, ''NEED callers top_k must be a positive integer''))
            else Inr \<lparr>ne_kind = ''callers'', ne_symbol = fs ! 1, ne_path = [], ne_start = 0, ne_n = 0\<rparr>)
         else if kind = ''slice'' then
           (if length fs \<noteq> 4 then Inl (n, ''NEED slice requires exactly 3 arguments: path start_line line_count'')
            else case atoi (fs ! 2) of
              None \<Rightarrow> Inl (n, ''NEED slice start_line must be a non-negative integer'')
            | Some s \<Rightarrow>
                (if s < 0 then Inl (n, ''NEED slice start_line must be a non-negative integer'')
                 else case atoi (fs ! 3) of
                   None \<Rightarrow> Inl (n, ''NEED slice line_count must be a positive integer'')
                 | Some k \<Rightarrow>
                     (if k \<le> 0 then Inl (n, ''NEED slice line_count must be a positive integer'')
                      else Inr \<lparr>ne_kind = ''slice'', ne_symbol = [], ne_path = fs ! 1, ne_start = s, ne_n = k\<rparr>)))
         else Inl (n, ''unknown NEED kind '' @ go_quote kind @ '' (expected symdef, callers, or slice)''))"

definition parse_assert :: "nat \<Rightarrow> string \<Rightarrow> aa_error + aa_assert" where
  "parse_assert n rest =
     (let fs = Prelude.fields rest; kind = hd fs
      in if kind = ''tests'' then
           (if length fs \<noteq> 2 then Inl (n, ''ASSERT tests requires exactly 1 argument: selector'')
            else Inr \<lparr>as_kind = ''tests'', as_selector = fs ! 1\<rparr>)
         else Inl (n, ''unknown ASSERT kind '' @ go_quote kind @ '' (expected tests)''))"

fun parse_leases :: "nat \<Rightarrow> string list \<Rightarrow> aa_error + scope list" where
  "parse_leases n [] = Inr []"
| "parse_leases n (pair # ps) =
     (let bad = (n, ''invalid LEASE format '' @ go_quote pair @ '', expected scope_type:scope_value'')
      in case index_of pair '':'' of
           None \<Rightarrow> Inl bad
         | Some i \<Rightarrow>
             (if i < 1 \<or> length pair - 1 \<le> i then Inl bad
              else case parse_leases n ps of
                Inl e \<Rightarrow> Inl e
              | Inr ls \<Rightarrow> Inr (\<lparr>sc_type = take i pair, sc_value = drop (i + 1) pair\<rparr> # ls)))"

text \<open>The state of the loop: the program so far, and how often \<open>BASE_REV\<close> and \<open>RETURN\<close> were met.\<close>

type_synonym aa_state = "aa_program \<times> nat \<times> nat"

definition directive :: "nat \<Rightarrow> string \<Rightarrow> string \<Rightarrow> aa_state \<Rightarrow> aa_error + aa_state" where
  "directive n kw rest st =
     (let (p, bases, returns) = st
      in if kw = ''BASE_REV'' then
           (if rest = [] then Inl (n, ''BASE_REV requires a value'')
            else if 1 < bases + 1 then Inl (n, ''duplicate BASE_REV'')
            else Inr (p\<lparr>aa_base := rest\<rparr>, bases + 1, returns))
         else if kw = ''LEASE'' then
           (if rest = [] then Inl (n, ''LEASE requires at least one scope_type:scope_value pair'')
            else case parse_leases n (Prelude.fields rest) of
              Inl e \<Rightarrow> Inl e
            | Inr ls \<Rightarrow> Inr (p\<lparr>aa_leases := aa_leases p @ ls\<rparr>, bases, returns))
         else if kw = ''NEED'' then
           (if rest = [] then Inl (n, ''NEED requires arguments'')
            else case parse_need n rest of
              Inl e \<Rightarrow> Inl e
            | Inr x \<Rightarrow> Inr (p\<lparr>aa_needs := aa_needs p @ [x]\<rparr>, bases, returns))
         else if kw = ''DO'' then
           (if rest = [] then Inl (n, ''DO requires a description'')
            else Inr (p\<lparr>aa_dos := aa_dos p @ [rest]\<rparr>, bases, returns))
         else if kw = ''ASSERT'' then
           (if rest = [] then Inl (n, ''ASSERT requires arguments'')
            else case parse_assert n rest of
              Inl e \<Rightarrow> Inl e
            | Inr x \<Rightarrow> Inr (p\<lparr>aa_asserts := aa_asserts p @ [x]\<rparr>, bases, returns))
         else if kw = ''RETURN'' then
           (if rest = [] then Inl (n, ''RETURN requires a value'')
            else if 1 < returns + 1 then Inl (n, ''duplicate RETURN'')
            else Inr (p\<lparr>aa_return := rest\<rparr>, bases, returns + 1))
         else Inl (n, ''unknown directive '' @ go_quote kw))"

definition strip_comment :: "string \<Rightarrow> string" where
  "strip_comment l = (case index_of l '' #'' of None \<Rightarrow> l | Some i \<Rightarrow> trim_space (take i l))"

definition parse_line :: "nat \<Rightarrow> string \<Rightarrow> aa_state \<Rightarrow> aa_error + aa_state" where
  "parse_line n raw st =
     (let l = trim_space raw
      in if l = [] \<or> has_prefix l ''#'' then Inr st
         else (let (kw, r) = split2 (CHR '' '') (strip_comment l)
               in directive n kw (case r of None \<Rightarrow> [] | Some x \<Rightarrow> trim_space x) st))"

fun parse_lines :: "nat \<Rightarrow> string list \<Rightarrow> aa_state \<Rightarrow> aa_error + aa_state" where
  "parse_lines n [] st = Inr st"
| "parse_lines n (l # ls) st =
     (case parse_line n l st of Inl e \<Rightarrow> Inl e | Inr st' \<Rightarrow> parse_lines (n + 1) ls st')"

definition empty_program :: aa_program where
  "empty_program = \<lparr>aa_base = [], aa_leases = [], aa_needs = [], aa_dos = [], aa_asserts = [], aa_return = []\<rparr>"

definition parse_aa :: "string \<Rightarrow> aa_error + aa_program" where
  "parse_aa source =
     (case parse_lines 1 (split_on LF source) (empty_program, 0, 0) of
        Inl e \<Rightarrow> Inl e
      | Inr (p, _, _) \<Rightarrow>
          (if aa_base p = [] then Inl (0, ''missing required BASE_REV'')
           else if aa_leases p = [] then Inl (0, ''missing required LEASE (at least one needed)'')
           else if aa_dos p = [] then Inl (0, ''missing required DO (at least one needed)'')
           else if aa_return p = [] then Inl (0, ''missing required RETURN'')
           else Inr p))"

section \<open>Compiling\<close>

record shard_request =
  sr_command :: string
  sr_mission :: string
  sr_symbol :: string
  sr_path :: string
  sr_start :: int
  sr_n :: int
  sr_top_k :: int

definition shard_request_of :: "string \<Rightarrow> aa_need \<Rightarrow> shard_request" where
  "shard_request_of mid ne =
     (let sr = \<lparr>sr_command = [], sr_mission = mid, sr_symbol = [], sr_path = [], sr_start = 0, sr_n = 0, sr_top_k = 0\<rparr>
      in if ne_kind ne = ''symdef'' then sr\<lparr>sr_command := ''PF_SYMDEF'', sr_symbol := ne_symbol ne\<rparr>
         else if ne_kind ne = ''callers'' then
           (let sr' = sr\<lparr>sr_command := ''PF_CALLERS'', sr_symbol := ne_symbol ne\<rparr>
            in if 0 < ne_n ne then sr'\<lparr>sr_top_k := ne_n ne\<rparr> else sr')
         else if ne_kind ne = ''slice'' then
           sr\<lparr>sr_command := ''PF_SLICE'', sr_path := ne_path ne, sr_start := ne_start ne, sr_n := ne_n ne\<rparr>
         else sr)"

definition compile_aa :: "string \<Rightarrow> string \<Rightarrow> aa_program \<Rightarrow> mission \<times> shard_request list" where
  "compile_aa mid now p =
     (\<lparr>mi_id = mid, mi_goal = join_with ''; '' (aa_dos p), mi_base_rev = aa_base p, mi_scopes = aa_leases p,
       mi_leases = [], mi_tasks = aa_dos p, mi_budget = 8000, mi_created = now\<rparr>,
      map (shard_request_of mid) (aa_needs p))"

definition validate_mission :: "(string \<Rightarrow> bool) \<Rightarrow> mission \<Rightarrow> string option" where
  "validate_mission rfc3339 m =
     (if mi_id m = [] then Some ''validate mission: mission_id is required''
      else if mi_base_rev m = [] then Some ''validate mission: base_rev is required''
      else if mi_goal m = [] then Some ''validate mission: goal is required''
      else if mi_tasks m = [] then Some ''validate mission: tasks must be non-nil and non-empty''
      else if mi_budget m < 0 then Some ''validate mission: token_budget must be >= 0''
      else if mi_created m = [] then Some ''validate mission: created_at is required''
      else if \<not> rfc3339 (mi_created m) then Some ''validate mission: created_at must be valid RFC3339''
      else None)"

section \<open>Printing\<close>

definition need_text :: "aa_need \<Rightarrow> string" where
  "need_text ne =
     ''NEED '' @ ne_kind ne @ '' '' @
     (if ne_kind ne = ''slice'' then ne_path ne @ '' '' @ itoa (ne_start ne) @ '' '' @ itoa (ne_n ne)
      else if ne_kind ne = ''callers'' \<and> 0 < ne_n ne then ne_symbol ne @ '' '' @ itoa (ne_n ne)
      else ne_symbol ne)"

definition aa_lines :: "aa_program \<Rightarrow> string list" where
  "aa_lines p =
     [''BASE_REV '' @ aa_base p] @ map (\<lambda>s. ''LEASE '' @ sc_type s @ '':'' @ sc_value s) (aa_leases p) @
     map need_text (aa_needs p) @ map (\<lambda>d. ''DO '' @ d) (aa_dos p) @
     map (\<lambda>a. ''ASSERT '' @ as_kind a @ '' '' @ as_selector a) (aa_asserts p) @ [''RETURN '' @ aa_return p]"

definition aa_text :: "aa_program \<Rightarrow> string" where
  "aa_text p = join_with [LF] (aa_lines p)"

section \<open>Lines of a program\<close>

text \<open>A keyword and a text on a line reach the directive as they are.\<close>

lemma parse_line_text:
  assumes "is_word kw" "is_text t"
  shows "parse_line n (kw @ CHR '' '' # t) st = directive n kw t st"
proof -
  have l: "is_text (kw @ CHR '' '' # t)" by (rule text_join [OF assms])
  then have "index_of (kw @ CHR '' '' # t) '' #'' = None" by (simp add: is_text_def no_hash_index)
  moreover have "\<not> has_prefix (kw @ CHR '' '' # t) ''#''" using assms(1) by (cases kw) (auto simp: is_word_def)
  moreover have "split2 (CHR '' '') (kw @ CHR '' '' # t) = (kw, Some t)"
    using assms(1) by (simp add: split2_blank is_word_def)
  ultimately show ?thesis
    using trim_text [OF l] trim_text [OF assms(2)] by (simp add: parse_line_def strip_comment_def Let_def)
qed

section \<open>Reading back a printed program\<close>

definition lease_ok :: "scope \<Rightarrow> bool" where
  "lease_ok s \<longleftrightarrow> is_word (sc_type s) \<and> CHR '':'' \<notin> set (sc_type s) \<and> sc_value s \<noteq> [] \<and> list_all word_char (sc_value s)"

definition need_ok :: "aa_need \<Rightarrow> bool" where
  "need_ok ne \<longleftrightarrow>
     ne_kind ne = ''symdef'' \<and> is_word (ne_symbol ne) \<and> ne_path ne = [] \<and> ne_start ne = 0 \<and> ne_n ne = 0 \<or>
     ne_kind ne = ''callers'' \<and> is_word (ne_symbol ne) \<and> ne_path ne = [] \<and> ne_start ne = 0 \<and> 0 \<le> ne_n ne \<and> in_int64 (ne_n ne) \<or>
     ne_kind ne = ''slice'' \<and> ne_symbol ne = [] \<and> is_word (ne_path ne) \<and> 0 \<le> ne_start ne \<and> in_int64 (ne_start ne) \<and>
       0 < ne_n ne \<and> in_int64 (ne_n ne)"

definition assert_ok :: "aa_assert \<Rightarrow> bool" where
  "assert_ok a \<longleftrightarrow> as_kind a = ''tests'' \<and> is_word (as_selector a)"

definition aa_ok :: "aa_program \<Rightarrow> bool" where
  "aa_ok p \<longleftrightarrow> is_text (aa_base p) \<and> aa_leases p \<noteq> [] \<and> list_all lease_ok (aa_leases p) \<and>
     list_all need_ok (aa_needs p) \<and> aa_dos p \<noteq> [] \<and> list_all is_text (aa_dos p) \<and>
     list_all assert_ok (aa_asserts p) \<and> is_text (aa_return p)"

lemma lease_word: "lease_ok s \<Longrightarrow> is_word (sc_type s @ '':'' @ sc_value s)"
  by (auto simp: lease_ok_def is_word_def word_char_def)

lemma lease_index: "CHR '':'' \<notin> set t \<Longrightarrow> index_of (t @ '':'' @ v) '':'' = Some (length t)"
  by (induction t) (auto simp: has_prefix_def)

lemma parse_lease_ok: "lease_ok s \<Longrightarrow> parse_leases n [sc_type s @ '':'' @ sc_value s] = Inr [s]"
  using lease_index [of "sc_type s" "sc_value s"] by (auto simp: lease_ok_def is_word_def Suc_le_eq length_greater_0_conv)

lemma keyword_words: "is_word ''BASE_REV'' \<and> is_word ''LEASE'' \<and> is_word ''NEED'' \<and> is_word ''DO'' \<and>
  is_word ''ASSERT'' \<and> is_word ''RETURN'' \<and> is_word ''symdef'' \<and> is_word ''callers'' \<and> is_word ''slice'' \<and> is_word ''tests''"
  by (simp add: is_word_def word_char_def)

lemma text_not_Nil: "is_text t \<Longrightarrow> t \<noteq> []"
  by (simp add: is_text_def)

lemma line_base: "is_text t \<Longrightarrow> parse_line n (''BASE_REV '' @ t) (p, 0, r) = Inr (p\<lparr>aa_base := t\<rparr>, 1, r)"
  using parse_line_text [of "''BASE_REV''" t] keyword_words text_not_Nil by (simp add: directive_def)

lemma line_return: "is_text t \<Longrightarrow> parse_line n (''RETURN '' @ t) (p, b, 0) = Inr (p\<lparr>aa_return := t\<rparr>, b, 1)"
  using parse_line_text [of "''RETURN''" t] keyword_words text_not_Nil by (simp add: directive_def)

lemma line_do: "is_text t \<Longrightarrow> parse_line n (''DO '' @ t) (p, b, r) = Inr (p\<lparr>aa_dos := aa_dos p @ [t]\<rparr>, b, r)"
  using parse_line_text [of "''DO''" t] keyword_words text_not_Nil by (simp add: directive_def)

lemma line_lease:
  assumes "lease_ok s"
  shows "parse_line n (''LEASE '' @ sc_type s @ '':'' @ sc_value s) (p, b, r) = Inr (p\<lparr>aa_leases := aa_leases p @ [s]\<rparr>, b, r)"
proof -
  note w = lease_word [OF assms]
  have "parse_line n (''LEASE'' @ CHR '' '' # (sc_type s @ '':'' @ sc_value s)) (p, b, r) =
      directive n ''LEASE'' (sc_type s @ '':'' @ sc_value s) (p, b, r)"
    using parse_line_text [of "''LEASE''"] keyword_words word_text [OF w] by blast
  moreover have "sc_type s @ '':'' @ sc_value s \<noteq> []" by simp
  ultimately show ?thesis
    using parse_lease_ok [OF assms, of n] fields_word(1) [OF w] by (simp add: directive_def del: parse_leases.simps)
qed

lemma line_assert:
  assumes "assert_ok a"
  shows "parse_line n (''ASSERT '' @ as_kind a @ '' '' @ as_selector a) (p, b, r) = Inr (p\<lparr>aa_asserts := aa_asserts p @ [a]\<rparr>, b, r)"
proof -
  have a: "as_kind a = ''tests''" "is_word (as_selector a)" using assms by (simp_all add: assert_ok_def)
  have "is_text (''tests'' @ CHR '' '' # as_selector a)" using keyword_words text_join word_text a(2) by blast
  from parse_line_text [of "''ASSERT''", OF _ this] keyword_words
  have "parse_line n (''ASSERT'' @ CHR '' '' # (''tests'' @ CHR '' '' # as_selector a)) (p, b, r) =
      directive n ''ASSERT'' (''tests'' @ CHR '' '' # as_selector a) (p, b, r)" by blast
  moreover have "Prelude.fields (''tests'' @ CHR '' '' # as_selector a) = [''tests'', as_selector a]"
    using fields_word(2) [of "''tests''"] fields_word(1) [OF a(2)] keyword_words by simp
  ultimately show ?thesis using a(1) by (simp add: directive_def parse_assert_def Let_def)
qed

lemma need_fields:
  assumes "need_ok ne"
  defines "t \<equiv> drop 5 (need_text ne)"
  shows "need_text ne = ''NEED '' @ t" "is_text t" "parse_need n t = Inr ne"
proof -
  have num: "atoi (itoa i) = Some i" if "in_int64 i" for i using that by (rule atoi_itoa)
  have two: "is_text (w @ CHR '' '' # v)" "Prelude.fields (w @ CHR '' '' # v) = [w, v]" if "is_word w" "is_word v" for w v
    using that text_join word_text fields_word by simp_all
  have three: "is_text (w @ CHR '' '' # v @ CHR '' '' # x)" "Prelude.fields (w @ CHR '' '' # v @ CHR '' '' # x) = [w, v, x]"
    if "is_word w" "is_word v" "is_word x" for w v x
    using that two [of v x] text_join fields_word by simp_all
  have four: "is_text (w @ CHR '' '' # v @ CHR '' '' # x @ CHR '' '' # y)"
    "Prelude.fields (w @ CHR '' '' # v @ CHR '' '' # x @ CHR '' '' # y) = [w, v, x, y]"
    if "is_word w" "is_word v" "is_word x" "is_word y" for w v x y
    using that three [of v x y] text_join fields_word by simp_all
  show nt: "need_text ne = ''NEED '' @ t" by (simp add: t_def need_text_def)
  consider (symdef) "ne_kind ne = ''symdef''" "is_word (ne_symbol ne)" "ne_path ne = []" "ne_start ne = 0" "ne_n ne = 0"
    | (callers) "ne_kind ne = ''callers''" "is_word (ne_symbol ne)" "ne_path ne = []" "ne_start ne = 0" "ne_n ne = 0"
    | (callers_n) "ne_kind ne = ''callers''" "is_word (ne_symbol ne)" "ne_path ne = []" "ne_start ne = 0" "0 < ne_n ne" "in_int64 (ne_n ne)"
    | (slice) "ne_kind ne = ''slice''" "ne_symbol ne = []" "is_word (ne_path ne)" "0 \<le> ne_start ne" "in_int64 (ne_start ne)"
        "0 < ne_n ne" "in_int64 (ne_n ne)"
    using assms(1) unfolding need_ok_def by fastforce
  then have "is_text t \<and> parse_need n t = Inr ne"
  proof cases
    case symdef
    then have t: "t = ''symdef'' @ CHR '' '' # ne_symbol ne" by (simp add: t_def need_text_def)
    from two [of "''symdef''" "ne_symbol ne"] keyword_words symdef
    have f: "is_text t" "Prelude.fields t = [''symdef'', ne_symbol ne]" unfolding t by blast+
    with symdef show ?thesis by (simp add: parse_need_def Let_def)
  next
    case callers
    then have t: "t = ''callers'' @ CHR '' '' # ne_symbol ne" by (simp add: t_def need_text_def)
    from two [of "''callers''" "ne_symbol ne"] keyword_words callers
    have f: "is_text t" "Prelude.fields t = [''callers'', ne_symbol ne]" unfolding t by blast+
    with callers show ?thesis by (simp add: parse_need_def Let_def)
  next
    case callers_n
    then have t: "t = ''callers'' @ CHR '' '' # ne_symbol ne @ CHR '' '' # itoa (ne_n ne)" by (simp add: t_def need_text_def)
    from three [of "''callers''" "ne_symbol ne" "itoa (ne_n ne)"] keyword_words callers_n itoa_word [of "ne_n ne"]
    have f: "is_text t" "Prelude.fields t = [''callers'', ne_symbol ne, itoa (ne_n ne)]" unfolding t by simp_all
    with callers_n num [OF callers_n(6)] show ?thesis by (simp add: parse_need_def Let_def)
  next
    case slice
    then have t: "t = ''slice'' @ CHR '' '' # ne_path ne @ CHR '' '' # itoa (ne_start ne) @ CHR '' '' # itoa (ne_n ne)"
      by (simp add: t_def need_text_def)
    from four [of "''slice''" "ne_path ne" "itoa (ne_start ne)" "itoa (ne_n ne)"] keyword_words slice
      itoa_word [of "ne_start ne"] itoa_word [of "ne_n ne"]
    have f: "is_text t" "Prelude.fields t = [''slice'', ne_path ne, itoa (ne_start ne), itoa (ne_n ne)]" unfolding t by simp_all
    with slice num [OF slice(5)] num [OF slice(7)] show ?thesis by (simp add: parse_need_def Let_def)
  qed
  then show "is_text t" "parse_need n t = Inr ne" by simp_all
qed

lemma line_need: "need_ok ne \<Longrightarrow> parse_line n (need_text ne) (p, b, r) = Inr (p\<lparr>aa_needs := aa_needs p @ [ne]\<rparr>, b, r)"
proof -
  assume ok: "need_ok ne"
  define t where "t = drop 5 (need_text ne)"
  note t = need_fields [OF ok, folded t_def]
  have "parse_line n (''NEED'' @ CHR '' '' # t) (p, b, r) = directive n ''NEED'' t (p, b, r)"
    using parse_line_text [OF _ t(2)] keyword_words by blast
  then show ?thesis using t text_not_Nil [OF t(2)] by (simp add: directive_def)
qed

lemma parse_lines_append:
  "parse_lines n (xs @ ys) st = (case parse_lines n xs st of Inl e \<Rightarrow> Inl e | Inr st' \<Rightarrow> parse_lines (n + length xs) ys st')"
  by (induction n xs st rule: parse_lines.induct) (auto split: sum.split)

lemma parse_lines_map:
  assumes "\<And>n p x. P x \<Longrightarrow> parse_line n (f x) (p, b, r) = Inr (g p [x], b, r)"
    and "\<And>p xs ys. g (g p xs) ys = g p (xs @ ys)" "\<And>p. g p [] = p"
  shows "list_all P xs \<Longrightarrow> parse_lines n (map f xs) (p, b, r) = Inr (g p xs, b, r)"
proof (induction xs arbitrary: n p)
  case (Cons x xs)
  then show ?case using assms(2) [of p "[x]" xs] by (simp add: assms(1))
qed (simp add: assms(3))

lemma lines_no_LF: "aa_ok p \<Longrightarrow> l \<in> set (aa_lines p) \<Longrightarrow> LF \<notin> set l"
proof -
  assume p: "aa_ok p" and l: "l \<in> set (aa_lines p)"
  have t: "LF \<notin> set t" if "is_text t" for t using that by (auto simp: is_text_def list.pred_set)
  have "LF \<notin> set (sc_type s @ '':'' @ sc_value s)" if "s \<in> set (aa_leases p)" for s
    using p that t word_text lease_word unfolding aa_ok_def list.pred_set by blast
  moreover have "LF \<notin> set (need_text ne)" if "ne \<in> set (aa_needs p)" for ne
  proof -
    have "need_ok ne" using p that by (simp add: aa_ok_def list.pred_set)
    note nt = need_fields(1,2) [OF this]
    have "LF \<notin> set (drop 5 (need_text ne))" using nt(2) by (rule t)
    then have "LF \<notin> set (''NEED '') \<union> set (drop 5 (need_text ne))" by simp
    then show ?thesis using nt(1) set_append by metis
  qed
  ultimately show ?thesis using p l t word_text
    by (auto simp: aa_lines_def aa_ok_def list.pred_set assert_ok_def)
qed

lemma parse_lines_program:
  assumes "aa_ok p"
  shows "parse_lines 1 (aa_lines p) (empty_program, 0, 0) = Inr (p, 1, 1)"
proof -
  have ok: "is_text (aa_base p)" "list_all lease_ok (aa_leases p)" "list_all need_ok (aa_needs p)"
    "list_all is_text (aa_dos p)" "list_all assert_ok (aa_asserts p)" "is_text (aa_return p)"
    using assms by (simp_all add: aa_ok_def)
  have base: "parse_line n (''BASE_REV '' @ aa_base p) (q, 0, 0) = Inr (q\<lparr>aa_base := aa_base p\<rparr>, 1, 0)" for n q
    by (rule line_base [OF ok(1)])
  have leases: "parse_lines n (map (\<lambda>s. ''LEASE '' @ sc_type s @ '':'' @ sc_value s) (aa_leases p)) (q, 1, 0)
      = Inr (q\<lparr>aa_leases := aa_leases q @ aa_leases p\<rparr>, 1, 0)" for n q
    by (rule parse_lines_map [where P = lease_ok and f = "\<lambda>s. ''LEASE '' @ sc_type s @ '':'' @ sc_value s" and g = "\<lambda>p xs. p\<lparr>aa_leases := aa_leases p @ xs\<rparr>"], erule line_lease, simp, simp, rule ok(2))
  have needs: "parse_lines n (map need_text (aa_needs p)) (q, 1, 0) = Inr (q\<lparr>aa_needs := aa_needs q @ aa_needs p\<rparr>, 1, 0)" for n q
    by (rule parse_lines_map [where P = need_ok and f = need_text and g = "\<lambda>p xs. p\<lparr>aa_needs := aa_needs p @ xs\<rparr>"], erule line_need, simp, simp, rule ok(3))
  have dos: "parse_lines n (map (\<lambda>d. ''DO '' @ d) (aa_dos p)) (q, 1, 0) = Inr (q\<lparr>aa_dos := aa_dos q @ aa_dos p\<rparr>, 1, 0)" for n q
    by (rule parse_lines_map [where P = is_text and f = "\<lambda>d. ''DO '' @ d" and g = "\<lambda>p xs. p\<lparr>aa_dos := aa_dos p @ xs\<rparr>"], erule line_do, simp, simp, rule ok(4))
  have asserts: "parse_lines n (map (\<lambda>a. ''ASSERT '' @ as_kind a @ '' '' @ as_selector a) (aa_asserts p)) (q, 1, 0)
      = Inr (q\<lparr>aa_asserts := aa_asserts q @ aa_asserts p\<rparr>, 1, 0)" for n q
    by (rule parse_lines_map [where P = assert_ok and f = "\<lambda>a. ''ASSERT '' @ as_kind a @ '' '' @ as_selector a" and g = "\<lambda>p xs. p\<lparr>aa_asserts := aa_asserts p @ xs\<rparr>"], erule line_assert, simp, simp, rule ok(5))
  have return: "parse_line n (''RETURN '' @ aa_return p) (q, 1, 0) = Inr (q\<lparr>aa_return := aa_return p\<rparr>, 1, 1)" for n q
    by (rule line_return [OF ok(6)])
  show ?thesis
    unfolding aa_lines_def parse_lines_append parse_lines.simps base sum.case leases needs dos asserts return
    by (simp add: empty_program_def)
qed

lemma aa_text_parses:
  assumes "aa_ok p"
  shows "parse_aa (aa_text p) = Inr p"
proof -
  have "split_on LF (aa_text p) = aa_lines p"
    unfolding aa_text_def by (rule split_on_join) (use lines_no_LF [OF assms] in \<open>auto simp: aa_lines_def\<close>)
  with parse_lines_program [OF assms] assms show ?thesis
    by (simp add: parse_aa_def aa_ok_def is_text_def)
qed

section \<open>What a parsed program looks like\<close>

definition lease_sound :: "scope \<Rightarrow> bool" where
  "lease_sound s \<longleftrightarrow> sc_type s \<noteq> [] \<and> CHR '':'' \<notin> set (sc_type s) \<and> sc_value s \<noteq> []"

definition need_sound :: "aa_need \<Rightarrow> bool" where
  "need_sound ne \<longleftrightarrow> ne_kind ne = ''symdef'' \<or> ne_kind ne = ''callers'' \<and> 0 \<le> ne_n ne \<or>
     ne_kind ne = ''slice'' \<and> 0 \<le> ne_start ne \<and> 0 < ne_n ne"

definition aa_sound :: "aa_program \<Rightarrow> bool" where
  "aa_sound p \<longleftrightarrow> list_all lease_sound (aa_leases p) \<and> list_all need_sound (aa_needs p) \<and>
     list_all (\<lambda>d. d \<noteq> []) (aa_dos p) \<and> list_all (\<lambda>a. as_kind a = ''tests'') (aa_asserts p)"

lemma index_of_first: "index_of s [c] = Some i \<Longrightarrow> c \<notin> set (take i s)"
  by (induction s arbitrary: i) (auto split: if_splits)

lemma parse_leases_sound: "parse_leases n ps = Inr ls \<Longrightarrow> list_all lease_sound ls"
proof (induction n ps arbitrary: ls rule: parse_leases.induct)
  case (2 n pair ps)
  from 2(2) obtain i rest where i: "index_of pair '':'' = Some i" "\<not> (i < 1 \<or> length pair - 1 \<le> i)"
    "parse_leases n ps = Inr rest" "ls = \<lparr>sc_type = take i pair, sc_value = drop (i + 1) pair\<rparr> # rest"
    by (auto simp: Let_def split: option.splits if_splits sum.splits)
  have "lease_sound \<lparr>sc_type = take i pair, sc_value = drop (i + 1) pair\<rparr>"
    using i(2) index_of_first [OF i(1)] by (auto simp: lease_sound_def)
  with 2(1) [OF refl i(1,2,3)] i(4) show ?case by simp
qed simp

lemma parse_need_sound: "parse_need n rest = Inr ne \<Longrightarrow> need_sound ne"
  by (auto simp: parse_need_def need_sound_def Let_def split: if_splits option.splits)

lemma parse_assert_sound: "parse_assert n rest = Inr a \<Longrightarrow> as_kind a = ''tests''"
  by (auto simp: parse_assert_def Let_def split: if_splits)

lemma directive_sound: "directive n kw rest (p, b, r) = Inr (p', b', r') \<Longrightarrow> aa_sound p \<Longrightarrow> aa_sound p'"
  by (auto simp: directive_def aa_sound_def Let_def split: if_splits sum.splits
      dest: parse_leases_sound parse_need_sound parse_assert_sound)

lemma parse_lines_sound: "parse_lines n ls (p, b, r) = Inr (p', b', r') \<Longrightarrow> aa_sound p \<Longrightarrow> aa_sound p'"
proof (induction ls arbitrary: n p b r)
  case (Cons l ls)
  then obtain p1 b1 r1 where l: "parse_line n l (p, b, r) = Inr (p1, b1, r1)" "parse_lines (n + 1) ls (p1, b1, r1) = Inr (p', b', r')"
    by (auto split: sum.splits)
  have "aa_sound p1" using l(1) Cons.prems(2)
    by (auto simp: parse_line_def Let_def split: if_splits prod.splits dest: directive_sound)
  with Cons.IH [OF l(2)] show ?case by simp
qed simp

lemma join_with_not_Nil: "xs \<noteq> [] \<Longrightarrow> list_all (\<lambda>x. x \<noteq> []) xs \<Longrightarrow> join_with sep xs \<noteq> []"
  by (cases xs; cases "tl xs") auto

section \<open>Properties\<close>

definition ex_program :: aa_program where
  "ex_program = \<lparr>aa_base = ''HEAD'', aa_leases = [\<lparr>sc_type = ''file'', sc_value = ''a.go''\<rparr>],
     aa_needs = [\<lparr>ne_kind = ''slice'', ne_symbol = [], ne_path = ''a.go'', ne_start = 1, ne_n = 20\<rparr>],
     aa_dos = [''fix it''], aa_asserts = [\<lparr>as_kind = ''tests'', as_selector = ''./...''\<rparr>], aa_return = ''edit_ir''\<rparr>"

lemma ex_program_ok: "aa_ok ex_program"
  by (simp add: aa_ok_def ex_program_def is_text_def is_word_def word_char_def lease_ok_def need_ok_def assert_ok_def in_int64_def)

text \<open> C8: parsing reads back every printed program: the text of a program whose words and texts are
  printable, without comment marks, and whose numbers fit parses to exactly this program. \<close>

theorem aa_print_parse:
  assumes "aa_ok p"
  shows "parse_aa (aa_text p) = Inr p"
  by (rule aa_text_parses [OF assms])

lemma aa_print_parse_witness: "parse_aa (aa_text ex_program) = Inr ex_program"
  by (rule aa_print_parse [OF ex_program_ok])

text \<open> C9: whatever text parses, its leases have a type and a value, its needs are of the three kinds
  with counts in range, and it compiles to a mission that passes validation, with one
  prefetch request of a known command for each need. \<close>

theorem aa_parse_compiles:
  assumes "parse_aa source = Inr p" "mid \<noteq> []" "now \<noteq> []" "rfc3339 now"
  shows "aa_sound p \<and> validate_mission rfc3339 (fst (compile_aa mid now p)) = None \<and>
    mi_scopes (fst (compile_aa mid now p)) = aa_leases p \<and> aa_leases p \<noteq> [] \<and>
    length (snd (compile_aa mid now p)) = length (aa_needs p) \<and>
    set (map sr_command (snd (compile_aa mid now p))) \<subseteq> {''PF_SYMDEF'', ''PF_CALLERS'', ''PF_SLICE''}"
proof -
  obtain b r where lines: "parse_lines 1 (split_on LF source) (empty_program, 0, 0) = Inr (p, b, r)"
    and p: "aa_base p \<noteq> []" "aa_leases p \<noteq> []" "aa_dos p \<noteq> []"
    using assms(1) by (auto simp: parse_aa_def split: sum.splits prod.splits if_splits)
  have s: "aa_sound p" by (rule parse_lines_sound [OF lines]) (simp add: empty_program_def aa_sound_def)
  then have "join_with ''; '' (aa_dos p) \<noteq> []" using p(3) by (simp add: aa_sound_def join_with_not_Nil)
  moreover have "sr_command (shard_request_of mid ne) \<in> {''PF_SYMDEF'', ''PF_CALLERS'', ''PF_SLICE''}" if "need_sound ne" for ne
    using that by (auto simp: shard_request_of_def need_sound_def Let_def)
  ultimately show ?thesis using p s assms(2-4)
    by (auto simp: compile_aa_def validate_mission_def aa_sound_def list.pred_set)
qed

lemma aa_parse_compiles_witness:
  "validate_mission (\<lambda>t. t = ''now'') (fst (compile_aa ''m'' ''now'' ex_program)) = None"
  using aa_parse_compiles [OF aa_text_parses [OF ex_program_ok], of "''m''" "''now''" "\<lambda>t. t = ''now''"] by blast

end
