(* ===== verification/Json.thy ===== *)
theory Json
  imports Prelude
begin

text \<open>
  Package \<open>encoding/json\<close>, as far as the event log needs it: JSON values, the text
  \<open>json.Marshal\<close> writes, the parser behind \<open>json.Valid\<close> and \<open>json.Unmarshal\<close>, and
  the decoding of an object into the fields of a struct. The main fact is the round
  trip: parsing what was marshalled gives the value back.

  A number is kept as its literal. Bytes of 128 and above pass through both ways, so
  the model is exact on ASCII text and on valid UTF-8 without the code points U+2028
  and U+2029, which Go escapes.
\<close>

datatype json =
    JNull
  | JBool bool
  | JNum string
  | JStr string
  | JArr "json list"
  | JObj "(string \<times> json) list"

section \<open>Marshalling\<close>

definition json_esc :: "char \<Rightarrow> string" where
  "json_esc c =
     (if c = CHR 0x22 then [CHR 0x5C, CHR 0x22]
      else if c = CHR 0x5C then [CHR 0x5C, CHR 0x5C]
      else if c = CHR 0x08 then [CHR 0x5C, CHR ''b'']
      else if c = CHR 0x0C then [CHR 0x5C, CHR ''f'']
      else if c = LF then [CHR 0x5C, CHR ''n'']
      else if c = CR then [CHR 0x5C, CHR ''r'']
      else if c = TAB then [CHR 0x5C, CHR ''t'']
      else if (of_char c :: nat) < 32 \<or> c = CHR ''<'' \<or> c = CHR ''>'' \<or> c = CHR ''&''
        then [CHR 0x5C, CHR ''u'', CHR ''0'', CHR ''0'',
              hex_digit (of_char c div 16), hex_digit (of_char c mod 16)]
      else [c])"

definition json_quote :: "string \<Rightarrow> string" where
  "json_quote s = CHR 0x22 # List.concat (map json_esc s) @ [CHR 0x22]"

fun json_text :: "json \<Rightarrow> string" and
    json_elems :: "json list \<Rightarrow> string" and
    json_members :: "(string \<times> json) list \<Rightarrow> string" where
  "json_text JNull = ''null''"
| "json_text (JBool b) = (if b then ''true'' else ''false'')"
| "json_text (JNum l) = l"
| "json_text (JStr s) = json_quote s"
| "json_text (JArr vs) = CHR ''['' # json_elems vs @ '']''"
| "json_text (JObj ms) = CHR ''{'' # json_members ms @ ''}''"
| "json_elems [] = []"
| "json_elems [v] = json_text v"
| "json_elems (v # w # vs) = json_text v @ CHR '','' # json_elems (w # vs)"
| "json_members [] = []"
| "json_members [(k, v)] = json_quote k @ CHR '':'' # json_text v"
| "json_members ((k, v) # m # ms) =
     json_quote k @ CHR '':'' # json_text v @ CHR '','' # json_members (m # ms)"

section \<open>Parsing\<close>

definition json_space :: "char \<Rightarrow> bool" where
  "json_space c \<longleftrightarrow> c = CHR '' '' \<or> c = TAB \<or> c = LF \<or> c = CR"

abbreviation skip_ws :: "string \<Rightarrow> string" where
  "skip_ws s \<equiv> dropWhile json_space s"

definition hex_val :: "char \<Rightarrow> nat option" where
  "hex_val c =
     map_of (zip ''0123456789abcdefABCDEF'' ([0..<16] @ [10..<16])) c"

text \<open>The UTF-8 bytes of a code point, and the replacement character for a surrogate.\<close>

definition utf8 :: "nat \<Rightarrow> string" where
  "utf8 n =
     (if n < 128 then [char_of n]
      else if n < 2048 then [char_of (192 + n div 64), char_of (128 + n mod 64)]
      else if 55296 \<le> n \<and> n < 57344 then [CHR 0xEF, CHR 0xBF, CHR 0xBD]
      else if n < 65536
        then [char_of (224 + n div 4096), char_of (128 + n div 64 mod 64), char_of (128 + n mod 64)]
      else [char_of (240 + n div 262144), char_of (128 + n div 4096 mod 64),
            char_of (128 + n div 64 mod 64), char_of (128 + n mod 64)])"

definition hex4 :: "string \<Rightarrow> (nat \<times> string) option" where
  "hex4 s =
     (case s of
        a # b # c # d # r \<Rightarrow>
          (case (hex_val a, hex_val b, hex_val c, hex_val d) of
             (Some p, Some q, Some u, Some v) \<Rightarrow> Some (p * 4096 + q * 256 + u * 16 + v, r)
           | _ \<Rightarrow> None)
      | _ \<Rightarrow> None)"

text \<open>After \<open>\u\<close>: a high surrogate followed by an escaped low one is one code point.\<close>

definition json_unicode :: "string \<Rightarrow> (string \<times> string) option" where
  "json_unicode s =
     (case hex4 s of
        None \<Rightarrow> None
      | Some (n, r) \<Rightarrow>
          (if 55296 \<le> n \<and> n < 56320 \<and> has_prefix r [CHR 0x5C, CHR ''u'']
           then (case hex4 (drop 2 r) of
                   Some (m, r') \<Rightarrow>
                     (if 56320 \<le> m \<and> m < 57344
                      then Some (utf8 (65536 + (n - 55296) * 1024 + (m - 56320)), r')
                      else Some (utf8 n, r))
                 | None \<Rightarrow> Some (utf8 n, r))
           else Some (utf8 n, r)))"

definition json_unesc :: "string \<Rightarrow> (string \<times> string) option" where
  "json_unesc s =
     (case s of
        [] \<Rightarrow> None
      | c # r \<Rightarrow>
          (if c = CHR ''u'' then json_unicode r
           else map_option (\<lambda>x. ([x], r))
             (map_of [(CHR 0x22, CHR 0x22), (CHR 0x5C, CHR 0x5C), (CHR ''/'', CHR ''/''),
                      (CHR ''b'', CHR 0x08), (CHR ''f'', CHR 0x0C), (CHR ''n'', LF),
                      (CHR ''r'', CR), (CHR ''t'', TAB)] c)))"

lemma hex4_shorter: "hex4 s = Some (n, r) \<Longrightarrow> length r < length s"
  by (auto simp: hex4_def split: list.splits option.splits)

lemma json_unicode_shorter: "json_unicode s = Some (x, r) \<Longrightarrow> length r < length s"
proof -
  assume a: "json_unicode s = Some (x, r)"
  then obtain n r1 where h: "hex4 s = Some (n, r1)"
    by (auto simp: json_unicode_def split: option.splits)
  note l1 = hex4_shorter [OF h]
  show ?thesis
  proof (cases "hex4 (drop 2 r1)")
    case None
    with a h l1 show ?thesis by (auto simp: json_unicode_def split: if_splits)
  next
    case (Some e)
    with hex4_shorter [of "drop 2 r1" "fst e" "snd e"] a h l1 show ?thesis
      by (auto simp: json_unicode_def split: if_splits prod.splits)
  qed
qed

lemma json_unesc_shorter: "json_unesc s = Some (x, r) \<Longrightarrow> length r < length s"
  by (auto simp: json_unesc_def dest: json_unicode_shorter split: list.splits if_splits)

text \<open>The body of a string literal, up to and including the closing quote.\<close>

function json_string :: "string \<Rightarrow> (string \<times> string) option" where
  "json_string s =
     (case s of
        [] \<Rightarrow> None
      | c # r \<Rightarrow>
          (if c = CHR 0x22 then Some ([], r)
           else if c = CHR 0x5C then
             (case json_unesc r of
                None \<Rightarrow> None
              | Some (x, r') \<Rightarrow>
                  (case json_string r' of None \<Rightarrow> None | Some (y, r'') \<Rightarrow> Some (x @ y, r'')))
           else if (of_char c :: nat) < 32 then None
           else (case json_string r of None \<Rightarrow> None | Some (y, r'') \<Rightarrow> Some (c # y, r''))))"
  by pat_completeness auto
termination
  by (relation "measure length") (auto dest: json_unesc_shorter)

declare json_string.simps [simp del]

definition num_char :: "char \<Rightarrow> bool" where
  "num_char c \<longleftrightarrow> is_digit c \<or> c \<in> set ''+-.eE''"

definition all_digits :: "string \<Rightarrow> bool" where
  "all_digits s \<longleftrightarrow> s \<noteq> [] \<and> list_all is_digit s"

text \<open>The JSON number grammar: sign, integer part, fraction, exponent.\<close>

definition valid_exp :: "string \<Rightarrow> bool" where
  "valid_exp s =
     (case s of
        [] \<Rightarrow> True
      | c # r \<Rightarrow> (c = CHR ''e'' \<or> c = CHR ''E'') \<and>
          all_digits (case r of d # r' \<Rightarrow> if d = CHR ''+'' \<or> d = CHR ''-'' then r' else r | [] \<Rightarrow> []))"

definition valid_frac :: "string \<Rightarrow> bool" where
  "valid_frac s =
     (case s of
        [] \<Rightarrow> True
      | c # r \<Rightarrow> (if c = CHR ''.'' then takeWhile is_digit r \<noteq> [] \<and> valid_exp (dropWhile is_digit r)
                  else valid_exp s))"

definition valid_num :: "string \<Rightarrow> bool" where
  "valid_num s =
     (let s1 = (case s of c # r \<Rightarrow> if c = CHR ''-'' then r else s | [] \<Rightarrow> []);
          ip = takeWhile is_digit s1
      in ip \<noteq> [] \<and> (hd ip = CHR ''0'' \<longrightarrow> length ip = 1) \<and> valid_frac (dropWhile is_digit s1))"

text \<open>
  Values by recursion on fuel. Every call on a non-empty rest spends at least one byte, so
  the length of the text plus one is enough; \<open>json_parse\<close> starts with that.
\<close>

fun jvalue :: "nat \<Rightarrow> string \<Rightarrow> (json \<times> string) option" and
    jelems :: "nat \<Rightarrow> string \<Rightarrow> (json list \<times> string) option" and
    jmembers :: "nat \<Rightarrow> string \<Rightarrow> ((string \<times> json) list \<times> string) option" where
  "jvalue 0 s = None"
| "jvalue (Suc n) s =
     (case skip_ws s of
        [] \<Rightarrow> None
      | c # r \<Rightarrow>
          (if c = CHR ''{'' then
             (if has_prefix (skip_ws r) ''}'' then Some (JObj [], tl (skip_ws r))
              else map_option (\<lambda>(ms, r'). (JObj ms, r')) (jmembers n r))
           else if c = CHR ''['' then
             (if has_prefix (skip_ws r) '']'' then Some (JArr [], tl (skip_ws r))
              else map_option (\<lambda>(vs, r'). (JArr vs, r')) (jelems n r))
           else if c = CHR 0x22 then map_option (\<lambda>(x, r'). (JStr x, r')) (json_string r)
           else if has_prefix (c # r) ''null'' then Some (JNull, drop 4 (c # r))
           else if has_prefix (c # r) ''true'' then Some (JBool True, drop 4 (c # r))
           else if has_prefix (c # r) ''false'' then Some (JBool False, drop 5 (c # r))
           else (let l = takeWhile num_char (c # r)
                 in if valid_num l then Some (JNum l, dropWhile num_char (c # r)) else None)))"
| "jelems 0 s = None"
| "jelems (Suc n) s =
     (case jvalue n s of
        None \<Rightarrow> None
      | Some (v, r) \<Rightarrow>
          (case skip_ws r of
             [] \<Rightarrow> None
           | c # r' \<Rightarrow>
               (if c = CHR '','' then map_option (\<lambda>(vs, r''). (v # vs, r'')) (jelems n r')
                else if c = CHR '']'' then Some ([v], r') else None)))"
| "jmembers 0 s = None"
| "jmembers (Suc n) s =
     (case skip_ws s of
        [] \<Rightarrow> None
      | q # r \<Rightarrow>
          (if q \<noteq> CHR 0x22 then None
           else (case json_string r of
                   None \<Rightarrow> None
                 | Some (k, r1) \<Rightarrow>
                     (case skip_ws r1 of
                        [] \<Rightarrow> None
                      | c # r2 \<Rightarrow>
                          (if c \<noteq> CHR '':'' then None
                           else (case jvalue n r2 of
                                   None \<Rightarrow> None
                                 | Some (v, r3) \<Rightarrow>
                                     (case skip_ws r3 of
                                        [] \<Rightarrow> None
                                      | d # r4 \<Rightarrow>
                                          (if d = CHR '','' then
                                             map_option (\<lambda>(ms, r'). ((k, v) # ms, r')) (jmembers n r4)
                                           else if d = CHR ''}'' then Some ([(k, v)], r4)
                                           else None)))))))) "

definition json_parse :: "string \<Rightarrow> json option" where
  "json_parse s =
     (case jvalue (Suc (length s)) s of
        None \<Rightarrow> None
      | Some (v, r) \<Rightarrow> (if skip_ws r = [] then Some v else None))"

text \<open>\<open>json.Valid\<close>.\<close>

definition json_valid :: "string \<Rightarrow> bool" where
  "json_valid s \<longleftrightarrow> json_parse s \<noteq> None"


section \<open>The round trip\<close>

text \<open>The values a Go program marshals: every number literal is one.\<close>

fun json_ok :: "json \<Rightarrow> bool" where
  "json_ok (JNum l) \<longleftrightarrow> valid_num l \<and> list_all num_char l"
| "json_ok (JArr vs) \<longleftrightarrow> list_all json_ok vs"
| "json_ok (JObj ms) \<longleftrightarrow> list_all (\<lambda>m. json_ok (snd m)) ms"
| "json_ok _ \<longleftrightarrow> True"

lemma hex_val_digits: "list_all (\<lambda>d. hex_val (hex_digit d) = Some d) [0..<16]"
  by code_simp

lemma hex_val_digit [simp]: "d < 16 \<Longrightarrow> hex_val (hex_digit d) = Some d"
  using hex_val_digits by (simp add: list_all_iff)

lemma hex_val_zero [simp]: "hex_val CHR ''0'' = Some 0"
  by (simp add: hex_val_def upt_rec)

lemma json_string_plain:
  "c \<noteq> CHR 0x22 \<Longrightarrow> c \<noteq> CHR 0x5C \<Longrightarrow> \<not> (of_char c :: nat) < 32 \<Longrightarrow>
   json_string (c # t) = map_option (\<lambda>(y, r). (c # y, r)) (json_string t)"
  by (subst json_string.simps) (simp split: option.splits)

lemma json_string_escape:
  "json_unesc u = Some (x, t) \<Longrightarrow>
   json_string (CHR 0x5C # u) = map_option (\<lambda>(y, r). (x @ y, r)) (json_string t)"
  by (subst json_string.simps) (simp split: option.splits)

lemma json_unicode_ascii:
  assumes "n < 128"
  shows "json_unicode (CHR ''0'' # CHR ''0'' # hex_digit (n div 16) # hex_digit (n mod 16) # t)
    = Some ([char_of n], t)"
proof -
  have "hex_val (hex_digit (n div 16)) = Some (n div 16)" "hex_val (hex_digit (n mod 16)) = Some (n mod 16)"
    using assms by (simp_all add: div_less_iff_less_mult)
  then show ?thesis using assms by (simp add: json_unicode_def hex4_def utf8_def)
qed

lemma json_esc_short:
  "c \<in> {CHR 0x22, CHR 0x5C, CHR 0x08, CHR 0x0C, LF, CR, TAB} \<Longrightarrow>
   \<exists>x. json_esc c = [CHR 0x5C, x] \<and> json_unesc (x # t) = Some ([c], t)"
  by (elim insertE emptyE) (simp_all add: json_esc_def json_unesc_def)

lemma json_string_esc:
  "json_string (json_esc c @ t) = map_option (\<lambda>(y, r). (c # y, r)) (json_string t)"
proof (cases "c \<in> {CHR 0x22, CHR 0x5C, CHR 0x08, CHR 0x0C, LF, CR, TAB}")
  case True
  from json_esc_short [OF this] obtain x where
    "json_esc c = [CHR 0x5C, x]" "json_unesc (x # t) = Some ([c], t)" by blast
  then show ?thesis by (simp add: json_string_escape)
next
  case False
  then have neq: "c \<noteq> CHR 0x22" "c \<noteq> CHR 0x5C" "c \<noteq> CHR 0x08" "c \<noteq> CHR 0x0C" "c \<noteq> LF" "c \<noteq> CR" "c \<noteq> TAB"
    by auto
  show ?thesis
  proof (cases "(of_char c :: nat) < 32 \<or> c = CHR ''<'' \<or> c = CHR ''>'' \<or> c = CHR ''&''")
    case True
    then have lt: "(of_char c :: nat) < 128" by auto
    have "json_esc c = [CHR 0x5C, CHR ''u'', CHR ''0'', CHR ''0'',
        hex_digit (of_char c div 16), hex_digit (of_char c mod 16)]"
      using neq True by (simp add: json_esc_def)
    moreover have "json_unesc (CHR ''u'' # CHR ''0'' # CHR ''0'' # hex_digit (of_char c div 16) #
        hex_digit (of_char c mod 16) # t) = Some ([c], t)"
      using json_unicode_ascii [OF lt, of t] by (simp add: json_unesc_def)
    ultimately show ?thesis by (simp add: json_string_escape)
  next
    case False
    with neq have "json_esc c = [c]" by (simp add: json_esc_def)
    with neq False show ?thesis by (simp add: json_string_plain)
  qed
qed

lemma json_string_quote: "json_string (List.concat (map json_esc s) @ CHR 0x22 # r) = Some (s, r)"
proof (induction s)
  case Nil
  then show ?case by (subst json_string.simps) simp
next
  case (Cons c s)
  then show ?case by (simp add: json_string_esc)
qed

definition stops :: "string \<Rightarrow> bool" where
  "stops r \<longleftrightarrow> (case r of [] \<Rightarrow> True | c # _ \<Rightarrow> \<not> num_char c)"

lemma takeWhile_num: "list_all num_char l \<Longrightarrow> stops r \<Longrightarrow> takeWhile num_char (l @ r) = l"
  by (induction l) (auto simp: stops_def split: list.splits)

lemma dropWhile_num: "list_all num_char l \<Longrightarrow> stops r \<Longrightarrow> dropWhile num_char (l @ r) = r"
  by (induction l) (auto simp: stops_def split: list.splits)

lemma is_digit_cases: "is_digit c \<Longrightarrow> c \<in> set ''0123456789''"
  by (auto simp: is_digit_def digit_val_def split: if_splits)

lemma num_char_set: "num_char c \<Longrightarrow> c \<in> set (''0123456789'' @ ''+-.eE'')"
  unfolding set_append num_char_def using is_digit_cases by blast

lemma num_chars_other:
  "list_all (\<lambda>c. \<not> json_space c \<and> c \<noteq> CHR ''['' \<and> c \<noteq> CHR ''{'' \<and> c \<noteq> CHR 0x22 \<and> c \<noteq> CHR '']''
     \<and> c \<noteq> CHR ''}'' \<and> c \<noteq> CHR ''n'' \<and> c \<noteq> CHR ''t'' \<and> c \<noteq> CHR ''f'') (''0123456789'' @ ''+-.eE'')"
  by code_simp

lemma num_char_other:
  "num_char c \<Longrightarrow> \<not> json_space c \<and> c \<noteq> CHR ''['' \<and> c \<noteq> CHR ''{'' \<and> c \<noteq> CHR 0x22 \<and> c \<noteq> CHR '']''
     \<and> c \<noteq> CHR ''}'' \<and> c \<noteq> CHR ''n'' \<and> c \<noteq> CHR ''t'' \<and> c \<noteq> CHR ''f''"
  using num_chars_other [unfolded list_all_iff] num_char_set by blast

lemma valid_num_nonempty: "valid_num l \<Longrightarrow> l \<noteq> []"
  by (auto simp: valid_num_def)

lemma json_text_head:
  "json_ok v \<Longrightarrow> \<exists>c r. json_text v = c # r \<and> \<not> json_space c \<and> c \<noteq> CHR '']''"
proof (cases v)
  case (JNum l)
  assume "json_ok v"
  with JNum valid_num_nonempty obtain c r where "l = c # r" "num_char c"
    by (cases l) auto
  with JNum num_char_other show ?thesis by auto
qed (auto simp: json_quote_def json_space_def)

lemma json_text_length: "json_ok v \<Longrightarrow> 0 < length (json_text v)"
  using json_text_head by fastforce

lemma jvalue_num:
  assumes "valid_num l" "list_all num_char l" "stops r" "n = Suc m"
  shows "jvalue n (l @ r) = Some (JNum l, r)"
proof -
  obtain c l' where l: "l = c # l'" "num_char c"
    using assms(1,2) valid_num_nonempty by (cases l) auto
  have "takeWhile num_char (l @ r) = l" "dropWhile num_char (l @ r) = r"
    using assms(2,3) by (simp_all add: takeWhile_num dropWhile_num)
  with l num_char_other [OF l(2)] assms(1,4) show ?thesis
    by (simp add: has_prefix_def)
qed

lemma skip_ws_head: "\<not> json_space c \<Longrightarrow> skip_ws (c # r) = c # r"
  by simp

lemma json_elems_Cons:
  "json_elems (v # vs) = json_text v @ (if vs = [] then [] else CHR '','' # json_elems vs)"
  by (cases vs) auto

lemma json_members_Cons:
  "json_members ((k, v) # ms) =
     json_quote k @ CHR '':'' # json_text v @ (if ms = [] then [] else CHR '','' # json_members ms)"
  by (cases ms) auto

lemma json_punct [simp]:
  "\<not> json_space CHR '',''" "\<not> json_space CHR '']''" "\<not> json_space CHR ''}''" "\<not> json_space CHR '':''"
  "\<not> json_space CHR 0x22" "\<not> json_space CHR ''['' " "\<not> json_space CHR ''{''"
  "\<not> json_space CHR ''n''" "\<not> json_space CHR ''t''" "\<not> json_space CHR ''f''"
  "\<not> num_char CHR '',''" "\<not> num_char CHR '']''" "\<not> num_char CHR ''}''"
  by (simp_all add: json_space_def num_char_def is_digit_def digit_val_def)

lemma stops_simps [simp]: "stops []" "stops (c # r) \<longleftrightarrow> \<not> num_char c"
  by (simp_all add: stops_def)

text \<open>
  Parsing the text of a value in front of anything that does not continue a number: by
  induction on the fuel, for values, element lists and member lists together.
\<close>

lemma jvalue_roundtrip:
  "(\<forall>v r. json_ok v \<longrightarrow> length (json_text v) < n \<longrightarrow> stops r \<longrightarrow>
      jvalue n (json_text v @ r) = Some (v, r)) \<and>
   (\<forall>vs r. vs \<noteq> [] \<longrightarrow> list_all json_ok vs \<longrightarrow> Suc (length (json_elems vs)) < n \<longrightarrow>
      jelems n (json_elems vs @ CHR '']'' # r) = Some (vs, r)) \<and>
   (\<forall>ms r. ms \<noteq> [] \<longrightarrow> list_all (\<lambda>m. json_ok (snd m)) ms \<longrightarrow> Suc (length (json_members ms)) < n \<longrightarrow>
      jmembers n (json_members ms @ CHR ''}'' # r) = Some (ms, r))"
proof (induction n)
  case 0
  show ?case by simp
next
  case (Suc n)
  have V: "jvalue n (json_text v @ r) = Some (v, r)"
    if "json_ok v" "length (json_text v) < n" "stops r" for v r
    using Suc.IH that by blast
  have E: "jelems n (json_elems vs @ CHR '']'' # r) = Some (vs, r)"
    if "vs \<noteq> []" "list_all json_ok vs" "Suc (length (json_elems vs)) < n" for vs r
    using Suc.IH that by blast
  have M: "jmembers n (json_members ms @ CHR ''}'' # r) = Some (ms, r)"
    if "ms \<noteq> []" "list_all (\<lambda>m. json_ok (snd m)) ms" "Suc (length (json_members ms)) < n" for ms r
    using Suc.IH that by blast
  have "jvalue (Suc n) (json_text v @ r) = Some (v, r)"
    if ok: "json_ok v" and len: "length (json_text v) < Suc n" and st: "stops r" for v r
  proof (cases v)
    case JNull
    then show ?thesis by (simp add: has_prefix_def)
  next
    case (JBool b)
    then show ?thesis by (cases b) (simp_all add: has_prefix_def)
  next
    case (JNum l)
    with ok st jvalue_num show ?thesis by auto
  next
    case (JStr s)
    then show ?thesis by (simp add: json_quote_def json_string_quote)
  next
    case (JArr vs)
    show ?thesis
    proof (cases vs)
      case Nil
      with JArr show ?thesis by (simp add: has_prefix_def)
    next
      case (Cons w ws)
      obtain c t where ct: "json_text w = c # t" "\<not> json_space c" "c \<noteq> CHR '']''"
        using json_text_head [of w] ok JArr Cons by auto
      have "jelems n (json_elems vs @ CHR '']'' # r) = Some (vs, r)"
        using E [of vs r] ok len JArr Cons by simp
      with ct show ?thesis unfolding JArr Cons by (simp add: json_elems_Cons has_prefix_def)
    qed
  next
    case (JObj ms)
    show ?thesis
    proof (cases ms)
      case Nil
      with JObj show ?thesis by (simp add: has_prefix_def)
    next
      case (Cons m ms')
      obtain k w where m: "m = (k, w)" by (cases m)
      have "jmembers n (json_members ms @ CHR ''}'' # r) = Some (ms, r)"
        using M [of ms r] ok len JObj Cons by simp
      then show ?thesis
        unfolding JObj Cons m by (simp add: json_members_Cons json_quote_def has_prefix_def)
    qed
  qed
  moreover have "jelems (Suc n) (json_elems vs @ CHR '']'' # r) = Some (vs, r)"
    if ne: "vs \<noteq> []" and ok: "list_all json_ok vs" and len: "Suc (length (json_elems vs)) < Suc n" for vs r
  proof -
    obtain v ws where vs: "vs = v # ws" using ne by (cases vs) auto
    have lv: "length (json_text v) < n" and okv: "json_ok v"
      using len ok vs by (auto simp: json_elems_Cons)
    show ?thesis
    proof (cases "ws = []")
      case True
      with vs V [OF okv lv] show ?thesis by simp
    next
      case False
      have "Suc (length (json_elems ws)) < n"
        using len vs False json_text_length [OF okv] by (simp add: json_elems_Cons)
      with False ok vs E [of ws r] V [OF okv lv] show ?thesis by (simp add: json_elems_Cons)
    qed
  qed
  moreover have "jmembers (Suc n) (json_members ms @ CHR ''}'' # r) = Some (ms, r)"
    if ne: "ms \<noteq> []" and ok: "list_all (\<lambda>m. json_ok (snd m)) ms"
      and len: "Suc (length (json_members ms)) < Suc n" for ms r
  proof -
    obtain k v ns where ms: "ms = (k, v) # ns" using ne by (cases ms) auto
    have lv: "length (json_text v) < n" and okv: "json_ok v"
      using len ok ms by (auto simp: json_members_Cons)
    show ?thesis
    proof (cases "ns = []")
      case True
      with ms V [OF okv lv] show ?thesis by (simp add: json_quote_def json_string_quote)
    next
      case False
      have "Suc (length (json_members ns)) < n"
        using len ms False by (simp add: json_members_Cons)
      with False ok ms M [of ns r] V [OF okv lv] show ?thesis
        by (simp add: json_members_Cons json_quote_def json_string_quote)
    qed
  qed
  ultimately show ?case by blast
qed

theorem json_parse_text: "json_ok v \<Longrightarrow> json_parse (json_text v) = Some v"
  using jvalue_roundtrip [of "Suc (length (json_text v))"]
  by (auto simp: json_parse_def dest!: spec [where x = v] spec [where x = "[]"])

lemma json_valid_text: "json_ok v \<Longrightarrow> json_valid (json_text v)"
  by (simp add: json_valid_def json_parse_text)


text \<open>Integers are marshalled as their decimal literal.\<close>

definition jint :: "int \<Rightarrow> json" where
  "jint i = JNum (itoa i)"

lemma nat_str_no_leading_zero: "0 < n \<Longrightarrow> hd (nat_str n) \<noteq> CHR ''0''"
proof (induction n rule: nat_str.induct)
  case (1 n)
  show ?case
  proof (cases "n < 10")
    case True
    with 1(2) have "n \<in> {1, 2, 3, 4, 5, 6, 7, 8, 9}" by auto
    then show ?thesis by (auto simp: nat_str.simps [of n] digit_char_def)
  next
    case False
    with 1 have "hd (nat_str (n div 10)) \<noteq> CHR ''0''" by simp
    with False show ?thesis by (simp add: nat_str.simps [of n])
  qed
qed

lemma nat_str_all_digits: "list_all is_digit (nat_str n)"
  using nat_str_digits by (auto simp: list_all_iff)

lemma valid_num_nat_str:
  "takeWhile is_digit (nat_str n) = nat_str n" "dropWhile is_digit (nat_str n) = []"
  using nat_str_all_digits by (simp_all add: list_all_iff takeWhile_eq_all_conv)

lemma nat_str_zero_length: "hd (nat_str n) = CHR ''0'' \<Longrightarrow> length (nat_str n) = 1"
proof -
  assume "hd (nat_str n) = CHR ''0''"
  with nat_str_no_leading_zero have "n = 0" by blast
  then show ?thesis by (subst nat_str.simps) simp
qed

lemma valid_num_digits:
  assumes "takeWhile is_digit s = s" "dropWhile is_digit s = []" "s \<noteq> []" "hd s \<noteq> CHR ''-''"
    "hd s = CHR ''0'' \<longrightarrow> length s = 1"
  shows "valid_num s"
proof -
  have eq: "(case s of c # r \<Rightarrow> if c = CHR ''-'' then r else s | [] \<Rightarrow> []) = s"
    using assms(3,4) by (cases s) auto
  show ?thesis
    unfolding valid_num_def Let_def eq assms(1,2) using assms(3,5) by (simp add: valid_frac_def)
qed

lemma valid_num_itoa: "valid_num (itoa i)"
proof (cases "i < 0")
  case True
  with nat_str_zero_length [of "nat (- i)"] show ?thesis
    by (simp add: itoa_def valid_num_def Let_def valid_frac_def valid_num_nat_str)
next
  case False
  have "hd (nat_str (nat i)) \<noteq> CHR ''-''"
    using nat_str_head [of "nat i"] by (cases "nat_str (nat i)") auto
  with False nat_str_zero_length [of "nat i"] show ?thesis
    by (simp add: itoa_def valid_num_digits valid_num_nat_str)
qed

lemma num_char_itoa: "list_all num_char (itoa i)"
  using nat_str_digits by (auto simp: itoa_def num_char_def list_all_iff)

lemma json_ok_jint [simp]: "json_ok (jint i)"
  by (simp add: jint_def valid_num_itoa num_char_itoa)

section \<open>Decoding into a struct\<close>

text \<open>
  \<open>json.Unmarshal\<close> into a struct with string fields: a member whose key equals the
  field name up to ASCII case sets it, the last one wins, \<open>null\<close> leaves it alone and
  any other kind of value is an error (\<open>None\<close>). Unknown members are skipped.
\<close>

definition same_key :: "string \<Rightarrow> string \<Rightarrow> bool" where
  "same_key a b \<longleftrightarrow> map fold_char a = map fold_char b"

fun dec_str :: "string \<Rightarrow> (string \<times> json) list \<Rightarrow> string \<Rightarrow> string option" where
  "dec_str name [] cur = Some cur"
| "dec_str name ((k, v) # ms) cur =
     (if same_key k name
      then (case v of JStr s \<Rightarrow> dec_str name ms s | JNull \<Rightarrow> dec_str name ms cur | _ \<Rightarrow> None)
      else dec_str name ms cur)"

fun dec_elems :: "json list \<Rightarrow> string list option" where
  "dec_elems [] = Some []"
| "dec_elems (v # vs) =
     (case (v, dec_elems vs) of
        (JStr s, Some r) \<Rightarrow> Some (s # r)
      | (JNull, Some r) \<Rightarrow> Some ([] # r)
      | _ \<Rightarrow> None)"

fun dec_strs :: "string \<Rightarrow> (string \<times> json) list \<Rightarrow> string list \<Rightarrow> string list option" where
  "dec_strs name [] cur = Some cur"
| "dec_strs name ((k, v) # ms) cur =
     (if same_key k name
      then (case v of
              JArr vs \<Rightarrow> (case dec_elems vs of None \<Rightarrow> None | Some r \<Rightarrow> dec_strs name ms r)
            | JNull \<Rightarrow> dec_strs name ms []
            | _ \<Rightarrow> None)
      else dec_strs name ms cur)"

text \<open>The members of a top-level value: \<open>null\<close> decodes to the zero struct.\<close>

definition json_members_of :: "json \<Rightarrow> (string \<times> json) list option" where
  "json_members_of v = (case v of JObj ms \<Rightarrow> Some ms | JNull \<Rightarrow> Some [] | _ \<Rightarrow> None)"

lemma dec_elems_strs [simp]: "dec_elems (map JStr xs) = Some xs"
  by (induction xs) auto

text \<open>What is marshalled holds no line feed: an event is one line of the log.\<close>

lemma json_esc_no_LF: "LF \<notin> set (json_esc c)"
proof (cases "(of_char c :: nat) < 128")
  case True
  then have "of_char c div 16 < (16::nat)" "of_char c mod 16 < (16::nat)" by auto
  moreover have "list_all (\<lambda>d. hex_digit d \<noteq> LF) [0..<16]" by code_simp
  ultimately have "hex_digit (of_char c div 16) \<noteq> LF" "hex_digit (of_char c mod 16) \<noteq> LF"
    by (simp_all add: list_all_iff)
  then show ?thesis by (auto simp: json_esc_def)
next
  case False
  then show ?thesis by (auto simp: json_esc_def)
qed

lemma json_quote_no_LF: "LF \<notin> set (json_quote s)"
  using json_esc_no_LF by (auto simp: json_quote_def)

lemma num_char_not_LF: "\<not> num_char LF"
  by (simp add: num_char_def)

lemma json_text_no_LF:
  "json_ok v \<Longrightarrow> LF \<notin> set (json_text v)"
  "list_all json_ok vs \<Longrightarrow> LF \<notin> set (json_elems vs)"
  "list_all (\<lambda>m. json_ok (snd m)) ms \<Longrightarrow> LF \<notin> set (json_members ms)"
proof (induction v and vs and ms rule: json_text_json_elems_json_members.induct)
  case (3 l)
  then show ?case using num_char_not_LF by (auto simp: list_all_iff)
qed (auto simp: json_quote_no_LF)

end
