(* ===== verification/Event_Log.thy ===== *)
theory Event_Log
  imports Json Disk
begin

text \<open>
  The append-only JSONL event log of the daemon, \<open>heaven/eventlog.go\<close>: one JSON event
  per line of \<open><root>/events.log\<close>. The readers scan it with a \<open>bufio.Scanner\<close> whose
  buffer is 1 MiB, so a longer line makes every later read fail.

  Two contracts start here. \<open>append_log\<close> is what the writers rely on: an event that fits
  on a line is read back at the end of the log. \<open>event_sourced\<close> is a component whose live
  operations do what the replay of the events they emit does; its clients are rebuilt from
  the log at boot.
\<close>

section \<open>The scanner\<close>

definition max_line :: nat where
  "max_line = 1024 * 1024"

text \<open>The split function of the scanner drops one trailing carriage return.\<close>

definition drop_cr :: "string \<Rightarrow> string" where
  "drop_cr l = (if l \<noteq> [] \<and> last l = CR then butlast l else l)"

text \<open>A piece that fills the whole buffer ends the scan with \<open>ErrTooLong\<close>.\<close>

definition scan_fails :: "string \<Rightarrow> bool" where
  "scan_fails s \<longleftrightarrow> list_ex (\<lambda>l. max_line \<le> length l) (split_on LF s)"

definition scan_tokens :: "string \<Rightarrow> string list" where
  "scan_tokens s =
     filter (\<lambda>l. l \<noteq> []) (map drop_cr (takeWhile (\<lambda>l. length l < max_line) (split_on LF s)))"

section \<open>The operations\<close>

datatype log_error = Log_Invalid_JSON | Log_IO io_error | Log_Too_Long | Log_Panic go_panic

definition el_path :: "path \<Rightarrow> path" where
  "el_path root = path_join [root, ''events.log'']"

definition new_event_log :: "path \<Rightarrow> disk \<Rightarrow> log_error + disk" where
  "new_event_log root d = (case mkdir_all root d of Inl e \<Rightarrow> Inl (Log_IO e) | Inr d' \<Rightarrow> Inr d')"

text \<open>The result of an append is the byte offset of the event.\<close>

definition el_append :: "path \<Rightarrow> string \<Rightarrow> disk \<Rightarrow> (log_error + nat) \<times> disk" where
  "el_append root event d =
     (if \<not> json_valid event then (Inl Log_Invalid_JSON, d)
      else case append_file (el_path root) (event @ [LF]) d of
        Inl e \<Rightarrow> (Inl (Log_IO e), d)
      | Inr (offset, d') \<Rightarrow> (Inr offset, d'))"

definition el_all :: "path \<Rightarrow> disk \<Rightarrow> log_error + string list" where
  "el_all root d =
     (case read_file d (el_path root) of
        Inl NotExist \<Rightarrow> Inr []
      | Inl e \<Rightarrow> Inl (Log_IO e)
      | Inr s \<Rightarrow> (if scan_fails s then Inl Log_Too_Long else Inr (scan_tokens s)))"

text \<open>\<open>Tail\<close>: Go's slice expression panics when \<open>n\<close> is negative.\<close>

definition el_tail :: "path \<Rightarrow> int \<Rightarrow> disk \<Rightarrow> log_error + string list" where
  "el_tail root n d =
     (case el_all root d of
        Inl e \<Rightarrow> Inl e
      | Inr es \<Rightarrow>
          (if int (length es) \<le> n then Inr es
           else if n < 0 then Inl (Log_Panic Out_Of_Range)
           else Inr (drop (length es - nat n) es)))"

definition el_len :: "path \<Rightarrow> disk \<Rightarrow> log_error + nat" where
  "el_len root d =
     (case read_file d (el_path root) of
        Inl NotExist \<Rightarrow> Inr 0
      | Inl e \<Rightarrow> Inl (Log_IO e)
      | Inr s \<Rightarrow> (if scan_fails s then Inl Log_Too_Long else Inr (length (scan_tokens s))))"

text \<open>Appending several events and ignoring the errors, as the lease manager and the
  page-fault router do.\<close>

definition log_each :: "path \<Rightarrow> string list \<Rightarrow> disk \<Rightarrow> disk" where
  "log_each root evs d = fold (\<lambda>e d. snd (el_append root e d)) evs d"

lemma el_len_all: "el_len root d = map_sum (\<lambda>e. e) length (el_all root d)"
  by (auto simp: el_len_def el_all_def split: sum.splits io_error.splits)

section \<open>The contract of an append-only log\<close>

locale append_log =
  fixes append :: "string \<Rightarrow> 'd \<Rightarrow> ('e + nat) \<times> 'd"
    and all :: "'d \<Rightarrow> 'e + string list"
    and fit :: "string \<Rightarrow> bool"
    and good :: "'d \<Rightarrow> bool"
  assumes append_good: "good d \<Longrightarrow> fit e \<Longrightarrow> \<exists>off d'. append e d = (Inr off, d') \<and> good d'"
    and append_all: "good d \<Longrightarrow> fit e \<Longrightarrow> append e d = (r, d') \<Longrightarrow> all d = Inr es \<Longrightarrow> all d' = Inr (es @ [e])"
begin

lemma append_many:
  "good d \<Longrightarrow> list_all fit evs \<Longrightarrow> all d = Inr es \<Longrightarrow>
   good (fold (\<lambda>e d. snd (append e d)) evs d) \<and>
   all (fold (\<lambda>e d. snd (append e d)) evs d) = Inr (es @ evs)"
proof (induction evs arbitrary: d es)
  case (Cons e evs)
  then obtain off d' where a: "append e d = (Inr off, d')" "good d'"
    using append_good [of d e] by auto
  with Cons.prems have "all d' = Inr (es @ [e])" using append_all by auto
  with Cons.IH [OF a(2) _ this] Cons.prems a show ?case by simp
qed simp

end

section \<open>The code keeps the contract\<close>

text \<open>An event that is one line: valid JSON without a line feed or a trailing carriage
  return, short enough for the scanner.\<close>

definition line_fit :: "string \<Rightarrow> bool" where
  "line_fit e \<longleftrightarrow> json_valid e \<and> e \<noteq> [] \<and> LF \<notin> set e \<and> last e \<noteq> CR \<and> length e < max_line"

text \<open>A log that can be appended to: its file is missing in an existing directory or ends
  with a line feed, and neither is faulty.\<close>

definition log_good :: "path \<Rightarrow> disk \<Rightarrow> bool" where
  "log_good root d \<longleftrightarrow>
     \<not> List.member (d_bad d) (el_path root) \<and> \<not> List.member (d_dirs d) (el_path root) \<and>
     (case reads d (el_path root) of
        None \<Rightarrow> List.member (d_dirs d) (path_dir (el_path root))
      | Some s \<Rightarrow> s = [] \<or> last s = LF)"

lemma split_on_terminated: "s = [] \<or> last s = LF \<Longrightarrow> LF \<notin> set e \<Longrightarrow>
  split_on LF (s @ e @ [LF]) = butlast (split_on LF s) @ [e, []]"
proof (cases "s = []")
  case True
  moreover assume "LF \<notin> set e"
  ultimately show ?thesis by (simp add: split_on_append_sep)
next
  case False
  moreover assume "s = [] \<or> last s = LF"
  ultimately obtain r where r: "s = r @ [LF]" by (metis append_butlast_last_id)
  assume e: "LF \<notin> set e"
  have "split_on LF (s @ e @ [LF]) = split_on LF r @ split_on LF (e @ [LF])"
    using split_on_append [of LF r "e @ [LF]"] by (simp add: r)
  moreover have "split_on LF s = split_on LF r @ [[]]"
    using split_on_append [of LF r "[]"] by (simp add: r)
  ultimately show ?thesis using split_on_append_sep [OF e, of "[]"] by (simp add: butlast_append)
qed

lemma split_on_last: "s = [] \<or> last s = LF \<Longrightarrow> split_on LF s = butlast (split_on LF s) @ [[]]"
proof (cases "s = []")
  case False
  moreover assume "s = [] \<or> last s = LF"
  ultimately obtain r where r: "s = r @ [LF]" by (metis append_butlast_last_id)
  show ?thesis using split_on_append [of LF r "[]"] by (simp add: r butlast_append)
qed simp

lemma max_line_pos [simp]: "0 < max_line" "max_line \<noteq> 0"
  by (simp_all add: max_line_def)

lemma scan_append:
  assumes t: "s = [] \<or> last s = LF" and f: "line_fit e"
  shows "scan_fails (s @ e @ [LF]) = scan_fails s"
    and "\<not> scan_fails s \<Longrightarrow> scan_tokens (s @ e @ [LF]) = scan_tokens s @ [e]"
proof -
  have e: "LF \<notin> set e" and l: "length e < max_line" and n: "drop_cr e = e" "e \<noteq> []"
    using f by (auto simp: line_fit_def drop_cr_def)
  note sp = split_on_terminated [OF t e]
  let ?b = "butlast (split_on LF s)"
  have b: "split_on LF s = ?b @ [[]]" by (rule split_on_last [OF t])
  have "scan_fails s = list_ex (\<lambda>l. max_line \<le> length l) ?b"
    unfolding scan_fails_def by (subst b) (simp add: max_line_pos)
  with sp l show "scan_fails (s @ e @ [LF]) = scan_fails s"
    by (simp add: scan_fails_def max_line_pos)
  assume "\<not> scan_fails s"
  then have short: "\<forall>l \<in> set ?b. length l < max_line"
    unfolding scan_fails_def by (subst (asm) b) (auto simp: list_ex_iff not_le)
  have "scan_tokens s = filter (\<lambda>l. l \<noteq> []) (map drop_cr ?b)"
    unfolding scan_tokens_def by (subst b)
      (use short in \<open>simp add: takeWhile_append2 max_line_pos drop_cr_def\<close>)
  moreover have "scan_tokens (s @ e @ [LF]) = filter (\<lambda>l. l \<noteq> []) (map drop_cr ?b) @ [e]"
    using short l n unfolding scan_tokens_def sp
    by (simp add: takeWhile_append2 max_line_pos) (simp add: drop_cr_def)
  ultimately show "scan_tokens (s @ e @ [LF]) = scan_tokens s @ [e]" by simp
qed

lemma el_append_good:
  assumes "log_good root d" "line_fit e"
  shows "\<exists>off d'. el_append root e d = (Inr off, d') \<and> log_good root d'"
proof -
  let ?p = "el_path root"
  obtain off d' where a: "append_file ?p (e @ [LF]) d = Inr (off, d')"
    using assms(1)
    by (auto simp: log_good_def append_file_def write_file_def reads_alt Let_def split: option.splits)
  have "log_good root d'"
    using assms(1) append_file_reads [OF a] append_file_frame [OF a]
    by (auto simp: log_good_def)
  moreover have "el_append root e d = (Inr off, d')"
    using a assms(2) by (simp add: el_append_def line_fit_def)
  ultimately show ?thesis by blast
qed

lemma el_all_reads:
  "log_good root d \<Longrightarrow> el_all root d =
     (let s = (case reads d (el_path root) of None \<Rightarrow> [] | Some s \<Rightarrow> s)
      in if scan_fails s then Inl Log_Too_Long else Inr (scan_tokens s))"
  by (auto simp: el_all_def log_good_def reads_alt read_file_def Let_def scan_fails_def scan_tokens_def
      max_line_pos drop_cr_def split: option.splits)

lemma el_append_all:
  assumes "log_good root d" "line_fit e" "el_append root e d = (r, d')" "el_all root d = Inr es"
  shows "el_all root d' = Inr (es @ [e])"
proof -
  let ?p = "el_path root"
  let ?s = "case reads d ?p of None \<Rightarrow> [] | Some s \<Rightarrow> s"
  from el_append_good [OF assms(1,2)] assms(3) obtain off where
    r: "r = Inr off" "log_good root d'" by auto
  with assms(2,3) have "append_file ?p (e @ [LF]) d = Inr (off, d')"
    by (auto simp: el_append_def line_fit_def split: sum.splits prod.splits)
  from append_file_reads [OF this] have s': "reads d' ?p = Some (?s @ e @ [LF])" by simp
  have t: "?s = [] \<or> last ?s = LF" using assms(1) by (auto simp: log_good_def split: option.splits)
  have "\<not> scan_fails ?s" "es = scan_tokens ?s"
    using assms(4) el_all_reads [OF assms(1)] by (auto simp: Let_def split: if_splits)
  with scan_append [OF t assms(2)] el_all_reads [OF r(2)] s' show ?thesis by simp
qed

interpretation elog: append_log "el_append root" "el_all root" line_fit "log_good root" for root
proof unfold_locales
  show "log_good root d \<Longrightarrow> line_fit e \<Longrightarrow> \<exists>off d'. el_append root e d = (Inr off, d') \<and> log_good root d'"
    for d e by (rule el_append_good)
  show "log_good root d \<Longrightarrow> line_fit e \<Longrightarrow> el_append root e d = (r, d') \<Longrightarrow> el_all root d = Inr es \<Longrightarrow>
    el_all root d' = Inr (es @ [e])" for d e r d' es by (rule el_append_all)
qed

lemma log_each_all:
  "log_good root d \<Longrightarrow> list_all line_fit evs \<Longrightarrow> el_all root d = Inr es \<Longrightarrow>
   log_good root (log_each root evs d) \<and> el_all root (log_each root evs d) = Inr (es @ evs)"
  unfolding log_each_def by (rule elog.append_many)

text \<open>Appending touches no other file.\<close>

lemma el_append_frame:
  "el_append root e d = (r, d') \<Longrightarrow> p \<noteq> el_path root \<Longrightarrow> reads d' p = reads d p"
  by (auto simp: el_append_def split: if_splits sum.splits dest: append_file_reads)

lemma log_each_frame: "p \<noteq> el_path root \<Longrightarrow> reads (log_each root evs d) p = reads d p"
proof (induction evs arbitrary: d)
  case (Cons e evs)
  have "reads (snd (el_append root e d)) p = reads d p"
    by (metis el_append_frame [OF _ Cons.prems] prod.collapse)
  with Cons show ?case by (simp add: log_each_def)
qed (simp add: log_each_def)

section \<open>Components rebuilt from the log\<close>

locale event_sourced =
  fixes appl :: "string \<Rightarrow> 's \<Rightarrow> 's"
    and emit :: "'op \<Rightarrow> 's \<Rightarrow> 's \<times> string list"
    and inv :: "'s \<Rightarrow> bool"
    and adm :: "'op \<Rightarrow> 's \<Rightarrow> bool"
  assumes emit_replay: "inv s \<Longrightarrow> adm op s \<Longrightarrow> emit op s = (s', evs) \<Longrightarrow> fold appl evs s = s'"
    and emit_inv: "inv s \<Longrightarrow> adm op s \<Longrightarrow> emit op s = (s', evs) \<Longrightarrow> inv s'"

text \<open>A run of operations and the events it logs; \<open>adm_run\<close> says each operation is
  admissible in the state it meets.\<close>

fun emit_run :: "('op \<Rightarrow> 's \<Rightarrow> 's \<times> string list) \<Rightarrow> 'op list \<Rightarrow> 's \<Rightarrow> 's \<times> string list" where
  "emit_run emit [] s = (s, [])"
| "emit_run emit (op # ops) s =
     (let (s', evs) = emit op s; (s'', evs') = emit_run emit ops s' in (s'', evs @ evs'))"

fun adm_run :: "('op \<Rightarrow> 's \<Rightarrow> 's \<times> string list) \<Rightarrow> ('op \<Rightarrow> 's \<Rightarrow> bool) \<Rightarrow> 'op list \<Rightarrow> 's \<Rightarrow> bool" where
  "adm_run emit adm [] s \<longleftrightarrow> True"
| "adm_run emit adm (op # ops) s \<longleftrightarrow> adm op s \<and> adm_run emit adm ops (fst (emit op s))"

context event_sourced
begin

lemma run_replay:
  "inv s \<Longrightarrow> adm_run emit adm ops s \<Longrightarrow> emit_run emit ops s = (s', evs) \<Longrightarrow>
   fold appl evs s = s' \<and> inv s'"
proof (induction ops arbitrary: s s' evs)
  case (Cons op ops)
  obtain s1 e1 where e1: "emit op s = (s1, e1)" by (cases "emit op s")
  obtain s2 e2 where e2: "emit_run emit ops s1 = (s2, e2)" by (cases "emit_run emit ops s1")
  have "fold appl e1 s = s1" "inv s1"
    using emit_replay [OF Cons.prems(1) _ e1] emit_inv [OF Cons.prems(1) _ e1] Cons.prems(2) by auto
  with Cons.IH [OF _ _ e2] Cons.prems e1 e2 show ?case by auto
qed simp

end

section \<open>Properties\<close>

lemma scan_fails_append: "scan_fails (r @ LF # t) \<longleftrightarrow> scan_fails r \<or> scan_fails t"
  by (simp add: scan_fails_def split_on_append)

text \<open>A log with a line that is too long stays unreadable.\<close>

definition log_poisoned :: "path \<Rightarrow> disk \<Rightarrow> bool" where
  "log_poisoned root d \<longleftrightarrow> (\<exists>r. reads d (el_path root) = Some (r @ [LF]) \<and> scan_fails r)"

lemma log_poisoned_all: "log_poisoned root d \<Longrightarrow> el_all root d = Inl Log_Too_Long"
proof -
  assume "log_poisoned root d"
  then obtain r where r: "reads d (el_path root) = Some (r @ [LF])" "scan_fails r"
    by (auto simp: log_poisoned_def)
  then have "scan_fails (r @ LF # [])" by (simp only: scan_fails_append simp_thms)
  with r show ?thesis by (simp add: el_all_def read_file_reads [THEN iffD2])
qed

lemma log_poisoned_append:
  assumes "log_poisoned root d"
  shows "log_poisoned root (snd (el_append root e d))"
proof (cases "append_file (el_path root) (e @ [LF]) d")
  case (Inl x)
  with assms show ?thesis by (simp add: el_append_def)
next
  case (Inr x)
  obtain off d' where x: "x = (off, d')" by (cases x)
  obtain r where r: "reads d (el_path root) = Some (r @ [LF])" "scan_fails r"
    using assms by (auto simp: log_poisoned_def)
  have "reads d' (el_path root) = Some ((r @ LF # e) @ [LF])"
    using append_file_reads [OF Inr [unfolded x]] r by simp
  moreover have "scan_fails (r @ LF # e)" using r by (simp only: scan_fails_append simp_thms)
  ultimately have "log_poisoned root d'" unfolding log_poisoned_def by blast
  with assms Inr x show ?thesis by (simp add: el_append_def)
qed

lemma log_poisoned_each: "log_poisoned root d \<Longrightarrow> log_poisoned root (log_each root evs d)"
proof (induction evs arbitrary: d)
  case (Cons e evs)
  from Cons.IH [OF log_poisoned_append [OF Cons.prems]] show ?case by (simp add: log_each_def)
qed (simp add: log_each_def)

lemma append_long_poisons:
  assumes "log_good root d" "json_valid e" "LF \<notin> set e" "max_line \<le> length e"
  shows "\<exists>off d'. el_append root e d = (Inr off, d') \<and> log_poisoned root d'"
proof -
  let ?p = "el_path root"
  let ?s = "case reads d ?p of None \<Rightarrow> [] | Some s \<Rightarrow> s"
  obtain off d' where a: "append_file ?p (e @ [LF]) d = Inr (off, d')"
    using assms(1)
    by (auto simp: log_good_def append_file_def write_file_def reads_alt Let_def split: option.splits)
  have e: "scan_fails e" using assms(3,4) by (simp add: scan_fails_def split_on_no_sep)
  have "?s = [] \<or> last ?s = LF" using assms(1) by (auto simp: log_good_def split: option.splits)
  then have "scan_fails (?s @ e)"
  proof
    assume "last ?s = LF"
    then have "?s = [] \<or> (\<exists>r. ?s = r @ [LF])" by (metis append_butlast_last_id)
    then show ?thesis using e by (auto simp: scan_fails_append)
  qed (use e in simp)
  moreover have "reads d' ?p = Some ((?s @ e) @ [LF])" using append_file_reads [OF a] by simp
  ultimately have "log_poisoned root d'" unfolding log_poisoned_def by blast
  moreover have "el_append root e d = (Inr off, d')" using a assms(2) by (simp add: el_append_def)
  ultimately show ?thesis by blast
qed

text \<open> Appending events that fit on a line to a readable log makes \<open>All\<close> return the old
  events followed by exactly these, \<open>Len\<close> their number and \<open>Tail(n)\<close> the last \<open>n\<close> of them. \<close>

theorem event_log_faithful:
  assumes "log_good root d" "list_all line_fit evs" "el_all root d = Inr es"
  shows "el_all root (log_each root evs d) = Inr (es @ evs)
    \<and> el_len root (log_each root evs d) = Inr (length es + length evs)
    \<and> el_tail root (int n) (log_each root evs d) = Inr (drop (length (es @ evs) - n) (es @ evs))"
  using log_each_all [OF assms] by (simp add: el_len_all el_tail_def)

theorem event_log_faithful_witness:
  "el_all ''h'' (log_each ''h'' [''{}'', ''[1]''] \<lparr>d_files = [], d_dirs = [''h''], d_bad = []\<rparr>)
     = Inr [''{}'', ''[1]'']"
proof -
  let ?d = "\<lparr>d_files = [], d_dirs = [''h''], d_bad = []\<rparr>"
  have p: "el_path ''h'' = ''h/events.log''" "path_dir ''h/events.log'' = ''h''" by code_simp+
  then have "log_good ''h'' ?d" by (simp add: log_good_def reads_alt)
  moreover have "json_valid ''{}''" "json_valid ''[1]''" by code_simp+
  then have "list_all line_fit [''{}'', ''[1]'']" by (simp add: line_fit_def max_line_def)
  moreover have "el_all ''h'' ?d = Inr []" by (simp add: el_all_def read_file_def p)
  ultimately show ?thesis using event_log_faithful [of "''h''" ?d "[''{}'', ''[1]'']" "[]" 0] by simp
qed

text \<open> A valid event of 1 MiB or more is accepted by \<open>Append\<close>, and from then on every
  read of the log fails, whatever is appended later. (The handler of \<open>POST /event\<close> cuts a
  body at exactly 1 MiB, so it lets such an event through.) \<close>

theorem event_log_poisoned:
  assumes "log_good root d" "json_valid e" "LF \<notin> set e" "max_line \<le> length e"
  shows "\<exists>off d'. el_append root e d = (Inr off, d') \<and> el_all root (log_each root evs d') = Inl Log_Too_Long
    \<and> el_len root (log_each root evs d') = Inl Log_Too_Long"
proof -
  obtain off d' where a: "el_append root e d = (Inr off, d')" "log_poisoned root d'"
    using append_long_poisons [OF assms] by blast
  then have "el_all root (log_each root evs d') = Inl Log_Too_Long"
    by (blast intro: log_poisoned_all log_poisoned_each)
  with a(1) show ?thesis by (simp add: el_len_all)
qed

text \<open>A JSON string of any length, to instantiate the hypotheses with.\<close>

definition long_json :: "nat \<Rightarrow> string" where
  "long_json n = json_text (JStr (replicate n CHR ''a''))"

lemma long_json_facts:
  "json_valid (long_json n)" "LF \<notin> set (long_json n)" "length (long_json n) = n + 2"
proof -
  have "json_esc CHR ''a'' = ''a''" by code_simp
  then have "json_quote (replicate n CHR ''a'') = CHR 0x22 # replicate n CHR ''a'' @ [CHR 0x22]"
    by (induction n) (auto simp: json_quote_def)
  then show "length (long_json n) = n + 2" by (simp add: long_json_def)
  have ok: "json_ok (JStr (replicate n CHR ''a''))" by simp
  show "json_valid (long_json n)" "LF \<notin> set (long_json n)"
    unfolding long_json_def by (rule json_valid_text [OF ok], rule json_text_no_LF(1) [OF ok])
qed

theorem event_log_poisoned_witness:
  "\<exists>off d'. el_append ''h'' (long_json max_line) \<lparr>d_files = [], d_dirs = [''h''], d_bad = []\<rparr> = (Inr off, d')
     \<and> el_all ''h'' (log_each ''h'' [''{}''] d') = Inl Log_Too_Long
     \<and> el_len ''h'' (log_each ''h'' [''{}''] d') = Inl Log_Too_Long"
proof -
  let ?d = "\<lparr>d_files = [], d_dirs = [''h''], d_bad = []\<rparr>"
  have "el_path ''h'' = ''h/events.log''" "path_dir ''h/events.log'' = ''h''" by code_simp+
  then have g: "log_good ''h'' ?d" by (simp add: log_good_def reads_alt)
  have "max_line \<le> length (long_json max_line)" by (simp add: long_json_facts)
  from event_log_poisoned [OF g long_json_facts(1,2) this] show ?thesis .
qed

end
