(* ===== verification/Lease_Manager.thy ===== *)
theory Lease_Manager
  imports Event_Log
begin

text \<open>
  The exclusive scope leases of the daemon, \<open>heaven/leases.go\<close>. The state holds the
  active leases by id and the index from scope key to lease id; acquiring and releasing
  log an event each, and the state is rebuilt from the log at boot.

  The time stamp and the random lease ids are inputs: \<open>ids n\<close> is the id the \<open>n\<close>-th call of
  \<open>generateID\<close> returns. The function \<open>lease_emit\<close> performs an operation and returns the
  events it logs; the daemon appends them to the log in that order.
\<close>

section \<open>The state\<close>

record lease =
  lease_id :: string
  lease_owner :: string
  lease_mission :: string
  lease_type :: string
  lease_value :: string
  lease_issued_at :: string
  lease_expires_at :: string

record lease_state =
  ls_leases :: "(string \<times> lease) list"
  ls_scopes :: "(string \<times> string) list"

record scope_target =
  st_type :: string
  st_value :: string

record acquire_result =
  ar_acquired :: "lease list"
  ar_denied :: "string list"

definition scope_key :: "string \<Rightarrow> string \<Rightarrow> string" where
  "scope_key ty v = ty @ CHR '':'' # v"

abbreviation lease_key :: "lease \<Rightarrow> string" where
  "lease_key l \<equiv> scope_key (lease_type l) (lease_value l)"

abbreviation no_leases :: lease_state where
  "no_leases \<equiv> \<lparr>ls_leases = [], ls_scopes = []\<rparr>"

section \<open>The events\<close>

text \<open>\<open>json.Marshal\<close> writes struct fields in their order and map keys sorted.\<close>

definition lease_json :: "lease \<Rightarrow> json" where
  "lease_json l = JObj
     ([(''lease_id'', JStr (lease_id l)), (''owner_id'', JStr (lease_owner l)),
       (''mission_id'', JStr (lease_mission l)), (''scope_type'', JStr (lease_type l)),
       (''scope_value'', JStr (lease_value l)), (''issued_at'', JStr (lease_issued_at l))] @
      (if lease_expires_at l = [] then [] else [(''expires_at'', JStr (lease_expires_at l))]))"

definition issued_event :: "lease \<Rightarrow> string" where
  "issued_event l = json_text (JObj [(''lease'', lease_json l), (''type'', JStr ''lease_issued'')])"

definition released_event :: "string \<Rightarrow> string" where
  "released_event i = json_text (JObj [(''lease_id'', JStr i), (''type'', JStr ''lease_released'')])"

text \<open>The members of a nested struct field; several occurrences decode into the same struct
  one after the other.\<close>

fun dec_sub :: "string \<Rightarrow> (string \<times> json) list \<Rightarrow> (string \<times> json) list option" where
  "dec_sub name [] = Some []"
| "dec_sub name ((k, v) # ms) =
     (if same_key k name
      then (case (json_members_of v, dec_sub name ms) of
              (Some a, Some b) \<Rightarrow> Some (a @ b)
            | _ \<Rightarrow> None)
      else dec_sub name ms)"

definition dec_lease :: "(string \<times> json) list \<Rightarrow> lease option" where
  "dec_lease ms =
     (case (dec_str ''lease_id'' ms [], dec_str ''owner_id'' ms [], dec_str ''mission_id'' ms [],
            dec_str ''scope_type'' ms [], dec_str ''scope_value'' ms [], dec_str ''issued_at'' ms [],
            dec_str ''expires_at'' ms []) of
        (Some i, Some ow, Some mi, Some ty, Some v, Some at, Some ex) \<Rightarrow>
          Some \<lparr>lease_id = i, lease_owner = ow, lease_mission = mi, lease_type = ty,
                lease_value = v, lease_issued_at = at, lease_expires_at = ex\<rparr>
      | _ \<Rightarrow> None)"

section \<open>The operations\<close>

definition put_lease :: "lease \<Rightarrow> lease_state \<Rightarrow> lease_state" where
  "put_lease l s =
     \<lparr>ls_leases = aput (lease_id l) l (ls_leases s), ls_scopes = aput (lease_key l) (lease_id l) (ls_scopes s)\<rparr>"

definition drop_lease :: "string \<Rightarrow> lease \<Rightarrow> lease_state \<Rightarrow> lease_state" where
  "drop_lease i l s =
     \<lparr>ls_leases = adel i (ls_leases s), ls_scopes = adel (lease_key l) (ls_scopes s)\<rparr>"

definition lease_apply :: "string \<Rightarrow> lease_state \<Rightarrow> lease_state" where
  "lease_apply raw s =
     (case Option.bind (json_parse raw) json_members_of of
        None \<Rightarrow> s
      | Some ms \<Rightarrow>
          (case dec_str ''type'' ms [] of
             None \<Rightarrow> s
           | Some ty \<Rightarrow>
               (if ty = ''lease_issued'' then
                  (case Option.bind (dec_sub ''lease'' ms) dec_lease of
                     None \<Rightarrow> s
                   | Some l \<Rightarrow> put_lease l s)
                else if ty = ''lease_released'' then
                  (case dec_str ''lease_id'' ms [] of
                     None \<Rightarrow> s
                   | Some i \<Rightarrow>
                       (case map_of (ls_leases s) i of None \<Rightarrow> s | Some l \<Rightarrow> drop_lease i l s))
                else s)))"

definition new_lease_manager :: "path \<Rightarrow> disk \<Rightarrow> log_error + lease_state" where
  "new_lease_manager root d =
     (case el_all root d of Inl e \<Rightarrow> Inl e | Inr es \<Rightarrow> Inr (fold lease_apply es no_leases))"

text \<open>\<open>Acquire\<close>: result, new state and logged events. A scope index entry without its lease
  makes Go dereference a nil pointer; the state reached before that persists.\<close>

fun acquire_loop ::
  "(nat \<Rightarrow> string) \<Rightarrow> string \<Rightarrow> string \<Rightarrow> string \<Rightarrow> scope_target list \<Rightarrow> lease list \<Rightarrow> string list \<Rightarrow>
   lease_state \<Rightarrow> (go_panic + acquire_result) \<times> lease_state \<times> string list" where
  "acquire_loop ids now owner mission [] acq den s =
     (Inr \<lparr>ar_acquired = acq, ar_denied = den\<rparr>, s, [])"
| "acquire_loop ids now owner mission (t # ts) acq den s =
     (let key = scope_key (st_type t) (st_value t)
      in case map_of (ls_scopes s) key of
           Some eid \<Rightarrow>
             (case map_of (ls_leases s) eid of
                None \<Rightarrow> (Inl Nil_Deref, s, [])
              | Some ex \<Rightarrow>
                  (if lease_owner ex \<noteq> owner
                   then acquire_loop ids now owner mission ts acq (den @ [key]) s
                   else acquire_loop ids now owner mission ts (acq @ [ex]) den s))
         | None \<Rightarrow>
             (let l = \<lparr>lease_id = ids 0, lease_owner = owner, lease_mission = mission,
                       lease_type = st_type t, lease_value = st_value t,
                       lease_issued_at = now, lease_expires_at = []\<rparr>;
                  (r, s', evs) = acquire_loop (\<lambda>n. ids (Suc n)) now owner mission ts (acq @ [l]) den
                                   (put_lease l s)
              in (r, s', issued_event l # evs)))"

definition acquire ::
  "(nat \<Rightarrow> string) \<Rightarrow> string \<Rightarrow> string \<Rightarrow> string \<Rightarrow> scope_target list \<Rightarrow> lease_state \<Rightarrow>
   (go_panic + acquire_result) \<times> lease_state \<times> string list" where
  "acquire ids now owner mission scopes s = acquire_loop ids now owner mission scopes [] [] s"

fun release :: "string list \<Rightarrow> lease_state \<Rightarrow> nat \<times> lease_state \<times> string list" where
  "release [] s = (0, s, [])"
| "release (i # is') s =
     (case map_of (ls_leases s) i of
        None \<Rightarrow> release is' s
      | Some l \<Rightarrow>
          (let (n, s', evs) = release is' (drop_lease i l s)
           in (Suc n, s', released_event i # evs)))"

text \<open>\<open>List\<close> ignores its argument; the order of a Go map is unspecified.\<close>

definition lease_list :: "bool \<Rightarrow> lease_state \<Rightarrow> lease list" where
  "lease_list active_only s = map snd (ls_leases s)"

definition active_count :: "lease_state \<Rightarrow> nat" where
  "active_count s = length (ls_leases s)"

definition owner_holds :: "string \<Rightarrow> string \<Rightarrow> string \<Rightarrow> lease_state \<Rightarrow> bool" where
  "owner_holds owner ty v s =
     (case map_of (ls_scopes s) (scope_key ty v) of
        None \<Rightarrow> False
      | Some i \<Rightarrow> (case map_of (ls_leases s) i of None \<Rightarrow> False | Some l \<Rightarrow> lease_owner l = owner))"

section \<open>Replaying an event\<close>

definition event_fields :: "string list" where
  "event_fields = [''type'', ''lease'', ''lease_id'', ''owner_id'', ''mission_id'', ''scope_type'',
     ''scope_value'', ''issued_at'', ''expires_at'', ''paths'']"

lemma event_fields_keys:
  "list_all (\<lambda>a. list_all (\<lambda>b. same_key a b \<longleftrightarrow> a = b) event_fields) event_fields"
  by code_simp

lemma same_key_field [simp]:
  "a \<in> set event_fields \<Longrightarrow> b \<in> set event_fields \<Longrightarrow> same_key a b \<longleftrightarrow> a = b"
  using event_fields_keys by (simp add: list_all_iff)

lemma event_fields_mem [simp]:
  "''type'' \<in> set event_fields" "''lease'' \<in> set event_fields" "''lease_id'' \<in> set event_fields"
  "''owner_id'' \<in> set event_fields" "''mission_id'' \<in> set event_fields"
  "''scope_type'' \<in> set event_fields" "''scope_value'' \<in> set event_fields"
  "''issued_at'' \<in> set event_fields" "''expires_at'' \<in> set event_fields" "''paths'' \<in> set event_fields"
  by (simp_all add: event_fields_def)

lemma dec_lease_json: "json_members_of (lease_json l) = Some ms \<Longrightarrow> dec_lease ms = Some l"
  by (cases l) (auto simp: lease_json_def json_members_of_def dec_lease_def)

lemma issued_event_ok: "json_ok (JObj [(''lease'', lease_json l), (''type'', JStr t)])"
  by (simp add: lease_json_def)

lemma released_event_ok: "json_ok (JObj [(''lease_id'', JStr i), (''type'', JStr t)])"
  by simp

lemma json_members_of_lease: "\<exists>ms. json_members_of (lease_json l) = Some ms"
  by (simp add: lease_json_def json_members_of_def)

lemma lease_apply_issued [simp]: "lease_apply (issued_event l) s = put_lease l s"
proof -
  obtain ms where ms: "json_members_of (lease_json l) = Some ms" using json_members_of_lease by blast
  show ?thesis
    unfolding lease_apply_def issued_event_def json_parse_text [OF issued_event_ok]
    using ms dec_lease_json [OF ms] by (simp add: json_members_of_def [of "JObj _"])
qed

lemma lease_apply_released [simp]:
  "lease_apply (released_event i) s =
     (case map_of (ls_leases s) i of None \<Rightarrow> s | Some l \<Rightarrow> drop_lease i l s)"
  unfolding lease_apply_def released_event_def json_parse_text [OF released_event_ok]
  by (simp add: json_members_of_def)

text \<open>The operations of the manager as one interface, with the state and events each gives.\<close>

datatype lease_op =
    Op_Acquire "nat \<Rightarrow> string" string string string "scope_target list"
  | Op_Release "string list"

fun lease_emit :: "lease_op \<Rightarrow> lease_state \<Rightarrow> lease_state \<times> string list" where
  "lease_emit (Op_Acquire ids now owner mission scopes) s = snd (acquire ids now owner mission scopes s)"
| "lease_emit (Op_Release is') s = snd (release is' s)"

lemma acquire_loop_replay:
  "acquire_loop ids now owner mission ts acq den s = (r, s', evs) \<Longrightarrow> fold lease_apply evs s = s'"
  by (induction ids now owner mission ts acq den s arbitrary: r evs rule: acquire_loop.induct)
    (auto simp: Let_def split: option.splits if_splits prod.splits)

lemma release_replay: "release is' s = (n, s', evs) \<Longrightarrow> fold lease_apply evs s = s'"
  by (induction is' s arbitrary: n s' evs rule: release.induct)
    (auto simp: Let_def split: option.splits prod.splits)

lemma lease_emit_replay: "lease_emit op s = (s', evs) \<Longrightarrow> fold lease_apply evs s = s'"
  by (cases op)
    (auto simp: acquire_def intro: acquire_loop_replay [OF prod_eqI] release_replay [OF prod_eqI])

interpretation leases_log: event_sourced lease_apply lease_emit "\<lambda>_. True" "\<lambda>_ _. True"
  by unfold_locales (auto intro: lease_emit_replay)

section \<open>The invariant\<close>

text \<open>The index and the leases are inverse to each other.\<close>

definition index_inv :: "(string \<Rightarrow> lease option) \<Rightarrow> (string \<Rightarrow> string option) \<Rightarrow> bool" where
  "index_inv L S \<longleftrightarrow>
     (\<forall>k i. S k = Some i \<longrightarrow> (\<exists>l. L i = Some l \<and> lease_key l = k)) \<and>
     (\<forall>i l. L i = Some l \<longrightarrow> lease_id l = i \<and> S (lease_key l) = Some i)"

definition lease_inv :: "lease_state \<Rightarrow> bool" where
  "lease_inv s \<longleftrightarrow>
     distinct (map fst (ls_leases s)) \<and> distinct (map fst (ls_scopes s)) \<and>
     index_inv (map_of (ls_leases s)) (map_of (ls_scopes s))"

definition fresh_ids :: "(nat \<Rightarrow> string) \<Rightarrow> lease_state \<Rightarrow> bool" where
  "fresh_ids ids s \<longleftrightarrow> inj ids \<and> (\<forall>n. map_of (ls_leases s) (ids n) = None)"

lemma lease_invD:
  assumes "lease_inv s"
  shows "map_of (ls_scopes s) k = Some i \<Longrightarrow> \<exists>l. map_of (ls_leases s) i = Some l \<and> lease_key l = k"
    and "map_of (ls_leases s) i = Some l \<Longrightarrow> lease_id l = i \<and> map_of (ls_scopes s) (lease_key l) = Some i"
  using assms unfolding lease_inv_def index_inv_def by blast+

lemma no_leases_inv [simp]: "lease_inv no_leases"
  by (simp add: lease_inv_def index_inv_def)

lemma index_inv_put:
  assumes "index_inv L S" "L (lease_id l) = None" "S (lease_key l) = None"
  shows "index_inv (L(lease_id l \<mapsto> l)) (S(lease_key l \<mapsto> lease_id l))"
  unfolding index_inv_def
proof (intro conjI allI impI)
  fix k i assume a: "(S(lease_key l \<mapsto> lease_id l)) k = Some i"
  show "\<exists>l'. (L(lease_id l \<mapsto> l)) i = Some l' \<and> lease_key l' = k"
  proof (cases "k = lease_key l")
    case False
    with a obtain l' where "L i = Some l'" "lease_key l' = k" using assms(1) by (auto simp: index_inv_def)
    with assms(2) show ?thesis by (intro exI [of _ l']) auto
  qed (use a in auto)
next
  fix i l' assume a: "(L(lease_id l \<mapsto> l)) i = Some l'"
  show "lease_id l' = i" "(S(lease_key l \<mapsto> lease_id l)) (lease_key l') = Some i"
    using a assms unfolding index_inv_def by (auto split: if_splits) (metis option.distinct(1))
qed

lemma index_inv_drop:
  assumes "index_inv L S" "L i = Some l"
  shows "index_inv (L(i := None)) (S(lease_key l := None))"
proof -
  have "lease_key l' \<noteq> lease_key l" if "L j = Some l'" "j \<noteq> i" for j l'
  proof
    assume "lease_key l' = lease_key l"
    then have "Some j = Some i" using assms that unfolding index_inv_def by metis
    with that show False by simp
  qed
  moreover have "k \<noteq> lease_key l \<Longrightarrow> S k \<noteq> Some i" for k using assms unfolding index_inv_def by fastforce
  ultimately show ?thesis using assms(1) unfolding index_inv_def by auto
qed

lemma put_lease_inv:
  assumes "lease_inv s" "map_of (ls_leases s) (lease_id l) = None" "map_of (ls_scopes s) (lease_key l) = None"
  shows "lease_inv (put_lease l s)"
  using assms index_inv_put [of "map_of (ls_leases s)" "map_of (ls_scopes s)" l]
  by (simp add: lease_inv_def put_lease_def)

lemma drop_lease_inv:
  assumes "lease_inv s" "map_of (ls_leases s) i = Some l"
  shows "lease_inv (drop_lease i l s)"
  using assms(1) index_inv_drop [of "map_of (ls_leases s)" "map_of (ls_scopes s)", OF _ assms(2)]
  by (simp add: lease_inv_def drop_lease_def)

lemma fresh_ids_Suc:
  "fresh_ids ids s \<Longrightarrow> lease_id l = ids 0 \<Longrightarrow> fresh_ids (\<lambda>n. ids (Suc n)) (put_lease l s)"
  by (auto simp: fresh_ids_def put_lease_def inj_def)

section \<open>The abstract specification: a map from scope to holder\<close>

definition holder :: "lease_state \<Rightarrow> string \<Rightarrow> string option" where
  "holder s k = Option.bind (map_of (ls_scopes s) k) (\<lambda>i. map_option lease_owner (map_of (ls_leases s) i))"

lemma owner_holds_holder: "owner_holds owner ty v s \<longleftrightarrow> holder s (scope_key ty v) = Some owner"
  by (auto simp: owner_holds_def holder_def split: option.splits)

lemma holder_put: "map_of (ls_leases s) (lease_id l) = None \<Longrightarrow> lease_inv s \<Longrightarrow>
  holder (put_lease l s) = (holder s)(lease_key l \<mapsto> lease_owner l)"
  using lease_invD(1) [of s] by (fastforce simp: holder_def put_lease_def fun_eq_iff split: option.splits bind_splits)

lemma holder_drop: "map_of (ls_leases s) i = Some l \<Longrightarrow> lease_inv s \<Longrightarrow>
  holder (drop_lease i l s) = (holder s)(lease_key l := None)"
  using lease_invD(1) [of s] by (fastforce simp: holder_def drop_lease_def fun_eq_iff split: option.splits bind_splits)

text \<open>What acquiring means: every free scope goes to the owner, the others stay.\<close>

definition grant :: "string \<Rightarrow> string list \<Rightarrow> (string \<Rightarrow> string option) \<Rightarrow> string \<Rightarrow> string option" where
  "grant owner ks h = (\<lambda>k. if h k = None \<and> k \<in> set ks then Some owner else h k)"

definition blocked :: "string \<Rightarrow> (string \<Rightarrow> string option) \<Rightarrow> string \<Rightarrow> bool" where
  "blocked owner h k \<longleftrightarrow> h k \<noteq> None \<and> h k \<noteq> Some owner"

abbreviation target_key :: "scope_target \<Rightarrow> string" where
  "target_key t \<equiv> scope_key (st_type t) (st_value t)"

lemma acquire_loop_spec:
  assumes "lease_inv s" "fresh_ids ids s"
    and "acquire_loop ids now owner mission ts acq den s = (r, s', evs)"
  shows "lease_inv s' \<and> holder s' = grant owner (map target_key ts) (holder s) \<and>
    (\<exists>new. r = Inr \<lparr>ar_acquired = acq @ new,
                     ar_denied = den @ filter (blocked owner (holder s)) (map target_key ts)\<rparr> \<and>
      map lease_key new = filter (\<lambda>k. \<not> blocked owner (holder s) k) (map target_key ts) \<and>
      list_all (\<lambda>l. lease_owner l = owner) new)"
  using assms
proof (induction ids now owner mission ts acq den s arbitrary: r s' evs rule: acquire_loop.induct)
  case (1 ids now owner mission acq den s)
  then show ?case by (auto simp: grant_def)
next
  case (2 ids now owner mission t ts acq den s)
  let ?k = "target_key t"
  show ?case
  proof (cases "map_of (ls_scopes s) ?k")
    case None
    let ?l = "\<lparr>lease_id = ids 0, lease_owner = owner, lease_mission = mission, lease_type = st_type t,
      lease_value = st_value t, lease_issued_at = now, lease_expires_at = []\<rparr>"
    obtain r1 s1 evs1 where rec: "acquire_loop (\<lambda>n. ids (Suc n)) now owner mission ts (acq @ [?l]) den
        (put_lease ?l s) = (r1, s1, evs1)" by (rule prod_cases3)
    have eq: "r = r1" "s' = s1" using 2(6) None rec by (auto simp: Let_def)
    have free: "map_of (ls_leases s) (ids 0) = None" using 2(5) by (simp add: fresh_ids_def)
    have inv: "lease_inv (put_lease ?l s)" by (rule put_lease_inv) (use 2(4) free None in auto)
    have hp: "holder (put_lease ?l s) = (holder s)(?k \<mapsto> owner)" using holder_put [of s ?l] 2(4) free by simp
    have hk: "holder s ?k = None" using None by (simp add: holder_def)
    have bl: "blocked owner ((holder s)(?k \<mapsto> owner)) = blocked owner (holder s)"
      using hk by (auto simp: blocked_def fun_eq_iff)
    have gr: "grant owner (map target_key ts) ((holder s)(?k \<mapsto> owner)) = grant owner (map target_key (t # ts)) (holder s)"
      using hk by (auto simp: grant_def fun_eq_iff)
    have nb: "\<not> blocked owner (holder s) ?k" using hk by (simp add: blocked_def)
    from 2(1) [OF refl None refl inv fresh_ids_Suc [OF 2(5)] rec]
    obtain new where new: "lease_inv s1" "holder s1 = grant owner (map target_key (t # ts)) (holder s)"
      "r1 = Inr \<lparr>ar_acquired = (acq @ [?l]) @ new, ar_denied = den @ filter (blocked owner (holder s)) (map target_key ts)\<rparr>"
      "map lease_key new = filter (\<lambda>k. \<not> blocked owner (holder s) k) (map target_key ts)"
      "list_all (\<lambda>l. lease_owner l = owner) new"
      unfolding hp bl gr by auto
    then show ?thesis using eq nb by (auto intro!: exI [of _ "?l # new"])
  next
    case (Some eid)
    from lease_invD(1) [OF 2(4) Some] obtain ex where ex: "map_of (ls_leases s) eid = Some ex" "lease_key ex = ?k"
      by blast
    have h: "holder s ?k = Some (lease_owner ex)" using Some ex by (simp add: holder_def)
    have gr: "grant owner (map target_key (t # ts)) (holder s) = grant owner (map target_key ts) (holder s)"
      using h by (auto simp: grant_def fun_eq_iff)
    show ?thesis
    proof (cases "lease_owner ex = owner")
      case True
      have rec: "acquire_loop ids now owner mission ts (acq @ [ex]) den s = (r, s', evs)"
        using 2(6) Some ex True by (simp add: Let_def)
      from 2(3) [OF refl Some ex(1) _ 2(4,5) rec] True obtain new where
        "lease_inv s'" "holder s' = grant owner (map target_key ts) (holder s)"
        "r = Inr \<lparr>ar_acquired = (acq @ [ex]) @ new, ar_denied = den @ filter (blocked owner (holder s)) (map target_key ts)\<rparr>"
        "map lease_key new = filter (\<lambda>k. \<not> blocked owner (holder s) k) (map target_key ts)"
        "list_all (\<lambda>l. lease_owner l = owner) new" by blast
      moreover have "\<not> blocked owner (holder s) ?k" using h True by (simp add: blocked_def)
      ultimately show ?thesis using gr ex True by (auto intro!: exI [of _ "ex # new"])
    next
      case False
      have rec: "acquire_loop ids now owner mission ts acq (den @ [?k]) s = (r, s', evs)"
        using 2(6) Some ex False by (simp add: Let_def)
      from 2(2) [OF refl Some ex(1) False 2(4,5) rec] obtain new where
        "lease_inv s'" "holder s' = grant owner (map target_key ts) (holder s)"
        "r = Inr \<lparr>ar_acquired = acq @ new, ar_denied = (den @ [?k]) @ filter (blocked owner (holder s)) (map target_key ts)\<rparr>"
        "map lease_key new = filter (\<lambda>k. \<not> blocked owner (holder s) k) (map target_key ts)"
        "list_all (\<lambda>l. lease_owner l = owner) new" by blast
      moreover have "blocked owner (holder s) ?k" using h False by (simp add: blocked_def)
      ultimately show ?thesis using gr by auto
    qed
  qed
qed

text \<open>What releasing means: the scopes of the released leases become free.\<close>

definition revoke :: "string list \<Rightarrow> lease_state \<Rightarrow> string \<Rightarrow> string option" where
  "revoke is' s = (\<lambda>k. case map_of (ls_scopes s) k of
       None \<Rightarrow> None
     | Some i \<Rightarrow> if i \<in> set is' then None else holder s k)"

definition live_ids :: "string list \<Rightarrow> lease_state \<Rightarrow> string list" where
  "live_ids is' s = remdups (filter (\<lambda>i. map_of (ls_leases s) i \<noteq> None) is')"

lemma length_filter_neq:
  "distinct xs \<Longrightarrow> i \<in> set xs \<Longrightarrow> Suc (length (filter (\<lambda>j. j \<noteq> i) xs)) = length xs"
proof (induction xs)
  case (Cons x xs)
  show ?case
  proof (cases "x = i")
    case True
    with Cons.prems have "filter (\<lambda>j. j \<noteq> i) xs = xs" by (intro filter_True) auto
    with True show ?thesis by simp
  qed (use Cons in auto)
qed simp

lemma revoke_drop:
  assumes "lease_inv s" "map_of (ls_leases s) i = Some l"
  shows "revoke is' (drop_lease i l s) = revoke (i # is') s"
proof
  fix k
  show "revoke is' (drop_lease i l s) k = revoke (i # is') s k"
  proof (cases "k = lease_key l")
    case True
    then show ?thesis using lease_invD(2) [OF assms] by (simp add: revoke_def drop_lease_def)
  next
    case False
    have "map_of (ls_scopes s) k \<noteq> Some i"
    proof
      assume "map_of (ls_scopes s) k = Some i"
      from lease_invD(1) [OF assms(1) this] assms(2) False show False by auto
    qed
    then show ?thesis using False holder_drop [OF assms(2,1)]
      by (auto simp: revoke_def drop_lease_def split: option.splits)
  qed
qed

lemma release_spec:
  "lease_inv s \<Longrightarrow> release is' s = (n, s', evs) \<Longrightarrow>
   lease_inv s' \<and> holder s' = revoke is' s \<and> n = length (live_ids is' s)"
proof (induction is' s arbitrary: n s' evs rule: release.induct)
  case (1 s)
  then show ?case by (auto simp: revoke_def holder_def live_ids_def fun_eq_iff split: option.splits)
next
  case (2 i is' s)
  show ?case
  proof (cases "map_of (ls_leases s) i")
    case None
    have "map_of (ls_scopes s) k \<noteq> Some i" for k
      using lease_invD(1) [OF 2(3), of k i] None by auto
    then have "revoke (i # is') s = revoke is' s" by (auto simp: revoke_def fun_eq_iff split: option.splits)
    with 2(1) [OF None 2(3)] 2(4) None show ?thesis by (simp add: live_ids_def)
  next
    case (Some l)
    obtain n1 s1 e1 where r: "release is' (drop_lease i l s) = (n1, s1, e1)" by (rule prod_cases3)
    have "live_ids (i # is') s = live_ids is' s \<and> i \<in> set (live_ids is' s) \<or>
        live_ids (i # is') s = i # live_ids is' s \<and> i \<notin> set is'"
      using Some by (auto simp: live_ids_def)
    moreover have "live_ids is' (drop_lease i l s) = filter (\<lambda>j. j \<noteq> i) (live_ids is' s)"
      by (induction is') (auto simp: live_ids_def drop_lease_def)
    moreover have "i \<notin> set is' \<Longrightarrow> filter (\<lambda>j. j \<noteq> i) (live_ids is' s) = live_ids is' s"
      by (auto simp: filter_id_conv live_ids_def)
    moreover have "distinct (live_ids is' s)" by (simp add: live_ids_def)
    ultimately have "Suc (length (live_ids is' (drop_lease i l s))) = length (live_ids (i # is') s)"
      by (elim disjE conjE) (simp_all add: length_filter_neq)
    with 2(2) [OF Some drop_lease_inv [OF 2(3) Some] r] 2(4) r Some revoke_drop [OF 2(3) Some]
    show ?thesis by simp
  qed
qed

lemma acquire_spec:
  assumes "lease_inv s" "fresh_ids ids s" "acquire ids now owner mission ts s = (r, s', evs)"
  shows "lease_inv s' \<and> holder s' = grant owner (map target_key ts) (holder s) \<and>
    (\<exists>acq. r = Inr \<lparr>ar_acquired = acq, ar_denied = filter (blocked owner (holder s)) (map target_key ts)\<rparr> \<and>
      map lease_key acq = filter (\<lambda>k. \<not> blocked owner (holder s) k) (map target_key ts) \<and>
      list_all (\<lambda>l. lease_owner l = owner) acq)"
  using acquire_loop_spec [OF assms(1,2) assms(3) [unfolded acquire_def]] by simp

fun lease_adm :: "lease_op \<Rightarrow> lease_state \<Rightarrow> bool" where
  "lease_adm (Op_Acquire ids now owner mission ts) s \<longleftrightarrow> fresh_ids ids s"
| "lease_adm (Op_Release is') s \<longleftrightarrow> True"

lemma lease_emit_inv:
  "lease_inv s \<Longrightarrow> lease_adm op s \<Longrightarrow> lease_emit op s = (s', evs) \<Longrightarrow> lease_inv s'"
proof (cases op)
  case (Op_Acquire ids now owner mission ts)
  assume "lease_inv s" "lease_adm op s" "lease_emit op s = (s', evs)"
  with Op_Acquire acquire_spec [OF _ _ prod_eqI, of s ids now owner mission ts] show ?thesis by force
next
  case (Op_Release is')
  assume "lease_inv s" "lease_adm op s" "lease_emit op s = (s', evs)"
  with Op_Release release_spec [OF _ prod_eqI, of s is'] show ?thesis by force
qed

interpretation leases_ok: event_sourced lease_apply lease_emit lease_inv lease_adm
  by unfold_locales (blast intro: lease_emit_replay lease_emit_inv)+

lemma lease_inv_distinct: "lease_inv s \<Longrightarrow> distinct (map lease_key (lease_list b s))"
proof -
  assume inv: "lease_inv s"
  have d: "distinct (map fst (ls_leases s))" using inv by (simp add: lease_inv_def)
  have "inj_on (\<lambda>e. lease_key (snd e)) (set (ls_leases s))"
  proof (rule inj_onI)
    fix e f assume m: "e \<in> set (ls_leases s)" "f \<in> set (ls_leases s)" and k: "lease_key (snd e) = lease_key (snd f)"
    obtain i l j l' where ef: "e = (i, l)" "f = (j, l')" by (cases e, cases f)
    have a: "map_of (ls_leases s) i = Some l" "map_of (ls_leases s) j = Some l'"
      using m ef d by (simp_all add: map_of_is_SomeI)
    have "Some i = Some j" using lease_invD(2) [OF inv a(1)] lease_invD(2) [OF inv a(2)] k ef by simp
    with a show "e = f" using ef by simp
  qed
  moreover have "distinct (ls_leases s)" using d by (simp add: distinct_map)
  ultimately show ?thesis by (simp add: lease_list_def distinct_map comp_def)
qed

section \<open>Properties\<close>

definition ex_ids :: "nat \<Rightarrow> string" where
  "ex_ids n = CHR ''L'' # nat_str n"

lemma ex_ids_fresh: "fresh_ids ex_ids no_leases"
  by (simp add: fresh_ids_def ex_ids_def inj_def)

text \<open> C2: \<open>Acquire\<close> never panics in a state whose index is consistent, grants exactly the
  requested scopes nobody else holds, leaves every other holder as it was, denies exactly the
  scopes another owner holds, in request order, and keeps the index consistent. \<close>

theorem lease_acquire_grants:
  assumes "lease_inv s" "fresh_ids ids s" "acquire ids now owner mission ts s = (r, s', evs)"
  shows "lease_inv s' \<and> holder s' = grant owner (map target_key ts) (holder s) \<and>
    (\<exists>acq. r = Inr \<lparr>ar_acquired = acq, ar_denied = filter (blocked owner (holder s)) (map target_key ts)\<rparr> \<and>
      map lease_key acq = filter (\<lambda>k. \<not> blocked owner (holder s) k) (map target_key ts) \<and>
      list_all (\<lambda>l. lease_owner l = owner) acq)"
  by (rule acquire_spec [OF assms])

theorem lease_acquire_grants_witness:
  "holder (fst (snd (acquire ex_ids ''t'' ''ann'' ''m1'' [\<lparr>st_type = ''file'', st_value = ''a''\<rparr>] no_leases))) ''file:a''
     = Some ''ann''"
proof -
  let ?t = "\<lparr>st_type = ''file'', st_value = ''a''\<rparr>"
  obtain r s' evs where a: "acquire ex_ids ''t'' ''ann'' ''m1'' [?t] no_leases = (r, s', evs)"
    by (rule prod_cases3)
  from lease_acquire_grants [OF no_leases_inv ex_ids_fresh a]
  have "holder s' = grant ''ann'' (map target_key [?t]) (holder no_leases)" by blast
  with a show ?thesis by (simp add: grant_def holder_def scope_key_def)
qed

text \<open> \<open>Release\<close> frees exactly the scopes of the given leases, whoever asks, returns how
  many of the ids were active, and keeps the index consistent. \<close>

theorem lease_release_frees:
  assumes "lease_inv s" "release is' s = (n, s', evs)"
  shows "lease_inv s' \<and> holder s' = revoke is' s \<and> n = length (live_ids is' s)"
  by (rule release_spec [OF assms])

definition ex_lease :: lease where
  "ex_lease = \<lparr>lease_id = ''L0'', lease_owner = ''ann'', lease_mission = ''m1'', lease_type = ''file'',
     lease_value = ''a'', lease_issued_at = ''t'', lease_expires_at = []\<rparr>"

theorem lease_release_frees_witness:
  "holder (fst (snd (release [''L0'', ''L9''] (put_lease ex_lease no_leases)))) ''file:a'' = None
    \<and> fst (release [''L0'', ''L9''] (put_lease ex_lease no_leases)) = 1"
proof -
  obtain n s' evs where r: "release [''L0'', ''L9''] (put_lease ex_lease no_leases) = (n, s', evs)"
    by (rule prod_cases3)
  have "lease_inv (put_lease ex_lease no_leases)" by (rule put_lease_inv) simp_all
  from lease_release_frees [OF this r] r show ?thesis
    by (simp add: revoke_def live_ids_def put_lease_def ex_lease_def scope_key_def)
qed

text \<open> Whatever sequence of acquisitions and releases runs from an empty manager, with ids
  that are fresh when drawn, at every point a scope has at most one lease, and replaying the
  logged events rebuilds the very same state. \<close>

theorem lease_exclusive:
  assumes "adm_run lease_emit lease_adm ops no_leases" "emit_run lease_emit ops no_leases = (s, evs)"
  shows "distinct (map lease_key (lease_list b s)) \<and> fold lease_apply evs no_leases = s"
  using leases_ok.run_replay [OF no_leases_inv assms] lease_inv_distinct by blast

theorem lease_exclusive_witness:
  "distinct (map lease_key (lease_list True (fst (emit_run lease_emit
     [Op_Acquire ex_ids ''t'' ''ann'' ''m1'' [\<lparr>st_type = ''file'', st_value = ''a''\<rparr>],
      Op_Release [''L0'']] no_leases))))"
proof -
  let ?ops = "[Op_Acquire ex_ids ''t'' ''ann'' ''m1'' [\<lparr>st_type = ''file'', st_value = ''a''\<rparr>],
      Op_Release [''L0'']]"
  have "adm_run lease_emit lease_adm ?ops no_leases" by (simp add: ex_ids_fresh)
  from lease_exclusive [OF this surjective_pairing] show ?thesis by blast
qed

text \<open> The events of two leases with one id but two scopes, which \<open>POST /event\<close> accepts,
  leave a dangling index entry once that id is released after a reboot: the next request for
  the first scope dereferences a nil pointer, whoever sends it. \<close>

theorem lease_forged_log_panics:
  assumes "lease_id l = i" "lease_id l' = i" "lease_key l \<noteq> lease_key l'"
    and "st_type t = lease_type l" "st_value t = lease_value l"
  shows "fst (acquire ids now owner mission [t]
    (fst (snd (release [i] (fold lease_apply [issued_event l, issued_event l'] no_leases))))) = Inl Nil_Deref"
  using assms by (simp add: put_lease_def drop_lease_def acquire_def adel_def)

theorem lease_forged_log_panics_witness:
  "fst (acquire ex_ids ''t'' ''bob'' ''m2'' [\<lparr>st_type = ''file'', st_value = ''a''\<rparr>]
    (fst (snd (release [''L0''] (fold lease_apply
      [issued_event ex_lease, issued_event (ex_lease\<lparr>lease_value := ''b''\<rparr>)] no_leases))))) = Inl Nil_Deref"
  by (rule lease_forged_log_panics) (simp_all add: ex_lease_def scope_key_def)

text \<open>A scope key does not say where the type ends: types without a colon are needed.\<close>

lemma scope_key_inj:
  assumes "CHR '':'' \<notin> set a" "CHR '':'' \<notin> set a'" "scope_key a b = scope_key a' b'"
  shows "a = a' \<and> b = b'"
  using assms
proof (induction a arbitrary: a')
  case Nil
  then show ?case by (cases a') (auto simp: scope_key_def)
next
  case (Cons c a)
  then show ?case by (cases a') (auto simp: scope_key_def)
qed

text \<open> With scope types that contain a colon, two different scopes share one key, so a
  lease on one of them denies the other to everybody else. \<close>

theorem scope_key_collides:
  "scope_key (ty @ CHR '':'' # x) v = scope_key ty (x @ CHR '':'' # v) \<and> ty @ CHR '':'' # x \<noteq> ty"
  by (simp add: scope_key_def)

end
