(* ===== verification/File_Clock.thy ===== *)
theory File_Clock
  imports Event_Log
begin

text \<open>
  The per-file version counters of the daemon, \<open>heaven/fileclock.go\<close>. The state is the
  map \<open>clocks\<close>; every increment is logged, and the map is rebuilt from the log at boot.
  The counters are Go's \<open>int64\<close>: they wrap at \<open>2 ^ 63\<close>.
\<close>

type_synonym clocks = "(path \<times> int) list"

section \<open>The operations\<close>

definition clock_of :: "clocks \<Rightarrow> path \<Rightarrow> int" where
  "clock_of m p = (case map_of m p of None \<Rightarrow> 0 | Some v \<Rightarrow> v)"

definition clock_bump :: "path \<Rightarrow> clocks \<Rightarrow> clocks" where
  "clock_bump p m = aput p (wrap64 (clock_of m p + 1)) m"

definition clock_event :: "path list \<Rightarrow> string" where
  "clock_event ps =
     json_text (JObj [(''paths'', JArr (map JStr ps)), (''type'', JStr ''file_clock_inc'')])"

text \<open>One event of the log, as \<open>replayEvents\<close> treats it.\<close>

definition clock_apply :: "string \<Rightarrow> clocks \<Rightarrow> clocks" where
  "clock_apply raw m =
     (case json_parse raw of
        None \<Rightarrow> m
      | Some v \<Rightarrow>
          (case json_members_of v of
             None \<Rightarrow> m
           | Some ms \<Rightarrow>
               (case (dec_str ''type'' ms [], dec_strs ''paths'' ms []) of
                  (Some t, Some ps) \<Rightarrow> (if t = ''file_clock_inc'' then fold clock_bump ps m else m)
                | _ \<Rightarrow> m)))"

definition new_file_clock :: "path \<Rightarrow> disk \<Rightarrow> log_error + clocks" where
  "new_file_clock root d =
     (case el_all root d of Inl e \<Rightarrow> Inl e | Inr es \<Rightarrow> Inr (fold clock_apply es []))"

text \<open>\<open>Increment\<close>: the counters move before the event is logged, also when the append
  fails; its error is the result. \<open>clock_emit\<close> is the part without the disk.\<close>

definition clock_emit :: "path list \<Rightarrow> clocks \<Rightarrow> clocks \<times> string list" where
  "clock_emit ps m = (fold clock_bump ps m, [clock_event ps])"

definition clock_increment ::
  "path \<Rightarrow> path list \<Rightarrow> clocks \<times> disk \<Rightarrow> log_error option \<times> clocks \<times> disk" where
  "clock_increment root ps st =
     (let (m, d) = st; (m', evs) = clock_emit ps m
      in case el_append root (hd evs) d of
           (Inl e, d') \<Rightarrow> (Some e, m', d')
         | (Inr off, d') \<Rightarrow> (None, m', d'))"

definition clock_get :: "path list \<Rightarrow> clocks \<Rightarrow> clocks" where
  "clock_get ps m = fold (\<lambda>p r. aput p (clock_of m p) r) ps []"

definition clock_summary :: "clocks \<Rightarrow> clocks" where
  "clock_summary m = fold (\<lambda>(k, v) r. aput k v r) m []"

section \<open>What the operations compute\<close>

lemma clock_of_bump: "clock_of (clock_bump p m) q = (if q = p then wrap64 (clock_of m p + 1) else clock_of m q)"
  by (simp add: clock_bump_def clock_of_def)

text \<open>A run of bumps adds to each counter how often its path occurs.\<close>

lemma clock_of_bumps:
  "in_int64 (clock_of m p) \<Longrightarrow>
   clock_of (fold clock_bump ps m) p = wrap64 (clock_of m p + int (count_list ps p))"
proof (induction ps arbitrary: m)
  case (Cons q ps)
  show ?case
  proof (cases "q = p")
    case True
    have "clock_of (fold clock_bump ps (clock_bump p m)) p
        = wrap64 (clock_of (clock_bump p m) p + int (count_list ps p))"
      by (rule Cons.IH) (simp add: clock_of_bump wrap64_range)
    also have "\<dots> = wrap64 (clock_of m p + 1 + int (count_list ps p))"
      by (simp add: clock_of_bump wrap64_wrap64)
    finally show ?thesis using True by (simp add: algebra_simps)
  next
    case False
    have "clock_of (clock_bump q m) p = clock_of m p" using False by (simp add: clock_of_bump)
    with False Cons show ?thesis by simp
  qed
qed (simp add: wrap64_id)

lemma map_of_fold_aput:
  "map_of (fold (\<lambda>p. aput p (f p)) ps r) q = (if q \<in> set ps then Some (f q) else map_of r q)"
  by (induction ps arbitrary: r) auto

lemma clock_of_get: "clock_of (clock_get ps m) q = (if q \<in> set ps then clock_of m q else 0)"
  by (simp add: clock_get_def clock_of_def map_of_fold_aput)

section \<open>Rebuilt from the log\<close>

lemma json_ok_clock_event: "json_ok (JObj [(''paths'', JArr (map JStr ps)), (''type'', JStr t)])"
  by (simp add: list_all_iff)

lemma same_key_clock [simp]:
  "same_key ''type'' ''type''" "\<not> same_key ''paths'' ''type''"
  "same_key ''paths'' ''paths''" "\<not> same_key ''type'' ''paths''"
  by code_simp+

lemma clock_apply_event: "clock_apply (clock_event ps) m = fold clock_bump ps m"
  unfolding clock_apply_def clock_event_def json_parse_text [OF json_ok_clock_event]
  by (simp add: json_members_of_def)

interpretation clocks_log: event_sourced clock_apply clock_emit "\<lambda>_. True" "\<lambda>_ _. True"
  by unfold_locales (auto simp: clock_emit_def clock_apply_event)

lemma json_obj_fit:
  "json_ok (JObj ms) \<Longrightarrow> length (json_text (JObj ms)) < max_line \<Longrightarrow> line_fit (json_text (JObj ms))"
  using json_valid_text [of "JObj ms"] json_text_no_LF(1) [of "JObj ms"] by (simp add: line_fit_def)

lemma clock_event_fit: "length (clock_event ps) < max_line \<Longrightarrow> line_fit (clock_event ps)"
  unfolding clock_event_def by (rule json_obj_fit [OF json_ok_clock_event])

section \<open>Properties\<close>

text \<open> After an increment whose event fits on a line of a readable log, the daemon that
  boots from the disk has the counters of the running one. \<close>

theorem clock_boot_sync:
  assumes "log_good root d" "new_file_clock root d = Inr m" "length (clock_event ps) < max_line"
    and "clock_increment root ps (m, d) = (r, m', d')"
  shows "r = None \<and> new_file_clock root d' = Inr m' \<and> log_good root d'"
proof -
  obtain es where es: "el_all root d = Inr es" "m = fold clock_apply es []"
    using assms(2) by (auto simp: new_file_clock_def split: sum.splits)
  obtain off d1 where a: "el_append root (clock_event ps) d = (Inr off, d1)" "log_good root d1"
    using el_append_good [OF assms(1) clock_event_fit [OF assms(3)]] by blast
  then have "el_all root d1 = Inr (es @ [clock_event ps])"
    using el_append_all [OF assms(1) clock_event_fit [OF assms(3)] a(1) es(1)] by simp
  with a es assms(4) show ?thesis
    by (auto simp: clock_increment_def clock_emit_def new_file_clock_def clock_apply_event)
qed

theorem clock_boot_sync_witness:
  "new_file_clock ''h'' (snd (snd (clock_increment ''h'' [''a.go''] ([], \<lparr>d_files = [], d_dirs = [''h''], d_bad = []\<rparr>))))
     = Inr [(''a.go'', 1)]"
proof -
  let ?d = "\<lparr>d_files = [], d_dirs = [''h''], d_bad = []\<rparr>"
  have p: "el_path ''h'' = ''h/events.log''" "path_dir ''h/events.log'' = ''h''" by code_simp+
  then have g: "log_good ''h'' ?d" by (simp add: log_good_def reads_alt)
  have m: "new_file_clock ''h'' ?d = Inr []" by (simp add: new_file_clock_def el_all_def read_file_def p)
  have l: "length (clock_event [''a.go'']) < max_line"
    by (simp add: clock_event_def json_quote_def json_esc_def max_line_def)
  obtain r m' d' where e: "clock_increment ''h'' [''a.go''] ([], ?d) = (r, m', d')" by (rule prod_cases3)
  then have "m' = [(''a.go'', 1)]"
    by (auto simp: clock_increment_def clock_emit_def clock_bump_def clock_of_def wrap64_def
        split: prod.splits sum.splits)
  with clock_boot_sync [OF g m l e] e show ?thesis by simp
qed

text \<open> A clock read after any sequence of increments is the number of times its path was
  incremented, for every path asked for, in 64-bit arithmetic; the replay of the logged
  events gives the same counters. \<close>

theorem clock_counts:
  "emit_run clock_emit pss [] = (m, evs) \<Longrightarrow>
   clock_of (clock_get qs m) p = (if p \<in> set qs then wrap64 (int (count_list (concat pss) p)) else 0)
   \<and> fold clock_apply evs [] = m"
proof -
  assume run: "emit_run clock_emit pss [] = (m, evs)"
  have "emit_run clock_emit pss m0 = (fold clock_bump (concat pss) m0, map clock_event pss)" for m0
    by (induction pss arbitrary: m0) (auto simp: clock_emit_def)
  with run have m: "m = fold clock_bump (concat pss) []" by simp
  have a: "adm_run clock_emit (\<lambda>_ _. True) pss s" for s by (induction pss arbitrary: s) auto
  have "clock_of m p = wrap64 (int (count_list (concat pss) p))"
    using clock_of_bumps [of "[]" p "concat pss"] m by (simp add: clock_of_def in_int64_def)
  with clocks_log.run_replay [OF TrueI a run] show ?thesis by (simp add: clock_of_get)
qed

theorem clock_counts_witness:
  "clock_of (clock_get [''a'', ''b''] (fst (emit_run clock_emit [[''a'', ''b''], [''a'']] []))) ''a'' = 2"
  using clock_counts [of "[[''a'', ''b''], [''a'']]" "fst (emit_run clock_emit [[''a'', ''b''], [''a'']] [])"
      "snd (emit_run clock_emit [[''a'', ''b''], [''a'']] [])" "[''a'', ''b'']" "''a''"]
  by (simp add: wrap64_def)

end
