(* ===== verification/IR_Index.thy ===== *)
theory IR_Index
  imports Disk
begin

text \<open>
  The symbol index of the daemon, \<open>heaven/irindex.go\<close> and \<open>heaven/irparse.go\<close>. The three
  SQLite tables are lists of rows in row-id order with the next automatic id of each, the
  SQL statements are written as what they do to them. \<open>ir_fault\<close> makes every statement
  fail. Row order is the one SQLite gives when it searches by index; SQL leaves it open.

  The tree-sitter parser is the parameter \<open>parse\<close>: extension and source to a syntax tree.
  A tree node carries the field name it has in its parent, its byte range and its rows.
\<close>

section \<open>The tables\<close>

record symbol =
  sym_id :: nat
  sym_name :: string
  sym_kind :: string
  sym_path :: path
  sym_start :: nat
  sym_end :: nat
  sym_line :: nat
  sym_end_line :: nat

record reference =
  ref_id :: nat
  ref_sym :: nat
  ref_path :: path
  ref_start :: nat
  ref_end :: nat
  ref_line :: nat
  ref_end_line :: nat
  ref_kind :: string

record indexed_file =
  if_path :: path
  if_hash :: string
  if_mtime :: int

record ir_index =
  ir_files :: "indexed_file list"
  ir_symbols :: "symbol list"
  ir_refs :: "reference list"
  ir_next_sym :: nat
  ir_next_ref :: nat
  ir_fault :: bool

datatype ir_error = DB_Error | IR_Read io_error | IR_Parse string | IR_Panic go_panic

definition file_needs_reindex :: "path \<Rightarrow> int \<Rightarrow> ir_index \<Rightarrow> ir_error + bool" where
  "file_needs_reindex p mtime ix =
     (if ir_fault ix then Inl DB_Error
      else case find (\<lambda>f. if_path f = p) (ir_files ix) of
        None \<Rightarrow> Inr True
      | Some f \<Rightarrow> Inr (if_mtime f \<noteq> mtime))"

text \<open>The three deletes at the start of a file transaction.\<close>

definition begin_file_tx :: "path \<Rightarrow> ir_index \<Rightarrow> ir_index" where
  "begin_file_tx p ix =
     (let gone = map sym_id (filter (\<lambda>s. sym_path s = p) (ir_symbols ix))
      in ix\<lparr>ir_symbols := filter (\<lambda>s. sym_path s \<noteq> p) (ir_symbols ix),
            ir_refs := filter (\<lambda>r. ref_sym r \<notin> set gone \<and> ref_path r \<noteq> p) (ir_refs ix)\<rparr>)"

definition insert_symbol :: "symbol \<Rightarrow> ir_index \<Rightarrow> nat \<times> ir_index" where
  "insert_symbol s ix =
     (let i = ir_next_sym ix
      in (i, ix\<lparr>ir_symbols := ir_symbols ix @ [s\<lparr>sym_id := i\<rparr>], ir_next_sym := Suc i\<rparr>))"

definition insert_ref :: "reference \<Rightarrow> ir_index \<Rightarrow> ir_index" where
  "insert_ref r ix =
     ix\<lparr>ir_refs := ir_refs ix @ [r\<lparr>ref_id := ir_next_ref ix\<rparr>], ir_next_ref := Suc (ir_next_ref ix)\<rparr>"

definition update_file_record :: "indexed_file \<Rightarrow> ir_index \<Rightarrow> ir_index" where
  "update_file_record f ix =
     ix\<lparr>ir_files := filter (\<lambda>g. if_path g \<noteq> if_path f) (ir_files ix) @ [f]\<rparr>"

section \<open>Queries\<close>

definition symdef :: "string \<Rightarrow> ir_index \<Rightarrow> ir_error + symbol list" where
  "symdef name ix =
     (if ir_fault ix then Inl DB_Error else Inr (filter (\<lambda>s. sym_name s = name) (ir_symbols ix)))"

definition callers :: "string \<Rightarrow> int \<Rightarrow> ir_index \<Rightarrow> ir_error + reference list" where
  "callers name top_k ix =
     (if ir_fault ix then Inl DB_Error
      else (let rows = List.concat (map (\<lambda>s. filter (\<lambda>r. ref_sym r = sym_id s) (ir_refs ix))
                             (filter (\<lambda>s. sym_name s = name) (ir_symbols ix)))
            in Inr (if top_k < 0 then rows else take (nat top_k) rows)))"

text \<open>SQL's \<open>LIKE\<close>: \<open>%\<close> and \<open>_\<close> are wild, also inside the query, and ASCII case is ignored.\<close>

fun like :: "string \<Rightarrow> string \<Rightarrow> bool" where
  "like [] s \<longleftrightarrow> s = []"
| "like (c # p) [] \<longleftrightarrow> c = CHR ''%'' \<and> like p []"
| "like (c # p) (x # s) \<longleftrightarrow>
     (if c = CHR ''%'' then like p (x # s) \<or> like (c # p) s
      else (c = CHR ''_'' \<or> fold_char c = fold_char x) \<and> like p s)"

definition search_symbols :: "string \<Rightarrow> int \<Rightarrow> ir_index \<Rightarrow> ir_error + symbol list" where
  "search_symbols query top_k ix =
     (if ir_fault ix then Inl DB_Error
      else (let rows = filter (\<lambda>s. like (CHR ''%'' # query @ ''%'') (sym_name s)) (ir_symbols ix)
            in Inr (if top_k < 0 then rows else take (nat top_k) rows)))"

record index_stats =
  st_files :: nat
  st_symbols :: nat
  st_refs :: nat

definition stats :: "ir_index \<Rightarrow> ir_error + index_stats" where
  "stats ix =
     (if ir_fault ix then Inl DB_Error
      else Inr \<lparr>st_files = length (ir_files ix), st_symbols = length (ir_symbols ix), st_refs = length (ir_refs ix)\<rparr>)"

section \<open>Source text\<close>

definition cut_bytes :: "nat \<Rightarrow> nat \<Rightarrow> string \<Rightarrow> string" where
  "cut_bytes a b src = take (b - a) (drop a src)"

definition trim_sig :: "string \<Rightarrow> string" where
  "trim_sig s = trim_right_set s [CHR '' '', TAB, LF]"

text \<open>Python: the first closing parenthesis at depth zero that has a colon after it; the
  position after that colon. The arguments are the bytes read so far and the depth.\<close>

fun paren_colon :: "nat \<Rightarrow> int \<Rightarrow> string \<Rightarrow> nat option" where
  "paren_colon i depth [] = None"
| "paren_colon i depth (b # bs) =
     (if b = CHR ''('' then paren_colon (Suc i) (depth + 1) bs
      else if b = CHR '')'' then
        (if depth - 1 = 0 \<and> CHR '':'' \<in> set bs
         then Some (Suc i + length (takeWhile (\<lambda>c. c \<noteq> CHR '':'') bs) + 1)
         else paren_colon (Suc i) (depth - 1) bs)
      else paren_colon (Suc i) depth bs)"

definition extract_signature :: "string \<Rightarrow> symbol \<Rightarrow> string" where
  "extract_signature src s =
     (if length src \<le> sym_start s \<or> length src < sym_end s then []
      else (let body = cut_bytes (sym_start s) (sym_end s) src
            in if CHR ''{'' \<in> set body then trim_sig (takeWhile (\<lambda>c. c \<noteq> CHR ''{'') body)
               else case paren_colon 0 0 body of
                 Some k \<Rightarrow> trim_sig (take k body)
               | None \<Rightarrow> fst (split2 LF body)))"

record symdef_slice =
  ss_symbol :: symbol
  ss_content :: string
  ss_depth :: string
  ss_full_lines :: int

definition symdef_slice_of :: "string \<Rightarrow> disk \<Rightarrow> symbol \<Rightarrow> symdef_slice" where
  "symdef_slice_of depth d s =
     (let full = int (sym_end_line s) - int (sym_line s) + 1
      in case read_file d (path_clean (sym_path s)) of
           Inl e \<Rightarrow> \<lparr>ss_symbol = s, ss_content = [], ss_depth = depth, ss_full_lines = full\<rparr>
         | Inr src \<Rightarrow>
             (let content =
                (if depth = ''signature'' then extract_signature src s
                 else if depth = ''summary''
                   then extract_signature src s @ [LF] @ ''// ... body: '' @ itoa full @ '' lines''
                 else if sym_start s < length src \<and> sym_end s \<le> length src
                   then cut_bytes (sym_start s) (sym_end s) src else [])
              in \<lparr>ss_symbol = s, ss_content = content, ss_depth = depth, ss_full_lines = full\<rparr>))"

definition symdef_with_depth :: "string \<Rightarrow> string \<Rightarrow> disk \<Rightarrow> ir_index \<Rightarrow> ir_error + symdef_slice list" where
  "symdef_with_depth name depth d ix =
     (case symdef name ix of Inl e \<Rightarrow> Inl e | Inr syms \<Rightarrow> Inr (map (symdef_slice_of depth d) syms))"

text \<open>\<open>Slice\<close>: \<open>start + nLines\<close> is 64-bit arithmetic, so a huge line count wraps to a
  negative end and the slice expression panics.\<close>

definition slice_lines :: "path \<Rightarrow> int \<Rightarrow> int \<Rightarrow> disk \<Rightarrow> ir_error + string" where
  "slice_lines p start_line n d =
     (case read_file d (path_clean p) of
        Inl e \<Rightarrow> Inl (IR_Read e)
      | Inr c \<Rightarrow>
          (let ls = split_on LF c;
               start = (if start_line < 1 then 1 else start_line) - 1
           in if int (length ls) \<le> start then Inr []
              else (let e = wrap64 (start + n); stop = (if int (length ls) < e then int (length ls) else e)
                    in if stop < start then Inl (IR_Panic Out_Of_Range)
                       else Inr (join_with [LF] (take (nat (stop - start)) (drop (nat start) ls))))))"

section \<open>Syntax trees\<close>

datatype node =
  Node (n_type: string) (n_field: string) (n_start: nat) (n_end: nat) (n_row: nat) (n_end_row: nat)
       (n_kids: "node list")

definition n_content :: "string \<Rightarrow> node \<Rightarrow> string" where
  "n_content src nd = cut_bytes (n_start nd) (n_end nd) src"

text \<open>\<open>walkTree\<close>: every node with its parent, in pre-order.\<close>

fun walk_tree :: "node option \<Rightarrow> node \<Rightarrow> (node option \<times> node) list" where
  "walk_tree par (Node ty f s e r er kids) =
     (par, Node ty f s e r er kids) #
     List.concat (map (walk_tree (Some (Node ty f s e r er kids))) kids)"

definition lang_configs :: "(string \<times> (string \<times> string) list) list" where
  "lang_configs =
     [(''.go'', [(''function_declaration'', ''function''), (''method_declaration'', ''method''),
                 (''type_declaration'', ''type''), (''type_spec'', ''type''),
                 (''var_declaration'', ''variable''), (''const_declaration'', ''constant''),
                 (''short_var_declaration'', ''variable'')]),
      (''.py'', [(''function_definition'', ''function''), (''class_definition'', ''class'')]),
      (''.ts'', [(''function_declaration'', ''function''), (''class_declaration'', ''class''),
                 (''lexical_declaration'', ''variable''), (''variable_declaration'', ''variable''),
                 (''method_definition'', ''method''), (''interface_declaration'', ''interface''),
                 (''type_alias_declaration'', ''type''), (''enum_declaration'', ''enum'')])]"

text \<open>\<open>filepath.Ext\<close>: from the last dot of the last path element.\<close>

definition path_ext :: "path \<Rightarrow> string" where
  "path_ext p =
     (let b = takeWhile (\<lambda>c. c \<noteq> CHR ''/'') (rev p)
      in if CHR ''.'' \<in> set b then rev (takeWhile (\<lambda>c. c \<noteq> CHR ''.'') b @ ''.'') else [])"

definition lang_for_file :: "path \<Rightarrow> (string \<times> string) list option" where
  "lang_for_file p = map_of lang_configs (path_ext p)"

definition is_ident :: "node \<Rightarrow> bool" where
  "is_ident nd \<longleftrightarrow> n_type nd = ''identifier'' \<or> n_type nd = ''type_identifier''"

definition extract_symbol_name :: "string \<Rightarrow> node \<Rightarrow> string" where
  "extract_symbol_name src nd =
     (case find (\<lambda>k. n_field k = ''name'') (n_kids nd) of
        Some k \<Rightarrow> n_content src k
      | None \<Rightarrow> (case find is_ident (n_kids nd) of Some k \<Rightarrow> n_content src k | None \<Rightarrow> []))"

definition is_definition_name :: "node option \<Rightarrow> node \<Rightarrow> bool" where
  "is_definition_name par nd =
     (case par of
        None \<Rightarrow> False
      | Some p \<Rightarrow> list_ex (\<lambda>k. n_start k = n_start nd \<and> n_end k = n_end nd \<and> n_field k = ''name'') (n_kids p))"

definition classify_ref :: "node option \<Rightarrow> string" where
  "classify_ref par =
     (case par of
        None \<Rightarrow> ''reference''
      | Some p \<Rightarrow>
          (if n_type p \<in> set [''call_expression'', ''call''] then ''call''
           else if n_type p \<in> set [''import_declaration'', ''import_statement'', ''import_from_statement''] then ''import''
           else if n_type p \<in> set [''assignment'', ''assignment_expression'', ''short_var_declaration''] then ''assignment''
           else ''reference''))"

section \<open>Indexing a file\<close>

text \<open>Pass 1 inserts the definitions and remembers the id of the last one of each name.\<close>

definition def_step ::
  "(string \<times> string) list \<Rightarrow> path \<Rightarrow> string \<Rightarrow> node option \<times> node \<Rightarrow>
   (string \<times> nat) list \<times> ir_index \<Rightarrow> (string \<times> nat) list \<times> ir_index" where
  "def_step defs p src pn st =
     (let nd = snd pn; (ids, ix) = st
      in case map_of defs (n_type nd) of
           None \<Rightarrow> st
         | Some kind \<Rightarrow>
             (let name = extract_symbol_name src nd
              in if name = [] then st
                 else (let (i, ix') = insert_symbol
                             \<lparr>sym_id = 0, sym_name = name, sym_kind = kind, sym_path = p,
                              sym_start = n_start nd, sym_end = n_end nd,
                              sym_line = n_row nd + 1, sym_end_line = n_end_row nd + 1\<rparr> ix
                       in (aput name i ids, ix'))))"

text \<open>Pass 2 inserts the references. A name this file does not define is looked up outside the
  transaction: in \<open>old\<close>, the index as it was before the deletes.\<close>

definition ref_step ::
  "ir_index \<Rightarrow> (string \<times> nat) list \<Rightarrow> path \<Rightarrow> string \<Rightarrow> node option \<times> node \<Rightarrow> ir_index \<Rightarrow> ir_index" where
  "ref_step old ids p src pn ix =
     (let (par, nd) = pn
      in if \<not> is_ident nd \<or> is_definition_name par nd then ix
         else (let name = n_content src nd;
                   target = (case map_of ids name of
                               Some i \<Rightarrow> Some i
                             | None \<Rightarrow> (case symdef name old of Inr (s # _) \<Rightarrow> Some (sym_id s) | _ \<Rightarrow> None))
               in case target of
                    None \<Rightarrow> ix
                  | Some i \<Rightarrow> insert_ref
                      \<lparr>ref_id = 0, ref_sym = i, ref_path = p, ref_start = n_start nd, ref_end = n_end nd,
                       ref_line = n_row nd + 1, ref_end_line = n_end_row nd + 1,
                       ref_kind = classify_ref par\<rparr> ix))"

definition index_file ::
  "(string \<Rightarrow> string) \<Rightarrow> (string \<Rightarrow> string \<Rightarrow> string + node) \<Rightarrow> disk \<Rightarrow> path \<Rightarrow> int \<Rightarrow> ir_index \<Rightarrow>
   ir_error + ir_index" where
  "index_file sha parse d p mtime ix =
     (case lang_for_file p of
        None \<Rightarrow> Inr ix
      | Some defs \<Rightarrow>
          (case read_file d (path_clean p) of
             Inl e \<Rightarrow> Inl (IR_Read e)
           | Inr src \<Rightarrow>
               (case parse (path_ext p) src of
                  Inl e \<Rightarrow> Inl (IR_Parse e)
                | Inr root \<Rightarrow>
                    (if ir_fault ix then Inl DB_Error
                     else (let nodes = walk_tree None root;
                               (ids, ix1) = fold (def_step defs p src) nodes ([], begin_file_tx p ix);
                               ix2 = fold (ref_step ix ids p src) nodes ix1
                           in Inr (update_file_record \<lparr>if_path = p, if_hash = sha src, if_mtime = mtime\<rparr> ix2))))))"

section \<open>Indexing a repository\<close>

text \<open>What \<open>filepath.Walk\<close> meets, in its order; an entry it cannot read is skipped.\<close>

datatype fs_tree = FS_File path int | FS_Dir path "fs_tree list" | FS_Unreadable path

definition skip_dirs :: "string list" where
  "skip_dirs = [''.git'', ''node_modules'', ''vendor'', ''__pycache__'']"

definition path_base :: "path \<Rightarrow> string" where
  "path_base p = rev (takeWhile (\<lambda>c. c \<noteq> CHR ''/'') (rev p))"

fun walk_files :: "fs_tree \<Rightarrow> (path \<times> int) list" where
  "walk_files (FS_File p mt) = (if lang_for_file p = None then [] else [(p, mt)])"
| "walk_files (FS_Dir p kids) =
     (if List.member skip_dirs (path_base p) then [] else List.concat (map walk_files kids))"
| "walk_files (FS_Unreadable p) = []"

fun build_loop ::
  "(string \<Rightarrow> string) \<Rightarrow> (string \<Rightarrow> string \<Rightarrow> string + node) \<Rightarrow> disk \<Rightarrow> (path \<times> int) list \<Rightarrow> nat \<Rightarrow> ir_index \<Rightarrow>
   nat \<times> ir_error option \<times> ir_index" where
  "build_loop sha parse d [] n ix = (n, None, ix)"
| "build_loop sha parse d ((p, mt) # fs) n ix =
     (case file_needs_reindex p mt ix of
        Inl e \<Rightarrow> (n, Some e, ix)
      | Inr False \<Rightarrow> build_loop sha parse d fs n ix
      | Inr True \<Rightarrow>
          (case index_file sha parse d p mt ix of
             Inl e \<Rightarrow> (n, Some e, ix)
           | Inr ix' \<Rightarrow> build_loop sha parse d fs (Suc n) ix'))"

definition build_index ::
  "(string \<Rightarrow> string) \<Rightarrow> (string \<Rightarrow> string \<Rightarrow> string + node) \<Rightarrow> disk \<Rightarrow> fs_tree \<Rightarrow> ir_index \<Rightarrow>
   nat \<times> ir_error option \<times> ir_index" where
  "build_index sha parse d repo ix = build_loop sha parse d (walk_files repo) 0 ix"

section \<open>Indexing one file\<close>

lemma def_step_others:
  assumes "def_step defs p src pn (ids, ix) = (ids', ix')"
  shows "ir_refs ix' = ir_refs ix" "ir_files ix' = ir_files ix" "ir_fault ix' = ir_fault ix"
    "filter (\<lambda>s. sym_path s \<noteq> p) (ir_symbols ix') = filter (\<lambda>s. sym_path s \<noteq> p) (ir_symbols ix)"
    "ir_next_sym ix \<le> ir_next_sym ix'" "ir_next_ref ix' = ir_next_ref ix"
  using assms by (auto simp: def_step_def insert_symbol_def Let_def split: option.splits if_splits)

lemma def_fold_others:
  assumes "fold (def_step defs p src) nds (ids, ix) = (ids', ix')"
  shows "ir_refs ix' = ir_refs ix \<and> ir_files ix' = ir_files ix \<and> ir_fault ix' = ir_fault ix \<and>
    filter (\<lambda>s. sym_path s \<noteq> p) (ir_symbols ix') = filter (\<lambda>s. sym_path s \<noteq> p) (ir_symbols ix) \<and>
    ir_next_sym ix \<le> ir_next_sym ix' \<and> ir_next_ref ix' = ir_next_ref ix"
  using assms
proof (induction nds arbitrary: ids ix)
  case (Cons nd nds)
  obtain ids1 ix1 where s: "def_step defs p src nd (ids, ix) = (ids1, ix1)"
    by (cases "def_step defs p src nd (ids, ix)")
  with Cons.prems have "fold (def_step defs p src) nds (ids1, ix1) = (ids', ix')" by simp
  from Cons.IH [OF this] def_step_others [OF s] show ?case by simp
qed simp

lemma def_step_new:
  "def_step defs p src pn (ids, ix) = (ids', ix') \<Longrightarrow> s \<in> set (ir_symbols ix') \<Longrightarrow>
   s \<in> set (ir_symbols ix) \<or> ir_next_sym ix \<le> sym_id s"
  by (auto simp: def_step_def insert_symbol_def Let_def split: option.splits if_splits)

lemma def_fold_new:
  "fold (def_step defs p src) nds (ids, ix) = (ids', ix') \<Longrightarrow> s \<in> set (ir_symbols ix') \<Longrightarrow>
   s \<in> set (ir_symbols ix) \<or> ir_next_sym ix \<le> sym_id s"
proof (induction nds arbitrary: ids ix)
  case (Cons nd nds)
  obtain ids1 ix1 where d: "def_step defs p src nd (ids, ix) = (ids1, ix1)"
    by (cases "def_step defs p src nd (ids, ix)")
  with Cons.prems(1) have "fold (def_step defs p src) nds (ids1, ix1) = (ids', ix')" by simp
  from Cons.IH [OF this Cons.prems(2)] def_step_new [OF d, of s] def_step_others(5) [OF d]
  show ?case by auto
qed simp

lemma ref_step_others:
  "ir_symbols (ref_step old ids p src pn ix) = ir_symbols ix \<and>
   ir_files (ref_step old ids p src pn ix) = ir_files ix \<and>
   ir_fault (ref_step old ids p src pn ix) = ir_fault ix \<and>
   ir_next_sym (ref_step old ids p src pn ix) = ir_next_sym ix \<and>
   filter (\<lambda>r. ref_path r \<noteq> p) (ir_refs (ref_step old ids p src pn ix)) = filter (\<lambda>r. ref_path r \<noteq> p) (ir_refs ix)"
  by (auto simp: ref_step_def insert_ref_def Let_def split: prod.splits option.splits)

lemma ref_fold_others:
  "ir_symbols (fold (ref_step old ids p src) nds ix) = ir_symbols ix \<and>
   ir_files (fold (ref_step old ids p src) nds ix) = ir_files ix \<and>
   ir_fault (fold (ref_step old ids p src) nds ix) = ir_fault ix \<and>
   ir_next_sym (fold (ref_step old ids p src) nds ix) = ir_next_sym ix \<and>
   filter (\<lambda>r. ref_path r \<noteq> p) (ir_refs (fold (ref_step old ids p src) nds ix)) = filter (\<lambda>r. ref_path r \<noteq> p) (ir_refs ix)"
proof (induction nds arbitrary: ix)
  case (Cons nd nds)
  with ref_step_others [of old ids p src nd ix] show ?case by simp
qed simp

lemma index_file_Inr:
  assumes "index_file sha parse d p mt ix = Inr ix'" "lang_for_file p = Some defs"
  obtains src root ids ix1 where
    "read_file d (path_clean p) = Inr src" "parse (path_ext p) src = Inr root" "\<not> ir_fault ix"
    "fold (def_step defs p src) (walk_tree None root) ([], begin_file_tx p ix) = (ids, ix1)"
    "ix' = update_file_record \<lparr>if_path = p, if_hash = sha src, if_mtime = mt\<rparr>
             (fold (ref_step ix ids p src) (walk_tree None root) ix1)"
  using assms by (auto simp: index_file_def Let_def split: sum.splits if_splits prod.splits)

text \<open>What re-indexing \<open>p\<close> leaves alone.\<close>

lemma index_file_frame:
  assumes "index_file sha parse d p mt ix = Inr ix'" "lang_for_file p = Some defs"
  shows "filter (\<lambda>s. sym_path s \<noteq> p) (ir_symbols ix') = filter (\<lambda>s. sym_path s \<noteq> p) (ir_symbols ix)"
    and "filter (\<lambda>r. ref_path r \<noteq> p) (ir_refs ix') = filter (\<lambda>r. ref_path r \<noteq> p) (ir_refs (begin_file_tx p ix))"
    and "\<not> ir_fault ix'"
    and "\<exists>h. ir_files ix' = filter (\<lambda>g. if_path g \<noteq> p) (ir_files ix) @ [\<lparr>if_path = p, if_hash = h, if_mtime = mt\<rparr>]"
proof -
  obtain src root ids ix1 where
    r: "read_file d (path_clean p) = Inr src" "parse (path_ext p) src = Inr root" "\<not> ir_fault ix"
    and f: "fold (def_step defs p src) (walk_tree None root) ([], begin_file_tx p ix) = (ids, ix1)"
    and e: "ix' = update_file_record \<lparr>if_path = p, if_hash = sha src, if_mtime = mt\<rparr>
             (fold (ref_step ix ids p src) (walk_tree None root) ix1)"
    by (rule index_file_Inr [OF assms])
  note a = def_fold_others [OF f] and b = ref_fold_others [of ix ids p src "walk_tree None root" ix1]
  show "filter (\<lambda>s. sym_path s \<noteq> p) (ir_symbols ix') = filter (\<lambda>s. sym_path s \<noteq> p) (ir_symbols ix)"
    using a b by (simp add: e update_file_record_def begin_file_tx_def Let_def)
  show "filter (\<lambda>r. ref_path r \<noteq> p) (ir_refs ix') = filter (\<lambda>r. ref_path r \<noteq> p) (ir_refs (begin_file_tx p ix))"
    using a b by (simp add: e update_file_record_def)
  show "\<not> ir_fault ix'"
    using a b r(3) by (simp add: e update_file_record_def begin_file_tx_def Let_def)
  show "\<exists>h. ir_files ix' = filter (\<lambda>g. if_path g \<noteq> p) (ir_files ix) @ [\<lparr>if_path = p, if_hash = h, if_mtime = mt\<rparr>]"
    using a b by (simp add: e update_file_record_def begin_file_tx_def Let_def)
qed

lemma index_file_new_symbols:
  assumes "index_file sha parse d p mt ix = Inr ix'" "lang_for_file p = Some defs"
    and "s \<in> set (ir_symbols ix')" "sym_path s = p"
  shows "ir_next_sym ix \<le> sym_id s"
proof -
  obtain src root ids ix1 where
    r: "read_file d (path_clean p) = Inr src" "parse (path_ext p) src = Inr root" "\<not> ir_fault ix"
    and f: "fold (def_step defs p src) (walk_tree None root) ([], begin_file_tx p ix) = (ids, ix1)"
    and e: "ix' = update_file_record \<lparr>if_path = p, if_hash = sha src, if_mtime = mt\<rparr>
             (fold (ref_step ix ids p src) (walk_tree None root) ix1)"
    by (rule index_file_Inr [OF assms(1,2)])
  have "s \<in> set (ir_symbols ix1)" using assms(3) by (simp add: e update_file_record_def ref_fold_others)
  from def_fold_new [OF f this] assms(4) show ?thesis by (auto simp: begin_file_tx_def Let_def)
qed

section \<open>The invariant of the tables\<close>

text \<open>Row ids are distinct and below the next automatic one, references point below it, and a
  path has one file record.\<close>

definition ir_inv :: "ir_index \<Rightarrow> bool" where
  "ir_inv ix \<longleftrightarrow> distinct (map sym_id (ir_symbols ix)) \<and> list_all (\<lambda>s. sym_id s < ir_next_sym ix) (ir_symbols ix)
     \<and> list_all (\<lambda>r. ref_sym r < ir_next_sym ix) (ir_refs ix) \<and> distinct (map if_path (ir_files ix))"









section \<open>Building twice\<close>

text \<open>A file record with this path and time: the file is up to date.\<close>

definition up_to_date :: "ir_index \<Rightarrow> path \<times> int \<Rightarrow> bool" where
  "up_to_date ix e \<longleftrightarrow> file_needs_reindex (fst e) (snd e) ix = Inr False"

lemma walk_files_lang: "(p, mt) \<in> set (walk_files t) \<Longrightarrow> lang_for_file p \<noteq> None"
  by (induction t) (auto split: if_splits)

lemma index_file_up_to_date:
  assumes "index_file sha parse d p mt ix = Inr ix'" "lang_for_file p = Some defs"
  shows "up_to_date ix' (p, mt)" and "q \<noteq> p \<Longrightarrow> up_to_date ix (q, mt') \<Longrightarrow> up_to_date ix' (q, mt')"
proof -
  obtain h where f: "ir_files ix' = filter (\<lambda>g. if_path g \<noteq> p) (ir_files ix) @ [\<lparr>if_path = p, if_hash = h, if_mtime = mt\<rparr>]"
    using index_file_frame(4) [OF assms] by blast
  have a: "find P (filter Q xs @ [x]) = (case find (\<lambda>y. P y \<and> Q y) xs of Some y \<Rightarrow> Some y | None \<Rightarrow> if P x then Some x else None)"
    for P Q and xs :: "indexed_file list" and x
    by (induction xs) auto
  have n: "find (\<lambda>y. False) xs = None" for xs :: "indexed_file list" by (induction xs) auto
  show "up_to_date ix' (p, mt)"
    using index_file_frame(3) [OF assms] by (simp add: up_to_date_def file_needs_reindex_def f a n)
  assume "q \<noteq> p" "up_to_date ix (q, mt')"
  moreover have "find (\<lambda>y. if_path y = q \<and> if_path y \<noteq> p) xs = find (\<lambda>y. if_path y = q) xs" for xs :: "indexed_file list"
    using \<open>q \<noteq> p\<close> by (induction xs) auto
  ultimately show "up_to_date ix' (q, mt')"
    using index_file_frame(3) [OF assms]
    by (auto simp: up_to_date_def file_needs_reindex_def f a split: option.splits if_splits)
qed

lemma build_loop_up_to_date:
  assumes "build_loop sha parse d fs n ix = (m, None, ix')"
    and "\<forall>(p, mt) \<in> set fs. lang_for_file p \<noteq> None"
  shows "(\<forall>e. fst e \<notin> fst ` set fs \<longrightarrow> up_to_date ix e \<longrightarrow> up_to_date ix' e) \<and>
    (distinct (map fst fs) \<longrightarrow> list_all (up_to_date ix') fs)"
  using assms
proof (induction fs arbitrary: n ix)
  case (Cons f fs)
  obtain p mt where pm: "f = (p, mt)" by (cases f)
  obtain defs where l: "lang_for_file p = Some defs" using Cons.prems(2) pm by auto
  have rest: "\<forall>(p, mt) \<in> set fs. lang_for_file p \<noteq> None" using Cons.prems(2) by simp
  consider (known) "file_needs_reindex p mt ix = Inr False" "build_loop sha parse d fs n ix = (m, None, ix')"
    | (todo) ix1 where "index_file sha parse d p mt ix = Inr ix1"
        "build_loop sha parse d fs (Suc n) ix1 = (m, None, ix')"
    using Cons.prems(1) pm by (auto split: sum.splits bool.splits)
  then show ?case
  proof cases
    case known
    then have "up_to_date ix (p, mt)" by (simp add: up_to_date_def)
    with Cons.IH [OF known(2) rest] pm show ?thesis by auto
  next
    case todo
    note u = index_file_up_to_date [OF todo(1) l]
    with Cons.IH [OF todo(2) rest] pm show ?thesis by auto
  qed
qed simp

lemma build_loop_noop:
  "list_all (up_to_date ix) fs \<Longrightarrow> build_loop sha parse d fs n ix = (n, None, ix)"
  by (induction fs) (auto simp: up_to_date_def)


section \<open>Properties\<close>

definition ex_index :: ir_index where
  "ex_index = \<lparr>ir_files = [], ir_symbols = [], ir_refs = [], ir_next_sym = 1, ir_next_ref = 1, ir_fault = False\<rparr>"

definition ex_parse :: "string \<Rightarrow> string \<Rightarrow> string + node" where
  "ex_parse ext src = Inr (Node ''source_file'' [] 0 (length src) 0 0
     [Node ''function_declaration'' [] 0 (length src) 0 0 [Node ''identifier'' ''name'' 5 6 0 0 []],
      Node ''identifier'' [] 5 6 0 0 []])"

definition ex_repo_disk :: disk where
  "ex_repo_disk = \<lparr>d_files = [(''r/a.go'', ''func f() {}'')], d_dirs = [''r''], d_bad = []\<rparr>"

text \<open> Building the index a second time, with nothing changed in between, indexes no file and
  leaves the index as it is, when the first build succeeded and no path occurs twice. \<close>

theorem build_index_idempotent:
  assumes "build_index sha parse d repo ix = (n, None, ix')" "distinct (map fst (walk_files repo))"
  shows "build_index sha parse d repo ix' = (0, None, ix')"
proof -
  have "\<forall>(p, mt) \<in> set (walk_files repo). lang_for_file p \<noteq> None" using walk_files_lang by blast
  from build_loop_up_to_date [OF assms(1) [unfolded build_index_def] this] assms(2)
  have "list_all (up_to_date ix') (walk_files repo)" by blast
  then show ?thesis unfolding build_index_def by (rule build_loop_noop)
qed

theorem build_index_idempotent_witness:
  "build_index id ex_parse ex_repo_disk (FS_Dir ''r'' [FS_File ''r/a.go'' 7])
     (snd (snd (build_index id ex_parse ex_repo_disk (FS_Dir ''r'' [FS_File ''r/a.go'' 7]) ex_index)))
   = (0, None, snd (snd (build_index id ex_parse ex_repo_disk (FS_Dir ''r'' [FS_File ''r/a.go'' 7]) ex_index)))"
proof -
  let ?t = "FS_Dir ''r'' [FS_File ''r/a.go'' 7]"
  let ?b = "build_index id ex_parse ex_repo_disk ?t ex_index"
  have w: "walk_files ?t = [(''r/a.go'', 7)]" by code_simp
  have "fst (snd ?b) = None" by code_simp
  then have "?b = (fst ?b, None, snd (snd ?b))" by (metis prod.collapse)
  with w show ?thesis using build_index_idempotent [of id ex_parse ex_repo_disk ?t ex_index] by simp
qed



text \<open> Re-indexing a changed file loses the references other files make to it: afterwards
  every reference to a symbol of that file lies in the file itself, although the records of
  the other files still say that they are up to date. \<close>

theorem reindex_drops_cross_references:
  assumes "ir_inv ix" "index_file sha parse d p mt ix = Inr ix'" "lang_for_file p \<noteq> None"
    and "s \<in> set (ir_symbols ix')" "sym_path s = p" "r \<in> set (ir_refs ix')" "ref_sym r = sym_id s"
  shows "ref_path r = p \<and> (\<forall>q mt'. q \<noteq> p \<longrightarrow> up_to_date ix (q, mt') \<longrightarrow> up_to_date ix' (q, mt'))"
proof -
  obtain defs where l: "lang_for_file p = Some defs" using assms(3) by auto
  have "ref_path r = p"
  proof (rule ccontr)
    assume o: "ref_path r \<noteq> p"
    have "r \<in> set (filter (\<lambda>r. ref_path r \<noteq> p) (ir_refs ix'))" using o assms(6) by simp
    then have "r \<in> set (ir_refs (begin_file_tx p ix))"
      unfolding index_file_frame(2) [OF assms(2) l] by simp
    then have "ref_sym r < ir_next_sym ix"
      using assms(1) by (auto simp: begin_file_tx_def Let_def ir_inv_def list_all_iff)
    moreover have "ir_next_sym ix \<le> sym_id s" by (rule index_file_new_symbols [OF assms(2) l assms(4,5)])
    ultimately show False using assms(7) by simp
  qed
  then show ?thesis using index_file_up_to_date(2) [OF assms(2) l] by blast
qed

definition ex_symbol :: symbol where
  "ex_symbol = \<lparr>sym_id = 1, sym_name = ''f'', sym_kind = ''function'', sym_path = ''r/a.go'',
     sym_start = 0, sym_end = 11, sym_line = 1, sym_end_line = 1\<rparr>"

definition ex_ref :: reference where
  "ex_ref = \<lparr>ref_id = 1, ref_sym = 1, ref_path = ''r/b.go'', ref_start = 0, ref_end = 1, ref_line = 1,
     ref_end_line = 1, ref_kind = ''call''\<rparr>"

theorem reindex_drops_cross_references_witness:
  "\<exists>ix'. index_file id ex_parse ex_repo_disk ''r/a.go'' 8
       (ex_index\<lparr>ir_symbols := [ex_symbol], ir_refs := [ex_ref], ir_next_sym := 2, ir_next_ref := 2\<rparr>) = Inr ix'
     \<and> map sym_path (ir_symbols ix') = [''r/a.go''] \<and> map ref_path (ir_refs ix') = [''r/a.go'']"
proof -
  let ?ix = "ex_index\<lparr>ir_symbols := [ex_symbol], ir_refs := [ex_ref], ir_next_sym := 2, ir_next_ref := 2\<rparr>"
  let ?r = "index_file id ex_parse ex_repo_disk ''r/a.go'' 8 ?ix"
  have inv: "ir_inv ?ix" by (simp add: ir_inv_def ex_index_def ex_symbol_def ex_ref_def)
  have "(case ?r of Inl e \<Rightarrow> [] | Inr ix' \<Rightarrow> map (\<lambda>s. (sym_path s, sym_id s)) (ir_symbols ix')) = [(''r/a.go'', 2)]"
    "(case ?r of Inl e \<Rightarrow> [] | Inr ix' \<Rightarrow> map ref_sym (ir_refs ix')) = [2]" by code_simp+
  then obtain ix' s r where i: "?r = Inr ix'" "ir_symbols ix' = [s]" "sym_path s = ''r/a.go''" "sym_id s = 2"
    "ir_refs ix' = [r]" "ref_sym r = 2"
    by (auto split: sum.splits simp: map_eq_Cons_conv)
  have "lang_for_file ''r/a.go'' \<noteq> None" by code_simp
  from reindex_drops_cross_references [OF inv i(1) this, of s r] i show ?thesis by simp
qed

text \<open> A slice from line \<open>start\<close> whose end fits in 64 bits is exactly those lines of the file,
  an empty string past its end; a line count that wraps the addition makes the daemon panic. \<close>

theorem slice_lines_spec:
  assumes "read_file d (path_clean p) = Inr c" "1 \<le> start" "1 \<le> n" "start < 2 ^ 63" "n < 2 ^ 63"
  shows "slice_lines p start n d =
    (if int (length (split_on LF c)) < start then Inr []
     else if 2 ^ 63 \<le> start - 1 + n then Inl (IR_Panic Out_Of_Range)
     else Inr (join_with [LF] (take (nat n) (drop (nat (start - 1)) (split_on LF c)))))"
proof -
  let ?L = "int (length (split_on LF c))"
  consider "?L < start" | "start \<le> ?L" "2 ^ 63 \<le> start - 1 + n" | "start \<le> ?L" "start - 1 + n < 2 ^ 63"
    by linarith
  then show ?thesis
  proof cases
    case 2
    then have "wrap64 (start - 1 + n) = start - 1 + n - 2 ^ 64"
      using assms by (intro wrap64_over) auto
    with 2 assms show ?thesis by (simp add: slice_lines_def Let_def)
  next
    case 3
    then have "wrap64 (start - 1 + n) = start - 1 + n"
      using assms by (intro wrap64_id) (simp add: in_int64_def)
    with 3 assms show ?thesis by (auto simp: slice_lines_def Let_def)
  qed (use assms in \<open>simp add: slice_lines_def Let_def\<close>)
qed

theorem slice_lines_spec_witness:
  "slice_lines ''r/a.go'' 1 5 ex_repo_disk = Inr ''func f() {}''
   \<and> slice_lines ''r/a.go'' 1 (2 ^ 63 - 1) ex_repo_disk = Inr ''func f() {}''"
proof -
  have r: "read_file ex_repo_disk (path_clean ''r/a.go'') = Inr ''func f() {}''" by code_simp
  have "split_on LF ''func f() {}'' = [''func f() {}'']" by code_simp
  then show ?thesis
    using slice_lines_spec [OF r, of 1 5] slice_lines_spec [OF r, of 1 "2 ^ 63 - 1"] by simp
qed

end
