(* ===== verification/PF_Router.thy ===== *)
theory PF_Router
  imports Event_Log Prompt_Store IR_Index
begin

text \<open>
  Page faults: an agent asks the daemon for a piece of context and gets content-addressed
  shards. The router and its command handlers (\<open>heaven/pf.go\<close>), the tracker that replaces an
  unchanged shard by a sentinel (\<open>heaven/pf_delta.go\<close>) and the governor that bounds a
  mission (\<open>heaven/pf_governor.go\<close>).

  The router's own state is the meter of each mission. The counters are Go's \<open>int64\<close>; they
  grow by one per request and by the size of stored blobs, so they are \<open>int\<close> here.
\<close>

section \<open>Requests and responses\<close>

record pf_args =
  pa_mission :: string
  pa_symbol :: string
  pa_path :: string
  pa_start_line :: int
  pa_n :: int
  pa_query :: string
  pa_top_k :: int
  pa_depth :: string
  pa_prompt :: string
  pa_section :: int

record pf_request =
  pr_type :: string
  pr_command :: string
  pr_args :: pf_args

record shard =
  sh_kind :: string
  sh_blob :: blob_id
  sh_meta :: "(string \<times> json) list"

record budget_left =
  bl_calls :: int
  bl_bytes :: int

record pf_meta =
  pm_count :: int
  pm_bytes :: int
  pm_prefetched :: bool
  pm_budget :: "budget_left option"

record pf_response =
  pp_type :: string
  pp_shards :: "shard list"
  pp_meta :: pf_meta

record metrics =
  mm_count :: int
  mm_bytes :: int

type_synonym meters = "(string \<times> metrics) list"

datatype pf_error =
    PF_Bad_Type string
  | PF_Unknown_Command string
  | PF_Missing string string
  | PF_IR ir_error
  | PF_Blob blob_error
  | PF_Prompt prompt_error
  | PF_Calls_Exceeded int int
  | PF_Bytes_Exceeded int int

section \<open>What the shards hold\<close>

definition jnat :: "nat \<Rightarrow> json" where
  "jnat n = jint (int n)"

definition symbol_json :: "symbol \<Rightarrow> json" where
  "symbol_json s = JObj
     [(''id'', jnat (sym_id s)), (''name'', JStr (sym_name s)), (''kind'', JStr (sym_kind s)),
      (''path'', JStr (sym_path s)), (''start_byte'', jnat (sym_start s)), (''end_byte'', jnat (sym_end s)),
      (''start_line'', jnat (sym_line s)), (''end_line'', jnat (sym_end_line s))]"

definition ref_json :: "reference \<Rightarrow> json" where
  "ref_json r = JObj
     [(''id'', jnat (ref_id r)), (''symbol_id'', jnat (ref_sym r)), (''path'', JStr (ref_path r)),
      (''start_byte'', jnat (ref_start r)), (''end_byte'', jnat (ref_end r)),
      (''start_line'', jnat (ref_line r)), (''end_line'', jnat (ref_end_line r)),
      (''ref_kind'', JStr (ref_kind r))]"

definition symdef_slice_json :: "symdef_slice \<Rightarrow> json" where
  "symdef_slice_json s = JObj
     [(''symbol'', symbol_json (ss_symbol s)), (''content'', JStr (ss_content s)),
      (''depth'', JStr (ss_depth s)), (''full_lines'', jint (ss_full_lines s))]"

definition section_json :: "prompt_section \<Rightarrow> json" where
  "section_json s = JObj
     [(''index'', jnat (sec_index s)), (''section_type'', JStr (sec_type s)), (''title'', JStr (sec_title s)),
      (''content'', JStr (sec_content s)), (''sha256'', JStr (sec_sha s)),
      (''byte_offset'', jnat (sec_off s)), (''byte_len'', jnat (sec_len s))]"

text \<open>A slice that was never appended to is nil and marshals as \<open>null\<close>.\<close>

definition nil_slice :: "json list \<Rightarrow> json" where
  "nil_slice vs = (if vs = [] then JNull else JArr vs)"

section \<open>The command handlers\<close>

definition store_shard ::
  "(string \<Rightarrow> string) \<Rightarrow> path \<Rightarrow> string \<Rightarrow> json \<Rightarrow> (string \<times> json) list \<Rightarrow> disk \<Rightarrow> (pf_error + shard) \<times> disk" where
  "store_shard sha root kind v meta d =
     (case blob_put sha root (json_text v) d of
        (Inl e, d') \<Rightarrow> (Inl (PF_Blob e), d')
      | (Inr bid, d') \<Rightarrow> (Inr \<lparr>sh_kind = kind, sh_blob = bid, sh_meta = meta\<rparr>, d'))"

text \<open>The common end of the handlers that return one shard.\<close>

definition one_shard ::
  "(string \<Rightarrow> string) \<Rightarrow> path \<Rightarrow> string \<Rightarrow> json \<Rightarrow> (string \<times> json) list \<Rightarrow> disk \<Rightarrow> (pf_error + shard list) \<times> disk" where
  "one_shard sha root kind v meta d =
     (case store_shard sha root kind v meta d of (Inl e, d') \<Rightarrow> (Inl e, d') | (Inr s, d') \<Rightarrow> (Inr [s], d'))"

definition mission_key :: "string \<Rightarrow> string" where
  "mission_key m = (if m = [] then ''_default'' else m)"

definition get_metrics :: "string \<Rightarrow> meters \<Rightarrow> metrics" where
  "get_metrics m ms = (case map_of ms (mission_key m) of None \<Rightarrow> \<lparr>mm_count = 0, mm_bytes = 0\<rparr> | Some x \<Rightarrow> x)"

definition put_metrics :: "string \<Rightarrow> metrics \<Rightarrow> meters \<Rightarrow> meters" where
  "put_metrics m x ms = aput (mission_key m) x ms"

definition pf_status ::
  "(string \<Rightarrow> string) \<Rightarrow> path \<Rightarrow> ir_index \<Rightarrow> meters \<Rightarrow> pf_args \<Rightarrow> disk \<Rightarrow> (pf_error + shard list) \<times> disk" where
  "pf_status sha root ix ms a d =
     (case stats ix of
        Inl e \<Rightarrow> (Inl (PF_IR e), d)
      | Inr st \<Rightarrow>
          (let m = get_metrics (pa_mission a) ms
           in one_shard sha root ''status''
                (JObj [(''index_stats'', JObj [(''files'', jnat (st_files st)), (''symbols'', jnat (st_symbols st)),
                                              (''refs'', jnat (st_refs st))]),
                       (''mission_id'', JStr (pa_mission a)), (''pf_count'', jint (mm_count m)),
                       (''shard_bytes'', jint (mm_bytes m))])
                [(''mission_id'', JStr (pa_mission a))] d))"

text \<open>\<open>PF_SYMDEF\<close> adds the callers and an empty list of tests; a failure to find or store
  those is passed over in silence.\<close>

definition prefetch_callers ::
  "(string \<Rightarrow> string) \<Rightarrow> path \<Rightarrow> ir_index \<Rightarrow> pf_args \<Rightarrow> disk \<Rightarrow> shard list \<times> disk" where
  "prefetch_callers sha root ix a d =
     (case callers (pa_symbol a) (if pa_top_k a \<le> 0 then 10 else pa_top_k a) ix of
        Inl e \<Rightarrow> ([], d)
      | Inr refs \<Rightarrow>
          (if refs = [] then ([], d)
           else case store_shard sha root ''callers'' (JArr (map ref_json refs))
                       [(''symbol'', JStr (pa_symbol a))] d of
                  (Inl e, d') \<Rightarrow> ([], d')
                | (Inr s, d') \<Rightarrow> ([s], d')))"

definition prefetch_tests ::
  "(string \<Rightarrow> string) \<Rightarrow> path \<Rightarrow> pf_args \<Rightarrow> disk \<Rightarrow> shard list \<times> disk" where
  "prefetch_tests sha root a d =
     (case store_shard sha root ''tests'' (JArr [])
             [(''symbol'', JStr (pa_symbol a)), (''stub'', JBool True)] d of
        (Inl e, d') \<Rightarrow> ([], d')
      | (Inr s, d') \<Rightarrow> ([s], d'))"

definition symdef_data :: "pf_args \<Rightarrow> string \<Rightarrow> ir_index \<Rightarrow> disk \<Rightarrow> ir_error + json" where
  "symdef_data a depth ix d =
     (if depth \<noteq> ''full''
      then (case symdef_with_depth (pa_symbol a) depth d ix of
              Inl e \<Rightarrow> Inl e | Inr ss \<Rightarrow> Inr (nil_slice (map symdef_slice_json ss)))
      else (case symdef (pa_symbol a) ix of
              Inl e \<Rightarrow> Inl e | Inr ss \<Rightarrow> Inr (nil_slice (map symbol_json ss))))"

definition pf_symdef ::
  "(string \<Rightarrow> string) \<Rightarrow> path \<Rightarrow> ir_index \<Rightarrow> pf_args \<Rightarrow> disk \<Rightarrow> (pf_error + shard list \<times> bool) \<times> disk" where
  "pf_symdef sha root ix a d =
     (if pa_symbol a = [] then (Inl (PF_Missing ''PF_SYMDEF'' ''symbol''), d)
      else (let depth = (if pa_depth a = [] then ''full'' else pa_depth a)
            in case symdef_data a depth ix d of
                 Inl e \<Rightarrow> (Inl (PF_IR e), d)
               | Inr v \<Rightarrow>
                   (case store_shard sha root ''symdef'' v
                           [(''symbol'', JStr (pa_symbol a)), (''depth'', JStr depth)] d of
                      (Inl e, d1) \<Rightarrow> (Inl e, d1)
                    | (Inr s1, d1) \<Rightarrow>
                        (let (cs, d2) = prefetch_callers sha root ix a d1;
                             (ts, d3) = prefetch_tests sha root a d2
                         in (Inr (s1 # cs @ ts, cs \<noteq> []), d3)))))"

definition pf_callers ::
  "(string \<Rightarrow> string) \<Rightarrow> path \<Rightarrow> ir_index \<Rightarrow> pf_args \<Rightarrow> disk \<Rightarrow> (pf_error + shard list) \<times> disk" where
  "pf_callers sha root ix a d =
     (if pa_symbol a = [] then (Inl (PF_Missing ''PF_CALLERS'' ''symbol''), d)
      else case callers (pa_symbol a) (if pa_top_k a \<le> 0 then 20 else pa_top_k a) ix of
             Inl e \<Rightarrow> (Inl (PF_IR e), d)
           | Inr refs \<Rightarrow> one_shard sha root ''callers'' (nil_slice (map ref_json refs))
                           [(''symbol'', JStr (pa_symbol a))] d)"

definition pf_slice ::
  "(string \<Rightarrow> string) \<Rightarrow> path \<Rightarrow> pf_args \<Rightarrow> disk \<Rightarrow> (pf_error + shard list) \<times> disk" where
  "pf_slice sha root a d =
     (if pa_path a = [] then (Inl (PF_Missing ''PF_SLICE'' ''path''), d)
      else (let start = (if pa_start_line a \<le> 0 then 1 else pa_start_line a);
                n = (if pa_n a \<le> 0 then 20 else pa_n a)
            in case slice_lines (pa_path a) start n d of
                 Inl e \<Rightarrow> (Inl (PF_IR e), d)
               | Inr c \<Rightarrow> one_shard sha root ''slice'' (JObj [(''content'', JStr c)])
                            [(''path'', JStr (pa_path a)), (''start_line'', jint start), (''n'', jint n)] d))"

definition pf_search ::
  "(string \<Rightarrow> string) \<Rightarrow> path \<Rightarrow> ir_index \<Rightarrow> pf_args \<Rightarrow> disk \<Rightarrow> (pf_error + shard list) \<times> disk" where
  "pf_search sha root ix a d =
     (if pa_query a = [] then (Inl (PF_Missing ''PF_SEARCH'' ''query''), d)
      else case search_symbols (pa_query a) (if pa_top_k a \<le> 0 then 20 else pa_top_k a) ix of
             Inl e \<Rightarrow> (Inl (PF_IR e), d)
           | Inr syms \<Rightarrow> one_shard sha root ''search'' (nil_slice (map symbol_json syms))
                           [(''query'', JStr (pa_query a))] d)"

definition pf_tests ::
  "(string \<Rightarrow> string) \<Rightarrow> path \<Rightarrow> pf_args \<Rightarrow> disk \<Rightarrow> (pf_error + shard list) \<times> disk" where
  "pf_tests sha root a d =
     (if pa_symbol a = [] then (Inl (PF_Missing ''PF_TESTS'' ''symbol''), d)
      else one_shard sha root ''tests'' (JArr []) [(''symbol'', JStr (pa_symbol a)), (''stub'', JBool True)] d)"

definition pf_prompt_section ::
  "(string \<Rightarrow> string) \<Rightarrow> path \<Rightarrow> prompts \<Rightarrow> pf_args \<Rightarrow> disk \<Rightarrow> (pf_error + shard list) \<times> disk" where
  "pf_prompt_section sha root ps a d =
     (if pa_prompt a = [] then (Inl (PF_Missing ''PF_PROMPT_SECTION'' ''prompt_id''), d)
      else case prompt_get_section (pa_prompt a) (pa_section a) ps of
             Inl e \<Rightarrow> (Inl (PF_Prompt e), d)
           | Inr s \<Rightarrow> one_shard sha root ''prompt_section'' (section_json s)
                        [(''prompt_id'', JStr (pa_prompt a)), (''section_index'', jint (pa_section a)),
                         (''section_type'', JStr (sec_type s)), (''title'', JStr (sec_title s))] d)"

definition match_summary :: "prompt_section \<Rightarrow> json" where
  "match_summary s = JObj
     [(''index'', jnat (sec_index s)), (''title'', JStr (sec_title s)), (''section_type'', JStr (sec_type s)),
      (''snippet'', JStr (if 200 < length (sec_content s) then take 200 (sec_content s) @ ''...'' else sec_content s))]"

definition pf_prompt_search ::
  "(string \<Rightarrow> string) \<Rightarrow> (string \<Rightarrow> string) \<Rightarrow> path \<Rightarrow> prompts \<Rightarrow> pf_args \<Rightarrow> disk \<Rightarrow> (pf_error + shard list) \<times> disk" where
  "pf_prompt_search sha ul root ps a d =
     (if pa_prompt a = [] then (Inl (PF_Missing ''PF_PROMPT_SEARCH'' ''prompt_id''), d)
      else if pa_query a = [] then (Inl (PF_Missing ''PF_PROMPT_SEARCH'' ''query''), d)
      else case prompt_search ul (pa_prompt a) (pa_query a) ps of
             Inl e \<Rightarrow> (Inl (PF_Prompt e), d)
           | Inr secs \<Rightarrow> one_shard sha root ''prompt_search'' (JArr (map match_summary secs))
                           [(''prompt_id'', JStr (pa_prompt a)), (''query'', JStr (pa_query a)),
                            (''matches'', jnat (length secs))] d)"

definition section_summary :: "prompt_section \<Rightarrow> json" where
  "section_summary s = JObj
     [(''index'', jnat (sec_index s)), (''title'', JStr (sec_title s)), (''section_type'', JStr (sec_type s)),
      (''byte_len'', jnat (sec_len s))]"

definition pf_prompt_summary ::
  "(string \<Rightarrow> string) \<Rightarrow> path \<Rightarrow> prompts \<Rightarrow> pf_args \<Rightarrow> disk \<Rightarrow> (pf_error + shard list) \<times> disk" where
  "pf_prompt_summary sha root ps a d =
     (if pa_prompt a = [] then (Inl (PF_Missing ''PF_PROMPT_SUMMARY'' ''prompt_id''), d)
      else case prompt_get (pa_prompt a) ps of
             Inl e \<Rightarrow> (Inl (PF_Prompt e), d)
           | Inr art \<Rightarrow> one_shard sha root ''prompt_summary'' (nil_slice (map section_summary (pa_sections art)))
                          [(''prompt_id'', JStr (pa_prompt a)), (''section_count'', jnat (length (pa_sections art))),
                           (''total_bytes'', jnat (pa_bytes art))] d)"

section \<open>The router\<close>

definition no_prefetch :: "(pf_error + shard list) \<times> disk \<Rightarrow> (pf_error + shard list \<times> bool) \<times> disk" where
  "no_prefetch r = (case r of (Inl e, d) \<Rightarrow> (Inl e, d) | (Inr ss, d) \<Rightarrow> (Inr (ss, False), d))"

definition pf_dispatch ::
  "(string \<Rightarrow> string) \<Rightarrow> (string \<Rightarrow> string) \<Rightarrow> path \<Rightarrow> ir_index \<Rightarrow> prompts \<Rightarrow> meters \<Rightarrow> pf_request \<Rightarrow> disk \<Rightarrow>
   (pf_error + shard list \<times> bool) \<times> disk" where
  "pf_dispatch sha ul root ix ps ms req d =
     (let c = pr_command req; a = pr_args req
      in if c = ''PF_STATUS'' then no_prefetch (pf_status sha root ix ms a d)
         else if c = ''PF_SYMDEF'' then pf_symdef sha root ix a d
         else if c = ''PF_CALLERS'' then no_prefetch (pf_callers sha root ix a d)
         else if c = ''PF_SLICE'' then no_prefetch (pf_slice sha root a d)
         else if c = ''PF_SEARCH'' then no_prefetch (pf_search sha root ix a d)
         else if c = ''PF_TESTS'' then no_prefetch (pf_tests sha root a d)
         else if c = ''PF_PROMPT_SECTION'' then no_prefetch (pf_prompt_section sha root ps a d)
         else if c = ''PF_PROMPT_SEARCH'' then no_prefetch (pf_prompt_search sha ul root ps a d)
         else if c = ''PF_PROMPT_SUMMARY'' then no_prefetch (pf_prompt_summary sha root ps a d)
         else (Inl (PF_Unknown_Command c), d))"

definition pf_event :: "pf_request \<Rightarrow> nat \<Rightarrow> int \<Rightarrow> string" where
  "pf_event req n bytes =
     json_text (JObj [(''command'', JStr (pr_command req)), (''mission_id'', JStr (pa_mission (pr_args req))),
       (''shard_bytes'', jint bytes), (''shard_count'', jnat n), (''type'', JStr ''pf'')])"

definition shard_size :: "path \<Rightarrow> disk \<Rightarrow> shard \<Rightarrow> int" where
  "shard_size root d s = (case blob_get root (sh_blob s) d of Inl e \<Rightarrow> 0 | Inr c \<Rightarrow> int (length c))"

text \<open>\<open>Handle\<close>: the request counts before it is dispatched, so a failing one counts too.\<close>

definition pf_handle ::
  "(string \<Rightarrow> string) \<Rightarrow> (string \<Rightarrow> string) \<Rightarrow> path \<Rightarrow> ir_index \<Rightarrow> prompts \<Rightarrow> pf_request \<Rightarrow> meters \<times> disk \<Rightarrow>
   (pf_error + pf_response) \<times> meters \<times> disk" where
  "pf_handle sha ul root ix ps req st =
     (let (ms, d) = st; mid = pa_mission (pr_args req)
      in if pr_type req \<noteq> ''request'' then (Inl (PF_Bad_Type (pr_type req)), ms, d)
         else (let m1 = (get_metrics mid ms)\<lparr>mm_count := mm_count (get_metrics mid ms) + 1\<rparr>;
                   ms1 = put_metrics mid m1 ms
               in case pf_dispatch sha ul root ix ps ms1 req d of
                    (Inl e, d1) \<Rightarrow> (Inl e, ms1, d1)
                  | (Inr (shards, pre), d1) \<Rightarrow>
                      (let total = sum_list (map (shard_size root d1) shards);
                           m2 = m1\<lparr>mm_bytes := mm_bytes m1 + total\<rparr>;
                           ms2 = put_metrics mid m2 ms1;
                           d2 = snd (el_append root (pf_event req (length shards) total) d1)
                       in (Inr \<lparr>pp_type = ''response'', pp_shards = shards,
                                pp_meta = \<lparr>pm_count = mm_count m2, pm_bytes = mm_bytes m2,
                                           pm_prefetched = pre, pm_budget = None\<rparr>\<rparr>, ms2, d2))))"

section \<open>The governor\<close>

record governor_config =
  gc_calls :: int
  gc_bytes :: int

definition default_governor :: governor_config where
  "default_governor = \<lparr>gc_calls = 20, gc_bytes = 65536\<rparr>"

definition governor_handle ::
  "(string \<Rightarrow> string) \<Rightarrow> (string \<Rightarrow> string) \<Rightarrow> path \<Rightarrow> ir_index \<Rightarrow> prompts \<Rightarrow> governor_config \<Rightarrow> pf_request \<Rightarrow>
   meters \<times> disk \<Rightarrow> (pf_error + pf_response) \<times> meters \<times> disk" where
  "governor_handle sha ul root ix ps cfg req st =
     (let (ms, d) = st; mid = pa_mission (pr_args req); m = get_metrics mid ms; ms0 = put_metrics mid m ms
      in if gc_calls cfg \<le> mm_count m then (Inl (PF_Calls_Exceeded (mm_count m) (gc_calls cfg)), ms0, d)
         else if gc_bytes cfg \<le> mm_bytes m then (Inl (PF_Bytes_Exceeded (mm_bytes m) (gc_bytes cfg)), ms0, d)
         else case pf_handle sha ul root ix ps req (ms0, d) of
           (Inl e, st') \<Rightarrow> (Inl e, st')
         | (Inr resp, st') \<Rightarrow>
             (Inr (resp\<lparr>pp_meta := (pp_meta resp)\<lparr>pm_budget :=
                 Some \<lparr>bl_calls = gc_calls cfg - pm_count (pp_meta resp),
                        bl_bytes = gc_bytes cfg - pm_bytes (pp_meta resp)\<rparr>\<rparr>\<rparr>), st'))"

section \<open>The delta tracker\<close>

type_synonym versions = "(string \<times> blob_id) list"

definition shard_key :: "string \<Rightarrow> string \<Rightarrow> pf_args \<Rightarrow> string" where
  "shard_key kind command a =
     (if command = ''PF_SYMDEF'' then ''symdef:'' @ pa_symbol a
      else if command = ''PF_CALLERS'' then ''callers:'' @ pa_symbol a
      else if command = ''PF_SLICE''
        then ''slice:'' @ pa_path a @ '':'' @ itoa (pa_start_line a) @ '':'' @ itoa (pa_n a)
      else if command = ''PF_SEARCH'' then ''search:'' @ pa_query a
      else if command = ''PF_TESTS'' then ''tests:'' @ pa_symbol a
      else kind @ '':'' @ command @ '':'' @ pa_mission a)"

text \<open>The loop over the shards of one response: served shards, number of hits, versions.\<close>

fun delta_loop :: "string \<Rightarrow> pf_args \<Rightarrow> shard list \<Rightarrow> versions \<Rightarrow> shard list \<times> nat \<times> versions" where
  "delta_loop command a [] vs = ([], 0, vs)"
| "delta_loop command a (s # ss) vs =
     (let key = shard_key (sh_kind s) command a
      in if map_of vs key = Some (sh_blob s)
         then (let (r, n, vs') = delta_loop command a ss vs
               in (\<lparr>sh_kind = ''unchanged'', sh_blob = sh_blob s,
                    sh_meta = [(''original_kind'', JStr (sh_kind s)), (''key'', JStr key)]\<rparr> # r, Suc n, vs'))
         else (let (r, n, vs') = delta_loop command a ss (aput key (sh_blob s) vs) in (s # r, n, vs')))"

definition check_and_update ::
  "string \<Rightarrow> string \<Rightarrow> pf_args \<Rightarrow> shard list \<Rightarrow> (string \<times> versions) list \<Rightarrow>
   shard list \<times> nat \<times> (string \<times> versions) list" where
  "check_and_update mission command a shards ms =
     (let vs = (case map_of ms mission of None \<Rightarrow> [] | Some v \<Rightarrow> v);
          (r, n, vs') = delta_loop command a shards vs
      in (r, n, aput mission vs' ms))"

section \<open>The log and the blobs do not meet\<close>

lemma last_segment:
  assumes "CHR ''/'' \<notin> set a"
  shows "takeWhile (\<lambda>c. c \<noteq> CHR ''/'') (rev (join_with ''/'' (xs @ [a]))) = rev a"
proof -
  have "join_with ''/'' (xs @ [a]) = (if xs = [] then a else join_with ''/'' xs @ CHR ''/'' # a)"
    by (simp add: join_with_append)
  moreover have "takeWhile (\<lambda>c. c \<noteq> CHR ''/'') (rev a) = rev a"
    using assms by (simp add: takeWhile_eq_all_conv) blast
  ultimately show ?thesis using assms by (simp add: takeWhile_append)
qed

lemma el_path_not_blob:
  assumes "root \<noteq> []" "plain_name i"
  shows "blob_path root i \<noteq> el_path root"
proof
  let ?c = "clean_comps (rooted root) [] (split_on CHR ''/'' root)"
  assume "blob_path root i = el_path root"
  then have eq: "join_with ''/'' ((?c @ [''blobs'', ''sha256'']) @ [i]) = join_with ''/'' (?c @ [''events.log''])"
    using assms path_join_root [of root "[''blobs'', ''sha256'', i]"] path_join_root [of root "[''events.log'']"]
    by (auto simp: blob_path_def el_path_def Let_def plain_name_def split: if_splits)
  have "rev i = rev ''events.log''"
    using last_segment [of i "?c @ [''blobs'', ''sha256'']"] last_segment [of "''events.log''" ?c] assms(2)
    unfolding eq by (simp add: plain_name_def)
  then have i: "i = ''events.log''" by simp
  have "length (join_with ''/'' (?c @ [''blobs'', ''sha256''] @ [i])) = length (join_with ''/'' (?c @ [''events.log'']))"
    using eq by simp
  then show False by (cases "?c = []") (simp_all add: join_with_append i)
qed

lemma blob_get_reads_eq: "reads d (blob_path root i) = reads d' (blob_path root i) \<Longrightarrow> blob_get root i d = Inr c \<Longrightarrow> blob_get root i d' = Inr c"
  by (simp add: blob_get_reads)

lemma el_append_blob_get:
  assumes "root \<noteq> []" "plain_name i" "blob_get root i d = Inr c"
  shows "blob_get root i (snd (el_append root e d)) = Inr c"
proof (rule blob_get_reads_eq [OF _ assms(3)])
  show "reads d (blob_path root i) = reads (snd (el_append root e d)) (blob_path root i)"
    using el_append_frame [OF prod.collapse [symmetric] el_path_not_blob [OF assms(1,2)], of e d] by simp
qed

section \<open>Shards can be fetched\<close>

text \<open>Every shard of a result names a blob that is in the store.\<close>

definition shards_ok :: "(string \<Rightarrow> string) \<Rightarrow> path \<Rightarrow> disk \<Rightarrow> shard list \<Rightarrow> bool" where
  "shards_ok sha root d ss \<longleftrightarrow> (\<forall>s \<in> set ss. \<exists>v. sh_blob s = sha (json_text v) \<and> blob_get root (sh_blob s) d = Inr (json_text v))"

lemma store_shard_ok:
  assumes "blob_ok sha root UNIV d" "store_shard sha root kind v meta d = (r, d')"
  shows "blob_ok sha root UNIV d'" "r = Inr s \<Longrightarrow> shards_ok sha root d' [s]"
    "shards_ok sha root d ss \<Longrightarrow> shards_ok sha root d' ss"
proof -
  obtain r1 where p: "blob_put sha root (json_text v) d = (r1, d')"
    using assms(2) by (auto simp: store_shard_def split: prod.splits sum.splits)
  show "blob_ok sha root UNIV d'" by (rule blob_put_ok [OF assms(1) _ p]) simp
  show "shards_ok sha root d ss \<Longrightarrow> shards_ok sha root d' ss"
    using blob_put_keeps [OF p] unfolding shards_ok_def by blast
  assume "r = Inr s"
  then obtain bid where "r1 = Inr bid" "sh_blob s = bid"
    using assms(2) p by (auto simp: store_shard_def split: sum.splits)
  then show "shards_ok sha root d' [s]"
    using blobs.put_get [OF assms(1) UNIV_I p [unfolded \<open>r1 = Inr bid\<close>]] blobs.put_addr [OF p [unfolded \<open>r1 = Inr bid\<close>]]
    by (auto simp: shards_ok_def)
qed

lemma shards_ok_append: "shards_ok sha root d (ss @ ts) \<longleftrightarrow> shards_ok sha root d ss \<and> shards_ok sha root d ts"
  by (auto simp: shards_ok_def)

lemma shards_ok_Nil: "shards_ok sha root d []"
  by (simp add: shards_ok_def)

text \<open>What the handlers share: the blob store stays consistent and the shards are in it.\<close>

definition serves :: "(string \<Rightarrow> string) \<Rightarrow> path \<Rightarrow> (pf_error + shard list \<times> bool) \<times> disk \<Rightarrow> bool" where
  "serves sha root r \<longleftrightarrow> blob_ok sha root UNIV (snd r) \<and>
     (\<forall>ss b. fst r = Inr (ss, b) \<longrightarrow> shards_ok sha root (snd r) ss)"

lemma serves_Inl [simp]: "serves sha root (Inl e, d) \<longleftrightarrow> blob_ok sha root UNIV d"
  by (simp add: serves_def)

lemma serves_one_shard:
  assumes "blob_ok sha root UNIV d"
  shows "serves sha root (no_prefetch (one_shard sha root kind v meta d))"
proof -
  obtain r d' where s: "store_shard sha root kind v meta d = (r, d')" by (cases "store_shard sha root kind v meta d")
  show ?thesis using store_shard_ok [OF assms s] s
    by (auto simp: serves_def no_prefetch_def one_shard_def split: sum.splits)
qed

lemma no_prefetch_Inl [simp]: "no_prefetch (Inl e, d) = (Inl e, d)"
  by (simp add: no_prefetch_def)

lemma prefetch_callers_ok:
  assumes "blob_ok sha root UNIV d" "shards_ok sha root d ss" "prefetch_callers sha root ix a d = (cs, d')"
  shows "blob_ok sha root UNIV d' \<and> shards_ok sha root d' (ss @ cs)"
proof -
  consider "cs = []" "d' = d" | refs r where
    "store_shard sha root ''callers'' (JArr (map ref_json refs)) [(''symbol'', JStr (pa_symbol a))] d = (r, d')"
    "cs = (case r of Inl e \<Rightarrow> [] | Inr s \<Rightarrow> [s])"
    using assms(3) by (auto simp: prefetch_callers_def split: sum.splits if_splits prod.splits)
  then show ?thesis
  proof cases
    case 2
    note o = store_shard_ok [OF assms(1) 2(1)]
    show ?thesis using o(1,2) o(3) [OF assms(2)] 2(2)
      by (cases r) (auto simp: shards_ok_append shards_ok_Nil)
  qed (use assms in simp)
qed

lemma prefetch_tests_ok:
  assumes "blob_ok sha root UNIV d" "shards_ok sha root d ss" "prefetch_tests sha root a d = (cs, d')"
  shows "blob_ok sha root UNIV d' \<and> shards_ok sha root d' (ss @ cs)"
proof -
  obtain r where r: "store_shard sha root ''tests'' (JArr []) [(''symbol'', JStr (pa_symbol a)), (''stub'', JBool True)] d = (r, d')"
    "cs = (case r of Inl e \<Rightarrow> [] | Inr s \<Rightarrow> [s])"
    using assms(3) by (auto simp: prefetch_tests_def split: sum.splits prod.splits)
  note o = store_shard_ok [OF assms(1) r(1)]
  show ?thesis using o(1,2) o(3) [OF assms(2)] r(2)
    by (cases r) (auto simp: shards_ok_append shards_ok_Nil)
qed

lemma serves_symdef:
  assumes ok: "blob_ok sha root UNIV d"
  shows "serves sha root (pf_symdef sha root ix a d)"
proof -
  define depth where "depth = (if pa_depth a = [] then ''full'' else pa_depth a)"
  show ?thesis
  proof (cases "pa_symbol a = []")
    case True
    with ok show ?thesis by (simp add: pf_symdef_def)
  next
    case False
    show ?thesis
    proof (cases "symdef_data a depth ix d")
      case (Inl e)
      with ok False show ?thesis by (simp add: pf_symdef_def Let_def depth_def)
    next
      case (Inr v)
      obtain r1 d1 where s1: "store_shard sha root ''symdef'' v
          [(''symbol'', JStr (pa_symbol a)), (''depth'', JStr depth)] d = (r1, d1)"
        by (meson surj_pair)
      note o1 = store_shard_ok [OF ok s1]
      obtain cs d2 where c: "prefetch_callers sha root ix a d1 = (cs, d2)" by (meson surj_pair)
      obtain ts d3 where t: "prefetch_tests sha root a d2 = (ts, d3)" by (meson surj_pair)
      have eq: "pf_symdef sha root ix a d = (case r1 of Inl e \<Rightarrow> (Inl e, d1) | Inr s \<Rightarrow> (Inr (s # cs @ ts, cs \<noteq> []), d3))"
        using False Inr s1 c t by (simp add: pf_symdef_def Let_def depth_def split: sum.splits)
      show ?thesis
      proof (cases r1)
        case (Inl e)
        with eq o1(1) show ?thesis by simp
      next
        case (Inr s)
        have "blob_ok sha root UNIV d2 \<and> shards_ok sha root d2 ([s] @ cs)"
          by (rule prefetch_callers_ok [OF o1(1) _ c]) (use o1(2) Inr in auto)
        with prefetch_tests_ok [OF _ _ t, of "[s] @ cs"] have "blob_ok sha root UNIV d3 \<and> shards_ok sha root d3 (s # cs @ ts)"
          by auto
        with eq Inr show ?thesis by (simp add: serves_def)
      qed
    qed
  qed
qed

lemma serves_handlers:
  assumes "blob_ok sha root UNIV d"
  shows "serves sha root (no_prefetch (pf_status sha root ix ms a d))"
    "serves sha root (no_prefetch (pf_callers sha root ix a d))"
    "serves sha root (no_prefetch (pf_slice sha root a d))"
    "serves sha root (no_prefetch (pf_search sha root ix a d))"
    "serves sha root (no_prefetch (pf_tests sha root a d))"
    "serves sha root (no_prefetch (pf_prompt_section sha root ps a d))"
    "serves sha root (no_prefetch (pf_prompt_search sha ul root ps a d))"
    "serves sha root (no_prefetch (pf_prompt_summary sha root ps a d))"
  unfolding pf_status_def pf_callers_def pf_slice_def pf_search_def pf_tests_def pf_prompt_section_def
    pf_prompt_search_def pf_prompt_summary_def Let_def
  using assms serves_one_shard [OF assms]
  by (auto split: sum.split)

lemma serves_dispatch:
  assumes "blob_ok sha root UNIV d"
  shows "serves sha root (pf_dispatch sha ul root ix ps ms req d)"
  unfolding pf_dispatch_def Let_def
  using assms serves_handlers [OF assms] serves_symdef [OF assms] by (simp del: no_prefetch_Inl)

section \<open>Handlers write blobs only\<close>

text \<open>From \<open>d\<close> to \<open>d'\<close> nothing but blob files changed.\<close>

definition blobs_only :: "(string \<Rightarrow> string) \<Rightarrow> path \<Rightarrow> disk \<Rightarrow> disk \<Rightarrow> bool" where
  "blobs_only sha root d d' \<longleftrightarrow> d_dirs d' = d_dirs d \<and> d_bad d' = d_bad d \<and>
     (\<forall>p. (\<forall>c. p \<noteq> blob_path root (sha c)) \<longrightarrow> reads d' p = reads d p)"

lemma blobs_only_refl [simp]: "blobs_only sha root d d"
  by (simp add: blobs_only_def)

lemma blobs_only_trans: "blobs_only sha root d d1 \<Longrightarrow> blobs_only sha root d1 d2 \<Longrightarrow> blobs_only sha root d d2"
  by (auto simp: blobs_only_def)

lemma blobs_only_put: "blobs_only sha root d (snd (blob_put sha root c d))"
  by (auto simp: blobs_only_def blob_put_def Let_def dest: write_file_reads write_file_frame split: sum.splits)

lemma blobs_only_store_shard: "blobs_only sha root d (snd (store_shard sha root kind v meta d))"
  using blobs_only_put [of sha root d "json_text v"] by (auto simp: store_shard_def split: prod.splits sum.splits)

lemma blobs_only_one_shard: "blobs_only sha root d (snd (one_shard sha root kind v meta d))"
  using blobs_only_store_shard [of sha root d kind v meta] by (auto simp: one_shard_def split: prod.splits sum.splits)

lemma blobs_only_prefetch:
  "blobs_only sha root d (snd (prefetch_callers sha root ix a d))"
  "blobs_only sha root d (snd (prefetch_tests sha root a d))"
proof -
  have "blobs_only sha root d d'" if "store_shard sha root kind v meta d = (r, d')" for kind v meta r d'
    using blobs_only_store_shard [of sha root d kind v meta] that by simp
  then show "blobs_only sha root d (snd (prefetch_callers sha root ix a d))"
    "blobs_only sha root d (snd (prefetch_tests sha root a d))"
    by (auto simp: prefetch_callers_def prefetch_tests_def split: prod.split sum.split)
qed

lemma blobs_only_symdef: "blobs_only sha root d (snd (pf_symdef sha root ix a d))"
proof (cases "pa_symbol a = []")
  case False
  define depth where "depth = (if pa_depth a = [] then ''full'' else pa_depth a)"
  show ?thesis
  proof (cases "symdef_data a depth ix d")
    case (Inr v)
    obtain r1 d1 where s1: "store_shard sha root ''symdef'' v
        [(''symbol'', JStr (pa_symbol a)), (''depth'', JStr depth)] d = (r1, d1)"
      by (meson surj_pair)
    obtain cs d2 where c: "prefetch_callers sha root ix a d1 = (cs, d2)" by (meson surj_pair)
    obtain ts d3 where t: "prefetch_tests sha root a d2 = (ts, d3)" by (meson surj_pair)
    have "snd (pf_symdef sha root ix a d) = (case r1 of Inl e \<Rightarrow> d1 | Inr s \<Rightarrow> d3)"
      using False Inr s1 c t by (simp add: pf_symdef_def Let_def depth_def split: sum.splits)
    moreover have "blobs_only sha root d d1"
      using blobs_only_store_shard [of sha root d "''symdef''" v] s1 by (metis snd_conv)
    moreover have "blobs_only sha root d1 d2" "blobs_only sha root d2 d3"
      using blobs_only_prefetch(1) [of sha root d1 ix a] blobs_only_prefetch(2) [of sha root d2 a] c t by simp_all
    ultimately show ?thesis by (auto intro: blobs_only_trans split: sum.splits)
  qed (use False in \<open>simp add: pf_symdef_def Let_def depth_def\<close>)
qed (simp add: pf_symdef_def)

lemma snd_no_prefetch [simp]: "snd (no_prefetch r) = snd r"
  by (auto simp: no_prefetch_def split: prod.splits sum.splits)

lemma blobs_only_handlers:
  "blobs_only sha root d (snd (pf_status sha root ix ms a d))"
  "blobs_only sha root d (snd (pf_callers sha root ix a d))"
  "blobs_only sha root d (snd (pf_slice sha root a d))"
  "blobs_only sha root d (snd (pf_search sha root ix a d))"
  "blobs_only sha root d (snd (pf_tests sha root a d))"
  "blobs_only sha root d (snd (pf_prompt_section sha root ps a d))"
  "blobs_only sha root d (snd (pf_prompt_search sha ul root ps a d))"
  "blobs_only sha root d (snd (pf_prompt_summary sha root ps a d))"
  using blobs_only_one_shard [of sha root d]
  by (simp_all add: pf_status_def pf_callers_def pf_slice_def pf_search_def pf_tests_def
      pf_prompt_section_def pf_prompt_search_def pf_prompt_summary_def Let_def split: sum.split)

lemma blobs_only_dispatch: "blobs_only sha root d (snd (pf_dispatch sha ul root ix ps ms req d))"
  unfolding pf_dispatch_def Let_def
  by (simp add: blobs_only_handlers blobs_only_symdef)

section \<open>What a request does\<close>

lemma pf_handle_cases:
  assumes "pf_handle sha ul root ix ps req (ms, d) = (r, ms', d')"
  obtains (bad) "pr_type req \<noteq> ''request''" "r = Inl (PF_Bad_Type (pr_type req))" "ms' = ms" "d' = d"
  | (failed) e m where "pr_type req = ''request''" "m = get_metrics (pa_mission (pr_args req)) ms"
      "r = Inl e" "ms' = put_metrics (pa_mission (pr_args req)) (m\<lparr>mm_count := mm_count m + 1\<rparr>) ms"
      "pf_dispatch sha ul root ix ps ms' req d = (Inl e, d')"
  | (served) m ss b d1 total resp where "pr_type req = ''request''" "m = get_metrics (pa_mission (pr_args req)) ms"
      "pf_dispatch sha ul root ix ps
         (put_metrics (pa_mission (pr_args req)) (m\<lparr>mm_count := mm_count m + 1\<rparr>) ms) req d = (Inr (ss, b), d1)"
      "total = sum_list (map (shard_size root d1) ss)" "r = Inr resp" "pp_shards resp = ss"
      "pm_count (pp_meta resp) = mm_count m + 1" "pm_bytes (pp_meta resp) = mm_bytes m + total"
      "ms' = put_metrics (pa_mission (pr_args req)) \<lparr>mm_count = mm_count m + 1, mm_bytes = mm_bytes m + total\<rparr>
         (put_metrics (pa_mission (pr_args req)) (m\<lparr>mm_count := mm_count m + 1\<rparr>) ms)"
      "d' = snd (el_append root (pf_event req (length ss) total) d1)"
  using assms by (cases "get_metrics (pa_mission (pr_args req)) ms")
    (auto simp: pf_handle_def Let_def split: prod.splits sum.splits if_splits)

lemma get_put_metrics: "get_metrics m' (put_metrics m x ms) = (if mission_key m' = mission_key m then x else get_metrics m' ms)"
  by (simp add: get_metrics_def put_metrics_def)



lemma pf_handle_serves:
  assumes "blob_ok sha root UNIV d" "pf_handle sha ul root ix ps req (ms, d) = (Inr resp, ms', d')"
  shows "shards_ok sha root d' (pp_shards resp) \<and>
    mm_bytes (get_metrics (pa_mission (pr_args req)) ms') =
      mm_bytes (get_metrics (pa_mission (pr_args req)) ms) + sum_list (map (shard_size root d') (pp_shards resp))"
  using assms(2)
proof (cases rule: pf_handle_cases)
  case (served m ss b d1 total resp')
  have ok: "blob_ok sha root UNIV d1" "shards_ok sha root d1 ss"
    using serves_dispatch [OF assms(1), of ul ix ps
      "put_metrics (pa_mission (pr_args req)) (m\<lparr>mm_count := mm_count m + 1\<rparr>) ms" req]
    unfolding served(3) serves_def by simp_all
  have keep: "blob_get root (sh_blob s) d' = blob_get root (sh_blob s) d1" if "s \<in> set ss" for s
  proof -
    from that ok(2) obtain v where v: "sh_blob s = sha (json_text v)" "blob_get root (sh_blob s) d1 = Inr (json_text v)"
      by (auto simp: shards_ok_def)
    have "plain_name (sh_blob s)" "root \<noteq> []" using ok(1) v(1) by (auto simp: blob_ok_def)
    from el_append_blob_get [OF this(2,1) v(2)] v(2) served(10) show ?thesis by simp
  qed
  have "map (shard_size root d') ss = map (shard_size root d1) ss"
    using keep by (auto simp: shard_size_def)
  then have t: "sum_list (map (shard_size root d') ss) = total" unfolding served(4) by (rule arg_cong)
  have "shards_ok sha root d' ss" using ok(2) keep by (auto simp: shards_ok_def)
  moreover have "mm_bytes (get_metrics (pa_mission (pr_args req)) ms') =
      mm_bytes (get_metrics (pa_mission (pr_args req)) ms) + total"
    unfolding served(9) served(2) by (simp add: get_put_metrics)
  ultimately show ?thesis using t served(5,6) by simp
qed simp_all

section \<open>The governor's bound\<close>



section \<open>Reading delta responses\<close>

text \<open>What a client does that keeps the blob id it last saw under each key: a sentinel stands
  for that blob, a full shard replaces it. \<open>None\<close>: a sentinel it cannot resolve.\<close>

fun client_decode :: "string \<Rightarrow> pf_args \<Rightarrow> shard list \<Rightarrow> versions \<Rightarrow> (blob_id list \<times> versions) option" where
  "client_decode command a [] cache = Some ([], cache)"
| "client_decode command a (s # ss) cache =
     (if sh_kind s = ''unchanged''
      then (case map_of (sh_meta s) ''key'' of
              Some (JStr key) \<Rightarrow>
                (case map_of cache key of
                   None \<Rightarrow> None
                 | Some b \<Rightarrow> map_option (\<lambda>(bs, c). (b # bs, c)) (client_decode command a ss cache))
            | _ \<Rightarrow> None)
      else map_option (\<lambda>(bs, c). (sh_blob s # bs, c))
             (client_decode command a ss (aput (shard_key (sh_kind s) command a) (sh_blob s) cache)))"

lemma client_decode_delta_loop:
  "list_all (\<lambda>s. sh_kind s \<noteq> ''unchanged'') ss \<Longrightarrow> delta_loop command a ss vs = (r, n, vs') \<Longrightarrow>
   client_decode command a r vs = Some (map sh_blob ss, vs')
   \<and> n = length (filter (\<lambda>s. sh_kind s = ''unchanged'') r)"
proof (induction ss arbitrary: vs r n)
  case (Cons s ss)
  let ?k = "shard_key (sh_kind s) command a"
  show ?case
  proof (cases "map_of vs ?k = Some (sh_blob s)")
    case True
    then obtain r1 n1 where "delta_loop command a ss vs = (r1, n1, vs')"
      "r = \<lparr>sh_kind = ''unchanged'', sh_blob = sh_blob s,
         sh_meta = [(''original_kind'', JStr (sh_kind s)), (''key'', JStr ?k)]\<rparr> # r1" "n = Suc n1"
      using Cons.prems(2) by (auto simp: Let_def split: prod.splits)
    with Cons.IH [of vs r1 n1] Cons.prems(1) True show ?thesis by simp
  next
    case False
    then obtain r1 where "delta_loop command a ss (aput ?k (sh_blob s) vs) = (r1, n, vs')" "r = s # r1"
      using Cons.prems(2) by (auto simp: Let_def split: prod.splits)
    with Cons.IH [of "aput ?k (sh_blob s) vs" r1 n] Cons.prems(1) show ?thesis by simp
  qed
qed simp

section \<open>Properties\<close>

definition ex_args :: pf_args where
  "ex_args = \<lparr>pa_mission = ''m'', pa_symbol = ''f'', pa_path = [], pa_start_line = 0, pa_n = 0, pa_query = [],
     pa_top_k = 0, pa_depth = [], pa_prompt = [], pa_section = 0\<rparr>"

definition ex_req :: "string \<Rightarrow> pf_request" where
  "ex_req c = \<lparr>pr_type = ''request'', pr_command = c, pr_args = ex_args\<rparr>"

text \<open> When the digest does not collide, every shard of a page-fault response names a blob
  that can be fetched afterwards, and the mission's byte meter grows by exactly the sizes of
  the shards served. \<close>

theorem pf_shards_fetchable:
  assumes "blob_ok sha root UNIV d" "pf_handle sha ul root ix ps req (ms, d) = (Inr resp, ms', d')"
  shows "(\<forall>s \<in> set (pp_shards resp). \<exists>v. sh_blob s = sha (json_text v) \<and> blob_get root (sh_blob s) d' = Inr (json_text v))
    \<and> mm_bytes (get_metrics (pa_mission (pr_args req)) ms') =
        mm_bytes (get_metrics (pa_mission (pr_args req)) ms) + sum_list (map (shard_size root d') (pp_shards resp))"
  using pf_handle_serves [OF assms] unfolding shards_ok_def .

lemma ex_disk_ok: "blob_ok hex_sha ''h'' UNIV ex_disk"
proof -
  have "\<not> blob_exists ''h'' (hex_sha c) ex_disk" for c
  proof
    assume "blob_exists ''h'' (hex_sha c) ex_disk"
    moreover have "blob_path ''h'' (hex_sha c) = ''h/blobs/sha256/'' @ hex_sha c"
    proof -
      have "clean_comps (rooted ''h'') [] (split_on CHR ''/'' ''h'') = [''h'']" "\<not> rooted ''h''" by code_simp+
      moreover have "list_all plain_name [''blobs'', ''sha256'', hex_sha c]"
        using hex_sha_plain [of c] by (simp add: plain_name_def)
      ultimately show ?thesis using path_join_root [of "''h''" "[''blobs'', ''sha256'', hex_sha c]"]
        by (simp add: blob_path_def)
    qed
    ultimately show False by (auto simp: blob_exists_def os_stat_def ex_disk_def hex_sha_def)
  qed
  then show ?thesis using hex_sha_inj hex_sha_plain by (simp add: blob_ok_def)
qed

theorem pf_shards_fetchable_witness:
  "\<exists>resp ms' d'. pf_handle hex_sha id ''h'' ex_index [] (ex_req ''PF_TESTS'') ([], ex_disk) = (Inr resp, ms', d')
    \<and> (\<forall>s \<in> set (pp_shards resp). \<exists>v. sh_blob s = hex_sha (json_text v) \<and> blob_get ''h'' (sh_blob s) d' = Inr (json_text v))"
proof -
  have "(case fst (pf_handle hex_sha id ''h'' ex_index [] (ex_req ''PF_TESTS'') ([], ex_disk)) of
      Inl e \<Rightarrow> False | Inr r \<Rightarrow> True)" by code_simp
  then obtain resp ms' d' where h: "pf_handle hex_sha id ''h'' ex_index [] (ex_req ''PF_TESTS'') ([], ex_disk) = (Inr resp, ms', d')"
    by (auto split: sum.splits) (metis prod.collapse)
  from pf_shards_fetchable [OF ex_disk_ok h] h show ?thesis by blast
qed



text \<open> C13: a client that remembers the last blob it saw under each key recovers, from a response
  with sentinels, exactly the blobs of the response without them, and is left with the
  tracker's versions; the hit count is the number of sentinels. \<close>

theorem delta_tracker_lossless:
  assumes "list_all (\<lambda>s. sh_kind s \<noteq> ''unchanged'') ss" "delta_loop command a ss vs = (r, n, vs')"
  shows "client_decode command a r vs = Some (map sh_blob ss, vs')
    \<and> n = length (filter (\<lambda>s. sh_kind s = ''unchanged'') r)"
  by (rule client_decode_delta_loop [OF assms])

definition ex_shard :: "string \<Rightarrow> blob_id \<Rightarrow> shard" where
  "ex_shard k b = \<lparr>sh_kind = k, sh_blob = b, sh_meta = []\<rparr>"

theorem delta_tracker_lossless_witness:
  "client_decode ''PF_CALLERS'' ex_args
     (fst (delta_loop ''PF_CALLERS'' ex_args [ex_shard ''callers'' ''b1''] [(''callers:f'', ''b1'')]))
     [(''callers:f'', ''b1'')] = Some ([''b1''], [(''callers:f'', ''b1'')])"
proof -
  obtain r n vs' where d: "delta_loop ''PF_CALLERS'' ex_args [ex_shard ''callers'' ''b1''] [(''callers:f'', ''b1'')] = (r, n, vs')"
    by (rule prod_cases3)
  have v: "vs' = [(''callers:f'', ''b1'')]"
    using d by (simp add: ex_shard_def shard_key_def ex_args_def Let_def)
  have "list_all (\<lambda>s. sh_kind s \<noteq> ''unchanged'') [ex_shard ''callers'' ''b1'']" by (simp add: ex_shard_def)
  from delta_tracker_lossless [OF this d] d v show ?thesis by (simp add: ex_shard_def)
qed

text \<open> The shards of one \<open>PF_SYMDEF\<close> response share a key, so a definition and a different
  test list overwrite each other's version: repeating the request with nothing changed never
  gives a sentinel. \<close>

theorem symdef_never_unchanged:
  assumes "sh_blob s1 \<noteq> sh_blob s2" "delta_loop ''PF_SYMDEF'' a [s1, s2] vs = (r, n, vs')"
  shows "fst (snd (delta_loop ''PF_SYMDEF'' a [s1, s2] vs')) = 0"
proof -
  have k: "shard_key x ''PF_SYMDEF'' a = ''symdef:'' @ pa_symbol a" for x by (simp add: shard_key_def)
  have "map_of vs' (''symdef:'' @ pa_symbol a) = Some (sh_blob s2)"
    using assms by (auto simp: k Let_def split: if_splits)
  then show ?thesis using assms(1) by (simp add: k Let_def)
qed

theorem symdef_never_unchanged_witness:
  "fst (snd (delta_loop ''PF_SYMDEF'' ex_args [ex_shard ''symdef'' ''b1'', ex_shard ''tests'' ''b2''] [(''symdef:f'', ''b2'')])) = 0"
proof -
  have "sh_blob (ex_shard ''symdef'' ''b1'') \<noteq> sh_blob (ex_shard ''tests'' ''b2'')" by (simp add: ex_shard_def)
  moreover have "delta_loop ''PF_SYMDEF'' ex_args [ex_shard ''symdef'' ''b1'', ex_shard ''tests'' ''b2''] []
      = ([ex_shard ''symdef'' ''b1'', ex_shard ''tests'' ''b2''], 0, [(''symdef:f'', ''b2'')])"
    by (simp add: ex_shard_def shard_key_def ex_args_def)
  ultimately show ?thesis by (rule symdef_never_unchanged)
qed

text \<open>The byte limit is checked before the shards are known: the last response may overshoot
  it, and then reports a negative number of bytes left.\<close>

lemma governor_bytes_overshoot:
  "map_sum (\<lambda>_. ()) (\<lambda>r. map_option bl_bytes (pm_budget (pp_meta r)))
     (fst (governor_handle hex_sha id ''h'' ex_index [] \<lparr>gc_calls = 5, gc_bytes = 1\<rparr> (ex_req ''PF_TESTS'') ([], ex_disk)))
   = Inr (Some (- 1))"
  by code_simp

end
