(* ===== verification/Heaven_Server.thy ===== *)
theory Heaven_Server
  imports Lease_Manager File_Clock PF_Router
begin

text \<open>
  The daemon, \<open>heaven/server.go\<close>: the state of all stores, one definition per HTTP handler
  and the boot. A request is given by what its handler reads from it: the decoded JSON body
  (\<open>None\<close> when decoding fails), the raw body (\<open>None\<close> when reading it fails), path values and
  query strings. A response is the status with a value; of a formatted error message only
  the fixed part is kept. A panic in a handler is recovered by \<open>net/http\<close>: the connection
  drops and the state reached so far stays.

  The environment holds what is fixed for a daemon, the input what the run-time system
  supplies to one request.
\<close>

section \<open>State, requests and responses\<close>

record env =
  en_sha :: "string \<Rightarrow> string"
  en_ul :: "string \<Rightarrow> string"
  en_root :: path
  en_parse :: "string \<Rightarrow> string \<Rightarrow> string + node"

record input =
  in_now :: string
  in_ids :: "nat \<Rightarrow> string"
  in_walk :: "path \<Rightarrow> fs_tree"

record server =
  sv_disk :: disk
  sv_index :: ir_index
  sv_leases :: lease_state
  sv_clocks :: clocks
  sv_prompts :: prompts
  sv_meters :: meters
  sv_rev :: int

record acquire_req =
  aq_owner :: string
  aq_mission :: string
  aq_scopes :: "scope_target list"

record manifest_req =
  mr_owner :: string
  mr_mission :: string
  mr_symbols :: "string list"
  mr_files :: "string list"
  mr_clocks :: "clocks option"

record manifest_resp =
  mv_allowed :: bool
  mv_reason :: string
  mv_missing :: "string list"
  mv_drift :: "string list"

datatype request =
    Get_Status
  | Put_Blob "string option"
  | Get_Blob string
  | Append_Event "string option"
  | Tail_Events string
  | IR_Build "path option"
  | IR_Symdef string
  | IR_Callers string string
  | IR_Slice path string string
  | IR_Search string string
  | Page_Fault "pf_request option"
  | Lease_Acquire "acquire_req option"
  | Lease_Release "string list option"
  | Lease_List string
  | Clock_Get "path list option"
  | Clock_Inc "path list option"
  | Validate_Manifest "manifest_req option"
  | Prompt_Put "string option"
  | Prompt_Fetch_Req string
  | Prompt_Section_Req string string
  | Prompt_Reconstruct_Req string

datatype response =
    R_Error nat string
  | R_Panic go_panic
  | R_Status int nat "(string \<times> string) list"
  | R_Blob_Id blob_id
  | R_Blob blob_id string
  | R_Offset nat
  | R_Events "string list"
  | R_Indexed nat index_stats
  | R_Symbols "symbol list"
  | R_Refs "reference list"
  | R_Content string
  | R_PF pf_response
  | R_Acquired acquire_result
  | R_Released nat
  | R_Leases "lease list"
  | R_Clocks clocks
  | R_Manifest manifest_resp
  | R_Prompt prompt_artifact
  | R_Section prompt_section
  | R_Raw string string

text \<open>Query parameters such as \<open>top_k\<close>: absent gives the default, otherwise a number of at
  least one.\<close>

definition int_param :: "int \<Rightarrow> string \<Rightarrow> int option" where
  "int_param dflt s =
     (if s = [] then Some dflt
      else case atoi s of None \<Rightarrow> None | Some i \<Rightarrow> if i < 1 then None else Some i)"

definition bump_rev :: "server \<Rightarrow> server" where
  "bump_rev s = s\<lparr>sv_rev := sv_rev s + 1\<rparr>"

section \<open>Blobs and events\<close>

definition handle_status :: "server \<Rightarrow> response \<times> server" where
  "handle_status s =
     (R_Status (sv_rev s) (active_count (sv_leases s))
        (map (\<lambda>(k, v). (k, itoa v)) (clock_summary (sv_clocks s))), s)"

definition handle_put_blob :: "env \<Rightarrow> string option \<Rightarrow> server \<Rightarrow> response \<times> server" where
  "handle_put_blob en body s =
     (case body of
        None \<Rightarrow> (R_Error 400 ''read body'', s)
      | Some b \<Rightarrow>
          (let b' = take (10 * 1024 * 1024) b
           in if b' = [] then (R_Error 400 ''empty body'', s)
              else case blob_put (en_sha en) (en_root en) b' (sv_disk s) of
                (Inl e, d) \<Rightarrow> (R_Error 500 [], s\<lparr>sv_disk := d\<rparr>)
              | (Inr bid, d) \<Rightarrow> (R_Blob_Id bid, bump_rev (s\<lparr>sv_disk := d\<rparr>))))"

definition handle_get_blob :: "env \<Rightarrow> string \<Rightarrow> server \<Rightarrow> response \<times> server" where
  "handle_get_blob en bid s =
     (if bid = [] then (R_Error 400 ''missing blob id'', s)
      else case blob_get (en_root en) bid (sv_disk s) of
        Inl e \<Rightarrow> (R_Error 404 ''blob not found'', s)
      | Inr c \<Rightarrow> (R_Blob bid c, s))"

definition handle_append_event :: "env \<Rightarrow> string option \<Rightarrow> server \<Rightarrow> response \<times> server" where
  "handle_append_event en body s =
     (case body of
        None \<Rightarrow> (R_Error 400 ''read body'', s)
      | Some b \<Rightarrow>
          (let b' = take (1 * 1024 * 1024) b
           in if \<not> json_valid b' then (R_Error 400 ''invalid JSON'', s)
              else case el_append (en_root en) b' (sv_disk s) of
                (Inl e, d) \<Rightarrow> (R_Error 500 [], s\<lparr>sv_disk := d\<rparr>)
              | (Inr off, d) \<Rightarrow> (R_Offset off, bump_rev (s\<lparr>sv_disk := d\<rparr>))))"

definition handle_tail_events :: "env \<Rightarrow> string \<Rightarrow> server \<Rightarrow> response \<times> server" where
  "handle_tail_events en n s =
     (case int_param 10 n of
        None \<Rightarrow> (R_Error 400 ''invalid n parameter'', s)
      | Some k \<Rightarrow>
          (case el_tail (en_root en) k (sv_disk s) of
             Inl (Log_Panic p) \<Rightarrow> (R_Panic p, s)
           | Inl e \<Rightarrow> (R_Error 500 [], s)
           | Inr es \<Rightarrow> (R_Events es, s)))"

section \<open>The symbol index\<close>

definition handle_ir_build :: "env \<Rightarrow> input \<Rightarrow> path option \<Rightarrow> server \<Rightarrow> response \<times> server" where
  "handle_ir_build en inp repo s =
     (case repo of
        None \<Rightarrow> (R_Error 400 ''invalid request'', s)
      | Some p \<Rightarrow>
          (if p = [] then (R_Error 400 ''repo_path is required'', s)
           else case build_index (en_sha en) (en_parse en) (sv_disk s) (in_walk inp p) (sv_index s) of
             (n, Some e, ix) \<Rightarrow> (R_Error 500 ''index build'', s\<lparr>sv_index := ix\<rparr>)
           | (n, None, ix) \<Rightarrow>
               (case stats ix of
                  Inl e \<Rightarrow> (R_Error 500 ''stats'', s\<lparr>sv_index := ix\<rparr>)
                | Inr st \<Rightarrow> (R_Indexed n st, bump_rev (s\<lparr>sv_index := ix\<rparr>)))))"

definition handle_ir_symdef :: "string \<Rightarrow> server \<Rightarrow> response \<times> server" where
  "handle_ir_symdef name s =
     (if name = [] then (R_Error 400 ''name parameter is required'', s)
      else case symdef name (sv_index s) of Inl e \<Rightarrow> (R_Error 500 [], s) | Inr ss \<Rightarrow> (R_Symbols ss, s))"

definition handle_ir_callers :: "string \<Rightarrow> string \<Rightarrow> server \<Rightarrow> response \<times> server" where
  "handle_ir_callers name k s =
     (if name = [] then (R_Error 400 ''name parameter is required'', s)
      else case int_param 20 k of
        None \<Rightarrow> (R_Error 400 ''invalid top_k parameter'', s)
      | Some top_k \<Rightarrow>
          (case callers name top_k (sv_index s) of Inl e \<Rightarrow> (R_Error 500 [], s) | Inr rs \<Rightarrow> (R_Refs rs, s)))"

definition handle_ir_slice :: "path \<Rightarrow> string \<Rightarrow> string \<Rightarrow> server \<Rightarrow> response \<times> server" where
  "handle_ir_slice p start n s =
     (if p = [] then (R_Error 400 ''path parameter is required'', s)
      else case int_param 1 start of
        None \<Rightarrow> (R_Error 400 ''invalid start_line parameter'', s)
      | Some start_line \<Rightarrow>
          (case int_param 20 n of
             None \<Rightarrow> (R_Error 400 ''invalid n parameter'', s)
           | Some n_lines \<Rightarrow>
               (case slice_lines p start_line n_lines (sv_disk s) of
                  Inl (IR_Panic x) \<Rightarrow> (R_Panic x, s)
                | Inl e \<Rightarrow> (R_Error 404 [], s)
                | Inr c \<Rightarrow> (R_Content c, s))))"

definition handle_ir_search :: "string \<Rightarrow> string \<Rightarrow> server \<Rightarrow> response \<times> server" where
  "handle_ir_search query k s =
     (if query = [] then (R_Error 400 ''q parameter is required'', s)
      else case int_param 20 k of
        None \<Rightarrow> (R_Error 400 ''invalid top_k parameter'', s)
      | Some top_k \<Rightarrow>
          (case search_symbols query top_k (sv_index s) of
             Inl e \<Rightarrow> (R_Error 500 [], s) | Inr ss \<Rightarrow> (R_Symbols ss, s)))"

section \<open>Page faults\<close>

definition handle_pf :: "env \<Rightarrow> pf_request option \<Rightarrow> server \<Rightarrow> response \<times> server" where
  "handle_pf en req s =
     (case req of
        None \<Rightarrow> (R_Error 400 ''invalid PF request'', s)
      | Some r \<Rightarrow>
          (case pf_handle (en_sha en) (en_ul en) (en_root en) (sv_index s) (sv_prompts s) r (sv_meters s, sv_disk s) of
             (Inl (PF_IR (IR_Panic x)), ms, d) \<Rightarrow> (R_Panic x, s\<lparr>sv_meters := ms, sv_disk := d\<rparr>)
           | (Inl e, ms, d) \<Rightarrow> (R_Error 400 [], s\<lparr>sv_meters := ms, sv_disk := d\<rparr>)
           | (Inr resp, ms, d) \<Rightarrow> (R_PF resp, bump_rev (s\<lparr>sv_meters := ms, sv_disk := d\<rparr>))))"

section \<open>Leases and clocks\<close>

definition handle_lease_acquire :: "env \<Rightarrow> input \<Rightarrow> acquire_req option \<Rightarrow> server \<Rightarrow> response \<times> server" where
  "handle_lease_acquire en inp req s =
     (case req of
        None \<Rightarrow> (R_Error 400 ''invalid request'', s)
      | Some q \<Rightarrow>
          (if aq_owner q = [] \<or> aq_mission q = [] \<or> aq_scopes q = []
           then (R_Error 400 ''owner_id, mission_id, and scopes are required'', s)
           else (let (r, ls, evs) = acquire (in_ids inp) (in_now inp) (aq_owner q) (aq_mission q) (aq_scopes q) (sv_leases s);
                     s' = s\<lparr>sv_leases := ls, sv_disk := log_each (en_root en) evs (sv_disk s)\<rparr>
                 in case r of Inl p \<Rightarrow> (R_Panic p, s') | Inr res \<Rightarrow> (R_Acquired res, bump_rev s'))))"

definition handle_lease_release :: "env \<Rightarrow> string list option \<Rightarrow> server \<Rightarrow> response \<times> server" where
  "handle_lease_release en ids s =
     (case ids of
        None \<Rightarrow> (R_Error 400 ''invalid request'', s)
      | Some is' \<Rightarrow>
          (let (n, ls, evs) = release is' (sv_leases s)
           in (R_Released n, bump_rev (s\<lparr>sv_leases := ls, sv_disk := log_each (en_root en) evs (sv_disk s)\<rparr>))))"

definition handle_lease_list :: "string \<Rightarrow> server \<Rightarrow> response \<times> server" where
  "handle_lease_list active s = (R_Leases (lease_list (active \<noteq> ''false'') (sv_leases s)), s)"

definition handle_clock_get :: "path list option \<Rightarrow> server \<Rightarrow> response \<times> server" where
  "handle_clock_get ps s =
     (case ps of
        None \<Rightarrow> (R_Error 400 ''invalid request'', s)
      | Some ps' \<Rightarrow> (R_Clocks (clock_get ps' (sv_clocks s)), s))"

definition handle_clock_inc :: "env \<Rightarrow> path list option \<Rightarrow> server \<Rightarrow> response \<times> server" where
  "handle_clock_inc en ps s =
     (case ps of
        None \<Rightarrow> (R_Error 400 ''invalid request'', s)
      | Some ps' \<Rightarrow>
          (if ps' = [] then (R_Error 400 ''paths required'', s)
           else case clock_increment (en_root en) ps' (sv_clocks s, sv_disk s) of
             (Some e, m, d) \<Rightarrow> (R_Error 500 [], s\<lparr>sv_clocks := m, sv_disk := d\<rparr>)
           | (None, m, d) \<Rightarrow> (R_Clocks (clock_get ps' m), bump_rev (s\<lparr>sv_clocks := m, sv_disk := d\<rparr>))))"

section \<open>Manifests\<close>

definition missing_leases :: "manifest_req \<Rightarrow> lease_state \<Rightarrow> string list" where
  "missing_leases q ls =
     map (\<lambda>x. ''symbol:'' @ x) (filter (\<lambda>x. \<not> owner_holds (mr_owner q) ''symbol'' x ls) (mr_symbols q)) @
     map (\<lambda>x. ''file:'' @ x) (filter (\<lambda>x. \<not> owner_holds (mr_owner q) ''file'' x ls) (mr_files q))"

definition clock_drift :: "manifest_req \<Rightarrow> clocks \<Rightarrow> string list" where
  "clock_drift q m =
     (case mr_clocks q of
        None \<Rightarrow> []
      | Some ex \<Rightarrow>
          (let cur = clock_get (map fst ex) m
           in map (\<lambda>(p, v). p @ '': expected='' @ itoa v @ '' actual='' @ itoa (clock_of cur p))
                (filter (\<lambda>(p, v). clock_of cur p \<noteq> v) ex)))"

definition handle_validate_manifest :: "manifest_req option \<Rightarrow> server \<Rightarrow> response \<times> server" where
  "handle_validate_manifest req s =
     (case req of
        None \<Rightarrow> (R_Error 400 ''invalid request'', s)
      | Some q \<Rightarrow>
          (if mr_owner q = [] then (R_Error 400 ''owner_id is required'', s)
           else (let missing = missing_leases q (sv_leases s); drift = clock_drift q (sv_clocks s)
                 in if missing = [] \<and> drift = []
                    then (R_Manifest \<lparr>mv_allowed = True, mv_reason = [], mv_missing = [], mv_drift = []\<rparr>, s)
                    else (let r1 = (if missing \<noteq> [] then ''missing leases'' else []);
                              r2 = (if drift \<noteq> [] then (if r1 \<noteq> [] then r1 @ ''; '' else r1) @ ''file clock drift'' else r1)
                          in (R_Manifest \<lparr>mv_allowed = False, mv_reason = r2, mv_missing = missing, mv_drift = drift\<rparr>, s)))))"

section \<open>Prompts\<close>

definition handle_prompt_store :: "env \<Rightarrow> input \<Rightarrow> string option \<Rightarrow> server \<Rightarrow> response \<times> server" where
  "handle_prompt_store en inp body s =
     (case body of
        None \<Rightarrow> (R_Error 400 ''read body'', s)
      | Some b \<Rightarrow>
          (let b' = take (10 * 1024 * 1024) b
           in if b' = [] then (R_Error 400 ''empty body'', s)
              else case prompt_store (en_sha en) (en_ul en) (en_root en) (in_now inp) b' (sv_prompts s, sv_disk s) of
                (Inl e, ps, d) \<Rightarrow> (R_Error 500 [], s\<lparr>sv_prompts := ps, sv_disk := d\<rparr>)
              | (Inr a, ps, d) \<Rightarrow> (R_Prompt a, bump_rev (s\<lparr>sv_prompts := ps, sv_disk := d\<rparr>))))"

definition handle_prompt_get :: "string \<Rightarrow> server \<Rightarrow> response \<times> server" where
  "handle_prompt_get pid s =
     (if pid = [] then (R_Error 400 ''missing prompt id'', s)
      else case prompt_get pid (sv_prompts s) of Inl e \<Rightarrow> (R_Error 404 [], s) | Inr a \<Rightarrow> (R_Prompt a, s))"

definition handle_prompt_section :: "string \<Rightarrow> string \<Rightarrow> server \<Rightarrow> response \<times> server" where
  "handle_prompt_section pid idx s =
     (if pid = [] \<or> idx = [] then (R_Error 400 ''missing prompt id or section index'', s)
      else case atoi idx of
        None \<Rightarrow> (R_Error 400 ''invalid section index'', s)
      | Some i \<Rightarrow>
          (case prompt_get_section pid i (sv_prompts s) of Inl e \<Rightarrow> (R_Error 404 [], s) | Inr x \<Rightarrow> (R_Section x, s)))"

definition handle_prompt_reconstruct :: "env \<Rightarrow> string \<Rightarrow> server \<Rightarrow> response \<times> server" where
  "handle_prompt_reconstruct en pid s =
     (if pid = [] then (R_Error 400 ''missing prompt id'', s)
      else case prompt_reconstruct (en_sha en) (en_root en) pid (sv_prompts s, sv_disk s) of
        Inl e \<Rightarrow> (R_Error 404 [], s)
      | Inr raw \<Rightarrow> (R_Raw pid raw, s))"

section \<open>The daemon\<close>

text \<open>The routing table: each request goes to its handler.\<close>

fun serve :: "env \<Rightarrow> input \<Rightarrow> request \<Rightarrow> server \<Rightarrow> response \<times> server" where
  "serve en inp Get_Status s = handle_status s"
| "serve en inp (Put_Blob b) s = handle_put_blob en b s"
| "serve en inp (Get_Blob i) s = handle_get_blob en i s"
| "serve en inp (Append_Event b) s = handle_append_event en b s"
| "serve en inp (Tail_Events n) s = handle_tail_events en n s"
| "serve en inp (IR_Build p) s = handle_ir_build en inp p s"
| "serve en inp (IR_Symdef n) s = handle_ir_symdef n s"
| "serve en inp (IR_Callers n k) s = handle_ir_callers n k s"
| "serve en inp (IR_Slice p a n) s = handle_ir_slice p a n s"
| "serve en inp (IR_Search q k) s = handle_ir_search q k s"
| "serve en inp (Page_Fault r) s = handle_pf en r s"
| "serve en inp (Lease_Acquire q) s = handle_lease_acquire en inp q s"
| "serve en inp (Lease_Release is') s = handle_lease_release en is' s"
| "serve en inp (Lease_List a) s = handle_lease_list a s"
| "serve en inp (Clock_Get ps) s = handle_clock_get ps s"
| "serve en inp (Clock_Inc ps) s = handle_clock_inc en ps s"
| "serve en inp (Validate_Manifest q) s = handle_validate_manifest q s"
| "serve en inp (Prompt_Put b) s = handle_prompt_store en inp b s"
| "serve en inp (Prompt_Fetch_Req i) s = handle_prompt_get i s"
| "serve en inp (Prompt_Section_Req i k) s = handle_prompt_section i k s"
| "serve en inp (Prompt_Reconstruct_Req i) s = handle_prompt_reconstruct en i s"

datatype boot_error = Boot_Blobs blob_error | Boot_Log log_error | Boot_Index ir_error

text \<open>\<open>NewServer\<close> on a data directory whose database holds \<open>ix\<close>. The prompts and the meters
  are not persisted, and the revision restarts at the number of logged events.\<close>

definition new_server :: "env \<Rightarrow> ir_index \<Rightarrow> disk \<Rightarrow> boot_error + server" where
  "new_server en ix d =
     (case new_blob_store (en_root en) d of
        Inl e \<Rightarrow> Inl (Boot_Blobs e)
      | Inr d1 \<Rightarrow>
          (case new_event_log (en_root en) d1 of
             Inl e \<Rightarrow> Inl (Boot_Log e)
           | Inr d2 \<Rightarrow>
               (if ir_fault ix then Inl (Boot_Index DB_Error)
                else case new_lease_manager (en_root en) d2 of
                  Inl e \<Rightarrow> Inl (Boot_Log e)
                | Inr ls \<Rightarrow>
                    (case new_file_clock (en_root en) d2 of
                       Inl e \<Rightarrow> Inl (Boot_Log e)
                     | Inr m \<Rightarrow>
                         (case el_len (en_root en) d2 of
                            Inl e \<Rightarrow> Inl (Boot_Log e)
                          | Inr n \<Rightarrow> Inr \<lparr>sv_disk = d2, sv_index = ix, sv_leases = ls, sv_clocks = m,
                                          sv_prompts = [], sv_meters = [], sv_rev = int n\<rparr>)))))"

section \<open>Events of other components\<close>





lemma same_key_pf [simp]:
  "\<not> same_key ''command'' ''type''" "\<not> same_key ''shard_bytes'' ''type''" "\<not> same_key ''shard_count'' ''type''"
  by code_simp+










section \<open>The running daemon and its log\<close>

definition heaven_sync :: "env \<Rightarrow> server \<Rightarrow> bool" where
  "heaven_sync en s \<longleftrightarrow>
     en_root en \<noteq> [] \<and> (\<forall>c. plain_name (en_sha en c)) \<and>
     log_good (en_root en) (sv_disk s) \<and>
     new_lease_manager (en_root en) (sv_disk s) = Inr (sv_leases s) \<and>
     new_file_clock (en_root en) (sv_disk s) = Inr (sv_clocks s) \<and>
     lease_inv (sv_leases s)"



text \<open>Writing blobs does not touch the log.\<close>

lemma blobs_only_log:
  assumes "blobs_only sha root d d'" "root \<noteq> []" "\<forall>c. plain_name (sha c)"
  shows "log_good root d' = log_good root d" "el_all root d' = el_all root d"
proof -
  have r: "reads d' (el_path root) = reads d (el_path root)"
    using assms el_path_not_blob [OF assms(2)] unfolding blobs_only_def by metis
  have e: "d_dirs d' = d_dirs d" "d_bad d' = d_bad d" using assms(1) by (simp_all add: blobs_only_def)
  show "log_good root d' = log_good root d" by (simp only: log_good_def r e)
  have "read_file d' (el_path root) = read_file d (el_path root)"
    using r e unfolding reads_alt read_file_def by (auto split: if_splits option.splits)
  then show "el_all root d' = el_all root d" by (simp add: el_all_def)
qed




lemma bump_rev_sync [simp]: "heaven_sync en (bump_rev s) = heaven_sync en s"
  by (simp add: heaven_sync_def bump_rev_def)












section \<open>Runs of the daemon\<close>




section \<open>Properties\<close>

definition ex_env :: env where
  "ex_env = \<lparr>en_sha = hex_sha, en_ul = id, en_root = ''h'', en_parse = ex_parse\<rparr>"

definition ex_server :: server where
  "ex_server = \<lparr>sv_disk = ex_disk, sv_index = ex_index, sv_leases = no_leases, sv_clocks = [],
     sv_prompts = [], sv_meters = [], sv_rev = 0\<rparr>"

lemma ex_server_sync: "heaven_sync ex_env ex_server"
proof -
  have p: "el_path ''h'' = ''h/events.log''" "path_dir ''h/events.log'' = ''h''" by code_simp+
  then show ?thesis
    by (simp add: heaven_sync_def ex_env_def ex_server_def hex_sha_plain log_good_def reads_alt ex_disk_def
        new_lease_manager_def new_file_clock_def el_all_def read_file_def)
qed



text \<open> A manifest is allowed exactly when its owner holds a lease on every touched symbol and
  file and every expected clock has its current value; validating changes nothing. \<close>

theorem validate_manifest_allows:
  assumes "mr_owner q \<noteq> []" "handle_validate_manifest (Some q) s = (R_Manifest v, s')"
  shows "s' = s \<and> (mv_allowed v \<longleftrightarrow>
    (\<forall>x \<in> set (mr_symbols q). holder (sv_leases s) (scope_key ''symbol'' x) = Some (mr_owner q)) \<and>
    (\<forall>x \<in> set (mr_files q). holder (sv_leases s) (scope_key ''file'' x) = Some (mr_owner q)) \<and>
    (\<forall>ex. mr_clocks q = Some ex \<longrightarrow> (\<forall>(p, c) \<in> set ex. clock_of (sv_clocks s) p = c)))"
proof -
  have m: "missing_leases q (sv_leases s) = [] \<longleftrightarrow>
      (\<forall>x \<in> set (mr_symbols q). holder (sv_leases s) (scope_key ''symbol'' x) = Some (mr_owner q)) \<and>
      (\<forall>x \<in> set (mr_files q). holder (sv_leases s) (scope_key ''file'' x) = Some (mr_owner q))"
    by (simp add: missing_leases_def filter_empty_conv owner_holds_holder)
  have d: "clock_drift q (sv_clocks s) = [] \<longleftrightarrow>
      (\<forall>ex. mr_clocks q = Some ex \<longrightarrow> (\<forall>(p, c) \<in> set ex. clock_of (sv_clocks s) p = c))"
  proof (cases "mr_clocks q")
    case (Some ex)
    have "p \<in> set (map fst ex)" if "(p, c) \<in> set ex" for p c using that by force
    then show ?thesis using Some by (auto simp: clock_drift_def Let_def filter_empty_conv clock_of_get)
  qed (simp add: clock_drift_def)
  have a: "s' = s" "mv_allowed v \<longleftrightarrow> missing_leases q (sv_leases s) = [] \<and> clock_drift q (sv_clocks s) = []"
    using assms by (auto simp: handle_validate_manifest_def Let_def split: if_splits)
  show ?thesis by (simp only: a m d conj_assoc simp_thms)
qed

definition ex_manifest :: manifest_req where
  "ex_manifest = \<lparr>mr_owner = ''ann'', mr_mission = [], mr_symbols = [], mr_files = [''a''], mr_clocks = Some [(''a'', 0)]\<rparr>"

theorem validate_manifest_allows_witness:
  "fst (handle_validate_manifest (Some ex_manifest) ex_server)
     = R_Manifest \<lparr>mv_allowed = False, mv_reason = ''missing leases'', mv_missing = [''file:a''], mv_drift = []\<rparr>
   \<and> holder no_leases (scope_key ''file'' ''a'') \<noteq> Some ''ann''"
proof -
  have h: "handle_validate_manifest (Some ex_manifest) ex_server
      = (R_Manifest \<lparr>mv_allowed = False, mv_reason = ''missing leases'', mv_missing = [''file:a''], mv_drift = []\<rparr>, ex_server)"
    by (simp add: handle_validate_manifest_def ex_manifest_def ex_server_def missing_leases_def clock_drift_def
        owner_holds_def clock_get_def clock_of_def)
  have "mr_owner ex_manifest \<noteq> []" by (simp add: ex_manifest_def)
  from validate_manifest_allows [OF this h] h show ?thesis by (simp add: ex_manifest_def ex_server_def clock_of_def)
qed

text \<open> A request other than a page fault that is answered with a client error (400 or 404)
  leaves the daemon exactly as it was. \<close>

theorem rejected_requests_change_nothing:
  assumes "serve en inp req s = (R_Error c msg, s')" "c = 400 \<or> c = 404" "\<forall>r. req \<noteq> Page_Fault r"
  shows "s' = s"
  using assms
  by (cases req)
    (auto simp: handle_status_def handle_put_blob_def handle_get_blob_def handle_append_event_def handle_tail_events_def
      handle_ir_build_def handle_ir_symdef_def handle_ir_callers_def handle_ir_slice_def handle_ir_search_def
      handle_lease_acquire_def handle_lease_release_def handle_lease_list_def handle_clock_get_def handle_clock_inc_def
      handle_validate_manifest_def handle_prompt_store_def handle_prompt_get_def handle_prompt_section_def
      handle_prompt_reconstruct_def Let_def
      split: option.splits sum.splits prod.splits log_error.splits ir_error.splits if_splits)

theorem rejected_requests_change_nothing_witness:
  "snd (serve ex_env undefined (Get_Blob ''zz'') ex_server) = ex_server"
proof -
  have "serve ex_env undefined (Get_Blob ''zz'') ex_server = (R_Error 404 ''blob not found'', snd (serve ex_env undefined (Get_Blob ''zz'') ex_server))"
  proof -
    have "blob_path ''h'' ''zz'' = ''h/blobs/sha256/zz''" by code_simp
    then show ?thesis
      by (simp add: handle_get_blob_def ex_env_def ex_server_def blob_get_def read_file_def ex_disk_def)
  qed
  from rejected_requests_change_nothing [OF this] show ?thesis by simp
qed

text \<open> A blob id is not checked to be a digest: the id \<open>../../events.log\<close> reads the daemon's
  event log, from every root directory. \<close>

theorem blob_id_escapes_store:
  assumes "en_root en \<noteq> []" "read_file (sv_disk s) (el_path (en_root en)) = Inr c"
  shows "fst (handle_get_blob en ''../../events.log'' s) = R_Blob ''../../events.log'' c"
proof -
  let ?root = "en_root en"
  have sp: "split_on CHR ''/'' ''../../events.log'' = [''..'', ''..'', ''events.log'']" by code_simp
  have "blob_path ?root ''../../events.log'' = path_clean (?root @ CHR ''/'' # ''blobs/sha256/../../events.log'')"
    using assms(1) by (simp add: blob_path_def path_join_def)
  moreover have "path_clean (?root @ CHR ''/'' # ''blobs/sha256/../../events.log'') = path_clean (?root @ CHR ''/'' # ''events.log'')"
  proof -
    have a: "split_on CHR ''/'' ''blobs/sha256/../../events.log'' = [''blobs'', ''sha256'', ''..'', ''..'', ''events.log'']"
      "split_on CHR ''/'' ''events.log'' = [''events.log'']" by code_simp+
    have "clean_comps r [] (split_on CHR ''/'' (?root @ CHR ''/'' # ''blobs/sha256/../../events.log''))
        = clean_comps r [] (split_on CHR ''/'' (?root @ CHR ''/'' # ''events.log''))" for r
      unfolding split_on_append a by (simp only: clean_comps_append) simp
    moreover have "rooted (?root @ CHR ''/'' # t) = rooted ?root" for t
      using assms(1) by (cases ?root) (auto simp: rooted_def has_prefix_def)
    ultimately show ?thesis unfolding path_clean_def Let_def by simp
  qed
  moreover have "path_clean (?root @ CHR ''/'' # ''events.log'') = el_path ?root"
    using assms(1) by (simp add: el_path_def path_join_def)
  ultimately have "blob_path ?root ''../../events.log'' = el_path ?root" by simp
  then show ?thesis using assms(2) by (simp add: handle_get_blob_def blob_get_def)
qed

theorem blob_id_escapes_store_witness:
  "fst (handle_get_blob ex_env ''../../events.log'' (ex_server\<lparr>sv_disk := ex_disk\<lparr>d_files := [(''h/events.log'', ''{}'')]\<rparr>\<rparr>))
     = R_Blob ''../../events.log'' ''{}''"
proof (rule blob_id_escapes_store)
  have "el_path ''h'' = ''h/events.log''" by code_simp
  then show "read_file (sv_disk (ex_server\<lparr>sv_disk := ex_disk\<lparr>d_files := [(''h/events.log'', ''{}'')]\<rparr>\<rparr>)) (el_path (en_root ex_env)) = Inr ''{}''"
    by (simp add: ex_env_def ex_disk_def read_file_def)
qed (simp add: ex_env_def)

text \<open> The revision counter is not rebuilt: it counts blobs and prompts too, so after storing a
  blob and booting again from the same data directory, the daemon reports a revision it has
  already passed, when it had counted no more than the logged events before. \<close>

theorem reboot_rewinds_revision:
  assumes "heaven_sync en s" "serve en inp (Put_Blob (Some b)) s = (R_Blob_Id i, s')"
    and "el_len (en_root en) (sv_disk s) = Inr n" "int n \<le> sv_rev s"
    and "new_blob_store (en_root en) (sv_disk s') = Inr (sv_disk s')"
    and "new_event_log (en_root en) (sv_disk s') = Inr (sv_disk s')"
    and "new_server en ix (sv_disk s') = Inr s2"
  shows "sv_rev s2 < sv_rev s'"
proof -
  obtain c d where p: "blob_put (en_sha en) (en_root en) c (sv_disk s) = (Inr i, d)" "s' = bump_rev (s\<lparr>sv_disk := d\<rparr>)"
    using assms(2) by (auto simp: handle_put_blob_def Let_def split: if_splits prod.splits sum.splits)
  have "blobs_only (en_sha en) (en_root en) (sv_disk s) d"
    using blobs_only_put [of "en_sha en" "en_root en" "sv_disk s" c] p(1) by simp
  from blobs_only_log(2) [OF this] assms(1) have "el_all (en_root en) d = el_all (en_root en) (sv_disk s)"
    by (simp add: heaven_sync_def)
  then have "el_len (en_root en) (sv_disk s') = Inr n"
    using assms(3) p(2) by (simp add: el_len_all bump_rev_def)
  then have "sv_rev s2 = int n"
    using assms(5,6,7) by (auto simp: new_server_def split: sum.splits if_splits)
  then show ?thesis using assms(4) p(2) by (simp add: bump_rev_def)
qed

theorem reboot_rewinds_revision_witness:
  "\<exists>i s' s2. serve ex_env undefined (Put_Blob (Some ''ab'')) ex_server = (R_Blob_Id i, s') \<and>
     new_server ex_env ex_index (sv_disk s') = Inr s2 \<and> sv_rev s2 < sv_rev s'"
proof -
  let ?d = "ex_disk\<lparr>d_files := [(''h/blobs/sha256/h6162'', ''ab'')]\<rparr>"
  let ?s = "ex_server\<lparr>sv_disk := ?d, sv_rev := 1\<rparr>"
  have "blob_put hex_sha ''h'' ''ab'' ex_disk = (Inr ''h6162'', ?d)" by code_simp
  then have s: "serve ex_env undefined (Put_Blob (Some ''ab'')) ex_server = (R_Blob_Id ''h6162'', ?s)"
    by (simp add: handle_put_blob_def ex_env_def ex_server_def bump_rev_def)
  have m: "new_blob_store (en_root ex_env) (sv_disk ?s) = Inr (sv_disk ?s)"
    "new_event_log (en_root ex_env) (sv_disk ?s) = Inr (sv_disk ?s)" by code_simp+
  have e: "el_path ''h'' = ''h/events.log''" by code_simp
  have l: "el_len (en_root ex_env) (sv_disk ex_server) = Inr 0" "el_len ''h'' ?d = Inr 0" "el_all ''h'' ?d = Inr []"
    by (simp_all add: el_len_def el_all_def e ex_env_def ex_server_def ex_disk_def read_file_def)
  have "new_server ex_env ex_index (sv_disk ?s) = Inr (ex_server\<lparr>sv_disk := ?d\<rparr>)"
    using m l by (simp add: new_server_def ex_env_def ex_server_def ex_index_def new_lease_manager_def new_file_clock_def)
  with reboot_rewinds_revision [OF ex_server_sync s l(1) _ m this] s show ?thesis by (auto simp: ex_server_def)
qed



end
