(* ===== verification/Heaven_Client.thy ===== *)
theory Heaven_Client
  imports Heaven_Server
begin

text \<open>
  The HTTP client of the daemon, \<open>god/heaven_client.go\<close>, against the model of the daemon
  itself: a call sends the request its method builds to \<open>serve\<close> and reads the response. The
  n-th exchange of a client is governed by a \<open>world\<close>: what other clients and processes did to
  the daemon and the files since the exchange before, whether the request or its response is
  lost, and what the run-time system supplies. A status other than 200, a dropped connection
  and a lost message are the same error to the callers, who only wrap it.

  Values are encoded and decoded faithfully by the JSON of both sides; a query string is put
  unescaped into the URL, and what the handler reads of it is the parameter \<open>w_query\<close>.
\<close>

section \<open>The world and the client\<close>

datatype wire = Lost_Request | Lost_Response | Delivered

record world =
  w_env :: env
  w_input :: "nat \<Rightarrow> input"
  w_others :: "nat \<Rightarrow> server \<Rightarrow> server"
  w_wire :: "nat \<Rightarrow> wire"
  w_query :: "string \<Rightarrow> string"
  w_now :: string
  w_ids :: "nat \<Rightarrow> string"
  w_io_text :: "path \<Rightarrow> io_error \<Rightarrow> string"

record client =
  ct_calls :: nat
  ct_server :: server

definition failure :: "response \<Rightarrow> bool" where
  "failure r = (case r of R_Error _ _ \<Rightarrow> True | R_Panic _ \<Rightarrow> True | _ \<Rightarrow> False)"

definition pause :: "world \<Rightarrow> client \<Rightarrow> client" where
  "pause w c = \<lparr>ct_calls = Suc (ct_calls c), ct_server = w_others w (ct_calls c) (ct_server c)\<rparr>"

definition exchange :: "world \<Rightarrow> request \<Rightarrow> client \<Rightarrow> response option \<times> client" where
  "exchange w req c =
     (let c1 = pause w c; (r, s') = serve (w_env w) (w_input w (ct_calls c)) req (ct_server c1)
      in case w_wire w (ct_calls c) of
           Lost_Request \<Rightarrow> (None, c1)
         | Lost_Response \<Rightarrow> (None, c1\<lparr>ct_server := s'\<rparr>)
         | Delivered \<Rightarrow> (if failure r then None else Some r, c1\<lparr>ct_server := s'\<rparr>))"

section \<open>The methods\<close>

definition client_ir_build :: "world \<Rightarrow> path \<Rightarrow> client \<Rightarrow> nat option \<times> client" where
  "client_ir_build w p c =
     (case exchange w (IR_Build (Some p)) c of
        (Some (R_Indexed n st), c') \<Rightarrow> (Some n, c') | (_, c') \<Rightarrow> (None, c'))"

definition client_ir_search :: "world \<Rightarrow> string \<Rightarrow> int \<Rightarrow> client \<Rightarrow> symbol list option \<times> client" where
  "client_ir_search w q k c =
     (case exchange w (IR_Search (w_query w q) (itoa k)) c of
        (Some (R_Symbols ss), c') \<Rightarrow> (Some ss, c') | (_, c') \<Rightarrow> (None, c'))"

definition client_ir_symdef :: "world \<Rightarrow> string \<Rightarrow> client \<Rightarrow> symbol list option \<times> client" where
  "client_ir_symdef w n c =
     (case exchange w (IR_Symdef (w_query w n)) c of
        (Some (R_Symbols ss), c') \<Rightarrow> (Some ss, c') | (_, c') \<Rightarrow> (None, c'))"

definition client_ir_callers :: "world \<Rightarrow> string \<Rightarrow> int \<Rightarrow> client \<Rightarrow> reference list option \<times> client" where
  "client_ir_callers w n k c =
     (case exchange w (IR_Callers (w_query w n) (itoa k)) c of
        (Some (R_Refs rs), c') \<Rightarrow> (Some rs, c') | (_, c') \<Rightarrow> (None, c'))"

definition client_lease_acquire ::
  "world \<Rightarrow> string \<Rightarrow> string \<Rightarrow> scope_target list \<Rightarrow> client \<Rightarrow> acquire_result option \<times> client" where
  "client_lease_acquire w owner mission scopes c =
     (case exchange w (Lease_Acquire (Some \<lparr>aq_owner = owner, aq_mission = mission, aq_scopes = scopes\<rparr>)) c of
        (Some (R_Acquired a), c') \<Rightarrow> (Some a, c') | (_, c') \<Rightarrow> (None, c'))"

definition client_validate :: "world \<Rightarrow> manifest_req \<Rightarrow> client \<Rightarrow> manifest_resp option \<times> client" where
  "client_validate w q c =
     (case exchange w (Validate_Manifest (Some q)) c of
        (Some (R_Manifest m), c') \<Rightarrow> (Some m, c') | (_, c') \<Rightarrow> (None, c'))"

definition client_clock_get :: "world \<Rightarrow> path list \<Rightarrow> client \<Rightarrow> clocks option \<times> client" where
  "client_clock_get w ps c =
     (case exchange w (Clock_Get (Some ps)) c of
        (Some (R_Clocks m), c') \<Rightarrow> (Some m, c') | (_, c') \<Rightarrow> (None, c'))"

definition client_clock_inc :: "world \<Rightarrow> path list \<Rightarrow> client \<Rightarrow> clocks option \<times> client" where
  "client_clock_inc w ps c =
     (case exchange w (Clock_Inc (Some ps)) c of
        (Some (R_Clocks m), c') \<Rightarrow> (Some m, c') | (_, c') \<Rightarrow> (None, c'))"

definition client_put_blob :: "world \<Rightarrow> string \<Rightarrow> client \<Rightarrow> blob_id option \<times> client" where
  "client_put_blob w b c =
     (case exchange w (Put_Blob (Some b)) c of
        (Some (R_Blob_Id i), c') \<Rightarrow> (Some i, c') | (_, c') \<Rightarrow> (None, c'))"

text \<open>Every caller ignores the error of appending an event.\<close>

definition client_append_event :: "world \<Rightarrow> json \<Rightarrow> client \<Rightarrow> client" where
  "client_append_event w ev c = snd (exchange w (Append_Event (Some (json_text ev))) c)"

definition client_get_status :: "world \<Rightarrow> client \<Rightarrow> (int \<times> nat \<times> (string \<times> string) list) option \<times> client" where
  "client_get_status w c =
     (case exchange w Get_Status c of
        (Some (R_Status r n clocks), c') \<Rightarrow> (Some (r, n, clocks), c') | (_, c') \<Rightarrow> (None, c'))"

definition client_tail_events :: "world \<Rightarrow> int \<Rightarrow> client \<Rightarrow> string list option \<times> client" where
  "client_tail_events w n c =
     (case exchange w (Tail_Events (itoa n)) c of
        (Some (R_Events es), c') \<Rightarrow> (Some es, c') | (_, c') \<Rightarrow> (None, c'))"

section \<open>What an exchange may do to the daemon\<close>

definition going :: "(server \<Rightarrow> server \<Rightarrow> bool) \<Rightarrow> client \<Rightarrow> client \<Rightarrow> bool" where
  "going R c d = R (ct_server c) (ct_server d)"

text \<open>A relation that others and requests of one kind respect is respected by the exchange.\<close>

locale guarantee =
  fixes kept :: "server \<Rightarrow> server \<Rightarrow> bool" and w :: world and allowed :: "request \<Rightarrow> bool"
  assumes keeps_refl: "kept s s"
    and keeps_trans: "kept s t \<Longrightarrow> kept t u \<Longrightarrow> kept s u"
    and keeps_others: "kept s (w_others w n s)"
    and keeps_serve: "allowed req \<Longrightarrow> kept s (snd (serve (w_env w) inp req s))"
begin

lemma going_refl: "going kept c c"
  by (simp add: going_def keeps_refl)

lemma going_trans: "going kept c d \<Longrightarrow> going kept d e \<Longrightarrow> going kept c e"
  unfolding going_def by (rule keeps_trans)

lemma going_pause: "going kept c (pause w c)"
  by (simp add: going_def pause_def keeps_others)

lemma going_exchange: "allowed req \<Longrightarrow> exchange w req c = (r, d) \<Longrightarrow> going kept c d"
  using keeps_others keeps_trans keeps_serve [of req]
  by (auto simp: exchange_def going_def pause_def Let_def split: prod.splits wire.splits if_splits) (metis snd_conv)+

lemma going_append: "allowed (Append_Event (Some (json_text ev))) \<Longrightarrow> going kept c (client_append_event w ev c)"
  using going_exchange [of "Append_Event (Some (json_text ev))" c] by (metis client_append_event_def surj_pair snd_conv)

end

lemma clock_inc_exchange: "client_clock_inc w ps c = (r, d) \<Longrightarrow> \<exists>x. exchange w (Clock_Inc (Some ps)) c = (x, d)"
  by (auto simp: client_clock_inc_def split: prod.splits option.splits response.splits)

lemma validate_exchange: "client_validate w q c = (r, d) \<Longrightarrow> \<exists>x. exchange w (Validate_Manifest (Some q)) c = (x, d)"
  by (auto simp: client_validate_def split: prod.splits option.splits response.splits)

text \<open>In a quiet world nobody else acts and every message arrives.\<close>

definition quiet :: "world \<Rightarrow> bool" where
  "quiet w \<longleftrightarrow> (\<forall>n s. w_others w n s = s) \<and> (\<forall>n. w_wire w n = Delivered)"

lemma quiet_pause: "quiet w \<Longrightarrow> ct_server (pause w c) = ct_server c"
  by (simp add: quiet_def pause_def)

lemma quiet_exchange:
  assumes "quiet w"
  shows "ct_server (snd (exchange w req c)) = snd (serve (w_env w) (w_input w (ct_calls c)) req (ct_server c))"
    and "fst (exchange w req c) =
      (let r = fst (serve (w_env w) (w_input w (ct_calls c)) req (ct_server c)) in if failure r then None else Some r)"
  using assms by (simp_all add: quiet_def exchange_def pause_def Let_def split: prod.splits)


section \<open>Events from end to end\<close>

text \<open>The events the client sends: objects that are well-formed and short enough for the scanner.\<close>

definition event_ok :: "json \<Rightarrow> bool" where
  "event_ok e \<longleftrightarrow> (\<exists>ms. e = JObj ms) \<and> json_ok e \<and> length (json_text e) < max_line"

lemma event_ok_fit: "event_ok e \<Longrightarrow> line_fit (json_text e)"
  by (auto simp: event_ok_def intro: json_obj_fit)

lemma quiet_append:
  assumes "quiet w" "event_ok e" "log_good (en_root (w_env w)) (sv_disk (ct_server c))"
    and "el_all (en_root (w_env w)) (sv_disk (ct_server c)) = Inr es"
  shows "log_good (en_root (w_env w)) (sv_disk (ct_server (client_append_event w e c)))"
    "el_all (en_root (w_env w)) (sv_disk (ct_server (client_append_event w e c))) = Inr (es @ [json_text e])"
proof -
  let ?root = "en_root (w_env w)" and ?d = "sv_disk (ct_server c)" and ?b = "json_text e"
  have fit: "line_fit ?b" by (rule event_ok_fit [OF assms(2)])
  obtain off d' where a: "el_append ?root ?b ?d = (Inr off, d')" "log_good ?root d'"
    using elog.append_good [OF assms(3) fit] by blast
  have "take (1 * 1024 * 1024) ?b = ?b" using assms(2) by (simp add: event_ok_def max_line_def)
  then have "sv_disk (ct_server (client_append_event w e c)) = d'"
    using fit a(1) by (simp add: client_append_event_def quiet_exchange [OF assms(1)] handle_append_event_def line_fit_def bump_rev_def)
  then show "log_good ?root (sv_disk (ct_server (client_append_event w e c)))"
    "el_all ?root (sv_disk (ct_server (client_append_event w e c))) = Inr (es @ [json_text e])"
    using a elog.append_all [OF assms(3) fit a(1) assms(4)] by simp_all
qed

text \<open> In a quiet world the events that the client appends are what it reads back: the last \<open>n\<close> events
  are the end of the log with the texts of the new events, in order, whatever was in the log before. \<close>

theorem client_reads_back_events:
  assumes "quiet w" "list_all event_ok evs" "log_good (en_root (w_env w)) (sv_disk (ct_server c))"
    and "el_all (en_root (w_env w)) (sv_disk (ct_server c)) = Inr es" "0 < n" "int n < 2 ^ 63"
  shows "fst (client_tail_events w (int n) (fold (client_append_event w) evs c)) =
    Some (drop (length es + length evs - n) (es @ map json_text evs))"
proof -
  let ?root = "en_root (w_env w)"
  have "el_all ?root (sv_disk (ct_server (fold (client_append_event w) evs c))) = Inr (es @ map json_text evs)"
    using assms(2-4)
  proof (induction evs arbitrary: c es)
    case (Cons e evs)
    then have e: "event_ok e" "list_all event_ok evs" by simp_all
    from Cons.IH [OF e(2) quiet_append [OF assms(1) e(1) Cons.prems(2,3)]] show ?case by simp
  qed simp
  then have "el_tail ?root (int n) (sv_disk (ct_server (fold (client_append_event w) evs c))) =
      Inr (drop (length es + length evs - n) (es @ map json_text evs))"
    by (simp add: el_tail_def)
  moreover have "int_param 10 (itoa (int n)) = Some (int n)"
    using assms(5,6) by (simp add: int_param_def atoi_itoa in_int64_def) (simp add: itoa_def)
  ultimately have "fst (exchange w (Tail_Events (itoa (int n))) (fold (client_append_event w) evs c)) =
      Some (R_Events (drop (length es + length evs - n) (es @ map json_text evs)))"
    by (simp add: quiet_exchange [OF assms(1)] handle_tail_events_def failure_def)
  then show ?thesis
    by (cases "exchange w (Tail_Events (itoa (int n))) (fold (client_append_event w) evs c)") (simp add: client_tail_events_def)
qed


definition quiet_world :: world where
  "quiet_world = \<lparr>w_env = ex_env, w_input = (\<lambda>_. \<lparr>in_now = [], in_ids = \<lambda>_. [], in_walk = \<lambda>_. FS_Dir [] []\<rparr>), w_others = (\<lambda>_ s. s), w_wire = (\<lambda>_. Delivered), w_query = id,
     w_now = [], w_ids = nat_str, w_io_text = (\<lambda>_ _. [])\<rparr>"

lemma client_reads_back_events_witness:
  "fst (client_tail_events quiet_world 1 (fold (client_append_event quiet_world) [JObj [(''type'', JStr ''a'')]]
     \<lparr>ct_calls = 0, ct_server = ex_server\<rparr>)) = Some [json_text (JObj [(''type'', JStr ''a'')])]"
proof -
  have w: "quiet quiet_world" "w_env quiet_world = ex_env" by (simp_all add: quiet_def quiet_world_def)
  have "length (json_text (JObj [(''type'', JStr ''a'')])) = 12" by code_simp
  then have "list_all event_ok [JObj [(''type'', JStr ''a'')]]" by (simp add: event_ok_def max_line_def)
  moreover have "el_path ''h'' = ''h/events.log''" by code_simp
  then have "log_good ''h'' (sv_disk ex_server)" "el_all ''h'' (sv_disk ex_server) = Inr []"
    using ex_server_sync by (auto simp: heaven_sync_def ex_env_def ex_server_def ex_disk_def el_all_def read_file_def)
  ultimately show ?thesis
    using client_reads_back_events [OF w(1), of "[JObj [(''type'', JStr ''a'')]]" "\<lparr>ct_calls = 0, ct_server = ex_server\<rparr>" "[]" 1]
    by (simp add: w(2) ex_env_def)
qed

end
