(* ===== verification/Integrator.thy ===== *)
theory Integrator
  imports Provider Edit_Diff Angel_Assembly Heaven_Client
begin

text \<open>
  Integrating the answer of an agent into the repository, \<open>god/integrator.go\<close>. The repository
  lies on the file system of the daemon, \<open>sv_disk\<close>. Other processes act before every
  request, and once more between the validation and the moment the files are read and edited;
  the reading and editing itself is not interleaved. The texts of I/O errors are the
  parameter \<open>w_io_text\<close>.
\<close>

section \<open>Requests and results\<close>

record integrate_req =
  iq_owner :: string
  iq_root :: path
  iq_resp :: angel_response
  iq_mission :: mission
  iq_clocks :: "clocks option"
  iq_depth :: nat
  iq_skip :: bool

record integrate_result =
  ig_success :: bool
  ig_modified :: "path list"
  ig_created :: "path list"
  ig_ops :: nat
  ig_diffs :: "(path \<times> string) list"
  ig_conflict :: "(mission \<times> shard_request list) option"
  ig_error :: string

datatype integrate_error = IE_Output_Type string | IE_Validate | IE_Clock_Inc

definition failed :: "string \<Rightarrow> integrate_result" where
  "failed e = \<lparr>ig_success = False, ig_modified = [], ig_created = [], ig_ops = 0, ig_diffs = [],
     ig_conflict = None, ig_error = e\<rparr>"

definition max_conflict_depth :: nat where
  "max_conflict_depth = 2"

section \<open>Error texts\<close>

definition edit_error_text :: "(path \<Rightarrow> io_error \<Rightarrow> string) \<Rightarrow> string \<Rightarrow> path \<Rightarrow> edit_error \<Rightarrow> string" where
  "edit_error_text io k p e =
     (case e of
        E_Lines_Count n \<Rightarrow>
          (if n = 2 then ''lines must have exactly 2 elements [start, end]'' else ''lines must have exactly 1 element [lineNum]'')
      | E_Range a b \<Rightarrow>
          (if k = ''replace_span'' \<or> k = ''delete_span''
           then ''invalid line range ['' @ itoa a @ '', '' @ itoa b @ '']'' else ''invalid line number '' @ itoa a)
      | E_Read q x \<Rightarrow> ''read '' @ q @ '': '' @ io q x
      | E_Beyond l n \<Rightarrow>
          (if k = ''replace_span'' \<or> k = ''delete_span'' then ''end line '' else ''line '') @
          itoa l @ '' exceeds file length '' @ itoa (int n)
      | E_Anchor x y \<Rightarrow> ''anchor mismatch: expected '' @ x @ '', got '' @ y
      | E_Symbol y q \<Rightarrow> ''symbol '' @ go_quote y @ '' not found in '' @ q
      | E_Mkdir x \<Rightarrow> ''create directory: '' @ io (path_dir p) x
      | E_Write x \<Rightarrow> io p x
      | E_Remove q x \<Rightarrow> ''delete '' @ q @ '': '' @ io q x
      | E_No_Template \<Rightarrow> ''template field is required''
      | E_No_Instances \<Rightarrow> ''instances field is required''
      | E_Unknown_Op y \<Rightarrow> ''unknown op '' @ go_quote y)"

definition apply_error_text :: "(path \<Rightarrow> io_error \<Rightarrow> string) \<Rightarrow> path \<Rightarrow> edit_op list \<Rightarrow> nat \<Rightarrow> edit_error \<Rightarrow> string" where
  "apply_error_text io root ops i e =
     (let op = ops ! i; t = edit_error_text io (eo_op op) (path_join [root, eo_path op]) e
      in ''ops['' @ itoa (int i) @ '']'' @
         (case e of E_Unknown_Op _ \<Rightarrow> '': '' @ t | _ \<Rightarrow> '' '' @ eo_op op @ '': '' @ t))"

section \<open>Rebasing anchors\<close>

definition rebase_text :: "edit_op \<Rightarrow> nat \<Rightarrow> nat \<Rightarrow> string" where
  "rebase_text op i n =
     ''rebase: op '' @ itoa (int i) @ '' line '' @ itoa (eo_lines op ! 1) @ '' exceeds file '' @ eo_path op @
     '' ('' @ itoa (int n) @ '' lines)''"

fun rebase_loop ::
  "(string \<Rightarrow> string) \<Rightarrow> (path \<Rightarrow> io_error \<Rightarrow> string) \<Rightarrow> path \<Rightarrow> disk \<Rightarrow> nat \<Rightarrow> edit_op list \<Rightarrow>
   (path \<times> string list) list \<Rightarrow> string + edit_op list" where
  "rebase_loop sha io root d i [] cache = Inr []"
| "rebase_loop sha io root d i (op # ops) cache =
     (if eo_op op = ''add_file''
      then (case rebase_loop sha io root d (Suc i) ops cache of Inl e \<Rightarrow> Inl e | Inr r \<Rightarrow> Inr (op # r))
      else
        (let looked = (case map_of cache (eo_path op) of
                         Some ls \<Rightarrow> Inr (ls, cache)
                       | None \<Rightarrow>
                           (case read_file_lines (path_join [root, eo_path op]) d of
                              Inl (E_Read p x) \<Rightarrow>
                                Inl (''rebase: read '' @ eo_path op @ '': read '' @ p @ '': '' @ io p x)
                            | Inl _ \<Rightarrow> Inl []
                            | Inr ls \<Rightarrow> Inr (ls, aput (eo_path op) ls cache)))
         in case looked of
              Inl e \<Rightarrow> Inl e
            | Inr (ls, cache') \<Rightarrow>
                (let op' =
                   (if eo_op op = ''replace_span'' \<or> eo_op op = ''delete_span'' then
                      (if length (eo_lines op) \<noteq> 2 then Inl (''rebase: op '' @ itoa (int i) @ '' invalid lines'')
                       else if int (length ls) < eo_lines op ! 1 then Inl (rebase_text op i (length ls))
                       else Inr (op\<lparr>eo_anchor := compute_anchor_hash sha ls (eo_lines op ! 0) (eo_lines op ! 1)\<rparr>))
                    else if eo_op op = ''insert_after_symbol'' then
                      (case find_symbol_line (eo_symbol op) ls of
                         None \<Rightarrow> Inl (''rebase: symbol '' @ go_quote (eo_symbol op) @ '' not found in '' @ eo_path op)
                       | Some j \<Rightarrow> Inr (op\<lparr>eo_anchor := compute_anchor_hash sha ls (int j + 1) (int j + 1)\<rparr>))
                    else Inr op)
                 in case op' of
                      Inl e \<Rightarrow> Inl e
                    | Inr o' \<Rightarrow>
                        (case rebase_loop sha io root d (Suc i) ops cache' of Inl e \<Rightarrow> Inl e | Inr r \<Rightarrow> Inr (o' # r)))))"

definition rebase_anchors ::
  "(string \<Rightarrow> string) \<Rightarrow> (path \<Rightarrow> io_error \<Rightarrow> string) \<Rightarrow> path \<Rightarrow> disk \<Rightarrow> edit_op list \<Rightarrow> string + edit_op list" where
  "rebase_anchors sha io root d ops = rebase_loop sha io root d 0 ops []"

section \<open>Conflict missions\<close>

definition region_of :: "edit_op \<Rightarrow> path \<times> int \<times> int" where
  "region_of op = (eo_path op, if length (eo_lines op) = 2 then (eo_lines op ! 0, eo_lines op ! 1) else (0, 0))"

definition extract_conflict_region :: "edit_op list \<Rightarrow> string \<Rightarrow> path \<times> int \<times> int" where
  "extract_conflict_region ops err =
     (case find (\<lambda>op. eo_path op \<noteq> [] \<and> contains err (eo_path op)) ops of
        Some op \<Rightarrow> region_of op
      | None \<Rightarrow> (case find (\<lambda>op. eo_path op \<noteq> []) ops of Some op \<Rightarrow> region_of op | None \<Rightarrow> ([], 0, 0)))"

definition conflict_program :: "mission \<Rightarrow> path \<times> int \<times> int \<Rightarrow> string \<Rightarrow> aa_program" where
  "conflict_program m region err =
     (let (p, s, e) = region;
          ctx = (if wrap64 (s - 10) < 1 then 1 else wrap64 (s - 10))
      in \<lparr>aa_base = mi_base_rev m, aa_leases = [\<lparr>sc_type = ''file'', sc_value = p\<rparr>],
          aa_needs = (if p \<noteq> [] \<and> 0 < e
                      then [\<lparr>ne_kind = ''slice'', ne_symbol = [], ne_path = p, ne_start = ctx, ne_n = wrap64 ((e - ctx) + 20)\<rparr>]
                      else []),
          aa_dos = [''Resolve conflict in '' @ p @ '': '' @ err], aa_asserts = [], aa_return = ''edit_ir''\<rparr>)"

definition generate_conflict_mission ::
  "world \<Rightarrow> integrate_req \<Rightarrow> edit_op list \<Rightarrow> string \<Rightarrow> client \<Rightarrow> integrate_result \<times> client" where
  "generate_conflict_mission w q ops err c =
     (if max_conflict_depth \<le> iq_depth q
      then (failed (''conflict depth limit reached (2): '' @ err), c)
      else (let region = extract_conflict_region ops err;
                (m, reqs) = compile_aa (w_ids w 0) (w_now w) (conflict_program (iq_mission q) region err);
                m' = m\<lparr>mi_goal := ''[CONFLICT] '' @ mi_goal m, mi_budget := 4000, mi_created := w_now w\<rparr>;
                c' = client_append_event w
                       (JObj [(''conflict_error'', JStr err), (''conflict_mission'', JStr (mi_id m)),
                              (''conflict_path'', JStr (fst region)), (''original_mission'', JStr (mi_id (iq_mission q))),
                              (''type'', JStr ''conflict_detected'')]) c
            in ((failed (''conflict in '' @ fst region @ '': '' @ err))\<lparr>ig_conflict := Some (m', reqs)\<rparr>, c')))"

section \<open>Integrating\<close>

definition normalize_path :: "path \<Rightarrow> path \<Rightarrow> path" where
  "normalize_path root p = trim_prefix p (if has_suffix root ''/'' then root else root @ ''/'')"

definition normalize_op :: "path \<Rightarrow> edit_op \<Rightarrow> edit_op" where
  "normalize_op root op = op\<lparr>eo_path := normalize_path root (eo_path op)\<rparr>"

definition snapshot_files :: "path \<Rightarrow> path list \<Rightarrow> disk \<Rightarrow> (path \<times> string) list" where
  "snapshot_files root ps d =
     fold (\<lambda>p m. case read_file d (path_join [root, p]) of Inl _ \<Rightarrow> m | Inr c \<Rightarrow> aput p c m) ps []"

definition file_diffs :: "path \<Rightarrow> (path \<times> string) list \<Rightarrow> path list \<Rightarrow> disk \<Rightarrow> (path \<times> string) list" where
  "file_diffs root old fs d =
     List.concat (map (\<lambda>f. case read_file d (path_join [root, f]) of
                        Inl _ \<Rightarrow> []
                      | Inr c \<Rightarrow> (let x = generate_diff f (case map_of old f of None \<Rightarrow> [] | Some o' \<Rightarrow> o') c
                                  in if x = [] then [] else [(f, x)])) fs)"

definition path_list_json :: "path list \<Rightarrow> json" where
  "path_list_json ps = (if ps = [] then JNull else JArr (map JStr ps))"

definition manifest_of :: "integrate_req \<Rightarrow> string list \<Rightarrow> path list \<Rightarrow> manifest_req" where
  "manifest_of q syms files =
     \<lparr>mr_owner = iq_owner q, mr_mission = mi_id (iq_mission q), mr_symbols = syms, mr_files = files, mr_clocks = iq_clocks q\<rparr>"

definition nil_to_empty :: "'a list option \<Rightarrow> 'a list" where
  "nil_to_empty xs = (case xs of None \<Rightarrow> [] | Some ys \<Rightarrow> ys)"

definition set_disk :: "disk \<Rightarrow> client \<Rightarrow> client" where
  "set_disk d c = c\<lparr>ct_server := (ct_server c)\<lparr>sv_disk := d\<rparr>\<rparr>"

definition client_disk :: "client \<Rightarrow> disk" where
  "client_disk c = sv_disk (ct_server c)"

text \<open>Steps 6 and 7, after the edits: the clocks and the event.\<close>

definition finish_integration ::
  "world \<Rightarrow> integrate_req \<Rightarrow> path list \<Rightarrow> apply_result \<Rightarrow> (path \<times> string) list \<Rightarrow> client \<Rightarrow>
   (integrate_error + integrate_result) \<times> client" where
  "finish_integration w q files ap diffs c =
     (let (inc, c') = (if files = [] then (Some [], c) else client_clock_inc w files c)
      in case inc of
           None \<Rightarrow> (Inl IE_Clock_Inc, c')
         | Some _ \<Rightarrow>
             (Inr \<lparr>ig_success = True, ig_modified = ap_modified ap, ig_created = ap_created ap,
                ig_ops = ap_count ap, ig_diffs = diffs, ig_conflict = None, ig_error = []\<rparr>,
              client_append_event w
                (JObj [(''files_created'', path_list_json (ap_created ap)),
                       (''files_modified'', path_list_json (ap_modified ap)),
                       (''mission_id'', JStr (mi_id (iq_mission q))),
                       (''ops_applied'', jnat (ap_count ap)), (''type'', JStr ''integration_complete'')]) c'))"

text \<open>Steps 3 to 7, with the operations to apply.\<close>

definition apply_and_log ::
  "world \<Rightarrow> integrate_req \<Rightarrow> edit_op list \<Rightarrow> path list \<Rightarrow> client \<Rightarrow> (integrate_error + integrate_result) \<times> client" where
  "apply_and_log w q ops files c =
     (let root = iq_root q; c1 = pause w c; old = snapshot_files root files (client_disk c1)
      in case apply_edit_ir (en_sha (w_env w)) root ops (client_disk c1) of
           (Inl (i, e), d) \<Rightarrow>
             (let (r, c2) = generate_conflict_mission w q ops (apply_error_text (w_io_text w) root ops i e) (set_disk d c1)
              in (Inr r, c2))
         | (Inr ap, d) \<Rightarrow>
             finish_integration w q files ap (file_diffs root old (ap_modified ap @ ap_created ap) d) (set_disk d c1))"

text \<open>The operations and the files of a request, with paths relative to the repository.\<close>

definition req_ops :: "integrate_req \<Rightarrow> edit_op list" where
  "req_ops q = map (normalize_op (iq_root q)) (nil_to_empty (case ar_edit (iq_resp q) of None \<Rightarrow> None | Some ops \<Rightarrow> ops))"

definition req_files :: "integrate_req \<Rightarrow> path list" where
  "req_files q = map (normalize_path (iq_root q)) (nil_to_empty (ar_files (iq_resp q)))"

definition req_symbols :: "integrate_req \<Rightarrow> string list" where
  "req_symbols q = nil_to_empty (ar_symbols (iq_resp q))"

definition integrate ::
  "world \<Rightarrow> integrate_req \<Rightarrow> client \<Rightarrow> (integrate_error + integrate_result) \<times> client" where
  "integrate w q c =
     (if ar_type (iq_resp q) \<noteq> ''edit_ir'' \<or> ar_edit (iq_resp q) = None
      then (Inl (IE_Output_Type (ar_type (iq_resp q))), c)
      else if iq_skip q then apply_and_log w q (req_ops q) (req_files q) c
      else case client_validate w (manifest_of q (req_symbols q) (req_files q)) c of
        (None, c1) \<Rightarrow> (Inl IE_Validate, c1)
      | (Some m, c1) \<Rightarrow>
          (if \<not> mv_allowed m \<and> mv_drift m \<noteq> [] \<and> mv_missing m = [] then
             (case rebase_anchors (en_sha (w_env w)) (w_io_text w) (iq_root q) (client_disk c1) (req_ops q) of
                Inl e \<Rightarrow> (let (r, c2) = generate_conflict_mission w q (req_ops q) e c1 in (Inr r, c2))
              | Inr ops \<Rightarrow> apply_and_log w q ops (req_files q) c1)
           else if \<not> mv_allowed m then
             (Inr (failed (''manifest validation failed: '' @ mv_reason m)), c1)
           else apply_and_log w q (req_ops q) (req_files q) c1))"

section \<open>What the calls keep\<close>

definition bystanders :: "(server \<Rightarrow> server \<Rightarrow> bool) \<Rightarrow> world \<Rightarrow> bool" where
  "bystanders R w \<longleftrightarrow> (\<forall>n s. R s (w_others w n s))"

definition same_leases :: "server \<Rightarrow> server \<Rightarrow> bool" where
  "same_leases s t \<longleftrightarrow> sv_leases t = sv_leases s"

definition same_files :: "path \<Rightarrow> path set \<Rightarrow> server \<Rightarrow> server \<Rightarrow> bool" where
  "same_files root ps s t \<longleftrightarrow> (\<forall>p. p \<noteq> el_path root \<and> p \<notin> ps \<longrightarrow> reads (sv_disk t) p = reads (sv_disk s) p)"

text \<open>The requests of an integration.\<close>

definition integration_call :: "request \<Rightarrow> bool" where
  "integration_call req =
     (case req of Append_Event _ \<Rightarrow> True | Clock_Inc _ \<Rightarrow> True | Validate_Manifest _ \<Rightarrow> True | _ \<Rightarrow> False)"

lemma integration_calls [simp]:
  "integration_call (Append_Event b)" "integration_call (Clock_Inc ps)" "integration_call (Validate_Manifest v)"
  by (simp_all add: integration_call_def)

lemma validate_same: "snd (handle_validate_manifest q s) = s"
  by (simp add: handle_validate_manifest_def Let_def split: option.split)

lemma append_event_files: "same_files (en_root en) ps s (snd (handle_append_event en b s))"
  using el_append_frame [of "en_root en" _ "sv_disk s"]
  by (auto simp: handle_append_event_def same_files_def Let_def bump_rev_def split: option.split prod.split sum.split)

lemma clock_inc_files: "same_files (en_root en) ps s (snd (handle_clock_inc en fs s))"
  using el_append_frame [of "en_root en" _ "sv_disk s"]
  by (auto simp: handle_clock_inc_def clock_increment_def clock_emit_def same_files_def Let_def bump_rev_def
      split: option.split prod.split sum.split)

lemma serve_integration:
  assumes "integration_call req"
  shows "same_leases s (snd (serve en inp req s))" "same_files (en_root en) ps s (snd (serve en inp req s))"
proof -
  show "same_files (en_root en) ps s (snd (serve en inp req s))"
    using assms append_event_files clock_inc_files
    by (cases req) (simp_all add: integration_call_def validate_same, simp add: same_files_def)
  show "same_leases s (snd (serve en inp req s))"
    using assms
    by (cases req)
      (simp_all add: integration_call_def validate_same handle_append_event_def handle_clock_inc_def Let_def
        same_leases_def bump_rev_def split: option.split prod.split sum.split)
qed

section \<open>The shape of a result\<close>

lemma conflict_result:
  assumes "generate_conflict_mission w q ops err c = (r, c')"
  shows "\<not> ig_success r"
    and "ig_conflict r = Some (m, reqs) \<Longrightarrow> iq_depth q < max_conflict_depth \<and> mi_budget m = 4000 \<and>
      mi_base_rev m = mi_base_rev (iq_mission q) \<and>
      (\<exists>p. mi_scopes m = [\<lparr>sc_type = ''file'', sc_value = p\<rparr>] \<and> (p = [] \<or> p \<in> eo_path ` set ops)) \<and>
      length reqs \<le> 1 \<and> (\<forall>x \<in> set reqs. sr_command x = ''PF_SLICE'')"
proof -
  have reg: "fst (extract_conflict_region ops err) = [] \<or> fst (extract_conflict_region ops err) \<in> eo_path ` set ops"
    by (auto simp: extract_conflict_region_def region_of_def find_Some_iff split: option.splits)
  show "\<not> ig_success r"
    using assms by (auto simp: generate_conflict_mission_def failed_def Let_def split: if_splits prod.splits)
  show "iq_depth q < max_conflict_depth \<and> mi_budget m = 4000 \<and>
      mi_base_rev m = mi_base_rev (iq_mission q) \<and>
      (\<exists>p. mi_scopes m = [\<lparr>sc_type = ''file'', sc_value = p\<rparr>] \<and> (p = [] \<or> p \<in> eo_path ` set ops)) \<and>
      length reqs \<le> 1 \<and> (\<forall>x \<in> set reqs. sr_command x = ''PF_SLICE'')" if "ig_conflict r = Some (m, reqs)"
    using assms that reg
    by (auto simp: generate_conflict_mission_def failed_def Let_def compile_aa_def conflict_program_def
        shard_request_of_def split: if_splits prod.splits)
qed

definition bounded_conflict :: "integrate_req \<Rightarrow> path set \<Rightarrow> integrate_result \<Rightarrow> bool" where
  "bounded_conflict q ps r =
     (case ig_conflict r of
        None \<Rightarrow> True
      | Some (m, reqs) \<Rightarrow> \<not> ig_success r \<and> iq_depth q < 2 \<and> mi_budget m = 4000 \<and>
          mi_base_rev m = mi_base_rev (iq_mission q) \<and> length reqs \<le> 1 \<and>
          (\<exists>p. mi_scopes m = [\<lparr>sc_type = ''file'', sc_value = p\<rparr>] \<and> (p = [] \<or> p \<in> ps)))"

lemma conflict_bounded: "generate_conflict_mission w q ops err c = (r, c') \<Longrightarrow> bounded_conflict q (eo_path ` set ops) r"
  using conflict_result [of w q ops err c r c']
  by (auto simp: bounded_conflict_def max_conflict_depth_def split: option.split)

lemma no_conflict_bounded [simp]: "ig_conflict r = None \<Longrightarrow> bounded_conflict q ps r"
  by (simp add: bounded_conflict_def)

lemma finish_result:
  assumes "finish_integration w q files ap diffs c = (x, c')"
  shows "case x of Inl e \<Rightarrow> e = IE_Clock_Inc | Inr r \<Rightarrow> ig_success r \<and> ig_conflict r = None \<and> ig_ops r = ap_count ap"
  using assms by (auto simp: finish_integration_def Let_def split: prod.splits option.splits if_splits)

lemma apply_and_log_cases:
  assumes "apply_and_log w q ops files c = (x, c')"
  shows "(\<exists>err c1 r. x = Inr r \<and> generate_conflict_mission w q ops err c1 = (r, c')) \<or>
    (case x of Inl _ \<Rightarrow> True | Inr r \<Rightarrow> ig_success r \<and> ig_conflict r = None)"
proof (cases "apply_edit_ir (en_sha (w_env w)) (iq_root q) ops (client_disk (pause w c))")
  case (Pair y d)
  show ?thesis
  proof (cases y)
    case (Inl ie)
    with Pair assms show ?thesis
      by (cases ie) (auto simp: apply_and_log_def Let_def split: prod.splits)
  next
    case (Inr ap)
    with Pair assms finish_result [of w q files ap _ _ x c'] show ?thesis
      by (auto simp: apply_and_log_def Let_def split: sum.splits)
  qed
qed

lemma rebase_loop_paths: "rebase_loop sha io root d i ops cache = Inr ops' \<Longrightarrow> map eo_path ops' = map eo_path ops"
  by (induction sha io root d i ops cache arbitrary: ops' rule: rebase_loop.induct)
    (auto simp: Let_def split: if_splits sum.splits option.splits)

lemma client_validate_Some:
  assumes "client_validate w v c = (Some m, c1)"
  defines "s \<equiv> w_others w (ct_calls c) (ct_server c)"
  shows "ct_server c1 = s" "mr_owner v \<noteq> []" "mv_missing m = missing_leases v (sv_leases s)"
    "mv_drift m = clock_drift v (sv_clocks s)"
    "mv_allowed m \<longleftrightarrow> missing_leases v (sv_leases s) = [] \<and> clock_drift v (sv_clocks s) = []"
  using assms
  by (auto simp: client_validate_def exchange_def pause_def Let_def handle_validate_manifest_def
      split: prod.splits wire.splits if_splits option.splits response.splits)

lemma no_missing_leases:
  assumes "missing_leases v ls = []"
  shows "\<forall>x \<in> set (mr_symbols v). holder ls (scope_key ''symbol'' x) = Some (mr_owner v)"
    "\<forall>x \<in> set (mr_files v). holder ls (scope_key ''file'' x) = Some (mr_owner v)"
  using assms by (simp_all add: missing_leases_def filter_empty_conv owner_holds_holder)

lemma integrate_cases:
  assumes "integrate w q c = (x, c')"
  obtains (wrong_type) e where "x = Inl e" "c' = c"
  | (skipped) "iq_skip q" "apply_and_log w q (req_ops q) (req_files q) c = (x, c')"
  | (lost) "x = Inl IE_Validate" "client_validate w (manifest_of q (req_symbols q) (req_files q)) c = (None, c')"
  | (refused) m r where "x = Inr r" "\<not> ig_success r" "ig_conflict r = None" "\<not> mv_allowed m" "\<not> iq_skip q"
      "client_validate w (manifest_of q (req_symbols q) (req_files q)) c = (Some m, c')"
  | (stuck) m e c1 r where "x = Inr r" "generate_conflict_mission w q (req_ops q) e c1 = (r, c')" "\<not> iq_skip q"
      "client_validate w (manifest_of q (req_symbols q) (req_files q)) c = (Some m, c1)"
  | (rebased) m c1 ops where "\<not> iq_skip q" "mv_missing m = []" "mv_drift m \<noteq> []"
      "client_validate w (manifest_of q (req_symbols q) (req_files q)) c = (Some m, c1)"
      "rebase_anchors (en_sha (w_env w)) (w_io_text w) (iq_root q) (client_disk c1) (req_ops q) = Inr ops"
      "apply_and_log w q ops (req_files q) c1 = (x, c')"
  | (allowed) m c1 where "\<not> iq_skip q" "mv_allowed m"
      "client_validate w (manifest_of q (req_symbols q) (req_files q)) c = (Some m, c1)"
      "apply_and_log w q (req_ops q) (req_files q) c1 = (x, c')"
proof -
  obtain v c1 where v: "client_validate w (manifest_of q (req_symbols q) (req_files q)) c = (v, c1)" by (meson surj_pair)
  consider "ar_type (iq_resp q) \<noteq> ''edit_ir'' \<or> ar_edit (iq_resp q) = None"
    | "iq_skip q" "\<not> (ar_type (iq_resp q) \<noteq> ''edit_ir'' \<or> ar_edit (iq_resp q) = None)"
    | "\<not> iq_skip q" "\<not> (ar_type (iq_resp q) \<noteq> ''edit_ir'' \<or> ar_edit (iq_resp q) = None)" by argo
  then show thesis
  proof cases
    case 3
    show thesis
    proof (cases v)
      case None
      with 3 v assms show thesis by (auto simp: integrate_def intro: lost)
    next
      case (Some m)
      consider "mv_drift m \<noteq> []" "mv_missing m = []" "\<not> mv_allowed m" | "\<not> mv_allowed m" "mv_drift m = [] \<or> mv_missing m \<noteq> []"
        | "mv_allowed m" by argo
      then show thesis
        using 3 v Some assms
        by cases (auto simp: integrate_def failed_def split: sum.splits prod.splits intro: stuck rebased refused allowed)
    qed
  qed (use assms in \<open>auto simp: integrate_def intro: wrong_type skipped\<close>)
qed

section \<open>Frames\<close>

text \<open>What others, the calls and the edits respect, an integration respects.\<close>

locale integration_frame = guarantee kept w integration_call
  for kept :: "server \<Rightarrow> server \<Rightarrow> bool" and w :: world +
  fixes root :: path and editable :: "path list \<Rightarrow> bool"
  assumes keeps_edit: "editable (map eo_path ops) \<Longrightarrow>
    apply_edit_ir (en_sha (w_env w)) root ops (sv_disk s) = (r, d) \<Longrightarrow> kept s (s\<lparr>sv_disk := d\<rparr>)"
begin

lemma going_call:
  "client_validate w v c = (m, d) \<Longrightarrow> going kept c d"
  "client_clock_inc w ps c = (k, d) \<Longrightarrow> going kept c d"
  using going_exchange [OF integration_calls(3)] going_exchange [OF integration_calls(2)]
  by (blast dest: validate_exchange clock_inc_exchange)+

lemma going_event: "going kept c (client_append_event w ev c)"
  by (rule going_append) simp

lemma going_conflict: "generate_conflict_mission w q ops err c = (r, d) \<Longrightarrow> going kept c d"
  by (auto simp: generate_conflict_mission_def Let_def split: if_splits prod.splits intro: going_refl going_event)

lemma going_finish: "finish_integration w q files ap diffs c = (x, d) \<Longrightarrow> going kept c d"
  by (auto simp: finish_integration_def Let_def split: if_splits prod.splits option.splits
      intro: going_refl going_event going_call going_trans [OF going_call(2) going_event])

lemma going_apply:
  assumes "editable (map eo_path ops)" "iq_root q = root" "apply_and_log w q ops files c = (x, c')"
  shows "going kept c c'"
proof -
  obtain y d where a: "apply_edit_ir (en_sha (w_env w)) root ops (client_disk (pause w c)) = (y, d)" by (meson surj_pair)
  have e: "going kept (pause w c) (set_disk d (pause w c))"
    using keeps_edit [OF assms(1)] a by (simp add: going_def set_disk_def client_disk_def)
  have "going kept (set_disk d (pause w c)) c'"
    using assms(2,3) a by (auto simp: apply_and_log_def Let_def split: sum.splits prod.splits dest: going_conflict going_finish)
  with going_trans [OF going_pause going_trans [OF e]] show ?thesis .
qed

lemma going_integrate:
  assumes "editable (map eo_path (req_ops q))" "iq_root q = root" "integrate w q c = (x, c')"
  shows "going kept c c'"
  using assms(3)
proof (cases rule: integrate_cases)
  case (skipped) with assms going_apply show ?thesis by blast
next
  case (stuck m e c1 r) with going_call(1) going_conflict going_trans show ?thesis by blast
next
  case (rebased m c1 ops)
  then have "map eo_path ops = map eo_path (req_ops q)" by (simp add: rebase_anchors_def rebase_loop_paths)
  with rebased assms going_apply going_call(1) going_trans show ?thesis by metis
next
  case (allowed m c1) with assms going_apply going_call(1) going_trans show ?thesis by metis
qed (use going_refl going_call(1) in auto)

end

interpretation lease_frame: integration_frame
  "\<lambda>s t. bystanders same_leases w \<longrightarrow> same_leases s t" w root "\<lambda>_. True" for w root
  by unfold_locales (use serve_integration(1) in \<open>auto simp: bystanders_def same_leases_def\<close>)

text \<open>The files of a repository that no operation names, the event log excepted.\<close>

definition op_files :: "path \<Rightarrow> path list \<Rightarrow> path set" where
  "op_files root ps = (\<lambda>p. path_join [root, p]) ` set ps"

interpretation file_frame: integration_frame
  "\<lambda>s t. bystanders (same_files (en_root (w_env w)) ps) w \<longrightarrow> same_files (en_root (w_env w)) ps s t" w root
  "\<lambda>fs. op_files root fs \<subseteq> ps" for w root ps
proof (unfold_locales, goal_cases)
  case (5 ops s r d)
  from 5(2) have "reads d p = reads (sv_disk s) p" if "p \<notin> op_files root (map eo_path ops)" for p
    using that apply_ops_frame by (fastforce simp: apply_edit_ir_def op_files_def)
  with 5(1) show ?case by (auto simp: same_files_def)
qed (use serve_integration(2) in \<open>auto simp: bystanders_def same_files_def\<close>)

section \<open>A quiet world\<close>

lemma quiet_bystanders: "quiet w \<Longrightarrow> (\<And>s. R s s) \<Longrightarrow> bystanders R w"
  by (simp add: quiet_def bystanders_def)

lemma quiet_validate:
  assumes "quiet w" "mr_owner v \<noteq> []"
  obtains m c1 where "client_validate w v c = (Some m, c1)" "ct_server c1 = ct_server c"
    "mv_missing m = missing_leases v (sv_leases (ct_server c))" "mv_drift m = clock_drift v (sv_clocks (ct_server c))"
    "mv_allowed m \<longleftrightarrow> mv_missing m = [] \<and> mv_drift m = []"
proof -
  have "\<exists>m. handle_validate_manifest (Some v) s = (R_Manifest m, s)" for s
    using assms(2) by (simp add: handle_validate_manifest_def Let_def)
  then obtain m where "handle_validate_manifest (Some v) (ct_server c) = (R_Manifest m, ct_server c)" by blast
  with assms(1) obtain c1 where v: "client_validate w v c = (Some m, c1)"
    by (simp add: client_validate_def exchange_def quiet_def pause_def failure_def Let_def)
  from that [OF v] client_validate_Some [OF v] assms(1) show thesis by (simp add: quiet_def)
qed

section \<open>Examples\<close>

definition ex_world :: world where
  "ex_world = \<lparr>w_env = \<lparr>en_sha = id, en_ul = id, en_root = ''h'', en_parse = ex_parse\<rparr>,
     w_input = \<lambda>_. \<lparr>in_now = [], in_ids = \<lambda>_. [], in_walk = \<lambda>_. FS_Dir [] []\<rparr>,
     w_others = \<lambda>_ s. s, w_wire = \<lambda>_. Delivered, w_query = id, w_now = [], w_ids = \<lambda>_. ''m'', w_io_text = \<lambda>_ _. []\<rparr>"

definition ex_shop :: server where
  "ex_shop = ex_server\<lparr>sv_disk := \<lparr>d_files = [(''r/a'', ex_text), (''h/events.log'', [])], d_dirs = [''.'', ''r'', ''h''], d_bad = []\<rparr>,
     sv_leases := put_lease \<lparr>lease_id = ''1'', lease_owner = ''ann'', lease_mission = ''m'', lease_type = ''symbol'',
       lease_value = ''a'', lease_issued_at = [], lease_expires_at = []\<rparr> no_leases\<rparr>"

definition ex_client :: client where
  "ex_client = \<lparr>ct_calls = 0, ct_server = ex_shop\<rparr>"

text \<open>Ann replaces line 2 of a file, with some anchor and an expected clock of \<open>k\<close>.\<close>

definition ex_request :: "int \<Rightarrow> string \<Rightarrow> integrate_req" where
  "ex_request k anchor = \<lparr>iq_owner = ''ann'', iq_root = ''r'',
     iq_resp = \<lparr>ar_mission = ''m'', ar_type = ''edit_ir'', ar_edit = Some (Some [ex_op anchor]), ar_macro = None,
       ar_diff = [], ar_symbols = Some [''a''], ar_files = Some []\<rparr>,
     iq_mission = \<lparr>mi_id = ''m'', mi_goal = ''g'', mi_base_rev = ''b'', mi_scopes = [], mi_leases = [], mi_tasks = [],
       mi_budget = 0, mi_created = []\<rparr>, iq_clocks = Some [(''a'', k)], iq_depth = 0, iq_skip = False\<rparr>"

lemma ex_facts:
  "quiet ex_world" "missing_leases (manifest_of (ex_request k x) [''a''] []) (sv_leases (ct_server ex_client)) = []"
  "clock_drift (manifest_of (ex_request k x) [''a''] []) (sv_clocks (ct_server ex_client)) = [] \<longleftrightarrow> k = 0"
  "req_symbols (ex_request k x) = [''a'']" "req_files (ex_request k x) = []" "req_ops (ex_request k x) = [ex_op x]"
  "path_join [''r'', ''a''] = ''r/a''" "el_path ''h'' = ''h/events.log''"
  "read_file_lines ''r/a'' (client_disk ex_client) = Inr ([''x''] @ [''y''] @ [''z''])"
proof -
  have m: "missing_leases (manifest_of (ex_request 0 []) [''a''] []) (sv_leases (ct_server ex_client)) = []" by code_simp
  then show "missing_leases (manifest_of (ex_request k x) [''a''] []) (sv_leases (ct_server ex_client)) = []"
    by (simp add: missing_leases_def manifest_of_def ex_request_def)
  show "read_file_lines ''r/a'' (client_disk ex_client) = Inr ([''x''] @ [''y''] @ [''z''])" by code_simp
  show "path_join [''r'', ''a''] = ''r/a''" "el_path ''h'' = ''h/events.log''" by code_simp+
  have "normalize_path ''r'' ''a'' = ''a''" by code_simp
  then show "req_ops (ex_request k x) = [ex_op x]"
    by (simp add: req_ops_def ex_request_def nil_to_empty_def normalize_op_def ex_op_def)
qed (simp_all add: quiet_def ex_world_def clock_drift_def manifest_of_def ex_request_def ex_client_def ex_shop_def
    ex_server_def req_symbols_def req_files_def nil_to_empty_def clock_get_def clock_of_def Let_def)

lemma ex_success:
  defines "q \<equiv> ex_request 0 (''x'' @ [LF] @ ''z'' @ [LF])"
  shows "\<exists>r. fst (integrate ex_world q ex_client) = Inr r \<and> ig_success r"
proof -
  let ?op = "ex_op (''x'' @ [LF] @ ''z'' @ [LF])"
  have o: "mr_owner (manifest_of q [''a''] []) \<noteq> []" by (simp add: q_def manifest_of_def ex_request_def)
  obtain m c1 where v: "client_validate ex_world (manifest_of q [''a''] []) ex_client = (Some m, c1)"
    "ct_server c1 = ct_server ex_client" "mv_allowed m"
  proof (rule quiet_validate [OF ex_facts(1) o, of ex_client])
    fix m c1
    assume "client_validate ex_world (manifest_of q [''a''] []) ex_client = (Some m, c1)" "ct_server c1 = ct_server ex_client"
      "mv_missing m = missing_leases (manifest_of q [''a''] []) (sv_leases (ct_server ex_client))"
      "mv_drift m = clock_drift (manifest_of q [''a''] []) (sv_clocks (ct_server ex_client))"
      "mv_allowed m \<longleftrightarrow> mv_missing m = [] \<and> mv_drift m = []"
    then show thesis using ex_facts(2,3) [of 0] that by (simp add: q_def)
  qed
  have e: "integrate ex_world q ex_client = apply_and_log ex_world q [?op] [] c1"
    using v ex_facts(4-6) by (simp add: integrate_def q_def) (simp add: ex_request_def)
  have "\<exists>ap d. apply_edit_ir id ''r'' [?op] (client_disk ex_client) = (Inr ap, d)"
    by (rule exI, rule exI) code_simp
  then obtain ap d where "apply_edit_ir id ''r'' [?op] (client_disk ex_client) = (Inr ap, d)" by blast
  then have "apply_edit_ir (en_sha (w_env ex_world)) (iq_root q) [?op] (client_disk (pause ex_world c1)) = (Inr ap, d)"
    using quiet_pause [OF ex_facts(1)] v(2) by (simp add: client_disk_def ex_world_def q_def ex_request_def)
  then show ?thesis unfolding e by (simp add: apply_and_log_def finish_integration_def Let_def)
qed

text \<open> C15: an integration that succeeds with its leases checked had, when the daemon validated the
  manifest, a lease of its owner on every symbol and file of the manifest, also when a drifted
  clock made it rebase. \<close>

theorem integrate_holds_leases:
  assumes "integrate w q c = (Inr r, c')" "ig_success r" "\<not> iq_skip q"
  defines "ls \<equiv> sv_leases (w_others w (ct_calls c) (ct_server c))"
  shows "(\<forall>x \<in> set (req_symbols q). holder ls (scope_key ''symbol'' x) = Some (iq_owner q)) \<and>
    (\<forall>x \<in> set (req_files q). holder ls (scope_key ''file'' x) = Some (iq_owner q))"
proof -
  have "missing_leases (manifest_of q (req_symbols q) (req_files q)) ls = []"
    using assms(1)
  proof (cases rule: integrate_cases)
    case (stuck m e c1 r')
    with conflict_result(1) [OF stuck(2)] assms(2) show ?thesis by simp
  qed (use assms client_validate_Some(3,5) in auto)
  then show ?thesis using no_missing_leases by (auto simp: manifest_of_def)
qed

lemma integrate_holds_leases_witness:
  "holder (sv_leases ex_shop) (scope_key ''symbol'' ''a'') = Some ''ann''"
proof -
  obtain r c' where "integrate ex_world (ex_request 0 (''x'' @ [LF] @ ''z'' @ [LF])) ex_client = (Inr r, c')" "ig_success r"
    using ex_success by (metis prod.collapse)
  from integrate_holds_leases [OF this] show ?thesis
    by (simp add: ex_facts(4)) (simp add: ex_request_def ex_world_def ex_client_def)
qed

text \<open> Whatever an integration comes to, if others leave them alone, the leases stay as they
  are and no file changes but those the operations name and the event log. \<close>

theorem integrate_frame:
  assumes "integrate w q c = (x, c')" "bystanders same_leases w"
    and "bystanders (same_files (en_root (w_env w)) (op_files (iq_root q) (map eo_path (req_ops q)))) w"
  shows "sv_leases (ct_server c') = sv_leases (ct_server c) \<and>
    (\<forall>p. p \<noteq> el_path (en_root (w_env w)) \<and> p \<notin> op_files (iq_root q) (map eo_path (req_ops q)) \<longrightarrow>
       reads (client_disk c') p = reads (client_disk c) p)"
  using lease_frame.going_integrate [OF TrueI refl assms(1)] file_frame.going_integrate [OF subset_refl refl assms(1)] assms
  by (simp add: going_def same_leases_def same_files_def client_disk_def)

lemma integrate_frame_witness:
  "reads (client_disk (snd (integrate ex_world (ex_request 7 ''stale'') ex_client))) ''r/b'' = reads (client_disk ex_client) ''r/b''"
proof -
  have "op_files ''r'' [''a''] = {''r/a''}" by (simp add: op_files_def ex_facts)
  then show ?thesis
    using integrate_frame [OF prod.collapse [symmetric], of ex_world "ex_request 7 ''stale''" ex_client]
    by (simp add: ex_facts bystanders_def same_leases_def same_files_def)
      (simp add: ex_world_def ex_request_def ex_op_def ex_facts)
qed

lemma apply_bounded: "apply_and_log w q ops files c = (Inr r, c') \<Longrightarrow> bounded_conflict q (eo_path ` set ops) r"
  by (auto dest!: apply_and_log_cases dest: conflict_bounded)

text \<open> A conflict mission is generated only for a failed integration below the depth limit; it
  keeps the base revision, has the reduced budget and one scope, a file that one of the
  operations edits, and asks for at most one slice. \<close>

theorem conflict_mission_bounded:
  "(case integrate w q c of
      (Inl e, c') \<Rightarrow> True
    | (Inr r, c') \<Rightarrow>
        (case ig_conflict r of
           None \<Rightarrow> True
         | Some (m, reqs) \<Rightarrow> \<not> ig_success r \<and> iq_depth q < 2 \<and> mi_budget m = 4000 \<and>
             mi_base_rev m = mi_base_rev (iq_mission q) \<and> length reqs \<le> 1 \<and>
             (\<exists>p. mi_scopes m = [\<lparr>sc_type = ''file'', sc_value = p\<rparr>] \<and> (p = [] \<or> p \<in> eo_path ` set (req_ops q)))))"
proof -
  have "bounded_conflict q (eo_path ` set (req_ops q)) r" if "integrate w q c = (Inr r, c')" for r c'
    using that
  proof (cases rule: integrate_cases)
    case (rebased m c1 ops)
    then have "eo_path ` set ops = eo_path ` set (req_ops q)"
      by (metis list.set_map rebase_anchors_def rebase_loop_paths)
    with apply_bounded [OF rebased(6)] show ?thesis by simp
  qed (auto dest: apply_bounded conflict_bounded)
  then show ?thesis by (cases "integrate w q c") (simp add: bounded_conflict_def split: sum.split)
qed

text \<open>After the edits, a finished integration leaves every file but the log alone.\<close>

lemma finish_reads:
  assumes "quiet w" "finish_integration w q files ap diffs c = (x, c')" "p \<noteq> el_path (en_root (w_env w))"
  shows "reads (client_disk c') p = reads (client_disk c) p"
proof -
  have "bystanders (same_files (en_root (w_env w)) {}) w"
    by (rule quiet_bystanders [OF assms(1)]) (simp add: same_files_def)
  with file_frame.going_finish [OF assms(2), of "{}"] assms(3) show ?thesis
    by (simp add: going_def same_files_def client_disk_def)
qed

lemma one_replace_span:
  assumes "quiet w" "apply_and_log w q [op] files c = (x, c')" "eo_op op = ''replace_span''"
    and "path_join [iq_root q, eo_path op] = p" "p \<noteq> el_path (en_root (w_env w))"
    and "read_file_lines p (client_disk c) = Inr (pre @ mid @ post)" "mid \<noteq> []" "\<not> List.member (d_dirs (client_disk c)) p"
    and "eo_lines op = [int (length pre) + 1, int (length pre + length mid)]"
    and "eo_anchor op = compute_anchor_hash (en_sha (w_env w)) (pre @ mid @ post) (int (length pre) + 1) (int (length pre + length mid))"
  defines "new \<equiv> pre @ split_content (eo_content op) @ post"
  shows "read_file_lines p (client_disk c') = Inr (if new = [] then [[]] else new)"
proof -
  let ?d = "client_disk c"
  obtain d where d: "write_file_lines p new ?d = Inr d" "read_file_lines p d = Inr (if new = [] then [[]] else new)"
    using replace_span_written(2) [OF assms(6-9)] unfolding new_def by blast
  have "apply_replace_span (en_sha (w_env w)) p op ?d = Inr d"
    using replace_span_written(1) [OF assms(6-9)] d(1) assms(10) by (simp add: anchored_write_def new_def Let_def)
  then have a: "apply_edit_ir (en_sha (w_env w)) (iq_root q) [op] (client_disk (pause w c)) =
      (Inr (record_op op \<lparr>ap_modified = [], ap_created = [], ap_deleted = [], ap_count = 0\<rparr>), d)"
    using assms(1,3,4) by (simp add: apply_edit_ir_def apply_op_def with_disk_def client_disk_def quiet_pause)
  with assms(2) have "\<exists>ap diffs. finish_integration w q files ap diffs (set_disk d (pause w c)) = (x, c')"
    by (auto simp: apply_and_log_def Let_def)
  then have "reads (client_disk c') p = reads d p"
    using finish_reads [OF assms(1) _ assms(5)] by (fastforce simp: set_disk_def client_disk_def)
  with read_file_lines_same [OF d(2)] show ?thesis .
qed

text \<open> With all leases held and any expected clock out of date, the span of the file that is
  current at that moment is overwritten whatever anchor the agent gave: the drift that shows
  the file may have changed switches off the check that would notice. \<close>

theorem drift_disables_anchor:
  assumes "quiet w" "ar_type (iq_resp q) = ''edit_ir''" "req_ops q = [op]" "ar_edit (iq_resp q) \<noteq> None"
    "\<not> iq_skip q" "iq_owner q \<noteq> []"
    and "missing_leases (manifest_of q (req_symbols q) (req_files q)) (sv_leases (ct_server c)) = []"
    and "clock_drift (manifest_of q (req_symbols q) (req_files q)) (sv_clocks (ct_server c)) \<noteq> []"
    and "eo_op op = ''replace_span''" "path_join [iq_root q, eo_path op] = p" "p \<noteq> el_path (en_root (w_env w))"
    and "read_file_lines p (client_disk c) = Inr (pre @ mid @ post)" "mid \<noteq> []" "\<not> List.member (d_dirs (client_disk c)) p"
    and "eo_lines op = [int (length pre) + 1, int (length pre + length mid)]"
  defines "new \<equiv> pre @ split_content (eo_content op) @ post"
  shows "read_file_lines p (client_disk (snd (integrate w q c))) = Inr (if new = [] then [[]] else new)"
proof -
  let ?h = "compute_anchor_hash (en_sha (w_env w)) (pre @ mid @ post) (int (length pre) + 1) (int (length pre + length mid))"
  have "mr_owner (manifest_of q (req_symbols q) (req_files q)) \<noteq> []" using assms(6) by (simp add: manifest_of_def)
  then obtain m c1 where v: "client_validate w (manifest_of q (req_symbols q) (req_files q)) c = (Some m, c1)"
    "ct_server c1 = ct_server c" "mv_missing m = []" "mv_drift m \<noteq> []" "\<not> mv_allowed m"
    using assms(7,8) by (auto elim: quiet_validate [OF assms(1), of _ c])
  have rd: "client_disk c1 = client_disk c" by (simp add: client_disk_def v(2))
  have r: "rebase_anchors (en_sha (w_env w)) (w_io_text w) (iq_root q) (client_disk c1) (req_ops q) = Inr [op\<lparr>eo_anchor := ?h\<rparr>]"
    using assms(3,9,10,12,15) by (simp add: rebase_anchors_def rd)
  have "integrate w q c = apply_and_log w q [op\<lparr>eo_anchor := ?h\<rparr>] (req_files q) c1"
    using assms(2,5) v r assms(4) by (auto simp: integrate_def)
  then obtain x c' where i: "integrate w q c = (x, c')" "apply_and_log w q [op\<lparr>eo_anchor := ?h\<rparr>] (req_files q) c1 = (x, c')"
    by (metis surj_pair)
  have "read_file_lines p (client_disk c') =
      Inr (if pre @ split_content (eo_content (op\<lparr>eo_anchor := ?h\<rparr>)) @ post = [] then [[]]
           else pre @ split_content (eo_content (op\<lparr>eo_anchor := ?h\<rparr>)) @ post)"
    by (rule one_replace_span [OF assms(1) i(2)]) (use assms rd in simp_all)
  with i(1) show ?thesis by (simp add: new_def)
qed

lemma drift_disables_anchor_witness:
  "read_file_lines ''r/a'' (client_disk (snd (integrate ex_world (ex_request 7 ''stale'') ex_client)))
     = Inr [''x'', ''new'', ''z'']"
proof -
  have "\<not> List.member (d_dirs (client_disk ex_client)) ''r/a''" "split_content ''new'' = [''new'']" by code_simp+
  with ex_facts show ?thesis
    using drift_disables_anchor [of ex_world "ex_request 7 ''stale''" "ex_op ''stale''" ex_client "''r/a''" "[''x'']" "[''y'']" "[''z'']"]
    by (simp add: ex_request_def ex_op_def ex_world_def)
qed

text \<open>In a quiet world only the state of the daemon counts, not how many calls came before.\<close>

definition alike :: "'a \<times> client \<Rightarrow> 'a \<times> client \<Rightarrow> bool" where
  "alike x y \<longleftrightarrow> fst x = fst y \<and> ct_server (snd x) = ct_server (snd y)"

lemma alike_append:
  assumes "quiet w" "ct_server c = ct_server d"
  shows "ct_server (client_append_event w ev c) = ct_server (client_append_event w ev d)"
  using assms by (simp add: client_append_event_def quiet_exchange)

lemma alike_conflict:
  assumes "quiet w" "ct_server c = ct_server d"
  shows "alike (generate_conflict_mission w q ops err c) (generate_conflict_mission w q ops err d)"
  using assms(2) alike_append [OF assms] by (simp add: generate_conflict_mission_def alike_def Let_def split: prod.split)

lemma alike_apply:
  assumes "quiet w" "ct_server c = ct_server d"
  shows "alike (apply_and_log w q ops [] c) (apply_and_log w q ops [] d)"
proof -
  have p: "ct_server (pause w c) = ct_server (pause w d)" using assms by (simp add: quiet_pause)
  have "alike (generate_conflict_mission w q ops e (set_disk x (pause w c))) (generate_conflict_mission w q ops e (set_disk x (pause w d)))" for e x
    by (rule alike_conflict [OF assms(1)]) (simp add: set_disk_def p)
  moreover have "alike (finish_integration w q [] ap fs (set_disk x (pause w c))) (finish_integration w q [] ap fs (set_disk x (pause w d)))" for ap fs x
    using alike_append [OF assms(1), of "set_disk x (pause w c)" "set_disk x (pause w d)"]
    by (simp add: finish_integration_def alike_def set_disk_def p)
  ultimately show ?thesis
    by (cases "apply_edit_ir (en_sha (w_env w)) (iq_root q) ops (sv_disk (ct_server (pause w d)))")
      (simp add: apply_and_log_def client_disk_def p alike_def Let_def case_prod_unfold split: sum.split)
qed

text \<open> The leases are checked for the files the manifest declares, not for those the
  operations edit: with nothing declared, the outcome is that of an integration that skips the
  lease check, whatever it edits and whoever holds the leases. \<close>

theorem undeclared_edits_unchecked:
  assumes "quiet w" "iq_owner q \<noteq> []" "req_symbols q = []" "req_files q = []" "iq_clocks q = None"
  shows "alike (integrate w q c) (integrate w (q\<lparr>iq_skip := True\<rparr>) c)"
proof (cases "ar_type (iq_resp q) \<noteq> ''edit_ir'' \<or> ar_edit (iq_resp q) = None")
  case True
  then show ?thesis by (auto simp: integrate_def alike_def)
next
  case False
  then obtain ops where ty: "ar_type (iq_resp q) = ''edit_ir''" "ar_edit (iq_resp q) = Some ops" by auto
  let ?v = "manifest_of q [] []" and ?q = "q\<lparr>iq_skip := True\<rparr>"
  have o: "mr_owner ?v \<noteq> []" using assms(2) by (simp add: manifest_of_def)
  have e: "missing_leases ?v ls = []" "clock_drift ?v m = []" for ls m
    using assms(5) by (simp_all add: manifest_of_def missing_leases_def clock_drift_def)
  obtain m c1 where v: "client_validate w ?v c = (Some m, c1)" "ct_server c1 = ct_server c" "mv_allowed m"
    by (rule quiet_validate [OF assms(1) o, of c]) (use e in simp)
  have r: "req_ops ?q = req_ops q" "req_files ?q = []" using assms(4) by (simp_all add: req_ops_def req_files_def)
  have "generate_conflict_mission w ?q ops e d = generate_conflict_mission w q ops e d"
    "finish_integration w ?q fs ap diffs d = finish_integration w q fs ap diffs d" for ops e fs ap diffs d
    by (simp_all add: generate_conflict_mission_def finish_integration_def split: prod.split option.split)
  then have sk: "apply_and_log w ?q ops fs d = apply_and_log w q ops fs d" for ops fs d
    by (simp add: apply_and_log_def Let_def split: prod.split sum.split)
  show ?thesis
  proof (cases "iq_skip q")
    case True
    with ty r sk assms(4) show ?thesis by (simp add: integrate_def alike_def)
  next
    case skip: False
    have "integrate w q c = apply_and_log w q (req_ops q) [] c1" using ty skip v assms(3,4) by (simp add: integrate_def)
    moreover have "integrate w ?q c = apply_and_log w q (req_ops q) [] c" using ty r sk by (simp add: integrate_def)
    ultimately show ?thesis using alike_apply [OF assms(1) v(2)] by simp
  qed
qed

lemma undeclared_edits_unchecked_witness:
  defines "q \<equiv> (ex_request 0 [])\<lparr>iq_clocks := None, iq_resp := (iq_resp (ex_request 0 []))\<lparr>ar_symbols := None\<rparr>\<rparr>"
  shows "alike (integrate ex_world q ex_client) (integrate ex_world (q\<lparr>iq_skip := True\<rparr>) ex_client)"
  by (rule undeclared_edits_unchecked [OF ex_facts(1)])
    (simp_all add: q_def ex_request_def req_symbols_def req_files_def nil_to_empty_def)

end
