(* ===== verification/Patch_V1.thy ===== *)
theory Patch_V1
  imports Plain_Text Provider
begin

text \<open>
  The patch format of agents, \<open>god/patch_v1.go\<close>: the parser of its text, the check, the
  translation to an edit response and the expansion of delta-encoded content, whose lines keep,
  skip or add lines of the replaced span. An error is a value with what the code formats into
  its message; positions are 64-bit integers, and an index out of range is a panic.
\<close>

section \<open>Patches\<close>

record patch_op =
  po_op :: string
  po_path :: path
  po_lines :: "int list"
  po_symbol :: string
  po_content :: string

record patch_set =
  ps_mission :: string
  ps_symbols :: "string list option"
  ps_files :: "string list option"
  ps_ops :: "patch_op list"

datatype op_error =
    Malformed_Header string
  | Missing_Fields string string
  | Bad_Start string string
  | Bad_End string string
  | Unknown_Type string
  | Unterminated

datatype patch_error = Missing_Header | Missing_Mission | Op_Error nat op_error

section \<open>Parsing\<close>

definition split_csv :: "string \<Rightarrow> string list" where
  "split_csv s = filter (\<lambda>p. p \<noteq> []) (map trim_space (split_on CHR '','' s))"

definition op_marker :: string where
  "op_marker = ''### ''"

definition end_marker :: string where
  "end_marker = ''### END''"

definition meta_line :: "string \<Rightarrow> patch_set \<Rightarrow> patch_set" where
  "meta_line t p =
     (if has_prefix t ''MISSION:'' then p\<lparr>ps_mission := trim_space (drop 8 t)\<rparr>
      else if has_prefix t ''SYMBOLS:'' then p\<lparr>ps_symbols := Some (split_csv (drop 8 t))\<rparr>
      else if has_prefix t ''FILES:'' then p\<lparr>ps_files := Some (split_csv (drop 6 t))\<rparr>
      else p)"

text \<open>The lines up to the first operation, with the number of the line reached.\<close>

fun parse_meta :: "nat \<Rightarrow> string list \<Rightarrow> patch_set \<Rightarrow> nat \<times> string list \<times> patch_set" where
  "parse_meta n [] p = (n, [], p)"
| "parse_meta n (l # ls) p =
     (let t = trim_space l
      in if t = [] then parse_meta (Suc n) ls p
         else if has_prefix t op_marker then (n, l # ls, p)
         else parse_meta (Suc n) ls (meta_line t p))"

definition parse_range :: "string \<Rightarrow> string list \<Rightarrow> string \<Rightarrow> op_error + int list" where
  "parse_range kind parts header =
     (if length parts < 5 then Inl (Missing_Fields kind header)
      else case atoi (parts ! 3) of
        None \<Rightarrow> Inl (Bad_Start kind (parts ! 3))
      | Some s \<Rightarrow> (case atoi (parts ! 4) of None \<Rightarrow> Inl (Bad_End kind (parts ! 4)) | Some e \<Rightarrow> Inr [s, e]))"

definition parse_op_header :: "string \<Rightarrow> op_error + patch_op" where
  "parse_op_header header =
     (let parts = Prelude.fields header
      in if length parts < 3 then Inl (Malformed_Header header)
         else (let kind = parts ! 1;
                   op = \<lparr>po_op = kind, po_path = parts ! 2, po_lines = [], po_symbol = [], po_content = []\<rparr>
               in if kind = ''REPLACE'' \<or> kind = ''DELETE'' then
                    (case parse_range kind parts header of Inl e \<Rightarrow> Inl e | Inr ls \<Rightarrow> Inr (op\<lparr>po_lines := ls\<rparr>))
                  else if kind = ''ADD'' then Inr op
                  else if kind = ''INSERT_AFTER'' then
                    (if length parts < 4 then Inl (Missing_Fields kind header)
                     else Inr (op\<lparr>po_symbol := join_with '' '' (drop 3 parts)\<rparr>))
                  else Inl (Unknown_Type kind)))"

definition is_end :: "string \<Rightarrow> bool" where
  "is_end l \<longleftrightarrow> trim_space l = end_marker"

text \<open>One operation: its header and the lines after it; the number of these lines it uses.\<close>

definition parse_op :: "string \<Rightarrow> string list \<Rightarrow> op_error + patch_op \<times> nat" where
  "parse_op header ls =
     (case parse_op_header (trim_space header) of
        Inl e \<Rightarrow> Inl e
      | Inr op \<Rightarrow>
          (let content = takeWhile (\<lambda>l. \<not> is_end l) ls
           in if length content = length ls then Inl Unterminated
              else Inr (if po_op op \<noteq> ''DELETE'' \<and> content \<noteq> [] then op\<lparr>po_content := join_with [LF] content\<rparr> else op,
                        Suc (length content))))"

fun parse_ops :: "nat \<Rightarrow> string list \<Rightarrow> patch_op list \<Rightarrow> patch_error + patch_op list" where
  "parse_ops n [] ops = Inr ops"
| "parse_ops n (l # ls) ops =
     (if \<not> has_prefix (trim_space l) op_marker then parse_ops (Suc n) ls ops
      else case parse_op l ls of
        Inl e \<Rightarrow> Inl (Op_Error n e)
      | Inr (op, k) \<Rightarrow> parse_ops (Suc n + k) (drop k ls) (ops @ [op]))"

definition parse_patch :: "string \<Rightarrow> patch_error + patch_set" where
  "parse_patch raw =
     (let all = split_on LF raw; ls = dropWhile (\<lambda>l. trim_space l = []) all
      in case ls of
           [] \<Rightarrow> Inl Missing_Header
         | h # rest \<Rightarrow>
             (if trim_space h \<noteq> ''GENESIS_PATCH_V1'' then Inl Missing_Header
              else (let (n, body, p) = parse_meta (length all - length rest + 1) rest
                          \<lparr>ps_mission = [], ps_symbols = None, ps_files = None, ps_ops = []\<rparr>
                    in if ps_mission p = [] then Inl Missing_Mission
                       else case parse_ops n body [] of
                         Inl e \<Rightarrow> Inl e
                       | Inr ops \<Rightarrow> Inr (p\<lparr>ps_ops := ops\<rparr>))))"

section \<open>Checking and translating\<close>

datatype op_problem = No_Path | No_Range string | Bad_Range string int int | No_Symbol | No_Such_Op string

datatype set_problem = Set_No_Mission | Set_No_Symbols | Set_No_Files | Set_No_Ops | Set_Op nat op_problem

definition check_range :: "string \<Rightarrow> int list \<Rightarrow> op_problem option" where
  "check_range kind ls =
     (if length ls \<noteq> 2 then Some (No_Range kind)
      else if ls ! 0 < 1 \<or> ls ! 1 < ls ! 0 then Some (Bad_Range kind (ls ! 0) (ls ! 1)) else None)"

definition check_op :: "patch_op \<Rightarrow> op_problem option" where
  "check_op op =
     (if po_path op = [] then Some No_Path
      else if po_op op = ''REPLACE'' \<or> po_op op = ''DELETE'' then check_range (po_op op) (po_lines op)
      else if po_op op = ''ADD'' then None
      else if po_op op = ''INSERT_AFTER'' then (if po_symbol op = [] then Some No_Symbol else None)
      else Some (No_Such_Op (po_op op)))"

fun check_ops :: "nat \<Rightarrow> patch_op list \<Rightarrow> set_problem option" where
  "check_ops i [] = None"
| "check_ops i (op # ops) = (case check_op op of Some e \<Rightarrow> Some (Set_Op i e) | None \<Rightarrow> check_ops (Suc i) ops)"

definition validate_patch :: "patch_set \<Rightarrow> set_problem option" where
  "validate_patch p =
     (if ps_mission p = [] then Some Set_No_Mission
      else if ps_symbols p = None then Some Set_No_Symbols
      else if ps_files p = None then Some Set_No_Files
      else if ps_ops p = [] then Some Set_No_Ops
      else check_ops 0 (ps_ops p))"

definition edit_of_patch :: "patch_op \<Rightarrow> edit_op option" where
  "edit_of_patch op =
     (let e = \<lparr>eo_op = [], eo_path = po_path op, eo_anchor = ''placeholder'', eo_lines = [], eo_content = [],
               eo_symbol = [], eo_template = [], eo_instances = []\<rparr>
      in if po_op op = ''REPLACE'' then
           Some (e\<lparr>eo_op := ''replace_span'', eo_lines := po_lines op, eo_content := po_content op\<rparr>)
         else if po_op op = ''ADD'' then Some (e\<lparr>eo_op := ''add_file'', eo_content := po_content op\<rparr>)
         else if po_op op = ''DELETE'' then Some (e\<lparr>eo_op := ''delete_span'', eo_lines := po_lines op\<rparr>)
         else if po_op op = ''INSERT_AFTER'' then
           Some (e\<lparr>eo_op := ''insert_after_symbol'', eo_symbol := po_symbol op, eo_content := po_content op\<rparr>)
         else None)"

datatype translate_error = Set_Problem set_problem | Untranslatable string

fun edits_of_patch :: "patch_op list \<Rightarrow> string + edit_op list" where
  "edits_of_patch [] = Inr []"
| "edits_of_patch (op # ops) =
     (case edit_of_patch op of
        None \<Rightarrow> Inl (po_op op)
      | Some e \<Rightarrow> (case edits_of_patch ops of Inl x \<Rightarrow> Inl x | Inr es \<Rightarrow> Inr (e # es)))"

definition patch_response :: "patch_set \<Rightarrow> translate_error + angel_response" where
  "patch_response p =
     (case validate_patch p of
        Some e \<Rightarrow> Inl (Set_Problem e)
      | None \<Rightarrow>
          (case edits_of_patch (ps_ops p) of
             Inl k \<Rightarrow> Inl (Untranslatable k)
           | Inr es \<Rightarrow> Inr \<lparr>ar_mission = ps_mission p, ar_type = ''edit_ir'', ar_edit = Some (Some es), ar_macro = None,
                             ar_diff = [], ar_symbols = ps_symbols p, ar_files = ps_files p\<rparr>))"

section \<open>Delta-encoded content\<close>

datatype decode_error =
    Past_End nat string int
  | Bad_Count nat string
  | Low_Count nat string int
  | Exceeds nat string int int
  | Decode_Panic go_panic

definition strip_brace :: "string \<Rightarrow> string" where
  "strip_brace t =
     (if (has_prefix t ''@K{'' \<or> has_prefix t ''@S{'') \<and> has_suffix t ''}'' then take 2 t @ butlast (drop 3 t) else t)"

definition counted :: "string \<Rightarrow> string \<Rightarrow> bool" where
  "counted k t \<longleftrightarrow> has_prefix t k \<and> 2 < length t \<and> is_digit (t ! 2)"

text \<open>The count of a directive and the position after it.\<close>

definition advance :: "nat \<Rightarrow> string \<Rightarrow> string \<Rightarrow> nat \<Rightarrow> int \<Rightarrow> decode_error + int" where
  "advance n k t len pos =
     (case atoi (drop 2 t) of
        None \<Rightarrow> Inl (Bad_Count n t)
      | Some c \<Rightarrow>
          (if c < 1 then Inl (Low_Count n k c)
           else if int len < wrap64 (pos + c) then Inl (Exceeds n k c pos)
           else Inr (wrap64 (pos + c))))"

definition slice_of :: "string list \<Rightarrow> int \<Rightarrow> int \<Rightarrow> decode_error + string list" where
  "slice_of xs i j =
     (if 0 \<le> i \<and> i \<le> j \<and> j \<le> int (length xs) then Inr (take (nat (j - i)) (drop (nat i) xs)) else Inl (Decode_Panic Out_Of_Range))"

definition decode_line :: "string list \<Rightarrow> nat \<Rightarrow> string \<Rightarrow> string list \<times> int \<Rightarrow> decode_error + string list \<times> int" where
  "decode_line span n line st =
     (let (out, pos) = st; t = strip_brace (trim_space line); len = length span
      in if t = ''@K'' then
           (if int len \<le> pos then Inl (Past_End n t pos)
            else if pos < 0 then Inl (Decode_Panic Out_Of_Range)
            else Inr (out @ [span ! nat pos], wrap64 (pos + 1)))
         else if counted ''@K'' t then
           (case advance n ''@K'' t len pos of
              Inl e \<Rightarrow> Inl e
            | Inr pos' \<Rightarrow> (case slice_of span pos pos' of Inl e \<Rightarrow> Inl e | Inr xs \<Rightarrow> Inr (out @ xs, pos')))
         else if t = ''@S'' then
           (if int len \<le> pos then Inl (Past_End n t pos) else Inr (out, wrap64 (pos + 1)))
         else if counted ''@S'' t then
           (case advance n ''@S'' t len pos of Inl e \<Rightarrow> Inl e | Inr pos' \<Rightarrow> Inr (out, pos'))
         else if has_prefix line ''@@'' then Inr (out @ [tl line], pos)
         else Inr (out @ [line], pos))"

fun decode_lines :: "string list \<Rightarrow> nat \<Rightarrow> string list \<Rightarrow> string list \<times> int \<Rightarrow> decode_error + string list \<times> int" where
  "decode_lines span n [] st = Inr st"
| "decode_lines span n (l # ls) st =
     (case decode_line span n l st of Inl e \<Rightarrow> Inl e | Inr st' \<Rightarrow> decode_lines span (Suc n) ls st')"

definition decode_content :: "string \<Rightarrow> string list \<Rightarrow> decode_error + string" where
  "decode_content encoded span =
     (if encoded = [] then Inr []
      else case decode_lines span 1 (split_on LF encoded) ([], 0) of
        Inl e \<Rightarrow> Inl e
      | Inr (out, pos) \<Rightarrow> Inr (join_with [LF] out))"

definition delta_line :: "string \<Rightarrow> bool" where
  "delta_line l =
     (let t = trim_space l
      in t = ''@K'' \<or> t = ''@S'' \<or>
         (has_prefix t ''@K'' \<or> has_prefix t ''@S'') \<and> 2 < length t \<and> (is_digit (t ! 2) \<or> t ! 2 = CHR ''{''))"

definition contains_delta :: "string \<Rightarrow> bool" where
  "contains_delta c = list_ex delta_line (split_on LF c)"

datatype set_decode_error = Decode_Read nat path edit_error | Decode_Bounds nat int int nat | Decode_Content nat decode_error

definition decode_op :: "path \<Rightarrow> disk \<Rightarrow> nat \<Rightarrow> patch_op \<Rightarrow> set_decode_error + patch_op" where
  "decode_op root d i op =
     (if po_op op \<noteq> ''REPLACE'' \<or> length (po_lines op) \<noteq> 2 \<or> po_content op = [] \<or> \<not> contains_delta (po_content op)
      then Inr op
      else case read_file_lines (path_clean (root @ ''/'' @ po_path op)) d of
        Inl e \<Rightarrow> Inl (Decode_Read i (po_path op) e)
      | Inr ls \<Rightarrow>
          (let s = po_lines op ! 0; e = po_lines op ! 1
           in if s < 1 \<or> int (length ls) < e \<or> e < s then Inl (Decode_Bounds i s e (length ls))
              else case decode_content (po_content op) (take (nat (e - s + 1)) (drop (nat (s - 1)) ls)) of
                Inl x \<Rightarrow> Inl (Decode_Content i x)
              | Inr c \<Rightarrow> Inr (op\<lparr>po_content := c\<rparr>)))"

text \<open>The operations are changed in place, up to the first error.\<close>

fun decode_ops :: "path \<Rightarrow> disk \<Rightarrow> nat \<Rightarrow> patch_op list \<Rightarrow> set_decode_error option \<times> patch_op list" where
  "decode_ops root d i [] = (None, [])"
| "decode_ops root d i (op # ops) =
     (case decode_op root d i op of
        Inl e \<Rightarrow> (Some e, op # ops)
      | Inr op' \<Rightarrow> (let (e, ops') = decode_ops root d (Suc i) ops in (e, op' # ops')))"

definition decode_set :: "path \<Rightarrow> disk \<Rightarrow> patch_set \<Rightarrow> set_decode_error option \<times> patch_set" where
  "decode_set root d p = (let (e, ops) = decode_ops root d 0 (ps_ops p) in (e, p\<lparr>ps_ops := ops\<rparr>))"

section \<open>Encoding\<close>















section \<open>Printing\<close>

definition op_header :: "patch_op \<Rightarrow> string" where
  "op_header op =
     join_with '' '' ([''###'', po_op op, po_path op] @
       (if po_op op = ''REPLACE'' \<or> po_op op = ''DELETE'' then [itoa (po_lines op ! 0), itoa (po_lines op ! 1)]
        else if po_op op = ''INSERT_AFTER'' then split_on CHR '' '' (po_symbol op) else []))"

definition op_content :: "patch_op \<Rightarrow> string list" where
  "op_content op = (if po_content op = [] then [] else split_on LF (po_content op))"

definition patch_op_lines :: "patch_op \<Rightarrow> string list" where
  "patch_op_lines op = op_header op # op_content op @ [end_marker]"

definition patch_lines :: "patch_set \<Rightarrow> string list" where
  "patch_lines p =
     [''GENESIS_PATCH_V1'', ''MISSION:'' @ ps_mission p, ''SYMBOLS:'' @ join_with '','' (the (ps_symbols p)),
      ''FILES:'' @ join_with '','' (the (ps_files p))] @ List.concat (map patch_op_lines (ps_ops p))"

definition patch_text :: "patch_set \<Rightarrow> string" where
  "patch_text p = join_with [LF] (patch_lines p)"

text \<open>The patches that have a text: names without blanks and commas, contents without a line that
  ends an operation.\<close>

definition name_ok :: "string \<Rightarrow> bool" where
  "name_ok w \<longleftrightarrow> nonblank w \<and> CHR '','' \<notin> set w"

definition line_no :: "int \<Rightarrow> bool" where
  "line_no i \<longleftrightarrow> 0 \<le> i \<and> in_int64 i"

definition patch_op_ok :: "patch_op \<Rightarrow> bool" where
  "patch_op_ok op \<longleftrightarrow> nonblank (po_path op) \<and> list_all (\<lambda>l. \<not> is_end l) (op_content op) \<and>
     (if po_op op = ''REPLACE'' \<or> po_op op = ''DELETE''
      then length (po_lines op) = 2 \<and> list_all line_no (po_lines op) \<and> po_symbol op = [] \<and> (po_op op = ''DELETE'' \<longrightarrow> po_content op = [])
      else po_lines op = [] \<and>
        (po_op op = ''ADD'' \<and> po_symbol op = [] \<or>
         po_op op = ''INSERT_AFTER'' \<and> list_all nonblank (split_on CHR '' '' (po_symbol op))))"

definition patch_ok :: "patch_set \<Rightarrow> bool" where
  "patch_ok p \<longleftrightarrow> nonblank (ps_mission p) \<and>
     (\<exists>ss. ps_symbols p = Some ss \<and> list_all name_ok ss) \<and> (\<exists>fs. ps_files p = Some fs \<and> list_all name_ok fs) \<and>
     list_all patch_op_ok (ps_ops p)"

lemma trim_nonblank: "nonblank w \<Longrightarrow> trim_space w = w"
  using nonblank_ends [of w] by (simp add: nonblank_def trim_space_id)

lemma names_join:
  assumes "list_all name_ok ws" "nonblank k"
  shows "nonblank (k @ join_with '','' ws)" "split_csv (join_with '','' ws) = ws"
proof -
  have "list_all word_char (join_with '','' ws)"
    using assms(1) by (induction "'',''" ws rule: join_with.induct) (auto simp: name_ok_def nonblank_def word_char_def)
  then show "nonblank (k @ join_with '','' ws)" using assms(2) by (simp add: nonblank_def)
  show "split_csv (join_with '','' ws) = ws"
  proof (cases "ws = []")
    case True
    have "trim_space [] = []" by code_simp
    with True show ?thesis by (simp add: split_csv_def)
  next
    case False
    have "map trim_space ws = ws" using assms(1) by (intro map_idI) (auto simp: list_all_iff name_ok_def trim_nonblank)
    moreover have "filter (\<lambda>p. p \<noteq> []) ws = ws" using assms(1) by (intro filter_True) (auto simp: list_all_iff name_ok_def nonblank_def)
    ultimately show ?thesis
      using split_on_join [OF False, of "CHR '',''"] assms(1) by (simp add: split_csv_def list_all_iff name_ok_def)
  qed
qed

lemma line_no_nonblank: "line_no i \<Longrightarrow> nonblank (itoa i)"
  by (simp add: line_no_def word_nonblank itoa_word)

lemma header_parts:
  assumes "patch_op_ok op"
  defines "ws \<equiv> [''###'', po_op op, po_path op] @
       (if po_op op = ''REPLACE'' \<or> po_op op = ''DELETE'' then [itoa (po_lines op ! 0), itoa (po_lines op ! 1)]
        else if po_op op = ''INSERT_AFTER'' then split_on CHR '' '' (po_symbol op) else [])"
  shows "op_header op = join_with '' '' ws" "list_all nonblank ws"
proof -
  have k: "nonblank ''###''" "nonblank ''REPLACE''" "nonblank ''DELETE''" "nonblank ''ADD''" "nonblank ''INSERT_AFTER''"
    by (simp_all add: nonblank_def word_char_def)
  show "op_header op = join_with '' '' ws" by (simp add: op_header_def ws_def)
  have two: "list_all nonblank [itoa (ls ! 0), itoa (ls ! 1)]" if "length ls = 2" "list_all line_no ls" for ls
    using that line_no_nonblank by (auto simp: numeral_2_eq_2 length_Suc_conv)
  show "list_all nonblank ws"
    using assms(1) k two [of "po_lines op"]
    by (auto simp: ws_def patch_op_ok_def split: if_splits)
qed

lemma header_trim:
  assumes "patch_op_ok op"
  shows "trim_space (op_header op) = op_header op" "has_prefix (op_header op) op_marker" "LF \<notin> set (op_header op)"
proof -
  define ws where "ws = [po_op op, po_path op] @
       (if po_op op = ''REPLACE'' \<or> po_op op = ''DELETE'' then [itoa (po_lines op ! 0), itoa (po_lines op ! 1)]
        else if po_op op = ''INSERT_AFTER'' then split_on CHR '' '' (po_symbol op) else [])"
  have w: "op_header op = join_with '' '' (''###'' # ws)" "list_all nonblank (''###'' # ws)" "ws \<noteq> []"
    using header_parts [OF assms] by (simp_all add: ws_def)
  then show "trim_space (op_header op) = op_header op"
    using last_join_nonblank [of "''###'' # ws" "'' ''"] hd_join_nonblank [of "''###'' # ws" "'' ''"]
    by (intro trim_space_id) simp_all
  show "has_prefix (op_header op) op_marker" using w(1,3) by (cases ws) (simp_all add: op_marker_def)
  have "LF \<notin> set (join_with '' '' xs)" if "list_all nonblank xs" for xs
    using that by (induction "'' ''" xs rule: join_with.induct) (auto dest: nonblank_no_LF)
  with w show "LF \<notin> set (op_header op)" by simp
qed

lemma parse_header:
  assumes "patch_op_ok op"
  shows "parse_op_header (op_header op) = Inr (op\<lparr>po_content := []\<rparr>)"
proof -
  note h = header_parts [OF assms]
  have f: "Prelude.fields (op_header op) = [''###'', po_op op, po_path op] @
       (if po_op op = ''REPLACE'' \<or> po_op op = ''DELETE'' then [itoa (po_lines op ! 0), itoa (po_lines op ! 1)]
        else if po_op op = ''INSERT_AFTER'' then split_on CHR '' '' (po_symbol op) else [])"
    unfolding h(1) by (rule fields_join) (use h(2) in simp_all)
  have r: "[ls ! 0, ls ! 1] = ls" "atoi (itoa (ls ! 0)) = Some (ls ! 0)" "atoi (itoa (ls ! 1)) = Some (ls ! 1)"
    if "length ls = 2" "list_all line_no ls" for ls
    using that by (auto simp: line_no_def atoi_itoa numeral_2_eq_2 length_Suc_conv)
  consider "po_op op = ''REPLACE'' \<or> po_op op = ''DELETE''" | "po_op op = ''ADD''" | "po_op op = ''INSERT_AFTER''"
    using assms by (auto simp: patch_op_ok_def split: if_splits)
  then show ?thesis
  proof cases
    case 1
    with assms r [of "po_lines op"] show ?thesis
      by (auto simp: parse_op_header_def f parse_range_def patch_op_ok_def Let_def)
  next
    case 2
    with assms show ?thesis by (simp add: parse_op_header_def f patch_op_ok_def)
  next
    case 3
    moreover obtain w ws where w: "split_on CHR '' '' (po_symbol op) = w # ws"
      by (cases "split_on CHR '' '' (po_symbol op)") simp_all
    moreover have "join_with '' '' (w # ws) = po_symbol op" using join_split_on [of "CHR '' ''" "po_symbol op"] w by simp
    ultimately have "parse_op_header (op_header op) =
        Inr \<lparr>po_op = po_op op, po_path = po_path op, po_lines = po_lines op, po_symbol = po_symbol op, po_content = []\<rparr>"
      using assms by (simp add: parse_op_header_def f patch_op_ok_def Let_def)
    then show ?thesis by simp
  qed
qed

lemma parse_printed_op:
  assumes "patch_op_ok op"
  shows "parse_op (op_header op) (op_content op @ end_marker # rest) = Inr (op, Suc (length (op_content op)))"
proof -
  have e: "is_end end_marker" by code_simp
  have c: "takeWhile (\<lambda>l. \<not> is_end l) (op_content op @ end_marker # rest) = op_content op"
    using assms e by (subst takeWhile_append2) (auto simp: patch_op_ok_def list_all_iff)
  have "op_content op = [] \<longleftrightarrow> po_content op = []" "op_content op \<noteq> [] \<Longrightarrow> join_with [LF] (op_content op) = po_content op"
    by (simp_all add: op_content_def join_split_on split: if_splits)
  moreover have "po_op op = ''DELETE'' \<Longrightarrow> po_content op = []" using assms by (simp add: patch_op_ok_def)
  ultimately show ?thesis
    by (auto simp: parse_op_def header_trim(1) [OF assms] parse_header [OF assms] c Let_def)
qed

lemma parse_printed_ops:
  "list_all patch_op_ok ops \<Longrightarrow> parse_ops n (List.concat (map patch_op_lines ops)) acc = Inr (acc @ ops)"
proof (induction ops arbitrary: n acc)
  case (Cons op ops)
  then have ok: "patch_op_ok op" by simp
  have "List.concat (map patch_op_lines (op # ops)) =
      op_header op # op_content op @ end_marker # List.concat (map patch_op_lines ops)"
    by (simp add: patch_op_lines_def)
  with Cons header_trim(1,2) [OF ok] parse_printed_op [OF ok, of "List.concat (map patch_op_lines ops)"]
  show ?case by simp
qed simp

section \<open>Properties\<close>



text \<open> The bounds check of a count is done in 64 bits and wraps around: after one kept line, a
  count of 2^63 - 1 passes it on every span and the slice expression panics. \<close>

theorem decode_count_overflow:
  assumes "span \<noteq> []"
  shows "decode_content (''@K1'' @ [LF] @ ''@K9223372036854775807'') span = Inl (Decode_Panic Out_Of_Range)"
proof -
  obtain x xs where x: "span = x # xs" using assms by (cases span) auto
  have f: "split_on LF (''@K1'' @ [LF] @ ''@K9223372036854775807'') = [''@K1'', ''@K9223372036854775807'']"
    "strip_brace (trim_space ''@K1'') = ''@K1''" "strip_brace (trim_space ''@K9223372036854775807'') = ''@K9223372036854775807''"
    "counted ''@K'' ''@K1''" "counted ''@K'' ''@K9223372036854775807''" by code_simp+
  have a: "atoi ''1'' = Some 1" "atoi ''9223372036854775807'' = Some 9223372036854775807"
    "wrap64 1 = 1" "wrap64 9223372036854775808 = - 9223372036854775808"
    by (simp_all add: atoi_def digit_val_def in_int64_def wrap64_def)
  have "decode_line span (Suc 0) ''@K1'' ([], 0) = Inr ([x], 1)"
    unfolding decode_line_def Let_def prod.case f(2) by (simp add: f(4) a(1,3) x advance_def slice_of_def)
  moreover have "decode_line span (Suc (Suc 0)) ''@K9223372036854775807'' ([x], 1) = Inl (Decode_Panic Out_Of_Range)"
    unfolding decode_line_def Let_def prod.case f(3) by (simp add: f(5) a(2,4) advance_def slice_of_def)
  ultimately show ?thesis by (simp add: decode_content_def f(1) del: append_Cons append_Nil)
qed

lemma decode_count_overflow_witness:
  "decode_content (''@K1'' @ [LF] @ ''@K9223372036854775807'') [''a''] = Inl (Decode_Panic Out_Of_Range)"
  by (rule decode_count_overflow) simp

text \<open> Printing a patch and parsing it gives the patch back: mission, symbols, files and every
  operation with its range, symbol and content. \<close>

theorem patch_print_parse:
  assumes "patch_ok p"
  shows "parse_patch (patch_text p) = Inr p"
proof -
  obtain ss fs where ok: "nonblank (ps_mission p)" "ps_symbols p = Some ss" "list_all name_ok ss"
    "ps_files p = Some fs" "list_all name_ok fs" "list_all patch_op_ok (ps_ops p)"
    using assms by (auto simp: patch_ok_def)
  let ?ops = "List.concat (map patch_op_lines (ps_ops p))"
  have k: "nonblank ''MISSION:''" "nonblank ''SYMBOLS:''" "nonblank ''FILES:''" "nonblank ''GENESIS_PATCH_V1''"
    by (simp_all add: nonblank_def word_char_def)
  have ne: "nonblank (''MISSION:'' @ ps_mission p)" using k(1) ok(1) by (simp add: nonblank_def)
  note names = names_join(1) [OF ok(3) k(2)] names_join(1) [OF ok(5) k(3)]
  have noLF: "\<forall>l \<in> set ?ops. LF \<notin> set l"
  proof -
    have "LF \<notin> set end_marker" by (simp add: end_marker_def)
    then have "\<forall>l \<in> set (patch_op_lines op). LF \<notin> set l" if "patch_op_ok op" for op
      using that header_trim(3) by (auto simp: patch_op_lines_def op_content_def dest: split_on_pieces split: if_splits)
    then show ?thesis using ok(6) by (auto simp: list_all_iff)
  qed
  have "split_on LF (patch_text p) = patch_lines p"
    unfolding patch_text_def
    by (rule split_on_join)
      (use noLF nonblank_no_LF [OF ne] nonblank_no_LF [OF names(1)] nonblank_no_LF [OF names(2)] ok(2,4) in \<open>auto simp: patch_lines_def\<close>)
  moreover have "parse_meta n ?ops q = (n, ?ops, q)" for n q
  proof (cases "ps_ops p")
    case (Cons op os)
    with ok(6) header_trim [of op] have "trim_space (op_header op) = op_header op" "has_prefix (op_header op) op_marker" by auto
    moreover from this(2) have "op_header op \<noteq> []" by (auto simp: op_marker_def has_prefix_def)
    ultimately show ?thesis by (simp add: Cons patch_op_lines_def)
  qed simp
  moreover have m: "\<not> has_prefix (''MISSION:'' @ x) op_marker" "\<not> has_prefix (''SYMBOLS:'' @ x) op_marker"
    "\<not> has_prefix (''FILES:'' @ x) op_marker" for x
    by (simp_all add: op_marker_def)
  ultimately show ?thesis
    using trim_nonblank [OF ne] trim_nonblank [OF names(1)] trim_nonblank [OF names(2)] trim_nonblank [OF k(4)]
      trim_nonblank [OF ok(1)] ok parse_printed_ops [OF ok(6)] names_join(2) [OF ok(3) k(2)] names_join(2) [OF ok(5) k(3)]
    by (simp add: parse_patch_def patch_lines_def meta_line_def nonblank_def Let_def)
qed

definition ex_patch :: patch_set where
  "ex_patch = \<lparr>ps_mission = ''m'', ps_symbols = Some [''f'', ''g''], ps_files = Some [''a''],
     ps_ops = [\<lparr>po_op = ''REPLACE'', po_path = ''a'', po_lines = [2, 3], po_symbol = [], po_content = ''x'' @ [LF] @ ''y''\<rparr>,
       \<lparr>po_op = ''INSERT_AFTER'', po_path = ''a'', po_lines = [], po_symbol = ''func f'', po_content = []\<rparr>]\<rparr>"

lemma ex_patch_ok: "patch_ok ex_patch"
proof -
  have "\<not> is_end ''x''" "\<not> is_end ''y''" by code_simp+
  then show ?thesis
    by (simp add: patch_ok_def ex_patch_def name_ok_def nonblank_def word_char_def patch_op_ok_def op_content_def
        line_no_def in_int64_def)
qed

lemma patch_print_parse_witness: "parse_patch (patch_text ex_patch) = Inr ex_patch"
  by (rule patch_print_parse [OF ex_patch_ok])

text \<open>Every checked operation has an edit.\<close>

lemma check_ops_None: "check_ops i ops = None \<longleftrightarrow> list_all (\<lambda>op. check_op op = None) ops"
  by (induction i ops rule: check_ops.induct) (auto split: option.splits)

lemma check_op_edit:
  assumes "check_op op = None"
  obtains e where "edit_of_patch op = Some e" "edit_op_ok e"
    "\<forall>sha. po_op op \<noteq> ''ADD'' \<longrightarrow> (\<forall>t. sha t \<noteq> ''placeholder'') \<longrightarrow> hopeless sha e"
  using assms by (auto simp: check_op_def edit_of_patch_def edit_op_ok_def edit_kinds_def hopeless_def Let_def split: if_splits)

lemma edits_checked:
  assumes "list_all (\<lambda>op. check_op op = None) ops"
  shows "\<exists>es. edits_of_patch ops = Inr es \<and> map Some es = map edit_of_patch ops \<and> list_all edit_op_ok es \<and>
    (\<forall>sha. (\<forall>t. sha t \<noteq> ''placeholder'') \<longrightarrow> (\<exists>op \<in> set ops. po_op op \<noteq> ''ADD'') \<longrightarrow> (\<exists>e \<in> set es. hopeless sha e))"
  using assms
proof (induction ops)
  case (Cons op ops)
  then obtain e where e: "edit_of_patch op = Some e" "edit_op_ok e"
    "\<forall>sha. po_op op \<noteq> ''ADD'' \<longrightarrow> (\<forall>t. sha t \<noteq> ''placeholder'') \<longrightarrow> hopeless sha e"
    by (auto elim: check_op_edit)
  from Cons obtain es where es: "edits_of_patch ops = Inr es" "map Some es = map edit_of_patch ops" "list_all edit_op_ok es"
    "\<forall>sha. (\<forall>t. sha t \<noteq> ''placeholder'') \<longrightarrow> (\<exists>op \<in> set ops. po_op op \<noteq> ''ADD'') \<longrightarrow> (\<exists>e \<in> set es. hopeless sha e)" by auto
  show ?case by (rule exI [of _ "e # es"]) (use e es in auto)
qed simp

text \<open> A patch that passes the check translates, and the result answers the patch's mission with
  an edit response that passes validation, one edit per operation in their order. \<close>

theorem patch_response_valid:
  "(case validate_patch p of
      Some e \<Rightarrow> patch_response p = Inl (Set_Problem e)
    | None \<Rightarrow> (case patch_response p of
        Inl e \<Rightarrow> False
      | Inr r \<Rightarrow> validate_angel_response r (ps_mission p) = None \<and>
          (\<exists>es. ar_edit r = Some (Some es) \<and> map Some es = map edit_of_patch (ps_ops p))))"
proof (cases "validate_patch p")
  case None
  then have v: "ps_mission p \<noteq> []" "ps_symbols p \<noteq> None" "ps_files p \<noteq> None"
    "list_all (\<lambda>op. check_op op = None) (ps_ops p)"
    by (auto simp: validate_patch_def check_ops_None split: if_splits)
  from edits_checked [OF v(4)] v None show ?thesis
    by (auto simp: patch_response_def validate_response_None validate_output_None)
qed (simp add: patch_response_def)

text \<open> The translation gives every edit the same placeholder for an anchor: unless the patch only
  adds files, applying its edits as they are fails, on every disk, for every hash function
  that never yields the placeholder. \<close>

theorem patch_edits_unanchored:
  assumes "\<forall>t. sha t \<noteq> ''placeholder''" "patch_response p = Inr r" "ar_edit r = Some (Some es)"
    and "\<exists>op \<in> set (ps_ops p). po_op op \<noteq> ''ADD''"
  shows "\<exists>k e d'. apply_edit_ir sha root es d = (Inl (k, e), d')"
proof -
  have "validate_patch p = None" using assms(2) by (auto simp: patch_response_def split: option.splits)
  then have "list_all (\<lambda>op. check_op op = None) (ps_ops p)"
    by (auto simp: validate_patch_def check_ops_None split: if_splits)
  from edits_checked [OF this] assms obtain es' where "edits_of_patch (ps_ops p) = Inr es'" "\<exists>e \<in> set es'. hopeless sha e" by blast
  with assms(2,3) have "\<exists>e \<in> set es. hopeless sha e" by (auto simp: patch_response_def split: option.splits)
  then show ?thesis unfolding apply_edit_ir_def by (rule hopeless_stops)
qed

lemma patch_edits_unanchored_witness:
  "\<exists>r es k e d'. patch_response ex_patch = Inr r \<and> ar_edit r = Some (Some es) \<and>
     apply_edit_ir (\<lambda>_. ''00'') ''r'' es (ex_repo ex_text) = (Inl (k, e), d')"
proof -
  have "\<exists>r. patch_response ex_patch = Inr r \<and> (\<exists>es. ar_edit r = Some (Some es))"
    by (simp add: patch_response_def validate_patch_def ex_patch_def check_op_def check_range_def edit_of_patch_def)
  then obtain r es where r: "patch_response ex_patch = Inr r" "ar_edit r = Some (Some es)" by blast
  moreover have "\<exists>op \<in> set (ps_ops ex_patch). po_op op \<noteq> ''ADD''" by (simp add: ex_patch_def)
  ultimately show ?thesis
    using patch_edits_unanchored [of "\<lambda>_. ''00''" ex_patch r es "''r''" "ex_repo ex_text"] by blast
qed

end
