(* ===== verification/Genesis_ISA.thy ===== *)
theory Genesis_ISA
  imports Angel_Assembly
begin

text \<open>
  The instruction set of God, version 0: the parser (\<open>god/isa_parser.go\<close>) and the compiler
  (\<open>god/isa_compiler.go\<close>), which lowers a program to Angel Assembly, compiles that and adds
  what only the instruction set has. Errors are a line number and a message, as there.
\<close>

section \<open>Programs\<close>

record isa_need =
  sn_kind :: string
  sn_symbol :: string
  sn_path :: string
  sn_start :: int
  sn_n :: int
  sn_pattern :: string

record isa_run =
  rn_kind :: string
  rn_pattern :: string

record isa_if_fail =
  ff_action :: string
  ff_n :: int

record isa_program =
  isa_version :: int
  isa_base :: string
  isa_prompt :: string
  isa_mode :: string
  isa_budget :: int
  isa_invariants :: "string list"
  isa_needs :: "isa_need list"
  isa_ops :: "string list"
  isa_runs :: "isa_run list"
  isa_asserts :: "string list"
  isa_if_fails :: "isa_if_fail list"
  isa_labels :: "string list"
  isa_halt :: bool

text \<open>How often the directives that may occur once were met.\<close>

record isa_seen =
  seen_version :: nat
  seen_base :: nat
  seen_prompt :: nat
  seen_mode :: nat
  seen_budget :: nat

definition isa_current :: int where
  "isa_current = 0"

section \<open>Parsing\<close>

definition no_need :: isa_need where
  "no_need = \<lparr>sn_kind = [], sn_symbol = [], sn_path = [], sn_start = 0, sn_n = 0, sn_pattern = []\<rparr>"

definition parse_isa_need :: "nat \<Rightarrow> string \<Rightarrow> aa_error + isa_need" where
  "parse_isa_need n rest =
     (let fs = Prelude.fields rest; kind = hd fs
      in if kind = ''symdef'' then
           (if length fs \<noteq> 2 then Inl (n, ''NEED symdef requires exactly 1 argument: symbol'')
            else Inr (no_need\<lparr>sn_kind := ''symdef'', sn_symbol := fs ! 1\<rparr>))
         else if kind = ''callers'' then
           (if length fs < 2 \<or> 3 < length fs then Inl (n, ''NEED callers requires 1-2 arguments: symbol [top_k]'')
            else (let need = no_need\<lparr>sn_kind := ''callers'', sn_symbol := fs ! 1\<rparr>
                  in if length fs = 3 then
                       (case atoi (fs ! 2) of
                          Some k \<Rightarrow> (if k \<le> 0 then Inl (n, ''NEED callers top_k must be a positive integer'')
                                     else Inr (need\<lparr>sn_n := k\<rparr>))
                        | None \<Rightarrow> Inl (n, ''NEED callers top_k must be a positive integer''))
                     else Inr need))
         else if kind = ''slice'' then
           (if length fs \<noteq> 4 then Inl (n, ''NEED slice requires exactly 3 arguments: path start_line line_count'')
            else case atoi (fs ! 2) of
              None \<Rightarrow> Inl (n, ''NEED slice start_line must be a non-negative integer'')
            | Some s \<Rightarrow>
                (if s < 0 then Inl (n, ''NEED slice start_line must be a non-negative integer'')
                 else case atoi (fs ! 3) of
                   None \<Rightarrow> Inl (n, ''NEED slice line_count must be a positive integer'')
                 | Some k \<Rightarrow>
                     (if k \<le> 0 then Inl (n, ''NEED slice line_count must be a positive integer'')
                      else Inr (no_need\<lparr>sn_kind := ''slice'', sn_path := fs ! 1, sn_start := s, sn_n := k\<rparr>))))
         else if kind = ''test'' then
           (if length fs \<noteq> 2 then Inl (n, ''NEED test requires exactly 1 argument: pattern'')
            else Inr (no_need\<lparr>sn_kind := ''test'', sn_pattern := fs ! 1\<rparr>))
         else Inl (n, ''unknown NEED kind '' @ go_quote kind @ '' (expected symdef, callers, slice, or test)''))"

definition parse_isa_run :: "nat \<Rightarrow> string \<Rightarrow> aa_error + isa_run" where
  "parse_isa_run n rest =
     (let fs = Prelude.fields rest; kind = hd fs
      in if kind = ''test'' then
           (if length fs \<noteq> 2 then Inl (n, ''RUN test requires exactly 1 argument: pattern'')
            else Inr \<lparr>rn_kind = ''test'', rn_pattern = fs ! 1\<rparr>)
         else if kind = ''lint'' then Inr \<lparr>rn_kind = ''lint'', rn_pattern = []\<rparr>
         else if kind = ''typecheck'' then Inr \<lparr>rn_kind = ''typecheck'', rn_pattern = []\<rparr>
         else Inl (n, ''unknown RUN kind '' @ go_quote kind @ '' (expected test, lint, or typecheck)''))"

definition parse_isa_if_fail :: "nat \<Rightarrow> string \<Rightarrow> aa_error + isa_if_fail" where
  "parse_isa_if_fail n rest =
     (let fs = Prelude.fields rest; action = hd fs
      in if action = ''RETRY'' then
           (if length fs \<noteq> 2 then Inl (n, ''IF_FAIL RETRY requires exactly 1 argument: count'')
            else case atoi (fs ! 1) of
              None \<Rightarrow> Inl (n, ''IF_FAIL RETRY count must be a positive integer'')
            | Some k \<Rightarrow> (if k \<le> 0 then Inl (n, ''IF_FAIL RETRY count must be a positive integer'')
                         else Inr \<lparr>ff_action = ''RETRY'', ff_n = k\<rparr>))
         else if action = ''ESCALATE'' then Inr \<lparr>ff_action = ''ESCALATE'', ff_n = 0\<rparr>
         else if action = ''HALT'' then Inr \<lparr>ff_action = ''HALT'', ff_n = 0\<rparr>
         else Inl (n, ''unknown IF_FAIL action '' @ go_quote action @ '' (expected RETRY, ESCALATE, or HALT)''))"

definition strip_quotes :: "string \<Rightarrow> string" where
  "strip_quotes s = (if 2 \<le> length s \<and> hd s = CHR 0x22 \<and> last s = CHR 0x22 then butlast (tl s) else s)"

type_synonym isa_state = "isa_program \<times> isa_seen"

text \<open>The directives that may occur once.\<close>

definition isa_version_directive :: "nat \<Rightarrow> string \<Rightarrow> isa_state \<Rightarrow> aa_error + isa_state" where
  "isa_version_directive n rest st =
     (let (p, seen) = st
      in if 0 < seen_version seen then Inl (n, ''duplicate ISA_VERSION'')
         else case atoi rest of
           None \<Rightarrow> Inl (n, ''ISA_VERSION must be an integer, got '' @ go_quote rest)
         | Some v \<Rightarrow>
             (if v \<noteq> isa_current
              then Inl (n, ''unsupported ISA_VERSION '' @ itoa v @ '' (expected '' @ itoa isa_current @ '')'')
              else Inr (p\<lparr>isa_version := v\<rparr>, seen\<lparr>seen_version := seen_version seen + 1\<rparr>)))"

definition isa_mode_directive :: "nat \<Rightarrow> string \<Rightarrow> isa_state \<Rightarrow> aa_error + isa_state" where
  "isa_mode_directive n rest st =
     (let (p, seen) = st
      in if 0 < seen_mode seen then Inl (n, ''duplicate MODE'')
         else if rest \<noteq> ''SOLO'' \<and> rest \<noteq> ''SWARM''
           then Inl (n, ''MODE must be SOLO or SWARM, got '' @ go_quote rest)
         else Inr (p\<lparr>isa_mode := rest\<rparr>, seen\<lparr>seen_mode := seen_mode seen + 1\<rparr>))"

definition isa_budget_directive :: "nat \<Rightarrow> string \<Rightarrow> isa_state \<Rightarrow> aa_error + isa_state" where
  "isa_budget_directive n rest st =
     (let (p, seen) = st
      in if 0 < seen_budget seen then Inl (n, ''duplicate BUDGET'')
         else case atoi rest of
           None \<Rightarrow> Inl (n, ''BUDGET must be a positive integer'')
         | Some b \<Rightarrow> (if b \<le> 0 then Inl (n, ''BUDGET must be a positive integer'')
                      else Inr (p\<lparr>isa_budget := b\<rparr>, seen\<lparr>seen_budget := seen_budget seen + 1\<rparr>)))"

definition isa_need_directive :: "nat \<Rightarrow> string \<Rightarrow> isa_state \<Rightarrow> aa_error + isa_state" where
  "isa_need_directive n rest st =
     (case parse_isa_need n rest of
        Inl e \<Rightarrow> Inl e | Inr x \<Rightarrow> Inr ((fst st)\<lparr>isa_needs := isa_needs (fst st) @ [x]\<rparr>, snd st))"

definition isa_run_directive :: "nat \<Rightarrow> string \<Rightarrow> isa_state \<Rightarrow> aa_error + isa_state" where
  "isa_run_directive n rest st =
     (case parse_isa_run n rest of
        Inl e \<Rightarrow> Inl e | Inr x \<Rightarrow> Inr ((fst st)\<lparr>isa_runs := isa_runs (fst st) @ [x]\<rparr>, snd st))"

definition isa_if_fail_directive :: "nat \<Rightarrow> string \<Rightarrow> isa_state \<Rightarrow> aa_error + isa_state" where
  "isa_if_fail_directive n rest st =
     (case parse_isa_if_fail n rest of
        Inl e \<Rightarrow> Inl e | Inr x \<Rightarrow> Inr ((fst st)\<lparr>isa_if_fails := isa_if_fails (fst st) @ [x]\<rparr>, snd st))"

definition isa_base_directive :: "nat \<Rightarrow> string \<Rightarrow> isa_state \<Rightarrow> aa_error + isa_state" where
  "isa_base_directive n rest st =
     (let (p, seen) = st
      in if 0 < seen_base seen then Inl (n, ''duplicate BASE_REV'')
         else Inr (p\<lparr>isa_base := rest\<rparr>, seen\<lparr>seen_base := seen_base seen + 1\<rparr>))"

definition isa_prompt_directive :: "nat \<Rightarrow> string \<Rightarrow> isa_state \<Rightarrow> aa_error + isa_state" where
  "isa_prompt_directive n rest st =
     (let (p, seen) = st
      in if 0 < seen_prompt seen then Inl (n, ''duplicate PROMPT_REF'')
         else Inr (p\<lparr>isa_prompt := rest\<rparr>, seen\<lparr>seen_prompt := seen_prompt seen + 1\<rparr>))"

text \<open>The switch over the keywords: what a directive lacks when nothing follows it, and what it does.
  \<open>HALT\<close> needs nothing.\<close>

definition isa_table :: "(string \<times> string \<times> (nat \<Rightarrow> string \<Rightarrow> isa_state \<Rightarrow> aa_error + isa_state)) list" where
  "isa_table =
     [(''ISA_VERSION'', ''a value'', isa_version_directive),
      (''BASE_REV'', ''a value'', isa_base_directive),
      (''PROMPT_REF'', ''a value'', isa_prompt_directive),
      (''MODE'', ''a value'', isa_mode_directive),
      (''BUDGET'', ''a value'', isa_budget_directive),
      (''INVARIANT'', ''a value'',
        \<lambda>n rest (p, seen). Inr (p\<lparr>isa_invariants := isa_invariants p @ [strip_quotes rest]\<rparr>, seen)),
      (''NEED'', ''arguments'', isa_need_directive),
      (''OP'', ''a value'', \<lambda>n rest (p, seen). Inr (p\<lparr>isa_ops := isa_ops p @ [rest]\<rparr>, seen)),
      (''RUN'', ''arguments'', isa_run_directive),
      (''ASSERT'', ''a condition'', \<lambda>n rest (p, seen). Inr (p\<lparr>isa_asserts := isa_asserts p @ [rest]\<rparr>, seen)),
      (''IF_FAIL'', ''an action'', isa_if_fail_directive),
      (''LABEL'', ''a name'', \<lambda>n rest (p, seen). Inr (p\<lparr>isa_labels := isa_labels p @ [rest]\<rparr>, seen))]"

definition isa_directive :: "nat \<Rightarrow> string \<Rightarrow> string \<Rightarrow> isa_state \<Rightarrow> aa_error + isa_state" where
  "isa_directive n kw rest st =
     (case map_of isa_table kw of
        None \<Rightarrow>
          (if kw = ''HALT'' then Inr ((fst st)\<lparr>isa_halt := True\<rparr>, snd st)
           else Inl (n, ''unknown directive '' @ go_quote kw))
      | Some (what, act) \<Rightarrow>
          (if rest = [] then Inl (n, kw @ '' requires '' @ what) else act n rest st))"

definition parse_isa_line :: "nat \<Rightarrow> string \<Rightarrow> isa_state \<Rightarrow> aa_error + isa_state" where
  "parse_isa_line n raw st =
     (let l = trim_space raw
      in if l = [] \<or> has_prefix l ''#'' then Inr st
         else (let (kw, r) = split2 (CHR '' '') (strip_comment l)
               in isa_directive n kw (case r of None \<Rightarrow> [] | Some x \<Rightarrow> trim_space x) st))"

fun parse_isa_lines :: "nat \<Rightarrow> string list \<Rightarrow> isa_state \<Rightarrow> aa_error + isa_state" where
  "parse_isa_lines n [] st = Inr st"
| "parse_isa_lines n (l # ls) st =
     (case parse_isa_line n l st of Inl e \<Rightarrow> Inl e | Inr st' \<Rightarrow> parse_isa_lines (Suc n) ls st')"

definition empty_isa :: isa_state where
  "empty_isa =
     (\<lparr>isa_version = 0, isa_base = [], isa_prompt = [], isa_mode = [], isa_budget = 0, isa_invariants = [], isa_needs = [],
       isa_ops = [], isa_runs = [], isa_asserts = [], isa_if_fails = [], isa_labels = [], isa_halt = False\<rparr>,
      \<lparr>seen_version = 0, seen_base = 0, seen_prompt = 0, seen_mode = 0, seen_budget = 0\<rparr>)"

definition parse_isa :: "string \<Rightarrow> aa_error + isa_program" where
  "parse_isa source =
     (case parse_isa_lines 1 (split_on LF source) empty_isa of
        Inl e \<Rightarrow> Inl e
      | Inr (p, seen) \<Rightarrow>
          (if seen_version seen = 0 then Inl (0, ''missing required ISA_VERSION'')
           else if isa_base p = [] then Inl (0, ''missing required BASE_REV'')
           else Inr (if isa_mode p = [] then p\<lparr>isa_mode := ''SWARM''\<rparr> else p)))"

section \<open>Compiling\<close>

definition need_scope :: "isa_need \<Rightarrow> scope option" where
  "need_scope ne =
     (if sn_kind ne = ''symdef'' \<or> sn_kind ne = ''callers'' then Some \<lparr>sc_type = ''symbol'', sc_value = sn_symbol ne\<rparr>
      else if sn_kind ne = ''slice'' then Some \<lparr>sc_type = ''file'', sc_value = sn_path ne\<rparr>
      else if sn_kind ne = ''test'' then None
      else Some \<lparr>sc_type = [], sc_value = []\<rparr>)"

text \<open>One lease for each scope, keyed by type and value.\<close>

fun derive_leases :: "isa_need list \<Rightarrow> string list \<Rightarrow> scope list" where
  "derive_leases [] seen = []"
| "derive_leases (ne # ns) seen =
     (case need_scope ne of
        None \<Rightarrow> derive_leases ns seen
      | Some s \<Rightarrow>
          (let key = sc_type s @ '':'' @ sc_value s
           in if key \<in> set seen then derive_leases ns seen else s # derive_leases ns (key # seen)))"

definition aa_need_of :: "isa_need \<Rightarrow> aa_need" where
  "aa_need_of ne =
     \<lparr>ne_kind = sn_kind ne, ne_symbol = sn_symbol ne, ne_path = sn_path ne, ne_start = sn_start ne, ne_n = sn_n ne\<rparr>"

definition lower_isa :: "isa_program \<Rightarrow> aa_program" where
  "lower_isa p =
     (let ls = derive_leases (isa_needs p) []
      in \<lparr>aa_base = isa_base p,
          aa_leases = (if ls = [] then [\<lparr>sc_type = ''file'', sc_value = ''*''\<rparr>] else ls),
          aa_needs = map aa_need_of (filter (\<lambda>ne. sn_kind ne \<in> {''symdef'', ''callers'', ''slice''}) (isa_needs p)),
          aa_dos = (if isa_ops p \<noteq> [] then isa_ops p else if isa_invariants p \<noteq> [] then isa_invariants p
                    else [''execute ISA program'']),
          aa_asserts = map (\<lambda>c. \<lparr>as_kind = ''tests'', as_selector = c\<rparr>) (isa_asserts p),
          aa_return = ''edit_ir''\<rparr>)"

definition test_request :: "string \<Rightarrow> isa_need \<Rightarrow> shard_request" where
  "test_request mid ne =
     \<lparr>sr_command = ''PF_TESTS'', sr_mission = mid, sr_symbol = sn_pattern ne, sr_path = [], sr_start = 0, sr_n = 0, sr_top_k = 0\<rparr>"

record isa_result =
  ic_mission :: mission
  ic_requests :: "shard_request list"
  ic_mode :: string
  ic_invariants :: "string list"
  ic_runs :: "isa_run list"
  ic_if_fails :: "isa_if_fail list"
  ic_ops :: "string list"
  ic_labels :: "string list"
  ic_prompt :: string
  ic_halt :: bool

definition compile_isa :: "string \<Rightarrow> string \<Rightarrow> isa_program \<Rightarrow> isa_result" where
  "compile_isa mid now p =
     (let (m, reqs) = compile_aa mid now (lower_isa p);
          m' = (if 0 < isa_budget p then m\<lparr>mi_budget := isa_budget p\<rparr> else m)
      in \<lparr>ic_mission = m',
          ic_requests = reqs @ map (test_request (mi_id m')) (filter (\<lambda>ne. sn_kind ne = ''test'') (isa_needs p)),
          ic_mode = isa_mode p, ic_invariants = isa_invariants p, ic_runs = isa_runs p, ic_if_fails = isa_if_fails p,
          ic_ops = isa_ops p, ic_labels = isa_labels p, ic_prompt = isa_prompt p, ic_halt = isa_halt p\<rparr>)"

section \<open>Programs that parse\<close>

definition isa_need_sound :: "isa_need \<Rightarrow> bool" where
  "isa_need_sound ne \<longleftrightarrow> sn_kind ne = ''symdef'' \<or> sn_kind ne = ''callers'' \<and> 0 \<le> sn_n ne \<or>
     sn_kind ne = ''slice'' \<and> 0 \<le> sn_start ne \<and> 0 < sn_n ne \<or> sn_kind ne = ''test''"

definition isa_sound :: "isa_program \<Rightarrow> bool" where
  "isa_sound p \<longleftrightarrow> isa_version p = 0 \<and> isa_mode p \<in> {[], ''SOLO'', ''SWARM''} \<and> 0 \<le> isa_budget p \<and>
     list_all isa_need_sound (isa_needs p) \<and> list_all (\<lambda>o'. o' \<noteq> []) (isa_ops p) \<and>
     list_all (\<lambda>r. rn_kind r \<in> {''test'', ''lint'', ''typecheck''}) (isa_runs p) \<and>
     list_all (\<lambda>f. ff_action f \<in> {''ESCALATE'', ''HALT''} \<or> ff_action f = ''RETRY'' \<and> 0 < ff_n f) (isa_if_fails p)"

lemma parse_isa_need_sound: "parse_isa_need n rest = Inr ne \<Longrightarrow> isa_need_sound ne"
  by (auto simp: parse_isa_need_def isa_need_sound_def no_need_def Let_def split: if_splits option.splits)

lemma parse_isa_run_sound: "parse_isa_run n rest = Inr r \<Longrightarrow> rn_kind r \<in> {''test'', ''lint'', ''typecheck''}"
  by (auto simp: parse_isa_run_def Let_def split: if_splits)

lemma parse_isa_if_fail_sound:
  "parse_isa_if_fail n rest = Inr f \<Longrightarrow> ff_action f \<in> {''ESCALATE'', ''HALT''} \<or> ff_action f = ''RETRY'' \<and> 0 < ff_n f"
  by (auto simp: parse_isa_if_fail_def Let_def split: if_splits option.splits)

text \<open>Every action of the table keeps a program sound.\<close>

definition act_sound :: "(nat \<Rightarrow> string \<Rightarrow> isa_state \<Rightarrow> aa_error + isa_state) \<Rightarrow> bool" where
  "act_sound act \<longleftrightarrow> (\<forall>n rest p s p' s'. act n rest (p, s) = Inr (p', s') \<longrightarrow> rest \<noteq> [] \<longrightarrow> isa_sound p \<longrightarrow> isa_sound p')"

lemma isa_acts_sound:
  "act_sound isa_version_directive" "act_sound isa_mode_directive" "act_sound isa_budget_directive"
  "act_sound isa_base_directive" "act_sound isa_prompt_directive"
  by (auto simp: act_sound_def isa_version_directive_def isa_mode_directive_def isa_budget_directive_def
      isa_base_directive_def isa_prompt_directive_def isa_sound_def isa_current_def split: if_splits option.splits)

lemma isa_append_sound:
  "act_sound isa_need_directive" "act_sound isa_run_directive" "act_sound isa_if_fail_directive"
  using parse_isa_need_sound parse_isa_run_sound parse_isa_if_fail_sound
  by (fastforce simp: act_sound_def isa_need_directive_def isa_run_directive_def isa_if_fail_directive_def isa_sound_def
      split: sum.splits)+

lemma isa_table_sound: "list_all (\<lambda>(kw, what, act). act_sound act) isa_table"
  by (simp add: isa_table_def isa_acts_sound isa_append_sound) (simp add: act_sound_def isa_sound_def)

lemma isa_directive_sound:
  assumes "isa_directive n kw rest (p, s) = Inr (p', s')" "isa_sound p"
  shows "isa_sound p'"
proof (cases "map_of isa_table kw")
  case None
  with assms show ?thesis by (auto simp: isa_directive_def isa_sound_def split: if_splits)
next
  case (Some wa)
  then obtain what act where w: "wa = (what, act)" "act_sound act"
    using isa_table_sound map_of_SomeD by (fastforce simp: list_all_iff)
  with Some assms(1) have "rest \<noteq> []" "act n rest (p, s) = Inr (p', s')" by (auto simp: isa_directive_def split: if_splits)
  with w(2) assms(2) show ?thesis unfolding act_sound_def by blast
qed

lemma parse_isa_lines_sound:
  "parse_isa_lines n ls (p, s) = Inr (p', s') \<Longrightarrow> isa_sound p \<Longrightarrow> isa_sound p'"
proof (induction ls arbitrary: n p s)
  case (Cons l ls)
  obtain p1 s1 where l: "parse_isa_line n l (p, s) = Inr (p1, s1)" "parse_isa_lines (Suc n) ls (p1, s1) = Inr (p', s')"
    using Cons.prems(1) by (auto split: sum.splits)
  have "isa_sound p1"
    using l(1) Cons.prems(2) isa_directive_sound by (auto simp: parse_isa_line_def Let_def split: if_splits prod.splits)
  with Cons.IH l(2) show ?case by blast
qed simp

lemma parse_isa_sound:
  assumes "parse_isa source = Inr p"
  shows "isa_sound p" "isa_mode p \<noteq> []" "isa_base p \<noteq> []"
proof -
  obtain q s where q: "parse_isa_lines 1 (split_on LF source) empty_isa = Inr (q, s)" "isa_base q \<noteq> []"
    "p = (if isa_mode q = [] then q\<lparr>isa_mode := ''SWARM''\<rparr> else q)"
    using assms by (auto simp: parse_isa_def split: sum.splits prod.splits if_splits)
  have "isa_sound (fst empty_isa)" by (simp add: isa_sound_def empty_isa_def)
  then have "isa_sound q" using q(1) parse_isa_lines_sound by (metis prod.collapse)
  with q(2,3) show "isa_sound p" "isa_mode p \<noteq> []" "isa_base p \<noteq> []" by (auto simp: isa_sound_def)
qed

text \<open>The leases of a sound program: its scopes, each once.\<close>

definition needed_scopes :: "isa_need list \<Rightarrow> scope set" where
  "needed_scopes ns = {s. \<exists>ne \<in> set ns. need_scope ne = Some s}"

definition scope_text :: "scope \<Rightarrow> string" where
  "scope_text s = sc_type s @ '':'' @ sc_value s"

lemma scope_text_inj:
  assumes "isa_need_sound ne" "isa_need_sound ne'" "need_scope ne = Some s" "need_scope ne' = Some t"
  shows "scope_text s = scope_text t \<longleftrightarrow> s = t"
  using assms by (auto simp: isa_need_sound_def need_scope_def scope_text_def split: if_splits)

lemma derive_leases_spec:
  "list_all isa_need_sound ns \<Longrightarrow>
   distinct (derive_leases ns seen) \<and> set (derive_leases ns seen) = {s \<in> needed_scopes ns. scope_text s \<notin> set seen}"
proof (induction ns seen rule: derive_leases.induct)
  case (2 ne ns seen)
  show ?case
  proof (cases "need_scope ne")
    case None
    with 2 show ?thesis by (simp add: needed_scopes_def)
  next
    case (Some s)
    have inj: "scope_text t = scope_text s \<longleftrightarrow> t = s" if "t \<in> needed_scopes ns" for t
      using that 2(4) Some scope_text_inj by (auto simp: needed_scopes_def list_all_iff)
    have n: "needed_scopes (ne # ns) = insert s (needed_scopes ns)" using Some by (auto simp: needed_scopes_def)
    show ?thesis
    proof (cases "scope_text s \<in> set seen")
      case True
      with 2(2) [OF Some refl] 2(4) Some n show ?thesis by (auto simp: scope_text_def)
    next
      case False
      with 2(3) [OF Some refl] 2(4) Some n inj show ?thesis by (auto simp: scope_text_def)
    qed
  qed
qed (simp add: needed_scopes_def)

section \<open>Properties\<close>

text \<open> Whatever text of the instruction set parses compiles: the mission leases the scopes of its
  needs, each once (every file when there is none), there is one request per need, the budget
  is positive, and the mission passes validation exactly when its goal is not empty. \<close>

theorem isa_parse_compiles:
  assumes "parse_isa source = Inr p" "mid \<noteq> []" "now \<noteq> []" "rfc3339 now"
  defines "r \<equiv> compile_isa mid now p"
  defines "m \<equiv> ic_mission r"
  shows "isa_sound p \<and> distinct (mi_scopes m) \<and>
    set (mi_scopes m) = (if needed_scopes (isa_needs p) = {} then {\<lparr>sc_type = ''file'', sc_value = ''*''\<rparr>}
                         else needed_scopes (isa_needs p)) \<and>
    length (ic_requests r) = length (isa_needs p) \<and> 0 < mi_budget m \<and>
    (validate_mission rfc3339 m = None \<longleftrightarrow> mi_goal m \<noteq> [])"
proof -
  note s = parse_isa_sound [OF assms(1)]
  have ns: "list_all isa_need_sound (isa_needs p)" using s(1) by (simp add: isa_sound_def)
  from derive_leases_spec [OF ns, of "[]"]
  have d: "distinct (derive_leases (isa_needs p) [])" "set (derive_leases (isa_needs p) []) = needed_scopes (isa_needs p)" by auto
  have "sn_kind ne \<in> {''symdef'', ''callers'', ''slice''} \<longleftrightarrow> sn_kind ne \<noteq> ''test''" if "ne \<in> set (isa_needs p)" for ne
    using that ns by (auto simp: list_all_iff isa_need_sound_def)
  then have f: "filter (\<lambda>ne. sn_kind ne \<in> {''symdef'', ''callers'', ''slice''}) (isa_needs p) = filter (\<lambda>ne. sn_kind ne \<noteq> ''test'') (isa_needs p)"
    by (intro filter_cong) auto
  have len: "length (filter (\<lambda>ne. sn_kind ne \<noteq> ''test'') (isa_needs p)) + length (filter (\<lambda>ne. sn_kind ne = ''test'') (isa_needs p)) = length (isa_needs p)"
    using sum_length_filter_compl [of "\<lambda>ne. sn_kind ne = ''test''" "isa_needs p"] by simp
  have e: "derive_leases (isa_needs p) [] = [] \<longleftrightarrow> needed_scopes (isa_needs p) = {}" using d(2) by (metis set_empty)
  have m: "m = (fst (compile_aa mid now (lower_isa p)))\<lparr>mi_budget := (if 0 < isa_budget p then isa_budget p else 8000)\<rparr>"
    by (simp add: m_def r_def compile_isa_def compile_aa_def)
  have "length (ic_requests r) = length (isa_needs p)"
    by (simp only: r_def compile_isa_def compile_aa_def lower_isa_def f Let_def prod.case isa_result.simps aa_program.simps
        length_append length_map len)
  moreover have "distinct (mi_scopes m) \<and> set (mi_scopes m) = (if needed_scopes (isa_needs p) = {} then {\<lparr>sc_type = ''file'', sc_value = ''*''\<rparr>}
      else needed_scopes (isa_needs p))"
    using d e by (auto simp: m compile_aa_def lower_isa_def Let_def)
  moreover have "0 < mi_budget m" by (simp add: m)
  moreover have "validate_mission rfc3339 m = None \<longleftrightarrow> mi_goal m \<noteq> []"
    using s(3) assms(2-4) by (auto simp: m validate_mission_def compile_aa_def lower_isa_def Let_def)
  ultimately show ?thesis using s(1) by blast
qed

definition ex_isa :: string where
  "ex_isa = ''ISA_VERSION 0'' @ [LF] @ ''BASE_REV r'' @ [LF] @ ''INVARIANT '' @ [CHR 0x22, CHR 0x22]"

lemma isa_parse_compiles_witness:
  "(case parse_isa ex_isa of Inr p \<Rightarrow> mi_budget (ic_mission (compile_isa ''m'' ''now'' p)) > 0 | Inl _ \<Rightarrow> False)"
proof -
  have "\<exists>p. parse_isa ex_isa = Inr p" by (rule exI) code_simp
  then obtain p where "parse_isa ex_isa = Inr p" by blast
  with isa_parse_compiles [OF this, of "''m''" "''now''" "\<lambda>_. True"] show ?thesis by simp
qed

text \<open> An invariant may be the empty string in quotes; a program with no operations and this
  invariant parses and compiles to a mission that fails validation, for want of a goal. \<close>

theorem isa_empty_goal:
  "(case parse_isa ex_isa of
      Inl e \<Rightarrow> False
    | Inr p \<Rightarrow> validate_mission (\<lambda>_. True) (ic_mission (compile_isa ''m'' ''now'' p)) = Some ''validate mission: goal is required'')"
  by code_simp

end
