(* ===== verification/Lean_TSLN.thy ===== *)
theory Lean_TSLN
  imports Plain_Text
begin

text \<open>
  The lean notation of telemetry rows, \<open>internal/lean\<close>: the schema (\<open>tsln.go\<close>), the encoder
  (\<open>encoder.go\<close>) and the decoder (\<open>decoder.go\<close>). A time is a number of nanoseconds; its texts
  (\<open>time.RFC3339\<close> and the default format) and the arithmetic of floating-point columns, which
  no schema of the code uses, are parameters.
\<close>

section \<open>Values and schemas\<close>

datatype tval = V_Nil | V_Time int | V_Str string | V_Int int

record column =
  col_name :: string
  col_type :: string
  col_enc :: string

record tsln_env =
  te_fmt :: "int \<Rightarrow> string"
  te_parse :: "string \<Rightarrow> int option"
  te_show :: "int \<Rightarrow> string"
  te_enc_float :: "string \<Rightarrow> tval option \<Rightarrow> tval \<Rightarrow> string"
  te_dec_float :: "string \<Rightarrow> string \<Rightarrow> tval option \<Rightarrow> tval option"

record metrics_row =
  mw_time :: int
  mw_mission :: string
  mw_status :: string
  mw_pf_count :: int
  mw_pf_size :: int
  mw_retries :: int
  mw_rejects :: int
  mw_conflicts :: int
  mw_failures :: int
  mw_in :: int
  mw_out :: int
  mw_turns :: int
  mw_elapsed :: int
  mw_phases :: int

definition int_column :: "string \<Rightarrow> column" where
  "int_column n = \<lparr>col_name = n, col_type = ''i'', col_enc = ''d''\<rparr>"

definition metrics_schema :: "column list" where
  "metrics_schema =
     [\<lparr>col_name = ''t'', col_type = ''t'', col_enc = ''d''\<rparr>, \<lparr>col_name = ''status'', col_type = ''s'', col_enc = ''r''\<rparr>] @
     map int_column [''pf_count'', ''pf_resp_size'', ''retries'', ''rejects'', ''conflicts'', ''test_fail'', ''tokens_in'',
       ''tokens_out'', ''turns'', ''elapsed_ms'', ''phase_tx'']"

definition row_counters :: "metrics_row \<Rightarrow> int list" where
  "row_counters r = [mw_pf_count r, mw_pf_size r, mw_retries r, mw_rejects r, mw_conflicts r, mw_failures r, mw_in r,
     mw_out r, mw_turns r, mw_elapsed r, mw_phases r]"

definition row_values :: "metrics_row \<Rightarrow> tval list" where
  "row_values r = [V_Time (mw_time r), V_Str (mw_status r)] @ map V_Int (row_counters r)"

section \<open>Encoding\<close>

datatype encode_error = Row_Length nat nat | Not_A_Time string | No_Rows

definition ns_per_ms :: int where
  "ns_per_ms = 1000000"

text \<open>\<open>time.Time.Sub\<close>, which saturates, and \<open>Milliseconds\<close>, which truncates toward zero.\<close>

definition time_sub :: "int \<Rightarrow> int \<Rightarrow> int" where
  "time_sub a b = max (- (2 ^ 63)) (min (2 ^ 63 - 1) (a - b))"

definition millis_of :: "int \<Rightarrow> int" where
  "millis_of d = (if d < 0 then - ((- d) div ns_per_ms) else d div ns_per_ms)"

definition to_int :: "tval \<Rightarrow> int" where
  "to_int v = (case v of V_Int n \<Rightarrow> n | _ \<Rightarrow> 0)"

definition tval_text :: "tsln_env \<Rightarrow> tval \<Rightarrow> string" where
  "tval_text te v = (case v of V_Nil \<Rightarrow> ''<nil>'' | V_Time t \<Rightarrow> te_show te t | V_Str s \<Rightarrow> s | V_Int n \<Rightarrow> itoa n)"

definition signed_text :: "int \<Rightarrow> string" where
  "signed_text d = (if d = 0 then ''0'' else if 0 < d then CHR ''+'' # itoa d else itoa d)"

definition encode_value :: "tsln_env \<Rightarrow> int \<Rightarrow> column \<Rightarrow> tval option \<Rightarrow> tval \<Rightarrow> encode_error + string" where
  "encode_value te base col prev v =
     (if col_type col = ''t'' then
        (case v of V_Time t \<Rightarrow> Inr (itoa (millis_of (time_sub t base))) | _ \<Rightarrow> Inl (Not_A_Time (col_name col)))
      else if col_type col = ''s'' then
        Inr (case prev of
               Some p \<Rightarrow> (if col_enc col = ''r'' \<and> tval_text te v = tval_text te p then ''='' else tval_text te v)
             | None \<Rightarrow> tval_text te v)
      else if col_type col = ''i'' then
        Inr (case prev of
               Some p \<Rightarrow> (if col_enc col = ''d'' then signed_text (wrap64 (to_int v - to_int p)) else itoa (to_int v))
             | None \<Rightarrow> itoa (to_int v))
      else if col_type col = ''f'' then Inr (te_enc_float te (col_enc col) prev v)
      else Inr (tval_text te v))"

fun encode_values :: "tsln_env \<Rightarrow> int \<Rightarrow> column list \<Rightarrow> tval list option \<Rightarrow> tval list \<Rightarrow> encode_error + string list" where
  "encode_values te base (c # cs) prev (v # vs) =
     (case encode_value te base c (map_option hd prev) v of
        Inl e \<Rightarrow> Inl e
      | Inr t \<Rightarrow> (case encode_values te base cs (map_option tl prev) vs of Inl e \<Rightarrow> Inl e | Inr ts \<Rightarrow> Inr (t # ts)))"
| "encode_values te base cs prev vs = Inr []"

text \<open>The encoder: the text so far and the values of the row before.\<close>

type_synonym encoder = "string \<times> tval list option"

definition encode_row :: "tsln_env \<Rightarrow> column list \<Rightarrow> int \<Rightarrow> tval list \<Rightarrow> encoder \<Rightarrow> encode_error + encoder" where
  "encode_row te cols base vs st =
     (if length vs \<noteq> length cols then Inl (Row_Length (length vs) (length cols))
      else case encode_values te base cols (snd st) vs of
        Inl e \<Rightarrow> Inl e
      | Inr ts \<Rightarrow> Inr (fst st @ join_with ''|'' ts @ [LF], Some vs))"

definition header_text :: "tsln_env \<Rightarrow> column list \<Rightarrow> int \<Rightarrow> string" where
  "header_text te cols base =
     ''# TSLN/2.0'' @ [LF] @
     ''# Schema: '' @ join_with '' '' (map (\<lambda>c. col_name c @ '':'' @ col_type c) cols) @ [LF] @
     ''# Base: '' @ te_fmt te base @ [LF] @
     ''# Encoding: '' @ join_with '','' (map col_enc cols) @ [LF] @
     ''---'' @ [LF]"

fun encode_rows :: "tsln_env \<Rightarrow> column list \<Rightarrow> int \<Rightarrow> tval list list \<Rightarrow> encoder \<Rightarrow> encode_error + encoder" where
  "encode_rows te cols base [] st = Inr st"
| "encode_rows te cols base (r # rs) st =
     (case encode_row te cols base r st of Inl e \<Rightarrow> Inl e | Inr st' \<Rightarrow> encode_rows te cols base rs st')"

definition encode_metrics_rows :: "tsln_env \<Rightarrow> metrics_row list \<Rightarrow> encode_error + string" where
  "encode_metrics_rows te rows =
     (case rows of
        [] \<Rightarrow> Inl No_Rows
      | r # rs \<Rightarrow>
          (case encode_rows te metrics_schema (mw_time r) (map row_values rows) (header_text te metrics_schema (mw_time r), None) of
             Inl e \<Rightarrow> Inl e
           | Inr (t, _) \<Rightarrow> Inr t))"

definition encode_metrics_row :: "tsln_env \<Rightarrow> metrics_row \<Rightarrow> encode_error + string" where
  "encode_metrics_row te r = encode_metrics_rows te [r]"

section \<open>Decoding\<close>

datatype tsln_decode_error =
    Bad_Schema_Field string
  | Bad_Base string
  | No_Separator
  | Empty_Schema
  | Field_Count nat nat
  | Bad_Offset string string
  | Bad_Int string string
  | Bad_Float string string

record header =
  hd_columns :: "column list"
  hd_base :: int
  hd_encodings :: "string list"

text \<open>The zero value of \<open>time.Time\<close>, midnight of January 1 of year 1.\<close>

definition zero_time :: int where
  "zero_time = - 62135596800000000000"

fun schema_fields :: "string list \<Rightarrow> tsln_decode_error + column list" where
  "schema_fields [] = Inr []"
| "schema_fields (p # ps) =
     (case split2 (CHR '':'') p of
        (n, Some t) \<Rightarrow>
          (case schema_fields ps of Inl e \<Rightarrow> Inl e | Inr cs \<Rightarrow> Inr (\<lparr>col_name = n, col_type = t, col_enc = []\<rparr> # cs))
      | (n, None) \<Rightarrow> Inl (Bad_Schema_Field p))"

definition header_line :: "tsln_env \<Rightarrow> string \<Rightarrow> header \<Rightarrow> tsln_decode_error + header" where
  "header_line te line h =
     (if \<not> has_prefix line ''#'' then Inr h
      else (let content = trim_space (drop 1 line)
            in if has_prefix content ''Schema:'' then
                 (case schema_fields (Prelude.fields (trim_space (drop 7 content))) of
                    Inl e \<Rightarrow> Inl e
                  | Inr cs \<Rightarrow> Inr (h\<lparr>hd_columns := hd_columns h @ cs\<rparr>))
               else if has_prefix content ''Base:'' then
                 (case te_parse te (trim_space (drop 5 content)) of
                    None \<Rightarrow> Inl (Bad_Base (trim_space (drop 5 content)))
                  | Some b \<Rightarrow> Inr (h\<lparr>hd_base := b\<rparr>))
               else if has_prefix content ''Encoding:'' then
                 Inr (h\<lparr>hd_encodings := hd_encodings h @
                   map trim_space (split_on (CHR '','') (trim_space (drop 9 content)))\<rparr>)
               else Inr h))"

text \<open>The header up to the separator, and the lines after it, \<open>None\<close> without a separator.\<close>

fun decode_header :: "tsln_env \<Rightarrow> string list \<Rightarrow> header \<Rightarrow> tsln_decode_error + header \<times> string list option" where
  "decode_header te [] h = Inr (h, None)"
| "decode_header te (l # ls) h =
     (if trim_space l = ''---'' then Inr (h, Some ls)
      else case header_line te (trim_space l) h of Inl e \<Rightarrow> Inl e | Inr h' \<Rightarrow> decode_header te ls h')"

definition decode_delta_int :: "string \<Rightarrow> string \<Rightarrow> tval option \<Rightarrow> int option" where
  "decode_delta_int val enc prev =
     (case prev of
        Some p \<Rightarrow>
          (if enc = ''d'' \<and> (has_prefix val ''+'' \<or> has_prefix val ''-'')
           then map_option (\<lambda>delta. wrap64 (to_int p + delta)) (atoi val)
           else atoi val)
      | None \<Rightarrow> atoi val)"

text \<open>A field: its value, and whether the row gets a key for it.\<close>

definition decode_field :: "tsln_env \<Rightarrow> int \<Rightarrow> column \<Rightarrow> tval option \<Rightarrow> string \<Rightarrow> tsln_decode_error + tval" where
  "decode_field te base col prev val =
     (if col_type col = ''t'' then
        (case atoi val of
           None \<Rightarrow> Inl (Bad_Offset (col_name col) val)
         | Some ms \<Rightarrow> Inr (V_Time (base + wrap64 (ms * ns_per_ms))))
      else if col_type col = ''s'' then
        Inr (case prev of Some p \<Rightarrow> (if col_enc col = ''r'' \<and> val = ''='' then p else V_Str val) | None \<Rightarrow> V_Str val)
      else if col_type col = ''i'' then
        (case decode_delta_int val (col_enc col) prev of None \<Rightarrow> Inl (Bad_Int (col_name col) val) | Some n \<Rightarrow> Inr (V_Int n))
      else if col_type col = ''f'' then
        (case te_dec_float te val (col_enc col) prev of None \<Rightarrow> Inl (Bad_Float (col_name col) val) | Some v \<Rightarrow> Inr v)
      else Inr V_Nil)"

fun decode_fields :: "tsln_env \<Rightarrow> int \<Rightarrow> column list \<Rightarrow> tval list option \<Rightarrow> string list \<Rightarrow> tsln_decode_error + tval list" where
  "decode_fields te base (c # cs) prev (v # vs) =
     (case decode_field te base c (map_option hd prev) v of
        Inl e \<Rightarrow> Inl e
      | Inr x \<Rightarrow> (case decode_fields te base cs (map_option tl prev) vs of Inl e \<Rightarrow> Inl e | Inr xs \<Rightarrow> Inr (x # xs)))"
| "decode_fields te base cs prev vs = Inr []"

definition row_map :: "column list \<Rightarrow> tval list \<Rightarrow> (string \<times> tval) list" where
  "row_map cols vs =
     fold (\<lambda>(c, v) m. aput (col_name c) v m) (filter (\<lambda>(c, v). col_type c \<in> {''t'', ''s'', ''i'', ''f''}) (zip cols vs)) []"

fun decode_rows :: "tsln_env \<Rightarrow> int \<Rightarrow> column list \<Rightarrow> tval list option \<Rightarrow> string list \<Rightarrow> tsln_decode_error + tval list list" where
  "decode_rows te base cols prev [] = Inr []"
| "decode_rows te base cols prev (l # ls) =
     (let t = trim_space l
      in if t = [] then decode_rows te base cols prev ls
         else (let parts = split_on (CHR ''|'') t
               in if length parts \<noteq> length cols then Inl (Field_Count (length parts) (length cols))
                  else case decode_fields te base cols prev parts of
                    Inl e \<Rightarrow> Inl e
                  | Inr vs \<Rightarrow>
                      (case decode_rows te base cols (Some vs) ls of Inl e \<Rightarrow> Inl e | Inr rs \<Rightarrow> Inr (vs # rs))))"

definition decode_tsln :: "tsln_env \<Rightarrow> string \<Rightarrow> tsln_decode_error + (string \<times> tval) list list" where
  "decode_tsln te data =
     (case decode_header te (split_on LF (trim_space data)) \<lparr>hd_columns = [], hd_base = zero_time, hd_encodings = []\<rparr> of
        Inl e \<Rightarrow> Inl e
      | Inr (h, None) \<Rightarrow> Inl No_Separator
      | Inr (h, Some ls) \<Rightarrow>
          (if hd_columns h = [] then Inl Empty_Schema
           else (let cols = (if length (hd_encodings h) = length (hd_columns h)
                             then map (\<lambda>(c, e). c\<lparr>col_enc := e\<rparr>) (zip (hd_columns h) (hd_encodings h)) else hd_columns h)
                 in case decode_rows te (hd_base h) cols None ls of
                      Inl e \<Rightarrow> Inl e
                    | Inr rows \<Rightarrow> Inr (map (row_map cols) rows))))"

section \<open>What a document decodes to\<close>

text \<open>The documented behaviour of the format RFC 3339 on which the notation relies: a text without
  blanks that parses to the time cut to whole seconds.\<close>

definition rfc3339_ok :: "tsln_env \<Rightarrow> bool" where
  "rfc3339_ok te \<longleftrightarrow> (\<forall>t. nonblank (te_fmt te t) \<and> te_parse te (te_fmt te t) = Some (t div 1000000000 * 1000000000))"

definition status_ok :: "string \<Rightarrow> bool" where
  "status_ok s \<longleftrightarrow> LF \<notin> set s \<and> CHR ''|'' \<notin> set s \<and> s \<noteq> ''=''"

definition row_ok :: "int \<Rightarrow> metrics_row \<Rightarrow> bool" where
  "row_ok base r \<longleftrightarrow> status_ok (mw_status r) \<and> list_all in_int64 (row_counters r) \<and> in_int64 (mw_time r - base)"

text \<open>The counters of a row as the decoder sees them, from the counters of the row before and what
  the decoder saw of those: an unchanged counter is written \<open>0\<close>, which has no sign and is taken
  for an absolute value.\<close>

definition seen_counter :: "int \<Rightarrow> int \<Rightarrow> int \<Rightarrow> int" where
  "seen_counter p d v = (if v = p then 0 else wrap64 (d + (v - p)))"

fun seen_counters :: "(int list \<times> int list) option \<Rightarrow> int list \<Rightarrow> int list" where
  "seen_counters None vs = vs"
| "seen_counters (Some (ps, ds)) vs = map (\<lambda>((p, d), v). seen_counter p d v) (zip (zip ps ds) vs)"

definition seen_row :: "int \<Rightarrow> int \<Rightarrow> (int list \<times> int list) option \<Rightarrow> metrics_row \<Rightarrow> tval list" where
  "seen_row base base' prev r =
     [V_Time (base' + millis_of (mw_time r - base) * ns_per_ms), V_Str (mw_status r)] @
     map V_Int (seen_counters prev (row_counters r))"

fun seen_rows :: "int \<Rightarrow> int \<Rightarrow> (int list \<times> int list) option \<Rightarrow> metrics_row list \<Rightarrow> tval list list" where
  "seen_rows base base' prev [] = []"
| "seen_rows base base' prev (r # rs) =
     seen_row base base' prev r # seen_rows base base' (Some (row_counters r, seen_counters prev (row_counters r))) rs"

section \<open>Numbers as texts\<close>

lemma itoa_chars: "c \<in> set (itoa i) \<Longrightarrow> is_digit c \<or> c = CHR ''-''"
  using nat_str_digits by (auto simp: itoa_def split: if_splits)

lemma itoa_ends: "itoa i \<noteq> [] \<and> word_char (hd (itoa i)) \<and> word_char (last (itoa i)) \<and> LF \<notin> set (itoa i) \<and> CHR ''|'' \<notin> set (itoa i)"
proof -
  have w: "word_char c" if "is_digit c \<or> c = CHR ''-''" for c
    using that by (auto simp: is_digit_def digit_val_def word_char_def split: if_splits)
  have ne: "itoa i \<noteq> []" by (simp add: itoa_def)
  have "\<not> is_digit (CHR ''|'')" by (simp add: is_digit_def digit_val_def)
  then have "CHR ''|'' \<notin> set (itoa i)" "LF \<notin> set (itoa i)" using itoa_chars by fastforce+
  with ne w [OF itoa_chars [OF hd_in_set [OF ne]]] w [OF itoa_chars [OF last_in_set [OF ne]]] show ?thesis by blast
qed

lemma nat_str_no_sign: "\<not> has_prefix (nat_str n) ''+'' \<and> \<not> has_prefix (nat_str n) ''-''"
  using nat_str_head [of n] by (auto simp: has_prefix_iff)

lemma atoi_signed:
  assumes "in_int64 d" "d \<noteq> 0"
  shows "atoi (signed_text d) = Some d" "has_prefix (signed_text d) ''+'' \<or> has_prefix (signed_text d) ''-''"
proof -
  show "atoi (signed_text d) = Some d"
  proof (cases "0 < d")
    case True
    then have "nat_str (nat d) \<noteq> []" by simp
    with True assms show ?thesis by (simp add: signed_text_def itoa_def atoi_def)
  next
    case False
    with assms show ?thesis by (simp add: signed_text_def atoi_itoa)
  qed
  show "has_prefix (signed_text d) ''+'' \<or> has_prefix (signed_text d) ''-''"
    using assms(2) by (auto simp: signed_text_def itoa_def)
qed

lemma signed_chars: "LF \<notin> set (signed_text d) \<and> CHR ''|'' \<notin> set (signed_text d) \<and> signed_text d \<noteq> [] \<and>
  word_char (hd (signed_text d)) \<and> word_char (last (signed_text d))"
  using itoa_ends [of d] by (auto simp: signed_text_def word_char_def)

lemma wrap64_zero_diff:
  assumes "in_int64 v" "in_int64 p"
  shows "wrap64 (v - p) = 0 \<longleftrightarrow> v = p"
proof -
  have b: "- (2 ^ 64) < v - p" "v - p < 2 ^ 64" using assms by (auto simp: in_int64_def)
  consider "in_int64 (v - p)" | "2 ^ 63 \<le> v - p" | "v - p < - (2 ^ 63)" unfolding in_int64_def by linarith
  then show ?thesis
  proof cases
    case 1
    then show ?thesis by (simp add: wrap64_id)
  next
    case 2
    with b show ?thesis by (simp add: wrap64_over)
  next
    case 3
    have "wrap64 (v - p + 2 ^ 64) = (v - p + 2 ^ 63 + 2 ^ 64) mod 2 ^ 64 - 2 ^ 63"
      by (simp only: wrap64_def add.assoc add.commute [of "2 ^ 64"])
    then have "wrap64 (v - p) = wrap64 (v - p + 2 ^ 64)" by (simp only: mod_add_self2 wrap64_def)
    moreover have "in_int64 (v - p + 2 ^ 64)" using 3 b by (simp add: in_int64_def)
    ultimately show ?thesis using 3 b by (simp add: wrap64_id)
  qed
qed

section \<open>One row\<close>

definition counter_text :: "int option \<Rightarrow> int \<Rightarrow> string" where
  "counter_text prev v = (case prev of None \<Rightarrow> itoa v | Some p \<Rightarrow> signed_text (wrap64 (v - p)))"

lemma counter_text_ends:
  "LF \<notin> set (counter_text p v) \<and> CHR ''|'' \<notin> set (counter_text p v) \<and> counter_text p v \<noteq> [] \<and>
   word_char (hd (counter_text p v)) \<and> word_char (last (counter_text p v))"
  using itoa_ends [of v] signed_chars by (auto simp: counter_text_def split: option.split)

lemma encode_counter: "encode_value te base (int_column n) (map_option V_Int p) (V_Int v) = Inr (counter_text p v)"
  by (cases p) (simp_all add: encode_value_def int_column_def counter_text_def to_int_def)

lemma decode_counter:
  assumes "in_int64 v" "case p of None \<Rightarrow> True | Some (p, d) \<Rightarrow> in_int64 p"
  shows "decode_field te base (int_column n) (map_option (\<lambda>(p, d). V_Int d) p) (counter_text (map_option fst p) v) =
    Inr (V_Int (case p of None \<Rightarrow> v | Some (p, d) \<Rightarrow> seen_counter p d v))"
proof (cases p)
  case None
  then show ?thesis using assms(1) by (simp add: decode_field_def int_column_def decode_delta_int_def counter_text_def atoi_itoa)
next
  case (Some pd)
  then obtain q d where pd: "p = Some (q, d)" by (cases pd) auto
  let ?w = "wrap64 (v - q)"
  have w: "in_int64 ?w" by (rule wrap64_range)
  show ?thesis
  proof (cases "v = q")
    case True
    then have "?w = 0" by (simp add: wrap64_def)
    moreover have "atoi ''0'' = Some 0" "\<not> has_prefix ''0'' ''+''" "\<not> has_prefix ''0'' ''-''" by code_simp+
    ultimately show ?thesis
      using True pd by (simp add: decode_field_def int_column_def decode_delta_int_def counter_text_def signed_text_def seen_counter_def)
  next
    case False
    then have nz: "?w \<noteq> 0" using wrap64_zero_diff assms pd by simp
    have "wrap64 (d + ?w) = wrap64 (d + (v - q))" using wrap64_wrap64 [of "v - q" d] by (simp add: add.commute)
    with atoi_signed [OF w nz] False pd show ?thesis
      by (simp add: decode_field_def int_column_def decode_delta_int_def counter_text_def seen_counter_def to_int_def)
  qed
qed

definition counter_texts :: "int list option \<Rightarrow> int list \<Rightarrow> string list" where
  "counter_texts ps vs = (case ps of None \<Rightarrow> map (counter_text None) vs | Some ps \<Rightarrow> map (\<lambda>(p, v). counter_text (Some p) v) (zip ps vs))"

lemma encode_counters:
  "length ns = length vs \<Longrightarrow> (case ps of None \<Rightarrow> True | Some ps \<Rightarrow> length ps = length vs) \<Longrightarrow>
   encode_values te base (map int_column ns) (map_option (map V_Int) ps) (map V_Int vs) = Inr (counter_texts ps vs)"
proof (induction ns vs arbitrary: ps rule: list_induct2')
  case (4 n ns v vs)
  show ?case
  proof (cases ps)
    case None
    with 4 show ?thesis using 4(1) [of None] encode_counter [of te base n None] by (simp add: counter_texts_def)
  next
    case (Some qs)
    then obtain q qs' where "qs = q # qs'" using 4(3) by (cases qs) auto
    with Some 4 show ?thesis using 4(1) [of "Some qs'"] encode_counter [of te base n "Some q"] by (simp add: counter_texts_def)
  qed
qed (auto simp: counter_texts_def split: option.splits)

lemma decode_counters:
  assumes "length ns = length vs" "list_all in_int64 vs"
    and "case pds of None \<Rightarrow> True | Some (ps, ds) \<Rightarrow> length ps = length vs \<and> length ds = length vs \<and> list_all in_int64 ps"
  shows "decode_fields te base (map int_column ns) (map_option (\<lambda>(ps, ds). map V_Int ds) pds) (counter_texts (map_option fst pds) vs) =
    Inr (map V_Int (seen_counters pds vs))"
  using assms
proof (induction ns vs arbitrary: pds rule: list_induct2')
  case (4 n ns v vs)
  show ?case
  proof (cases pds)
    case None
    with 4 show ?thesis using 4(1) [of None] decode_counter [of v None te base n] by (simp add: counter_texts_def)
  next
    case (Some pd)
    then obtain p ps d ds where "pds = Some (p # ps, d # ds)" using 4(4) by (cases pd) (auto simp: length_Suc_conv)
    with 4 show ?thesis
      using 4(1) [of "Some (ps, ds)"] decode_counter [of v "Some (p, d)" te base n] by (simp add: counter_texts_def)
  qed
qed (auto simp: counter_texts_def split: option.splits)

definition row_text :: "int \<Rightarrow> int list option \<Rightarrow> metrics_row \<Rightarrow> string list" where
  "row_text base ps r = itoa (millis_of (mw_time r - base)) # mw_status r # counter_texts ps (row_counters r)"

lemma metrics_columns:
  obtains ns where "length ns = 11"
    "metrics_schema = \<lparr>col_name = ''t'', col_type = ''t'', col_enc = ''d''\<rparr> # \<lparr>col_name = ''status'', col_type = ''s'', col_enc = ''r''\<rparr> # map int_column ns"
  by (rule that [of "[''pf_count'', ''pf_resp_size'', ''retries'', ''rejects'', ''conflicts'', ''test_fail'', ''tokens_in'',
       ''tokens_out'', ''turns'', ''elapsed_ms'', ''phase_tx'']"]) (simp_all add: metrics_schema_def)

lemma length_counters [simp]: "length (row_counters r) = 11"
  by (simp add: row_counters_def)

lemma millis_in_range: "in_int64 d \<Longrightarrow> in_int64 (millis_of d) \<and> in_int64 (millis_of d * ns_per_ms)"
  unfolding in_int64_def millis_of_def ns_per_ms_def by auto

text \<open>The status field: the repeat mark when unchanged.\<close>

definition status_text :: "string option \<Rightarrow> string \<Rightarrow> string" where
  "status_text prev s = (if prev = Some s then ''='' else s)"

definition row_fields :: "int \<Rightarrow> metrics_row option \<Rightarrow> metrics_row \<Rightarrow> string list" where
  "row_fields base prev r =
     itoa (millis_of (mw_time r - base)) # status_text (map_option mw_status prev) (mw_status r) #
     counter_texts (map_option row_counters prev) (row_counters r)"

lemma encode_one_row:
  assumes "in_int64 (mw_time r - base)"
  shows "encode_row te metrics_schema base (row_values r) (t, map_option row_values prev) =
    Inr (t @ join_with ''|'' (row_fields base prev r) @ [LF], Some (row_values r))"
proof -
  obtain ns where ns: "length ns = 11"
    "metrics_schema = \<lparr>col_name = ''t'', col_type = ''t'', col_enc = ''d''\<rparr> # \<lparr>col_name = ''status'', col_type = ''s'', col_enc = ''r''\<rparr> # map int_column ns"
    by (rule metrics_columns)
  have sub: "time_sub (mw_time r) base = mw_time r - base" using assms by (simp add: time_sub_def in_int64_def)
  have "encode_values te base (map int_column ns) (map_option (map V_Int) (map_option row_counters prev)) (map V_Int (row_counters r)) =
      Inr (counter_texts (map_option row_counters prev) (row_counters r))"
    by (rule encode_counters) (simp_all add: ns(1) split: option.split)
  then show ?thesis
    by (cases prev)
      (auto simp: encode_row_def ns row_values_def encode_value_def sub row_fields_def tval_text_def status_text_def)
qed

lemma decode_one_row:
  assumes "row_ok base r" "case prev of None \<Rightarrow> True | Some (p, ds) \<Rightarrow> row_ok base p \<and> length ds = 11"
  shows "decode_fields te base' metrics_schema (map_option (\<lambda>(p, ds). V_Time x # V_Str (mw_status p) # map V_Int ds) prev)
      (row_fields base (map_option fst prev) r) =
    Inr (seen_row base base' (map_option (\<lambda>(p, ds). (row_counters p, ds)) prev) r)"
proof -
  obtain ns where ns: "length ns = 11"
    "metrics_schema = \<lparr>col_name = ''t'', col_type = ''t'', col_enc = ''d''\<rparr> # \<lparr>col_name = ''status'', col_type = ''s'', col_enc = ''r''\<rparr> # map int_column ns"
    by (rule metrics_columns)
  let ?ms = "millis_of (mw_time r - base)"
  have ms: "atoi (itoa ?ms) = Some ?ms" "wrap64 (?ms * ns_per_ms) = ?ms * ns_per_ms"
    using millis_in_range assms(1) by (auto simp: row_ok_def atoi_itoa wrap64_id)
  have ok: "list_all in_int64 (row_counters r)" "mw_status r \<noteq> ''=''" using assms(1) by (auto simp: row_ok_def status_ok_def)
  have "decode_fields te base' (map int_column ns) (map_option (\<lambda>(ps, ds). map V_Int ds) (map_option (\<lambda>(p, ds). (row_counters p, ds)) prev))
      (counter_texts (map_option fst (map_option (\<lambda>(p, ds). (row_counters p, ds)) prev)) (row_counters r)) =
      Inr (map V_Int (seen_counters (map_option (\<lambda>(p, ds). (row_counters p, ds)) prev) (row_counters r)))"
    by (rule decode_counters) (use ns(1) ok assms(2) in \<open>auto simp: row_ok_def split: option.splits\<close>)
  then show ?thesis
    using ms ok(2)
    by (cases prev) (auto simp: ns(2) row_fields_def decode_field_def seen_row_def status_text_def)
qed

section \<open>The lines of a document\<close>

lemma row_fields_facts:
  fixes prev :: "metrics_row option"
  assumes "row_ok base r"
  defines "t \<equiv> join_with ''|'' (row_fields base prev r)"
  shows "length (row_fields base prev r) = 13" "split_on (CHR ''|'') t = row_fields base prev r"
    "LF \<notin> set t" "t \<noteq> []" "word_char (hd t)" "word_char (last t)"
proof -
  have st: "CHR ''|'' \<notin> set (status_text p (mw_status r)) \<and> LF \<notin> set (status_text p (mw_status r))" for p
    using assms(1) by (simp add: status_text_def row_ok_def status_ok_def)
  let ?cs = "counter_texts (map_option row_counters prev) (row_counters r)"
  have cs: "length ?cs = 11" by (simp add: counter_texts_def split: option.split)
  have c: "\<forall>x \<in> set ?cs. LF \<notin> set x \<and> CHR ''|'' \<notin> set x \<and> x \<noteq> [] \<and> word_char (hd x) \<and> word_char (last x)"
    using counter_text_ends by (auto simp: counter_texts_def split: option.splits)
  show "length (row_fields base prev r) = 13" by (simp add: row_fields_def cs)
  have all: "\<forall>x \<in> set (row_fields base prev r). LF \<notin> set x \<and> CHR ''|'' \<notin> set x"
    using st c itoa_ends by (auto simp: row_fields_def)
  show "split_on (CHR ''|'') t = row_fields base prev r"
    unfolding t_def by (rule split_on_join) (use all in \<open>auto simp: row_fields_def\<close>)
  have "LF \<notin> set (join_with ''|'' xs)" if "\<forall>x \<in> set xs. LF \<notin> set x" for xs
    using that by (induction "''|''" xs rule: join_with.induct) auto
  then show "LF \<notin> set t" using all unfolding t_def by blast
  obtain x y zs where z: "?cs = x # y # zs" using cs by (auto simp: eval_nat_numeral length_Suc_conv)
  have "t = itoa (millis_of (mw_time r - base)) @ ''|'' @ join_with ''|'' (status_text (map_option mw_status prev) (mw_status r) # ?cs)"
    by (simp add: t_def row_fields_def z)
  then show "t \<noteq> []" "word_char (hd t)" using itoa_ends [of "millis_of (mw_time r - base)"] by simp_all
  have "last (row_fields base prev r) = last ?cs" "last ?cs \<in> set ?cs" using z by (simp_all add: row_fields_def) 
  then show "word_char (last t)" using c last_join [of "row_fields base prev r" "''|''"] unfolding t_def by (auto simp: row_fields_def)
qed

lemma trim_space_LF:
  assumes "s \<noteq> []" "word_char (hd s)" "word_char (last s)"
  shows "trim_space (s @ [LF]) = s"
proof -
  obtain c r where c: "s = c # r" using assms(1) by (cases s) auto
  obtain q e where e: "s = q @ [e]" using assms(1) by (cases s rule: rev_cases) auto
  have "trim_left (s @ [LF]) = s @ [LF]" using c assms(2) by (subst trim_left.simps) (simp add: space_len_word)
  moreover have "trim_left_rev (rev s) = rev s" using e assms(3) by (subst trim_left_rev.simps) (simp add: space_len_word)
  moreover have "space_len_rev (LF # rev s) = 1" by (simp add: space_len_rev_def space_runes_def)
  then have "trim_left_rev (LF # rev s) = trim_left_rev (rev s)" by (subst trim_left_rev.simps) simp
  ultimately show ?thesis by (simp add: trim_space_def trim_right_def)
qed

definition row_lines :: "int \<Rightarrow> metrics_row option \<Rightarrow> metrics_row list \<Rightarrow> string list" where
  "row_lines base prev rs = map (\<lambda>(p, r). join_with ''|'' (row_fields base p r)) (zip (prev # map Some rs) rs)"

lemma row_lines_Cons [simp]:
  "row_lines base prev [] = []"
  "row_lines base prev (r # rs) = join_with ''|'' (row_fields base prev r) # row_lines base (Some r) rs"
  by (simp_all add: row_lines_def)

lemma encode_rows_lines:
  "list_all (row_ok base) rs \<Longrightarrow>
   \<exists>q. encode_rows te metrics_schema base (map row_values rs) (t, map_option row_values prev) =
     Inr (t @ List.concat (map (\<lambda>l. l @ [LF]) (row_lines base prev rs)), q)"
proof (induction rs arbitrary: t prev)
  case (Cons r rs)
  then have "in_int64 (mw_time r - base)" by (simp add: row_ok_def)
  from encode_one_row [OF this] Cons.IH [of "t @ join_with ''|'' (row_fields base prev r) @ [LF]" "Some r"] Cons.prems
  show ?case by simp
qed simp

lemma decode_rows_lines:
  assumes "list_all (row_ok base) rs" "case prev of None \<Rightarrow> True | Some (p, ds) \<Rightarrow> row_ok base p \<and> length ds = 11"
  shows "decode_rows te base' metrics_schema (map_option (\<lambda>(p, ds). V_Time x # V_Str (mw_status p) # map V_Int ds) prev)
      (row_lines base (map_option fst prev) rs) =
    Inr (seen_rows base base' (map_option (\<lambda>(p, ds). (row_counters p, ds)) prev) rs)"
  using assms
proof (induction rs arbitrary: prev x)
  case (Cons r rs)
  have ok: "row_ok base r" using Cons.prems(1) by simp
  let ?p = "map_option (\<lambda>(p, ds). (row_counters p, ds)) prev"
  note f = row_fields_facts [OF ok, of "map_option fst prev"]
  have tr: "trim_space (join_with ''|'' (row_fields base (map_option fst prev) r)) = join_with ''|'' (row_fields base (map_option fst prev) r)"
    by (rule trim_space_id [OF f(4-6)])
  have len: "length (seen_counters ?p (row_counters r)) = 11"
    using Cons.prems(2) by (auto split: option.splits)
  have "decode_rows te base' metrics_schema (Some (seen_row base base' ?p r)) (row_lines base (Some r) rs) =
      Inr (seen_rows base base' (Some (row_counters r, seen_counters ?p (row_counters r))) rs)"
    using Cons.IH [of "Some (r, seen_counters ?p (row_counters r))" "base' + millis_of (mw_time r - base) * ns_per_ms"] Cons.prems(1) ok len
    by (simp add: seen_row_def)
  moreover have "length metrics_schema = 13" by (simp add: metrics_schema_def)
  ultimately show ?case
    using decode_one_row [OF ok Cons.prems(2), of te base' x] f(1,2,4) tr by simp
qed simp

definition header_lines :: "tsln_env \<Rightarrow> int \<Rightarrow> string list" where
  "header_lines te base =
     [''# TSLN/2.0'', ''# Schema: '' @ join_with '' '' (map (\<lambda>c. col_name c @ '':'' @ col_type c) metrics_schema),
      ''# Base: '' @ te_fmt te base, ''# Encoding: '' @ join_with '','' (map col_enc metrics_schema), ''---'']"

lemma concat_lines: "xs \<noteq> [] \<Longrightarrow> List.concat (map (\<lambda>l. l @ [LF]) xs) = join_with [LF] xs @ [LF]"
  by (induction "[LF]" xs rule: join_with.induct) auto

lemma header_text_lines: "header_text te metrics_schema base = List.concat (map (\<lambda>l. l @ [LF]) (header_lines te base))"
  by (simp add: header_text_def header_lines_def)

lemma decode_header_lines:
  assumes "rfc3339_ok te"
  shows "decode_header te (header_lines te base @ ls) \<lparr>hd_columns = [], hd_base = b, hd_encodings = []\<rparr> =
    Inr (\<lparr>hd_columns = map (\<lambda>c. c\<lparr>col_enc := []\<rparr>) metrics_schema, hd_base = base div 1000000000 * 1000000000,
           hd_encodings = map col_enc metrics_schema\<rparr>, Some ls)"
proof -
  let ?f = "te_fmt te base"
  let ?sch = "''# Schema: '' @ join_with '' '' (map (\<lambda>c. col_name c @ '':'' @ col_type c) metrics_schema)"
  let ?enc = "''# Encoding: '' @ join_with '','' (map col_enc metrics_schema)"
  have f: "nonblank ?f" "te_parse te ?f = Some (base div 1000000000 * 1000000000)" using assms by (simp_all add: rfc3339_ok_def)
  have fe: "?f \<noteq> []" "word_char (hd ?f)" "word_char (last ?f)" using f(1) nonblank_ends by (simp_all add: nonblank_def)
  have w: "word_char (CHR ''#'')" "word_char (CHR ''B'')" by (simp_all add: word_char_def)
  have v: "trim_space ''# TSLN/2.0'' = ''# TSLN/2.0''" "trim_space (drop 1 ''# TSLN/2.0'') = ''TSLN/2.0''" "trim_space ''---'' = ''---''"
    by code_simp+
  have s: "trim_space ?sch = ?sch" "has_prefix ?sch ''#''" "has_prefix (trim_space (drop 1 ?sch)) ''Schema:''"
    "schema_fields (Prelude.fields (trim_space (drop 7 (trim_space (drop 1 ?sch))))) = Inr (map (\<lambda>c. c\<lparr>col_enc := []\<rparr>) metrics_schema)"
    by code_simp+
  have e: "trim_space ?enc = ?enc" "has_prefix ?enc ''#''" "\<not> has_prefix (trim_space (drop 1 ?enc)) ''Schema:''"
    "\<not> has_prefix (trim_space (drop 1 ?enc)) ''Base:''" "has_prefix (trim_space (drop 1 ?enc)) ''Encoding:''"
    "map trim_space (split_on (CHR '','') (trim_space (drop 9 (trim_space (drop 1 ?enc))))) = map col_enc metrics_schema"
    by code_simp+
  have ne: "?sch \<noteq> ''---''" "?enc \<noteq> ''---''" by simp_all
  have b: "trim_space (''# Base: '' @ ?f) = ''# Base: '' @ ?f" by (rule trim_space_id) (simp_all add: fe w)
  have c: "trim_space (drop 1 (''# Base: '' @ ?f)) = ''Base: '' @ ?f" using trim_blank [of "''Base: '' @ ?f"] by (simp add: fe w)
  have d: "trim_space (drop 5 (''Base: '' @ ?f)) = ?f" using trim_blank [OF fe] by simp
  have h1: "header_line te ''# TSLN/2.0'' h = Inr h" for h
    unfolding header_line_def v Let_def by simp
  have h2: "header_line te ?sch h = Inr (h\<lparr>hd_columns := hd_columns h @ map (\<lambda>c. c\<lparr>col_enc := []\<rparr>) metrics_schema\<rparr>)" for h
    unfolding header_line_def Let_def s(4) using s(2,3) by simp
  have h3: "header_line te (''# Base: '' @ ?f) h = Inr (h\<lparr>hd_base := base div 1000000000 * 1000000000\<rparr>)" for h
    unfolding header_line_def c Let_def d using f(2) by simp
  have h4: "header_line te ?enc h = Inr (h\<lparr>hd_encodings := hd_encodings h @ map col_enc metrics_schema\<rparr>)" for h
    unfolding header_line_def Let_def e(6) using e(2-5) by simp
  have st: "decode_header te (l # xs) h = decode_header te xs h'"
    if "trim_space l = l" "l \<noteq> ''---''" "header_line te l h = Inr h'" for l xs h h'
    using that by simp
  have n: "''# TSLN/2.0'' \<noteq> ''---''" "''# Base: '' @ ?f \<noteq> ''---''" by simp_all
  have last: "decode_header te (''---'' # ls) h = Inr (h, Some ls)" for h using v(3) by simp
  have lines: "header_lines te base @ ls = ''# TSLN/2.0'' # ?sch # (''# Base: '' @ ?f) # ?enc # ''---'' # ls"
    by (simp add: header_lines_def)
  show ?thesis
    unfolding lines st [OF v(1) n(1) h1] st [OF s(1) ne(1) h2] st [OF b n(2) h3] st [OF e(1) ne(2) h4] last
    by simp
qed

lemma tsln_document:
  assumes "rfc3339_ok te" "rows \<noteq> []" "list_all (row_ok (mw_time (hd rows))) rows"
  shows "\<exists>doc. encode_metrics_rows te rows = Inr doc \<and>
    decode_tsln te doc = Inr (map (row_map metrics_schema)
      (seen_rows (mw_time (hd rows)) (mw_time (hd rows) div 1000000000 * 1000000000) None rows))"
proof -
  define base where "base = mw_time (hd rows)"
  define ls where "ls = row_lines base None rows"
  obtain r rs where r: "rows = r # rs" using assms(2) by (cases rows) auto
  have ok: "list_all (row_ok base) rows" using assms(3) by (simp add: base_def)
  let ?ls = "header_lines te base @ ls"
  have doc: "header_text te metrics_schema base @ List.concat (map (\<lambda>l. l @ [LF]) ls) = join_with [LF] ?ls @ [LF]"
    using concat_lines [of ?ls] by (simp add: header_text_lines) (simp add: header_lines_def)
  obtain q where "encode_rows te metrics_schema base (map row_values rows) (header_text te metrics_schema base, None) =
      Inr (join_with [LF] ?ls @ [LF], q)"
    using encode_rows_lines [OF ok, of te "header_text te metrics_schema base" None] by (auto simp: ls_def [symmetric] doc)
  then have enc: "encode_metrics_rows te rows = Inr (join_with [LF] ?ls @ [LF])"
    by (simp add: encode_metrics_rows_def r base_def)
  have f: "\<forall>l \<in> set ls. LF \<notin> set l \<and> l \<noteq> [] \<and> word_char (last l)"
  proof
    fix l
    assume "l \<in> set ls"
    then obtain p x where x: "l = join_with ''|'' (row_fields base p x)" "(p, x) \<in> set (zip (None # map Some rows) rows)"
      by (auto simp: ls_def row_lines_def)
    then have "row_ok base x" using ok by (auto simp: list_all_iff dest: set_zip_rightD)
    from row_fields_facts [OF this, of p] x(1) show "LF \<notin> set l \<and> l \<noteq> [] \<and> word_char (last l)" by simp
  qed
  have "LF \<notin> set (te_fmt te base)" using assms(1) nonblank_no_LF by (simp add: rfc3339_ok_def)
  then have h: "\<forall>l \<in> set (header_lines te base). LF \<notin> set l" by (simp add: header_lines_def metrics_schema_def int_column_def)
  have sp: "split_on LF (join_with [LF] ?ls) = ?ls" by (rule split_on_join) (use f h in \<open>auto simp: header_lines_def\<close>)
  have "ls \<noteq> []" by (simp add: ls_def r)
  then have lj: "join_with [LF] ?ls \<noteq> []" "word_char (last (join_with [LF] ?ls))"
    using last_join [of ?ls "[LF]"] f by (auto simp: last_in_set)
  have "word_char (hd (join_with [LF] ?ls))" by (simp add: header_lines_def word_char_def)
  then have tr: "trim_space (join_with [LF] ?ls @ [LF]) = join_with [LF] ?ls" using lj trim_space_LF by blast
  have cols: "map (\<lambda>(c, e). c\<lparr>col_enc := e\<rparr>) (zip (map (\<lambda>c. c\<lparr>col_enc := []\<rparr>) metrics_schema) (map col_enc metrics_schema)) = metrics_schema"
    by (simp add: metrics_schema_def int_column_def)
  have dr: "decode_rows te (base div 1000000000 * 1000000000) metrics_schema None ls =
      Inr (seen_rows base (base div 1000000000 * 1000000000) None rows)"
    using decode_rows_lines [OF ok, of None te "base div 1000000000 * 1000000000" 0] by (simp add: ls_def)
  have "metrics_schema \<noteq> []" by (simp add: metrics_schema_def)
  then have "decode_tsln te (join_with [LF] ?ls @ [LF]) =
      Inr (map (row_map metrics_schema) (seen_rows base (base div 1000000000 * 1000000000) None rows))"
    using decode_header_lines [OF assms(1), of base ls zero_time] dr cols
    by (simp add: decode_tsln_def tr sp)
  with enc show ?thesis by (auto simp: base_def)
qed

section \<open>Properties\<close>

lemma map_of_row_other:
  "\<forall>(c, v) \<in> set ps. col_name c \<noteq> k \<Longrightarrow> map_of (fold (\<lambda>(c, v) m. aput (col_name c) v m) ps m) k = map_of m k"
  by (induction ps arbitrary: m) auto

lemma row_map_pf_count: "map_of (row_map metrics_schema (t # u # map V_Int (c # cs))) ''pf_count'' = Some (V_Int c)"
proof -
  obtain ns where ns: "map int_column ns = drop 3 metrics_schema" "''pf_count'' \<notin> set ns"
    by (rule that [of "[''pf_resp_size'', ''retries'', ''rejects'', ''conflicts'', ''test_fail'', ''tokens_in'',
       ''tokens_out'', ''turns'', ''elapsed_ms'', ''phase_tx'']"]) (simp_all add: metrics_schema_def)
  then have cols: "metrics_schema = \<lparr>col_name = ''t'', col_type = ''t'', col_enc = ''d''\<rparr> #
      \<lparr>col_name = ''status'', col_type = ''s'', col_enc = ''r''\<rparr> # int_column ''pf_count'' # map int_column ns"
    by (simp add: metrics_schema_def)
  have "\<forall>(d, v) \<in> set (filter (\<lambda>(d, v). col_type d \<in> {''t'', ''s'', ''i'', ''f''}) (zip (map int_column ns) (map V_Int cs))).
      col_name d \<noteq> ''pf_count''"
    using ns(2) by (auto simp: int_column_def dest!: set_zip_leftD)
  note map_of_row_other [OF this]
  then show ?thesis by (simp add: row_map_def cols int_column_def)
qed

text \<open>A time format that meets the hypothesis: whole seconds as a decimal number.\<close>

definition dec_int :: "string \<Rightarrow> int option" where
  "dec_int s =
     (case s of
        [] \<Rightarrow> None
      | c # r \<Rightarrow> if c = CHR ''-'' then map_option (\<lambda>n. - int n) (dec_val 0 r) else map_option int (dec_val 0 s))"

definition ex_tsln :: tsln_env where
  "ex_tsln = \<lparr>te_fmt = \<lambda>t. itoa (t div 1000000000), te_parse = \<lambda>s. map_option (\<lambda>n. n * 1000000000) (dec_int s),
     te_show = \<lambda>_. [], te_enc_float = \<lambda>_ _ _. [], te_dec_float = \<lambda>_ _ _. None\<rparr>"

definition ex_row :: metrics_row where
  "ex_row = \<lparr>mw_time = 5000000000, mw_mission = ''m'', mw_status = ''active'', mw_pf_count = 7, mw_pf_size = 9, mw_retries = 0,
     mw_rejects = 0, mw_conflicts = 0, mw_failures = 0, mw_in = 0, mw_out = 0, mw_turns = 0, mw_elapsed = 0, mw_phases = 0\<rparr>"

lemma ex_tsln_ok: "rfc3339_ok ex_tsln"
proof -
  have "dec_int (itoa i) = Some i" for i
  proof (cases "i < 0")
    case False
    obtain c r where "nat_str (nat i) = c # r" by (cases "nat_str (nat i)") auto
    with False nat_str_head [OF this] dec_val_nat_str [of "nat i"] show ?thesis by (simp add: dec_int_def itoa_def)
  qed (simp add: dec_int_def itoa_def)
  moreover have "nonblank (itoa i)" for i
  proof -
    have "word_char c" if "is_digit c \<or> c = CHR ''-''" for c
      using that by (auto simp: is_digit_def digit_val_def word_char_def split: if_splits)
    then show ?thesis using itoa_chars itoa_ends by (auto simp: nonblank_def list.pred_set)
  qed
  ultimately show ?thesis by (simp add: rfc3339_ok_def ex_tsln_def)
qed

lemma ex_row_ok: "row_ok 5000000000 ex_row" "row_ok (mw_time ex_row) ex_row"
  by (simp_all add: row_ok_def ex_row_def status_ok_def row_counters_def in_int64_def)

text \<open> What the decoder makes of an encoded document, for every list of rows: times cut to
  milliseconds, relative to a base cut to whole seconds, the statuses as they were, and each
  counter as \<open>seen_counter\<close> says, which loses the counters that did not change. \<close>

theorem tsln_decodes:
  assumes "rfc3339_ok te" "rows \<noteq> []" "list_all (row_ok (mw_time (hd rows))) rows"
  shows "\<exists>doc. encode_metrics_rows te rows = Inr doc \<and>
    decode_tsln te doc = Inr (map (row_map metrics_schema)
      (seen_rows (mw_time (hd rows)) (mw_time (hd rows) div 1000000000 * 1000000000) None rows))"
  by (rule tsln_document [OF assms])

lemma tsln_decodes_witness:
  "\<exists>doc. encode_metrics_rows ex_tsln [ex_row] = Inr doc \<and>
     decode_tsln ex_tsln doc = Inr (map (row_map metrics_schema) (seen_rows 5000000000 5000000000 None [ex_row]))"
  using tsln_decodes [OF ex_tsln_ok, of "[ex_row]"] ex_row_ok by (simp add: ex_row_def)

text \<open> A counter that keeps its value is lost: in the document of two rows with the same number of
  page faults, the decoder reads this number from the first row and 0 from the second. \<close>

theorem tsln_unchanged_counter_lost:
  assumes "rfc3339_ok te" "row_ok (mw_time r) r" "row_ok (mw_time r) r'" "mw_pf_count r' = mw_pf_count r"
  shows "\<exists>doc row1 row2. encode_metrics_rows te [r, r'] = Inr doc \<and> decode_tsln te doc = Inr [row1, row2] \<and>
    map_of row1 ''pf_count'' = Some (V_Int (mw_pf_count r)) \<and> map_of row2 ''pf_count'' = Some (V_Int 0)"
proof -
  note m = row_map_pf_count
  obtain doc where "encode_metrics_rows te [r, r'] = Inr doc"
    "decode_tsln te doc = Inr (map (row_map metrics_schema) (seen_rows (mw_time r) (mw_time r div 1000000000 * 1000000000) None [r, r']))"
    using tsln_document [OF assms(1), of "[r, r']"] assms(2,3) by auto
  moreover have "map_of (row_map metrics_schema (seen_row b b' None r)) ''pf_count'' = Some (V_Int (mw_pf_count r))" for b b'
    unfolding seen_row_def seen_counters.simps row_counters_def append_Cons append_Nil by (rule m)
  moreover obtain cs where cs: "seen_counters (Some (row_counters r, row_counters r)) (row_counters r') = 0 # cs"
    by (simp add: row_counters_def seen_counter_def assms(4))
  moreover have "map_of (row_map metrics_schema (seen_row b b' (Some (row_counters r, row_counters r)) r')) ''pf_count'' = Some (V_Int 0)" for b b'
    unfolding seen_row_def append_Cons append_Nil cs by (rule m)
  ultimately show ?thesis by auto
qed

lemma tsln_unchanged_counter_lost_witness:
  "\<exists>doc row1 row2. encode_metrics_rows ex_tsln [ex_row, ex_row] = Inr doc \<and> decode_tsln ex_tsln doc = Inr [row1, row2] \<and>
    map_of row1 ''pf_count'' = Some (V_Int 7) \<and> map_of row2 ''pf_count'' = Some (V_Int 0)"
  using tsln_unchanged_counter_lost [OF ex_tsln_ok ex_row_ok(2) ex_row_ok(2) refl] by (simp add: ex_row_def)

end
