(* ===== verification/Mission_Meter.thy ===== *)
theory Mission_Meter
  imports Lean_TSLN Provider Heaven_Client "HOL-Library.Signed_Division"
begin

text \<open>
  The metering of missions, \<open>god/meter.go\<close>, and the detection of thrashing, \<open>god/thrash.go\<close>.

  An aggregator is the map from mission ids to metrics, a detector the set of ids that it has
  latched. \<open>Get\<close> hands out a pointer into the map, and \<open>Check\<close> writes through it: a check of a
  mission by its id reads and updates the entry of the map. Every method holds the mutex of the
  aggregator, so methods are atomic, except \<open>CompleteMission\<close>, which marks the mission and then
  logs it in a second critical section: these are two operations of the monitor. The events are
  returned as the list that is sent to the daemon. Integers are 64 bits wide and wrap around.

  The lemmas relate the metrics to a tally of the operations done, and the events to the latch.
\<close>

section \<open>Metrics\<close>

record mission_metrics =
  mm_id :: string
  mm_pf_count :: int
  mm_pf_size :: int
  mm_retries :: int
  mm_rejects :: int
  mm_conflicts :: int
  mm_failures :: int
  mm_in :: int
  mm_out :: int
  mm_started :: string
  mm_elapsed :: int
  mm_turns :: int
  mm_status :: string
  mm_phases :: int
  mm_reason :: string
  mm_turn_pfs :: "int list"

type_synonym aggregator = "(string \<times> mission_metrics) list"

definition avg_pf_size :: "mission_metrics \<Rightarrow> int" where
  "avg_pf_size m = (if mm_pf_count m = 0 then 0 else wrap64 (mm_pf_size m sdiv mm_pf_count m))"

definition new_metrics :: "tsln_env \<Rightarrow> int \<Rightarrow> string \<Rightarrow> mission_metrics" where
  "new_metrics te now mid =
     \<lparr>mm_id = mid, mm_pf_count = 0, mm_pf_size = 0, mm_retries = 0, mm_rejects = 0, mm_conflicts = 0, mm_failures = 0,
      mm_in = 0, mm_out = 0, mm_started = te_fmt te now, mm_elapsed = 0, mm_turns = 0, mm_status = ''active'',
      mm_phases = 0, mm_reason = [], mm_turn_pfs = []\<rparr>"

definition start_mission :: "tsln_env \<Rightarrow> int \<Rightarrow> string \<Rightarrow> aggregator \<Rightarrow> aggregator" where
  "start_mission te now mid ms = aput mid (new_metrics te now mid) ms"

definition get_or_create :: "tsln_env \<Rightarrow> int \<Rightarrow> string \<Rightarrow> aggregator \<Rightarrow> mission_metrics" where
  "get_or_create te now mid ms = (case map_of ms mid of Some m \<Rightarrow> m | None \<Rightarrow> new_metrics te now mid)"

text \<open>The elapsed time, when the start parses.\<close>

definition clocked :: "tsln_env \<Rightarrow> int \<Rightarrow> mission_metrics \<Rightarrow> mission_metrics" where
  "clocked te now m =
     (if mm_started m = [] then m
      else case te_parse te (mm_started m) of
             None \<Rightarrow> m
           | Some t \<Rightarrow> m\<lparr>mm_elapsed := millis_of (time_sub now t)\<rparr>)"

definition get_metrics :: "tsln_env \<Rightarrow> int \<Rightarrow> string \<Rightarrow> aggregator \<Rightarrow> mission_metrics option \<times> aggregator" where
  "get_metrics te now mid ms =
     (case map_of ms mid of
        None \<Rightarrow> (None, ms)
      | Some m \<Rightarrow> (let m' = (if mm_status m = ''active'' then clocked te now m else m) in (Some m', aput mid m' ms)))"

definition update_metrics ::
  "(mission_metrics \<Rightarrow> mission_metrics) \<Rightarrow> tsln_env \<Rightarrow> int \<Rightarrow> string \<Rightarrow> aggregator \<Rightarrow> aggregator" where
  "update_metrics f te now mid ms = aput mid (f (get_or_create te now mid ms)) ms"

definition record_pf :: "int \<Rightarrow> tsln_env \<Rightarrow> int \<Rightarrow> string \<Rightarrow> aggregator \<Rightarrow> aggregator" where
  "record_pf bytes =
     update_metrics (\<lambda>m. m\<lparr>mm_pf_count := wrap64 (mm_pf_count m + 1), mm_pf_size := wrap64 (mm_pf_size m + bytes)\<rparr>)"

definition record_usage :: "provider_usage option \<Rightarrow> tsln_env \<Rightarrow> int \<Rightarrow> aggregator \<Rightarrow> aggregator" where
  "record_usage usage te now ms =
     (case usage of
        None \<Rightarrow> ms
      | Some u \<Rightarrow> update_metrics (\<lambda>m. m\<lparr>mm_retries := wrap64 (mm_retries m + int (us_retries u)),
            mm_in := wrap64 (mm_in m + int (us_request u div 4)),
            mm_out := wrap64 (mm_out m + int (us_response u div 4))\<rparr>) te now (us_mission u) ms)"

definition record_reject :: "tsln_env \<Rightarrow> int \<Rightarrow> string \<Rightarrow> aggregator \<Rightarrow> aggregator" where
  "record_reject = update_metrics (\<lambda>m. m\<lparr>mm_rejects := wrap64 (mm_rejects m + 1)\<rparr>)"

definition record_conflict :: "tsln_env \<Rightarrow> int \<Rightarrow> string \<Rightarrow> aggregator \<Rightarrow> aggregator" where
  "record_conflict = update_metrics (\<lambda>m. m\<lparr>mm_conflicts := wrap64 (mm_conflicts m + 1)\<rparr>)"

definition record_test_failure :: "tsln_env \<Rightarrow> int \<Rightarrow> string \<Rightarrow> aggregator \<Rightarrow> aggregator" where
  "record_test_failure = update_metrics (\<lambda>m. m\<lparr>mm_failures := wrap64 (mm_failures m + 1)\<rparr>)"

definition record_test_pass :: "tsln_env \<Rightarrow> int \<Rightarrow> string \<Rightarrow> aggregator \<Rightarrow> aggregator" where
  "record_test_pass = update_metrics (\<lambda>m. m\<lparr>mm_failures := 0\<rparr>)"

definition record_phase_transition :: "tsln_env \<Rightarrow> int \<Rightarrow> string \<Rightarrow> aggregator \<Rightarrow> aggregator" where
  "record_phase_transition = update_metrics (\<lambda>m. m\<lparr>mm_phases := wrap64 (mm_phases m + 1)\<rparr>)"

definition sum64 :: "int list \<Rightarrow> int" where
  "sum64 xs = fold (\<lambda>x s. wrap64 (s + x)) xs 0"

definition close_turn :: "mission_metrics \<Rightarrow> mission_metrics" where
  "close_turn m =
     m\<lparr>mm_turns := wrap64 (mm_turns m + 1),
       mm_turn_pfs := mm_turn_pfs m @ [wrap64 (mm_pf_count m - sum64 (mm_turn_pfs m))]\<rparr>"

definition end_turn :: "tsln_env \<Rightarrow> int \<Rightarrow> string \<Rightarrow> aggregator \<Rightarrow> int \<times> aggregator" where
  "end_turn te now mid ms =
     (let ms' = update_metrics close_turn te now mid ms in (mm_turns (get_or_create te now mid ms'), ms'))"

definition mark_completed :: "tsln_env \<Rightarrow> int \<Rightarrow> string \<Rightarrow> aggregator \<Rightarrow> aggregator" where
  "mark_completed te now =
     update_metrics (\<lambda>m. let m' = clocked te now m in if mm_status m' = ''active'' then m'\<lparr>mm_status := ''completed''\<rparr> else m') te now"

section \<open>Events\<close>

definition metrics_row_of :: "int \<Rightarrow> mission_metrics \<Rightarrow> metrics_row" where
  "metrics_row_of now m =
     \<lparr>mw_time = now, mw_mission = mm_id m, mw_status = mm_status m, mw_pf_count = mm_pf_count m, mw_pf_size = mm_pf_size m,
      mw_retries = mm_retries m, mw_rejects = mm_rejects m, mw_conflicts = mm_conflicts m, mw_failures = mm_failures m,
      mw_in = mm_in m, mw_out = mm_out m, mw_turns = mm_turns m, mw_elapsed = mm_elapsed m, mw_phases = mm_phases m\<rparr>"

definition snapshot_event :: "mission_metrics \<Rightarrow> json" where
  "snapshot_event m =
     JObj ([(''avg_pf_response_size'', jint (avg_pf_size m)), (''conflicts'', jint (mm_conflicts m)),
            (''elapsed_ms'', jint (mm_elapsed m)), (''mission_id'', JStr (mm_id m)), (''pf_count'', jint (mm_pf_count m)),
            (''rejects'', jint (mm_rejects m)), (''retries'', jint (mm_retries m)), (''status'', JStr (mm_status m)),
            (''test_failures'', jint (mm_failures m))] @
           (if mm_reason m = [] then [] else [(''thrash_reason'', JStr (mm_reason m))]) @
           [(''tokens_in'', jint (mm_in m)), (''tokens_out'', jint (mm_out m)), (''turns'', jint (mm_turns m)),
            (''type'', JStr ''metrics_snapshot'')])"

definition log_metrics :: "tsln_env \<Rightarrow> bool \<Rightarrow> int \<Rightarrow> string \<Rightarrow> aggregator \<Rightarrow> json list" where
  "log_metrics te lean now mid ms =
     (case map_of ms mid of
        None \<Rightarrow> []
      | Some m \<Rightarrow>
          (if lean
           then (case encode_metrics_row te (metrics_row_of now m) of
                   Inr doc \<Rightarrow> [JObj [(''mission_id'', JStr (mm_id m)), (''tsln'', JStr doc), (''type'', JStr ''metrics_snapshot_lean'')]]
                 | Inl e \<Rightarrow> [snapshot_event m])
           else [snapshot_event m]))"

definition complete_mission :: "tsln_env \<Rightarrow> bool \<Rightarrow> int \<Rightarrow> int \<Rightarrow> string \<Rightarrow> aggregator \<Rightarrow> json list \<times> aggregator" where
  "complete_mission te lean now later mid ms =
     (let ms' = mark_completed te now mid ms in (log_metrics te lean later mid ms', ms'))"

definition summary_text :: "string \<Rightarrow> aggregator \<Rightarrow> string" where
  "summary_text mid ms =
     (case map_of ms mid of
        None \<Rightarrow> ''mission '' @ mid @ '': no metrics recorded''
      | Some m \<Rightarrow>
          ''mission '' @ mm_id m @ '' ['' @ mm_status m @ '']'' @ [LF] @
          ''  turns:     '' @ itoa (mm_turns m) @ [LF] @
          ''  pf_count:  '' @ itoa (mm_pf_count m) @ '' (avg '' @ itoa (avg_pf_size m) @ '' bytes)'' @ [LF] @
          ''  retries:   '' @ itoa (mm_retries m) @ [LF] @
          ''  rejects:   '' @ itoa (mm_rejects m) @ [LF] @
          ''  conflicts: '' @ itoa (mm_conflicts m) @ [LF] @
          ''  test_fail: '' @ itoa (mm_failures m) @ [LF] @
          ''  tokens:    '' @ itoa (mm_in m) @ '' in / '' @ itoa (mm_out m) @ '' out'' @ [LF] @
          ''  elapsed:   '' @ itoa (mm_elapsed m) @ ''ms'' @ [LF] @
          (if mm_reason m = [] then [] else ''  thrash:    '' @ mm_reason m @ [LF]))"

section \<open>Thrashing\<close>

record thrash_config =
  tc_soft :: int
  tc_turns :: int
  tc_rejects :: int
  tc_conflicts :: int
  tc_failures :: int

definition default_thrash_config :: thrash_config where
  "default_thrash_config = \<lparr>tc_soft = 20, tc_turns = 2, tc_rejects = 2, tc_conflicts = 3, tc_failures = 3\<rparr>"

definition check_pf_soft_limit :: "thrash_config \<Rightarrow> mission_metrics \<Rightarrow> string" where
  "check_pf_soft_limit cf m =
     (let needed = tc_turns cf; counts = mm_turn_pfs m
      in if needed \<le> 0 \<or> int (length counts) < needed then []
         else if list_ex (\<lambda>c. c < tc_soft cf) (drop (length counts - nat needed) counts) then []
         else ''PF count exceeded soft limit ('' @ itoa (tc_soft cf) @ '') for '' @ itoa needed @ '' consecutive turns'')"

definition detect_thrash :: "thrash_config \<Rightarrow> mission_metrics \<Rightarrow> string" where
  "detect_thrash cf m =
     (if check_pf_soft_limit cf m \<noteq> [] then check_pf_soft_limit cf m
      else if tc_rejects cf \<le> mm_rejects m then
        ''patch rejected '' @ itoa (mm_rejects m) @ '' times (limit '' @ itoa (tc_rejects cf) @ '')''
      else if tc_conflicts cf \<le> mm_conflicts m then
        ''conflicts '' @ itoa (mm_conflicts m) @ '' above threshold '' @ itoa (tc_conflicts cf)
      else if tc_failures cf \<le> mm_failures m then
        ''tests failing '' @ itoa (mm_failures m) @ '' consecutive times without progress (limit '' @ itoa (tc_failures cf) @ '')''
      else [])"

record thrash_result =
  th_thrashing :: bool
  th_reason :: string

definition thrash_event :: "string \<Rightarrow> mission_metrics \<Rightarrow> json" where
  "thrash_event reason m =
     JObj [(''conflicts'', jint (mm_conflicts m)), (''mission_id'', JStr (mm_id m)), (''pf_count'', jint (mm_pf_count m)),
           (''reason'', JStr reason), (''rejects'', jint (mm_rejects m)), (''test_failures'', jint (mm_failures m)),
           (''turns'', jint (mm_turns m)), (''type'', JStr ''mission_thrashing'')]"

text \<open>The result, the metrics behind the pointer, the latch and the events.\<close>

definition thrash_check ::
  "thrash_config \<Rightarrow> mission_metrics option \<Rightarrow> string list \<Rightarrow>
   thrash_result \<times> mission_metrics option \<times> string list \<times> json list" where
  "thrash_check cf metrics latched =
     (let calm = \<lparr>th_thrashing = False, th_reason = []\<rparr>
      in case metrics of
           None \<Rightarrow> (calm, None, latched, [])
         | Some m \<Rightarrow>
             (if List.member latched (mm_id m) then (\<lparr>th_thrashing = True, th_reason = mm_reason m\<rparr>, Some m, latched, [])
              else let reason = detect_thrash cf m
                in if reason = [] then (calm, Some m, latched, [])
                   else (let m' = m\<lparr>mm_status := ''thrashing'', mm_reason := reason\<rparr>
                         in (\<lparr>th_thrashing = True, th_reason = reason\<rparr>, Some m', mm_id m # latched, [thrash_event reason m']))))"

section \<open>The monitor of a run\<close>

record monitor =
  mo_metrics :: aggregator
  mo_latched :: "string list"

datatype monitor_op =
    Start string
  | Read string
  | Saw_PF string int
  | Saw_Usage "provider_usage option"
  | Saw_Reject string
  | Saw_Conflict string
  | Saw_Test_Failure string
  | Saw_Test_Pass string
  | Saw_Phase string
  | Turn_End string
  | Complete string
  | Report string
  | Check string

definition check_mission ::
  "tsln_env \<Rightarrow> thrash_config \<Rightarrow> int \<Rightarrow> string \<Rightarrow> monitor \<Rightarrow> thrash_result \<times> json list \<times> monitor" where
  "check_mission te cf now mid s =
     (let (p, ms) = get_metrics te now mid (mo_metrics s);
          (r, p', latched, evs) = thrash_check cf p (mo_latched s)
      in (r, evs, s\<lparr>mo_metrics := (case p' of None \<Rightarrow> ms | Some m \<Rightarrow> aput mid m ms), mo_latched := latched\<rparr>))"

fun monitor_do ::
  "tsln_env \<Rightarrow> bool \<Rightarrow> thrash_config \<Rightarrow> int \<Rightarrow> monitor_op \<Rightarrow> monitor \<Rightarrow> json list \<times> monitor" where
  "monitor_do te lean cf now (Start i) s = ([], s\<lparr>mo_metrics := start_mission te now i (mo_metrics s)\<rparr>)"
| "monitor_do te lean cf now (Read i) s = ([], s\<lparr>mo_metrics := snd (get_metrics te now i (mo_metrics s))\<rparr>)"
| "monitor_do te lean cf now (Saw_PF i b) s = ([], s\<lparr>mo_metrics := record_pf b te now i (mo_metrics s)\<rparr>)"
| "monitor_do te lean cf now (Saw_Usage u) s = ([], s\<lparr>mo_metrics := record_usage u te now (mo_metrics s)\<rparr>)"
| "monitor_do te lean cf now (Saw_Reject i) s = ([], s\<lparr>mo_metrics := record_reject te now i (mo_metrics s)\<rparr>)"
| "monitor_do te lean cf now (Saw_Conflict i) s = ([], s\<lparr>mo_metrics := record_conflict te now i (mo_metrics s)\<rparr>)"
| "monitor_do te lean cf now (Saw_Test_Failure i) s = ([], s\<lparr>mo_metrics := record_test_failure te now i (mo_metrics s)\<rparr>)"
| "monitor_do te lean cf now (Saw_Test_Pass i) s = ([], s\<lparr>mo_metrics := record_test_pass te now i (mo_metrics s)\<rparr>)"
| "monitor_do te lean cf now (Saw_Phase i) s = ([], s\<lparr>mo_metrics := record_phase_transition te now i (mo_metrics s)\<rparr>)"
| "monitor_do te lean cf now (Turn_End i) s = ([], s\<lparr>mo_metrics := snd (end_turn te now i (mo_metrics s))\<rparr>)"
| "monitor_do te lean cf now (Complete i) s = ([], s\<lparr>mo_metrics := mark_completed te now i (mo_metrics s)\<rparr>)"
| "monitor_do te lean cf now (Report i) s = (log_metrics te lean now i (mo_metrics s), s)"
| "monitor_do te lean cf now (Check i) s = snd (check_mission te cf now i s)"

text \<open>A run: the operations with the times at which they happen, and what is sent to the daemon.\<close>

inductive monitor_run ::
  "tsln_env \<Rightarrow> bool \<Rightarrow> thrash_config \<Rightarrow> monitor \<Rightarrow> (int \<times> monitor_op) list \<Rightarrow> json list \<Rightarrow> monitor \<Rightarrow> bool"
  for te lean cf where
  run_none: "monitor_run te lean cf s [] [] s"
| run_more: "monitor_run te lean cf s ops evs s1 \<Longrightarrow> monitor_do te lean cf now op s1 = (out, s2) \<Longrightarrow>
    monitor_run te lean cf s (ops @ [(now, op)]) (evs @ out) s2"

inductive_cases run_snoc: "monitor_run te lean cf s (ops @ [x]) evs s'"

lemma one_step: "monitor_run te lean cf s [(now, op)] evs s' \<Longrightarrow> (s' = snd (monitor_do te lean cf now op s) \<Longrightarrow> P) \<Longrightarrow> P"
  by (cases rule: run_snoc [of te lean cf s "[]" "(now, op)" evs s'])
    (auto elim: monitor_run.cases)

definition new_monitor :: monitor where
  "new_monitor = \<lparr>mo_metrics = [], mo_latched = []\<rparr>"

text \<open>The events are sent one by one, and what becomes of them is ignored.\<close>

definition send_events :: "world \<Rightarrow> json list \<Rightarrow> client \<Rightarrow> client" where
  "send_events w evs c = fold (client_append_event w) evs c"

section \<open>The tally of a run\<close>

text \<open>What a reader of the operations would count for one mission since it was last started.\<close>

record tally =
  ty_closed :: "nat list"
  ty_open :: nat
  ty_rejects :: nat
  ty_conflicts :: nat
  ty_failures :: nat
  ty_phases :: nat

definition fresh_tally :: tally where
  "fresh_tally = \<lparr>ty_closed = [], ty_open = 0, ty_rejects = 0, ty_conflicts = 0, ty_failures = 0, ty_phases = 0\<rparr>"

fun op_mission :: "monitor_op \<Rightarrow> string option" where
  "op_mission (Start i) = Some i"
| "op_mission (Read i) = Some i"
| "op_mission (Saw_PF i b) = Some i"
| "op_mission (Saw_Usage u) = map_option us_mission u"
| "op_mission (Saw_Reject i) = Some i"
| "op_mission (Saw_Conflict i) = Some i"
| "op_mission (Saw_Test_Failure i) = Some i"
| "op_mission (Saw_Test_Pass i) = Some i"
| "op_mission (Saw_Phase i) = Some i"
| "op_mission (Turn_End i) = Some i"
| "op_mission (Complete i) = Some i"
| "op_mission (Report i) = Some i"
| "op_mission (Check i) = Some i"

fun op_reads :: "monitor_op \<Rightarrow> bool" where
  "op_reads (Read i) = True"
| "op_reads (Report i) = True"
| "op_reads (Check i) = True"
| "op_reads op = False"

fun tally_op :: "monitor_op \<Rightarrow> tally \<Rightarrow> tally" where
  "tally_op (Start i) t = fresh_tally"
| "tally_op (Saw_PF i b) t = t\<lparr>ty_open := Suc (ty_open t)\<rparr>"
| "tally_op (Saw_Reject i) t = t\<lparr>ty_rejects := Suc (ty_rejects t)\<rparr>"
| "tally_op (Saw_Conflict i) t = t\<lparr>ty_conflicts := Suc (ty_conflicts t)\<rparr>"
| "tally_op (Saw_Test_Failure i) t = t\<lparr>ty_failures := Suc (ty_failures t)\<rparr>"
| "tally_op (Saw_Test_Pass i) t = t\<lparr>ty_failures := 0\<rparr>"
| "tally_op (Saw_Phase i) t = t\<lparr>ty_phases := Suc (ty_phases t)\<rparr>"
| "tally_op (Turn_End i) t = t\<lparr>ty_closed := ty_closed t @ [ty_open t], ty_open := 0\<rparr>"
| "tally_op op t = t"

definition tally_step :: "string \<Rightarrow> monitor_op \<Rightarrow> tally option \<Rightarrow> tally option" where
  "tally_step i op t =
     (if op_mission op \<noteq> Some i \<or> (op_reads op \<and> t = None) then t
      else Some (tally_op op (case t of None \<Rightarrow> fresh_tally | Some t \<Rightarrow> t)))"

definition tally_of :: "string \<Rightarrow> monitor_op list \<Rightarrow> tally option" where
  "tally_of i ops = fold (tally_step i) ops None"

text \<open>The metrics hold the tally, modulo the width of the integers.\<close>

definition w64 :: "nat \<Rightarrow> int" where
  "w64 n = wrap64 (int n)"

definition meters :: "mission_metrics \<Rightarrow> tally \<Rightarrow> bool" where
  "meters m t \<longleftrightarrow>
     mm_turn_pfs m = map w64 (ty_closed t) \<and> mm_turns m = w64 (length (ty_closed t)) \<and>
     mm_pf_count m = w64 (sum_list (ty_closed t) + ty_open t) \<and> mm_rejects m = w64 (ty_rejects t) \<and>
     mm_conflicts m = w64 (ty_conflicts t) \<and> mm_failures m = w64 (ty_failures t) \<and> mm_phases m = w64 (ty_phases t)"

lemma w64_0 [simp]: "w64 0 = 0"
  by (simp add: w64_def wrap64_def)

lemma wrap64_add: "wrap64 (wrap64 i + wrap64 j) = wrap64 (i + j)"
  using wrap64_wrap64 [of j i] by (simp add: wrap64_wrap64 add.commute)

lemma wrap64_diff: "wrap64 (wrap64 i - wrap64 j) = wrap64 (i - j)"
proof -
  have e: "wrap64 i - wrap64 j = (i + 2 ^ 63) mod 2 ^ 64 - (j + 2 ^ 63) mod 2 ^ 64" by (simp add: wrap64_def)
  have "(wrap64 i - wrap64 j) mod 2 ^ 64 = (i - j) mod 2 ^ 64" unfolding e mod_diff_eq by simp
  then have "(wrap64 i - wrap64 j + 2 ^ 63) mod 2 ^ 64 = (i - j + 2 ^ 63) mod 2 ^ 64" by (metis mod_add_left_eq)
  then show ?thesis unfolding wrap64_def [of "wrap64 i - wrap64 j"] wrap64_def [of "i - j"] by simp
qed

lemma w64_Suc: "wrap64 (w64 n + 1) = w64 (Suc n)"
  using wrap64_wrap64 [of "int n" 1] by (simp add: w64_def add.commute)

lemma w64_add: "wrap64 (w64 m + w64 n) = w64 (m + n)"
  by (simp add: w64_def wrap64_add)

lemma w64_diff: "wrap64 (w64 (m + n) - w64 m) = w64 n"
  by (simp add: w64_def wrap64_diff)

lemma w64_small: "n < 2 ^ 63 \<Longrightarrow> w64 n = int n"
  by (simp add: w64_def wrap64_id in_int64_def)

lemma sum64_w64: "sum64 (map w64 ns) = w64 (sum_list ns)"
proof (induction ns rule: rev_induct)
  case (snoc n ns)
  then show ?case by (simp add: sum64_def w64_add)
qed (simp add: sum64_def)

lemma meters_fresh [simp]: "meters (new_metrics te now i) fresh_tally"
  by (simp add: meters_def new_metrics_def fresh_tally_def)

lemma meters_clocked [simp]: "meters (clocked te now m) t = meters m t"
  by (simp add: clocked_def meters_def split: option.split)

lemma meters_status [simp]: "meters (m\<lparr>mm_status := x\<rparr>) t = meters m t"
  by (simp add: meters_def)

lemma meters_close_turn:
  "meters m t \<Longrightarrow> meters (close_turn m) (t\<lparr>ty_closed := ty_closed t @ [ty_open t], ty_open := 0\<rparr>)"
  by (simp add: meters_def close_turn_def sum64_w64 w64_Suc w64_diff)

section \<open>One operation\<close>

lemma map_of_update:
  "map_of (update_metrics f te now j ms) i = (if i = j then Some (f (get_or_create te now i ms)) else map_of ms i)"
  by (simp add: update_metrics_def)

lemma map_of_get:
  "map_of (snd (get_metrics te now j ms)) i =
     (if i = j then map_option (\<lambda>m. if mm_status m = ''active'' then clocked te now m else m) (map_of ms i) else map_of ms i)"
  by (simp add: get_metrics_def Let_def split: option.split)

lemma fst_get:
  "fst (get_metrics te now i ms) = map_option (\<lambda>m. if mm_status m = ''active'' then clocked te now m else m) (map_of ms i)"
  by (simp add: get_metrics_def Let_def split: option.split)

text \<open>What a check does to the entry of its mission.\<close>

definition verdict :: "tsln_env \<Rightarrow> thrash_config \<Rightarrow> int \<Rightarrow> string list \<Rightarrow> mission_metrics \<Rightarrow> mission_metrics" where
  "verdict te cf now latched m =
     (let m' = (if mm_status m = ''active'' then clocked te now m else m)
      in if List.member latched (mm_id m') \<or> detect_thrash cf m' = [] then m'
         else m'\<lparr>mm_status := ''thrashing'', mm_reason := detect_thrash cf m'\<rparr>)"

lemma check_mission_metrics:
  "map_of (mo_metrics (snd (snd (check_mission te cf now j s)))) i =
     (if i = j then map_option (verdict te cf now (mo_latched s)) (map_of (mo_metrics s) i) else map_of (mo_metrics s) i)"
  by (cases "map_of (mo_metrics s) j")
    (auto simp: check_mission_def get_metrics_def thrash_check_def verdict_def Let_def)

lemmas record_defs = record_pf_def record_reject_def record_conflict_def record_test_failure_def
  record_test_pass_def record_phase_transition_def mark_completed_def

lemma monitor_do_other:
  "op_mission op \<noteq> Some i \<Longrightarrow>
   map_of (mo_metrics (snd (monitor_do te lean cf now op s))) i = map_of (mo_metrics s) i"
  by (cases op) (auto simp: start_mission_def record_defs record_usage_def end_turn_def Let_def map_of_update map_of_get
      check_mission_metrics split: option.splits)

lemma meters_verdict [simp]: "meters (verdict te cf now l m) t = meters m t"
  by (simp add: verdict_def Let_def meters_def clocked_def split: option.split)

lemma rel_created: "rel_option meters (map_of ms i) t \<Longrightarrow> meters (get_or_create te now i ms) (case t of None \<Rightarrow> fresh_tally | Some t \<Rightarrow> t)"
  by (auto simp: get_or_create_def elim: option.rel_cases)

lemma rel_read: "rel_option meters a t \<Longrightarrow> (\<And>m t. meters (f m) t = meters m t) \<Longrightarrow> rel_option meters (map_option f a) t"
  by (auto elim: option.rel_cases)

lemma monitor_do_meters:
  assumes "rel_option meters (map_of (mo_metrics s) i) t"
  shows "rel_option meters (map_of (mo_metrics (snd (monitor_do te lean cf now op s))) i) (tally_step i op t)"
proof (cases "op_mission op = Some i")
  case False
  then show ?thesis using assms by (simp add: monitor_do_other tally_step_def)
next
  case True
  note m = rel_created [OF assms, of te now]
  have same: "op_reads op \<Longrightarrow> tally_step i op t = t"
    by (cases op; cases t) (simp_all add: tally_step_def)
  have wr: "\<not> op_reads op \<Longrightarrow> tally_step i op t = Some (tally_op op (case t of None \<Rightarrow> fresh_tally | Some t \<Rightarrow> t))"
    using True by (simp add: tally_step_def)
  show ?thesis
  proof (cases op)
    case (Turn_End j)
    then show ?thesis using True wr meters_close_turn [OF m] by (simp add: end_turn_def Let_def map_of_update)
  next
    case (Saw_Usage u)
    then show ?thesis using True wr m by (auto simp: record_usage_def map_of_update meters_def)
  next
    case (Start j)
    then show ?thesis using True wr by (simp add: start_mission_def)
  next
    case (Complete j)
    then show ?thesis using True wr m by (simp add: mark_completed_def map_of_update Let_def)
  next
    case (Read j)
    then show ?thesis using True same assms by (auto simp: map_of_get intro!: rel_read split: if_splits)
  next
    case (Report j)
    then show ?thesis using True same assms by simp
  next
    case (Check j)
    then show ?thesis using True same assms by (auto simp: check_mission_metrics intro!: rel_read)
  qed (use True m wr in \<open>simp_all add: record_defs map_of_update w64_Suc meters_def\<close>)
qed

lemma run_meters:
  "monitor_run te lean cf s0 ops evs s \<Longrightarrow> s0 = new_monitor \<Longrightarrow>
   rel_option meters (map_of (mo_metrics s) i) (tally_of i (map snd ops))"
proof (induction rule: monitor_run.induct)
  case (run_none s)
  then show ?case by (simp add: new_monitor_def tally_of_def)
next
  case (run_more s ops evs s1 now op out s2)
  then show ?case using monitor_do_meters [of s1 i _ te lean cf now op] by (simp add: tally_of_def)
qed

section \<open>The latch\<close>

definition is_thrash :: "string \<Rightarrow> json \<Rightarrow> bool" where
  "is_thrash i ev =
     (case ev of
        JObj kvs \<Rightarrow> map_of kvs ''type'' = Some (JStr ''mission_thrashing'') \<and> map_of kvs ''mission_id'' = Some (JStr i)
      | _ \<Rightarrow> False)"

definition thrash_count :: "string \<Rightarrow> json list \<Rightarrow> nat" where
  "thrash_count i evs = length (filter (is_thrash i) evs)"

text \<open>Entries carry their own key; a mission is marked as thrashing exactly with a reason, and then latched.\<close>

definition entry_ok :: "string list \<Rightarrow> string \<Rightarrow> mission_metrics \<Rightarrow> bool" where
  "entry_ok latched i m \<longleftrightarrow>
     mm_id m = i \<and> (mm_status m = ''thrashing'' \<longleftrightarrow> mm_reason m \<noteq> []) \<and> (mm_reason m \<noteq> [] \<longrightarrow> List.member latched i)"

definition monitor_inv :: "monitor \<Rightarrow> bool" where
  "monitor_inv s \<longleftrightarrow> (\<forall>i m. map_of (mo_metrics s) i = Some m \<longrightarrow> entry_ok (mo_latched s) i m)"

lemma is_thrash_simps [simp]:
  "is_thrash i (snapshot_event m) = False"
  "is_thrash i (JObj [(''mission_id'', a), (''tsln'', b), (''type'', JStr ''metrics_snapshot_lean'')]) = False"
  "is_thrash i (thrash_event r m) \<longleftrightarrow> mm_id m = i"
  by (simp_all add: is_thrash_def snapshot_event_def thrash_event_def)

lemma log_metrics_calm: "thrash_count i (log_metrics te lean now j ms) = 0"
  by (simp add: log_metrics_def thrash_count_def split: option.split sum.split)

lemma entry_new [simp]: "entry_ok l i (new_metrics te now i)"
  by (simp add: entry_ok_def new_metrics_def)

lemma clocked_entry [simp]: "entry_ok l i (clocked te now m) = entry_ok l i m"
  by (simp add: entry_ok_def clocked_def split: option.split)

lemma entry_created: "monitor_inv s \<Longrightarrow> entry_ok (mo_latched s) i (get_or_create te now i (mo_metrics s))"
  by (simp add: monitor_inv_def get_or_create_def split: option.split)

lemma inv_update:
  assumes "monitor_inv s" "\<And>m. entry_ok (mo_latched s) i m \<Longrightarrow> entry_ok (mo_latched s) i (f m)"
  shows "monitor_inv (s\<lparr>mo_metrics := update_metrics f te now i (mo_metrics s)\<rparr>)"
  using assms entry_created [OF assms(1)] by (simp add: monitor_inv_def map_of_update)

lemma inv_update_fields:
  assumes "monitor_inv s" "\<And>m. mm_id (f m) = mm_id m \<and> mm_status (f m) = mm_status m \<and> mm_reason (f m) = mm_reason m"
  shows "monitor_inv (s\<lparr>mo_metrics := update_metrics f te now i (mo_metrics s)\<rparr>)"
  using assms by (intro inv_update) (simp_all add: entry_ok_def)

definition latch_step :: "monitor \<Rightarrow> json list \<Rightarrow> monitor \<Rightarrow> bool" where
  "latch_step s out s' \<longleftrightarrow> monitor_inv s' \<and>
     (\<forall>i. thrash_count i out + of_bool (List.member (mo_latched s) i) = of_bool (List.member (mo_latched s') i))"

lemma latch_same: "monitor_inv (s\<lparr>mo_metrics := ms\<rparr>) \<Longrightarrow> latch_step s [] (s\<lparr>mo_metrics := ms\<rparr>)"
  by (simp add: latch_step_def thrash_count_def)

lemma inv_get: "monitor_inv s \<Longrightarrow> monitor_inv (s\<lparr>mo_metrics := snd (get_metrics te now i (mo_metrics s))\<rparr>)"
  by (auto simp: monitor_inv_def map_of_get split: if_splits)

lemma check_latch:
  assumes "monitor_inv s"
  shows "latch_step s (fst (snd (check_mission te cf now i s))) (snd (snd (check_mission te cf now i s)))"
proof (cases "map_of (mo_metrics s) i")
  case None
  then show ?thesis using assms by (simp add: check_mission_def get_metrics_def thrash_check_def latch_step_def thrash_count_def Let_def)
next
  case (Some m)
  define m' where "m' = (if mm_status m = ''active'' then clocked te now m else m)"
  have get: "get_metrics te now i (mo_metrics s) = (Some m', aput i m' (mo_metrics s))"
    using Some by (simp add: get_metrics_def m'_def Let_def)
  have ok: "entry_ok (mo_latched s) i m'" using assms Some by (simp add: monitor_inv_def m'_def)
  then have mid: "mm_id m' = i" by (simp add: entry_ok_def)
  show ?thesis
  proof (cases "List.member (mo_latched s) i \<or> detect_thrash cf m' = []")
    case True
    then show ?thesis using assms ok mid
      by (auto simp: check_mission_def get thrash_check_def latch_step_def thrash_count_def monitor_inv_def Let_def)
  next
    case False
    then have "entry_ok (i # mo_latched s) i (m'\<lparr>mm_status := ''thrashing'', mm_reason := detect_thrash cf m'\<rparr>)"
      using ok by (simp add: entry_ok_def)
    moreover have "entry_ok (i # mo_latched s) j n" if "entry_ok (mo_latched s) j n" for j n
      using that by (auto simp: entry_ok_def)
    ultimately show ?thesis using False assms mid
      by (auto simp: check_mission_def get thrash_check_def latch_step_def thrash_count_def monitor_inv_def Let_def)
  qed
qed

lemma monitor_do_latch:
  assumes "monitor_inv s"
  shows "latch_step s (fst (monitor_do te lean cf now op s)) (snd (monitor_do te lean cf now op s))"
proof (cases op)
  case (Start i)
  then show ?thesis using assms by (auto simp: start_mission_def monitor_inv_def intro!: latch_same)
next
  case (Saw_Usage u)
  then show ?thesis using assms
    by (cases u) (auto simp: record_usage_def intro!: latch_same inv_update_fields, simp_all add: latch_step_def thrash_count_def)
next
  case (Turn_End i)
  then show ?thesis using assms by (auto simp: end_turn_def Let_def close_turn_def intro!: latch_same inv_update_fields)
next
  case (Complete i)
  have "entry_ok l i m \<Longrightarrow> entry_ok l i (let m' = clocked te now m in if mm_status m' = ''active'' then m'\<lparr>mm_status := ''completed''\<rparr> else m')" for l m
    by (auto simp: Let_def entry_ok_def clocked_def split: option.splits)
  with assms show ?thesis unfolding Complete by (auto simp: mark_completed_def intro!: latch_same inv_update)
next
  case (Read i)
  then show ?thesis using assms by (auto intro!: latch_same inv_get)
next
  case (Report i)
  then show ?thesis using assms log_metrics_calm by (simp add: latch_step_def)
next
  case (Check i)
  then show ?thesis using check_latch [OF assms] by simp
qed (use assms in \<open>auto simp: record_defs intro!: latch_same inv_update_fields\<close>)

lemma run_latch:
  "monitor_run te lean cf s0 ops evs s \<Longrightarrow> s0 = new_monitor \<Longrightarrow>
   monitor_inv s \<and> (\<forall>i. thrash_count i evs = of_bool (List.member (mo_latched s) i))"
proof (induction rule: monitor_run.induct)
  case (run_none s)
  then show ?case by (simp add: new_monitor_def monitor_inv_def thrash_count_def)
next
  case (run_more s ops evs s1 now op out s2)
  then have step: "latch_step s1 out s2" using monitor_do_latch [of s1 te lean cf now op] by simp
  have "thrash_count i (evs @ out) = of_bool (List.member (mo_latched s2) i)" for i
  proof -
    have "thrash_count i (evs @ out) = thrash_count i out + thrash_count i evs" by (simp add: thrash_count_def)
    also have "thrash_count i evs = of_bool (List.member (mo_latched s1) i)" using run_more by blast
    finally show ?thesis using step by (simp only: latch_step_def)
  qed
  with step show ?case by (simp only: latch_step_def simp_thms)
qed

section \<open>Verdicts\<close>

definition tally_size :: "tally \<Rightarrow> nat" where
  "tally_size t = sum_list (ty_closed t) + ty_open t + length (ty_closed t) + ty_rejects t + ty_conflicts t + ty_failures t"

lemma tally_op_size: "tally_size (tally_op op t) \<le> Suc (tally_size t)"
  by (cases op) (simp_all add: tally_size_def fresh_tally_def)

lemma tally_of_size: "tally_of i ops = Some t \<Longrightarrow> tally_size t \<le> length ops"
proof (induction ops arbitrary: t rule: rev_induct)
  case (snoc op ops)
  have fresh: "tally_size fresh_tally = 0" by (simp add: tally_size_def fresh_tally_def)
  have step: "tally_step i op (tally_of i ops) = Some t" using snoc.prems by (simp add: tally_of_def)
  show ?case
  proof (cases "tally_of i ops")
    case None
    with step tally_op_size [of op fresh_tally] fresh show ?thesis by (auto simp: tally_step_def split: if_splits)
  next
    case (Some u)
    with snoc.IH have "tally_size u \<le> length ops" by simp
    with Some step tally_op_size [of op u] show ?thesis by (auto simp: tally_step_def split: if_splits)
  qed
qed (simp add: tally_of_def)

text \<open>The four conditions, on the tally.\<close>

definition tally_thrashes :: "thrash_config \<Rightarrow> tally \<Rightarrow> bool" where
  "tally_thrashes cf t \<longleftrightarrow>
     (0 < tc_turns cf \<and> tc_turns cf \<le> int (length (ty_closed t)) \<and>
      list_all (\<lambda>c. tc_soft cf \<le> int c) (drop (length (ty_closed t) - nat (tc_turns cf)) (ty_closed t))) \<or>
     tc_rejects cf \<le> int (ty_rejects t) \<or> tc_conflicts cf \<le> int (ty_conflicts t) \<or> tc_failures cf \<le> int (ty_failures t)"

lemma detect_thrash_tally:
  assumes "meters m t" "tally_size t < 2 ^ 63"
  shows "detect_thrash cf m \<noteq> [] \<longleftrightarrow> tally_thrashes cf t"
proof -
  have "c < 2 ^ 63" if "c \<in> set (ty_closed t)" for c
    using member_le_sum_list [OF that] assms(2) by (simp add: tally_size_def)
  then have "map w64 (ty_closed t) = map int (ty_closed t)" by (simp add: w64_small)
  then have pfs: "mm_turn_pfs m = map int (ty_closed t)" using assms(1) unfolding meters_def by (elim conjE) (rule trans)
  have "w64 (ty_rejects t) = int (ty_rejects t)" "w64 (ty_conflicts t) = int (ty_conflicts t)"
    "w64 (ty_failures t) = int (ty_failures t)"
    using assms(2) by (simp_all add: tally_size_def w64_small)
  then have counts: "mm_rejects m = int (ty_rejects t)" "mm_conflicts m = int (ty_conflicts t)" "mm_failures m = int (ty_failures t)"
    using assms(1) by (simp_all add: meters_def)
  show ?thesis
    by (auto simp: pfs counts detect_thrash_def check_pf_soft_limit_def tally_thrashes_def Let_def drop_map list_ex_iff list_all_iff not_le not_less)
qed

lemma check_mission_fires:
  assumes "monitor_inv s" "\<not> List.member (mo_latched s) i" "map_of (mo_metrics s) i = Some m"
    and "meters m t" "tally_size t < 2 ^ 63"
  shows "th_thrashing (fst (check_mission te cf now i s)) \<longleftrightarrow> tally_thrashes cf t"
proof -
  define m' where "m' = (if mm_status m = ''active'' then clocked te now m else m)"
  have get: "get_metrics te now i (mo_metrics s) = (Some m', aput i m' (mo_metrics s))"
    using assms(3) by (simp add: get_metrics_def m'_def Let_def)
  have "mm_id m' = i" using assms(1,3) by (auto simp: monitor_inv_def entry_ok_def m'_def clocked_def split: option.split)
  moreover have "meters m' t" using assms(4) by (simp add: m'_def)
  ultimately show ?thesis using assms(2) detect_thrash_tally [OF _ assms(5), of m' cf]
    by (auto simp: check_mission_def get thrash_check_def Let_def)
qed

section \<open>Properties\<close>

definition ex_cf :: thrash_config where
  "ex_cf = default_thrash_config"

definition ex_ops :: "(int \<times> monitor_op) list" where
  "ex_ops = [(0, Start ''m''), (1, Saw_Reject ''m''), (2, Saw_Reject ''m''), (3, Check ''m''), (4, Check ''m'')]"

text \<open>Every list of operations has a run.\<close>

lemma run_exists: "\<exists>evs s'. monitor_run te lean cf s ops evs s'"
proof (induction ops rule: rev_induct)
  case Nil
  then show ?case by (blast intro: run_none)
next
  case (snoc x ops)
  then obtain evs s1 where "monitor_run te lean cf s ops evs s1" by blast
  moreover obtain out s2 where "monitor_do te lean cf (fst x) (snd x) s1 = (out, s2)" by (meson surj_pair)
  ultimately show ?case using run_more [of te lean cf s ops evs s1 "fst x" "snd x" out s2] by auto
qed

text \<open> After any run of the monitor, the metrics of a mission are those that a reader of the
  operations would tally since the mission was last started: the page faults of each turn, the turns,
  rejects, conflicts, consecutive test failures and phase transitions, all modulo 64 bits; a mission
  that no operation created is not tracked. \<close>

theorem meters_follow_tally:
  assumes "monitor_run te lean cf new_monitor ops evs s"
  shows "(case (map_of (mo_metrics s) i, tally_of i (map snd ops)) of
            (None, None) \<Rightarrow> True
          | (Some m, Some t) \<Rightarrow>
              mm_turn_pfs m = map w64 (ty_closed t) \<and> mm_turns m = w64 (length (ty_closed t)) \<and>
              mm_pf_count m = w64 (sum_list (ty_closed t) + ty_open t) \<and> mm_rejects m = w64 (ty_rejects t) \<and>
              mm_conflicts m = w64 (ty_conflicts t) \<and> mm_failures m = w64 (ty_failures t) \<and> mm_phases m = w64 (ty_phases t)
          | _ \<Rightarrow> False)"
  using run_meters [OF assms refl, of i] by (auto simp: meters_def elim!: option.rel_cases)

lemma meters_follow_tally_witness:
  "\<exists>evs s. monitor_run ex_tsln True ex_cf new_monitor ex_ops evs s \<and>
    (\<exists>m. map_of (mo_metrics s) ''m'' = Some m \<and> mm_rejects m = w64 2)"
proof -
  obtain evs s where r: "monitor_run ex_tsln True ex_cf new_monitor ex_ops evs s" using run_exists by blast
  have "\<exists>t. tally_of ''m'' (map snd ex_ops) = Some t \<and> ty_rejects t = 2"
    by (simp add: tally_of_def ex_ops_def tally_step_def fresh_tally_def)
  with meters_follow_tally [OF r, of "''m''"] r show ?thesis by (auto split: option.splits)
qed

text \<open> Thrashing is reported once: in any run the number of thrashing events of a mission is 1 if
  the detector has latched it and 0 if not, and a mission whose status is thrashing has a reason and is
  latched. \<close>

theorem thrash_reported_once:
  assumes "monitor_run te lean cf new_monitor ops evs s"
  shows "thrash_count i evs = (if List.member (mo_latched s) i then 1 else 0) \<and>
    (case map_of (mo_metrics s) i of
       None \<Rightarrow> True
     | Some m \<Rightarrow> (mm_status m = ''thrashing'') = (mm_reason m \<noteq> []) \<and> (mm_reason m = [] \<or> List.member (mo_latched s) i))"
  using run_latch [OF assms refl] by (auto simp: monitor_inv_def entry_ok_def split: option.split)

lemma thrash_reported_once_witness:
  "\<exists>evs s. monitor_run ex_tsln True ex_cf new_monitor ex_ops evs s \<and> thrash_count ''x'' evs \<le> 1"
proof -
  obtain evs s where r: "monitor_run ex_tsln True ex_cf new_monitor ex_ops evs s" using run_exists by blast
  with thrash_reported_once [OF r, of "''x''"] show ?thesis by (auto split: if_splits)
qed

text \<open> A check of a tracked mission that is not latched finds it thrashing exactly when, since its
  last start, the last turns all had as many page faults as the soft limit, or the rejects, the
  conflicts or the failures in a row reached their limits; runs are shorter than 2 to the 63. \<close>

theorem thrash_detects:
  assumes "monitor_run te lean cf new_monitor ops evs s" "length ops < 2 ^ 63"
    and "tally_of i (map snd ops) = Some t" "\<not> List.member (mo_latched s) i"
  shows "th_thrashing (fst (check_mission te cf now i s)) \<longleftrightarrow>
     (0 < tc_turns cf \<and> tc_turns cf \<le> int (length (ty_closed t)) \<and>
      list_all (\<lambda>c. tc_soft cf \<le> int c) (drop (length (ty_closed t) - nat (tc_turns cf)) (ty_closed t))) \<or>
     tc_rejects cf \<le> int (ty_rejects t) \<or> tc_conflicts cf \<le> int (ty_conflicts t) \<or> tc_failures cf \<le> int (ty_failures t)"
proof -
  obtain m where "map_of (mo_metrics s) i = Some m" "meters m t"
    using run_meters [OF assms(1) refl, of i] assms(3) by (auto elim: option.rel_cases)
  moreover have "tally_size t < 2 ^ 63" using tally_of_size [OF assms(3)] assms(2) by simp
  ultimately show ?thesis
    using check_mission_fires run_latch [OF assms(1) refl] assms(4) unfolding tally_thrashes_def by blast
qed

lemma thrash_detects_witness:
  "\<exists>evs s. monitor_run ex_tsln True ex_cf new_monitor [(0, Saw_Conflict ''m'')] evs s \<and>
     \<not> th_thrashing (fst (check_mission ex_tsln ex_cf 1 ''m'' s))"
proof -
  let ?ops = "[(0 :: int, Saw_Conflict ''m'')]"
  obtain evs s where r: "monitor_run ex_tsln True ex_cf new_monitor ?ops evs s" using run_exists by blast
  have t: "tally_of ''m'' (map snd ?ops) = Some (fresh_tally\<lparr>ty_conflicts := 1\<rparr>)"
    by (simp add: tally_of_def tally_step_def fresh_tally_def)
  have "s = snd (monitor_do ex_tsln True ex_cf 0 (Saw_Conflict ''m'') new_monitor)"
    using r by (elim one_step)
  then have "\<not> List.member (mo_latched s) ''m''" by (simp add: new_monitor_def)
  from thrash_detects [OF r _ t this, of 1] show ?thesis using r
    by (auto simp: ex_cf_def default_thrash_config_def fresh_tally_def)
qed

text \<open> The latch outlives a restart of the mission: a mission that is started anew after it has been
  latched has fresh metrics and the status active, and its next check answers that it is thrashing, with
  an empty reason and no event. \<close>

theorem thrash_latch_survives_restart:
  assumes "List.member (mo_latched s) i"
  shows "(let s1 = snd (monitor_do te lean cf now (Start i) s); (r, evs, s2) = check_mission te cf later i s1
    in th_thrashing r \<and> th_reason r = [] \<and> evs = [] \<and> map_option mm_status (map_of (mo_metrics s2) i) = Some ''active'')"
  using assms
  by (auto simp: check_mission_def get_metrics_def start_mission_def new_metrics_def clocked_def thrash_check_def Let_def split: option.split)

lemma thrash_latch_survives_restart_witness:
  "(let s1 = snd (monitor_do ex_tsln True ex_cf 0 (Start ''m'') \<lparr>mo_metrics = [], mo_latched = [''m'']\<rparr>);
        (r, evs, s2) = check_mission ex_tsln ex_cf 1 ''m'' s1
    in th_thrashing r \<and> th_reason r = [] \<and> evs = [] \<and> map_option mm_status (map_of (mo_metrics s2) ''m'') = Some ''active'')"
  by (rule thrash_latch_survives_restart) simp

end
