(* ===== verification/Recorder.thy ===== *)
theory Recorder
  imports Provider Lean_TSLN "HOL-Library.Multiset"
begin

text \<open>
  Recording and replaying the calls of a provider, \<open>god/recorder.go\<close>. The inner provider is a
  state with a function \<open>send\<close>; the encoding of a pack, the digest and the floating point quotient
  of the token drift are parameters. Here the entries of the recorder are the input of the replay; the JSONL
  file between the two halves is the subject of \<open>Recorder_File\<close>.

  The lemmas characterise the table of turns for entries in any order, since concurrent sends are
  numbered when they start and appended when they return.
\<close>

section \<open>Recording\<close>

record record_entry =
  re_mission :: string
  re_turn :: int
  re_phase :: string
  re_hash :: string
  re_request :: nat
  re_response :: string
  re_in :: nat
  re_out :: nat
  re_time :: string

record codec =
  cd_encode :: "mission_pack \<Rightarrow> string"
  cd_sha :: "string \<Rightarrow> string"

definition hash_bytes :: "codec \<Rightarrow> string \<Rightarrow> string" where
  "hash_bytes cd data = take 16 (cd_sha cd data)"

definition pack_id :: "mission_pack \<Rightarrow> string" where
  "pack_id p = mi_id (mp_mission p)"

record 'p recording =
  rc_inner :: 'p
  rc_entries :: "record_entry list"
  rc_turns :: "(string \<times> int) list"

definition turn_of :: "(string \<times> int) list \<Rightarrow> string \<Rightarrow> int" where
  "turn_of ts m = (case map_of ts m of None \<Rightarrow> 0 | Some t \<Rightarrow> t)"

definition next_turn :: "string \<Rightarrow> (string \<times> int) list \<Rightarrow> (string \<times> int) list" where
  "next_turn m ts = aput m (wrap64 (turn_of ts m + 1)) ts"

definition new_recording :: "'p \<Rightarrow> 'p recording" where
  "new_recording p = \<lparr>rc_inner = p, rc_entries = [], rc_turns = []\<rparr>"

definition entry_of :: "codec \<Rightarrow> string \<Rightarrow> int \<Rightarrow> mission_pack \<Rightarrow> string \<Rightarrow> record_entry" where
  "entry_of cd now turn pack resp =
     \<lparr>re_mission = pack_id pack, re_turn = turn, re_phase = mp_phase pack, re_hash = hash_bytes cd (cd_encode cd pack),
      re_request = length (cd_encode cd pack), re_response = resp, re_in = length (cd_encode cd pack) div 4,
      re_out = length resp div 4, re_time = now\<rparr>"

definition recording_send ::
  "codec \<Rightarrow> ('p \<Rightarrow> mission_pack \<Rightarrow> (string + string) \<times> 'p) \<Rightarrow> string \<Rightarrow> mission_pack \<Rightarrow> 'p recording \<Rightarrow>
   (string + string) \<times> 'p recording" where
  "recording_send cd send now pack rp =
     (let turn = turn_of (rc_turns rp) (pack_id pack);
          rp1 = rp\<lparr>rc_turns := next_turn (pack_id pack) (rc_turns rp)\<rparr>;
          (r, p') = send (rc_inner rp) pack; rp2 = rp1\<lparr>rc_inner := p'\<rparr>
      in case r of
           Inl e \<Rightarrow> (Inl e, rp2)
         | Inr resp \<Rightarrow> (Inr resp, rp2\<lparr>rc_entries := rc_entries rp2 @ [entry_of cd now turn pack resp]\<rparr>))"

fun record_run ::
  "codec \<Rightarrow> ('p \<Rightarrow> mission_pack \<Rightarrow> (string + string) \<times> 'p) \<Rightarrow> string \<Rightarrow> mission_pack list \<Rightarrow> 'p recording \<Rightarrow>
   (string + string) list \<times> 'p recording" where
  "record_run cd send now [] rp = ([], rp)"
| "record_run cd send now (p # ps) rp =
     (let (r, rp1) = recording_send cd send now p rp; (rs, rp2) = record_run cd send now ps rp1 in (r # rs, rp2))"

section \<open>Replaying\<close>

record token_drift =
  dr_mission :: string
  dr_turn :: int
  dr_recorded :: nat
  dr_actual :: nat

record replay =
  rl_by_turn :: "(string \<times> string) list"
  rl_by_hash :: "(string \<times> string) list"
  rl_by_mission :: "(string \<times> string list) list"
  rl_turns :: "(string \<times> int) list"
  rl_drift :: "token_drift list"
  rl_tokens :: "(string \<times> nat) list"
  rl_calls :: int

definition replay_key :: "string \<Rightarrow> int \<Rightarrow> string" where
  "replay_key m turn = m @ '':'' @ itoa turn"

definition entry_key :: "record_entry \<Rightarrow> string" where
  "entry_key e = replay_key (re_mission e) (re_turn e)"

definition load_entry :: "record_entry \<Rightarrow> replay \<Rightarrow> replay" where
  "load_entry e rl =
     rl\<lparr>rl_by_hash := aput (re_hash e) (re_response e) (rl_by_hash rl),
        rl_by_mission := aput (re_mission e)
          ((case map_of (rl_by_mission rl) (re_mission e) of None \<Rightarrow> [] | Some rs \<Rightarrow> rs) @ [re_response e]) (rl_by_mission rl),
        rl_by_turn := aput (entry_key e) (re_response e) (rl_by_turn rl),
        rl_tokens := (if 0 < re_in e then aput (entry_key e) (re_in e) (rl_tokens rl) else rl_tokens rl)\<rparr>"

definition replay_of :: "record_entry list \<Rightarrow> replay" where
  "replay_of es = fold load_entry es
     \<lparr>rl_by_turn = [], rl_by_hash = [], rl_by_mission = [], rl_turns = [], rl_drift = [], rl_tokens = [], rl_calls = 0\<rparr>"

definition check_drift :: "codec \<Rightarrow> mission_pack \<Rightarrow> string \<Rightarrow> replay \<Rightarrow> replay" where
  "check_drift cd pack key rl =
     (case map_of (rl_tokens rl) key of
        None \<Rightarrow> rl
      | Some recorded \<Rightarrow>
          (if recorded = 0 then rl
           else rl\<lparr>rl_drift := rl_drift rl @ [\<lparr>dr_mission = pack_id pack,
                     dr_turn = wrap64 (turn_of (rl_turns rl) (pack_id pack) - 1), dr_recorded = recorded,
                     dr_actual = length (cd_encode cd pack) div 4\<rparr>]\<rparr>))"

datatype replay_error = No_Response string string string | Replay_Panic go_panic

definition replay_send :: "codec \<Rightarrow> mission_pack \<Rightarrow> replay \<Rightarrow> (replay_error + string) \<times> replay" where
  "replay_send cd pack rl =
     (let m = pack_id pack; turn = turn_of (rl_turns rl) m;
          rl1 = rl\<lparr>rl_calls := wrap64 (rl_calls rl + 1), rl_turns := next_turn m (rl_turns rl)\<rparr>; key = replay_key m turn
      in case map_of (rl_by_turn rl) key of
           Some r \<Rightarrow> (Inr r, check_drift cd pack key rl1)
         | None \<Rightarrow>
             (case map_of (rl_by_hash rl) (hash_bytes cd (cd_encode cd pack)) of
                Some r \<Rightarrow> (Inr r, rl1)
              | None \<Rightarrow>
                  (case map_of (rl_by_mission rl) m of
                     None \<Rightarrow> (Inl (No_Response key (hash_bytes cd (cd_encode cd pack)) m), rl1)
                   | Some rs \<Rightarrow>
                       (if rs = [] then (Inl (No_Response key (hash_bytes cd (cd_encode cd pack)) m), rl1)
                        else let idx = (if int (length rs) \<le> turn then 0 else turn)
                          in (if idx < 0 then Inl (Replay_Panic Out_Of_Range) else Inr (rs ! nat idx), rl1)))))"

fun replay_run :: "codec \<Rightarrow> mission_pack list \<Rightarrow> replay \<Rightarrow> (replay_error + string) list \<times> replay" where
  "replay_run cd [] rl = ([], rl)"
| "replay_run cd (p # ps) rl =
     (let (r, rl1) = replay_send cd p rl; (rs, rl2) = replay_run cd ps rl1 in (r # rs, rl2))"

definition validate_replay :: "(nat \<Rightarrow> nat \<Rightarrow> 'f::linorder) \<Rightarrow> 'f \<Rightarrow> replay \<Rightarrow> token_drift list" where
  "validate_replay pct tolerance rl = filter (\<lambda>d. tolerance < pct (dr_actual d) (dr_recorded d)) (rl_drift rl)"

section \<open>Keys\<close>

lemma itoa_no_colon: "CHR '':'' \<notin> set (itoa i)"
proof
  assume "CHR '':'' \<in> set (itoa i)"
  from itoa_chars [OF this] show False by (simp add: is_digit_def digit_val_def)
qed

lemma replay_key_inj: "replay_key m t = replay_key m' t' \<longleftrightarrow> m = m' \<and> t = t'"
proof
  have tw: "takeWhile (\<lambda>c. c \<noteq> CHR '':'') (rev (replay_key m t)) = rev (itoa t)" for m t
    using itoa_no_colon [of t] by (subst replay_key_def) (auto simp: takeWhile_tail intro!: takeWhile_append2 [THEN trans])
  assume eq: "replay_key m t = replay_key m' t'"
  with tw [of m t] tw [of m' t'] have "itoa t = itoa t'" by simp
  with eq itoa_inj show "m = m' \<and> t = t'" by (auto simp: replay_key_def)
qed simp

lemma turn_of_next: "turn_of (next_turn m ts) n = (if n = m then wrap64 (turn_of ts m + 1) else turn_of ts n)"
  by (simp add: turn_of_def next_turn_def)

section \<open>What a recording contains\<close>

fun entries_from :: "codec \<Rightarrow> string \<Rightarrow> (string \<times> int) list \<Rightarrow> mission_pack list \<Rightarrow> string list \<Rightarrow> record_entry list" where
  "entries_from cd now ts (p # ps) (r # rs) =
     entry_of cd now (turn_of ts (pack_id p)) p r # entries_from cd now (next_turn (pack_id p) ts) ps rs"
| "entries_from cd now ts ps rs = []"

lemma record_run_entries:
  "record_run cd send now ps rp = (map Inr rs, rp') \<Longrightarrow>
   length ps = length rs \<and> rc_entries rp' = rc_entries rp @ entries_from cd now (rc_turns rp) ps rs"
proof (induction ps arbitrary: rp rs)
  case (Cons p ps)
  obtain r p' where send: "send (rc_inner rp) p = (r, p')" by (cases "send (rc_inner rp) p")
  from Cons.prems obtain x xs where rs: "rs = x # xs" and r: "r = Inr x"
    by (cases rs) (auto simp: recording_send_def send Let_def split: prod.splits sum.splits)
  from Cons.prems show ?case using Cons.IH [of _ xs]
    by (auto simp: rs r recording_send_def send Let_def split: prod.splits)
qed simp

text \<open>Counters that cannot wrap within a run of a given length.\<close>

definition room :: "(string \<times> int) list \<Rightarrow> nat \<Rightarrow> bool" where
  "room ts k \<longleftrightarrow> (\<forall>m. 0 \<le> turn_of ts m \<and> turn_of ts m + int k < 2 ^ 63)"

lemma room_next:
  assumes "room ts (Suc k)"
  shows "turn_of (next_turn m ts) n = (if n = m then turn_of ts m + 1 else turn_of ts n)" "room (next_turn m ts) k"
proof -
  have "wrap64 (turn_of ts m + 1) = turn_of ts m + 1"
    using assms by (intro wrap64_id) (auto simp: room_def in_int64_def dest!: spec [of _ m])
  then show t: "turn_of (next_turn m ts) n = (if n = m then turn_of ts m + 1 else turn_of ts n)" for n
    by (simp add: turn_of_next)
  have "0 \<le> turn_of ts n \<and> turn_of ts n + 1 + int k < 2 ^ 63" for n
    using assms by (auto simp: room_def dest!: spec [of _ n])
  then show "room (next_turn m ts) k" by (simp add: room_def t) (smt (verit))
qed

lemma entries_from_turns:
  "room ts (length ps) \<Longrightarrow> e \<in> set (entries_from cd now ts ps rs) \<Longrightarrow> turn_of ts (re_mission e) \<le> re_turn e"
proof (induction cd now ts ps rs rule: entries_from.induct)
  case (1 cd now ts p ps r rs)
  then show ?case using room_next [of ts "length ps" "pack_id p"]
    by (auto simp: entry_of_def split: if_splits dest: order_trans [rotated])
qed simp_all

lemma entries_from_keys:
  "room ts (length ps) \<Longrightarrow> distinct (map entry_key (entries_from cd now ts ps rs))"
proof (induction cd now ts ps rs rule: entries_from.induct)
  case (1 cd now ts p ps r rs)
  note nx = room_next [of ts "length ps" "pack_id p"]
  have "entry_key (entry_of cd now (turn_of ts (pack_id p)) p r) \<noteq> entry_key e"
    if "e \<in> set (entries_from cd now (next_turn (pack_id p) ts) ps rs)" for e
    using entries_from_turns [OF _ that] nx 1 by (auto simp: entry_key_def entry_of_def replay_key_inj)
  with 1 nx show ?case by auto
qed simp_all

section \<open>What a replay looks up\<close>

lemma load_by_turn:
  "map_of (rl_by_turn (fold load_entry es rl)) = map_of (rl_by_turn rl) ++ map_of (map (\<lambda>e. (entry_key e, re_response e)) (rev es))"
proof (induction es arbitrary: rl)
  case (Cons e es)
  then show ?case by (simp add: load_entry_def map_add_upd_left map_add_assoc [symmetric]) (simp add: map_add_def fun_eq_iff split: option.split)
qed simp

lemma load_tokens:
  "map_of (rl_tokens (fold load_entry es rl)) =
   map_of (rl_tokens rl) ++ map_of (map (\<lambda>e. (entry_key e, re_in e)) (rev (filter (\<lambda>e. 0 < re_in e) es)))"
proof (induction es arbitrary: rl)
  case (Cons e es)
  then show ?case by (simp add: load_entry_def map_add_upd_left) (simp add: map_add_def fun_eq_iff split: option.split)
qed simp

lemma replay_of_start [simp]: "rl_turns (replay_of es) = []" "rl_drift (replay_of es) = []"
proof -
  have "rl_turns (fold load_entry es rl) = rl_turns rl \<and> rl_drift (fold load_entry es rl) = rl_drift rl" for rl
    by (induction es arbitrary: rl) (simp_all add: load_entry_def)
  then show "rl_turns (replay_of es) = []" "rl_drift (replay_of es) = []" by (simp_all add: replay_of_def)
qed

text \<open>The tables hold every entry under its key, in whatever order they were appended.\<close>

lemma replay_of_tables:
  assumes "mset es = mset es'" "distinct (map entry_key es')" "e \<in> set es'"
  shows "map_of (rl_by_turn (replay_of es)) (entry_key e) = Some (re_response e)"
    "map_of (rl_tokens (replay_of es)) (entry_key e) \<in> {None, Some (re_in e)}"
proof -
  have keys: "distinct (map entry_key es)"
    using assms(1,2) by (metis mset_eq_imp_distinct_iff mset_map)
  have e: "e \<in> set es" using assms(1,3) mset_eq_setD by blast
  have "map_of (map (\<lambda>e. (entry_key e, re_response e)) (rev es)) (entry_key e) = Some (re_response e)"
    using keys e by (intro map_of_is_SomeI) (auto simp: rev_map [symmetric] comp_def)
  then show "map_of (rl_by_turn (replay_of es)) (entry_key e) = Some (re_response e)"
    by (simp add: replay_of_def load_by_turn)
  have "v = re_in e" if "map_of (map (\<lambda>e. (entry_key e, re_in e)) (rev (filter (\<lambda>e. 0 < re_in e) es))) (entry_key e) = Some v" for v
    using map_of_SomeD [OF that] keys e by (auto simp: distinct_map inj_on_def)
  then show "map_of (rl_tokens (replay_of es)) (entry_key e) \<in> {None, Some (re_in e)}"
    by (cases "map_of (map (\<lambda>e. (entry_key e, re_in e)) (rev (filter (\<lambda>e. 0 < re_in e) es))) (entry_key e)")
      (auto simp: replay_of_def load_tokens map_add_def)
qed

lemma check_drift_same [simp]:
  "rl_by_turn (check_drift cd p k rl) = rl_by_turn rl" "rl_tokens (check_drift cd p k rl) = rl_tokens rl"
  "rl_turns (check_drift cd p k rl) = rl_turns rl"
  by (simp_all add: check_drift_def split: option.split)

text \<open>A state of the replay that holds the entries that are still to come.\<close>

definition holds_entries :: "record_entry list \<Rightarrow> replay \<Rightarrow> bool" where
  "holds_entries es rl \<longleftrightarrow> (\<forall>e \<in> set es. map_of (rl_by_turn rl) (entry_key e) = Some (re_response e))"

lemma replay_run_entries:
  "holds_entries (entries_from cd now (rl_turns rl) ps rs) rl \<Longrightarrow> length ps = length rs \<Longrightarrow> map pack_id qs = map pack_id ps \<Longrightarrow>
   fst (replay_run cd' qs rl) = map Inr rs"
proof (induction ps arbitrary: qs rs rl)
  case (Cons p ps)
  then obtain q qs' r rs' where qs: "qs = q # qs'" "pack_id q = pack_id p" "map pack_id qs' = map pack_id ps" and rs: "rs = r # rs'"
    by (cases qs; cases rs) auto
  define rl1 where "rl1 = snd (replay_send cd' q rl)"
  have "map_of (rl_by_turn rl) (replay_key (pack_id p) (turn_of (rl_turns rl) (pack_id p))) = Some r"
    using Cons.prems(1) by (simp add: rs holds_entries_def entry_key_def entry_of_def)
  then have hit: "fst (replay_send cd' q rl) = Inr r" and next1: "rl_turns rl1 = next_turn (pack_id p) (rl_turns rl)"
    and same: "rl_by_turn rl1 = rl_by_turn rl"
    by (simp_all add: rl1_def replay_send_def qs(2) Let_def)
  have "fst (replay_run cd' qs' rl1) = map Inr rs'"
    using Cons.prems(1,2) qs(3) by (intro Cons.IH) (auto simp: next1 same rs holds_entries_def)
  with hit show ?case by (simp add: qs(1) rs rl1_def case_prod_unfold Let_def)
qed simp

definition drift_free :: "replay \<Rightarrow> bool" where
  "drift_free rl \<longleftrightarrow> list_all (\<lambda>d. dr_actual d = dr_recorded d) (rl_drift rl)"

lemma replay_run_drift:
  "\<forall>e \<in> set (entries_from cd now (rl_turns rl) ps rs). map_of (rl_tokens rl) (entry_key e) \<in> {None, Some (re_in e)} \<Longrightarrow>
   holds_entries (entries_from cd now (rl_turns rl) ps rs) rl \<Longrightarrow> length ps = length rs \<Longrightarrow> drift_free rl \<Longrightarrow>
   drift_free (snd (replay_run cd ps rl))"
proof (induction ps arbitrary: rs rl)
  case (Cons p ps)
  then obtain r rs' where rs: "rs = r # rs'" by (cases rs) auto
  let ?key = "replay_key (pack_id p) (turn_of (rl_turns rl) (pack_id p))"
  define rl1 where "rl1 = snd (replay_send cd p rl)"
  have "map_of (rl_by_turn rl) ?key = Some r" and tok: "map_of (rl_tokens rl) ?key \<in> {None, Some (length (cd_encode cd p) div 4)}"
    using Cons.prems(1,2) by (simp_all add: rs holds_entries_def entry_key_def entry_of_def)
  then have next1: "rl_turns rl1 = next_turn (pack_id p) (rl_turns rl)"
    and same: "rl_by_turn rl1 = rl_by_turn rl" "rl_tokens rl1 = rl_tokens rl"
    and free: "drift_free rl1"
    using Cons.prems(4) by (auto simp: rl1_def replay_send_def Let_def check_drift_def drift_free_def split: option.split)
  have "drift_free (snd (replay_run cd ps rl1))"
    using Cons.prems free by (intro Cons.IH [of rl1 rs']) (auto simp: next1 same rs holds_entries_def)
  then show ?case by (simp add: rl1_def case_prod_unfold Let_def)
qed simp

lemma recorded_entries:
  assumes "record_run cd send now ps (new_recording p) = (map Inr rs, rp)" "length ps < 2 ^ 63"
    and "mset es = mset (rc_entries rp)"
  shows "length ps = length rs" "holds_entries (entries_from cd now [] ps rs) (replay_of es)"
    "\<forall>e \<in> set (entries_from cd now [] ps rs). map_of (rl_tokens (replay_of es)) (entry_key e) \<in> {None, Some (re_in e)}"
proof -
  have e: "rc_entries rp = entries_from cd now [] ps rs" and len: "length ps = length rs"
    using record_run_entries [OF assms(1)] by (simp_all add: new_recording_def)
  have "room [] (length ps)" using assms(2) by (simp add: room_def turn_of_def)
  note tables = replay_of_tables [OF assms(3) [unfolded e] entries_from_keys [OF this]]
  show "length ps = length rs" by (fact len)
  show "holds_entries (entries_from cd now [] ps rs) (replay_of es)" using tables(1) by (simp add: holds_entries_def)
  show "\<forall>e \<in> set (entries_from cd now [] ps rs). map_of (rl_tokens (replay_of es)) (entry_key e) \<in> {None, Some (re_in e)}"
    using tables(2) by blast
qed

text \<open>The answer for a mission that has recorded responses is never an error.\<close>

lemma load_by_mission:
  "map_of (rl_by_mission rl) m = Some rs \<and> rs \<noteq> [] \<or> (\<exists>e \<in> set es. re_mission e = m) \<Longrightarrow>
   \<exists>rs. map_of (rl_by_mission (fold load_entry es rl)) m = Some rs \<and> rs \<noteq> []"
proof (induction es arbitrary: rl rs)
  case (Cons e es)
  show ?case
  proof (cases "(\<exists>e \<in> set es. re_mission e = m)")
    case True
    then show ?thesis using Cons.IH by simp
  next
    case False
    then have "\<exists>rs. map_of (rl_by_mission (load_entry e rl)) m = Some rs \<and> rs \<noteq> []"
      using Cons.prems by (auto simp: load_entry_def)
    then show ?thesis using Cons.IH by auto
  qed
qed auto

lemma replay_send_state [simp]:
  "rl_by_turn (snd (replay_send cd p rl)) = rl_by_turn rl" "rl_by_hash (snd (replay_send cd p rl)) = rl_by_hash rl"
  "rl_by_mission (snd (replay_send cd p rl)) = rl_by_mission rl"
  "rl_turns (snd (replay_send cd p rl)) = next_turn (pack_id p) (rl_turns rl)"
  by (simp_all add: replay_send_def check_drift_def Let_def split: option.split)

lemma replay_run_Cons:
  "fst (replay_run cd (p # ps) rl) = fst (replay_send cd p rl) # fst (replay_run cd ps (snd (replay_send cd p rl)))"
  by (simp add: case_prod_unfold Let_def)

lemma replay_send_hit:
  "map_of (rl_by_turn rl) (replay_key (pack_id p) (turn_of (rl_turns rl) (pack_id p))) = Some r \<Longrightarrow> fst (replay_send cd p rl) = Inr r"
  by (simp add: replay_send_def Let_def)

lemma replay_send_fallback:
  "map_of (rl_by_turn rl) (replay_key (pack_id p) (turn_of (rl_turns rl) (pack_id p))) = None \<Longrightarrow>
   map_of (rl_by_hash rl) (hash_bytes cd (cd_encode cd p)) = None \<Longrightarrow> map_of (rl_by_mission rl) (pack_id p) = Some rs \<Longrightarrow>
   0 \<le> turn_of (rl_turns rl) (pack_id p) \<Longrightarrow> turn_of (rl_turns rl) (pack_id p) < int (length rs) \<Longrightarrow>
   fst (replay_send cd p rl) = Inr (rs ! nat (turn_of (rl_turns rl) (pack_id p)))"
  by (auto simp: replay_send_def Let_def)

section \<open>Properties\<close>

definition ex_codec :: codec where
  "ex_codec = \<lparr>cd_encode = mp_header, cd_sha = \<lambda>s. s\<rparr>"

definition ex_pack :: "string \<Rightarrow> mission_pack" where
  "ex_pack h = \<lparr>mp_header = h,
     mp_mission = \<lparr>mi_id = ''m'', mi_goal = ''g'', mi_base_rev = ''r'', mi_scopes = [], mi_leases = [], mi_tasks = [], mi_budget = 1, mi_created = []\<rparr>,
     mp_shards = [], mp_endpoint = [],
     mp_budget = \<lparr>bm_budget = 0, bm_header = 0, bm_mission = 0, bm_shards = 0, bm_total = 0, bm_included = 0, bm_dropped = 0\<rparr>,
     mp_prompt = None, mp_phase = []\<rparr>"

definition ex_send :: "(string + string) list \<Rightarrow> mission_pack \<Rightarrow> (string + string) \<times> (string + string) list" where
  "ex_send p pack = (hd p, tl p)"

text \<open> A session in which every send succeeds is reproduced: the replay of its entries, in whatever
  order they were appended, answers any packs for the same missions in the same order with the recorded
  responses. \<close>

theorem replay_reproduces:
  assumes "record_run cd send now ps (new_recording p) = (map Inr rs, rp)" "length ps < 2 ^ 63"
    and "mset es = mset (rc_entries rp)" "map pack_id qs = map pack_id ps"
  shows "fst (replay_run cd' qs (replay_of es)) = map Inr rs"
  using recorded_entries [OF assms(1-3)] assms(4) by (intro replay_run_entries [of cd now]) simp_all

definition ex_recording :: "(string + string) list recording" where
  "ex_recording = snd (record_run ex_codec ex_send ''now'' [ex_pack ''a'', ex_pack ''b''] (new_recording [Inr ''x'', Inr ''y'']))"

lemma ex_recorded:
  "record_run ex_codec ex_send ''now'' [ex_pack ''a'', ex_pack ''b''] (new_recording [Inr ''x'', Inr ''y'']) =
     (map Inr [''x'', ''y''], ex_recording)"
  by (simp add: ex_recording_def recording_send_def ex_send_def new_recording_def Let_def)

lemma replay_reproduces_witness:
  "fst (replay_run ex_codec [ex_pack ''c'', ex_pack ''d''] (replay_of (rev (rc_entries ex_recording)))) = map Inr [''x'', ''y'']"
  by (rule replay_reproduces [OF ex_recorded]) (simp_all add: ex_pack_def pack_id_def)

text \<open> Replaying a session with its own packs shows no token drift: when the quotient of equal
  counts is within the tolerance, \<open>ValidateReplay\<close> returns nothing. \<close>

theorem replay_has_no_drift:
  assumes "record_run cd send now ps (new_recording p) = (map Inr rs, rp)" "length ps < 2 ^ 63"
    and "\<forall>n. pct n n \<le> tolerance"
  shows "validate_replay pct tolerance (snd (replay_run cd ps (replay_of (rc_entries rp)))) = []"
proof -
  have "drift_free (snd (replay_run cd ps (replay_of (rc_entries rp))))"
    using recorded_entries [OF assms(1,2) refl] by (intro replay_run_drift [of cd now _ ps rs]) (simp_all add: drift_free_def)
  then show ?thesis using assms(3) by (auto simp: validate_replay_def drift_free_def filter_empty_conv list_all_iff not_less)
qed

lemma replay_has_no_drift_witness:
  "validate_replay (\<lambda>a r. int a - int r) 0 (snd (replay_run ex_codec [ex_pack ''a'', ex_pack ''b''] (replay_of (rc_entries ex_recording)))) = []"
  by (rule replay_has_no_drift [OF ex_recorded]) simp_all

text \<open> A send that failed while recording does not fail in the replay: for three packs of one
  mission, different in their digests, of which the second failed, the replay answers the second with
  the response recorded for the third, and then the third with it again. \<close>

theorem replay_masks_failure:
  assumes "pack_id b = pack_id a" "pack_id c = pack_id a"
    and "hash_bytes cd (cd_encode cd b) \<notin> {hash_bytes cd (cd_encode cd a), hash_bytes cd (cd_encode cd c)}"
    and "record_run cd send now [a, b, c] (new_recording p) = ([Inr x, Inl e, Inr y], rp)"
  shows "fst (replay_run cd [a, b, c] (replay_of (rc_entries rp))) = [Inr x, Inr y, Inr y]"
proof -
  have w: "wrap64 0 = 0" "wrap64 1 = 1" "wrap64 2 = 2" by (simp_all add: wrap64_def)
  have es: "rc_entries rp = [entry_of cd now 0 a x, entry_of cd now 2 c y]"
    using assms(1,2,4) by (auto simp: recording_send_def new_recording_def turn_of_next Let_def turn_of_def next_turn_def w
        split: prod.splits sum.splits)
  define rl0 where "rl0 = replay_of (rc_entries rp)"
  have tables: "map_of (rl_by_turn rl0) (replay_key (pack_id a) k) = (if k = 2 then Some y else if k = 0 then Some x else None)"
    "map_of (rl_by_mission rl0) (pack_id a) = Some [x, y]" "map_of (rl_by_hash rl0) (hash_bytes cd (cd_encode cd b)) = None"
    "rl_turns rl0 = []" for k
    using assms(2,3) by (simp_all add: rl0_def es replay_of_def load_entry_def entry_of_def entry_key_def replay_key_inj)
  have turns: "turn_of [] m = 0" "turn_of (next_turn m []) m = 1" "turn_of (next_turn m (next_turn m [])) m = 2" for m
    by (simp_all add: turn_of_def next_turn_def w)
  have "fst (replay_send cd a rl0) = Inr x" by (rule replay_send_hit) (simp add: tables turns)
  moreover have "fst (replay_send cd b (snd (replay_send cd a rl0))) = Inr y"
    using replay_send_fallback [of "snd (replay_send cd a rl0)" b cd "[x, y]"] by (simp add: tables turns assms(1))
  moreover have "fst (replay_send cd c (snd (replay_send cd b (snd (replay_send cd a rl0))))) = Inr y"
    by (rule replay_send_hit) (simp add: tables turns assms(1,2))
  ultimately show ?thesis unfolding replay_run_Cons rl0_def [symmetric] by simp
qed

lemma replay_masks_failure_witness:
  "\<exists>rp. record_run ex_codec ex_send ''now'' [ex_pack ''a'', ex_pack ''b'', ex_pack ''c''] (new_recording [Inr ''x'', Inl ''e'', Inr ''y'']) =
       ([Inr ''x'', Inl ''e'', Inr ''y''], rp) \<and>
     fst (replay_run ex_codec [ex_pack ''a'', ex_pack ''b'', ex_pack ''c''] (replay_of (rc_entries rp))) = [Inr ''x'', Inr ''y'', Inr ''y'']"
proof -
  obtain rp where r: "record_run ex_codec ex_send ''now'' [ex_pack ''a'', ex_pack ''b'', ex_pack ''c''] (new_recording [Inr ''x'', Inl ''e'', Inr ''y'']) =
       ([Inr ''x'', Inl ''e'', Inr ''y''], rp)"
    by (simp add: recording_send_def ex_send_def new_recording_def Let_def)
  have "fst (replay_run ex_codec [ex_pack ''a'', ex_pack ''b'', ex_pack ''c''] (replay_of (rc_entries rp))) = [Inr ''x'', Inr ''y'', Inr ''y'']"
    by (rule replay_masks_failure [OF _ _ _ r]) (simp_all add: ex_pack_def pack_id_def hash_bytes_def ex_codec_def)
  with r show ?thesis by blast
qed

text \<open> The replay never fails for a mission of which anything was recorded, however many packs are
  sent: every answer is some recorded response. \<close>

theorem replay_never_fails:
  assumes "e \<in> set es" "re_mission e = pack_id p" "0 \<le> turn_of (rl_turns rl) (pack_id p)"
    and "rl_by_turn rl = rl_by_turn (replay_of es)" "rl_by_hash rl = rl_by_hash (replay_of es)" "rl_by_mission rl = rl_by_mission (replay_of es)"
  shows "\<exists>r. fst (replay_send cd p rl) = Inr r"
proof -
  obtain rs where "map_of (rl_by_mission rl) (pack_id p) = Some rs" "rs \<noteq> []"
    using load_by_mission [of _ "pack_id p" _ es] assms(1,2,6) unfolding replay_of_def by metis
  then show ?thesis using assms(3) by (auto simp: replay_send_def Let_def split: option.split)
qed

lemma replay_never_fails_witness:
  "\<exists>r. fst (replay_send ex_codec (ex_pack ''z'') (replay_of (rc_entries ex_recording))) = Inr r"
proof -
  have es: "entry_of ex_codec ''now'' 0 (ex_pack ''a'') ''x'' \<in> set (rc_entries ex_recording)"
    using record_run_entries [OF ex_recorded] by (simp add: new_recording_def turn_of_def)
  show ?thesis
    by (rule replay_never_fails [OF es _ _ refl refl refl]) (simp_all add: entry_of_def pack_id_def ex_pack_def turn_of_def)
qed

end
