(* ===== verification/Json_Fields.thy ===== *)
theory Json_Fields
  imports Json
begin

text \<open>
  More of \<open>encoding/json\<close>: decoding the members of an object into fields that are integers, booleans, raw
  JSON or bytes, the last in the standard base64 encoding, and the first value of a stream, as a decoder reads it.
\<close>

section \<open>Numbers, booleans and raw values\<close>

text \<open>Decoding: as for strings in theory \<open>Json\<close>, the last member of a name wins.\<close>

definition int_literal :: "nat \<Rightarrow> string \<Rightarrow> int option" where
  "int_literal bits l =
     (case atoi l of None \<Rightarrow> None | Some i \<Rightarrow> if - (2 ^ (bits - 1)) \<le> i \<and> i < 2 ^ (bits - 1) then Some i else None)"

fun dec_number :: "nat \<Rightarrow> string \<Rightarrow> (string \<times> json) list \<Rightarrow> int \<Rightarrow> int option" where
  "dec_number bits name [] cur = Some cur"
| "dec_number bits name ((k, v) # ms) cur =
     (if same_key k name
      then (case v of
              JNum l \<Rightarrow> (case int_literal bits l of None \<Rightarrow> None | Some i \<Rightarrow> dec_number bits name ms i)
            | JNull \<Rightarrow> dec_number bits name ms cur
            | _ \<Rightarrow> None)
      else dec_number bits name ms cur)"

fun dec_raw :: "string \<Rightarrow> (string \<times> json) list \<Rightarrow> json option \<Rightarrow> json option" where
  "dec_raw name [] cur = cur"
| "dec_raw name ((k, v) # ms) cur = dec_raw name ms (if same_key k name then Some v else cur)"

fun dec_bool :: "string \<Rightarrow> (string \<times> json) list \<Rightarrow> bool \<Rightarrow> bool option" where
  "dec_bool name [] cur = Some cur"
| "dec_bool name ((k, v) # ms) cur =
     (if same_key k name
      then (case v of JBool b \<Rightarrow> dec_bool name ms b | JNull \<Rightarrow> dec_bool name ms cur | _ \<Rightarrow> None)
      else dec_bool name ms cur)"

lemma dec_str_append: "dec_str n (xs @ ys) c = (case dec_str n xs c of None \<Rightarrow> None | Some c' \<Rightarrow> dec_str n ys c')"
  by (induction n xs c rule: dec_str.induct) (auto split: json.splits)

lemma dec_number_append:
  "dec_number b n (xs @ ys) c = (case dec_number b n xs c of None \<Rightarrow> None | Some c' \<Rightarrow> dec_number b n ys c')"
  by (induction b n xs c rule: dec_number.induct) (auto split: json.splits option.splits)

lemma dec_raw_append: "dec_raw n (xs @ ys) c = dec_raw n ys (dec_raw n xs c)"
  by (induction n xs c rule: dec_raw.induct) auto

lemma int_literal_itoa: "- (2 ^ 31) \<le> i \<Longrightarrow> i < 2 ^ 31 \<Longrightarrow> int_literal 32 (itoa i) = Some i"
  "in_int64 i \<Longrightarrow> int_literal 64 (itoa i) = Some i"
  by (simp_all add: int_literal_def atoi_itoa in_int64_def)

section \<open>Parsing and writing\<close>

text \<open>What has been parsed can be written.\<close>

lemma jvalue_ok:
  "(\<forall>s v r. jvalue n s = Some (v, r) \<longrightarrow> json_ok v) \<and>
   (\<forall>s vs r. jelems n s = Some (vs, r) \<longrightarrow> list_all json_ok vs) \<and>
   (\<forall>s ms r. jmembers n s = Some (ms, r) \<longrightarrow> list_all (\<lambda>m. json_ok (snd m)) ms)"
proof (induction n)
  case (Suc n)
  then have ih: "\<And>s v r. jvalue n s = Some (v, r) \<Longrightarrow> json_ok v" "\<And>s vs r. jelems n s = Some (vs, r) \<Longrightarrow> list_all json_ok vs"
    "\<And>s ms r. jmembers n s = Some (ms, r) \<Longrightarrow> list_all (\<lambda>m. json_ok (snd m)) ms" by blast+
  have num: "list_all num_char (takeWhile num_char s)" for s by (auto simp: list_all_iff dest: set_takeWhileD)
  have "json_ok v" if "jvalue (Suc n) s = Some (v, r)" for s v r
    using that ih(2,3) num by (simp add: Let_def split: list.splits if_splits) auto
  moreover have "list_all json_ok vs" if "jelems (Suc n) s = Some (vs, r)" for s vs r
    using that ih(1,2) by (auto split: option.splits list.splits if_splits prod.splits)
  moreover have "list_all (\<lambda>m. json_ok (snd m)) ms" if "jmembers (Suc n) s = Some (ms, r)" for s ms r
    using that ih(1,3) by (auto split: option.splits list.splits if_splits prod.splits)
  ultimately show ?case by blast
qed simp

lemma json_parse_ok: "json_parse s = Some v \<Longrightarrow> json_ok v"
  unfolding json_parse_def using conjunct1 [OF jvalue_ok [of "Suc (length s)"]]
  by (cases "jvalue (Suc (length s)) s") (auto simp del: jvalue.simps split: if_splits prod.splits)

text \<open>\<open>Decode\<close> of a decoder reads one value and leaves what follows.\<close>

definition first_value :: "string \<Rightarrow> json option" where
  "first_value s = map_option fst (jvalue (Suc (length s)) s)"

lemma first_value_text: "json_ok v \<Longrightarrow> stops r \<Longrightarrow> first_value (json_text v @ r) = Some v"
  using conjunct1 [OF jvalue_roundtrip [of "Suc (length (json_text v @ r))"]] by (simp add: first_value_def del: jvalue.simps)

lemma first_value_brace:
  assumes "first_value (CHR ''{'' # r) = Some v"
  shows "\<exists>ms. v = JObj ms"
  using assms by (auto simp: first_value_def split: if_splits)

section \<open>Base64\<close>

definition b64_alphabet :: string where
  "b64_alphabet = ''ABCDEFGHIJKLMNOPQRSTUVWXYZabcdefghijklmnopqrstuvwxyz0123456789+/''"

definition b64_char :: "nat \<Rightarrow> char" where
  "b64_char n = b64_alphabet ! n"

definition b64_val :: "char \<Rightarrow> nat option" where
  "b64_val c = map_of (zip b64_alphabet [0..<64]) c"

definition b64_group :: "nat \<Rightarrow> nat \<Rightarrow> nat \<Rightarrow> string" where
  "b64_group a b c = map b64_char [a div 4, a mod 4 * 16 + b div 16, b mod 16 * 4 + c div 64, c mod 64]"

fun b64_encode :: "string \<Rightarrow> string" where
  "b64_encode [] = []"
| "b64_encode [x] = take 2 (b64_group (of_char x) 0 0) @ ''==''"
| "b64_encode [x, y] = take 3 (b64_group (of_char x) (of_char y) 0) @ ''=''"
| "b64_encode (x # y # z # r) = b64_group (of_char x) (of_char y) (of_char z) @ b64_encode r"

text \<open>The decoder skips line breaks and wants the padding; the bits it does not use are not checked.\<close>

definition b64_bytes :: "nat \<Rightarrow> nat \<Rightarrow> nat \<Rightarrow> nat \<Rightarrow> string" where
  "b64_bytes a b c d = map char_of [a * 4 + b div 16, b mod 16 * 16 + c div 4, c mod 4 * 64 + d]"

fun b64_quads :: "string \<Rightarrow> string option" where
  "b64_quads [] = Some []"
| "b64_quads (a # b # c # d # r) =
     (if d = CHR ''='' \<and> r = [] then
        (if c = CHR ''='' then (case (b64_val a, b64_val b) of (Some i, Some j) \<Rightarrow> Some (take 1 (b64_bytes i j 0 0)) | _ \<Rightarrow> None)
         else (case (b64_val a, b64_val b, b64_val c) of (Some i, Some j, Some k) \<Rightarrow> Some (take 2 (b64_bytes i j k 0)) | _ \<Rightarrow> None))
      else (case (b64_val a, b64_val b, b64_val c, b64_val d, b64_quads r) of
              (Some i, Some j, Some k, Some l, Some s) \<Rightarrow> Some (b64_bytes i j k l @ s) | _ \<Rightarrow> None))"
| "b64_quads _ = None"

definition b64_decode :: "string \<Rightarrow> string option" where
  "b64_decode s = b64_quads (filter (\<lambda>c. c \<noteq> LF \<and> c \<noteq> CR) s)"

lemma b64_table: "list_all (\<lambda>n. b64_val (b64_char n) = Some n \<and> b64_char n \<noteq> CHR ''='' \<and> b64_char n \<noteq> LF \<and> b64_char n \<noteq> CR) [0..<64]"
  by code_simp

lemma b64_char [simp]:
  assumes "n < 64"
  shows "b64_val (b64_char n) = Some n" "b64_char n \<noteq> CHR ''=''" "b64_char n \<noteq> LF" "b64_char n \<noteq> CR"
  using b64_table assms by (auto simp: list_all_iff)

lemma byte_bound: "(of_char x :: nat) < 256"
  by simp

lemma b64_bounds:
  assumes "a < 256" "b < 256" "(c :: nat) < 256"
  shows "a div 4 < 64" "a mod 4 * 16 + b div 16 < 64" "b mod 16 * 4 + c div 64 < 64" "c mod 64 < 64"
  using assms by simp_all

lemma b64_bytes_group:
  fixes a b c :: nat
  assumes "a < 256" "b < 256" "c < 256"
  shows "b64_bytes (a div 4) (a mod 4 * 16 + b div 16) (b mod 16 * 4 + c div 64) (c mod 64) = map char_of [a, b, c]"
proof -
  have "(a mod 4 * 16 + b div 16) div 16 = a mod 4" "(a mod 4 * 16 + b div 16) mod 16 = b div 16"
    "(b mod 16 * 4 + c div 64) div 4 = b mod 16" "(b mod 16 * 4 + c div 64) mod 4 = c div 64" using assms by simp_all
  then show ?thesis by (simp add: b64_bytes_def mult.commute [of _ "4 :: nat"])
qed

lemma b64_quads_encode: "b64_quads (b64_encode s) = Some s"
proof (induction s rule: b64_encode.induct)
  case (2 x)
  note b = b64_bounds [OF byte_bound [of x], of 0 0] and g = b64_bytes_group [OF byte_bound [of x], of 0 0]
  show ?case using b g by (simp add: b64_group_def)
next
  case (3 x y)
  note b = b64_bounds [OF byte_bound [of x] byte_bound [of y], of 0] and g = b64_bytes_group [OF byte_bound [of x] byte_bound [of y], of 0]
  show ?case using b g by (simp add: b64_group_def)
next
  case (4 x y z r)
  note b = b64_bounds [OF byte_bound [of x] byte_bound [of y] byte_bound [of z]]
    and g = b64_bytes_group [OF byte_bound [of x] byte_bound [of y] byte_bound [of z]]
  show ?case using 4 b g by (simp add: b64_group_def)
qed simp

lemma b64_no_breaks: "filter (\<lambda>c. c \<noteq> LF \<and> c \<noteq> CR) (b64_encode s) = b64_encode s"
proof (induction s rule: b64_encode.induct)
  case (2 x)
  show ?case using b64_bounds [OF byte_bound [of x], of 0 0] by (simp add: b64_group_def)
next
  case (3 x y)
  show ?case using b64_bounds [OF byte_bound [of x] byte_bound [of y], of 0] by (simp add: b64_group_def)
next
  case (4 x y z r)
  then show ?case using b64_bounds [OF byte_bound [of x] byte_bound [of y] byte_bound [of z]] by (simp add: b64_group_def)
qed simp

theorem b64_decode_encode: "b64_decode (b64_encode s) = Some s"
  by (simp add: b64_decode_def b64_no_breaks b64_quads_encode)

end
