(* ===== verification/Recorder_File.thy ===== *)
theory Recorder_File
  imports Recorder Json_Fields
begin

text \<open>
  The file between a recording and its replay (\<open>SaveTo\<close> and \<open>NewReplayProvider\<close> of \<open>god/recorder.go\<close>): one
  JSON object per recorded call, written by an encoder and read by a decoder that takes one value after the
  other. A raw message is kept as the value it holds and has the text of this value; the encoder compacts it,
  and refuses one that is not JSON. A write to the file that was created does not fail.
\<close>

section \<open>Writing\<close>

definition entry_json :: "record_entry \<Rightarrow> json \<Rightarrow> json" where
  "entry_json e v =
     JObj ([(''mission_id'', JStr (re_mission e)), (''turn_number'', jint (re_turn e))] @
           (if re_phase e = [] then [] else [(''phase'', JStr (re_phase e))]) @
           [(''pack_hash'', JStr (re_hash e)), (''request_bytes'', jint (int (re_request e))), (''response'', v)] @
           (if re_in e = 0 then [] else [(''tokens_in'', jint (int (re_in e)))]) @
           (if re_out e = 0 then [] else [(''tokens_out'', jint (int (re_out e)))]) @
           [(''timestamp'', JStr (re_time e))])"

text \<open>The lines up to the first entry that cannot be encoded, and whether there was none.\<close>

fun encode_entries :: "record_entry list \<Rightarrow> bool \<times> string" where
  "encode_entries [] = (True, [])"
| "encode_entries (e # es) =
     (case json_parse (re_response e) of
        None \<Rightarrow> (False, [])
      | Some v \<Rightarrow> (let (ok, t) = encode_entries es in (ok, json_text (entry_json e v) @ LF # t)))"

datatype recorder_error = Cannot_Create io_error | Cannot_Encode | Cannot_Open io_error | Cannot_Decode

definition save_to :: "path \<Rightarrow> 'p recording \<Rightarrow> disk \<Rightarrow> recorder_error option \<times> disk" where
  "save_to p rp d =
     (let (ok, t) = encode_entries (rc_entries rp)
      in case write_file p t d of
           Inl err \<Rightarrow> (Some (Cannot_Create err), d)
         | Inr d' \<Rightarrow> (if ok then None else Some Cannot_Encode, d'))"

section \<open>Reading\<close>

text \<open>The response is raw: it has the text of its value, and none when the member is missing.\<close>

definition raw_text :: "json option \<Rightarrow> string" where
  "raw_text v = (case v of None \<Rightarrow> [] | Some j \<Rightarrow> json_text j)"

definition decode_entry :: "json \<Rightarrow> record_entry option" where
  "decode_entry j =
     (case json_members_of j of
        None \<Rightarrow> None
      | Some ms \<Rightarrow>
          (case (dec_str ''mission_id'' ms [], dec_number 64 ''turn_number'' ms 0, dec_str ''phase'' ms [], dec_str ''pack_hash'' ms []) of
             (Some m, Some t, Some ph, Some h) \<Rightarrow>
               (case (dec_number 64 ''request_bytes'' ms 0, dec_number 64 ''tokens_in'' ms 0, dec_number 64 ''tokens_out'' ms 0,
                      dec_str ''timestamp'' ms []) of
                  (Some b, Some i, Some ou, Some time) \<Rightarrow>
                    Some \<lparr>re_mission = m, re_turn = t, re_phase = ph, re_hash = h, re_request = nat b,
                          re_response = raw_text (dec_raw ''response'' ms None), re_in = nat i, re_out = nat ou, re_time = time\<rparr>
                | _ \<Rightarrow> None)
           | _ \<Rightarrow> None))"

text \<open>\<open>More\<close> looks past white space for something other than a closing bracket; every value takes a byte at least.\<close>

function read_stream :: "string \<Rightarrow> record_entry list option" where
  "read_stream s =
     (case skip_ws s of
        [] \<Rightarrow> Some []
      | c # r \<Rightarrow>
          (if c = CHR '']'' \<or> c = CHR ''}'' then Some []
           else case jvalue (Suc (length s)) s of
                  None \<Rightarrow> None
                | Some (v, rest) \<Rightarrow>
                    (if length rest < length s
                     then (case decode_entry v of None \<Rightarrow> None | Some e \<Rightarrow> map_option (Cons e) (read_stream rest))
                     else None)))"
  by pat_completeness auto
termination by (relation "measure length") auto

declare read_stream.simps [simp del]

definition new_replay :: "path \<Rightarrow> disk \<Rightarrow> recorder_error + replay" where
  "new_replay p d =
     (case read_file d p of
        Inl err \<Rightarrow> Inl (Cannot_Open err)
      | Inr t \<Rightarrow> (case read_stream t of None \<Rightarrow> Inl Cannot_Decode | Some es \<Rightarrow> Inr (replay_of es)))"

section \<open>What is written is read back\<close>

definition entry_fields :: "string list" where
  "entry_fields = [''mission_id'', ''turn_number'', ''phase'', ''pack_hash'', ''request_bytes'', ''response'', ''tokens_in'', ''tokens_out'', ''timestamp'']"

lemma entry_fields_differ: "list_all (\<lambda>a. list_all (\<lambda>b. same_key a b = (a = b)) entry_fields) entry_fields"
  by code_simp

lemmas entry_keys = entry_fields_differ [unfolded entry_fields_def, simplified]

definition entry_fits :: "record_entry \<Rightarrow> bool" where
  "entry_fits e \<longleftrightarrow> in_int64 (re_turn e) \<and> in_int64 (int (re_request e)) \<and> in_int64 (int (re_in e)) \<and> in_int64 (int (re_out e))"

text \<open>The response of an entry in the text of its value.\<close>

definition compacted :: "string \<Rightarrow> string" where
  "compacted r = raw_text (json_parse r)"

definition compact_entry :: "record_entry \<Rightarrow> record_entry" where
  "compact_entry e = e\<lparr>re_response := compacted (re_response e)\<rparr>"

lemma decode_entry_json:
  assumes "entry_fits e" "json_parse (re_response e) = Some v"
  shows "decode_entry (entry_json e v) = Some (compact_entry e)"
  using assms
  by (cases "re_phase e = []"; cases "re_in e = 0"; cases "re_out e = 0")
    (simp_all add: decode_entry_def entry_json_def json_members_of_def entry_keys jint_def int_literal_itoa entry_fits_def compact_entry_def
      compacted_def raw_text_def)

lemma entry_json_ok: "json_ok v \<Longrightarrow> json_ok (entry_json e v)"
  by (simp add: entry_json_def)

lemma json_space_LF [simp]: "json_space LF"
  by (simp add: json_space_def)

lemma jvalue_skip: "json_space c \<Longrightarrow> jvalue n (c # s) = jvalue n s"
  by (cases n) simp_all

lemma read_stream_value:
  assumes "json_ok (JObj ms)" "decode_entry (JObj ms) = Some e" "w = [] \<or> w = [LF]"
  shows "read_stream (w @ json_text (JObj ms) @ LF # t) = map_option (Cons e) (read_stream (LF # t))"
proof -
  let ?s = "w @ json_text (JObj ms) @ LF # t"
  have "skip_ws ?s = json_text (JObj ms) @ LF # t" using assms(3) by auto
  then have h: "\<exists>r. skip_ws ?s = CHR ''{'' # r" by simp
  have s: "stops (LF # t)" using num_char_not_LF by simp
  have "jvalue (Suc (length ?s)) (json_text (JObj ms) @ LF # t) = Some (JObj ms, LF # t)"
    using conjunct1 [OF jvalue_roundtrip [of "Suc (length ?s)"]] assms(1) s by (simp del: jvalue.simps json_text.simps)
  then have v: "jvalue (Suc (length ?s)) ?s = Some (JObj ms, LF # t)" using assms(3) jvalue_skip [of LF] by (auto simp del: jvalue.simps json_text.simps)
  have "length (LF # t) < length ?s" using json_text_length [OF assms(1)] by simp
  then show ?thesis using h v assms(2) by (subst read_stream.simps) (auto simp del: jvalue.simps json_text.simps)
qed

lemma read_encoded:
  assumes "encode_entries es = (True, t)" "list_all entry_fits es" "w = [] \<or> w = [LF]"
  shows "read_stream (w @ t) = Some (map compact_entry es)"
  using assms
proof (induction es arbitrary: t w)
  case Nil
  then show ?case by (subst read_stream.simps) auto
next
  case (Cons e es)
  obtain v u where e: "json_parse (re_response e) = Some v" "encode_entries es = (True, u)" "t = json_text (entry_json e v) @ LF # u"
    using Cons.prems(1) by (auto split: option.splits prod.splits)
  obtain ms where ms: "entry_json e v = JObj ms" by (simp add: entry_json_def)
  have "json_ok (JObj ms)" using entry_json_ok [OF json_parse_ok [OF e(1)], of e] ms by simp
  moreover have "decode_entry (JObj ms) = Some (compact_entry e)" using decode_entry_json [OF _ e(1)] Cons.prems(2) ms by simp
  ultimately have "read_stream (w @ t) = map_option (Cons (compact_entry e)) (read_stream (LF # u))"
    using read_stream_value [OF _ _ Cons.prems(3)] e(3) ms by (simp del: json_text.simps)
  moreover have "read_stream (LF # u) = Some (map compact_entry es)" using Cons.IH [OF e(2), of "[LF]"] Cons.prems(2) by simp
  ultimately show ?case by simp
qed


section \<open>A session is reproduced from its file\<close>

lemma compact_keys [simp]: "entry_key (compact_entry e) = entry_key e" "re_response (compact_entry e) = compacted (re_response e)"
  "re_in (compact_entry e) = re_in e"
  by (simp_all add: compact_entry_def entry_key_def)




lemma encode_stops:
  assumes "list_all (\<lambda>e. json_valid (re_response e)) es" "\<not> json_valid (re_response e)"
  shows "\<exists>t. encode_entries es = (True, t) \<and> encode_entries (es @ e # es') = (False, t)"
  using assms by (induction es) (auto simp: json_valid_def split: option.splits prod.splits)

text \<open> A response that is not JSON cuts the file: saving fails, and what is left on the disk opens as the session up
  to this call, without a sign that more was recorded. \<close>
theorem bad_response_cuts_file:
  assumes "rc_entries rp = es @ e # es'" "list_all (\<lambda>e. json_valid (re_response e)) es" "\<not> json_valid (re_response e)"
    "list_all entry_fits es" "save_to f rp d = (r, d')" "\<And>x. r \<noteq> Some (Cannot_Create x)"
  shows "r = Some Cannot_Encode \<and> new_replay f d' = Inr (replay_of (map compact_entry es))"
proof -
  obtain t where t: "encode_entries es = (True, t)" "encode_entries (es @ e # es') = (False, t)" using encode_stops [OF assms(2,3)] by blast
  have w: "write_file f t d = Inr d'" "r = Some Cannot_Encode"
    using assms(1,5,6) t(2) by (auto simp: save_to_def split: sum.splits)
  have "read_stream t = Some (map compact_entry es)" using read_encoded [OF t(1) assms(4), of "[]"] by simp
  moreover have "read_file d' f = Inr t" using write_file_reads [OF w(1)] by (simp add: read_file_reads)
  ultimately show ?thesis using w(2) by (simp add: new_replay_def)
qed






end
