(* ===== verification/Verifier.thy ===== *)
theory Verifier
  imports Integrator
begin

text \<open>
  The verification of a repository, \<open>god/verifier.go\<close>: the choice of the test command, the hash
  of the environment, the run of the tests, the receipt, its storage in the daemon and the gate
  before a merge. A subprocess is a parameter: what it prints, how it ends and what it does to the
  files. The text of a time is accepted or not by a parameter that stands for \<open>time.Parse\<close>.

  The receipt is a blob of the daemon, so the lemmas rest on the contract of the blob store and
  on a frame: what is stored stays, whatever request of the verifier follows.
\<close>

section \<open>Receipts\<close>

record receipt =
  rt_mission :: string
  rt_env :: string
  rt_command :: string
  rt_stdout :: string
  rt_exit :: int
  rt_time :: string

definition receipt_text :: "receipt \<Rightarrow> string" where
  "receipt_text r =
     json_text (JObj [(''mission_id'', JStr (rt_mission r)), (''env_hash'', JStr (rt_env r)), (''command_hash'', JStr (rt_command r)),
       (''stdout_hash'', JStr (rt_stdout r)), (''exit_code'', jint (rt_exit r)), (''timestamp'', JStr (rt_time r))])"

datatype gate_error = Gate_No_Mission | Gate_Exit int | Gate_No_Time | Gate_Bad_Time

definition gate_merge :: "(string \<Rightarrow> bool) \<Rightarrow> receipt \<Rightarrow> gate_error option" where
  "gate_merge rfc3339 r =
     (if rt_mission r = [] then Some Gate_No_Mission
      else if rt_exit r \<noteq> 0 then Some (Gate_Exit (rt_exit r))
      else if rt_time r = [] then Some Gate_No_Time
      else if \<not> rfc3339 (rt_time r) then Some Gate_Bad_Time
      else None)"

section \<open>Command and environment\<close>

definition detect_test_command :: "path \<Rightarrow> disk \<Rightarrow> string" where
  "detect_test_command root d =
     (let has = (\<lambda>f. os_stat d (path_join [root, f]))
      in if has ''go.mod'' then ''go test ./...''
         else if has ''package.json'' then ''npm test''
         else if has ''pytest.ini'' \<or> has ''setup.py'' \<or> has ''pyproject.toml'' then ''python -m pytest''
         else if has ''Cargo.toml'' then ''cargo test''
         else ''echo no test command detected'')"

text \<open>The lock files in the order of \<open>sort.Strings\<close>, then the markers of tool versions.\<close>

definition env_files :: "string list" where
  "env_files =
     [''Cargo.lock'', ''go.sum'', ''package-lock.json'', ''pnpm-lock.yaml'', ''poetry.lock'', ''requirements.txt'', ''yarn.lock''] @
     [''.go-version'', ''.node-version'', ''.nvmrc'', ''.python-version'', ''.tool-versions'', ''rust-toolchain.toml'']"

definition env_entry :: "path \<Rightarrow> disk \<Rightarrow> string \<Rightarrow> string" where
  "env_entry root d name =
     (case read_file d (path_join [root, name]) of Inl e \<Rightarrow> [] | Inr c \<Rightarrow> name @ '':'' @ c @ [LF])"

definition env_text :: "path \<Rightarrow> disk \<Rightarrow> string" where
  "env_text root d = List.concat (map (env_entry root d) env_files)"

definition compute_env_hash :: "(string \<Rightarrow> string) \<Rightarrow> path \<Rightarrow> disk \<Rightarrow> string" where
  "compute_env_hash sha root d = sha (env_text root d)"

section \<open>Running the tests\<close>

datatype ended = Ran | Exited int | Not_Run string

type_synonym runner = "path \<Rightarrow> string \<Rightarrow> disk \<Rightarrow> (string \<times> int \<times> string option) \<times> disk"

definition default_run_cmd :: "(path \<Rightarrow> string list \<Rightarrow> disk \<Rightarrow> (string \<times> ended) \<times> disk) \<Rightarrow> runner" where
  "default_run_cmd proc dir command d =
     (case Prelude.fields command of
        [] \<Rightarrow> (([], 1, Some ''empty command''), d)
      | parts \<Rightarrow>
          (case proc dir parts d of
             ((out, Ran), d') \<Rightarrow> ((out, 0, None), d')
           | ((out, Exited k), d') \<Rightarrow> ((out, k, None), d')
           | ((out, Not_Run e), d') \<Rightarrow> ((out, 1, Some e), d')))"

record verify_req =
  vq_mission :: string
  vq_root :: path
  vq_command :: string

record verify_result =
  vr_receipt :: receipt
  vr_passed :: bool
  vr_stdout :: string
  vr_blob :: blob_id

datatype verify_error = V_Run string | V_Store

definition test_command :: "verify_req \<Rightarrow> disk \<Rightarrow> string" where
  "test_command q d = (if vq_command q = [] then detect_test_command (vq_root q) d else vq_command q)"

definition verify :: "world \<Rightarrow> runner \<Rightarrow> verify_req \<Rightarrow> client \<Rightarrow> (verify_error + verify_result) \<times> client" where
  "verify w run q c =
     (let sha = en_sha (w_env w); d = client_disk c;
          command = test_command q d;
          env_hash = compute_env_hash sha (vq_root q) d;
          ((out, code, err), d1) = run (vq_root q) command d; c1 = set_disk d1 c
      in if err \<noteq> None \<and> code = 0 then (Inl (V_Run (the err)), c1)
         else let r = \<lparr>rt_mission = vq_mission q, rt_env = env_hash, rt_command = sha command, rt_stdout = sha out,
                       rt_exit = code, rt_time = w_now w\<rparr>
           in case client_put_blob w (receipt_text r) c1 of
                (None, c2) \<Rightarrow> (Inl V_Store, c2)
              | (Some bid, c2) \<Rightarrow>
                  (Inr \<lparr>vr_receipt = r, vr_passed = (code = 0), vr_stdout = out, vr_blob = bid\<rparr>,
                   client_append_event w
                     (JObj [(''blob_id'', JStr bid), (''exit_code'', jint code), (''mission_id'', JStr (vq_mission q)),
                            (''passed'', JBool (code = 0)), (''type'', JStr ''verification_complete'')]) c2))"

section \<open>Stored blobs stay\<close>

definition blobs_kept :: "path \<Rightarrow> server \<Rightarrow> server \<Rightarrow> bool" where
  "blobs_kept root s t \<longleftrightarrow>
     (\<forall>i x. plain_name i \<and> blob_get root i (sv_disk s) = Inr x \<longrightarrow> blob_get root i (sv_disk t) = Inr x)"

lemma append_keeps_blobs:
  "root = en_root en \<Longrightarrow> root \<noteq> [] \<Longrightarrow> blobs_kept root s (snd (serve en inp (Append_Event b) s))"
  using el_append_blob_get [of root]
  by (auto simp: blobs_kept_def handle_append_event_def bump_rev_def Let_def split: option.split sum.split prod.split)
    (metis snd_conv)+

interpretation blob_frame: guarantee
  "\<lambda>s t. bystanders (blobs_kept (en_root (w_env w))) w \<and> en_root (w_env w) \<noteq> [] \<longrightarrow> blobs_kept (en_root (w_env w)) s t" w
  "\<lambda>req. \<exists>b. req = Append_Event b" for w
  by unfold_locales (use append_keeps_blobs in \<open>auto simp: bystanders_def blobs_kept_def\<close>)

lemma put_blob_stored:
  assumes "client_put_blob w b c = (Some i, c')" "length b \<le> 10 * 1024 * 1024"
    and "blob_ok (en_sha (w_env w)) (en_root (w_env w)) {b} (sv_disk (ct_server (pause w c)))"
  shows "plain_name i" "blob_get (en_root (w_env w)) i (client_disk c') = Inr b"
proof -
  let ?en = "w_env w"
  let ?s = "ct_server (pause w c)"
  obtain d where put: "blob_put (en_sha ?en) (en_root ?en) b (sv_disk ?s) = (Inr i, d)"
    and d: "client_disk c' = d"
    using assms(1,2) by (auto simp: client_put_blob_def exchange_def failure_def handle_put_blob_def client_disk_def bump_rev_def Let_def
        split: prod.splits option.splits response.splits wire.splits if_splits sum.splits)
  show "blob_get (en_root ?en) i (client_disk c') = Inr b"
    unfolding d by (rule blobs.put_get [OF assms(3) singletonI put])
  show "plain_name i" using assms(3) blobs.put_addr [OF put] by (simp add: blob_ok_def)
qed

text \<open>The client after the tests have run.\<close>

definition after_tests :: "runner \<Rightarrow> verify_req \<Rightarrow> client \<Rightarrow> client" where
  "after_tests run q c = set_disk (snd (run (vq_root q) (test_command q (client_disk c)) (client_disk c))) c"

lemma verify_cases:
  assumes "verify w run q c = (Inr r, c')"
  obtains c2 ev where "client_put_blob w (receipt_text (vr_receipt r)) (after_tests run q c) = (Some (vr_blob r), c2)"
    "c' = client_append_event w ev c2" "vr_passed r \<longleftrightarrow> rt_exit (vr_receipt r) = 0"
    "rt_mission (vr_receipt r) = vq_mission q" "rt_time (vr_receipt r) = w_now w"
  using assms by (auto simp: verify_def after_tests_def Let_def split: prod.splits option.splits if_splits)

section \<open>Properties\<close>

text \<open> C21: a verification that returns has stored its receipt: whatever others do to the daemon short
  of losing blobs, the daemon serves the JSON text of the receipt under the returned id. \<close>

theorem verified_receipt_served:
  assumes "verify w run q c = (Inr r, c')" "bystanders (blobs_kept (en_root (w_env w))) w"
    and "blob_ok (en_sha (w_env w)) (en_root (w_env w)) {receipt_text (vr_receipt r)} (client_disk (pause w (after_tests run q c)))"
    and "length (receipt_text (vr_receipt r)) \<le> 10 * 1024 * 1024"
  shows "fst (serve (w_env w) inp (Get_Blob (vr_blob r)) (ct_server c')) = R_Blob (vr_blob r) (receipt_text (vr_receipt r))"
  using assms(1)
proof (cases rule: verify_cases)
  case (1 c2 ev)
  note stored = put_blob_stored [OF 1(1) assms(4) assms(3) [unfolded client_disk_def]]
  have "blobs_kept (en_root (w_env w)) (ct_server c2) (ct_server c')"
    using blob_frame.going_append [of ev w c2] assms(2,3) by (simp add: going_def 1(2) blob_ok_def)
  with stored have "blob_get (en_root (w_env w)) (vr_blob r) (client_disk c') = Inr (receipt_text (vr_receipt r))"
    by (simp add: blobs_kept_def client_disk_def)
  then show ?thesis using stored(1) by (auto simp: handle_get_blob_def client_disk_def plain_name_def)
qed

text \<open> The receipt of a verification passes the gate of a merge exactly when the command exited
  with 0, the mission has an id and the clock gave a time that parses. \<close>

theorem gate_decides_verified:
  assumes "verify w run q c = (Inr r, c')"
  shows "gate_merge rfc3339 (vr_receipt r) = None \<longleftrightarrow>
    vr_passed r \<and> vq_mission q \<noteq> [] \<and> w_now w \<noteq> [] \<and> rfc3339 (w_now w)"
  using assms by (cases rule: verify_cases) (simp add: gate_merge_def)

definition ex_runner :: runner where
  "ex_runner = default_run_cmd (\<lambda>_ _ d. ((''ok'', Ran), d))"

definition ex_check :: verify_req where
  "ex_check = \<lparr>vq_mission = ''m'', vq_root = ''r'', vq_command = ''t''\<rparr>"

definition ex_wire :: world where
  "ex_wire = ex_world\<lparr>w_env := (w_env ex_world)\<lparr>en_sha := \<lambda>_. ''d''\<rparr>, w_now := ''2025''\<rparr>"

definition ex_store :: client where
  "ex_store = \<lparr>ct_calls = 0, ct_server = ex_server\<lparr>sv_disk := ex_disk\<rparr>\<rparr>"

lemma ex_wire_facts:
  "w_now ex_wire = ''2025''" "en_sha (w_env ex_wire) = (\<lambda>_. ''d'')" "en_root (w_env ex_wire) = ''h''" "quiet ex_wire"
  by (simp_all add: ex_wire_def ex_world_def quiet_def)

definition ex_receipt :: receipt where
  "ex_receipt = \<lparr>rt_mission = ''m'', rt_env = ''d'', rt_command = ''d'', rt_stdout = ''d'', rt_exit = 0, rt_time = ''2025''\<rparr>"

lemma ex_receipt_text: "length (receipt_text ex_receipt) \<le> 10 * 1024 * 1024" "receipt_text ex_receipt \<noteq> []"
  by (simp_all add: receipt_text_def ex_receipt_def json_quote_def json_esc_def jint_def itoa_def nat_str.simps)

lemma ex_verified:
  "\<exists>c'. verify ex_wire ex_runner ex_check ex_store =
     (Inr \<lparr>vr_receipt = ex_receipt, vr_passed = True, vr_stdout = ''ok'', vr_blob = ''d''\<rparr>, c')"
proof -
  let ?t = "receipt_text ex_receipt"
  have p: "blob_path ''h'' ''d'' = ''h/blobs/sha256/d''" "path_dir ''h/blobs/sha256/d'' = ''h/blobs/sha256''"
    "Prelude.fields ''t'' = [''t'']" by code_simp+
  have "blob_put (\<lambda>_. ''d'') ''h'' ?t ex_disk = (Inr ''d'', ex_disk\<lparr>d_files := [(''h/blobs/sha256/d'', ?t)]\<rparr>)"
    by (simp add: blob_put_def p ex_disk_def os_stat_def write_file_def Let_def)
  then have "\<exists>c1. client_put_blob ex_wire ?t ex_store = (Some ''d'', c1)"
    using ex_receipt_text
    by (simp add: client_put_blob_def exchange_def pause_def failure_def handle_put_blob_def Let_def ex_store_def ex_server_def)
      (simp add: ex_wire_def ex_world_def failure_def)
  moreover have "test_command ex_check d = ''t''" for d by (simp add: test_command_def ex_check_def)
  moreover have "set_disk (client_disk ex_store) ex_store = ex_store" by (simp add: set_disk_def client_disk_def)
  ultimately show ?thesis
    by (auto simp: verify_def Let_def ex_runner_def default_run_cmd_def p compute_env_hash_def ex_wire_facts ex_receipt_def)
      (simp add: ex_check_def)
qed

lemma verified_receipt_served_witness:
  "\<exists>r c'. verify ex_wire ex_runner ex_check ex_store = (Inr r, c') \<and>
     fst (serve (w_env ex_wire) (w_input ex_wire 0) (Get_Blob (vr_blob r)) (ct_server c')) = R_Blob ''d'' (receipt_text ex_receipt)"
proof -
  obtain c' where v: "verify ex_wire ex_runner ex_check ex_store =
     (Inr \<lparr>vr_receipt = ex_receipt, vr_passed = True, vr_stdout = ''ok'', vr_blob = ''d''\<rparr>, c')" using ex_verified by blast
  have "bystanders (blobs_kept ''h'') ex_wire" by (rule quiet_bystanders) (simp_all add: ex_wire_facts blobs_kept_def)
  moreover have d: "client_disk (pause ex_wire (after_tests ex_runner ex_check ex_store)) = ex_disk"
  proof -
    have "Prelude.fields ''t'' = [''t'']" by code_simp
    then show ?thesis using quiet_pause [OF ex_wire_facts(4)]
      by (simp add: client_disk_def after_tests_def set_disk_def ex_runner_def default_run_cmd_def ex_check_def test_command_def)
        (simp add: ex_store_def)
  qed
  moreover have "\<not> blob_exists ''h'' ''d'' ex_disk" "plain_name ''d''" by code_simp+
  ultimately show ?thesis
    using v verified_receipt_served [OF v, of "w_input ex_wire 0"] ex_receipt_text(1) by (simp add: ex_wire_facts blob_ok_def)
qed

lemma gate_decides_verified_witness:
  "\<exists>r c'. verify ex_wire ex_runner ex_check ex_store = (Inr r, c') \<and> gate_merge (\<lambda>_. True) (vr_receipt r) = None"
proof -
  obtain c' where v: "verify ex_wire ex_runner ex_check ex_store =
     (Inr \<lparr>vr_receipt = ex_receipt, vr_passed = True, vr_stdout = ''ok'', vr_blob = ''d''\<rparr>, c')" using ex_verified by blast
  from gate_decides_verified [OF v, of "\<lambda>_. True"] v show ?thesis by (simp add: ex_wire_facts ex_check_def)
qed

text \<open> With the default runner, a command that cannot be run at all is reported as a failed test:
  it counts as exit code 1, so the branch that would return the error of the run is never taken. \<close>

theorem run_errors_become_failures:
  "(case verify w (default_run_cmd proc) q c of
      (Inl (V_Run e), c') \<Rightarrow> False
    | (Inl V_Store, c') \<Rightarrow> True
    | (Inr r, c') \<Rightarrow>
        (case proc (vq_root q) (Prelude.fields (test_command q (client_disk c))) (client_disk c) of
           ((out, Not_Run e), d) \<Rightarrow> \<not> vr_passed r
         | ((out, Exited k), d) \<Rightarrow> vr_passed r = (k = 0 \<and> Prelude.fields (test_command q (client_disk c)) \<noteq> [])
         | ((out, Ran), d) \<Rightarrow> vr_passed r = (Prelude.fields (test_command q (client_disk c)) \<noteq> [])))"
  by (auto simp: verify_def default_run_cmd_def Let_def split: prod.splits option.splits list.splits ended.splits if_splits)

text \<open> The environment hash does not separate the files it covers: two repositories, one with a
  \<open>Cargo.lock\<close> and a \<open>go.sum\<close>, the other with one \<open>Cargo.lock\<close> that spells both, have the same
  hash, whatever the digest. \<close>

theorem env_hash_ambiguous:
  assumes "\<forall>f \<in> set env_files - {''Cargo.lock'', ''go.sum''}. read_file d (path_join [root, f]) = read_file d' (path_join [root, f])"
    and "read_file d (path_join [root, ''Cargo.lock'']) = Inr x" "read_file d (path_join [root, ''go.sum'']) = Inr y"
    and "read_file d' (path_join [root, ''Cargo.lock'']) = Inr (x @ [LF] @ ''go.sum:'' @ y)"
    and "read_file d' (path_join [root, ''go.sum'']) = Inl e"
  shows "compute_env_hash sha root d = compute_env_hash sha root d'"
proof -
  have "env_files = [''Cargo.lock'', ''go.sum''] @ drop 2 env_files" by (simp add: env_files_def)
  moreover have "env_entry root d f = env_entry root d' f" if "f \<in> set (drop 2 env_files)" for f
  proof -
    have "f \<in> set env_files - {''Cargo.lock'', ''go.sum''}" using that by (auto simp: env_files_def)
    with assms(1) show ?thesis by (simp add: env_entry_def)
  qed
  then have "map (env_entry root d) (drop 2 env_files) = map (env_entry root d') (drop 2 env_files)" by simp
  moreover have "List.concat (map (env_entry root d) [''Cargo.lock'', ''go.sum'']) = List.concat (map (env_entry root d') [''Cargo.lock'', ''go.sum''])"
    using assms(2-5) by (simp add: env_entry_def)
  ultimately show ?thesis unfolding compute_env_hash_def env_text_def by (metis concat_append map_append)
qed

lemma env_hash_ambiguous_witness:
  "compute_env_hash id ''r'' \<lparr>d_files = [(''r/Cargo.lock'', ''a''), (''r/go.sum'', ''b'')], d_dirs = [], d_bad = []\<rparr> =
   compute_env_hash id ''r'' \<lparr>d_files = [(''r/Cargo.lock'', ''a'' @ [LF] @ ''go.sum:b'')], d_dirs = [], d_bad = []\<rparr>"
proof -
  have p: "path_join [''r'', ''Cargo.lock''] = ''r/Cargo.lock''" "path_join [''r'', ''go.sum''] = ''r/go.sum''" by code_simp+
  have o: "list_all (\<lambda>f. path_join [''r'', f] \<notin> {''r/Cargo.lock'', ''r/go.sum''}) (drop 2 env_files)" by code_simp
  have s: "set env_files - {''Cargo.lock'', ''go.sum''} \<subseteq> set (drop 2 env_files)" by (auto simp: env_files_def)
  show ?thesis
    by (rule env_hash_ambiguous [where x = "''a''" and y = "''b''" and e = NotExist])
      (use o s in \<open>auto simp: p read_file_def list_all_iff\<close>)
qed

end
