(* ===== verification/Planner.thy ===== *)
theory Planner
  imports Integrator
begin

text \<open>
  The planner of missions, \<open>god/planner.go\<close>: keywords of the task, symbols that match them,
  buckets of symbols by directory, and a mission with leases for each bucket.

  The buckets are a Go map, whose iteration order is not determined, and are sorted by an unstable
  sort: the order of the sorted buckets is the parameter \<open>rank\<close> of the locale
  \<open>largest_first\<close>, the order in which the missions are made the parameter \<open>walk\<close>. The generated
  ids are \<open>w_ids\<close> of the world, in the order of their generation.
\<close>

section \<open>Keywords\<close>

definition stop_words :: "string list" where
  "stop_words =
     [''the'', ''a'', ''an'', ''is'', ''in'', ''to'', ''for'', ''of'', ''and'', ''or'', ''with'', ''that'', ''this'', ''it'', ''on'',
      ''at'', ''by'', ''from'', ''as'', ''be'', ''add'', ''fix'', ''update'', ''implement'', ''change'', ''modify'', ''create'', ''make'']"

definition punctuation :: string where
  "punctuation = ''.,;:!?'' @ [CHR 0x22, CHR 0x27] @ ''()[]{}''"

definition strip_word :: "string \<Rightarrow> string" where
  "strip_word s = trim_right_set (trim_left_set s punctuation) punctuation"

fun keyword_loop :: "string list \<Rightarrow> string list \<Rightarrow> string list" where
  "keyword_loop seen [] = []"
| "keyword_loop seen (s # ss) =
     (let k = strip_word s
      in if length k < 3 \<or> List.member stop_words k \<or> List.member seen k then keyword_loop seen ss
         else k # keyword_loop (k # seen) ss)"

definition extract_keywords :: "(string \<Rightarrow> string) \<Rightarrow> string \<Rightarrow> string list" where
  "extract_keywords ul task = keyword_loop [] (Prelude.fields (to_lower ul task))"

section \<open>Symbols and buckets\<close>

definition add_unseen :: "symbol list \<Rightarrow> symbol list \<Rightarrow> symbol list" where
  "add_unseen ss all = fold (\<lambda>s all. if List.member (map sym_id all) (sym_id s) then all else all @ [s]) ss all"

fun gather_loop :: "world \<Rightarrow> int \<Rightarrow> string list \<Rightarrow> symbol list \<Rightarrow> client \<Rightarrow> symbol list \<times> client" where
  "gather_loop w n [] all c = (all, c)"
| "gather_loop w n (k # ks) all c =
     (case client_ir_search w k n c of
        (None, c') \<Rightarrow> gather_loop w n ks all c'
      | (Some ss, c') \<Rightarrow> gather_loop w n ks (add_unseen ss all) c')"

definition gather_symbols :: "world \<Rightarrow> string list \<Rightarrow> client \<Rightarrow> symbol list \<times> client" where
  "gather_symbols w ks c = gather_loop w 10 ks [] c"

text \<open>\<open>filepath.Base\<close>.\<close>

definition path_base :: "path \<Rightarrow> string" where
  "path_base p =
     (if p = [] then ''.''
      else let q = dropWhile (\<lambda>c. c = CHR ''/'') (rev p)
        in if q = [] then ''/'' else rev (takeWhile (\<lambda>c. c \<noteq> CHR ''/'') q))"

definition bucket_name :: "symbol \<Rightarrow> string" where
  "bucket_name s = (let b = path_base (path_dir (sym_path s)) in if b = ''.'' \<or> b = [] then ''root'' else b)"

type_synonym bucket = "string \<times> symbol list"

text \<open>\<open>m[k] = append(m[k], vs...)\<close>.\<close>

definition add_to :: "string \<Rightarrow> symbol list \<Rightarrow> bucket list \<Rightarrow> bucket list" where
  "add_to k vs m = aput k ((case map_of m k of None \<Rightarrow> [] | Some us \<Rightarrow> us) @ vs) m"

definition dir_map :: "symbol list \<Rightarrow> bucket list" where
  "dir_map ss = fold (\<lambda>s. add_to (bucket_name s) [s]) ss []"

definition group_by_bucket :: "(bucket list \<Rightarrow> bucket list) \<Rightarrow> symbol list \<Rightarrow> bucket list" where
  "group_by_bucket rank ss =
     (let m = dir_map ss
      in if 3 < length m
         then (let es = rank m
               in fold (\<lambda>(n, us). add_to ''misc'' us) (drop 2 es) (fold (\<lambda>(n, us). aput n us) (take 2 es) []))
         else m)"

section \<open>Missions\<close>

definition scope_type_for :: "string \<Rightarrow> string" where
  "scope_type_for kind =
     (if kind \<in> {''function'', ''method'', ''constant'', ''variable'', ''type'', ''interface'', ''enum''} then ''symbol''
      else if kind = ''class'' then ''symbol'' else ''symbol'')"

fun bucket_scopes :: "string list \<Rightarrow> symbol list \<Rightarrow> scope list" where
  "bucket_scopes seen [] = []"
| "bucket_scopes seen (s # ss) =
     (let key = sym_kind s @ '':'' @ sym_name s
      in if List.member seen key then bucket_scopes seen ss
         else \<lparr>sc_type = scope_type_for (sym_kind s), sc_value = sym_name s\<rparr> # bucket_scopes (key # seen) ss)"

definition target_of :: "scope \<Rightarrow> scope_target" where
  "target_of s = \<lparr>st_type = sc_type s, st_value = sc_value s\<rparr>"

definition scope_json :: "scope \<Rightarrow> json" where
  "scope_json s = JObj [(''scope_type'', JStr (sc_type s)), (''scope_value'', JStr (sc_value s))]"

datatype plan_error = PE_Build | PE_Lease string

definition plan_bucket ::
  "world \<Rightarrow> string \<Rightarrow> string \<Rightarrow> string \<Rightarrow> bucket \<Rightarrow> client \<Rightarrow> (plan_error + mission) \<times> client" where
  "plan_bucket w plan mid task b c =
     (let scopes = bucket_scopes [] (snd b)
      in case client_lease_acquire w (''god-'' @ plan) mid (map target_of scopes) c of
           (None, c') \<Rightarrow> (Inl (PE_Lease (fst b)), c')
         | (Some a, c') \<Rightarrow>
             (let ids = map lease_id (ar_acquired a);
                  m = \<lparr>mi_id = mid, mi_goal = ''Implement '' @ fst b @ '' bucket: '' @ task, mi_base_rev = ''HEAD'', mi_scopes = scopes,
                       mi_leases = ids, mi_tasks = [fst b], mi_budget = 8000, mi_created = w_now w\<rparr>
              in (Inr m,
                  client_append_event w
                    (JObj [(''goal'', JStr (mi_goal m)), (''lease_ids'', JArr (map JStr ids)), (''mission_id'', JStr mid),
                           (''plan_id'', JStr plan), (''scopes'', JArr (map scope_json scopes)), (''type'', JStr ''mission_created'')]) c')))"

text \<open>The missions of the buckets, with the ids from the \<open>k\<close>-th on.\<close>

fun plan_buckets ::
  "world \<Rightarrow> string \<Rightarrow> string \<Rightarrow> string \<Rightarrow> nat \<Rightarrow> bucket list \<Rightarrow> mission_dag \<Rightarrow> client \<Rightarrow>
   (plan_error + mission_dag) \<times> client" where
  "plan_buckets w plan root task k [] dag c = (Inr dag, c)"
| "plan_buckets w plan root task k (b # bs) dag c =
     (case plan_bucket w plan (w_ids w k) task b c of
        (Inl e, c') \<Rightarrow> (Inl e, c')
      | (Inr m, c') \<Rightarrow>
          plan_buckets w plan root task (Suc k) bs (add_node \<lparr>dn_mission = m, dn_depends = [root]\<rparr> dag) c')"

definition plan_fallback :: "world \<Rightarrow> string \<Rightarrow> string \<Rightarrow> string \<Rightarrow> mission_dag \<Rightarrow> client \<Rightarrow> mission_dag \<times> client" where
  "plan_fallback w plan root task dag c =
     (let m = \<lparr>mi_id = w_ids w 2, mi_goal = task, mi_base_rev = ''HEAD'', mi_scopes = [], mi_leases = [], mi_tasks = [''default''],
               mi_budget = 8000, mi_created = w_now w\<rparr>
      in (add_node \<lparr>dn_mission = m, dn_depends = [root]\<rparr> dag,
          client_append_event w
            (JObj [(''goal'', JStr task), (''mission_id'', JStr (mi_id m)), (''plan_id'', JStr plan), (''type'', JStr ''mission_created'')]) c))"

definition plan_missions ::
  "world \<Rightarrow> (string \<Rightarrow> string) \<Rightarrow> (bucket list \<Rightarrow> bucket list) \<Rightarrow> (bucket list \<Rightarrow> bucket list) \<Rightarrow> string \<Rightarrow> path \<Rightarrow>
   client \<Rightarrow> (plan_error + mission_dag) \<times> client" where
  "plan_missions w ul rank walk task repo c =
     (case client_ir_build w repo c of
        (None, c1) \<Rightarrow> (Inl PE_Build, c1)
      | (Some n, c1) \<Rightarrow>
          (let (ss, c2) = gather_symbols w (extract_keywords ul task) c1;
               buckets = group_by_bucket rank ss; plan = w_ids w 0;
               analysis = \<lparr>mi_id = w_ids w 1, mi_goal = ''Analyze codebase for: '' @ task, mi_base_rev = ''HEAD'', mi_scopes = [],
                           mi_leases = [], mi_tasks = [''analyze''], mi_budget = 4000, mi_created = w_now w\<rparr>;
               dag = add_node \<lparr>dn_mission = analysis, dn_depends = []\<rparr> (new_mission_dag (w_now w) plan task repo)
           in if buckets = [] then (let (dag', c3) = plan_fallback w plan (mi_id analysis) task dag c2 in (Inr dag', c3))
              else plan_buckets w plan (mi_id analysis) task 2 (walk buckets) dag c2))"

section \<open>Keywords are what the task says\<close>

lemma keyword_loop_spec:
  "distinct (keyword_loop seen ss) \<and> set (keyword_loop seen ss) \<inter> set seen = {} \<and>
   set (keyword_loop seen ss) \<union> set seen =
     {k. k \<in> strip_word ` set ss \<and> 3 \<le> length k \<and> k \<notin> set stop_words} \<union> set seen"
proof (induction seen ss rule: keyword_loop.induct)
  case (2 seen s ss)
  show ?case
  proof (cases "length (strip_word s) < 3 \<or> List.member stop_words (strip_word s) \<or> List.member seen (strip_word s)")
    case True
    with 2(1) [OF refl] show ?thesis by (auto simp: Let_def)
  next
    case False
    with 2(2) [OF refl] show ?thesis by (auto simp: Let_def)
  qed
qed simp

section \<open>Buckets\<close>

locale largest_first =
  fixes rank :: "bucket list \<Rightarrow> bucket list"
  assumes rank_perm: "mset (rank m) = mset m"
    and rank_sorted: "sorted_wrt (\<lambda>a b. length (snd b) \<le> length (snd a)) (rank m)"

definition rank_stably :: "bucket list \<Rightarrow> bucket list" where
  "rank_stably m = sort_key (\<lambda>b. - int (length (snd b))) m"

interpretation stably: largest_first rank_stably
proof
  fix m
  have "sorted (map (\<lambda>b. - int (length (snd b))) (rank_stably m))" unfolding rank_stably_def by (rule sorted_sort_key)
  then show "sorted_wrt (\<lambda>a b. length (snd b) \<le> length (snd a)) (rank_stably m)"
    by (simp add: sorted_wrt_map)
qed (simp add: rank_stably_def)

definition contents :: "bucket list \<Rightarrow> symbol multiset" where
  "contents m = mset (List.concat (map snd m))"

lemma add_to_simps:
  "add_to k vs [] = [(k, vs)]"
  "add_to k vs ((j, us) # m) = (if j = k then (k, us @ vs) # m else (j, us) # add_to k vs m)"
  by (simp_all add: add_to_def)

lemma contents_simps [simp]: "contents [] = {#}" "contents (b # m) = mset (snd b) + contents m"
  "contents (m @ m') = contents m + contents m'"
  by (simp_all add: contents_def)

lemma add_to_facts:
  "contents (add_to k vs m) = contents m + mset vs" "length (add_to k vs m) \<le> Suc (length m)"
  "distinct (map fst (add_to k vs m)) = distinct (map fst m)"
  "vs \<noteq> [] \<Longrightarrow> list_all (\<lambda>b. snd b \<noteq> []) m \<Longrightarrow> list_all (\<lambda>b. snd b \<noteq> []) (add_to k vs m)"
proof -
  show "contents (add_to k vs m) = contents m + mset vs" by (induction m) (auto simp: add_to_simps)
  show "length (add_to k vs m) \<le> Suc (length m)" by (induction m) (auto simp: add_to_simps)
  show "distinct (map fst (add_to k vs m)) = distinct (map fst m)" by (simp add: add_to_def)
  show "vs \<noteq> [] \<Longrightarrow> list_all (\<lambda>b. snd b \<noteq> []) m \<Longrightarrow> list_all (\<lambda>b. snd b \<noteq> []) (add_to k vs m)"
    by (induction m) (auto simp: add_to_simps)
qed

definition bucket_inv :: "bucket list \<Rightarrow> bool" where
  "bucket_inv m \<longleftrightarrow> distinct (map fst m) \<and> list_all (\<lambda>b. snd b \<noteq> []) m"

lemma bucket_inv_add: "bucket_inv m \<Longrightarrow> vs \<noteq> [] \<Longrightarrow> bucket_inv (add_to k vs m)"
  by (simp add: bucket_inv_def add_to_facts)

lemma dir_map_facts: "bucket_inv (dir_map ss) \<and> contents (dir_map ss) = mset ss"
proof -
  have "bucket_inv m \<Longrightarrow> bucket_inv (fold (\<lambda>s. add_to (bucket_name s) [s]) ss m) \<and>
    contents (fold (\<lambda>s. add_to (bucket_name s) [s]) ss m) = contents m + mset ss" for m
    by (induction ss arbitrary: m) (simp_all add: bucket_inv_add add_to_facts)
  from this [of "[]"] show ?thesis by (simp add: dir_map_def bucket_inv_def)
qed

lemma merge_facts:
  "bucket_inv m \<Longrightarrow> list_all (\<lambda>b. snd b \<noteq> []) es \<Longrightarrow>
   bucket_inv (fold (\<lambda>(n, us). add_to ''misc'' us) es m) \<and>
   contents (fold (\<lambda>(n, us). add_to ''misc'' us) es m) = contents m + contents es"
  by (induction es arbitrary: m) (auto simp: bucket_inv_add add_to_facts)

lemma add_to_keys: "fst ` set (add_to k us m) = insert k (fst ` set m)"
  by (simp add: add_to_def)

lemma add_to_length: "k \<in> fst ` set m \<Longrightarrow> length (add_to k us m) = length m"
  by (induction m) (auto simp: add_to_simps rev_image_eqI)

lemma merge_length_same: "k \<in> fst ` set m \<Longrightarrow> length (fold (\<lambda>(n, us). add_to k us) es m) = length m"
  by (induction es arbitrary: m) (simp_all add: add_to_keys add_to_length case_prod_unfold)

lemma merge_length: "length (fold (\<lambda>(n, us). add_to k us) es m) \<le> Suc (length m)"
proof (cases es)
  case (Cons e es')
  then show ?thesis using merge_length_same [of k "add_to k (snd e) m" es'] add_to_facts(2) [of k "snd e" m]
    by (simp add: case_prod_unfold add_to_keys)
qed simp

lemma fold_aput_fresh:
  "distinct (map fst (m @ es)) \<Longrightarrow> fold (\<lambda>(n, us). aput n us) es m = m @ es"
proof (induction es arbitrary: m)
  case (Cons e es)
  have "k \<notin> fst ` set m \<Longrightarrow> aput k us m = m @ [(k, us)]" for k us
    by (induction m) auto
  then show ?case using Cons by (simp add: case_prod_unfold)
qed simp

context largest_first
begin

lemma group_facts:
  "bucket_inv (group_by_bucket rank ss) \<and> contents (group_by_bucket rank ss) = mset ss \<and> length (group_by_bucket rank ss) \<le> 3"
proof (cases "3 < length (dir_map ss)")
  case True
  let ?m = "dir_map ss" and ?es = "rank (dir_map ss)"
  let ?two = "fold (\<lambda>(n, us). aput n us) (take 2 ?es) []"
  note m = dir_map_facts [of ss]
  have d: "distinct (map fst ?es)"
    using m mset_eq_imp_distinct_iff [of "map fst ?es" "map fst ?m"] by (simp add: rank_perm bucket_inv_def)
  have ne: "list_all (\<lambda>b. snd b \<noteq> []) ?es"
    using m mset_eq_setD [OF rank_perm] by (simp add: list_all_iff bucket_inv_def)
  have two: "?two = take 2 ?es"
    using fold_aput_fresh [of "[]" "take 2 ?es"] distinct_take [OF d, of 2] by (simp add: take_map)
  have inv2: "bucket_inv (take 2 ?es)"
    using distinct_take [OF d, of 2] ne by (auto simp: bucket_inv_def take_map list_all_iff dest: in_set_takeD)
  have "contents (take 2 ?es) + contents (drop 2 ?es) = contents ?es"
    by (simp flip: contents_simps(3))
  also have "\<dots> = contents ?m"
  proof -
    have "contents xs = sum_mset (image_mset (\<lambda>b. mset (snd b)) (mset xs))" for xs by (induction xs) auto
    then show ?thesis by (simp add: rank_perm)
  qed
  finally have parts: "contents (take 2 ?es) + contents (drop 2 ?es) = mset ss" using m by simp
  have "list_all (\<lambda>b. snd b \<noteq> []) (drop 2 ?es)" using ne by (auto simp: list_all_iff dest: in_set_dropD)
  from merge_facts [OF inv2 this] merge_length [of "''misc''" "drop 2 ?es" "take 2 ?es"] parts True
  show ?thesis by (simp add: group_by_bucket_def two Let_def)
qed (use dir_map_facts in \<open>simp add: group_by_bucket_def Let_def\<close>)

end

section \<open>Plans\<close>

lemma plan_bucket_mission:
  "plan_bucket w plan mid task b c = (Inr m, c') \<Longrightarrow>
   mi_id m = mid \<and> mi_tasks m = [fst b] \<and> mi_scopes m = bucket_scopes [] (snd b) \<and> mi_budget m = 8000"
  by (auto simp: plan_bucket_def Let_def split: prod.splits option.splits)

lemma nodes_of_add [simp]: "nodes_of (add_node n dag) = nodes_of dag @ [n]"
  by (simp add: nodes_of_def add_node_def)

lemma nodes_of_new [simp]: "nodes_of (new_mission_dag now plan task repo) = []"
  by (simp add: nodes_of_def new_mission_dag_def)

lemma plan_buckets_nodes:
  "plan_buckets w plan root task k bs dag c = (Inr dag', c') \<Longrightarrow>
   \<exists>ns. nodes_of dag' = nodes_of dag @ ns \<and> length ns = length bs \<and> map node_id ns = map (w_ids w) [k..<k + length bs] \<and>
     list_all (\<lambda>n. dn_depends n = [root] \<and> mi_budget (dn_mission n) = 8000) ns \<and>
     list_all2 (\<lambda>n b. mi_scopes (dn_mission n) = bucket_scopes [] (snd b)) ns bs"
proof (induction bs arbitrary: k dag c)
  case (Cons b bs)
  obtain x c1 where step: "plan_bucket w plan (w_ids w k) task b c = (x, c1)" by (meson surj_pair)
  with Cons.prems obtain m where x: "x = Inr m" by (cases x) auto
  from Cons.prems obtain ns where ns:
    "nodes_of dag' = nodes_of dag @ \<lparr>dn_mission = m, dn_depends = [root]\<rparr> # ns" "length ns = length bs"
    "map node_id ns = map (w_ids w) [Suc k..<Suc k + length bs]"
    "list_all (\<lambda>n. dn_depends n = [root] \<and> mi_budget (dn_mission n) = 8000) ns"
    "list_all2 (\<lambda>n b. mi_scopes (dn_mission n) = bucket_scopes [] (snd b)) ns bs"
    using Cons.IH [of "Suc k" "add_node \<lparr>dn_mission = m, dn_depends = [root]\<rparr> dag" c1] by (auto simp: step x)
  have ids: "[k..<k + length (b # bs)] = k # [Suc k..<Suc k + length bs]" by (simp add: upt_conv_Cons del: upt_Suc)
  show ?case unfolding ids
    using ns plan_bucket_mission [OF step [unfolded x]]
    by (intro exI [of _ "\<lparr>dn_mission = m, dn_depends = [root]\<rparr> # ns"]) (simp del: upt_Suc)
qed simp

lemma plan_fallback_nodes:
  "plan_fallback w plan root task dag c = (dag', c') \<Longrightarrow>
   \<exists>n. nodes_of dag' = nodes_of dag @ [n] \<and> node_id n = w_ids w 2 \<and> dn_depends n = [root] \<and> mi_budget (dn_mission n) = 8000"
  by (auto simp: plan_fallback_def Let_def)

text \<open>A star of missions around a root without dependencies has no cycle.\<close>

lemma star_acyclic:
  assumes "dn_depends a = []" "list_all (\<lambda>n. dn_depends n = [node_id a]) ms" "distinct (map node_id (a # ms))"
  shows "\<exists>r. detect_cycle (a # ms) = Some (Inr r)"
proof -
  let ?deps = "deps_of (a # ms)"
  have root: "?deps (node_id a) = []"
    using deps_of_cases [of "a # ms" "node_id a"] assms by (auto simp: rev_image_eqI)
  have other: "set (?deps v) \<subseteq> {node_id a}" for v
    using deps_of_cases [of "a # ms" v] assms by (auto simp: list_all_iff)
  obtain r where r: "detect_cycle (a # ms) = Some r"
    "(case r of Inl (v, d) \<Rightarrow> (v, d) \<in> edges ?deps \<and> (d, v) \<in> (edges ?deps)\<^sup>* | Inr _ \<Rightarrow> acyclic (edges ?deps))"
    using detect_cycle_spec [of "a # ms"] by blast
  show ?thesis
  proof (cases r)
    case (Inl p)
    obtain v d where p: "p = (v, d)" by (cases p)
    with Inl r(2) have e: "(v, d) \<in> edges ?deps" "(d, v) \<in> (edges ?deps)\<^sup>*" by auto
    then have d: "d = node_id a" using other by (auto simp: edges_def)
    have "(node_id a, x) \<notin> edges ?deps" for x using root by (simp add: edges_def)
    with e(2) d have "v = node_id a" by (metis converse_rtranclE)
    with e(1) root show ?thesis by (simp add: edges_def)
  qed (use r in auto)
qed

section \<open>Properties\<close>

text \<open> The keywords of a task are, each once, the stripped words of the task in lower case that have
  at least three bytes and are no stop words. \<close>

theorem keywords_exact:
  "distinct (extract_keywords ul task) \<and>
   set (extract_keywords ul task) =
     {k \<in> strip_word ` set (Prelude.fields (to_lower ul task)). 3 \<le> length k \<and> \<not> List.member stop_words k}"
  using keyword_loop_spec [of "[]" "Prelude.fields (to_lower ul task)"] by (auto simp: extract_keywords_def)

text \<open> For every order that the iteration over the map and the unstable sort may choose, the buckets
  have different names, are at most three, none empty, and hold each symbol exactly as often as it
  was found. \<close>

theorem buckets_partition:
  assumes "largest_first rank"
  shows "distinct (map fst (group_by_bucket rank ss)) \<and> length (group_by_bucket rank ss) \<le> 3 \<and>
    list_all (\<lambda>b. snd b \<noteq> []) (group_by_bucket rank ss) \<and>
    mset (List.concat (map snd (group_by_bucket rank ss))) = mset ss"
  using largest_first.group_facts [OF assms, of ss] by (simp add: bucket_inv_def contents_def)

definition ex_symbol :: "nat \<Rightarrow> path \<Rightarrow> symbol" where
  "ex_symbol i p = \<lparr>sym_id = i, sym_name = ''f'', sym_kind = ''function'', sym_path = p, sym_start = 0, sym_end = 0, sym_line = 1, sym_end_line = 1\<rparr>"

lemma buckets_partition_witness:
  "length (group_by_bucket rank_stably (map (\<lambda>(i, p). ex_symbol i p)
     [(1, ''a/x''), (2, ''b/x''), (3, ''c/x''), (4, ''d/x''), (5, ''d/y'')])) \<le> 3"
  using buckets_partition [OF stably.largest_first_axioms] by blast

text \<open> A plan that is returned is a star: the analysis mission first, without dependencies and with
  4000 tokens, then one to three missions with 8000 tokens that depend on it alone; their ids are
  different and the oracle's search finds no cycle. \<close>

theorem plan_is_star:
  assumes "plan_missions w ul rank walk task repo c = (Inr dag, c')" "largest_first rank" "\<forall>m. mset (walk m) = mset m"
    and "inj (w_ids w)"
  shows "\<exists>a ms. nodes_of dag = a # ms \<and> dn_depends a = [] \<and> mi_budget (dn_mission a) = 4000 \<and>
    1 \<le> length ms \<and> length ms \<le> 3 \<and> list_all (\<lambda>n. dn_depends n = [node_id a] \<and> mi_budget (dn_mission n) = 8000) ms \<and>
    distinct (mission_ids dag) \<and> (\<exists>r. detect_cycle (nodes_of dag) = Some (Inr r))"
proof -
  obtain n c1 where b: "client_ir_build w repo c = (Some n, c1)"
    using assms(1) by (auto simp: plan_missions_def split: prod.splits option.splits)
  obtain ss c2 where g: "gather_symbols w (extract_keywords ul task) c1 = (ss, c2)" by (meson surj_pair)
  let ?bs = "group_by_bucket rank ss"
  have "length ?bs \<le> 3" using largest_first.group_facts [OF assms(2)] by blast
  then have walk: "length (walk ?bs) \<le> 3" "?bs \<noteq> [] \<Longrightarrow> 1 \<le> length (walk ?bs)"
    using mset_eq_length [OF assms(3) [THEN spec, of ?bs]] by (simp_all add: Suc_le_eq)
  define a where "a = \<lparr>dn_mission = \<lparr>mi_id = w_ids w 1, mi_goal = ''Analyze codebase for: '' @ task, mi_base_rev = ''HEAD'',
    mi_scopes = [], mi_leases = [], mi_tasks = [''analyze''], mi_budget = 4000, mi_created = w_now w\<rparr>, dn_depends = []\<rparr>"
  have "\<exists>ms. nodes_of dag = a # ms \<and> 1 \<le> length ms \<and> length ms \<le> 3 \<and> map node_id ms = map (w_ids w) [2..<2 + length ms] \<and>
    list_all (\<lambda>n. dn_depends n = [node_id a] \<and> mi_budget (dn_mission n) = 8000) ms"
  proof (cases "?bs = []")
    case True
    with assms(1) b g obtain c3 where "plan_fallback w (w_ids w 0) (node_id a) task
        (add_node a (new_mission_dag (w_now w) (w_ids w 0) task repo)) c2 = (dag, c3)"
      by (auto simp: plan_missions_def a_def Let_def split: prod.splits)
    from plan_fallback_nodes [OF this] obtain n where "nodes_of dag = [a, n]" "node_id n = w_ids w 2"
      "dn_depends n = [node_id a]" "mi_budget (dn_mission n) = 8000" by auto
    moreover have "[2..<2 + length [n]] = [2]" by (simp add: upt_rec)
    ultimately show ?thesis by (intro exI [of _ "[n]"]) (simp del: upt_Suc)
  next
    case False
    with assms(1) b g have "plan_buckets w (w_ids w 0) (node_id a) task 2 (walk ?bs)
        (add_node a (new_mission_dag (w_now w) (w_ids w 0) task repo)) c2 = (Inr dag, c')"
      by (simp add: plan_missions_def a_def Let_def)
    from plan_buckets_nodes [OF this] walk False show ?thesis by (auto simp: list_all_iff)
  qed
  then obtain ms where ms: "nodes_of dag = a # ms" "1 \<le> length ms" "length ms \<le> 3"
    "map node_id ms = map (w_ids w) [2..<2 + length ms]"
    "list_all (\<lambda>n. dn_depends n = [node_id a] \<and> mi_budget (dn_mission n) = 8000) ms" by blast
  have ids: "map node_id (a # ms) = map (w_ids w) (1 # [2..<2 + length ms])" using ms(4) by (simp add: a_def)
  have "distinct (1 # [2..<2 + length ms])" by (simp del: upt_Suc)
  moreover have "inj_on (w_ids w) (set (1 # [2..<2 + length ms]))" by (rule inj_on_subset [OF assms(4)]) simp
  ultimately have d: "distinct (map node_id (a # ms))" unfolding ids distinct_map by (rule conjI)
  moreover have "list_all (\<lambda>n. dn_depends n = [node_id a]) ms" using ms(5) by (simp add: list_all_iff)
  ultimately have cyc: "\<exists>r. detect_cycle (a # ms) = Some (Inr r)" by (intro star_acyclic) (simp_all add: a_def)
  have a: "dn_depends a = []" "mi_budget (dn_mission a) = 4000" by (simp_all add: a_def)
  show ?thesis unfolding mission_ids_def ms(1)
    by (rule exI [of _ a], rule exI [of _ ms]) (intro conjI refl a ms(2,3,5) d cyc)
qed

definition ex_planner :: world where
  "ex_planner = ex_world\<lparr>w_ids := \<lambda>k. replicate k CHR ''x''\<rparr>"

lemma plan_is_star_witness:
  "\<exists>dag c'. plan_missions ex_planner id rank_stably id [] ''r'' ex_client = (Inr dag, c') \<and> 2 \<le> length (nodes_of dag)"
proof -
  have "\<exists>n. fst (client_ir_build ex_planner ''r'' ex_client) = Some n" by (rule exI) code_simp
  then obtain n c1 where "client_ir_build ex_planner ''r'' ex_client = (Some n, c1)" by (metis prod.collapse)
  moreover have "extract_keywords id [] = []" by code_simp
  ultimately have "\<exists>dag c'. plan_missions ex_planner id rank_stably id [] ''r'' ex_client = (Inr dag, c')"
    by (simp add: plan_missions_def gather_symbols_def group_by_bucket_def dir_map_def plan_fallback_def Let_def)
  then obtain dag c' where p: "plan_missions ex_planner id rank_stably id [] ''r'' ex_client = (Inr dag, c')" by blast
  have "inj (w_ids ex_planner)"
  proof (rule injI)
    fix i j :: nat
    assume "w_ids ex_planner i = w_ids ex_planner j"
    then have "length (replicate i CHR ''x'') = length (replicate j CHR ''x'')" unfolding ex_planner_def by simp
    then show "i = j" by simp
  qed
  from plan_is_star [OF p stably.largest_first_axioms _ this] p show ?thesis by auto
qed

text \<open> In a quiet world a bucket becomes a mission whoever holds its scopes: the mission lists all of
  them, and has one lease for each scope that nobody else holds, possibly none. \<close>

theorem denied_scopes_are_planned:
  fixes c :: client
  assumes "quiet w" "snd b \<noteq> []" "mid \<noteq> []"
  defines "ls \<equiv> sv_leases (ct_server c)"
  assumes "lease_inv ls" "fresh_ids (in_ids (w_input w (ct_calls c))) ls"
  shows "\<exists>m c'. plan_bucket w plan mid task b c = (Inr m, c') \<and> mi_scopes m = bucket_scopes [] (snd b) \<and>
    length (mi_leases m) =
      length (filter (\<lambda>s. \<not> blocked (''god-'' @ plan) (holder ls) (scope_key (sc_type s) (sc_value s))) (mi_scopes m))"
proof -
  let ?scopes = "bucket_scopes [] (snd b)" and ?owner = "''god-'' @ plan"
  let ?inp = "w_input w (ct_calls c)"
  obtain r ls' evs where acq: "acquire (in_ids ?inp) (in_now ?inp) ?owner mid (map target_of ?scopes) ls = (r, ls', evs)"
    by (metis prod.exhaust)
  obtain held where r: "r = Inr \<lparr>ar_acquired = held, ar_denied = filter (blocked ?owner (holder ls)) (map target_key (map target_of ?scopes))\<rparr>"
    and keys: "map lease_key held = filter (\<lambda>k. \<not> blocked ?owner (holder ls) k) (map target_key (map target_of ?scopes))"
    using acquire_spec [OF assms(5,6) acq] by blast
  have "?scopes \<noteq> []" using assms(2) by (cases "snd b") (simp_all add: Let_def)
  then have "fst (handle_lease_acquire (w_env w) ?inp (Some \<lparr>aq_owner = ?owner, aq_mission = mid, aq_scopes = map target_of ?scopes\<rparr>) (ct_server c)) =
      R_Acquired \<lparr>ar_acquired = held, ar_denied = filter (blocked ?owner (holder ls)) (map target_key (map target_of ?scopes))\<rparr>"
    using assms(3) acq by (simp add: handle_lease_acquire_def r ls_def Let_def)
  then have "\<exists>a c'. client_lease_acquire w ?owner mid (map target_of ?scopes) c = (Some a, c') \<and> ar_acquired a = held"
    using quiet_exchange(2) [OF assms(1), of "Lease_Acquire (Some \<lparr>aq_owner = ?owner, aq_mission = mid, aq_scopes = map target_of ?scopes\<rparr>)" c]
    by (auto simp: client_lease_acquire_def failure_def Let_def split: prod.splits)
  then have "\<exists>m c'. plan_bucket w plan mid task b c = (Inr m, c') \<and> mi_scopes m = ?scopes \<and> mi_leases m = map lease_id held"
    by (auto simp: plan_bucket_def Let_def)
  moreover have "length held = length (filter (\<lambda>s. \<not> blocked ?owner (holder ls) (scope_key (sc_type s) (sc_value s))) ?scopes)"
    using arg_cong [OF keys, of length] by (simp add: filter_map comp_def target_of_def)
  ultimately show ?thesis by auto
qed

definition ex_leasing :: world where
  "ex_leasing = ex_planner\<lparr>w_input := \<lambda>_. \<lparr>in_now = [], in_ids = ex_ids, in_walk = \<lambda>_. FS_Dir [] []\<rparr>\<rparr>"

lemma denied_scopes_are_planned_witness:
  "\<exists>m c'. plan_bucket ex_leasing ''p'' ''m'' ''t'' (''a'', [ex_symbol 1 ''a/x'']) \<lparr>ct_calls = 0, ct_server = ex_server\<rparr> = (Inr m, c') \<and>
     length (mi_leases m) = length (filter (\<lambda>s. \<not> blocked ''god-p'' (holder no_leases) (scope_key (sc_type s) (sc_value s))) (mi_scopes m))"
proof -
  have q: "quiet ex_leasing" "in_ids (w_input ex_leasing n) = ex_ids" for n
    using ex_facts(1) by (simp_all add: ex_leasing_def ex_planner_def quiet_def)
  show ?thesis
    using denied_scopes_are_planned [OF q(1), of "(''a'', [ex_symbol 1 ''a/x''])" "''m''" "\<lparr>ct_calls = 0, ct_server = ex_server\<rparr>" "''p''" "''t''"]
      no_leases_inv ex_ids_fresh q(2)
    by (auto simp: ex_server_def)
qed

end
