(* ===== verification/Solo.thy ===== *)
theory Solo
  imports Planner
begin

text \<open>
  The solo mode of \<open>god/solo.go\<close>: one mission for a whole task, its pack, the execution in one
  turn and the execution in four phases.

  Parameters: the JSON encoding of missions and packs, the sort of the prompt compiler, the provider
  (the answer to its n-th call), the decoding of a response, the usage a provider reports after a
  call, and the share of the budget that a phase gets, a floating point product. The cost in dollars
  is left out. The error of a result is the error value, not its text.
\<close>

section \<open>Phases\<close>

datatype solo_phase = Phase_Understand | Phase_Plan | Phase_Execute | Phase_Verify

fun phase_rank :: "solo_phase \<Rightarrow> nat" where
  "phase_rank Phase_Understand = 0"
| "phase_rank Phase_Plan = 1"
| "phase_rank Phase_Execute = 2"
| "phase_rank Phase_Verify = 3"

lemma phase_rank_inj: "phase_rank p = phase_rank q \<longleftrightarrow> p = q"
  by (cases p; cases q) simp_all

instantiation solo_phase :: linorder
begin

definition less_eq_solo_phase :: "solo_phase \<Rightarrow> solo_phase \<Rightarrow> bool" where
  "less_eq_solo_phase p q \<longleftrightarrow> phase_rank p \<le> phase_rank q"

definition less_solo_phase :: "solo_phase \<Rightarrow> solo_phase \<Rightarrow> bool" where
  "less_solo_phase p q \<longleftrightarrow> phase_rank p < phase_rank q"

instance
  by standard (auto simp: less_eq_solo_phase_def less_solo_phase_def phase_rank_inj)

end

definition solo_phase_order :: "solo_phase list" where
  "solo_phase_order = [Phase_Understand, Phase_Plan, Phase_Execute, Phase_Verify]"

fun phase_name :: "solo_phase \<Rightarrow> string" where
  "phase_name Phase_Understand = ''understand''"
| "phase_name Phase_Plan = ''plan''"
| "phase_name Phase_Execute = ''execute''"
| "phase_name Phase_Verify = ''verify''"

record phase_config =
  pc_pf_calls :: int
  pc_edits :: bool
  pc_verify :: bool

fun default_phase_config :: "solo_phase \<Rightarrow> phase_config" where
  "default_phase_config Phase_Understand = \<lparr>pc_pf_calls = 5, pc_edits = False, pc_verify = False\<rparr>"
| "default_phase_config Phase_Plan = \<lparr>pc_pf_calls = 2, pc_edits = False, pc_verify = False\<rparr>"
| "default_phase_config Phase_Execute = \<lparr>pc_pf_calls = 0, pc_edits = True, pc_verify = False\<rparr>"
| "default_phase_config Phase_Verify = \<lparr>pc_pf_calls = 1, pc_edits = False, pc_verify = True\<rparr>"

section \<open>Missions\<close>

record solo_config =
  so_budget :: int
  so_pf_calls :: int
  so_turns :: int
  so_strict :: bool

definition default_solo_config :: solo_config where
  "default_solo_config = \<lparr>so_budget = 8000, so_pf_calls = 10, so_turns = 3, so_strict = True\<rparr>"

record solo_mission =
  sm_mission :: mission
  sm_owner :: string
  sm_working :: "string list"
  sm_playbook :: string
  sm_tests :: "string list"
  sm_constraints :: "string list"
  sm_prompt :: "prompt_ref option"

definition gather_all_symbols :: "world \<Rightarrow> string list \<Rightarrow> client \<Rightarrow> symbol list \<times> client" where
  "gather_all_symbols w ks c = gather_loop w 20 ks [] c"

definition scan_probes :: "string list" where
  "scan_probes = [''main'', ''test'', ''init'', ''run'', ''handle'', ''parse'', ''match'', ''get'', ''set'', ''new'']"

fun scan_loop :: "world \<Rightarrow> string list \<Rightarrow> symbol list \<Rightarrow> client \<Rightarrow> symbol list \<times> client" where
  "scan_loop w [] all c = (all, c)"
| "scan_loop w (p # ps) all c =
     (case client_ir_search w p 10 c of
        (None, c') \<Rightarrow> scan_loop w ps all c'
      | (Some ss, c') \<Rightarrow>
          (let all' = add_unseen ss all in if 20 \<le> length all' then (all', c') else scan_loop w ps all' c'))"

definition broad_scan :: "world \<Rightarrow> client \<Rightarrow> symbol list \<times> client" where
  "broad_scan w c = scan_loop w scan_probes [] c"

fun build_scopes :: "string list \<Rightarrow> symbol list \<Rightarrow> scope list \<times> string list" where
  "build_scopes seen [] = ([], [])"
| "build_scopes seen (s # ss) =
     (let ty = scope_type_for (sym_kind s); key = ty @ '':'' @ sym_name s; new_sym = (\<not> List.member seen key);
          seen1 = (if new_sym then key # seen else seen);
          file_key = ''file:'' @ sym_path s; new_file = (sym_path s \<noteq> [] \<and> \<not> List.member seen1 file_key);
          seen2 = (if new_file then file_key # seen1 else seen1);
          (scopes, names) = build_scopes seen2 ss
      in ((if new_sym then [\<lparr>sc_type = ty, sc_value = sym_name s\<rparr>] else []) @
          (if new_file then [\<lparr>sc_type = ''file'', sc_value = sym_path s\<rparr>] else []) @ scopes,
          (if new_sym then [sym_name s] else []) @ names))"

fun test_targets :: "string list \<Rightarrow> symbol list \<Rightarrow> string list" where
  "test_targets seen [] = []"
| "test_targets seen (s # ss) =
     (let t = trim_suffix (sym_path s) ''.go'' @ ''_test.go''
      in if List.member seen t then test_targets seen ss else t # test_targets (t # seen) ss)"

definition pf_playbook :: "int \<Rightarrow> string" where
  "pf_playbook n =
     ''PF PLAYBOOK (Context Paging):'' @ [LF] @
     ''- You have '' @ itoa n @ '' PF calls available. Use them wisely.'' @ [LF] @
     ''- PF_SYMDEF <symbol>: get definition of a symbol'' @ [LF] @
     ''- PF_CALLERS <symbol>: get call sites referencing a symbol'' @ [LF] @
     ''- PF_SLICE <path> <start> <n>: get n lines of a file starting at line start'' @ [LF] @
     ''- PF_TESTS <symbol>: get tests covering a symbol'' @ [LF] @
     ''- PF_SEARCH <query>: search for symbols by name'' @ [LF] @
     ''- DO NOT guess file contents. Use PF_SLICE first, then edit.'' @ [LF] @
     ''- DO NOT request entire files. Request only the relevant span (30-50 lines).'' @ [LF] @
     ''- Prefer PF_SYMDEF + PF_CALLERS before editing a symbol.''"

definition solo_constraints :: "int \<Rightarrow> string list" where
  "solo_constraints budget =
     [''Output MUST be Edit IR JSON only (no full file dumps, no diffs)'',
      ''Each edit op MUST include anchor_hash for verification'',
      ''Token budget: '' @ itoa budget @ '' tokens '' @ em_dash @ '' request only needed context via PF'',
      ''Do not guess file contents '' @ em_dash @ '' use PF_SLICE to read before editing'']"

datatype solo_plan_error = SP_Build | SP_Lease

text \<open>\<open>Plan\<close>: the mission id is the first generated id, the plan id the second.\<close>

definition solo_plan ::
  "world \<Rightarrow> (string \<Rightarrow> string) \<Rightarrow> solo_config \<Rightarrow> string \<Rightarrow> path \<Rightarrow> client \<Rightarrow> (solo_plan_error + solo_mission) \<times> client" where
  "solo_plan w ul cf task repo c =
     (case client_ir_build w repo c of
        (None, c1) \<Rightarrow> (Inl SP_Build, c1)
      | (Some n, c1) \<Rightarrow>
          (let (found, c2) = gather_all_symbols w (extract_keywords ul task) c1;
               (ss, c3) = (if found = [] then broad_scan w c2 else (found, c2));
               (scopes, names) = build_scopes [] ss; mid = w_ids w 0; owner = ''god-'' @ w_ids w 1;
               (leases, c4) = (if scopes = [] then (Some [], c3)
                               else case client_lease_acquire w owner mid (map target_of scopes) c3 of
                                 (None, c') \<Rightarrow> (None, c')
                               | (Some a, c') \<Rightarrow> (Some (map lease_id (ar_acquired a)), c'))
           in case leases of
                None \<Rightarrow> (Inl SP_Lease, c4)
              | Some ids \<Rightarrow>
                  (Inr \<lparr>sm_mission = \<lparr>mi_id = mid, mi_goal = task, mi_base_rev = ''HEAD'', mi_scopes = scopes, mi_leases = ids,
                          mi_tasks = [task], mi_budget = so_budget cf, mi_created = w_now w\<rparr>,
                        sm_owner = owner, sm_working = names, sm_playbook = pf_playbook (so_pf_calls cf),
                        sm_tests = test_targets [] ss, sm_constraints = solo_constraints (so_budget cf), sm_prompt = None\<rparr>,
                   client_append_event w
                     (JObj [(''goal'', JStr task), (''mission_id'', JStr mid), (''mode'', JStr ''solo''), (''plan_id'', JStr (w_ids w 1)),
                            (''scopes'', jnat (length scopes)), (''type'', JStr ''solo_mission_created'')]) c4)))"

section \<open>Packs\<close>

definition bias_candidate :: "candidate \<Rightarrow> candidate" where
  "bias_candidate c =
     (let c1 = (if contains (cs_path c) ''_test'' \<or> contains (cs_path c) ''test_'' then c\<lparr>cs_test := True\<rparr> else c)
      in if cs_kind c1 = ''symdef'' then c1\<lparr>cs_hot := True\<rparr> else c1)"

definition section_line :: "prompt_ref \<Rightarrow> int \<Rightarrow> string" where
  "section_line pr i =
     (if List.member (pr_pinned pr) i then ''  ['' @ itoa i @ ''] (INLINED)'' @ [LF]
      else ''  ['' @ itoa i @ ''] '' @ em_dash @ '' use PF_PROMPT_SECTION('' @ pr_id pr @ '', '' @ itoa i @ '')'' @ [LF])"

definition constraint_lines :: "string list \<Rightarrow> string" where
  "constraint_lines cs =
     List.concat (map (\<lambda>(i, x). itoa (int i + 1) @ ''. '' @ x @ [LF]) (zip [0..<length cs] cs))"

text \<open>What \<open>Pack\<close> adds to the header.\<close>

definition header_addition :: "solo_mission \<Rightarrow> string" where
  "header_addition sm =
     [LF, LF] @ sm_playbook sm @
     (case sm_prompt sm of
        None \<Rightarrow> []
      | Some pr \<Rightarrow>
          [LF, LF] @ ''PROMPT SECTIONS AVAILABLE VIA PF:'' @ [LF] @
          List.concat (map (section_line pr) (map int [0..<nat (pr_sections pr)]))) @
     [LF, LF] @ ''CONSTRAINTS:'' @ [LF] @ constraint_lines (sm_constraints sm) @
     (if sm_tests sm = [] then [] else [LF] @ ''TEST TARGETS: '' @ join_with '', '' (sm_tests sm))"

definition solo_pack ::
  "(mission \<Rightarrow> string) \<Rightarrow> (scored list \<Rightarrow> scored list) \<Rightarrow> string \<Rightarrow> string \<Rightarrow> solo_mission \<Rightarrow> candidate list \<Rightarrow> mission_pack" where
  "solo_pack marshal srt now endpoint sm cs =
     (let pack = compile_with_ref marshal srt now endpoint (sm_mission sm) (map bias_candidate cs) (sm_prompt sm)
      in pack\<lparr>mp_header := mp_header pack @ header_addition sm\<rparr>)"

section \<open>The executor\<close>

record cli_usage =
  cu_in :: int
  cu_cache_read :: int
  cu_cache_new :: int
  cu_out :: int
  cu_turns :: int
  cu_ms :: int

datatype solo_error =
    SE_Provider provider_error
  | SE_Output string
  | SE_Integrate integrate_error
  | SE_Failed string
  | SE_Send solo_phase string
  | SE_Parse solo_phase string

record solo_result =
  sr_success :: bool
  sr_mission :: mission
  sr_in :: int
  sr_out :: int
  sr_cache_read :: int
  sr_cache_new :: int
  sr_calls :: int
  sr_turns :: int
  sr_ms :: int
  sr_modified :: "path list"
  sr_created :: "path list"
  sr_phases :: "(solo_phase \<times> int \<times> int) list"
  sr_error :: "solo_error option"

record solo_env =
  sx_world :: world
  sx_ul :: "string \<Rightarrow> string"
  sx_marshal :: "mission \<Rightarrow> string"
  sx_encode :: "mission_pack \<Rightarrow> string"
  sx_srt :: "scored list \<Rightarrow> scored list"
  sx_endpoint :: string
  sx_send :: "nat \<Rightarrow> mission_pack \<Rightarrow> string + string"
  sx_decode :: "string \<Rightarrow> string + angel_response"
  sx_usage :: "cli_usage option"
  sx_share :: "solo_phase \<Rightarrow> int \<Rightarrow> int"

definition new_solo_result :: "mission \<Rightarrow> solo_result" where
  "new_solo_result m =
     \<lparr>sr_success = False, sr_mission = m, sr_in = 0, sr_out = 0, sr_cache_read = 0, sr_cache_new = 0, sr_calls = 0, sr_turns = 0,
      sr_ms = 0, sr_modified = [], sr_created = [], sr_phases = [], sr_error = None\<rparr>"

definition with_usage :: "cli_usage option \<Rightarrow> solo_result \<Rightarrow> solo_result" where
  "with_usage u r =
     (case u of
        None \<Rightarrow> r
      | Some cu \<Rightarrow> r\<lparr>sr_in := wrap64 (cu_in cu + cu_cache_read cu + cu_cache_new cu), sr_out := cu_out cu,
          sr_cache_read := cu_cache_read cu, sr_cache_new := cu_cache_new cu, sr_turns := cu_turns cu, sr_ms := cu_ms cu\<rparr>)"

definition symdef_candidate :: "string \<Rightarrow> symbol list option \<Rightarrow> candidate" where
  "symdef_candidate v found =
     (case found of
        Some (s # ss) \<Rightarrow>
          \<lparr>cs_kind = ''symdef'', cs_blob = ''solo-symdef-'' @ v @ ''-'' @ itoa (int (sym_id s)),
           cs_content = json_text (JObj [(''kind'', JStr (sym_kind s)), (''lines'', JArr [jnat (sym_line s), jnat (sym_end_line s)]),
             (''path'', JStr (sym_path s)), (''symbol'', JStr (sym_name s))]),
           cs_symbol = v, cs_path = sym_path s, cs_test = False, cs_hot = False, cs_recent = False\<rparr>
      | _ \<Rightarrow>
          \<lparr>cs_kind = ''symdef'', cs_blob = ''blob-'' @ v, cs_content = ''{'' @ go_quote ''symbol'' @ '':'' @ go_quote v @ ''}'',
           cs_symbol = v, cs_path = [], cs_test = False, cs_hot = False, cs_recent = False\<rparr>)"

definition callers_candidate :: "string \<Rightarrow> reference list \<Rightarrow> candidate" where
  "callers_candidate v refs =
     \<lparr>cs_kind = ''callers'', cs_blob = ''solo-callers-'' @ v,
      cs_content = json_text (JObj [(''callers'', JArr (map ref_json refs)), (''symbol'', JStr v)]),
      cs_symbol = v, cs_path = [], cs_test = False, cs_hot = False, cs_recent = False\<rparr>"

fun build_candidates :: "world \<Rightarrow> string list \<Rightarrow> scope list \<Rightarrow> client \<Rightarrow> candidate list \<times> client" where
  "build_candidates w seen [] c = ([], c)"
| "build_candidates w seen (s # ss) c =
     (if sc_type s \<noteq> ''symbol'' \<or> List.member seen (sc_value s) then build_candidates w seen ss c
      else let v = sc_value s; (found, c1) = client_ir_symdef w v c
        in if found = None \<or> found = Some []
           then (let (cs, c') = build_candidates w (v # seen) ss c1 in (symdef_candidate v found # cs, c'))
           else (let (refs, c2) = client_ir_callers w v 5 c1;
                     callers = (case refs of None \<Rightarrow> [] | Some rs \<Rightarrow> if rs = [] then [] else [callers_candidate v rs]);
                     (cs, c') = build_candidates w (v # seen) ss c2
                 in (symdef_candidate v found # callers @ cs, c')))"

text \<open>The leases for what the response touches, whose answer is ignored, and the clocks.\<close>

definition extra_targets :: "angel_response \<Rightarrow> scope_target list" where
  "extra_targets r =
     map (\<lambda>f. \<lparr>st_type = ''file'', st_value = f\<rparr>) (nil_to_empty (ar_files r)) @
     map (\<lambda>s. \<lparr>st_type = ''symbol'', st_value = s\<rparr>) (nil_to_empty (ar_symbols r))"

definition supplement :: "world \<Rightarrow> solo_mission \<Rightarrow> angel_response \<Rightarrow> client \<Rightarrow> client" where
  "supplement w sm r c =
     (if extra_targets r = [] then c
      else snd (client_lease_acquire w (sm_owner sm) (mi_id (sm_mission sm)) (extra_targets r) c))"

definition solo_integrate ::
  "world \<Rightarrow> solo_mission \<Rightarrow> path \<Rightarrow> bool \<Rightarrow> angel_response \<Rightarrow> client \<Rightarrow> (integrate_error + integrate_result) \<times> client" where
  "solo_integrate w sm repo skip r c =
     (let (clocks, c1) = client_clock_get w (nil_to_empty (ar_files r)) (supplement w sm r c)
      in integrate w \<lparr>iq_owner = sm_owner sm, iq_root = repo, iq_resp = r, iq_mission = sm_mission sm, iq_clocks = clocks,
           iq_depth = 0, iq_skip = skip\<rparr> c1)"

definition integrated :: "(integrate_error + integrate_result) \<Rightarrow> solo_result \<Rightarrow> solo_result" where
  "integrated x r =
     (case x of
        Inl e \<Rightarrow> r\<lparr>sr_error := Some (SE_Integrate e)\<rparr>
      | Inr i \<Rightarrow> r\<lparr>sr_success := ig_success i, sr_modified := ig_modified i, sr_created := ig_created i,
                   sr_error := (if ig_success i then sr_error r else Some (SE_Failed (ig_error i)))\<rparr>)"

definition solo_execute ::
  "solo_env \<Rightarrow> solo_config \<Rightarrow> string \<Rightarrow> path \<Rightarrow> client \<Rightarrow> (solo_plan_error + solo_result) \<times> client" where
  "solo_execute sx cf task repo c =
     (let w = sx_world sx
      in case solo_plan w (sx_ul sx) cf task repo c of
           (Inl e, c1) \<Rightarrow> (Inl e, c1)
         | (Inr sm, c1) \<Rightarrow>
             (let (cands, c2) = build_candidates w [] (mi_scopes (sm_mission sm)) c1;
                  pack = solo_pack (sx_marshal sx) (sx_srt sx) (w_now w) (sx_endpoint sx) sm cands;
                  r0 = (new_solo_result (sm_mission sm))\<lparr>sr_in := int (bm_total (mp_budget pack)), sr_calls := 1, sr_turns := 1\<rparr>
              in case execute_pack (en_sha (w_env w)) (sx_send sx) (sx_decode sx) (sx_encode sx) pack of
                   (Inl e, u) \<Rightarrow> (Inr (with_usage (sx_usage sx) (r0\<lparr>sr_error := Some (SE_Provider e)\<rparr>)), c2)
                 | (Inr resp, u) \<Rightarrow>
                     (let r1 = with_usage (sx_usage sx)
                                 (r0\<lparr>sr_out := int (estimate_tokens (nat_str (us_response u)))\<rparr>)
                      in if so_strict cf \<and> ar_type resp \<noteq> ''edit_ir''
                         then (Inr (r1\<lparr>sr_error := Some (SE_Output (ar_type resp))\<rparr>), c2)
                         else (let (x, c3) = solo_integrate w sm repo True resp c2 in (Inr (integrated x r1), c3)))))"

section \<open>Four phases\<close>

definition phase_playbook :: "solo_phase \<Rightarrow> phase_config \<Rightarrow> string \<Rightarrow> string" where
  "phase_playbook ph pc prev =
     (case ph of
        Phase_Understand \<Rightarrow>
          ''PHASE: UNDERSTAND'' @ [LF] @ ''Analyze the codebase and understand the task requirements.'' @ [LF] @
          ''Output a JSON summary of relevant symbols, dependencies, and risks.'' @ [LF] @
          ''DO NOT produce Edit IR in this phase.'' @ [LF]
      | Phase_Plan \<Rightarrow>
          ''PHASE: PLAN'' @ [LF] @ ''Create a step-by-step edit plan based on your understanding.'' @ [LF] @
          ''Output a JSON edit plan listing files, symbols, and changes needed.'' @ [LF] @
          ''DO NOT produce Edit IR in this phase.'' @ [LF]
      | Phase_Execute \<Rightarrow>
          ''PHASE: EXECUTE'' @ [LF] @ ''Implement the edit plan using Edit IR operations.'' @ [LF] @
          ''Output Edit IR JSON with all necessary changes.'' @ [LF]
      | Phase_Verify \<Rightarrow>
          ''PHASE: VERIFY'' @ [LF] @ ''Verify the changes are correct and complete.'' @ [LF] @
          ''Output a JSON verification report.'' @ [LF] @ ''DO NOT produce Edit IR in this phase.'' @ [LF]) @
     (if 0 < pc_pf_calls pc then [LF] @ ''PF budget: '' @ itoa (pc_pf_calls pc) @ '' calls for this phase.'' @ [LF] else []) @
     (if prev = [] then []
      else [LF] @ ''PREVIOUS PHASE CONTEXT:'' @ [LF] @
        (if 2000 < length prev then take 2000 prev @ ''...(truncated)'' else prev))"

definition phase_constraints :: "solo_phase \<Rightarrow> string list \<Rightarrow> string list" where
  "phase_constraints ph base =
     base @ [if ph = Phase_Execute then ''Output MUST be Edit IR or Macro Ops'' else ''DO NOT output Edit IR in this phase'']"

definition phase_pack :: "solo_env \<Rightarrow> solo_mission \<Rightarrow> candidate list \<Rightarrow> string \<Rightarrow> solo_phase \<Rightarrow> mission_pack" where
  "phase_pack sx sm cands prev ph =
     (let pc = default_phase_config ph;
          psm = \<lparr>sm_mission = (sm_mission sm)\<lparr>mi_budget := sx_share sx ph (mi_budget (sm_mission sm))\<rparr>, sm_owner = [],
                 sm_working = sm_working sm, sm_playbook = phase_playbook ph pc prev, sm_tests = sm_tests sm,
                 sm_constraints = phase_constraints ph (sm_constraints sm), sm_prompt = sm_prompt sm\<rparr>
      in (solo_pack (sx_marshal sx) (sx_srt sx) (w_now (sx_world sx)) (sx_endpoint sx) psm cands)\<lparr>mp_phase := phase_name ph\<rparr>)"

text \<open>One phase: the result, and the answer to go on with unless the run ends here.\<close>

definition run_phase ::
  "solo_env \<Rightarrow> solo_mission \<Rightarrow> path \<Rightarrow> candidate list \<Rightarrow> nat \<Rightarrow> solo_phase \<Rightarrow> string \<Rightarrow> solo_result \<times> client \<Rightarrow>
   string option \<times> solo_result \<times> client" where
  "run_phase sx sm repo cands k ph prev rc =
     (let (r, c) = rc; pack = phase_pack sx sm cands prev ph; tin = int (bm_total (mp_budget pack));
          r1 = r\<lparr>sr_in := sr_in r + tin, sr_calls := sr_calls r + 1, sr_turns := sr_turns r + 1\<rparr>
      in case sx_send sx k pack of
           Inl e \<Rightarrow> (None, r1\<lparr>sr_error := Some (SE_Send ph e)\<rparr>, c)
         | Inr resp \<Rightarrow>
             (let tout = int (estimate_tokens resp);
                  r2 = r1\<lparr>sr_out := sr_out r1 + tout, sr_phases := sr_phases r1 @ [(ph, tin, tout)]\<rparr>
              in if \<not> pc_edits (default_phase_config ph) then (Some resp, r2, c)
                 else case sx_decode sx resp of
                        Inl e \<Rightarrow> (None, r2\<lparr>sr_error := Some (SE_Parse ph e)\<rparr>, c)
                      | Inr ar \<Rightarrow>
                          (if ar_type ar = ''edit_ir'' \<or> ar_type ar = ''macro_ops''
                           then (let (x, c') = solo_integrate (sx_world sx) sm repo False ar c; r3 = integrated x r2
                                 in (case x of Inr i \<Rightarrow> if ig_success i then Some resp else None | Inl e \<Rightarrow> None, r3, c'))
                           else (Some resp, r2, c))))"

fun phase_loop ::
  "solo_env \<Rightarrow> solo_mission \<Rightarrow> path \<Rightarrow> candidate list \<Rightarrow> nat \<Rightarrow> solo_phase list \<Rightarrow> string \<Rightarrow> solo_result \<times> client \<Rightarrow>
   bool \<times> solo_result \<times> client" where
  "phase_loop sx sm repo cands k [] prev rc = (True, rc)"
| "phase_loop sx sm repo cands k (ph # phs) prev rc =
     (case run_phase sx sm repo cands k ph prev rc of
        (None, rc') \<Rightarrow> (False, rc')
      | (Some resp, rc') \<Rightarrow> phase_loop sx sm repo cands (Suc k) phs resp rc')"

definition solo_execute_phased ::
  "solo_env \<Rightarrow> solo_config \<Rightarrow> string \<Rightarrow> path \<Rightarrow> client \<Rightarrow> (solo_plan_error + solo_result) \<times> client" where
  "solo_execute_phased sx cf task repo c =
     (case solo_plan (sx_world sx) (sx_ul sx) cf task repo c of
        (Inl e, c1) \<Rightarrow> (Inl e, c1)
      | (Inr sm, c1) \<Rightarrow>
          (let (cands, c2) = build_candidates (sx_world sx) [] (mi_scopes (sm_mission sm)) c1;
               (finished, r, c3) = phase_loop sx sm repo cands 0 solo_phase_order [] (new_solo_result (sm_mission sm), c2)
           in (Inr (if finished \<and> sr_error r = None \<and> \<not> sr_success r then r\<lparr>sr_success := True\<rparr> else r), c3)))"

section \<open>The order of the phases\<close>

lemma integrated_phases [simp]: "sr_phases (integrated x r) = sr_phases r" "sr_calls (integrated x r) = sr_calls r"
  by (simp_all add: integrated_def split: sum.split)

lemma run_phase_done:
  assumes "run_phase sx sm repo cands k ph prev (r, c) = (Some resp, r', c')" "sr_error r = None"
  shows "map fst (sr_phases r') = map fst (sr_phases r) @ [ph]" "sr_error r' = None" "sr_calls r' = sr_calls r + 1"
  using assms by (auto simp: run_phase_def integrated_def Let_def split: sum.splits prod.splits if_splits)

lemma run_phase_stuck:
  assumes "run_phase sx sm repo cands k ph prev (r, c) = (None, r', c')"
  shows "map fst (sr_phases r') = map fst (sr_phases r) \<or> map fst (sr_phases r') = map fst (sr_phases r) @ [ph]"
    "sr_error r' \<noteq> None" "sr_calls r' = sr_calls r + 1"
  using assms by (auto simp: run_phase_def integrated_def Let_def split: sum.splits prod.splits if_splits)

lemma phase_loop_order:
  "phase_loop sx sm repo cands k phs prev (r, c) = (fin, r', c') \<Longrightarrow> sr_error r = None \<Longrightarrow>
   \<exists>n \<le> length phs. map fst (sr_phases r') = map fst (sr_phases r) @ take n phs \<and> fin = (sr_error r' = None) \<and>
     (fin \<longrightarrow> n = length phs) \<and> sr_calls r' \<le> sr_calls r + int (length phs)"
proof (induction phs arbitrary: k prev r c)
  case (Cons ph phs)
  obtain x r1 c1 where step: "run_phase sx sm repo cands k ph prev (r, c) = (x, r1, c1)" by (metis prod.collapse)
  show ?case
  proof (cases x)
    case None
    note stuck = run_phase_stuck [OF step [unfolded None]]
    from Cons.prems step None have r': "r' = r1" "fin = False" by auto
    from stuck(1) show ?thesis
    proof
      assume "map fst (sr_phases r1) = map fst (sr_phases r)"
      then show ?thesis using stuck(2,3) r' by (intro exI [of _ 0]) simp
    next
      assume "map fst (sr_phases r1) = map fst (sr_phases r) @ [ph]"
      then show ?thesis using stuck(2,3) r' by (intro exI [of _ 1]) simp
    qed
  next
    case (Some resp)
    note fine = run_phase_done [OF step [unfolded Some] Cons.prems(2)]
    from Cons.prems step Some have "phase_loop sx sm repo cands (Suc k) phs resp (r1, c1) = (fin, r', c')" by simp
    from Cons.IH [OF this fine(2)] obtain n where "n \<le> length phs"
      "map fst (sr_phases r') = map fst (sr_phases r1) @ take n phs" "fin = (sr_error r' = None)" "fin \<longrightarrow> n = length phs"
      "sr_calls r' \<le> sr_calls r1 + int (length phs)" by (elim exE conjE) (rule that)
    then show ?thesis using fine by (intro exI [of _ "Suc n"]) (simp add: add.assoc)
  qed
qed auto

lemma phase_order_sorted: "sorted_wrt (<) (take n solo_phase_order)"
  by (rule sorted_wrt_take) (simp add: solo_phase_order_def less_solo_phase_def)

section \<open>Scopes\<close>

lemma scope_type [simp]: "scope_type_for k = ''symbol''"
  by (simp add: scope_type_for_def)

text \<open>The scopes are the wanted ones without repetitions, by their keys.\<close>

definition key_of :: "scope \<Rightarrow> string" where
  "key_of s = sc_type s @ '':'' @ sc_value s"

definition wanted_scopes :: "symbol list \<Rightarrow> scope list" where
  "wanted_scopes ss = List.concat (map (\<lambda>s. \<lparr>sc_type = ''symbol'', sc_value = sym_name s\<rparr> #
     (if sym_path s = [] then [] else [\<lparr>sc_type = ''file'', sc_value = sym_path s\<rparr>])) ss)"

fun first_of_key :: "string list \<Rightarrow> scope list \<Rightarrow> scope list" where
  "first_of_key seen [] = []"
| "first_of_key seen (s # ss) =
     (if List.member seen (key_of s) then first_of_key seen ss else s # first_of_key (key_of s # seen) ss)"

lemma build_scopes_wanted: "fst (build_scopes seen ss) = first_of_key seen (wanted_scopes ss)"
  by (induction seen ss rule: build_scopes.induct)
    (auto simp: wanted_scopes_def key_of_def Let_def case_prod_unfold)

lemma first_of_key_facts:
  "distinct (map key_of (first_of_key seen ss)) \<and> key_of ` set (first_of_key seen ss) = key_of ` set ss - set seen \<and>
   set (first_of_key seen ss) \<subseteq> set ss"
proof (induction seen ss rule: first_of_key.induct)
  case (2 seen s ss)
  then show ?case by (cases "List.member seen (key_of s)") (auto simp: image_iff)
qed simp

lemma wanted_key_inj: "inj_on key_of (set (wanted_scopes ss))"
proof (rule inj_onI)
  fix a b
  assume "a \<in> set (wanted_scopes ss)" "b \<in> set (wanted_scopes ss)"
  then have "sc_type a = ''symbol'' \<or> sc_type a = ''file''" "sc_type b = ''symbol'' \<or> sc_type b = ''file''"
    by (auto simp: wanted_scopes_def split: if_splits)
  moreover assume "key_of a = key_of b"
  ultimately show "a = b" by (auto simp: key_of_def intro!: scope.equality)
qed

lemma build_scopes_set: "set (fst (build_scopes [] ss)) = set (wanted_scopes ss)"
proof -
  note f = first_of_key_facts [of "[]" "wanted_scopes ss"]
  have "set (wanted_scopes ss) \<subseteq> set (first_of_key [] (wanted_scopes ss))"
  proof
    fix x assume x: "x \<in> set (wanted_scopes ss)"
    then obtain y where "y \<in> set (first_of_key [] (wanted_scopes ss))" "key_of y = key_of x"
      using f by (auto simp: image_iff) (metis imageE imageI)
    with x f wanted_key_inj show "x \<in> set (first_of_key [] (wanted_scopes ss))" by (metis inj_onD subsetD)
  qed
  with f show ?thesis by (simp add: build_scopes_wanted subset_antisym)
qed

section \<open>One phase at a time\<close>

definition same_outcome :: "solo_result \<Rightarrow> solo_result \<Rightarrow> bool" where
  "same_outcome r r' \<longleftrightarrow> sr_success r' = sr_success r \<and> sr_modified r' = sr_modified r \<and> sr_created r' = sr_created r"

lemma same_outcome_trans: "same_outcome r s \<Longrightarrow> same_outcome s t \<Longrightarrow> same_outcome r t"
  by (simp add: same_outcome_def)

lemma edits_only_in_execute: "pc_edits (default_phase_config ph) \<longleftrightarrow> ph = Phase_Execute"
  by (cases ph) simp_all

lemma run_phase_talk:
  assumes "ph \<noteq> Phase_Execute"
  obtains (lost) e r' where "run_phase sx sm repo cands k ph prev (r, c) = (None, r', c)" "sr_error r' = Some (SE_Send ph e)"
      "same_outcome r r'" "\<exists>p. sx_send sx k p = Inl e"
  | (answered) x r' where "run_phase sx sm repo cands k ph prev (r, c) = (Some x, r', c)" "sr_error r' = sr_error r" "same_outcome r r'"
proof (cases "sx_send sx k (phase_pack sx sm cands prev ph)")
  case (Inl e)
  have "\<exists>r'. run_phase sx sm repo cands k ph prev (r, c) = (None, r', c) \<and> sr_error r' = Some (SE_Send ph e) \<and> same_outcome r r'"
    by (simp add: run_phase_def Inl same_outcome_def Let_def)
  with Inl lost show thesis by blast
next
  case (Inr x)
  have "\<exists>r'. run_phase sx sm repo cands k ph prev (r, c) = (Some x, r', c) \<and> sr_error r' = sr_error r \<and> same_outcome r r'"
    using assms by (simp add: run_phase_def Inr same_outcome_def edits_only_in_execute Let_def)
  with answered show thesis by blast
qed

lemma run_phase_execute:
  assumes "sx_send sx k (phase_pack sx sm cands prev Phase_Execute) = Inr x" "sx_decode sx x = Inr ar"
  shows "ar_type ar \<notin> {''edit_ir'', ''macro_ops''} \<Longrightarrow>
      \<exists>r'. run_phase sx sm repo cands k Phase_Execute prev (r, c) = (Some x, r', c) \<and> sr_error r' = sr_error r \<and> same_outcome r r'"
    and "ar_type ar = ''macro_ops'' \<Longrightarrow>
      \<exists>r' c'. run_phase sx sm repo cands k Phase_Execute prev (r, c) = (None, r', c') \<and>
        sr_error r' = Some (SE_Integrate (IE_Output_Type ''macro_ops'')) \<and> same_outcome r r'"
    and "ar_type ar = ''edit_ir'' \<Longrightarrow>
      \<exists>y r' c'. run_phase sx sm repo cands k Phase_Execute prev (r, c) = (y, r', c') \<and>
        (case y of None \<Rightarrow> (\<exists>e. sr_error r' = Some (SE_Integrate e) \<or> (\<exists>t. sr_error r' = Some (SE_Failed t))) \<and> (sr_success r' \<longrightarrow> sr_success r)
         | Some z \<Rightarrow> sr_success r' \<and> sr_error r' = sr_error r)"
proof -
  show "ar_type ar \<notin> {''edit_ir'', ''macro_ops''} \<Longrightarrow>
      \<exists>r'. run_phase sx sm repo cands k Phase_Execute prev (r, c) = (Some x, r', c) \<and> sr_error r' = sr_error r \<and> same_outcome r r'"
    by (simp add: run_phase_def assms same_outcome_def Let_def)
  show "ar_type ar = ''macro_ops'' \<Longrightarrow>
      \<exists>r' c'. run_phase sx sm repo cands k Phase_Execute prev (r, c) = (None, r', c') \<and>
        sr_error r' = Some (SE_Integrate (IE_Output_Type ''macro_ops'')) \<and> same_outcome r r'"
    by (simp add: run_phase_def assms same_outcome_def solo_integrate_def integrate_def integrated_def Let_def split: prod.split)
  show "\<exists>y r' c'. run_phase sx sm repo cands k Phase_Execute prev (r, c) = (y, r', c') \<and>
        (case y of None \<Rightarrow> (\<exists>e. sr_error r' = Some (SE_Integrate e) \<or> (\<exists>t. sr_error r' = Some (SE_Failed t))) \<and> (sr_success r' \<longrightarrow> sr_success r)
         | Some z \<Rightarrow> sr_success r' \<and> sr_error r' = sr_error r)" if "ar_type ar = ''edit_ir''"
    using that by (simp add: run_phase_def assms integrated_def Let_def split: prod.split sum.split)
qed

text \<open>The two phases before the execution, when both are answered.\<close>

lemma phases_before_execute:
  assumes "\<And>k p. k < 2 \<Longrightarrow> sx_send sx k p = Inr (resp k)"
  obtains r2 where "phase_loop sx sm repo cands 0 solo_phase_order [] (r, c) =
      phase_loop sx sm repo cands 2 [Phase_Execute, Phase_Verify] (resp 1) (r2, c)" "sr_error r2 = sr_error r" "same_outcome r r2"
proof -
  have "\<exists>r1. run_phase sx sm repo cands 0 Phase_Understand [] (r, c) = (Some (resp 0), r1, c) \<and>
      sr_error r1 = sr_error r \<and> same_outcome r r1"
    by (simp add: run_phase_def assms same_outcome_def Let_def)
  then obtain r1 where a: "run_phase sx sm repo cands 0 Phase_Understand [] (r, c) = (Some (resp 0), r1, c)"
    "sr_error r1 = sr_error r" "same_outcome r r1" by blast
  have "\<exists>r2. run_phase sx sm repo cands 1 Phase_Plan (resp 0) (r1, c) = (Some (resp 1), r2, c) \<and>
      sr_error r2 = sr_error r1 \<and> same_outcome r1 r2"
    by (simp add: run_phase_def assms same_outcome_def Let_def)
  then obtain r2 where b: "run_phase sx sm repo cands 1 Phase_Plan (resp 0) (r1, c) = (Some (resp 1), r2, c)"
    "sr_error r2 = sr_error r1" "same_outcome r1 r2" by blast
  show thesis
    by (rule that [of r2]) (use a b in \<open>simp_all add: solo_phase_order_def same_outcome_def numeral_2_eq_2\<close>)
qed

lemma phased_run:
  assumes "solo_execute_phased sx cf task repo c = (Inr r, c')"
  obtains sm cands c2 fin r1 where
    "phase_loop sx sm repo cands 0 solo_phase_order [] (new_solo_result (sm_mission sm), c2) = (fin, r1, c')"
    "r = (if fin \<and> sr_error r1 = None \<and> \<not> sr_success r1 then r1\<lparr>sr_success := True\<rparr> else r1)" "sm_owner sm \<noteq> []"
proof -
  obtain sm c1 where plan: "solo_plan (sx_world sx) (sx_ul sx) cf task repo c = (Inr sm, c1)"
    using assms by (auto simp: solo_execute_phased_def split: prod.splits sum.splits)
  then have "sm_owner sm \<noteq> []"
    by (auto simp: solo_plan_def Let_def split: prod.splits option.splits if_splits)
  with assms plan that show thesis by (auto simp: solo_execute_phased_def Let_def split: prod.splits)
qed

section \<open>Examples\<close>

definition ex_answer :: "string \<Rightarrow> angel_response" where
  "ex_answer t = \<lparr>ar_mission = [], ar_type = t, ar_edit = (if t = ''edit_ir'' then Some None else None), ar_macro = None, ar_diff = [],
     ar_symbols = None, ar_files = None\<rparr>"

text \<open>A provider that answers every call with a word that is its own output type, all but the last call
  when it is not patient.\<close>

definition ex_solo :: "string \<Rightarrow> bool \<Rightarrow> solo_env" where
  "ex_solo t patient =
     \<lparr>sx_world = ex_planner, sx_ul = id, sx_marshal = (\<lambda>_. []), sx_encode = (\<lambda>_. []), sx_srt = id, sx_endpoint = [],
      sx_send = (\<lambda>k _. if k = 3 \<and> \<not> patient then Inl ''late'' else Inr t), sx_decode = (\<lambda>x. Inr (ex_answer x)),
      sx_usage = None, sx_share = (\<lambda>_ n. n)\<rparr>"

lemma ex_solo_runs: "\<exists>r c'. solo_execute_phased (ex_solo t b) cf [] ''r'' ex_client = (Inr r, c')"
proof -
  have "fst (client_ir_build ex_planner ''r'' ex_client) = Some 0" by code_simp
  then obtain c1 where build: "client_ir_build ex_planner ''r'' ex_client = (Some 0, c1)" by (metis prod.collapse)
  have "fst (broad_scan ex_planner (snd (client_ir_build ex_planner ''r'' ex_client))) = []" by code_simp
  then obtain c2 where scan: "broad_scan ex_planner c1 = ([], c2)" using build by (metis prod.collapse snd_conv)
  have "extract_keywords id [] = []" by code_simp
  then have "\<exists>sm c3. solo_plan ex_planner id cf [] ''r'' ex_client = (Inr sm, c3)"
    by (simp add: solo_plan_def build scan gather_all_symbols_def Let_def)
  then show ?thesis
    by (elim exE) (simp add: solo_execute_phased_def ex_solo_def Let_def split: prod.split)
qed

text \<open>An Edit IR that does nothing succeeds in a quiet world, and the run goes on to a last call that is lost.\<close>

lemma empty_edit_succeeds:
  assumes "quiet w" "sm_owner sm \<noteq> []"
  shows "\<exists>i c'. solo_integrate w sm repo False (ex_answer ''edit_ir'') c = (Inr i, c') \<and> ig_success i"
proof -
  have get: "\<exists>c1. client_clock_get w [] c = (Some [], c1)"
    using quiet_exchange(2) [OF assms(1), of "Clock_Get (Some [])" c]
    by (cases "exchange w (Clock_Get (Some [])) c") (simp add: client_clock_get_def handle_clock_get_def clock_get_def failure_def Let_def)
  then obtain c1 where c1: "client_clock_get w [] c = (Some [], c1)" by blast
  let ?q = "\<lparr>iq_owner = sm_owner sm, iq_root = repo, iq_resp = ex_answer ''edit_ir'', iq_mission = sm_mission sm,
    iq_clocks = Some [], iq_depth = 0, iq_skip = False\<rparr>"
  have q: "req_ops ?q = []" "req_files ?q = []" "req_symbols ?q = []"
    by (simp_all add: req_ops_def req_files_def req_symbols_def ex_answer_def nil_to_empty_def)
  have "mr_owner (manifest_of ?q [] []) \<noteq> []" using assms(2) by (simp add: manifest_of_def)
  then obtain m c2 where "client_validate w (manifest_of ?q [] []) c1 = (Some m, c2)" "mv_allowed m"
  proof (rule quiet_validate [OF assms(1), of _ c1])
    fix m c2
    assume "client_validate w (manifest_of ?q [] []) c1 = (Some m, c2)"
      "mv_missing m = missing_leases (manifest_of ?q [] []) (sv_leases (ct_server c1))"
      "mv_drift m = clock_drift (manifest_of ?q [] []) (sv_clocks (ct_server c1))"
      "mv_allowed m \<longleftrightarrow> mv_missing m = [] \<and> mv_drift m = []"
    then show thesis using that by (simp add: missing_leases_def clock_drift_def manifest_of_def Let_def)
  qed
  then show ?thesis
    using c1 q by (simp add: solo_integrate_def supplement_def extra_targets_def integrate_def apply_and_log_def finish_integration_def
        apply_edit_ir_def ex_answer_def nil_to_empty_def Let_def)
qed

lemma ex_solo_late:
  assumes "solo_execute_phased (ex_solo ''edit_ir'' False) cf task repo c = (Inr r, c')"
  shows "sr_error r = Some (SE_Send Phase_Verify ''late'')"
proof -
  let ?sx = "ex_solo ''edit_ir'' False"
  obtain sm cands c2 fin r1 where loop:
    "phase_loop ?sx sm repo cands 0 solo_phase_order [] (new_solo_result (sm_mission sm), c2) = (fin, r1, c')"
    and r: "r = (if fin \<and> sr_error r1 = None \<and> \<not> sr_success r1 then r1\<lparr>sr_success := True\<rparr> else r1)"
    and sm: "sm_owner sm \<noteq> []"
    using assms by (rule phased_run)
  have sends: "sx_send ?sx k p = (if k = 3 then Inl ''late'' else Inr ''edit_ir'')" "sx_world ?sx = ex_planner"
    "sx_decode ?sx x = Inr (ex_answer x)" for k p x by (simp_all add: ex_solo_def)
  obtain r2 where r2: "phase_loop ?sx sm repo cands 2 [Phase_Execute, Phase_Verify] ''edit_ir'' (r2, c2) = (fin, r1, c')"
    by (rule phases_before_execute [of ?sx "\<lambda>_. ''edit_ir''" sm repo cands "new_solo_result (sm_mission sm)" c2])
      (use loop in \<open>simp_all add: sends\<close>)
  have "quiet ex_planner" using ex_facts(1) by (simp add: ex_planner_def quiet_def)
  from empty_edit_succeeds [OF this sm, of repo c2] obtain i d where
    "solo_integrate ex_planner sm repo False (ex_answer ''edit_ir'') c2 = (Inr i, d)" "ig_success i" by blast
  then have "\<exists>r3. run_phase ?sx sm repo cands 2 Phase_Execute ''edit_ir'' (r2, c2) = (Some ''edit_ir'', r3, d)"
    by (simp add: run_phase_def sends ex_answer_def integrated_def Let_def)
  then obtain r3 where "run_phase ?sx sm repo cands 2 Phase_Execute ''edit_ir'' (r2, c2) = (Some ''edit_ir'', r3, d)" by blast
  moreover have "\<exists>r4. run_phase ?sx sm repo cands 3 Phase_Verify ''edit_ir'' (r3, d) = (None, r4, d) \<and>
      sr_error r4 = Some (SE_Send Phase_Verify ''late'')"
    by (simp add: run_phase_def sends Let_def)
  ultimately show ?thesis using r2 r by auto
qed

section \<open>Properties\<close>

text \<open> C22: a phased execution goes through its phases in order: the phases that answered are a prefix of
  understand, plan, execute, verify, in increasing order, and at most four calls were made; without
  an error it is all four and the result is a success. \<close>

theorem phases_run_in_order:
  assumes "solo_execute_phased sx cf task repo c = (Inr r, c')"
  shows "sorted_wrt (<) (map fst (sr_phases r)) \<and>
    map fst (sr_phases r) = take (length (sr_phases r)) solo_phase_order \<and> sr_calls r \<le> 4 \<and>
    (sr_error r \<noteq> None \<or> sr_success r \<and> map fst (sr_phases r) = solo_phase_order)"
proof -
  obtain sm cands c2 fin r1 where loop:
    "phase_loop sx sm repo cands 0 solo_phase_order [] (new_solo_result (sm_mission sm), c2) = (fin, r1, c')"
    and r: "r = (if fin \<and> sr_error r1 = None \<and> \<not> sr_success r1 then r1\<lparr>sr_success := True\<rparr> else r1)"
    using assms by (rule phased_run)
  have start: "length solo_phase_order = 4" "sr_error (new_solo_result m) = None" "sr_phases (new_solo_result m) = []"
    "sr_calls (new_solo_result m) = 0" for m
    by (simp_all add: solo_phase_order_def new_solo_result_def)
  define n where "n = length (sr_phases r1)"
  obtain k where k: "k \<le> 4" "map fst (sr_phases r1) = take k solo_phase_order" "fin = (sr_error r1 = None)" "fin \<longrightarrow> k = 4"
    and calls: "sr_calls r1 \<le> 4"
    using phase_loop_order [OF loop start(2)] unfolding start by auto
  have "n = k" using k(1) arg_cong [OF k(2), of length] by (simp add: n_def start)
  with k have n: "n \<le> 4" "map fst (sr_phases r1) = take n solo_phase_order" "fin = (sr_error r1 = None)" "fin \<longrightarrow> n = 4" by simp_all
  have same: "sr_phases r = sr_phases r1" "sr_calls r = sr_calls r1" "sr_error r = sr_error r1" by (simp_all add: r)
  have "map fst (sr_phases r) = take (length (sr_phases r)) solo_phase_order" using n(2) by (simp add: same n_def)
  moreover have "sorted_wrt (<) (map fst (sr_phases r))" unfolding same n(2) by (rule phase_order_sorted)
  moreover have "sr_error r \<noteq> None \<or> sr_success r \<and> map fst (sr_phases r) = solo_phase_order"
  proof (cases "sr_error r1")
    case None
    then have "n = 4" using n(3,4) by simp
    then have "map fst (sr_phases r) = solo_phase_order" using n(2) by (simp add: same solo_phase_order_def)
    with None n(3) show ?thesis by (auto simp: r)
  qed (simp add: same)
  ultimately show ?thesis using calls by (simp add: same)
qed


lemma phases_run_in_order_witness:
  "\<exists>r c'. solo_execute_phased (ex_solo ''ok'' True) default_solo_config [] ''r'' ex_client = (Inr r, c') \<and> sr_calls r \<le> 4"
  using ex_solo_runs [of "''ok''" True default_solo_config] phases_run_in_order by blast

text \<open> The outcome of a phased execution whose four calls are answered is decided by the type of the
  third answer: Edit IR is a success exactly if there is no error; macro operations, which the constraints
  of the phase allow, always fail; any other type is a success that changed nothing. \<close>

theorem phased_outcome:
  assumes "solo_execute_phased sx cf task repo c = (Inr r, c')"
    and "\<And>k p. sx_send sx k p = Inr (resp k)" "sx_decode sx (resp 2) = Inr ar"
  shows "(ar_type ar = ''edit_ir'' \<longrightarrow> (sr_success r \<longleftrightarrow> sr_error r = None)) \<and>
    (ar_type ar = ''macro_ops'' \<longrightarrow>
       \<not> sr_success r \<and> sr_error r = Some (SE_Integrate (IE_Output_Type ''macro_ops'')) \<and> sr_modified r = [] \<and> sr_created r = []) \<and>
    (ar_type ar \<notin> {''edit_ir'', ''macro_ops''} \<longrightarrow>
       sr_success r \<and> sr_error r = None \<and> sr_modified r = [] \<and> sr_created r = [])"
proof -
  obtain sm cands c2 fin r1 where loop:
    "phase_loop sx sm repo cands 0 solo_phase_order [] (new_solo_result (sm_mission sm), c2) = (fin, r1, c')"
    and r: "r = (if fin \<and> sr_error r1 = None \<and> \<not> sr_success r1 then r1\<lparr>sr_success := True\<rparr> else r1)"
    using assms(1) by (rule phased_run)
  let ?r0 = "new_solo_result (sm_mission sm)"
  obtain r2 where r2: "phase_loop sx sm repo cands 2 [Phase_Execute, Phase_Verify] (resp 1) (r2, c2) = (fin, r1, c')"
    "sr_error r2 = None" "same_outcome ?r0 r2"
    by (rule phases_before_execute [of sx resp sm repo cands ?r0 c2]) (use assms(2) loop in \<open>simp_all add: new_solo_result_def\<close>)
  have fresh: "\<not> sr_success r2" "sr_modified r2 = []" "sr_created r2 = []"
    using r2(3) by (simp_all add: same_outcome_def new_solo_result_def)
  note exec = run_phase_execute [of sx 2 sm cands "resp 1" "resp 2" ar repo r2 c2, OF assms(2,3)]
  have verify: "\<exists>r4. run_phase sx sm repo cands 3 Phase_Verify z (r3, d) = (Some (resp 3), r4, d) \<and>
      sr_error r4 = sr_error r3 \<and> same_outcome r3 r4" for z r3 d
    by (simp add: run_phase_def assms(2) same_outcome_def Let_def)
  consider (edit) "ar_type ar = ''edit_ir''" | (macro) "ar_type ar = ''macro_ops''" | (other) "ar_type ar \<notin> {''edit_ir'', ''macro_ops''}"
    by auto
  then show ?thesis
  proof cases
    case edit
    obtain y r3 d where e: "run_phase sx sm repo cands 2 Phase_Execute (resp 1) (r2, c2) = (y, r3, d)"
      "case y of None \<Rightarrow> (\<exists>e. sr_error r3 = Some (SE_Integrate e) \<or> (\<exists>t. sr_error r3 = Some (SE_Failed t))) \<and> (sr_success r3 \<longrightarrow> sr_success r2)
         | Some z \<Rightarrow> sr_success r3 \<and> sr_error r3 = sr_error r2"
      using exec(3) [OF edit] by (elim exE conjE) (rule that)
    have "sr_success r \<longleftrightarrow> sr_error r = None"
    proof (cases y)
      case None
      then show ?thesis using e r2 r fresh(1) by auto
    next
      case (Some z)
      obtain r4 where "run_phase sx sm repo cands 3 Phase_Verify z (r3, d) = (Some (resp 3), r4, d)"
        "sr_error r4 = sr_error r3" "same_outcome r3 r4" using verify by blast
      then show ?thesis using e r2 r Some by (simp add: same_outcome_def)
    qed
    with edit show ?thesis by simp
  next
    case macro
    obtain r3 d where "run_phase sx sm repo cands 2 Phase_Execute (resp 1) (r2, c2) = (None, r3, d)"
      "sr_error r3 = Some (SE_Integrate (IE_Output_Type ''macro_ops''))" "same_outcome r2 r3"
      using exec(2) [OF macro] by (elim exE conjE) (rule that)
    then show ?thesis using r2 r fresh macro by (simp add: same_outcome_def)
  next
    case other
    obtain r3 where e: "run_phase sx sm repo cands 2 Phase_Execute (resp 1) (r2, c2) = (Some (resp 2), r3, c2)"
      "sr_error r3 = sr_error r2" "same_outcome r2 r3"
      using exec(1) [OF other] by (elim exE conjE) (rule that)
    obtain r4 where "run_phase sx sm repo cands 3 Phase_Verify (resp 2) (r3, c2) = (Some (resp 3), r4, c2)"
      "sr_error r4 = sr_error r3" "same_outcome r3 r4" using verify by blast
    then show ?thesis using e r2 r fresh other by (simp add: same_outcome_def)
  qed
qed

lemma phased_outcome_witness:
  "\<exists>r c'. solo_execute_phased (ex_solo ''macro_ops'' True) default_solo_config [] ''r'' ex_client = (Inr r, c') \<and>
     sr_error r = Some (SE_Integrate (IE_Output_Type ''macro_ops''))"
proof -
  obtain r c' where run: "solo_execute_phased (ex_solo ''macro_ops'' True) default_solo_config [] ''r'' ex_client = (Inr r, c')"
    using ex_solo_runs by blast
  have "sx_send (ex_solo ''macro_ops'' True) k p = Inr ''macro_ops''" for k p by (simp add: ex_solo_def)
  moreover have "sx_decode (ex_solo ''macro_ops'' True) ''macro_ops'' = Inr (ex_answer ''macro_ops'')" by (simp add: ex_solo_def)
  ultimately show ?thesis
    using phased_outcome [OF run, of "\<lambda>_. ''macro_ops''" "ex_answer ''macro_ops''"] run by (simp add: ex_answer_def)
qed

text \<open> A phased execution whose last call fails keeps the outcome of its Edit IR: the result is a success
  and has an error. \<close>

theorem verify_failure_keeps_success:
  assumes "solo_execute_phased sx cf task repo c = (Inr r, c')"
    and "\<And>k p. k < 3 \<Longrightarrow> sx_send sx k p = Inr (resp k)" "sx_decode sx (resp 2) = Inr ar" "ar_type ar = ''edit_ir''"
    and "sr_error r = Some (SE_Send Phase_Verify e)"
  shows "sr_success r"
proof -
  obtain sm cands c2 fin r1 where loop:
    "phase_loop sx sm repo cands 0 solo_phase_order [] (new_solo_result (sm_mission sm), c2) = (fin, r1, c')"
    and r: "r = (if fin \<and> sr_error r1 = None \<and> \<not> sr_success r1 then r1\<lparr>sr_success := True\<rparr> else r1)"
    using assms(1) by (rule phased_run)
  let ?r0 = "new_solo_result (sm_mission sm)"
  have early: "sx_send sx k p = Inr (resp k)" if "k < 2" for k p using assms(2) that by simp
  obtain r2 where r2: "phase_loop sx sm repo cands 2 [Phase_Execute, Phase_Verify] (resp 1) (r2, c2) = (fin, r1, c')"
    by (rule phases_before_execute [OF early, of sm repo cands ?r0 c2]) (use loop in \<open>simp_all add: new_solo_result_def\<close>)
  have third: "sx_send sx 2 p = Inr (resp 2)" for p using assms(2) by simp
  obtain y r3 d where e: "run_phase sx sm repo cands 2 Phase_Execute (resp 1) (r2, c2) = (y, r3, d)"
    "case y of None \<Rightarrow> (\<exists>e. sr_error r3 = Some (SE_Integrate e) \<or> (\<exists>t. sr_error r3 = Some (SE_Failed t))) \<and> (sr_success r3 \<longrightarrow> sr_success r2)
       | Some z \<Rightarrow> sr_success r3 \<and> sr_error r3 = sr_error r2"
    using run_phase_execute(3) [of sx 2 sm cands "resp 1" "resp 2" ar repo r2 c2, OF third assms(3,4)] by (elim exE conjE) (rule that)
  have err: "sr_error r1 = Some (SE_Send Phase_Verify e)" using assms(5) r by (auto split: if_splits)
  show ?thesis
  proof (cases y)
    case None
    then show ?thesis using e r2 err by auto
  next
    case (Some z)
    have "same_outcome r3 r1"
    proof (rule run_phase_talk [where ph = Phase_Verify and sx = sx and k = 3 and sm = sm and cands = cands and prev = z and repo = repo and r = r3 and c = d])
      fix x r4
      assume "run_phase sx sm repo cands 3 Phase_Verify z (r3, d) = (Some x, r4, d)" "same_outcome r3 r4"
      then show "same_outcome r3 r1" using e r2 Some by simp
    next
      fix u r4
      assume "run_phase sx sm repo cands 3 Phase_Verify z (r3, d) = (None, r4, d)" "same_outcome r3 r4"
      then show "same_outcome r3 r1" using e r2 Some by simp
    qed simp
    then show ?thesis using e Some r err by (simp add: same_outcome_def)
  qed
qed

lemma verify_failure_keeps_success_witness:
  "\<exists>r c'. solo_execute_phased (ex_solo ''edit_ir'' False) default_solo_config [] ''r'' ex_client = (Inr r, c') \<and>
     sr_success r \<and> sr_error r = Some (SE_Send Phase_Verify ''late'')"
proof -
  let ?sx = "ex_solo ''edit_ir'' False"
  obtain r c' where run: "solo_execute_phased ?sx default_solo_config [] ''r'' ex_client = (Inr r, c')"
    using ex_solo_runs by blast
  have sends: "sx_send ?sx k p = Inr ''edit_ir''" if "k < 3" for k p using that by (simp add: ex_solo_def)
  have "sr_error r = Some (SE_Send Phase_Verify ''late'')" by (rule ex_solo_late [OF run])
  then show ?thesis
    using verify_failure_keeps_success [OF run, of "\<lambda>_. ''edit_ir''" "ex_answer ''edit_ir''" "''late''"] sends run by (simp add: ex_solo_def ex_answer_def)
qed

text \<open> The solo pack is larger than its accounting says: the header has at least the playbook and four
  tokens more than the tokens counted for it. \<close>

theorem solo_pack_unaccounted:
  "bm_header (mp_budget (solo_pack marshal srt now endpoint sm cs)) + length (sm_playbook sm) div 4 + 4
     \<le> estimate_tokens (mp_header (solo_pack marshal srt now endpoint sm cs))"
proof -
  let ?p = "compile_with_ref marshal srt now endpoint (sm_mission sm) (map bias_candidate cs) (sm_prompt sm)"
  have "bm_header (mp_budget ?p) = estimate_tokens (mp_header ?p)"
    by (simp add: compile_with_ref_def Let_def split: prod.split)
  moreover have "length (sm_playbook sm) + 17 \<le> length (header_addition sm)" by (simp add: header_addition_def)
  ultimately show ?thesis by (simp add: solo_pack_def estimate_tokens_def Let_def)
qed

text \<open> The scopes of a solo mission are, without repetitions, the symbols found and the files they are in. \<close>

theorem solo_scopes_exact:
  "set (fst (build_scopes [] ss)) =
     (\<lambda>s. \<lparr>sc_type = ''symbol'', sc_value = sym_name s\<rparr>) ` set ss \<union>
     (\<lambda>s. \<lparr>sc_type = ''file'', sc_value = sym_path s\<rparr>) ` {s \<in> set ss. sym_path s \<noteq> []} \<and>
   distinct (fst (build_scopes [] ss))"
proof
  have "set (wanted_scopes ss) = (\<lambda>s. \<lparr>sc_type = ''symbol'', sc_value = sym_name s\<rparr>) ` set ss \<union>
      (\<lambda>s. \<lparr>sc_type = ''file'', sc_value = sym_path s\<rparr>) ` set (filter (\<lambda>s. sym_path s \<noteq> []) ss)"
  proof (induction ss)
    case (Cons s ss)
    then show ?case by (cases "sym_path s = []") (simp_all add: wanted_scopes_def insert_commute)
  qed (simp add: wanted_scopes_def)
  then show "set (fst (build_scopes [] ss)) = (\<lambda>s. \<lparr>sc_type = ''symbol'', sc_value = sym_name s\<rparr>) ` set ss \<union>
      (\<lambda>s. \<lparr>sc_type = ''file'', sc_value = sym_path s\<rparr>) ` {s \<in> set ss. sym_path s \<noteq> []}"
    by (simp only: build_scopes_set set_filter)
  show "distinct (fst (build_scopes [] ss))"
    using first_of_key_facts [of "[]" "wanted_scopes ss"] by (simp add: build_scopes_wanted distinct_map)
qed

end
