(* ===== verification/Agent_Patch.thy ===== *)
theory Agent_Patch
  imports Plain_Text "HOL-Library.Multiset"
begin

text \<open>
  The patch format of the terminal client, \<open>cli/internal/diff/patch.go\<close>: the parser of a patch text
  against the files it names, the placement of its sections, the commit it makes and its application.

  A run of the parser that never ends has the value \<open>None\<close>; an error is its message; the two panics
  it can run into are explicit. Go maps are association lists, and the order in which a map is walked
  is a parameter. The functions that open, write and remove a file are parameters too, over a state.
\<close>

section \<open>Patches\<close>

datatype action_type = Action_Add | Action_Delete | Action_Update

record chunk =
  ck_index :: nat
  ck_del :: "string list"
  ck_ins :: "string list"

record patch_action =
  pa_type :: action_type
  pa_new :: "string option"
  pa_chunks :: "chunk list"
  pa_move :: "path option"

record file_change =
  fc_type :: action_type
  fc_old :: "string option"
  fc_new :: "string option"
  fc_move :: "path option"

type_synonym agent_patch = "(path \<times> patch_action) list"
type_synonym agent_commit = "(path \<times> file_change) list"
type_synonym loaded = "(path \<times> string) list"

datatype patch_stop = Diff_Error string | Patch_Panic go_panic

definition file_error :: "string \<Rightarrow> string \<Rightarrow> path \<Rightarrow> patch_stop" where
  "file_error action reason p = Diff_Error (action @ '' File Error: '' @ reason @ '': '' @ p)"

definition context_error :: "nat \<Rightarrow> string \<Rightarrow> bool \<Rightarrow> patch_stop" where
  "context_error i ctx eof =
     Diff_Error ((if eof then ''Invalid EOF Context'' else ''Invalid Context'') @ '' '' @ nat_str i @ '':'' @ [LF] @ ctx)"

section \<open>The parser state\<close>

record patch_parser =
  pp_files :: loaded
  pp_lines :: "string list"
  pp_index :: nat
  pp_actions :: agent_patch
  pp_fuzz :: int

definition new_patch_parser :: "loaded \<Rightarrow> string list \<Rightarrow> patch_parser" where
  "new_patch_parser files ls = \<lparr>pp_files = files, pp_lines = ls, pp_index = 0, pp_actions = [], pp_fuzz = 0\<rparr>"

definition pp_current :: "patch_parser \<Rightarrow> string option" where
  "pp_current p = (if pp_index p < length (pp_lines p) then Some (pp_lines p ! pp_index p) else None)"

definition pp_done :: "string list \<Rightarrow> patch_parser \<Rightarrow> bool" where
  "pp_done pfxs p = (case pp_current p of None \<Rightarrow> True | Some l \<Rightarrow> list_ex (has_prefix l) pfxs)"

definition pp_starts_with :: "string \<Rightarrow> patch_parser \<Rightarrow> patch_stop + bool" where
  "pp_starts_with pfx p =
     (case pp_current p of None \<Rightarrow> Inl (Patch_Panic Out_Of_Range) | Some l \<Rightarrow> Inr (has_prefix l pfx))"

definition pp_read :: "string \<Rightarrow> bool \<Rightarrow> patch_parser \<Rightarrow> string \<times> patch_parser" where
  "pp_read pfx everything p =
     (case pp_current p of
        None \<Rightarrow> ([], p)
      | Some l \<Rightarrow>
          (if has_prefix l pfx
           then (if everything then l else drop (length pfx) l, p\<lparr>pp_index := pp_index p + 1\<rparr>)
           else ([], p)))"

section \<open>Finding the context\<close>

text \<open>The first index from \<open>i\<close> on that satisfies a condition.\<close>

definition first_from :: "nat \<Rightarrow> nat \<Rightarrow> (nat \<Rightarrow> bool) \<Rightarrow> nat option" where
  "first_from i n P = List.find P [i..<n]"

definition match_fuzz :: "(string \<Rightarrow> string \<Rightarrow> bool) \<Rightarrow> int" where
  "match_fuzz eq =
     (if eq ''a '' ''a'' \<and> \<not> eq ''a'' ''b'' then 1 else if eq ''a  '' ''a'' then 100 else 0)"

definition lines_match :: "(string \<Rightarrow> string \<Rightarrow> bool) \<Rightarrow> string list \<Rightarrow> string list \<Rightarrow> nat \<Rightarrow> bool" where
  "lines_match eq ls ctx i \<longleftrightarrow> i + length ctx \<le> length ls \<and> list_all2 eq (take (length ctx) (drop i ls)) ctx"

text \<open>A negative start reads the line before the first one, unless the context does not fit anyway.\<close>

definition try_find_match ::
  "string list \<Rightarrow> string list \<Rightarrow> int \<Rightarrow> (string \<Rightarrow> string \<Rightarrow> bool) \<Rightarrow> go_panic + (nat \<times> int) option" where
  "try_find_match ls ctx start eq =
     (if start < 0 \<and> start + int (length ctx) \<le> int (length ls) then Inl Out_Of_Range
      else Inr (case first_from (nat start) (length ls) (lines_match eq ls ctx) of
                  None \<Rightarrow> None | Some i \<Rightarrow> Some (i, match_fuzz eq)))"

definition trim_blanks :: "string \<Rightarrow> string" where
  "trim_blanks s = trim_right_set s [CHR '' '', TAB]"

definition find_context_core :: "string list \<Rightarrow> string list \<Rightarrow> int \<Rightarrow> go_panic + (nat \<times> int) option" where
  "find_context_core ls ctx start =
     (if ctx = [] then Inr (Some (nat start, 0))
      else case try_find_match ls ctx start (=) of
        Inl e \<Rightarrow> Inl e
      | Inr (Some x) \<Rightarrow> Inr (Some x)
      | Inr None \<Rightarrow>
          (case try_find_match ls ctx start (\<lambda>a b. trim_blanks a = trim_blanks b) of
             Inl e \<Rightarrow> Inl e
           | Inr (Some x) \<Rightarrow> Inr (Some x)
           | Inr None \<Rightarrow> try_find_match ls ctx start (\<lambda>a b. trim_space a = trim_space b)))"

definition find_context :: "string list \<Rightarrow> string list \<Rightarrow> nat \<Rightarrow> bool \<Rightarrow> go_panic + (nat \<times> int) option" where
  "find_context ls ctx start eof =
     (if eof
      then (case find_context_core ls ctx (int (length ls) - int (length ctx)) of
              Inl e \<Rightarrow> Inl e
            | Inr (Some x) \<Rightarrow> Inr (Some x)
            | Inr None \<Rightarrow>
                (case find_context_core ls ctx (int start) of
                   Inr (Some (i, fuzz)) \<Rightarrow> Inr (Some (i, fuzz + 10000)) | r \<Rightarrow> r))
      else find_context_core ls ctx (int start))"

section \<open>The next section\<close>

definition ends_section :: "string \<Rightarrow> bool" where
  "ends_section s \<longleftrightarrow> has_prefix s ''@@'' \<or> has_prefix s ''***''"

datatype peek_mode = Peek_Keep | Peek_Add | Peek_Delete

definition peek_line :: "string \<Rightarrow> peek_mode \<times> string" where
  "peek_line s =
     (case s of
        [] \<Rightarrow> (Peek_Keep, [])
      | c # r \<Rightarrow>
          (if c = CHR ''+'' then (Peek_Add, r)
           else if c = CHR ''-'' then (Peek_Delete, r)
           else if c = CHR '' '' then (Peek_Keep, r)
           else (Peek_Keep, s)))"

definition flush_chunk :: "nat \<Rightarrow> string list \<Rightarrow> string list \<Rightarrow> chunk list" where
  "flush_chunk n del ins =
     (if ins = [] \<and> del = [] then [] else [\<lparr>ck_index = n - length del, ck_del = del, ck_ins = ins\<rparr>])"

text \<open>The old lines, the chunks and the number of lines read; the last chunk is closed at the end.\<close>

fun peek_loop ::
  "peek_mode \<Rightarrow> string list \<Rightarrow> string list \<Rightarrow> string list \<Rightarrow> string list \<Rightarrow> string list \<times> chunk list \<times> nat" where
  "peek_loop mode old del ins [] = (old, flush_chunk (length old) del ins, 0)"
| "peek_loop mode old del ins (s # ss) =
     (if ends_section s then (old, flush_chunk (length old) del ins, 0)
      else let (mode', l) = peek_line s; closed = (mode' = Peek_Keep \<and> mode \<noteq> Peek_Keep);
               del1 = (if closed then [] else del); ins1 = (if closed then [] else ins);
               (old', cs, n) =
                 (case mode' of
                    Peek_Delete \<Rightarrow> peek_loop mode' (old @ [l]) (del1 @ [l]) ins1 ss
                  | Peek_Add \<Rightarrow> peek_loop mode' old del1 (ins1 @ [l]) ss
                  | Peek_Keep \<Rightarrow> peek_loop mode' (old @ [l]) del1 ins1 ss)
           in (old', (if closed then flush_chunk (length old) del ins else []) @ cs, Suc n))"

definition peek_next_section :: "string list \<Rightarrow> nat \<Rightarrow> string list \<times> chunk list \<times> nat \<times> bool" where
  "peek_next_section ls i =
     (let (old, cs, n) = peek_loop Peek_Keep [] [] [] (drop i ls); j = i + n
      in if j < length ls \<and> ls ! j = ''*** End of File'' then (old, cs, j + 1, True) else (old, cs, j, False))"

section \<open>Updated, added and deleted files\<close>

definition update_ends :: "string list" where
  "update_ends = [''*** End Patch'', ''*** Update File:'', ''*** Delete File:'', ''*** Add File:'', ''*** End of File'']"

definition add_ends :: "string list" where
  "add_ends = [''*** End Patch'', ''*** Update File:'', ''*** Delete File:'', ''*** Add File:'']"

text \<open>The place of a line given after @@, and the fuzz it costs.\<close>

definition seek_line :: "string list \<Rightarrow> string \<Rightarrow> nat \<Rightarrow> nat \<times> int" where
  "seek_line ls d i =
     (if trim_space d = [] \<or> List.member (take i ls) d then (i, 0)
      else case first_from i (length ls) (\<lambda>j. ls ! j = d) of
        Some j \<Rightarrow> (j + 1, 0)
      | None \<Rightarrow>
          (if list_ex (\<lambda>l. trim_space l = trim_space d) (take i ls) then (i, 0)
           else case first_from i (length ls) (\<lambda>j. trim_space (ls ! j) = trim_space d) of
             Some j \<Rightarrow> (j + 1, 1)
           | None \<Rightarrow> (i, 0)))"

definition shift_chunk :: "nat \<Rightarrow> chunk \<Rightarrow> chunk" where
  "shift_chunk n c = c\<lparr>ck_index := ck_index c + n\<rparr>"

text \<open>One round of the loop of \<open>parseUpdateFile\<close>: the place in the file, the chunks and the parser.\<close>

definition update_round ::
  "string list \<Rightarrow> nat \<times> chunk list \<times> patch_parser \<Rightarrow> patch_stop + nat \<times> chunk list \<times> patch_parser" where
  "update_round ls st =
     (let (i, cs, p) = st; (def_str, p1) = pp_read ''@@ '' False p;
          bare = (def_str = [] \<and> pp_current p1 = Some ''@@'');
          p2 = (if bare then p1\<lparr>pp_index := pp_index p1 + 1\<rparr> else p1)
      in if def_str = [] \<and> \<not> bare \<and> i \<noteq> 0
         then (case pp_current p2 of
                 None \<Rightarrow> Inl (Patch_Panic Out_Of_Range)
               | Some l \<Rightarrow> Inl (Diff_Error (''Invalid Line:'' @ [LF] @ l)))
         else let (j, fz) = seek_line ls def_str i;
                  (ctx, new, end_index, eof) = peek_next_section (pp_lines p2) (pp_index p2)
              in case find_context ls ctx j eof of
                   Inl e \<Rightarrow> Inl (Patch_Panic e)
                 | Inr None \<Rightarrow> Inl (context_error j (join_with [LF] ctx) eof)
                 | Inr (Some (k, fuzz)) \<Rightarrow>
                     Inr (k + length ctx, cs @ map (shift_chunk k) new,
                          p2\<lparr>pp_fuzz := pp_fuzz p2 + fz + fuzz, pp_index := end_index\<rparr>))"

partial_function (option) update_loop ::
  "string list \<Rightarrow> nat \<times> chunk list \<times> patch_parser \<Rightarrow> (patch_stop + chunk list \<times> patch_parser) option" where
  "update_loop ls st =
     (if pp_done update_ends (snd (snd st)) then Some (Inr (snd st))
      else case update_round ls st of Inl e \<Rightarrow> Some (Inl e) | Inr st' \<Rightarrow> update_loop ls st')"

declare update_loop.simps [code]

definition parse_update_file :: "string \<Rightarrow> patch_parser \<Rightarrow> (patch_stop + patch_action \<times> patch_parser) option" where
  "parse_update_file text p =
     (case update_loop (split_on LF text) (0, [], p) of
        None \<Rightarrow> None
      | Some (Inl e) \<Rightarrow> Some (Inl e)
      | Some (Inr (cs, p')) \<Rightarrow> Some (Inr (\<lparr>pa_type = Action_Update, pa_new = None, pa_chunks = cs, pa_move = None\<rparr>, p')))"

text \<open>The lines of an added file, over the lines that are left.\<close>

fun add_lines :: "string list \<Rightarrow> patch_stop + string list \<times> nat" where
  "add_lines [] = Inr ([], 0)"
| "add_lines (l # ls) =
     (if list_ex (has_prefix l) add_ends then Inr ([], 0)
      else if \<not> has_prefix l ''+'' then Inl (Diff_Error (''Invalid Add File Line: '' @ l))
      else case add_lines ls of Inl e \<Rightarrow> Inl e | Inr (xs, n) \<Rightarrow> Inr (drop 1 l # xs, Suc n))"

definition parse_add_file :: "patch_parser \<Rightarrow> patch_stop + patch_action \<times> patch_parser" where
  "parse_add_file p =
     (case add_lines (drop (pp_index p) (pp_lines p)) of
        Inl e \<Rightarrow> Inl e
      | Inr (xs, n) \<Rightarrow>
          Inr (\<lparr>pa_type = Action_Add, pa_new = Some (join_with [LF] xs), pa_chunks = [], pa_move = None\<rparr>,
               p\<lparr>pp_index := pp_index p + n\<rparr>))"

section \<open>The whole patch\<close>

text \<open>The three kinds of action, in the order in which the loop tries them; \<open>None\<close> as a step means that
  the loop goes on with the next kind.\<close>

definition parse_update ::
  "patch_parser \<Rightarrow> (patch_stop + patch_parser) option option \<times> patch_parser" where
  "parse_update p =
     (let (path, p1) = pp_read ''*** Update File: '' False p
      in if path = [] then (None, p1)
         else if map_of (pp_actions p1) path \<noteq> None then (Some (Some (Inl (file_error ''Update'' ''Duplicate Path'' path))), p1)
         else let (move_to, p2) = pp_read ''*** Move to: '' False p1
              in case map_of (pp_files p2) path of
                   None \<Rightarrow> (Some (Some (Inl (file_error ''Update'' ''Missing File'' path))), p2)
                 | Some text \<Rightarrow>
                     (Some (case parse_update_file text p2 of
                        None \<Rightarrow> None
                      | Some (Inl e) \<Rightarrow> Some (Inl e)
                      | Some (Inr (a, p3)) \<Rightarrow>
                          Some (Inr (p3\<lparr>pp_actions := aput path (if move_to = [] then a else a\<lparr>pa_move := Some move_to\<rparr>)
                            (pp_actions p3)\<rparr>))), p2))"

definition parse_delete :: "patch_parser \<Rightarrow> (patch_stop + patch_parser) option \<times> patch_parser" where
  "parse_delete p =
     (let (path, p1) = pp_read ''*** Delete File: '' False p
      in if path = [] then (None, p1)
         else if map_of (pp_actions p1) path \<noteq> None then (Some (Inl (file_error ''Delete'' ''Duplicate Path'' path)), p1)
         else if map_of (pp_files p1) path = None then (Some (Inl (file_error ''Delete'' ''Missing File'' path)), p1)
         else (Some (Inr (p1\<lparr>pp_actions :=
                 aput path \<lparr>pa_type = Action_Delete, pa_new = None, pa_chunks = [], pa_move = None\<rparr> (pp_actions p1)\<rparr>)), p1))"

definition parse_add :: "patch_parser \<Rightarrow> (patch_stop + patch_parser) option \<times> patch_parser" where
  "parse_add p =
     (let (path, p1) = pp_read ''*** Add File: '' False p
      in if path = [] then (None, p1)
         else if map_of (pp_actions p1) path \<noteq> None then (Some (Inl (file_error ''Add'' ''Duplicate Path'' path)), p1)
         else if map_of (pp_files p1) path \<noteq> None then (Some (Inl (file_error ''Add'' ''File already exists'' path)), p1)
         else (Some (case parse_add_file p1 of
                 Inl e \<Rightarrow> Inl e
               | Inr (a, p2) \<Rightarrow> Inr (p2\<lparr>pp_actions := aput path a (pp_actions p2)\<rparr>)), p1))"

definition parse_round :: "patch_parser \<Rightarrow> (patch_stop + patch_parser) option" where
  "parse_round p =
     (case parse_update p of
        (Some r, p1) \<Rightarrow> r
      | (None, p1) \<Rightarrow>
          (case parse_delete p1 of
             (Some r, p2) \<Rightarrow> Some r
           | (None, p2) \<Rightarrow>
               (case parse_add p2 of
                  (Some r, p3) \<Rightarrow> Some r
                | (None, p3) \<Rightarrow>
                    Some (Inl (case pp_current p3 of
                                 None \<Rightarrow> Patch_Panic Out_Of_Range
                               | Some l \<Rightarrow> Diff_Error (''Unknown Line: '' @ l))))))"

partial_function (option) parse_loop :: "patch_parser \<Rightarrow> (patch_stop + patch_parser) option" where
  "parse_loop p =
     (if pp_done [''*** End Patch''] p
      then Some (case pp_starts_with ''*** End Patch'' p of
                   Inl e \<Rightarrow> Inl e
                 | Inr b \<Rightarrow> if b then Inr (p\<lparr>pp_index := pp_index p + 1\<rparr>) else Inl (Diff_Error ''Missing End Patch''))
      else case parse_round p of
             None \<Rightarrow> None
           | Some r \<Rightarrow> (case r of Inl e \<Rightarrow> Some (Inl e) | Inr p' \<Rightarrow> parse_loop p'))"

declare parse_loop.simps [code]

definition text_to_patch :: "string \<Rightarrow> loaded \<Rightarrow> (patch_stop + agent_patch \<times> int) option" where
  "text_to_patch text orig =
     (let ls = split_on LF (trim_space text)
      in if length ls < 2 \<or> \<not> has_prefix (hd ls) ''*** Begin Patch'' \<or> last ls \<noteq> ''*** End Patch''
         then Some (Inl (Diff_Error ''Invalid patch text''))
         else case parse_loop ((new_patch_parser orig ls)\<lparr>pp_index := 1\<rparr>) of
                None \<Rightarrow> None
              | Some (Inl e) \<Rightarrow> Some (Inl e)
              | Some (Inr p) \<Rightarrow> Some (Inr (pp_actions p, pp_fuzz p)))"

text \<open>The paths after a prefix, each once; the order is that of a map.\<close>

definition paths_after :: "string \<Rightarrow> string list \<Rightarrow> path list" where
  "paths_after pfx ls = map (drop (length pfx)) (filter (\<lambda>l. has_prefix l pfx) ls)"

definition identify_files_needed :: "(path list \<Rightarrow> path list) \<Rightarrow> string \<Rightarrow> path list" where
  "identify_files_needed walk text =
     (let ls = split_on LF (trim_space text)
      in walk (remdups (paths_after ''*** Update File: '' ls @ paths_after ''*** Delete File: '' ls)))"

definition identify_files_added :: "(path list \<Rightarrow> path list) \<Rightarrow> string \<Rightarrow> path list" where
  "identify_files_added walk text = walk (remdups (paths_after ''*** Add File: '' (split_on LF (trim_space text))))"

section \<open>The commit\<close>

fun apply_chunks :: "path \<Rightarrow> string list \<Rightarrow> nat \<Rightarrow> chunk list \<Rightarrow> patch_stop + string list" where
  "apply_chunks f ls i [] = (if length ls < i then Inl (Patch_Panic Out_Of_Range) else Inr (drop i ls))"
| "apply_chunks f ls i (c # cs) =
     (if length ls < ck_index c
      then Inl (Diff_Error (f @ '': chunk.orig_index '' @ nat_str (ck_index c) @ '' > len(lines) '' @ nat_str (length ls)))
      else if ck_index c < i
      then Inl (Diff_Error (f @ '': orig_index '' @ nat_str i @ '' > chunk.orig_index '' @ nat_str (ck_index c)))
      else case apply_chunks f ls (ck_index c + length (ck_del c)) cs of
             Inl e \<Rightarrow> Inl e
           | Inr rest \<Rightarrow> Inr (drop i (take (ck_index c) ls) @ ck_ins c @ rest))"

definition updated_file :: "string \<Rightarrow> patch_action \<Rightarrow> path \<Rightarrow> patch_stop + string" where
  "updated_file text a f =
     (if pa_type a \<noteq> Action_Update then Inl (Diff_Error ''expected UPDATE action'')
      else case apply_chunks f (split_on LF text) 0 (pa_chunks a) of
             Inl e \<Rightarrow> Inl e | Inr ls \<Rightarrow> Inr (join_with [LF] ls))"

text \<open>The content of a file that is not loaded is empty, as that of a missing key.\<close>

definition content_of :: "loaded \<Rightarrow> path \<Rightarrow> string" where
  "content_of orig f = (case map_of orig f of None \<Rightarrow> [] | Some t \<Rightarrow> t)"

definition action_change :: "loaded \<Rightarrow> path \<Rightarrow> patch_action \<Rightarrow> patch_stop + file_change" where
  "action_change orig f a =
     (case pa_type a of
        Action_Delete \<Rightarrow> Inr \<lparr>fc_type = Action_Delete, fc_old = Some (content_of orig f), fc_new = None, fc_move = None\<rparr>
      | Action_Add \<Rightarrow> Inr \<lparr>fc_type = Action_Add, fc_old = None, fc_new = pa_new a, fc_move = None\<rparr>
      | Action_Update \<Rightarrow>
          (case updated_file (content_of orig f) a f of
             Inl e \<Rightarrow> Inl e
           | Inr new \<Rightarrow> Inr \<lparr>fc_type = Action_Update, fc_old = Some (content_of orig f), fc_new = Some new, fc_move = pa_move a\<rparr>))"

fun commit_actions :: "loaded \<Rightarrow> agent_patch \<Rightarrow> patch_stop + agent_commit" where
  "commit_actions orig [] = Inr []"
| "commit_actions orig ((f, a) # as) =
     (case action_change orig f a of
        Inl e \<Rightarrow> Inl e
      | Inr x \<Rightarrow> (case commit_actions orig as of Inl e \<Rightarrow> Inl e | Inr c \<Rightarrow> Inr ((f, x) # c)))"

definition patch_to_commit :: "(agent_patch \<Rightarrow> agent_patch) \<Rightarrow> agent_patch \<Rightarrow> loaded \<Rightarrow> patch_stop + agent_commit" where
  "patch_to_commit walk patch orig = commit_actions orig (walk patch)"

text \<open>\<open>AssembleChanges\<close>: the commit that turns some files into others; the loop ends at a new file that is empty.\<close>

fun assemble_loop :: "loaded \<Rightarrow> loaded \<Rightarrow> agent_commit" where
  "assemble_loop orig [] = []"
| "assemble_loop orig ((f, new) # fs) =
     (case map_of orig f of
        Some old \<Rightarrow>
          (if old = new then assemble_loop orig fs
           else if new \<noteq> []
           then (f, \<lparr>fc_type = Action_Update, fc_old = Some old, fc_new = Some new, fc_move = None\<rparr>) # assemble_loop orig fs
           else (f, \<lparr>fc_type = Action_Delete, fc_old = Some old, fc_new = None, fc_move = None\<rparr>) # assemble_loop orig fs)
      | None \<Rightarrow>
          (if new \<noteq> []
           then (f, \<lparr>fc_type = Action_Add, fc_old = None, fc_new = Some new, fc_move = None\<rparr>) # assemble_loop orig fs
           else []))"

definition assemble_changes :: "(loaded \<Rightarrow> loaded) \<Rightarrow> loaded \<Rightarrow> loaded \<Rightarrow> agent_commit" where
  "assemble_changes walk orig new = assemble_loop orig (walk new)"

section \<open>Application\<close>

type_synonym 's writer = "path \<Rightarrow> string \<Rightarrow> 's \<Rightarrow> string option \<times> 's"
type_synonym 's remover = "path \<Rightarrow> 's \<Rightarrow> string option \<times> 's"

definition apply_change :: "'s writer \<Rightarrow> 's remover \<Rightarrow> path \<Rightarrow> file_change \<Rightarrow> 's \<Rightarrow> string option \<times> 's" where
  "apply_change wr rm f x s =
     (case fc_type x of
        Action_Delete \<Rightarrow> rm f s
      | Action_Add \<Rightarrow>
          (case fc_new x of None \<Rightarrow> (Some (''Add action for '' @ f @ '' has nil new_content''), s) | Some new \<Rightarrow> wr f new s)
      | Action_Update \<Rightarrow>
          (case fc_new x of
             None \<Rightarrow> (Some (''Update action for '' @ f @ '' has nil new_content''), s)
           | Some new \<Rightarrow>
               (case fc_move x of
                  None \<Rightarrow> wr f new s
                | Some g \<Rightarrow> (case wr g new s of (Some e, s1) \<Rightarrow> (Some e, s1) | (None, s1) \<Rightarrow> rm f s1))))"

fun apply_changes :: "'s writer \<Rightarrow> 's remover \<Rightarrow> agent_commit \<Rightarrow> 's \<Rightarrow> string option \<times> 's" where
  "apply_changes wr rm [] s = (None, s)"
| "apply_changes wr rm ((f, x) # c) s =
     (case apply_change wr rm f x s of (Some e, s1) \<Rightarrow> (Some e, s1) | (None, s1) \<Rightarrow> apply_changes wr rm c s1)"

definition apply_commit ::
  "(agent_commit \<Rightarrow> agent_commit) \<Rightarrow> 's writer \<Rightarrow> 's remover \<Rightarrow> agent_commit \<Rightarrow> 's \<Rightarrow> string option \<times> 's" where
  "apply_commit walk wr rm c s = apply_changes wr rm (walk c) s"

fun load_files :: "(path \<Rightarrow> 's \<Rightarrow> string option) \<Rightarrow> 's \<Rightarrow> path list \<Rightarrow> patch_stop + loaded" where
  "load_files open s [] = Inr []"
| "load_files open s (f # fs) =
     (case open f s of
        None \<Rightarrow> Inl (file_error ''Open'' ''File not found'' f)
      | Some t \<Rightarrow> (case load_files open s fs of Inl e \<Rightarrow> Inl e | Inr m \<Rightarrow> Inr (aput f t m)))"

record walks =
  wk_paths :: "path list \<Rightarrow> path list"
  wk_actions :: "agent_patch \<Rightarrow> agent_patch"
  wk_changes :: "agent_commit \<Rightarrow> agent_commit"

definition fuzzy_message :: "int \<Rightarrow> string" where
  "fuzzy_message fuzz = ''Patch contains fuzzy matches (fuzz level: '' @ itoa fuzz @ '')''"

definition process_patch ::
  "walks \<Rightarrow> string \<Rightarrow> (path \<Rightarrow> 's \<Rightarrow> string option) \<Rightarrow> 's writer \<Rightarrow> 's remover \<Rightarrow> 's \<Rightarrow> (patch_stop option \<times> 's) option" where
  "process_patch wk text open wr rm s =
     (if \<not> has_prefix text ''*** Begin Patch'' then Some (Some (Diff_Error ''Patch must start with *** Begin Patch''), s)
      else case load_files open s (identify_files_needed (wk_paths wk) text) of
        Inl e \<Rightarrow> Some (Some e, s)
      | Inr orig \<Rightarrow>
          (case text_to_patch text orig of
             None \<Rightarrow> None
           | Some (Inl e) \<Rightarrow> Some (Some e, s)
           | Some (Inr (patch, fuzz)) \<Rightarrow>
               (if 0 < fuzz then Some (Some (Diff_Error (fuzzy_message fuzz)), s)
                else case patch_to_commit (wk_actions wk) patch orig of
                  Inl e \<Rightarrow> Some (Some e, s)
                | Inr c \<Rightarrow>
                    (case apply_commit (wk_changes wk) wr rm c s of
                       (e, s1) \<Rightarrow> Some (map_option Diff_Error e, s1)))))"

text \<open>\<open>ValidatePatch\<close>: whether the patch is valid, or what is wrong; a panic is one of the process.\<close>

definition validate_patch :: "walks \<Rightarrow> string \<Rightarrow> loaded \<Rightarrow> (go_panic + bool \<times> string) option" where
  "validate_patch wk text files =
     (let invalid = (\<lambda>e. case e of Diff_Error m \<Rightarrow> Some (Inr (False, m)) | Patch_Panic x \<Rightarrow> Some (Inl x))
      in if \<not> has_prefix text ''*** Begin Patch'' then Some (Inr (False, ''Patch must start with *** Begin Patch''))
      else case List.find (\<lambda>f. map_of files f = None) (identify_files_needed (wk_paths wk) text) of
        Some f \<Rightarrow> Some (Inr (False, ''File not found: '' @ f))
      | None \<Rightarrow>
          (case text_to_patch text files of
             None \<Rightarrow> None
           | Some (Inl e) \<Rightarrow> invalid e
           | Some (Inr (patch, fuzz)) \<Rightarrow>
               (if 0 < fuzz then Some (Inr (False, fuzzy_message fuzz))
                else case patch_to_commit (wk_actions wk) patch files of
                  Inl e \<Rightarrow> invalid e | Inr c \<Rightarrow> Some (Inr (True, ''Patch is valid'')))))"

section \<open>Where the chunks are\<close>

text \<open>A chunk is inside a file; it is exact when the file has its deleted lines at its index.\<close>

definition chunk_inside :: "string list \<Rightarrow> chunk \<Rightarrow> bool" where
  "chunk_inside ls c \<longleftrightarrow> ck_index c + length (ck_del c) \<le> length ls"

definition chunk_exact :: "string list \<Rightarrow> chunk \<Rightarrow> bool" where
  "chunk_exact ls c \<longleftrightarrow> chunk_inside ls c \<and> take (length (ck_del c)) (drop (ck_index c) ls) = ck_del c"

lemma chunk_exact_append: "chunk_exact ls c \<Longrightarrow> chunk_exact (ls @ e) c"
  by (simp add: chunk_exact_def chunk_inside_def)

lemma flush_exact: "c \<in> set (flush_chunk (length (x @ del)) del ins) \<Longrightarrow> chunk_exact (x @ del) c"
  by (auto simp: flush_chunk_def chunk_exact_def chunk_inside_def split: if_splits)

lemma peek_loop_exact:
  "peek_loop mode (x @ del) del ins ss = (old', cs, n) \<Longrightarrow> (mode = Peek_Keep \<Longrightarrow> del = [] \<and> ins = []) \<Longrightarrow>
   (\<forall>c \<in> set cs. chunk_exact old' c) \<and> (\<exists>e. old' = x @ del @ e) \<and> n \<le> length ss"
proof (induction ss arbitrary: mode x del ins old' cs n)
  case Nil
  then show ?case using flush_exact [of _ x del ins] by auto
next
  case (Cons s ss)
  show ?case
  proof (cases "ends_section s")
    case True
    with Cons.prems show ?thesis using flush_exact [of _ x del ins] by auto
  next
    case False
    obtain m l where pl: "peek_line s = (m, l)" by (cases "peek_line s")
    show ?thesis
    proof (cases m)
      case Peek_Delete
      obtain cs0 n0 where r: "peek_loop Peek_Delete (x @ del @ [l]) (del @ [l]) ins ss = (old', cs0, n0)" and "cs = cs0" "n = Suc n0"
        using Cons.prems(1) False by (auto simp: pl Peek_Delete Let_def split: prod.splits)
      with Cons.IH [of Peek_Delete x "del @ [l]" ins old' cs0 n0] show ?thesis by auto
    next
      case Peek_Add
      obtain cs0 n0 where r: "peek_loop Peek_Add (x @ del) del (ins @ [l]) ss = (old', cs0, n0)" and "cs = cs0" "n = Suc n0"
        using Cons.prems(1) False by (auto simp: pl Peek_Add Let_def split: prod.splits)
      with Cons.IH [of Peek_Add x del "ins @ [l]" old' cs0 n0] show ?thesis by auto
    next
      case Peek_Keep
      let ?closed = "mode \<noteq> Peek_Keep"
      have empty: "(if ?closed then [] else del) = []" "(if ?closed then [] else ins) = []" using Cons.prems(2) by auto
      obtain cs0 n0 where r: "peek_loop Peek_Keep (x @ del @ [l]) [] [] ss = (old', cs0, n0)" and n: "n = Suc n0"
        and cs: "cs = (if ?closed then flush_chunk (length (x @ del)) del ins else []) @ cs0"
        using Cons.prems(1) False empty by (auto simp: pl Peek_Keep Let_def split: prod.splits)
      from Cons.IH [of Peek_Keep "x @ del @ [l]" "[]" "[]" old' cs0 n0] r have ih:
        "\<forall>c \<in> set cs0. chunk_exact old' c" "\<exists>e. old' = (x @ del) @ l # e" "n0 \<le> length ss" by auto
      then obtain e where e: "old' = (x @ del) @ l # e" by blast
      have "chunk_exact old' c" if "c \<in> set (flush_chunk (length (x @ del)) del ins)" for c
        unfolding e by (rule chunk_exact_append [OF flush_exact [OF that]])
      with cs n e ih(1,3) show ?thesis by (cases "mode = Peek_Keep") auto
    qed
  qed
qed

lemma peek_exact:
  assumes "peek_next_section ls i = (ctx, cs, j, eof)"
  shows "\<forall>c \<in> set cs. chunk_exact ctx c" "i \<le> j" "i \<le> length ls \<Longrightarrow> j \<le> length ls"
proof -
  obtain n where p: "peek_loop Peek_Keep [] [] [] (drop i ls) = (ctx, cs, n)"
    and j: "j = (if i + n < length ls \<and> ls ! (i + n) = ''*** End of File'' then i + n + 1 else i + n)"
    using assms by (auto simp: peek_next_section_def Let_def split: prod.splits if_splits)
  from peek_loop_exact [of Peek_Keep "[]" "[]" "[]" "drop i ls" ctx cs n] p
  have "\<forall>c \<in> set cs. chunk_exact ctx c" "n \<le> length ls - i" by simp_all
  with j show "\<forall>c \<in> set cs. chunk_exact ctx c" "i \<le> j" "i \<le> length ls \<Longrightarrow> j \<le> length ls" by auto
qed

lemma shift_exact:
  "chunk_exact ctx c \<Longrightarrow> k + length ctx \<le> length ls \<Longrightarrow>
   chunk_inside ls (shift_chunk k c) \<and> (take (length ctx) (drop k ls) = ctx \<longrightarrow> chunk_exact ls (shift_chunk k c))"
proof -
  assume c: "chunk_exact ctx c" and k: "k + length ctx \<le> length ls"
  then have n: "ck_index c + length (ck_del c) \<le> length ctx" by (simp add: chunk_exact_def chunk_inside_def)
  have "take (length (ck_del c)) (drop (ck_index c + k) ls) = ck_del c" if "take (length ctx) (drop k ls) = ctx"
  proof -
    have "take (length (ck_del c)) (drop (ck_index c) (take (length ctx) (drop k ls))) =
        take (length (ck_del c)) (drop (ck_index c + k) ls)"
      using n by (simp add: drop_take min_def)
    with c that show ?thesis by (simp add: chunk_exact_def)
  qed
  with n k show ?thesis by (simp add: chunk_exact_def chunk_inside_def shift_chunk_def)
qed

section \<open>Where the context is found\<close>

lemma first_from_Some: "first_from i n P = Some j \<Longrightarrow> i \<le> j \<and> j < n \<and> P j"
  by (auto simp: first_from_def find_Some_iff)

lemma match_fuzz_simps [simp]:
  "match_fuzz (=) = 0" "match_fuzz (\<lambda>a b. trim_blanks a = trim_blanks b) = 1"
  "match_fuzz (\<lambda>a b. trim_space a = trim_space b) = 1"
  by code_simp+

lemma try_find_match_Some:
  assumes "try_find_match ls ctx start eq = Inr (Some (k, fuzz))"
  shows "lines_match eq ls ctx k" "fuzz = match_fuzz eq" "start \<le> int k"
  using assms by (auto simp: try_find_match_def split: if_splits option.splits dest!: first_from_Some)

lemma lines_match_eq: "lines_match (=) ls ctx k \<longleftrightarrow> k + length ctx \<le> length ls \<and> take (length ctx) (drop k ls) = ctx"
  by (simp add: lines_match_def list.rel_eq)

definition found_at :: "string list \<Rightarrow> string list \<Rightarrow> nat \<Rightarrow> int \<Rightarrow> bool" where
  "found_at ls ctx k fuzz \<longleftrightarrow>
     k + length ctx \<le> length ls \<and> 0 \<le> fuzz \<and> (fuzz = 0 \<longrightarrow> take (length ctx) (drop k ls) = ctx)"

lemma find_context_core_found:
  assumes "find_context_core ls ctx start = Inr (Some (k, fuzz))" "start \<le> int (length ls)"
  shows "found_at ls ctx k fuzz"
proof (cases "ctx = []")
  case True
  with assms show ?thesis by (auto simp: find_context_core_def found_at_def)
next
  case False
  with assms(1) consider "try_find_match ls ctx start (=) = Inr (Some (k, fuzz))"
    | "try_find_match ls ctx start (\<lambda>a b. trim_blanks a = trim_blanks b) = Inr (Some (k, fuzz))"
    | "try_find_match ls ctx start (\<lambda>a b. trim_space a = trim_space b) = Inr (Some (k, fuzz))"
    by (auto simp: find_context_core_def split: sum.splits option.splits)
  then show ?thesis
  proof cases
    case 1
    from try_find_match_Some [OF 1] show ?thesis by (simp add: found_at_def lines_match_eq)
  next
    case 2
    from try_find_match_Some [OF 2] show ?thesis by (simp add: found_at_def lines_match_def)
  next
    case 3
    from try_find_match_Some [OF 3] show ?thesis by (simp add: found_at_def lines_match_def)
  qed
qed

lemma find_context_found:
  assumes "find_context ls ctx start eof = Inr (Some (k, fuzz))" "start \<le> length ls"
  shows "found_at ls ctx k fuzz"
proof -
  have backward: "found_at ls ctx k f" if "find_context_core ls ctx (int (length ls) - int (length ctx)) = Inr (Some (k, f))" for f
    using find_context_core_found [OF that] by simp
  have fore: "found_at ls ctx k f" if "find_context_core ls ctx (int start) = Inr (Some (k, f))" for f
    using find_context_core_found [OF that] assms(2) by simp
  have more: "found_at ls ctx k (f + 10000)" if "find_context_core ls ctx (int start) = Inr (Some (k, f))" for f
    using fore [OF that] by (simp add: found_at_def)
  show ?thesis using assms(1) backward fore more
    by (auto simp: find_context_def split: if_splits sum.splits option.splits)
qed

lemma trim_space_Nil [simp]: "trim_space [] = []"
  by code_simp

lemma seek_line_bounds: "seek_line ls d i = (j, fz) \<Longrightarrow> i \<le> length ls \<Longrightarrow> j \<le> length ls \<and> 0 \<le> fz"
  by (auto simp: seek_line_def split: if_splits option.splits dest!: first_from_Some)

section \<open>What the chunks make of a file\<close>

text \<open>The pieces that are kept, each followed by the lines of a chunk.\<close>

fun weave :: "'a list list \<Rightarrow> 'a list list \<Rightarrow> 'a list" where
  "weave (k # ks) (d # ds) = k @ d @ weave ks ds"
| "weave ks ds = []"

lemma apply_chunks_weave:
  "apply_chunks f ls i cs = Inr out \<Longrightarrow> \<forall>c \<in> set cs. chunk_exact ls c \<Longrightarrow>
   \<exists>keeps rest. length keeps = length cs \<and> drop i ls = weave keeps (map ck_del cs) @ rest \<and>
     out = weave keeps (map ck_ins cs) @ rest"
proof (induction f ls i cs arbitrary: out rule: apply_chunks.induct)
  case (1 f ls i)
  then show ?case by (auto split: if_splits)
next
  case (2 f ls i c cs)
  from 2(2) obtain rest where r: "apply_chunks f ls (ck_index c + length (ck_del c)) cs = Inr rest" "i \<le> ck_index c"
    and out: "out = drop i (take (ck_index c) ls) @ ck_ins c @ rest"
    by (auto split: if_splits sum.splits)
  have "\<not> length ls < ck_index c" "\<not> ck_index c < i" using 2(2) by (auto split: if_splits)
  from 2(1) [OF this r(1)] 2(3) obtain keeps tail where ih: "length keeps = length cs"
    "drop (ck_index c + length (ck_del c)) ls = weave keeps (map ck_del cs) @ tail" "rest = weave keeps (map ck_ins cs) @ tail"
    by auto
  have "drop i ls = drop i (take (ck_index c) ls) @ drop (ck_index c) ls"
    by (metis append_take_drop_id drop_append drop_drop \<open>\<not> length ls < ck_index c\<close> diff_is_0_eq drop_0 length_take min.absorb2 not_le r(2))
  also have "drop (ck_index c) ls = ck_del c @ drop (ck_index c + length (ck_del c)) ls"
    using 2(3) append_take_drop_id [of "length (ck_del c)" "drop (ck_index c) ls"]
    by (simp add: chunk_exact_def add.commute)
  finally show ?case
    using ih out by (intro exI [of _ "drop i (take (ck_index c) ls) # keeps"] exI [of _ tail]) simp
qed

lemma apply_chunks_no_panic:
  "\<forall>c \<in> set cs. chunk_inside ls c \<Longrightarrow> i \<le> length ls \<Longrightarrow> apply_chunks f ls i cs \<noteq> Inl (Patch_Panic x)"
  by (induction f ls i cs rule: apply_chunks.induct) (auto simp: chunk_inside_def split: sum.splits)

section \<open>The rounds of an update\<close>

lemma pp_read_facts:
  assumes "pp_read pfx ev p = (t, p')"
  shows "pp_lines p' = pp_lines p" "pp_files p' = pp_files p" "pp_actions p' = pp_actions p" "pp_fuzz p' = pp_fuzz p"
    "p' = p \<and> t = [] \<or> p' = p\<lparr>pp_index := pp_index p + 1\<rparr> \<and> (\<exists>l. pp_current p = Some l \<and> has_prefix l pfx \<and>
       t = (if ev then l else drop (length pfx) l))"
  using assms by (auto simp: pp_read_def split: option.splits if_splits)


definition same_input :: "patch_parser \<Rightarrow> patch_parser \<Rightarrow> bool" where
  "same_input p p' \<longleftrightarrow> pp_lines p' = pp_lines p \<and> pp_files p' = pp_files p"

lemma same_input_trans: "same_input p q \<Longrightarrow> same_input q r \<Longrightarrow> same_input p r"
  by (simp add: same_input_def)

lemma pp_read_same: "pp_read pfx ev p = (t, p') \<Longrightarrow> same_input p p'"
  using pp_read_facts [of pfx ev p t p'] by (simp add: same_input_def)

lemma update_round_eq:
  obtains d p1 p2 j fz ctx new e eof where
    "pp_read ''@@ '' False p = (d, p1)"
    "p2 = (if d = [] \<and> pp_current p1 = Some ''@@'' then p1\<lparr>pp_index := pp_index p1 + 1\<rparr> else p1)"
    "seek_line ls d i = (j, fz)" "peek_next_section (pp_lines p2) (pp_index p2) = (ctx, new, e, eof)"
    "update_round ls (i, cs, p) =
      (if d = [] \<and> \<not> (d = [] \<and> pp_current p1 = Some ''@@'') \<and> i \<noteq> 0
       then (case pp_current p2 of
               None \<Rightarrow> Inl (Patch_Panic Out_Of_Range) | Some l \<Rightarrow> Inl (Diff_Error (''Invalid Line:'' @ [LF] @ l)))
       else case find_context ls ctx j eof of
              Inl x \<Rightarrow> Inl (Patch_Panic x)
            | Inr None \<Rightarrow> Inl (context_error j (join_with [LF] ctx) eof)
            | Inr (Some (k, fuzz)) \<Rightarrow>
                Inr (k + length ctx, cs @ map (shift_chunk k) new, p2\<lparr>pp_fuzz := pp_fuzz p2 + fz + fuzz, pp_index := e\<rparr>))"
proof -
  obtain d p1 where d: "pp_read ''@@ '' False p = (d, p1)" by (cases "pp_read ''@@ '' False p")
  define p2 where "p2 = (if d = [] \<and> pp_current p1 = Some ''@@'' then p1\<lparr>pp_index := pp_index p1 + 1\<rparr> else p1)"
  obtain j fz where seek: "seek_line ls d i = (j, fz)" by (cases "seek_line ls d i")
  obtain ctx new e eof where peek: "peek_next_section (pp_lines p2) (pp_index p2) = (ctx, new, e, eof)"
    by (metis prod_cases4)
  show thesis
    by (rule that [OF d p2_def seek peek]) (simp only: update_round_def Let_def d prod.case p2_def [symmetric] seek peek)
qed

lemma update_round_facts:
  assumes "update_round ls (i, cs, p) = Inr (i', cs', p')" "i \<le> length ls"
  obtains k ctx new fz fuzz where "i' = k + length ctx" "cs' = cs @ map (shift_chunk k) new" "pp_fuzz p' = pp_fuzz p + fz + fuzz"
    "0 \<le> fz" "found_at ls ctx k fuzz" "\<forall>c \<in> set new. chunk_exact ctx c" "pp_index p \<le> pp_index p'"
    "same_input p p'" "pp_actions p' = pp_actions p"
proof -
  obtain d p1 p2 j fz ctx new e eof where d: "pp_read ''@@ '' False p = (d, p1)"
    and p2_def: "p2 = (if d = [] \<and> pp_current p1 = Some ''@@'' then p1\<lparr>pp_index := pp_index p1 + 1\<rparr> else p1)"
    and seek: "seek_line ls d i = (j, fz)" and peek: "peek_next_section (pp_lines p2) (pp_index p2) = (ctx, new, e, eof)"
    and body: "update_round ls (i, cs, p) =
      (if d = [] \<and> \<not> (d = [] \<and> pp_current p1 = Some ''@@'') \<and> i \<noteq> 0
       then (case pp_current p2 of
               None \<Rightarrow> Inl (Patch_Panic Out_Of_Range) | Some l \<Rightarrow> Inl (Diff_Error (''Invalid Line:'' @ [LF] @ l)))
       else case find_context ls ctx j eof of
              Inl x \<Rightarrow> Inl (Patch_Panic x)
            | Inr None \<Rightarrow> Inl (context_error j (join_with [LF] ctx) eof)
            | Inr (Some (k, fuzz)) \<Rightarrow>
                Inr (k + length ctx, cs @ map (shift_chunk k) new, p2\<lparr>pp_fuzz := pp_fuzz p2 + fz + fuzz, pp_index := e\<rparr>))"
    by (rule update_round_eq)
  note rd = pp_read_facts [OF d]
  obtain k fuzz where find: "find_context ls ctx j eof = Inr (Some (k, fuzz))"
    and res: "i' = k + length ctx" "cs' = cs @ map (shift_chunk k) new" "p' = p2\<lparr>pp_fuzz := pp_fuzz p2 + fz + fuzz, pp_index := e\<rparr>"
    using assms(1) unfolding body by (auto split: if_splits option.splits sum.splits)
  have p2: "pp_lines p2 = pp_lines p" "pp_files p2 = pp_files p" "pp_actions p2 = pp_actions p" "pp_fuzz p2 = pp_fuzz p"
    "pp_index p \<le> pp_index p2"
    using rd by (auto simp: p2_def)
  note sk = seek_line_bounds [OF seek assms(2)]
  show thesis
    by (rule that [of k ctx new fz fuzz])
      (use res p2 sk find_context_found [OF find] peek_exact [OF peek] in \<open>auto simp: same_input_def\<close>)
qed

definition update_inv :: "string list \<Rightarrow> nat \<times> chunk list \<times> patch_parser \<Rightarrow> bool" where
  "update_inv ls st =
     (let (i, cs, p) = st
      in i \<le> length ls \<and> 0 \<le> pp_fuzz p \<and> (\<forall>c \<in> set cs. chunk_inside ls c \<and> (pp_fuzz p = 0 \<longrightarrow> chunk_exact ls c)))"

lemma update_round_inv:
  assumes "update_round ls (i, cs, p) = Inr (i', cs', p')" "update_inv ls (i, cs, p)"
  shows "update_inv ls (i', cs', p')" "pp_fuzz p \<le> pp_fuzz p'" "same_input p p'" "pp_actions p' = pp_actions p"
    "pp_index p \<le> pp_index p'"
proof -
  from assms(2) have i: "i \<le> length ls" by (simp add: update_inv_def)
  obtain k ctx new fz fuzz where r: "i' = k + length ctx" "cs' = cs @ map (shift_chunk k) new"
    "pp_fuzz p' = pp_fuzz p + fz + fuzz" "0 \<le> fz" "found_at ls ctx k fuzz" "\<forall>c \<in> set new. chunk_exact ctx c"
    "pp_index p \<le> pp_index p'" "same_input p p'" "pp_actions p' = pp_actions p"
    by (rule update_round_facts [OF assms(1) i])
  show "pp_fuzz p \<le> pp_fuzz p'" "same_input p p'" "pp_actions p' = pp_actions p" "pp_index p \<le> pp_index p'"
    using r by (simp_all add: found_at_def)
  have new: "chunk_inside ls (shift_chunk k c) \<and> (fuzz = 0 \<longrightarrow> chunk_exact ls (shift_chunk k c))" if "c \<in> set new" for c
    using shift_exact [of ctx c k ls] r(5,6) that by (auto simp: found_at_def)
  have old: "chunk_inside ls c \<and> (pp_fuzz p' = 0 \<longrightarrow> chunk_exact ls c)" if "c \<in> set cs" for c
    using assms(2) that r(3-5) by (auto simp: update_inv_def found_at_def)
  show "update_inv ls (i', cs', p')"
    using r new old assms(2) by (auto simp: update_inv_def found_at_def)
qed

lemma update_loop_inv:
  assumes "update_loop ls st = Some r" "r = Inr (cs', p')" "update_inv ls st"
  shows "(\<exists>i. update_inv ls (i, cs', p')) \<and> pp_fuzz (snd (snd st)) \<le> pp_fuzz p' \<and> same_input (snd (snd st)) p' \<and>
    pp_actions p' = pp_actions (snd (snd st)) \<and> pp_index (snd (snd st)) \<le> pp_index p'"
  using assms
proof (induction arbitrary: cs' p' rule: update_loop.raw_induct [rotated 1, consumes 1])
  case (1 loop ls st r)
  obtain i cs p where st: "st = (i, cs, p)" by (metis prod_cases3)
  show ?case
  proof (cases "pp_done update_ends p")
    case True
    with 1(2-4) show ?thesis by (auto simp: st same_input_def)
  next
    case False
    with 1(2,3) obtain st1 where st1: "update_round ls st = Inr st1" "loop ls st1 = Some r"
      by (auto simp: st split: sum.splits)
    obtain i1 cs1 p1 where s1: "st1 = (i1, cs1, p1)" by (metis prod_cases3)
    from update_round_inv [of ls i cs p i1 cs1 p1] st1(1) 1(4) have inv:
      "update_inv ls st1" "pp_fuzz p \<le> pp_fuzz p1" "same_input p p1" "pp_actions p1 = pp_actions p" "pp_index p \<le> pp_index p1"
      by (simp_all add: st s1)
    from 1(1) [OF st1(2) 1(3) inv(1)] inv show ?thesis by (auto simp: st s1 same_input_def)
  qed
qed

section \<open>The actions of a patch fit the files\<close>

definition action_fits :: "loaded \<Rightarrow> int \<Rightarrow> path \<Rightarrow> patch_action \<Rightarrow> bool" where
  "action_fits files fuzz f a =
     (case pa_type a of
        Action_Update \<Rightarrow>
          (\<exists>t. map_of files f = Some t \<and> (\<forall>c \<in> set (pa_chunks a).
             chunk_inside (split_on LF t) c \<and> (fuzz = 0 \<longrightarrow> chunk_exact (split_on LF t) c)))
      | Action_Add \<Rightarrow> pa_new a \<noteq> None \<and> map_of files f = None
      | Action_Delete \<Rightarrow> map_of files f \<noteq> None)"

definition patch_inv :: "patch_parser \<Rightarrow> bool" where
  "patch_inv p \<longleftrightarrow> 0 \<le> pp_fuzz p \<and> (\<forall>(f, a) \<in> set (pp_actions p). action_fits (pp_files p) (pp_fuzz p) f a)"

lemma action_fits_mono: "action_fits files fuzz f a \<Longrightarrow> 0 \<le> fuzz \<Longrightarrow> fuzz \<le> fuzz' \<Longrightarrow> action_fits files fuzz' f a"
  by (auto simp: action_fits_def split: action_type.splits)

lemma set_aput: "x \<in> set (aput k v m) \<Longrightarrow> x = (k, v) \<or> x \<in> set m"
  by (induction k v m rule: aput.induct) (auto split: if_splits)

lemma patch_inv_put:
  assumes "patch_inv p" "action_fits (pp_files p) fuzz f a" "pp_fuzz p \<le> fuzz" "pp_files p' = pp_files p" "pp_fuzz p' = fuzz"
    and "pp_actions p' = aput f a (pp_actions p)"
  shows "patch_inv p'"
  using assms action_fits_mono [of "pp_files p" "pp_fuzz p" _ _ fuzz]
  by (auto simp: patch_inv_def dest!: set_aput)

lemma patch_inv_same:
  "patch_inv p \<Longrightarrow> pp_files p' = pp_files p \<Longrightarrow> pp_fuzz p' = pp_fuzz p \<Longrightarrow> pp_actions p' = pp_actions p \<Longrightarrow> patch_inv p'"
  by (simp add: patch_inv_def)

lemma pp_read_inv:
  assumes "pp_read pfx ev p = (t, p')" "patch_inv p"
  shows "patch_inv p'"
  by (rule patch_inv_same [OF assms(2)]) (rule pp_read_facts [OF assms(1)])+

lemma parse_update_inv:
  assumes "patch_inv p"
  shows "parse_update p = (Some (Some (Inr p')), p1) \<Longrightarrow> patch_inv p' \<and> same_input p p'"
    and "parse_update p = (None, p1) \<Longrightarrow> patch_inv p1 \<and> same_input p p1"
proof -
  obtain f q where rd: "pp_read ''*** Update File: '' False p = (f, q)" by (cases "pp_read ''*** Update File: '' False p")
  obtain mv r where mv: "pp_read ''*** Move to: '' False q = (mv, r)" by (cases "pp_read ''*** Move to: '' False q")
  have q: "patch_inv q" "same_input p q" using pp_read_inv [OF rd assms] pp_read_same [OF rd] by auto
  have r: "patch_inv r" "same_input p r"
    using pp_read_inv [OF mv q(1)] same_input_trans [OF q(2) pp_read_same [OF mv]] by auto
  show "parse_update p = (None, p1) \<Longrightarrow> patch_inv p1 \<and> same_input p p1"
    using q by (auto simp: parse_update_def rd mv Let_def split: if_splits option.splits)
  assume "parse_update p = (Some (Some (Inr p')), p1)"
  then obtain t cs s where t: "map_of (pp_files r) f = Some t" and loop: "update_loop (split_on LF t) (0, [], r) = Some (Inr (cs, s))"
    and p': "p' = s\<lparr>pp_actions := aput f \<lparr>pa_type = Action_Update, pa_new = None, pa_chunks = cs,
      pa_move = (if mv = [] then None else Some mv)\<rparr> (pp_actions s)\<rparr>"
    by (auto simp: parse_update_def parse_update_file_def rd mv Let_def split: if_splits option.splits sum.splits)
  have "update_inv (split_on LF t) (0, [], r)" using r(1) by (simp add: update_inv_def patch_inv_def)
  from update_loop_inv [OF loop refl this] obtain i where
    s: "update_inv (split_on LF t) (i, cs, s)" "pp_fuzz r \<le> pp_fuzz s" "same_input r s" "pp_actions s = pp_actions r" by auto
  have "patch_inv p'"
    by (rule patch_inv_put [OF r(1), of "pp_fuzz s" f])
      (use s t in \<open>auto simp: p' action_fits_def update_inv_def same_input_def\<close>)
  moreover have "same_input p p'" using same_input_trans [OF r(2) s(3)] by (simp add: p' same_input_def)
  ultimately show "patch_inv p' \<and> same_input p p'" by simp
qed

lemma parse_delete_inv:
  assumes "patch_inv p"
  shows "parse_delete p = (Some (Inr p'), p1) \<Longrightarrow> patch_inv p' \<and> same_input p p'"
    and "parse_delete p = (None, p1) \<Longrightarrow> patch_inv p1 \<and> same_input p p1"
proof -
  obtain f q where rd: "pp_read ''*** Delete File: '' False p = (f, q)" by (cases "pp_read ''*** Delete File: '' False p")
  have q: "patch_inv q" "same_input p q" using pp_read_inv [OF rd assms] pp_read_same [OF rd] by auto
  show "parse_delete p = (None, p1) \<Longrightarrow> patch_inv p1 \<and> same_input p p1"
    using q by (auto simp: parse_delete_def rd split: if_splits)
  assume "parse_delete p = (Some (Inr p'), p1)"
  then have f: "map_of (pp_files q) f \<noteq> None" and p': "p' = q\<lparr>pp_actions :=
      aput f \<lparr>pa_type = Action_Delete, pa_new = None, pa_chunks = [], pa_move = None\<rparr> (pp_actions q)\<rparr>"
    by (auto simp: parse_delete_def rd split: if_splits)
  have "patch_inv p'" by (rule patch_inv_put [OF q(1), of "pp_fuzz q" f]) (use f in \<open>auto simp: p' action_fits_def\<close>)
  with q(2) show "patch_inv p' \<and> same_input p p'" by (simp add: p' same_input_def)
qed

lemma parse_add_inv:
  assumes "patch_inv p"
  shows "parse_add p = (Some (Inr p'), p1) \<Longrightarrow> patch_inv p' \<and> same_input p p'"
    and "parse_add p = (None, p1) \<Longrightarrow> patch_inv p1 \<and> same_input p p1"
proof -
  obtain f q where rd: "pp_read ''*** Add File: '' False p = (f, q)" by (cases "pp_read ''*** Add File: '' False p")
  have q: "patch_inv q" "same_input p q" using pp_read_inv [OF rd assms] pp_read_same [OF rd] by auto
  show "parse_add p = (None, p1) \<Longrightarrow> patch_inv p1 \<and> same_input p p1"
    using q by (auto simp: parse_add_def rd split: if_splits)
  assume "parse_add p = (Some (Inr p'), p1)"
  then obtain xs n where f: "map_of (pp_files q) f = None" and p': "p' = q\<lparr>pp_index := pp_index q + n, pp_actions :=
      aput f \<lparr>pa_type = Action_Add, pa_new = Some (join_with [LF] xs), pa_chunks = [], pa_move = None\<rparr> (pp_actions q)\<rparr>"
    by (auto simp: parse_add_def parse_add_file_def rd split: if_splits sum.splits)
  have "patch_inv p'" by (rule patch_inv_put [OF q(1), of "pp_fuzz q" f]) (use f in \<open>auto simp: p' action_fits_def\<close>)
  with q(2) show "patch_inv p' \<and> same_input p p'" by (simp add: p' same_input_def)
qed

lemma parse_round_inv:
  assumes "patch_inv p" "parse_round p = Some (Inr p')"
  shows "patch_inv p' \<and> same_input p p'"
proof -
  obtain a p1 where u: "parse_update p = (a, p1)" by (cases "parse_update p")
  show ?thesis
  proof (cases a)
    case (Some r)
    with assms u show ?thesis using parse_update_inv(1) [OF assms(1)] by (auto simp: parse_round_def)
  next
    case None
    from parse_update_inv(2) [OF assms(1)] u None have p1: "patch_inv p1" "same_input p p1" by auto
    obtain b p2 where d: "parse_delete p1 = (b, p2)" by (cases "parse_delete p1")
    show ?thesis
    proof (cases b)
      case (Some r)
      with assms u None d show ?thesis using parse_delete_inv(1) [OF p1(1)] same_input_trans [OF p1(2)]
        by (auto simp: parse_round_def)
    next
      case None2: None
      from parse_delete_inv(2) [OF p1(1)] d None2 have p2: "patch_inv p2" "same_input p p2"
        using same_input_trans [OF p1(2)] by auto
      obtain c p3 where "parse_add p2 = (c, p3)" by (cases "parse_add p2")
      with assms u None d None2 show ?thesis using parse_add_inv(1) [OF p2(1)] same_input_trans [OF p2(2)]
        by (auto simp: parse_round_def split: option.splits)
    qed
  qed
qed

lemma parse_loop_inv:
  assumes "parse_loop p = Some r" "r = Inr p'" "patch_inv p"
  shows "patch_inv p' \<and> same_input p p'"
  using assms
proof (induction arbitrary: p' rule: parse_loop.raw_induct [rotated 1, consumes 1])
  case (1 loop p r)
  show ?case
  proof (cases "pp_done [''*** End Patch''] p")
    case True
    with 1(2,3) have "p' = p\<lparr>pp_index := pp_index p + 1\<rparr>" by (auto split: sum.splits if_splits)
    with 1(4) show ?thesis by (simp add: patch_inv_def same_input_def)
  next
    case False
    with 1(2,3) obtain q where q: "parse_round p = Some (Inr q)" "loop q = Some r"
      by (auto split: option.splits sum.splits)
    from parse_round_inv [OF 1(4) q(1)] have "patch_inv q" "same_input p q" by auto
    from 1(1) [OF q(2) 1(3) this(1)] same_input_trans [OF this(2)] show ?thesis by auto
  qed
qed

lemma text_to_patch_fits:
  assumes "text_to_patch text orig = Some (Inr (patch, fuzz))"
  shows "0 \<le> fuzz" "(f, a) \<in> set patch \<Longrightarrow> action_fits orig fuzz f a"
proof -
  let ?p = "(new_patch_parser orig (split_on LF (trim_space text)))\<lparr>pp_index := 1\<rparr>"
  from assms obtain p where p: "parse_loop ?p = Some (Inr p)" "patch = pp_actions p" "fuzz = pp_fuzz p"
    by (auto simp: text_to_patch_def Let_def split: if_splits option.splits sum.splits)
  have "patch_inv ?p" by (simp add: patch_inv_def new_patch_parser_def)
  from parse_loop_inv [OF p(1) refl this] p(2,3)
  show "0 \<le> fuzz" "(f, a) \<in> set patch \<Longrightarrow> action_fits orig fuzz f a"
    by (auto simp: patch_inv_def same_input_def new_patch_parser_def)
qed

section \<open>Runs that end\<close>

text \<open>A line that ends a section is understood by the loop that then goes on, unless it is one of these.\<close>

definition fine_line :: "string \<Rightarrow> bool" where
  "fine_line l \<longleftrightarrow> \<not> ends_section l \<or> has_prefix l ''@@ '' \<or> l = ''@@'' \<or> list_ex (has_prefix l) update_ends"














section \<open>Runs that do not end\<close>

lemma update_loop_stuck:
  assumes "update_round ls st0 = Inr st0" "\<not> pp_done update_ends (snd (snd st0))"
  shows "update_loop ls st0 = None"
proof (rule ccontr)
  assume "update_loop ls st0 \<noteq> None"
  then obtain r where "update_loop ls st0 = Some r" by blast
  moreover have "\<not> (ls' = ls \<and> st = st0)" if "update_loop ls' st = Some r" for ls' st
    using that
  proof (induction rule: update_loop.raw_induct [rotated 1, consumes 1])
    case (1 loop ls' st r)
    show ?case
    proof
      assume "ls' = ls \<and> st = st0"
      with 1(2) assms have "loop ls st0 = Some r" by simp
      with 1(1) show False by blast
    qed
  qed
  ultimately show False by blast
qed

section \<open>Panics\<close>

text \<open>The parser stands on a line of a text whose last line ends the patch.\<close>

definition guarded :: "patch_parser \<Rightarrow> bool" where
  "guarded p \<longleftrightarrow> pp_index p < length (pp_lines p) \<and> last (pp_lines p) = ''*** End Patch''"

definition eof_marked :: "patch_parser \<Rightarrow> bool" where
  "eof_marked p \<longleftrightarrow> ''*** End of File'' \<in> set (pp_lines p)"

lemma guarded_step:
  assumes "guarded p" "pp_current p = Some l" "l \<noteq> ''*** End Patch''"
  shows "guarded (p\<lparr>pp_index := pp_index p + 1\<rparr>)"
proof -
  have "pp_index p \<noteq> length (pp_lines p) - 1"
    using assms last_conv_nth [of "pp_lines p"] by (cases "pp_lines p = []") (auto simp: guarded_def pp_current_def split: if_splits)
  with assms(1) show ?thesis by (auto simp: guarded_def)
qed

lemma guarded_read:
  assumes "guarded p" "pp_read pfx ev p = (t, p')" "\<not> has_prefix ''*** End Patch'' pfx"
  shows "guarded p'"
proof -
  from pp_read_facts(5) [OF assms(2)] consider "p' = p"
    | l where "p' = p\<lparr>pp_index := pp_index p + 1\<rparr>" "pp_current p = Some l" "has_prefix l pfx" by blast
  then show ?thesis
  proof cases
    case 2
    with guarded_step [OF assms(1), of l] assms(3) show ?thesis by auto
  qed (use assms(1) in simp)
qed

lemma end_patch_prefixes:
  "\<not> has_prefix ''*** End Patch'' ''@@ ''" "\<not> has_prefix ''*** End Patch'' ''*** Update File: ''"
  "\<not> has_prefix ''*** End Patch'' ''*** Move to: ''" "\<not> has_prefix ''*** End Patch'' ''*** Delete File: ''"
  "\<not> has_prefix ''*** End Patch'' ''*** Add File: ''" "ends_section ''*** End Patch''"
  by (simp_all add: ends_section_def)

lemma peek_stays:
  assumes "peek_next_section ls i = (ctx, cs, j, eof)" "i < length ls" "last ls = ''*** End Patch''"
  shows "j < length ls" "eof \<Longrightarrow> ''*** End of File'' \<in> set ls"
proof -
  obtain n where p: "peek_loop Peek_Keep [] [] [] (drop i ls) = (ctx, cs, n)"
    and j: "(j, eof) = (if i + n < length ls \<and> ls ! (i + n) = ''*** End of File'' then (i + n + 1, True) else (i + n, False))"
    using assms(1) by (auto simp: peek_next_section_def Let_def split: prod.splits if_splits)
  have drop: "drop i ls \<noteq> []" "last (drop i ls) = ''*** End Patch''" using assms(2,3) by simp_all
  have "peek_loop mode old del ins ss = (o', k, m) \<Longrightarrow> ss \<noteq> [] \<Longrightarrow> last ss = ''*** End Patch'' \<Longrightarrow> m < length ss"
    for mode old del ins ss o' k m
  proof (induction ss arbitrary: mode old del ins o' k m)
    case (Cons s ss)
    show ?case
    proof (cases "ends_section s")
      case False
      obtain md l where pl: "peek_line s = (md, l)" by (cases "peek_line s")
      obtain old1 del1 ins1 cs1 n1 where "peek_loop md old1 del1 ins1 ss = (o', cs1, n1)" "m = Suc n1"
        using Cons.prems(1) False by (cases md) (auto simp: pl Let_def split: prod.splits)
      moreover from Cons.prems(3) False end_patch_prefixes(6) have "ss \<noteq> []" "last ss = ''*** End Patch''" by (auto split: if_splits)
      ultimately show ?thesis using Cons.IH [of md old1 del1 ins1 o' cs1 n1] by simp
    qed (use Cons.prems in auto)
  qed simp
  from this [OF p drop] have n: "i + n < length ls" by simp
  moreover have "i + n \<noteq> length ls - 1" if "ls ! (i + n) = ''*** End of File''"
    using that assms(3) n last_conv_nth [of ls] by (cases "ls = []") auto
  ultimately show "j < length ls" "eof \<Longrightarrow> ''*** End of File'' \<in> set ls"
    using j by (auto split: if_splits) (metis nth_mem)
qed

lemma find_context_core_start: "0 \<le> start \<Longrightarrow> find_context_core ls ctx start \<noteq> Inl e"
  by (auto simp: find_context_core_def try_find_match_def split: sum.splits option.splits)

lemma update_round_guarded:
  assumes "guarded p" "\<not> pp_done update_ends p"
  shows "update_round ls (i, cs, p) = Inr (i', cs', p') \<Longrightarrow> guarded p'"
    and "update_round ls (i, cs, p) = Inl (Patch_Panic e) \<Longrightarrow> eof_marked p"
proof -
  obtain d p1 p2 j fz ctx new e' eof where d: "pp_read ''@@ '' False p = (d, p1)"
    and p2_def: "p2 = (if d = [] \<and> pp_current p1 = Some ''@@'' then p1\<lparr>pp_index := pp_index p1 + 1\<rparr> else p1)"
    and peek: "peek_next_section (pp_lines p2) (pp_index p2) = (ctx, new, e', eof)"
    and body: "update_round ls (i, cs, p) =
      (if d = [] \<and> \<not> (d = [] \<and> pp_current p1 = Some ''@@'') \<and> i \<noteq> 0
       then (case pp_current p2 of
               None \<Rightarrow> Inl (Patch_Panic Out_Of_Range) | Some l \<Rightarrow> Inl (Diff_Error (''Invalid Line:'' @ [LF] @ l)))
       else case find_context ls ctx j eof of
              Inl x \<Rightarrow> Inl (Patch_Panic x)
            | Inr None \<Rightarrow> Inl (context_error j (join_with [LF] ctx) eof)
            | Inr (Some (k, fuzz)) \<Rightarrow>
                Inr (k + length ctx, cs @ map (shift_chunk k) new, p2\<lparr>pp_fuzz := pp_fuzz p2 + fz + fuzz, pp_index := e'\<rparr>))"
    by (rule update_round_eq)
  have g1: "guarded p1" by (rule guarded_read [OF assms(1) d end_patch_prefixes(1)])
  have g2: "guarded p2" using g1 guarded_step [OF g1] by (auto simp: p2_def)
  have same: "pp_lines p2 = pp_lines p" using pp_read_facts(1) [OF d] by (simp add: p2_def)
  note st = peek_stays [OF peek]
  show "update_round ls (i, cs, p) = Inr (i', cs', p') \<Longrightarrow> guarded p'"
    unfolding body using g2 st(1) by (auto simp: guarded_def split: if_splits option.splits sum.splits)
  assume "update_round ls (i, cs, p) = Inl (Patch_Panic e)"
  then consider "pp_current p2 = None" | "find_context ls ctx j eof = Inl e"
    unfolding body by (auto simp: context_error_def split: if_splits option.splits sum.splits)
  then show "eof_marked p"
  proof cases
    case 1
    with g2 show ?thesis by (simp add: pp_current_def guarded_def split: if_splits)
  next
    case 2
    then have eof using find_context_core_start by (auto simp: find_context_def split: if_splits)
    with st(2) g2 same show ?thesis by (simp add: eof_marked_def guarded_def)
  qed
qed

lemma update_loop_guarded:
  assumes "update_loop ls st = Some r" "guarded (snd (snd st))" "update_inv ls st"
  shows "(\<forall>cs' p'. r = Inr (cs', p') \<longrightarrow> guarded p') \<and> (\<forall>e. r = Inl (Patch_Panic e) \<longrightarrow> eof_marked (snd (snd st)))"
  using assms
proof (induction rule: update_loop.raw_induct [rotated 1, consumes 1])
  case (1 loop ls st r)
  obtain i cs p where st: "st = (i, cs, p)" by (metis prod_cases3)
  show ?case
  proof (cases "pp_done update_ends p")
    case True
    with 1(2,3) show ?thesis by (auto simp: st)
  next
    case False
    show ?thesis
    proof (cases "update_round ls st")
      case (Inl x)
      with 1(2) False have "r = Inl x" by (simp add: st)
      with Inl update_round_guarded(2) [of p ls i cs] False 1(3) show ?thesis by (auto simp: st)
    next
      case (Inr st1)
      obtain i1 cs1 p1 where s1: "st1 = (i1, cs1, p1)" by (metis prod_cases3)
      have round: "update_round ls (i, cs, p) = Inr (i1, cs1, p1)" using Inr by (simp add: st s1)
      from 1(2) False Inr have "loop ls st1 = Some r" by (simp add: st)
      moreover have "guarded p1" by (rule update_round_guarded(1) [OF _ False round]) (use 1(3) st in simp)
      moreover note inv = update_round_inv [OF round 1(4) [unfolded st]]
      ultimately show ?thesis using 1(1) [of ls st1 r] by (auto simp: st s1 same_input_def eof_marked_def)
    qed
  qed
qed

lemma add_lines_stop:
  "add_lines ls = Inr (xs, n) \<Longrightarrow> ls \<noteq> [] \<Longrightarrow> last ls = ''*** End Patch'' \<Longrightarrow> n < length ls"
proof (induction ls arbitrary: xs n)
  case (Cons l ls)
  have "l = ''*** End Patch'' \<Longrightarrow> list_ex (has_prefix l) add_ends" by (simp add: add_ends_def)
  with Cons show ?case by (cases "ls = []") (auto split: if_splits sum.splits)
qed simp

lemma add_lines_error: "add_lines ls \<noteq> Inl (Patch_Panic e)"
  by (induction ls) (auto split: sum.split)

definition calm_round :: "patch_parser \<Rightarrow> patch_stop + patch_parser \<Rightarrow> bool" where
  "calm_round p r \<longleftrightarrow> (\<forall>p'. r = Inr p' \<longrightarrow> guarded p') \<and> (\<forall>e. r = Inl (Patch_Panic e) \<longrightarrow> eof_marked p)"

lemma calm_file_error [simp]: "calm_round p (Inl (file_error a b c))"
  by (simp add: calm_round_def file_error_def)

lemma guarded_current: "guarded p \<Longrightarrow> pp_current p \<noteq> None"
  by (simp add: guarded_def pp_current_def)

lemma parse_update_calm:
  assumes "guarded p" "patch_inv p"
  shows "parse_update p = (Some (Some r), p1) \<Longrightarrow> calm_round p r" and "parse_update p = (None, p1) \<Longrightarrow> guarded p1"
proof -
  obtain f q where rd: "pp_read ''*** Update File: '' False p = (f, q)" by (cases "pp_read ''*** Update File: '' False p")
  obtain mv s where mv: "pp_read ''*** Move to: '' False q = (mv, s)" by (cases "pp_read ''*** Move to: '' False q")
  have q: "guarded q" by (rule guarded_read [OF assms(1) rd end_patch_prefixes(2)])
  have s: "guarded s" by (rule guarded_read [OF q mv end_patch_prefixes(3)])
  have same: "pp_lines s = pp_lines p" using pp_read_facts(1) [OF rd] pp_read_facts(1) [OF mv] by simp
  have inv: "update_inv ls (0, [], s)" for ls
    using pp_read_inv [OF mv pp_read_inv [OF rd assms(2)]] by (simp add: update_inv_def patch_inv_def)
  show "parse_update p = (None, p1) \<Longrightarrow> guarded p1"
    using q by (auto simp: parse_update_def rd mv Let_def split: if_splits option.splits)
  assume "parse_update p = (Some (Some r), p1)"
  then consider a b c where "r = Inl (file_error a b c)"
    | t e where "update_loop (split_on LF t) (0, [], s) = Some (Inl e)" "r = Inl e"
    | t cs s' p' where "update_loop (split_on LF t) (0, [], s) = Some (Inr (cs, s'))" "r = Inr p'"
        "pp_lines p' = pp_lines s'" "pp_index p' = pp_index s'"
    by (auto simp: parse_update_def parse_update_file_def rd mv Let_def split: if_splits option.splits sum.splits)
  then show "calm_round p r"
  proof cases
    case 2
    from update_loop_guarded [OF 2(1) _ inv] s 2(2) show ?thesis by (auto simp: calm_round_def eof_marked_def same)
  next
    case 3
    from update_loop_guarded [OF 3(1) _ inv] s 3(2-4) show ?thesis by (auto simp: calm_round_def guarded_def)
  qed simp
qed

lemma parse_delete_calm:
  assumes "guarded p"
  shows "parse_delete p = (Some r, p1) \<Longrightarrow> calm_round p r" and "parse_delete p = (None, p1) \<Longrightarrow> guarded p1"
proof -
  obtain f q where rd: "pp_read ''*** Delete File: '' False p = (f, q)" by (cases "pp_read ''*** Delete File: '' False p")
  have q: "guarded q" by (rule guarded_read [OF assms rd end_patch_prefixes(4)])
  show "parse_delete p = (Some r, p1) \<Longrightarrow> calm_round p r" "parse_delete p = (None, p1) \<Longrightarrow> guarded p1"
    using q by (auto simp: parse_delete_def rd calm_round_def guarded_def file_error_def split: if_splits)
qed

lemma parse_add_calm:
  assumes "guarded p"
  shows "parse_add p = (Some r, p1) \<Longrightarrow> calm_round p r" and "parse_add p = (None, p1) \<Longrightarrow> guarded p1"
proof -
  obtain f q where rd: "pp_read ''*** Add File: '' False p = (f, q)" by (cases "pp_read ''*** Add File: '' False p")
  have q: "guarded q" by (rule guarded_read [OF assms rd end_patch_prefixes(5)])
  show "parse_add p = (None, p1) \<Longrightarrow> guarded p1" using q by (auto simp: parse_add_def rd split: if_splits)
  assume "parse_add p = (Some r, p1)"
  then consider a b c where "r = Inl (file_error a b c)"
    | e where "add_lines (drop (pp_index q) (pp_lines q)) = Inl e" "r = Inl e"
    | xs n p' where "add_lines (drop (pp_index q) (pp_lines q)) = Inr (xs, n)" "r = Inr p'"
        "pp_lines p' = pp_lines q" "pp_index p' = pp_index q + n"
    by (auto simp: parse_add_def parse_add_file_def rd split: if_splits sum.splits)
  then show "calm_round p r"
  proof cases
    case 2
    then show ?thesis using add_lines_error by (auto simp: calm_round_def)
  next
    case 3
    with add_lines_stop [OF 3(1)] q show ?thesis by (auto simp: calm_round_def guarded_def)
  qed simp
qed

lemma parse_round_calm:
  assumes "guarded p" "patch_inv p" "parse_round p = Some r"
  shows "calm_round p r"
proof -
  obtain a p1 where u: "parse_update p = (a, p1)" by (cases "parse_update p")
  obtain b p2 where d: "parse_delete p1 = (b, p2)" by (cases "parse_delete p1")
  obtain c p3 where e: "parse_add p2 = (c, p3)" by (cases "parse_add p2")
  show ?thesis
  proof (cases a)
    case (Some x)
    with assms u parse_update_calm(1) [OF assms(1,2), of r p1] show ?thesis by (simp add: parse_round_def)
  next
    case None
    with u parse_update_calm(2) [OF assms(1,2)] parse_update_inv(2) [OF assms(2)]
    have p1: "guarded p1" "pp_lines p1 = pp_lines p" by (auto simp: same_input_def)
    show ?thesis
    proof (cases b)
      case (Some x)
      with assms u None d parse_delete_calm(1) [OF p1(1), of r p2] p1(2) show ?thesis
        by (simp add: parse_round_def calm_round_def eof_marked_def)
    next
      case None2: None
      with d parse_delete_calm(2) [OF p1(1)] have p2: "guarded p2" by simp
      have "pp_lines p2 = pp_lines p1" using d None2
        by (auto simp: parse_delete_def split: prod.splits if_splits dest: pp_read_facts(1))
      with assms u None d e None2 parse_add_calm [OF p2] p1(2) guarded_current [of p3] show ?thesis
        by (cases c) (auto simp: parse_round_def calm_round_def eof_marked_def)
    qed
  qed
qed

lemma parse_loop_calm:
  assumes "parse_loop p = Some r" "guarded p" "patch_inv p"
  shows "\<forall>e. r = Inl (Patch_Panic e) \<longrightarrow> eof_marked p"
  using assms
proof (induction rule: parse_loop.raw_induct [rotated 1, consumes 1])
  case (1 loop p r)
  show ?case
  proof (cases "pp_done [''*** End Patch''] p")
    case True
    with 1(2) guarded_current [OF 1(3)] show ?thesis by (auto simp: pp_starts_with_def split: option.splits if_splits)
  next
    case False
    with 1(2) obtain x where x: "parse_round p = Some x" by (auto split: option.splits)
    note calm = parse_round_calm [OF 1(3,4) x]
    show ?thesis
    proof (cases x)
      case (Inl e)
      with 1(2) False x calm show ?thesis by (auto simp: calm_round_def)
    next
      case (Inr q)
      note inv = parse_round_inv [OF 1(4) x [unfolded Inr]]
      from 1(2) False x Inr have "loop q = Some r" by simp
      with 1(1) [of q r] inv calm Inr show ?thesis by (auto simp: calm_round_def same_input_def eof_marked_def)
    qed
  qed
qed

section \<open>Texts\<close>

text \<open>The text of a patch with given lines between the first and the last.\<close>

definition patch_text :: "string list \<Rightarrow> string" where
  "patch_text ls = join_with [LF] (''*** Begin Patch'' # ls @ [''*** End Patch''])"

lemma trim_space_ends:
  assumes "s \<noteq> []" "hd s = CHR ''*''" "word_char (last s)"
  shows "trim_space s = s"
  by (rule trim_space_id [OF assms(1) _ assms(3)]) (simp add: assms(2) word_char_def)

lemma patch_text_lines:
  assumes "\<forall>l \<in> set ls. LF \<notin> set l"
  shows "split_on LF (trim_space (patch_text ls)) = ''*** Begin Patch'' # ls @ [''*** End Patch'']"
    "has_prefix (patch_text ls) ''*** Begin Patch''"
proof -
  have head: "patch_text ls = ''*** Begin Patch'' @ [LF] @ join_with [LF] (ls @ [''*** End Patch''])"
    unfolding patch_text_def by (cases "ls @ [''*** End Patch'']") simp_all
  show "has_prefix (patch_text ls) ''*** Begin Patch''" unfolding head by (rule has_prefix_append)
  have "\<exists>r. patch_text ls = r @ ''*** End Patch''"
    unfolding patch_text_def using join_with_append [of "''*** Begin Patch'' # ls" "[''*** End Patch'']" "[LF]"] by auto
  then obtain r where r: "patch_text ls = r @ ''*** End Patch''" by blast
  have "trim_space (patch_text ls) = patch_text ls"
    by (rule trim_space_ends) (simp add: head, simp add: head, simp add: r word_char_def)
  moreover have "split_on LF (patch_text ls) = ''*** Begin Patch'' # ls @ [''*** End Patch'']"
    unfolding patch_text_def by (rule split_on_join) (use assms in auto)
  ultimately show "split_on LF (trim_space (patch_text ls)) = ''*** Begin Patch'' # ls @ [''*** End Patch'']" by simp
qed

definition text_parser :: "loaded \<Rightarrow> string list \<Rightarrow> patch_parser" where
  "text_parser orig ls = (new_patch_parser orig (''*** Begin Patch'' # ls @ [''*** End Patch'']))\<lparr>pp_index := 1\<rparr>"

lemma text_to_patch_text:
  assumes "\<forall>l \<in> set ls. LF \<notin> set l"
  shows "text_to_patch (patch_text ls) orig =
    (case parse_loop (text_parser orig ls) of
       None \<Rightarrow> None | Some (Inl e) \<Rightarrow> Some (Inl e) | Some (Inr p) \<Rightarrow> Some (Inr (pp_actions p, pp_fuzz p)))"
  by (simp add: text_to_patch_def patch_text_lines [OF assms] text_parser_def Let_def)

text \<open>The first round over a text that updates one file.\<close>

lemma first_update:
  assumes "f \<noteq> []" "map_of orig f = Some t" "\<not> has_prefix l ''*** Move to: ''"
  shows "parse_loop (text_parser orig ((''*** Update File: '' @ f) # l # ls)) =
    (case update_loop (split_on LF t) (0, [], (text_parser orig ((''*** Update File: '' @ f) # l # ls))\<lparr>pp_index := 2\<rparr>) of
       None \<Rightarrow> None
     | Some (Inl e) \<Rightarrow> Some (Inl e)
     | Some (Inr (cs, p)) \<Rightarrow>
         parse_loop (p\<lparr>pp_actions := aput f \<lparr>pa_type = Action_Update, pa_new = None, pa_chunks = cs, pa_move = None\<rparr> (pp_actions p)\<rparr>))"
proof -
  let ?p = "text_parser orig ((''*** Update File: '' @ f) # l # ls)"
  have c: "pp_current ?p = Some (''*** Update File: '' @ f)" by (simp add: text_parser_def new_patch_parser_def pp_current_def)
  have nd: "\<not> pp_done [''*** End Patch''] ?p" unfolding pp_done_def c by simp
  have "pp_read ''*** Update File: '' False ?p = (f, ?p\<lparr>pp_index := 2\<rparr>)"
    using c by (simp add: pp_read_def text_parser_def)
  moreover have "pp_read ''*** Move to: '' False (?p\<lparr>pp_index := 2\<rparr>) = ([], ?p\<lparr>pp_index := 2\<rparr>)"
    using assms(3) by (simp add: pp_read_def pp_current_def text_parser_def new_patch_parser_def)
  ultimately have "parse_update ?p = (Some (case parse_update_file t (?p\<lparr>pp_index := 2\<rparr>) of
        None \<Rightarrow> None
      | Some (Inl e) \<Rightarrow> Some (Inl e)
      | Some (Inr (a, p3)) \<Rightarrow> Some (Inr (p3\<lparr>pp_actions := aput f a (pp_actions p3)\<rparr>))), ?p\<lparr>pp_index := 2\<rparr>)"
    using assms(1,2) by (simp add: parse_update_def text_parser_def new_patch_parser_def split: option.split sum.split)
  then show ?thesis using nd
    by (subst parse_loop.simps) (simp add: parse_round_def parse_update_file_def split: option.split sum.split)
qed

text \<open>A marker that nothing consumes: the round changes nothing.\<close>

lemma stray_marker_round:
  assumes "pp_current p = Some l" "ends_section l" "\<not> fine_line l"
  shows "update_round ls (0, cs, p) = Inr (0, cs, p)"
proof -
  have l: "\<not> has_prefix l ''@@ ''" "l \<noteq> ''@@''" "l \<noteq> ''*** End of File''"
    using assms(2,3) by (auto simp: fine_line_def update_ends_def)
  have here: "pp_index p < length (pp_lines p)" "pp_lines p ! pp_index p = l"
    using assms(1) by (simp_all add: pp_current_def split: if_splits)
  have "pp_read ''@@ '' False p = ([], p)" using assms(1) l(1) by (simp add: pp_read_def)
  moreover have "drop (pp_index p) (pp_lines p) = l # drop (Suc (pp_index p)) (pp_lines p)"
    using here by (metis Cons_nth_drop_Suc)
  then have "peek_next_section (pp_lines p) (pp_index p) = ([], [], pp_index p, False)"
    using assms(2) l(3) here by (simp add: peek_next_section_def flush_chunk_def)
  moreover have "seek_line ls [] 0 = (0, 0)" by (simp add: seek_line_def)
  ultimately show ?thesis
    using assms(1) l(2) by (simp add: update_round_def find_context_def find_context_core_def)
qed

text \<open>Removing and adding lines.\<close>

lemma peek_deletes:
  "peek_loop mode old del ins (map ((#) CHR ''-'') xs @ ss) =
   (let (o', cs, n) = peek_loop (if xs = [] then mode else Peek_Delete) (old @ xs) (del @ xs) ins ss in (o', cs, length xs + n))"
proof (induction xs arbitrary: mode old del)
  case (Cons x xs)
  have "\<not> ends_section (CHR ''-'' # x)" "peek_line (CHR ''-'' # x) = (Peek_Delete, x)"
    by (simp_all add: ends_section_def peek_line_def)
  then show ?case using Cons.IH [of Peek_Delete "old @ [x]" "del @ [x]"] by (simp add: Let_def split: prod.split)
qed simp

lemma peek_adds:
  "peek_loop mode old del ins (map ((#) CHR ''+'') xs @ ss) =
   (let (o', cs, n) = peek_loop (if xs = [] then mode else Peek_Add) old del (ins @ xs) ss in (o', cs, length xs + n))"
proof (induction xs arbitrary: mode ins)
  case (Cons x xs)
  have "\<not> ends_section (CHR ''+'' # x)" "peek_line (CHR ''+'' # x) = (Peek_Add, x)"
    by (simp_all add: ends_section_def peek_line_def)
  then show ?case using Cons.IH [of Peek_Add "ins @ [x]"] by (simp add: Let_def split: prod.split)
qed simp

lemma peek_keeps:
  "peek_loop Peek_Keep old [] [] (map ((#) CHR '' '') xs @ ss) =
   (let (o', cs, n) = peek_loop Peek_Keep (old @ xs) [] [] ss in (o', cs, length xs + n))"
proof (induction xs arbitrary: old)
  case (Cons x xs)
  have "\<not> ends_section (CHR '' '' # x)" "peek_line (CHR '' '' # x) = (Peek_Keep, x)"
    by (simp_all add: ends_section_def peek_line_def)
  then show ?case using Cons.IH [of "old @ [x]"] by (simp add: Let_def split: prod.split)
qed simp

text \<open>The patch that replaces all lines of a file.\<close>

definition rewrite_lines :: "path \<Rightarrow> string \<Rightarrow> string \<Rightarrow> string list" where
  "rewrite_lines f old new =
     (''*** Update File: '' @ f) # map ((#) CHR ''-'') (split_on LF old) @ map ((#) CHR ''+'') (split_on LF new)"

definition rewrite_action :: "string \<Rightarrow> string \<Rightarrow> patch_action" where
  "rewrite_action old new =
     \<lparr>pa_type = Action_Update, pa_new = None,
      pa_chunks = [\<lparr>ck_index = 0, ck_del = split_on LF old, ck_ins = split_on LF new\<rparr>], pa_move = None\<rparr>"

lemma rewrite_lines_flat: "LF \<notin> set f \<Longrightarrow> \<forall>l \<in> set (rewrite_lines f old new). LF \<notin> set l"
  using split_on_pieces [of _ LF old] split_on_pieces [of _ LF new] by (auto simp: rewrite_lines_def)

lemma rewrite_peek:
  "peek_next_section (''*** Begin Patch'' # rewrite_lines f old new @ [''*** End Patch'']) 2 =
     (split_on LF old, [\<lparr>ck_index = 0, ck_del = split_on LF old, ck_ins = split_on LF new\<rparr>],
      2 + length (split_on LF old) + length (split_on LF new), False)"
  (is "peek_next_section ?ls 2 = _")
proof -
  let ?xs = "split_on LF old" and ?ys = "split_on LF new"
  have "drop 2 ?ls = map ((#) CHR ''-'') ?xs @ map ((#) CHR ''+'') ?ys @ [''*** End Patch'']"
    by (simp add: rewrite_lines_def numeral_2_eq_2)
  then have loop: "peek_loop Peek_Keep [] [] [] (drop 2 ?ls) =
      (?xs, [\<lparr>ck_index = 0, ck_del = ?xs, ck_ins = ?ys\<rparr>], length ?xs + length ?ys)"
    by (simp add: peek_deletes peek_adds end_patch_prefixes flush_chunk_def)
  have "?ls ! (2 + (length ?xs + length ?ys)) = ''*** End Patch''"
    by (simp add: rewrite_lines_def nth_append)
  then show ?thesis unfolding peek_next_section_def loop by simp
qed

lemma lines_match_all: "lines_match (=) ls ls 0"
  by (simp add: lines_match_eq)

lemma find_whole: "ls \<noteq> [] \<Longrightarrow> find_context ls ls 0 False = Inr (Some (0, 0))"
  using lines_match_all [of ls]
  by (simp add: find_context_def find_context_core_def try_find_match_def first_from_def upt_conv_Cons)

lemma rewrite_parses:
  assumes "f \<noteq> []" "LF \<notin> set f" "map_of orig f = Some old"
  shows "text_to_patch (patch_text (rewrite_lines f old new)) orig = Some (Inr ([(f, rewrite_action old new)], 0))"
proof -
  let ?xs = "split_on LF old" and ?ys = "split_on LF new"
  let ?ls = "rewrite_lines f old new" and ?n = "2 + length (split_on LF old) + length (split_on LF new)"
  let ?p = "(text_parser orig ?ls)\<lparr>pp_index := 2\<rparr>"
  obtain x xs where xs: "?xs = x # xs" by (cases ?xs) auto
  have ls: "?ls = (''*** Update File: '' @ f) # (CHR ''-'' # x) # map ((#) CHR ''-'') xs @ map ((#) CHR ''+'') ?ys"
    by (simp add: rewrite_lines_def xs)
  have cur: "pp_current ?p = Some (CHR ''-'' # x)"
    by (simp add: pp_current_def text_parser_def new_patch_parser_def ls)
  have lines: "pp_lines ?p = ''*** Begin Patch'' # ?ls @ [''*** End Patch'']" "pp_index ?p = 2"
    by (simp_all add: text_parser_def new_patch_parser_def)
  have rd: "pp_read ''@@ '' False ?p = ([], ?p)" unfolding pp_read_def cur by simp
  have seek: "seek_line ?xs [] 0 = (0, 0)" by (simp add: seek_line_def)
  have round: "update_round ?xs (0, [], ?p) =
      Inr (length ?xs, [\<lparr>ck_index = 0, ck_del = ?xs, ck_ins = ?ys\<rparr>], ?p\<lparr>pp_fuzz := 0, pp_index := ?n\<rparr>)"
    unfolding update_round_def Let_def prod.case rd
    using cur by (simp add: lines rewrite_peek find_whole seek shift_chunk_def) (simp add: text_parser_def new_patch_parser_def)
  let ?q = "?p\<lparr>pp_fuzz := 0, pp_index := ?n\<rparr>"
  have last_line: "(''*** Begin Patch'' # ?ls @ [''*** End Patch'']) ! ?n = ''*** End Patch''"
    "?n < length (''*** Begin Patch'' # ?ls @ [''*** End Patch''])"
    by (simp_all add: rewrite_lines_def nth_append)
  have end_line: "pp_current q = Some ''*** End Patch''" if "pp_lines q = pp_lines ?p" "pp_index q = ?n" for q
    using that last_line unfolding pp_current_def lines by simp
  have "\<not> pp_done update_ends ?p" unfolding pp_done_def cur by (simp add: update_ends_def)
  moreover have "pp_done update_ends ?q" unfolding pp_done_def using end_line [of ?q] by (simp add: update_ends_def)
  ultimately have loop: "update_loop ?xs (0, [], ?p) = Some (Inr ([\<lparr>ck_index = 0, ck_del = ?xs, ck_ins = ?ys\<rparr>], ?q))"
    by (subst update_loop.simps, simp add: round, subst update_loop.simps, simp)
  have fin: "parse_loop q = Some (Inr (q\<lparr>pp_index := pp_index q + 1\<rparr>))" if "pp_current q = Some ''*** End Patch''" for q
    using that by (subst parse_loop.simps) (simp add: pp_done_def pp_starts_with_def)
  let ?r = "?q\<lparr>pp_actions := aput f (rewrite_action old new) (pp_actions ?q)\<rparr>"
  have "parse_loop (text_parser orig ?ls) = parse_loop ?r"
    using first_update [OF assms(1,3), of "CHR ''-'' # x" "map ((#) CHR ''-'') xs @ map ((#) CHR ''+'') ?ys"]
    unfolding ls [symmetric] loop rewrite_action_def by simp
  also have "\<dots> = Some (Inr (?r\<lparr>pp_index := pp_index ?r + 1\<rparr>))" by (rule fin, rule end_line) simp_all
  finally show ?thesis
    unfolding text_to_patch_text [OF rewrite_lines_flat [OF assms(2)]]
    by simp (simp add: text_parser_def new_patch_parser_def)
qed

lemma rewrite_updates: "updated_file old (rewrite_action old new) f = Inr new"
  by (simp add: updated_file_def rewrite_action_def join_split_on)

lemma rewrite_commit:
  assumes "map_of orig f = Some old"
  shows "commit_actions orig [(f, rewrite_action old new)] =
    Inr [(f, \<lparr>fc_type = Action_Update, fc_old = Some old, fc_new = Some new, fc_move = None\<rparr>)]"
proof -
  have "pa_type (rewrite_action old new) = Action_Update" "pa_move (rewrite_action old new) = None"
    by (simp_all add: rewrite_action_def)
  then show ?thesis using assms by (simp add: action_change_def content_of_def rewrite_updates)
qed

section \<open>Panics of a marked end\<close>

definition eof_lines :: "path \<Rightarrow> string list \<Rightarrow> string list" where
  "eof_lines f ctx = (''*** Update File: '' @ f) # map ((#) CHR '' '') ctx @ [''*** End of File'']"

lemma eof_peek:
  "peek_next_section (''*** Begin Patch'' # eof_lines f ctx @ [''*** End Patch'']) 2 = (ctx, [], 3 + length ctx, True)"
  (is "peek_next_section ?ls 2 = _")
proof -
  have "drop 2 ?ls = map ((#) CHR '' '') ctx @ [''*** End of File'', ''*** End Patch'']"
    by (simp add: eof_lines_def numeral_2_eq_2)
  then have loop: "peek_loop Peek_Keep [] [] [] (drop 2 ?ls) = (ctx, [], length ctx)"
    by (simp add: peek_keeps flush_chunk_def) (simp add: ends_section_def)
  have "?ls ! (2 + length ctx) = ''*** End of File''" by (simp add: eof_lines_def nth_append)
  then show ?thesis unfolding peek_next_section_def loop by (simp add: eof_lines_def)
qed

definition fair_walks :: "walks \<Rightarrow> bool" where
  "fair_walks wk \<longleftrightarrow> (\<forall>xs. mset (wk_paths wk xs) = mset xs) \<and> (\<forall>xs. mset (wk_actions wk xs) = mset xs) \<and>
     (\<forall>xs. mset (wk_changes wk xs) = mset xs)"

lemma fair_single:
  assumes "fair_walks wk"
  shows "wk_paths wk [x] = [x]" "wk_actions wk [y] = [y]" "wk_changes wk [z] = [z]"
  using assms unfolding fair_walks_def by (metis mset_single_iff mset.simps)+

lemma rewrite_needs:
  assumes "LF \<notin> set f" "fair_walks wk"
  shows "identify_files_needed (wk_paths wk) (patch_text (rewrite_lines f old new)) = [f]"
proof -
  have none: "filter (\<lambda>l. has_prefix l (CHR ''*'' # r)) (map ((#) CHR ''-'') xs) = []"
    "filter (\<lambda>l. has_prefix l (CHR ''*'' # r)) (map ((#) CHR ''+'') xs) = []" for r xs
    by (induction xs) simp_all
  show ?thesis
    unfolding identify_files_needed_def patch_text_lines(1) [OF rewrite_lines_flat [OF assms(1)]]
    by (simp add: rewrite_lines_def paths_after_def none fair_single [OF assms(2)])
qed

section \<open>Properties\<close>

text \<open> C24: a patch that parses without fuzz replaces exactly what it says: the lines of an updated file are
  the kept pieces with the deleted lines of the chunks between them, and the new content is the same
  pieces with the inserted lines. \<close>

theorem agent_patch_splices:
  assumes "text_to_patch text orig = Some (Inr (patch, 0))" "\<And>x. set (walk x) = set x"
    and "patch_to_commit walk patch orig = Inr c" "(f, x) \<in> set c" "fc_type x = Action_Update"
  shows "\<exists>a old keeps rest. (f, a) \<in> set patch \<and> map_of orig f = Some old \<and> fc_old x = Some old \<and>
    length keeps = length (pa_chunks a) \<and> split_on LF old = weave keeps (map ck_del (pa_chunks a)) @ rest \<and>
    fc_new x = Some (join_with [LF] (weave keeps (map ck_ins (pa_chunks a)) @ rest)) \<and> fc_move x = pa_move a"
proof -
  have "\<exists>a. (f, a) \<in> set as \<and> action_change orig f a = Inr x" if "commit_actions orig as = Inr c" "(f, x) \<in> set c" for as c
    using that by (induction orig as arbitrary: c rule: commit_actions.induct) (fastforce split: sum.splits)+
  from this [OF assms(3) [unfolded patch_to_commit_def] assms(4)] obtain a where
    a: "(f, a) \<in> set patch" "action_change orig f a = Inr x" using assms(2) by blast
  then have upd: "pa_type a = Action_Update" using assms(5) by (auto simp: action_change_def split: action_type.splits)
  from text_to_patch_fits(2) [OF assms(1) a(1)] upd obtain old where
    old: "map_of orig f = Some old" "\<forall>k \<in> set (pa_chunks a). chunk_exact (split_on LF old) k"
    by (auto simp: action_fits_def)
  with a(2) upd obtain ls where ls: "apply_chunks f (split_on LF old) 0 (pa_chunks a) = Inr ls"
    and x: "fc_old x = Some old" "fc_new x = Some (join_with [LF] ls)" "fc_move x = pa_move a"
    by (auto simp: action_change_def updated_file_def content_of_def split: sum.splits)
  from apply_chunks_weave [OF ls old(2)] obtain keeps rest where "length keeps = length (pa_chunks a)"
    "split_on LF old = weave keeps (map ck_del (pa_chunks a)) @ rest" "ls = weave keeps (map ck_ins (pa_chunks a)) @ rest"
    by auto
  with a old x show ?thesis by blast
qed

definition ex_walks :: walks where
  "ex_walks = \<lparr>wk_paths = id, wk_actions = id, wk_changes = id\<rparr>"

lemma ex_walks_fair: "fair_walks ex_walks"
  by (simp add: fair_walks_def ex_walks_def)

lemma ex_rewrite:
  "text_to_patch (patch_text (rewrite_lines ''f'' ''a'' ''b'')) [(''f'', ''a'')] = Some (Inr ([(''f'', rewrite_action ''a'' ''b'')], 0))"
  by (rule rewrite_parses) simp_all

lemma agent_patch_splices_witness:
  "\<exists>c x. patch_to_commit id [(''f'', rewrite_action ''a'' ''b'')] [(''f'', ''a'')] = Inr c \<and> (''f'', x) \<in> set c \<and>
     fc_old x = Some ''a''"
proof -
  let ?x = "\<lparr>fc_type = Action_Update, fc_old = Some ''a'', fc_new = Some ''b'', fc_move = None\<rparr>"
  have c: "patch_to_commit id [(''f'', rewrite_action ''a'' ''b'')] [(''f'', ''a'')] = Inr [(''f'', ?x)]"
    unfolding patch_to_commit_def id_apply by (rule rewrite_commit) simp
  from agent_patch_splices [OF ex_rewrite _ c, of "''f''" ?x] c show ?thesis by auto
qed

text \<open> For any two contents of a file there is a patch that turns one into the other: the patch that
  removes all old lines and adds all new ones is valid, and its process only writes the new content. \<close>

theorem agent_rewrite_applies:
  assumes "f \<noteq> []" "LF \<notin> set f" "fair_walks wk" "map_of files f = Some old" "open f s = Some old"
  shows "validate_patch wk (patch_text (rewrite_lines f old new)) files = Some (Inr (True, ''Patch is valid'')) \<and>
    process_patch wk (patch_text (rewrite_lines f old new)) open wr rm s =
      Some (map_option Diff_Error (fst (wr f new s)), snd (wr f new s))"
proof -
  let ?t = "patch_text (rewrite_lines f old new)"
  note needs = rewrite_needs [OF assms(2,3)] and start = patch_text_lines(2) [OF rewrite_lines_flat [OF assms(2)]]
  have commit: "patch_to_commit (wk_actions wk) [(f, rewrite_action old new)] orig =
      Inr [(f, \<lparr>fc_type = Action_Update, fc_old = Some old, fc_new = Some new, fc_move = None\<rparr>)]" if "map_of orig f = Some old" for orig
    by (simp only: patch_to_commit_def fair_single [OF assms(3)] rewrite_commit [OF that])
  have "validate_patch wk ?t files = Some (Inr (True, ''Patch is valid''))"
    using assms(4) by (simp add: validate_patch_def start needs rewrite_parses [OF assms(1,2,4)] commit)
  moreover have "text_to_patch ?t [(f, old)] = Some (Inr ([(f, rewrite_action old new)], 0))"
    by (rule rewrite_parses [OF assms(1,2)]) simp
  then have "process_patch wk ?t open wr rm s = Some (map_option Diff_Error (fst (wr f new s)), snd (wr f new s))"
    using assms(5) by (simp add: process_patch_def start needs commit apply_commit_def fair_single [OF assms(3)] apply_change_def
        split: prod.split option.split)
  ultimately show ?thesis by simp
qed

lemma agent_rewrite_applies_witness:
  "process_patch ex_walks (patch_text (rewrite_lines ''f'' ''a'' ''b'')) (\<lambda>f s. map_of s f) (\<lambda>f t s. (None, aput f t s))
     (\<lambda>f s. (None, adel f s)) [(''f'', ''a'')] = Some (None, [(''f'', ''b'')])"
  using agent_rewrite_applies [of "''f''" ex_walks "[(''f'', ''a'')]" "''a''" "\<lambda>f s. map_of s f" "[(''f'', ''a'')]" "''b''"
      "\<lambda>f t s. (None, aput f t s)" "\<lambda>f s. (None, adel f s)"] ex_walks_fair by simp



text \<open> Any other marker line at the start of an update makes the parser run forever. \<close>

theorem stray_marker_hangs:
  assumes "f \<noteq> []" "map_of orig f = Some t" "LF \<notin> set f" "\<forall>x \<in> set (l # rest). LF \<notin> set x"
    and "ends_section l" "\<not> fine_line l" "\<not> has_prefix l ''*** Move to: ''"
  shows "text_to_patch (patch_text ((''*** Update File: '' @ f) # l # rest)) orig = None"
proof -
  let ?ls = "(''*** Update File: '' @ f) # l # rest"
  let ?p = "(text_parser orig ?ls)\<lparr>pp_index := 2\<rparr>"
  have cur: "pp_current ?p = Some l" by (simp add: pp_current_def text_parser_def new_patch_parser_def)
  then have "\<not> pp_done update_ends ?p" using assms(6) by (simp add: pp_done_def fine_line_def)
  with update_loop_stuck [of _ "(0, [], ?p)"] stray_marker_round [OF cur assms(5,6)]
  have "update_loop (split_on LF t) (0, [], ?p) = None" by simp
  moreover have "\<forall>x \<in> set ?ls. LF \<notin> set x" using assms(3,4) by auto
  ultimately show ?thesis using first_update [OF assms(1,2,7), of rest] by (simp add: text_to_patch_text)
qed

lemma stray_marker_hangs_witness:
  "text_to_patch (patch_text [''*** Update File: f'', ''@@a'', ''+b'']) [(''f'', ''a'')] = None"
  using stray_marker_hangs [of "''f''" "[(''f'', ''a'')]" "''a''" "''@@a''" "[''+b'']"]
  by (simp add: fine_line_def ends_section_def update_ends_def)

text \<open> At the mark for the end of the file, a context longer than the file makes the parser panic. \<close>

theorem eof_context_panics:
  assumes "f \<noteq> []" "map_of orig f = Some t" "LF \<notin> set f" "\<forall>x \<in> set ctx. LF \<notin> set x"
    and "length (split_on LF t) < length ctx"
  shows "text_to_patch (patch_text (eof_lines f ctx)) orig = Some (Inl (Patch_Panic Out_Of_Range))"
proof -
  let ?p = "(text_parser orig (eof_lines f ctx))\<lparr>pp_index := 2\<rparr>" and ?ts = "split_on LF t"
  obtain x xs where ctx: "ctx = x # xs" using assms(5) by (cases ctx) auto
  have ls: "eof_lines f ctx = (''*** Update File: '' @ f) # (CHR '' '' # x) # map ((#) CHR '' '') xs @ [''*** End of File'']"
    by (simp add: eof_lines_def ctx)
  have cur: "pp_current ?p = Some (CHR '' '' # x)"
    by (simp add: pp_current_def text_parser_def new_patch_parser_def ls)
  have lines: "pp_lines ?p = ''*** Begin Patch'' # eof_lines f ctx @ [''*** End Patch'']" "pp_index ?p = 2"
    by (simp_all add: text_parser_def new_patch_parser_def)
  have rd: "pp_read ''@@ '' False ?p = ([], ?p)" unfolding pp_read_def cur by simp
  have find: "find_context ?ts ctx 0 True = Inl Out_Of_Range"
    using assms(5) by (simp add: find_context_def find_context_core_def try_find_match_def ctx)
  have seek: "seek_line ?ts [] 0 = (0, 0)" by (simp add: seek_line_def)
  have "update_round ?ts (0, [], ?p) = Inl (Patch_Panic Out_Of_Range)"
    unfolding update_round_def Let_def prod.case rd using cur by (simp add: lines eof_peek seek find)
  moreover have "\<not> pp_done update_ends ?p" unfolding pp_done_def cur by (simp add: update_ends_def)
  ultimately have "update_loop ?ts (0, [], ?p) = Some (Inl (Patch_Panic Out_Of_Range))" by (subst update_loop.simps) simp
  moreover have "\<forall>x \<in> set (eof_lines f ctx). LF \<notin> set x" using assms(3,4) by (auto simp: eof_lines_def)
  moreover have "\<not> has_prefix (CHR '' '' # x) ''*** Move to: ''" by simp
  ultimately show ?thesis
    using first_update [OF assms(1,2), of "CHR '' '' # x" "map ((#) CHR '' '') xs @ [''*** End of File'']"]
    unfolding ls [symmetric] by (simp only: text_to_patch_text option.case sum.case not_False_eq_True simp_thms)
qed

lemma eof_context_panics_witness:
  "text_to_patch (patch_text (eof_lines ''f'' [''a'', ''b''])) [(''f'', ''a'')] = Some (Inl (Patch_Panic Out_Of_Range))"
  using eof_context_panics [of "''f''" "[(''f'', ''a'')]" "''a''" "[''a'', ''b'']"] by simp

text \<open> This is the only way to a panic: a text on which the parser panics has a line that marks the end of
  the file, and the commit of a patch that parses never panics. \<close>

theorem agent_patch_panics_at_eof_only:
  "(text_to_patch text orig = Some (Inl (Patch_Panic e)) \<longrightarrow> ''*** End of File'' \<in> set (split_on LF (trim_space text))) \<and>
   (text_to_patch text orig = Some (Inr (patch, fuzz)) \<longrightarrow> (\<forall>x. set (walk x) = set x) \<longrightarrow>
      patch_to_commit walk patch orig \<noteq> Inl (Patch_Panic e))"
proof (intro conjI impI)
  let ?ls = "split_on LF (trim_space text)"
  let ?p = "(new_patch_parser orig ?ls)\<lparr>pp_index := 1\<rparr>"
  assume panic: "text_to_patch text orig = Some (Inl (Patch_Panic e))"
  then have "2 \<le> length ?ls" "last ?ls = ''*** End Patch''" "parse_loop ?p = Some (Inl (Patch_Panic e))"
    by (auto simp: text_to_patch_def Let_def split: if_splits option.splits sum.splits)
  moreover from this have "guarded ?p" by (simp add: guarded_def new_patch_parser_def)
  moreover have "patch_inv ?p" by (simp add: patch_inv_def new_patch_parser_def)
  ultimately have "eof_marked ?p" using parse_loop_calm by blast
  then show "''*** End of File'' \<in> set ?ls" by (simp add: eof_marked_def new_patch_parser_def)
next
  assume parsed: "text_to_patch text orig = Some (Inr (patch, fuzz))" and walk: "\<forall>x. set (walk x) = set x"
  have one: "action_change orig f a \<noteq> Inl (Patch_Panic e)" if "(f, a) \<in> set patch" for f a
    using text_to_patch_fits(2) [OF parsed that] apply_chunks_no_panic [of "pa_chunks a" _ 0 f e]
    by (auto simp: action_change_def action_fits_def updated_file_def content_of_def split: action_type.splits sum.splits)
  have "commit_actions orig as \<noteq> Inl (Patch_Panic e)" if "\<forall>(f, a) \<in> set as. action_change orig f a \<noteq> Inl (Patch_Panic e)" for as
    using that by (induction orig as rule: commit_actions.induct) (auto split: sum.splits)
  moreover have "\<forall>(f, a) \<in> set (walk patch). action_change orig f a \<noteq> Inl (Patch_Panic e)" using one walk by auto
  ultimately show "patch_to_commit walk patch orig \<noteq> Inl (Patch_Panic e)" unfolding patch_to_commit_def by blast
qed

lemma agent_patch_panics_at_eof_only_witness:
  "''*** End of File'' \<in> set (split_on LF (trim_space (patch_text (eof_lines ''f'' [''a'', ''b'']))))"
proof -
  have "text_to_patch (patch_text (eof_lines ''f'' [''a'', ''b''])) [(''f'', ''a'')] = Some (Inl (Patch_Panic Out_Of_Range))"
    by code_simp
  with agent_patch_panics_at_eof_only [of "patch_text (eof_lines ''f'' [''a'', ''b''])" "[(''f'', ''a'')]" Out_Of_Range]
  show ?thesis by blast
qed

end
