(* ===== verification/Agent_Store.thy ===== *)
theory Agent_Store
  imports Disk "HOL-Library.Multiset"
begin

text \<open>
  What the tools of the terminal client keep between calls: the permissions of
  \<open>cli/internal/permission/permission.go\<close> and the file history of \<open>cli/internal/history/file.go\<close>
  over the queries of \<open>cli/internal/db/files.sql.go\<close>.

  The answer of the user to a request is a parameter; the parameters of a request, which are only
  shown, are left out, and so is the wait for the answer. The table of files is the list of its rows
  in the order of insertion. Rows with one \<open>created_at\<close>, a time in seconds, come in an order that
  SQL leaves open: the sort is a parameter. The database fails only on its uniqueness constraint.
\<close>

section \<open>Permissions\<close>

record permission_request =
  pq_session :: string
  pq_tool :: string
  pq_description :: string
  pq_action :: string
  pq_path :: path

datatype user_answer = Grant | Grant_Persistent | Deny

record permissions =
  pm_granted :: "permission_request list"
  pm_auto :: "string list"

definition new_permissions :: permissions where
  "new_permissions = \<lparr>pm_granted = [], pm_auto = []\<rparr>"

definition auto_approve_session :: "string \<Rightarrow> permissions \<Rightarrow> permissions" where
  "auto_approve_session i s = s\<lparr>pm_auto := pm_auto s @ [i]\<rparr>"

definition grant_persistent :: "permission_request \<Rightarrow> permissions \<Rightarrow> permissions" where
  "grant_persistent p s = s\<lparr>pm_granted := pm_granted s @ [p]\<rparr>"

definition same_permission :: "permission_request \<Rightarrow> permission_request \<Rightarrow> bool" where
  "same_permission p q \<longleftrightarrow> pq_tool p = pq_tool q \<and> pq_action p = pq_action q \<and> pq_session p = pq_session q \<and> pq_path p = pq_path q"

definition asked :: "path \<Rightarrow> permission_request \<Rightarrow> permission_request" where
  "asked wd opts = opts\<lparr>pq_path := (if path_dir (pq_path opts) = ''.'' then wd else path_dir (pq_path opts))\<rparr>"

definition request_permission ::
  "path \<Rightarrow> (permission_request \<Rightarrow> user_answer) \<Rightarrow> permission_request \<Rightarrow> permissions \<Rightarrow> bool \<times> permissions" where
  "request_permission wd answer opts s =
     (if List.member (pm_auto s) (pq_session opts) then (True, s)
      else let p = asked wd opts
        in if list_ex (\<lambda>q. same_permission q p) (pm_granted s) then (True, s)
           else case answer p of
                  Grant \<Rightarrow> (True, s) | Grant_Persistent \<Rightarrow> (True, grant_persistent p s) | Deny \<Rightarrow> (False, s))"

section \<open>History\<close>

record history_file =
  hf_id :: string
  hf_session :: string
  hf_path :: path
  hf_content :: string
  hf_version :: string
  hf_created :: int
  hf_updated :: int

type_synonym history = "history_file list"

record history_env =
  he_newest :: "history \<Rightarrow> history"
  he_oldest :: "history \<Rightarrow> history"

definition initial_version :: string where
  "initial_version = ''initial''"

definition get_file :: "string \<Rightarrow> history \<Rightarrow> history_file option" where
  "get_file i h = List.find (\<lambda>r. hf_id r = i) h"

definition get_by_path_and_session :: "history_env \<Rightarrow> path \<Rightarrow> string \<Rightarrow> history \<Rightarrow> history_file option" where
  "get_by_path_and_session he p s h =
     (case he_newest he (filter (\<lambda>r. hf_path r = p \<and> hf_session r = s) h) of [] \<Rightarrow> None | r # rs \<Rightarrow> Some r)"

definition list_by_path :: "history_env \<Rightarrow> path \<Rightarrow> history \<Rightarrow> history" where
  "list_by_path he p h = he_newest he (filter (\<lambda>r. hf_path r = p) h)"

definition list_by_session :: "history_env \<Rightarrow> string \<Rightarrow> history \<Rightarrow> history" where
  "list_by_session he s h = he_oldest he (filter (\<lambda>r. hf_session r = s) h)"

text \<open>The rows of a session that are the newest of their path in the whole table, in the order of paths.\<close>

definition latest_session_files :: "(history \<Rightarrow> history) \<Rightarrow> string \<Rightarrow> history \<Rightarrow> history" where
  "latest_session_files by_path s h =
     by_path (filter (\<lambda>r. list_all (\<lambda>q. hf_path q = hf_path r \<longrightarrow> hf_created q \<le> hf_created r) h \<and> hf_session r = s) h)"

text \<open>\<open>CreateFile\<close>: an insertion that keeps path, session and version unique.\<close>

definition same_version :: "path \<Rightarrow> string \<Rightarrow> string \<Rightarrow> history_file \<Rightarrow> bool" where
  "same_version p s v r \<longleftrightarrow> hf_path r = p \<and> hf_session r = s \<and> hf_version r = v"

definition insert_file ::
  "string \<Rightarrow> int \<Rightarrow> string \<Rightarrow> path \<Rightarrow> string \<Rightarrow> string \<Rightarrow> history \<Rightarrow> (history_file \<times> history) option" where
  "insert_file i now s p c v h =
     (if list_ex (same_version p s v) h then None
      else let r = \<lparr>hf_id = i, hf_session = s, hf_path = p, hf_content = c, hf_version = v, hf_created = now, hf_updated = now\<rparr>
        in Some (r, h @ [r]))"

definition version_number :: "string \<Rightarrow> int option" where
  "version_number v = (if has_prefix v ''v'' then atoi (drop 1 v) else None)"

definition numbered :: "int \<Rightarrow> string" where
  "numbered n = ''v'' @ itoa n"

text \<open>The version to try next, and the loop with the number of attempts that are left after this one.\<close>

definition retry_version :: "int \<Rightarrow> string \<Rightarrow> string" where
  "retry_version now v = (case version_number v of Some n \<Rightarrow> numbered (wrap64 (n + 1)) | None \<Rightarrow> numbered now)"

fun create_loop ::
  "nat \<Rightarrow> string \<Rightarrow> int \<Rightarrow> string \<Rightarrow> path \<Rightarrow> string \<Rightarrow> string \<Rightarrow> history \<Rightarrow> (history_file \<times> history) option" where
  "create_loop 0 i now s p c v h = insert_file i now s p c v h"
| "create_loop (Suc k) i now s p c v h =
     (case insert_file i now s p c v h of
        Some x \<Rightarrow> Some x | None \<Rightarrow> create_loop k i now s p c (retry_version now v) h)"

definition create_with_version ::
  "string \<Rightarrow> int \<Rightarrow> string \<Rightarrow> path \<Rightarrow> string \<Rightarrow> string \<Rightarrow> history \<Rightarrow> (history_file \<times> history) option" where
  "create_with_version = create_loop 2"

definition create_file :: "string \<Rightarrow> int \<Rightarrow> string \<Rightarrow> path \<Rightarrow> string \<Rightarrow> history \<Rightarrow> (history_file \<times> history) option" where
  "create_file i now s p c h = create_with_version i now s p c initial_version h"

definition next_version :: "history_file \<Rightarrow> string" where
  "next_version r =
     (if hf_version r = initial_version then ''v1''
      else case version_number (hf_version r) of
             Some n \<Rightarrow> numbered (wrap64 (n + 1)) | None \<Rightarrow> numbered (hf_created r))"

definition create_version ::
  "history_env \<Rightarrow> string \<Rightarrow> int \<Rightarrow> string \<Rightarrow> path \<Rightarrow> string \<Rightarrow> history \<Rightarrow> (history_file \<times> history) option" where
  "create_version he i now s p c h =
     (case list_by_path he p h of
        [] \<Rightarrow> create_file i now s p c h
      | r # rs \<Rightarrow> create_with_version i now s p c (next_version r) h)"

definition update_file :: "int \<Rightarrow> history_file \<Rightarrow> history \<Rightarrow> (history_file \<times> history) option" where
  "update_file now f h =
     (case get_file (hf_id f) h of
        None \<Rightarrow> None
      | Some r \<Rightarrow>
          (if list_ex (\<lambda>q. hf_id q \<noteq> hf_id f \<and> same_version (hf_path r) (hf_session r) (hf_version f) q) h then None
           else let r' = r\<lparr>hf_content := hf_content f, hf_version := hf_version f, hf_updated := now\<rparr>
             in Some (r', map (\<lambda>q. if hf_id q = hf_id f then r' else q) h)))"

definition delete_file :: "string \<Rightarrow> history \<Rightarrow> history option" where
  "delete_file i h = (case get_file i h of None \<Rightarrow> None | Some r \<Rightarrow> Some (filter (\<lambda>q. hf_id q \<noteq> i) h))"

fun delete_files :: "history_file list \<Rightarrow> history \<Rightarrow> history option" where
  "delete_files [] h = Some h"
| "delete_files (r # rs) h = (case delete_file (hf_id r) h of None \<Rightarrow> None | Some h' \<Rightarrow> delete_files rs h')"

definition delete_session_files :: "history_env \<Rightarrow> string \<Rightarrow> history \<Rightarrow> history option" where
  "delete_session_files he s h = delete_files (list_by_session he s h) h"

section \<open>The sorts\<close>

text \<open>A sort by the creation time, newest first; what it does with equal times is open.\<close>

locale newest_first =
  fixes newest :: "history \<Rightarrow> history"
  assumes newest_mset: "mset (newest h) = mset h"
    and newest_sorted: "sorted_wrt (\<lambda>a b. hf_created b \<le> hf_created a) (newest h)"
begin

lemma newest_set: "set (newest h) = set h"
  using newest_mset by (metis set_mset_mset)

lemma newest_max:
  assumes "r \<in> set h" "\<forall>q \<in> set h. q \<noteq> r \<longrightarrow> hf_created q < hf_created r"
  shows "\<exists>rs. newest h = r # rs"
proof -
  have "newest h \<noteq> []" using assms(1) newest_set [of h] by auto
  then obtain q rs where q: "newest h = q # rs" by (cases "newest h") auto
  have "q = r"
  proof (rule ccontr)
    assume "q \<noteq> r"
    moreover have "q \<in> set h" "r \<in> set (q # rs)" using newest_set [of h] q assms(1) by auto
    ultimately have "hf_created q < hf_created r" "r \<in> set rs" using assms(2) by auto
    with newest_sorted [of h] q show False by auto
  qed
  with q show ?thesis by blast
qed

end

text \<open>A stable sort, with rows of one second in the order of their insertion, is one of them.\<close>

definition newest_stably :: "history \<Rightarrow> history" where
  "newest_stably h = sort_key (\<lambda>r. - hf_created r) h"

interpretation stable_rows: newest_first newest_stably
proof
  fix h
  show "mset (newest_stably h) = mset h" by (simp add: newest_stably_def)
  have "sorted (map (\<lambda>r. - hf_created r) (newest_stably h))" unfolding newest_stably_def by (rule sorted_sort_key)
  then show "sorted_wrt (\<lambda>a b. hf_created b \<le> hf_created a) (newest_stably h)"
    by (simp add: sorted_wrt_map)
qed

section \<open>What the operations keep\<close>

definition version_key :: "history_file \<Rightarrow> path \<times> string \<times> string" where
  "version_key r = (hf_path r, hf_session r, hf_version r)"

definition history_inv :: "history \<Rightarrow> bool" where
  "history_inv h \<longleftrightarrow> distinct (map version_key h) \<and> distinct (map hf_id h)"

lemma insert_file_Some:
  assumes "insert_file i now s p c v h = Some (r, h')"
  shows "h' = h @ [r]" "hf_id r = i" "hf_session r = s" "hf_path r = p" "hf_content r = c" "hf_version r = v" "hf_created r = now"
    "version_key r \<notin> version_key ` set h"
  using assms by (auto simp: insert_file_def list_ex_iff same_version_def version_key_def Let_def split: if_splits)

lemma create_loop_Some:
  "create_loop k i now s p c v h = Some (r, h') \<Longrightarrow>
   h' = h @ [r] \<and> hf_id r = i \<and> hf_session r = s \<and> hf_path r = p \<and> hf_content r = c \<and> hf_created r = now \<and>
   version_key r \<notin> version_key ` set h"
  by (induction k arbitrary: v) (auto split: option.splits dest: insert_file_Some)

lemma create_version_Some:
  assumes "create_version he i now s p c h = Some (r, h')"
  shows "h' = h @ [r] \<and> hf_id r = i \<and> hf_session r = s \<and> hf_path r = p \<and> hf_content r = c \<and> hf_created r = now \<and>
    version_key r \<notin> version_key ` set h"
  using assms create_loop_Some [of 2]
  by (auto simp: create_version_def create_file_def create_with_version_def split: list.splits)

lemma history_inv_append:
  "history_inv h \<Longrightarrow> version_key r \<notin> version_key ` set h \<Longrightarrow> hf_id r \<notin> hf_id ` set h \<Longrightarrow> history_inv (h @ [r])"
  by (auto simp: history_inv_def)

section \<open>Runs\<close>

text \<open>Sessions that are approved and requests, each with what the user would answer.\<close>

datatype permission_op = Auto string | Ask permission_request user_answer

fun permission_do :: "path \<Rightarrow> permission_op \<Rightarrow> permissions \<Rightarrow> bool \<times> permissions" where
  "permission_do wd (Auto i) s = (False, auto_approve_session i s)"
| "permission_do wd (Ask q a) s = request_permission wd (\<lambda>_. a) q s"

fun permission_run :: "path \<Rightarrow> permission_op list \<Rightarrow> permissions \<Rightarrow> permissions" where
  "permission_run wd [] s = s"
| "permission_run wd (x # xs) s = permission_run wd xs (snd (permission_do wd x s))"

lemma permission_run_append: "permission_run wd (xs @ ys) s = permission_run wd ys (permission_run wd xs s)"
  by (induction xs arbitrary: s) simp_all

definition consented :: "path \<Rightarrow> permission_op list \<Rightarrow> permissions \<Rightarrow> bool" where
  "consented wd ops s \<longleftrightarrow>
     (\<forall>i \<in> set (pm_auto s). Auto i \<in> set ops) \<and>
     (\<forall>p \<in> set (pm_granted s). \<exists>q. Ask q Grant_Persistent \<in> set ops \<and> p = asked wd q)"

lemma consented_run: "consented wd ops (permission_run wd ops new_permissions)"
proof (induction ops rule: rev_induct)
  case (snoc x ops)
  let ?s = "permission_run wd ops new_permissions"
  from snoc have "consented wd (ops @ [x]) ?s" by (auto simp: consented_def)
  then have "consented wd (ops @ [x]) (snd (permission_do wd x ?s))"
    by (cases x) (auto simp: consented_def auto_approve_session_def request_permission_def grant_persistent_def Let_def
        split: user_answer.splits)
  then show ?case by (simp add: permission_run_append)
qed (simp add: consented_def new_permissions_def)

text \<open>Versions recorded one after the other: ids, times, sessions and contents.\<close>

fun record_all :: "history_env \<Rightarrow> path \<Rightarrow> (string \<times> int \<times> string \<times> string) list \<Rightarrow> history \<Rightarrow> history option" where
  "record_all he p [] h = Some h"
| "record_all he p ((i, now, s, c) # xs) h =
     (case create_version he i now s p c h of None \<Rightarrow> None | Some (r, h') \<Rightarrow> record_all he p xs h')"

definition nth_version :: "nat \<Rightarrow> string" where
  "nth_version n = (if n = 0 then initial_version else numbered (int n))"

lemma version_number_numbered: "in_int64 n \<Longrightarrow> version_number (numbered n) = Some n"
  by (simp add: version_number_def numbered_def atoi_itoa has_prefix_def)

lemma nth_version_inj: "nth_version m = nth_version n \<longleftrightarrow> m = n"
  by (simp add: nth_version_def initial_version_def numbered_def)

text \<open>The rows of a path are numbered and in strict order of time.\<close>

definition numbered_rows :: "history \<Rightarrow> bool" where
  "numbered_rows rs \<longleftrightarrow> map hf_version rs = map nth_version [0..<length rs] \<and> sorted_wrt (<) (map hf_created rs)"

lemma numbered_rows_last:
  assumes "numbered_rows (rs @ [r])"
  shows "hf_version r = nth_version (length rs)" "\<forall>q \<in> set rs. hf_created q < hf_created r"
  using assms by (simp_all add: numbered_rows_def sorted_wrt_append)

lemma next_of_nth:
  assumes "hf_version r = nth_version n" "int n + 1 < 2 ^ 63"
  shows "next_version r = nth_version (Suc n)"
proof (cases n)
  case 0
  with assms(1) show ?thesis by (simp add: next_version_def nth_version_def numbered_def) code_simp
next
  case (Suc m)
  have r: "in_int64 (int n)" "in_int64 (int n + 1)" using assms(2) by (simp_all add: in_int64_def)
  have v: "hf_version r = numbered (int n)" using assms(1) Suc by (simp add: nth_version_def)
  then have "hf_version r \<noteq> initial_version" by (simp add: numbered_def initial_version_def)
  moreover have "wrap64 (int n + 1) = int n + 1" by (rule wrap64_id [OF r(2)])
  ultimately show ?thesis using v version_number_numbered [OF r(1)]
    by (simp add: next_version_def nth_version_def add.commute)
qed

lemma rows_of_append:
  "filter (\<lambda>q. hf_path q = p) (h @ [r]) = filter (\<lambda>q. hf_path q = p) h @ (if hf_path r = p then [r] else [])"
  by simp

context newest_first begin

lemma create_version_numbers:
  assumes "he_newest he = newest" "numbered_rows (filter (\<lambda>q. hf_path q = p) h)"
    and "\<forall>q \<in> set h. hf_path q = p \<longrightarrow> hf_created q < now"
    and "int (length (filter (\<lambda>q. hf_path q = p) h)) < 2 ^ 63"
  shows "\<exists>r. create_version he i now s p c h = Some (r, h @ [r]) \<and> hf_path r = p \<and> hf_session r = s \<and> hf_content r = c \<and>
    hf_created r = now \<and> numbered_rows (filter (\<lambda>q. hf_path q = p) (h @ [r]))"
proof -
  let ?rows = "filter (\<lambda>q. hf_path q = p) h"
  let ?v = "nth_version (length ?rows)"
  let ?r = "\<lparr>hf_id = i, hf_session = s, hf_path = p, hf_content = c, hf_version = ?v, hf_created = now, hf_updated = now\<rparr>"
  have fresh: "\<not> same_version p s ?v q" if "q \<in> set h" for q
  proof
    assume q: "same_version p s ?v q"
    with that have "q \<in> set ?rows" by (simp add: same_version_def)
    then obtain k where k: "k < length ?rows" "?rows ! k = q" by (metis in_set_conv_nth)
    then have "hf_version q = map hf_version ?rows ! k" by simp
    also have "\<dots> = nth_version k" using assms(2) k(1) by (simp add: numbered_rows_def)
    finally show False using q k(1) by (simp add: same_version_def nth_version_inj)
  qed
  then have ins: "insert_file i now s p c ?v h = Some (?r, h @ [?r])"
    by (auto simp: insert_file_def list_ex_iff Let_def)
  have "create_version he i now s p c h = create_with_version i now s p c ?v h"
  proof (cases "?rows = []")
    case True
    then have "newest ?rows = []" using newest_set [of ?rows] by simp
    with True show ?thesis by (simp add: create_version_def list_by_path_def assms(1) create_file_def nth_version_def)
  next
    case False
    then obtain rs r where rows: "?rows = rs @ [r]" by (metis rev_exhaust)
    note last = numbered_rows_last [OF assms(2) [unfolded rows]]
    have "\<forall>q \<in> set ?rows. q \<noteq> r \<longrightarrow> hf_created q < hf_created r" using last(2) rows by auto
    then obtain tail where "newest ?rows = r # tail" using newest_max [of r ?rows] rows by auto
    moreover have "next_version r = ?v" using next_of_nth [OF last(1)] assms(4) rows by simp
    ultimately show ?thesis by (simp add: create_version_def list_by_path_def assms(1))
  qed
  with ins have cv: "create_version he i now s p c h = Some (?r, h @ [?r])"
    by (simp add: create_with_version_def numeral_2_eq_2)
  have "numbered_rows (?rows @ [?r])" using assms(2,3) by (auto simp: numbered_rows_def sorted_wrt_append)
  with cv show ?thesis by (intro exI [of _ ?r]) simp
qed

lemma record_all_numbers:
  assumes "he_newest he = newest" "numbered_rows (filter (\<lambda>q. hf_path q = p) h)" "sorted_wrt (<) (map (fst \<circ> snd) xs)"
    and "\<forall>q \<in> set h. hf_path q = p \<longrightarrow> (\<forall>x \<in> set xs. hf_created q < fst (snd x))"
    and "int (length (filter (\<lambda>q. hf_path q = p) h)) + int (length xs) < 2 ^ 63"
  shows "\<exists>h'. record_all he p xs h = Some h' \<and> numbered_rows (filter (\<lambda>q. hf_path q = p) h') \<and>
    map hf_content (filter (\<lambda>q. hf_path q = p) h') = map hf_content (filter (\<lambda>q. hf_path q = p) h) @ map (snd \<circ> snd \<circ> snd) xs"
  using assms(2-)
proof (induction xs arbitrary: h)
  case (Cons x xs)
  obtain i now s c where x: "x = (i, now, s, c)" by (metis prod_cases4)
  obtain r where r: "create_version he i now s p c h = Some (r, h @ [r])" "hf_path r = p" "hf_content r = c" "hf_created r = now"
    "numbered_rows (filter (\<lambda>q. hf_path q = p) (h @ [r]))"
    using create_version_numbers [OF assms(1) Cons.prems(1), of now i s c] Cons.prems(3,4) by (auto simp: x)
  have "\<forall>q \<in> set (h @ [r]). hf_path q = p \<longrightarrow> (\<forall>x \<in> set xs. hf_created q < fst (snd x))"
    using Cons.prems(2,3) r(4) by (auto simp: x)
  with Cons.IH [OF r(5)] Cons.prems(2,4) r show ?case by (auto simp: x)
qed simp

end

section \<open>Properties\<close>

text \<open> A request is granted only with consent: its session was approved, or the user grants it, or the
  user gave a lasting grant, to a request of the same tool, action and session whose path is in the same
  directory. \<close>

theorem permission_needs_consent:
  assumes "fst (request_permission wd answer q (permission_run wd ops new_permissions))"
  shows "Auto (pq_session q) \<in> set ops \<or> answer (asked wd q) \<noteq> Deny \<or>
    (\<exists>p. Ask p Grant_Persistent \<in> set ops \<and> same_permission (asked wd p) (asked wd q))"
  using assms consented_run [of wd ops]
  by (fastforce simp: request_permission_def consented_def list_ex_iff Let_def split: if_splits user_answer.splits)

definition ex_ask :: "path \<Rightarrow> permission_request" where
  "ex_ask p = \<lparr>pq_session = ''s'', pq_tool = ''edit'', pq_description = [], pq_action = ''write'', pq_path = p\<rparr>"

lemma permission_needs_consent_witness:
  "fst (request_permission ''/'' (\<lambda>_. Deny) (ex_ask ''/r/b'') (permission_run ''/'' [Ask (ex_ask ''/r/a'') Grant_Persistent] new_permissions)) \<and>
   (\<exists>p. Ask p Grant_Persistent \<in> set [Ask (ex_ask ''/r/a'') Grant_Persistent] \<and>
     same_permission (asked ''/'' p) (asked ''/'' (ex_ask ''/r/b'')))"
proof -
  have g: "fst (request_permission ''/'' (\<lambda>_. Deny) (ex_ask ''/r/b'')
      (permission_run ''/'' [Ask (ex_ask ''/r/a'') Grant_Persistent] new_permissions))" by code_simp
  from permission_needs_consent [OF g] g show ?thesis by auto
qed

text \<open> A lasting grant covers every later request of the tool, action and session below the parent of the
  directory it was given for, and the user is not asked again. \<close>

theorem lasting_grant_covers_siblings:
  assumes "path_dir (pq_path p) = path_dir (pq_path q)" "pq_tool p = pq_tool q" "pq_action p = pq_action q" "pq_session p = pq_session q"
    and "Ask p Grant_Persistent = ops ! k" "k < length ops"
  shows "fst (request_permission wd answer q (permission_run wd ops s))"
proof -
  have keep: "set (pm_auto s) \<subseteq> set (pm_auto (permission_run wd xs s)) \<and>
      set (pm_granted s) \<subseteq> set (pm_granted (permission_run wd xs s))" for xs s
  proof (induction xs arbitrary: s)
    case (Cons x xs)
    have "set (pm_auto s) \<subseteq> set (pm_auto (snd (permission_do wd x s))) \<and>
        set (pm_granted s) \<subseteq> set (pm_granted (snd (permission_do wd x s)))"
      by (cases x) (auto simp: auto_approve_session_def request_permission_def grant_persistent_def Let_def split: user_answer.splits)
    with Cons.IH [of "snd (permission_do wd x s)"] show ?case by auto
  qed simp
  define granted where "granted = (\<lambda>s :: permissions. List.member (pm_auto s) (pq_session q) \<or> list_ex (\<lambda>x. same_permission x (asked wd q)) (pm_granted s))"
  have same: "same_permission (asked wd p) (asked wd q)" using assms(1-4) by (simp add: same_permission_def asked_def)
  let ?s1 = "permission_run wd (take k ops) s"
  have "ops = take k ops @ Ask p Grant_Persistent # drop (Suc k) ops" using assms(5,6) by (metis id_take_nth_drop)
  then have run: "permission_run wd ops s = permission_run wd (drop (Suc k) ops) (snd (permission_do wd (Ask p Grant_Persistent) ?s1))"
    by (metis permission_run.simps(2) permission_run_append)
  have "granted (snd (permission_do wd (Ask p Grant_Persistent) ?s1))"
    using same assms(4) by (auto simp: granted_def request_permission_def grant_persistent_def list_ex_iff same_permission_def Let_def)
  then have "granted (permission_run wd ops s)"
    using keep [of "snd (permission_do wd (Ask p Grant_Persistent) ?s1)" "drop (Suc k) ops"] run
    by (auto simp: granted_def list_ex_iff)
  then show ?thesis by (auto simp: granted_def request_permission_def Let_def)
qed

lemma lasting_grant_covers_siblings_witness:
  "fst (request_permission ''/'' (\<lambda>_. Deny) (ex_ask ''/r/b'') (permission_run ''/'' [Ask (ex_ask ''/r/a'') Grant_Persistent] new_permissions))"
  using lasting_grant_covers_siblings [of "ex_ask ''/r/a''" "ex_ask ''/r/b''" "[Ask (ex_ask ''/r/a'') Grant_Persistent]" 0]
  by (simp add: ex_ask_def) code_simp

text \<open> When the versions of a path are recorded at different times, in whatever sessions, none is lost:
  they are numbered in order, and the newest of a session is its last one. \<close>

theorem history_numbers_versions:
  assumes "newest_first (he_newest he)" "\<forall>q \<in> set h. hf_path q \<noteq> p" "sorted_wrt (<) (map (fst \<circ> snd) xs)" "int (length xs) < 2 ^ 63"
  shows "\<exists>h'. record_all he p xs h = Some h' \<and>
    map hf_version (filter (\<lambda>q. hf_path q = p) h') = map nth_version [0..<length xs] \<and>
    map hf_content (filter (\<lambda>q. hf_path q = p) h') = map (snd \<circ> snd \<circ> snd) xs"
proof -
  have none: "filter (\<lambda>q. hf_path q = p) h = []" using assms(2) by simp
  obtain h' where h': "record_all he p xs h = Some h'" "numbered_rows (filter (\<lambda>q. hf_path q = p) h')"
    "map hf_content (filter (\<lambda>q. hf_path q = p) h') = map (snd \<circ> snd \<circ> snd) xs"
    using newest_first.record_all_numbers [OF assms(1) refl, of p h xs] assms(2-4) none by (auto simp: numbered_rows_def)
  then have "length (filter (\<lambda>q. hf_path q = p) h') = length xs" by (metis length_map)
  with h' show ?thesis by (auto simp: numbered_rows_def)
qed

definition ex_history_env :: history_env where
  "ex_history_env = \<lparr>he_newest = newest_stably, he_oldest = id\<rparr>"

lemma history_numbers_versions_witness:
  "\<exists>h'. record_all ex_history_env ''/f'' [(''1'', 5, ''s'', ''a''), (''2'', 6, ''t'', ''b'')] [] = Some h' \<and>
     map hf_content (filter (\<lambda>q. hf_path q = ''/f'') h') = [''a'', ''b'']"
  using history_numbers_versions [of ex_history_env "[]" "''/f''" "[(''1'', 5, ''s'', ''a''), (''2'', 6, ''t'', ''b'')]"]
    stable_rows.newest_first_axioms by (auto simp: ex_history_env_def)

text \<open> Within one second it is different: when rows of equal times come in the order of their insertion, a
  fifth version of a file in a session is lost. \<close>

theorem history_loses_fifth_version:
  fixes p s t i1 i2 i3 i4 c1 c2 c3 c4
  defines "he \<equiv> \<lparr>he_newest = newest_stably, he_oldest = newest_stably\<rparr>" and "xs \<equiv> [(i1, t, s, c1), (i2, t, s, c2), (i3, t, s, c3), (i4, t, s, c4)]"
  shows "record_all he p xs [] \<noteq> None \<and> record_all he p (xs @ [(i5, t, s, c5)]) [] = None"
proof -
  let ?row = "\<lambda>i c v. \<lparr>hf_id = i, hf_session = s, hf_path = p, hf_content = c, hf_version = v, hf_created = t, hf_updated = t\<rparr>"
  have same: "newest_stably h = h" if "\<forall>r \<in> set h. hf_created r = t" for h
    using that
  proof (induction h)
    case (Cons a h)
    then show ?case by (cases h) (simp_all add: newest_stably_def)
  qed (simp add: newest_stably_def)
  have v: "retry_version t ''v1'' = ''v2''" "retry_version t ''v2'' = ''v3''" for t by code_simp+
  have ver: "create_version he i t s p c h =
      (if h = [] then create_with_version i t s p c initial_version h else create_with_version i t s p c (next_version (hd h)) h)"
    if "\<forall>r \<in> set h. hf_created r = t \<and> hf_path r = p" for i c h
  proof -
    have "filter (\<lambda>r. hf_path r = p) h = h" using that by simp
    with that same [of h] show ?thesis
      by (cases h) (simp_all add: create_version_def list_by_path_def he_def create_file_def)
  qed
  have first: "next_version (?row i c initial_version) = ''v1''" for i c by (simp add: next_version_def)
  show ?thesis
    by (simp add: xs_def ver first [unfolded initial_version_def] v create_with_version_def numeral_2_eq_2 insert_file_def same_version_def initial_version_def Let_def)
qed

text \<open> The latest version hides the others: a version that is newer than all rows of its path is listed as
  the latest file of its session, once, and every other session that had a version of the path, be it its
  own latest, no longer lists the path. \<close>

theorem latest_version_hides_others:
  assumes "create_version he i now s p c h = Some (r, h')" "\<forall>q \<in> set h. hf_path q = p \<longrightarrow> hf_created q < now" "\<And>xs. mset (by_path xs) = mset xs"
  shows "filter (\<lambda>q. hf_path q = p) (latest_session_files by_path s h') = [r] \<and>
    (\<forall>t. t \<noteq> s \<longrightarrow> filter (\<lambda>q. hf_path q = p) (latest_session_files by_path t h') = [])"
proof -
  note r = create_version_Some [OF assms(1)]
  define newest where "newest q = list_all (\<lambda>x. hf_path x = hf_path q \<longrightarrow> hf_created x \<le> hf_created q) h'" for q :: history_file
  have old: "\<not> newest q" if "q \<in> set h" "hf_path q = p" for q
    using that r assms(2) by (auto simp: newest_def list_all_iff not_le)
  have new: "newest r" using r assms(2) by (auto simp: newest_def list_all_iff less_imp_le)
  have rows: "filter (\<lambda>q. (newest q \<and> hf_session q = t) \<and> hf_path q = p) h' = (if t = s then [r] else [])" for t
  proof -
    have "filter (\<lambda>q. (newest q \<and> hf_session q = t) \<and> hf_path q = p) h = []" using old by (auto simp: filter_empty_conv)
    moreover have "h' = h @ [r]" using r by simp
    ultimately show ?thesis using new r by simp
  qed
  have m: "mset (filter (\<lambda>q. hf_path q = p) (latest_session_files by_path t h')) = mset (if t = s then [r] else [])" for t
  proof -
    have "mset (filter (\<lambda>q. hf_path q = p) (by_path ys)) = mset (filter (\<lambda>q. hf_path q = p) ys)" for ys by (simp add: mset_filter assms(3))
    then show ?thesis using rows [of t] by (simp only: latest_session_files_def filter_filter newest_def)
  qed
  have "filter (\<lambda>q. hf_path q = p) (latest_session_files by_path t h') = []" if "t \<noteq> s" for t using m [of t] that by simp
  moreover have "filter (\<lambda>q. hf_path q = p) (latest_session_files by_path s h') = [r]"
    using m [of s] by (simp only: if_True refl mset_single_iff mset.simps add_mset_eq_single simp_thms)
  ultimately show ?thesis by blast
qed

lemma latest_version_hides_others_witness:
  "\<exists>r h'. create_version ex_history_env ''2'' 6 ''t'' ''/f'' ''b''
       [\<lparr>hf_id = ''1'', hf_session = ''s'', hf_path = ''/f'', hf_content = ''a'', hf_version = initial_version, hf_created = 5, hf_updated = 5\<rparr>] = Some (r, h') \<and>
     latest_session_files id ''s'' h' = []"
proof -
  let ?h = "[\<lparr>hf_id = ''1'', hf_session = ''s'', hf_path = ''/f'', hf_content = ''a'', hf_version = initial_version, hf_created = 5, hf_updated = 5\<rparr>]"
  have "\<exists>r h'. create_version ex_history_env ''2'' 6 ''t'' ''/f'' ''b'' ?h = Some (r, h')"
    by (simp add: create_version_def list_by_path_def ex_history_env_def newest_stably_def next_version_def create_with_version_def numeral_2_eq_2
        insert_file_def same_version_def initial_version_def Let_def)
  then obtain r h' where c: "create_version ex_history_env ''2'' 6 ''t'' ''/f'' ''b'' ?h = Some (r, h')" by blast
  have "filter (\<lambda>q. hf_path q = ''/f'') (latest_session_files id ''s'' h') = []"
    using latest_version_hides_others [OF c, of id] by simp
  moreover have "\<forall>q \<in> set (latest_session_files id ''s'' h'). hf_path q = ''/f''"
    using create_version_Some [OF c] by (simp add: latest_session_files_def)
  ultimately have "latest_session_files id ''s'' h' = []" by (simp add: filter_empty_conv)
  with c show ?thesis by blast
qed

end
