(* ===== verification/Agent_Tools.thy ===== *)
theory Agent_Tools
  imports Agent_Patch Agent_Store Event_Log IR_Index
begin

text \<open>
  The tools with which an agent reads and changes files: \<open>view.go\<close>, \<open>edit.go\<close>, \<open>write.go\<close> and
  \<open>patch.go\<close> of \<open>cli/internal/llm/tools\<close>, with the records of \<open>file.go\<close> that are to keep an agent
  from overwriting what it has not read.

  Parameters: the working directory, the session, the clock, the ids of the history, the answers of
  the user, what other programs do to the files while the user is asked, the orders in which maps are
  walked, the numbers of added and removed lines that the library of diffs counts, and the case tables
  of Unicode. A time is a number, 0 is the zero time. The file system is that of theory \<open>Disk\<close>, by
  cleaned paths, with a time of modification for each file. The texts of errors are classified, not
  spelled out; there are no language servers, and the diffs that are only shown, the suggestions for a
  missing file and the parsing of the parameters are left out.
\<close>

section \<open>State\<close>

record file_record =
  fr_read :: int
  fr_write :: int

type_synonym mtimes = "(path \<times> int) list"

record tool_state =
  ts_disk :: disk
  ts_mtimes :: mtimes
  ts_records :: "(path \<times> file_record) list"
  ts_perm :: permissions
  ts_history :: history
  ts_tick :: nat

record tool_world =
  tw_wd :: path
  tw_session :: string
  tw_message :: string
  tw_now :: "nat \<Rightarrow> int"
  tw_seconds :: "nat \<Rightarrow> int"
  tw_ids :: "nat \<Rightarrow> string"
  tw_answer :: "nat \<Rightarrow> permission_request \<Rightarrow> user_answer"
  tw_others :: "nat \<Rightarrow> disk \<times> mtimes \<Rightarrow> disk \<times> mtimes"
  tw_env :: history_env
  tw_walks :: "nat \<Rightarrow> walks"
  tw_counts :: "string \<Rightarrow> string \<Rightarrow> path \<Rightarrow> int \<times> int"
  tw_lower :: "string \<Rightarrow> string"

datatype refusal =
    R_No_Path | R_No_Content | R_Exists | R_Is_Dir | R_Missing | R_Unread | R_Modified | R_No_Match | R_Many | R_Same
  | R_Too_Large | R_Image | R_Patch patch_stop | R_Fuzzy int | R_Not_Applied string

datatype failure = F_Access | F_Mkdir | F_Context | F_Denied | F_Read | F_Write | F_History

datatype tool_reply = Text string | Refused refusal | Failed failure | Crashed go_panic

section \<open>Files and their records\<close>

definition abs_path :: "tool_world \<Rightarrow> path \<Rightarrow> path" where
  "abs_path w p = (if rooted p then p else path_join [tw_wd w, p])"

datatype file_stat = Stat_Missing | Stat_Error | Stat_Dir | Stat_File int

definition mtime_of :: "mtimes \<Rightarrow> path \<Rightarrow> int" where
  "mtime_of m q = (case map_of m q of None \<Rightarrow> 0 | Some t \<Rightarrow> t)"

definition stat_of :: "tool_state \<Rightarrow> path \<Rightarrow> file_stat" where
  "stat_of s p =
     (let d = ts_disk s; q = path_clean p
      in if List.member (d_bad d) q then Stat_Error
         else if map_of (d_files d) q \<noteq> None then Stat_File (mtime_of (ts_mtimes s) q)
         else if List.member (d_dirs d) q then Stat_Dir else Stat_Missing)"

definition read_content :: "tool_state \<Rightarrow> path \<Rightarrow> string option" where
  "read_content s p = reads (ts_disk s) (path_clean p)"

definition last_read :: "tool_state \<Rightarrow> path \<Rightarrow> int" where
  "last_read s p = (case map_of (ts_records s) p of None \<Rightarrow> 0 | Some r \<Rightarrow> fr_read r)"

definition record_of :: "tool_state \<Rightarrow> path \<Rightarrow> file_record" where
  "record_of s p = (case map_of (ts_records s) p of None \<Rightarrow> \<lparr>fr_read = 0, fr_write = 0\<rparr> | Some r \<Rightarrow> r)"

definition record_read :: "tool_world \<Rightarrow> path \<Rightarrow> tool_state \<Rightarrow> tool_state" where
  "record_read w p s =
     s\<lparr>ts_records := aput p ((record_of s p)\<lparr>fr_read := tw_now w (ts_tick s)\<rparr>) (ts_records s), ts_tick := ts_tick s + 1\<rparr>"

definition record_write :: "tool_world \<Rightarrow> path \<Rightarrow> tool_state \<Rightarrow> tool_state" where
  "record_write w p s =
     s\<lparr>ts_records := aput p ((record_of s p)\<lparr>fr_write := tw_now w (ts_tick s)\<rparr>) (ts_records s), ts_tick := ts_tick s + 1\<rparr>"

definition write_content :: "tool_world \<Rightarrow> path \<Rightarrow> string \<Rightarrow> tool_state \<Rightarrow> bool \<times> tool_state" where
  "write_content w p c s =
     (case write_file (path_clean p) c (ts_disk s) of
        Inl e \<Rightarrow> (False, s)
      | Inr d \<Rightarrow> (True, s\<lparr>ts_disk := d, ts_mtimes := aput (path_clean p) (tw_now w (ts_tick s)) (ts_mtimes s),
                          ts_tick := ts_tick s + 1\<rparr>))"

text \<open>Asking the user; meanwhile others may change the files.\<close>

definition ask :: "tool_world \<Rightarrow> permission_request \<Rightarrow> tool_state \<Rightarrow> bool \<times> tool_state" where
  "ask w q s =
     (let (granted, pm) = request_permission (tw_wd w) (tw_answer w (ts_tick s)) q (ts_perm s);
          (d, m) = tw_others w (ts_tick s) (ts_disk s, ts_mtimes s)
      in (granted, s\<lparr>ts_perm := pm, ts_disk := d, ts_mtimes := m, ts_tick := ts_tick s + 1\<rparr>))"

definition permission_path :: "tool_world \<Rightarrow> path \<Rightarrow> path" where
  "permission_path w p = (if has_prefix p (tw_wd w) then tw_wd w else path_dir p)"

definition tool_request :: "tool_world \<Rightarrow> string \<Rightarrow> string \<Rightarrow> string \<Rightarrow> path \<Rightarrow> permission_request" where
  "tool_request w tool action what p =
     \<lparr>pq_session = tw_session w, pq_tool = tool, pq_description = what, pq_action = action, pq_path = p\<rparr>"

definition no_context :: "tool_world \<Rightarrow> bool" where
  "no_context w \<longleftrightarrow> tw_session w = [] \<or> tw_message w = []"

section \<open>History\<close>

definition keep_created :: "tool_world \<Rightarrow> path \<Rightarrow> string \<Rightarrow> tool_state \<Rightarrow> bool \<times> tool_state" where
  "keep_created w p c s =
     (case create_file (tw_ids w (ts_tick s)) (tw_seconds w (ts_tick s)) (tw_session w) p c (ts_history s) of
        None \<Rightarrow> (False, s\<lparr>ts_tick := ts_tick s + 1\<rparr>)
      | Some (r, h) \<Rightarrow> (True, s\<lparr>ts_history := h, ts_tick := ts_tick s + 1\<rparr>))"

text \<open>A version is recorded, if that is possible.\<close>

definition keep_version :: "tool_world \<Rightarrow> path \<Rightarrow> string \<Rightarrow> tool_state \<Rightarrow> tool_state" where
  "keep_version w p c s =
     (case create_version (tw_env w) (tw_ids w (ts_tick s)) (tw_seconds w (ts_tick s)) (tw_session w) p c (ts_history s) of
        None \<Rightarrow> s\<lparr>ts_tick := ts_tick s + 1\<rparr>
      | Some (r, h) \<Rightarrow> s\<lparr>ts_history := h, ts_tick := ts_tick s + 1\<rparr>)"

definition keep_history :: "tool_world \<Rightarrow> path \<Rightarrow> string \<Rightarrow> string \<Rightarrow> tool_state \<Rightarrow> bool \<times> tool_state" where
  "keep_history w p old new s =
     (let file = get_by_path_and_session (tw_env w) p (tw_session w) (ts_history s);
          (ok, s1) = (if file = None then keep_created w p old s else (True, s));
          known = (case file of None \<Rightarrow> [] | Some r \<Rightarrow> hf_content r)
      in if \<not> ok then (False, s1)
         else (True, keep_version w p new (if known \<noteq> old then keep_version w p old s1 else s1)))"

text \<open>From the permission on: the file is written, its history kept and its records renewed.\<close>

definition finish_write ::
  "tool_world \<Rightarrow> path \<Rightarrow> permission_request \<Rightarrow> string \<Rightarrow> string \<Rightarrow> string \<Rightarrow> string \<Rightarrow> tool_state \<Rightarrow> tool_reply \<times> tool_state" where
  "finish_write w p q old new kept reply s =
     (if no_context w then (Failed F_Context, s)
      else let (granted, s1) = ask w q s
        in if \<not> granted then (Failed F_Denied, s1)
           else let (written, s2) = write_content w p new s1
             in if \<not> written then (Failed F_Write, s2)
                else let (ok, s3) = keep_history w p old kept s2
                  in if \<not> ok then (Failed F_History, s3) else (Text reply, record_read w p (record_write w p s3)))"

section \<open>The edit tool\<close>

definition create_new_file :: "tool_world \<Rightarrow> path \<Rightarrow> string \<Rightarrow> tool_state \<Rightarrow> tool_reply \<times> tool_state" where
  "create_new_file w p c s =
     (case stat_of s p of
        Stat_Dir \<Rightarrow> (Refused R_Is_Dir, s)
      | Stat_File t \<Rightarrow> (Refused R_Exists, s)
      | Stat_Error \<Rightarrow> (Failed F_Access, s)
      | Stat_Missing \<Rightarrow>
          (case mkdir_all (path_dir p) (ts_disk s) of
             Inl e \<Rightarrow> (Failed F_Mkdir, s)
           | Inr d \<Rightarrow>
               (let s0 = s\<lparr>ts_disk := d\<rparr>
                in if no_context w then (Failed F_Context, s0)
                   else let (granted, s1) = ask w (tool_request w ''edit'' ''write'' (''Create file '' @ p) (permission_path w p)) s0
                     in if \<not> granted then (Failed F_Denied, s1)
                        else let (written, s2) = write_content w p c s1
                          in if \<not> written then (Failed F_Write, s2)
                             else let (ok, s3) = keep_created w p [] s2
                               in if \<not> ok then (Failed F_History, s3)
                                  else (Text (''File created: '' @ p), record_read w p (record_write w p (keep_version w p c s3))))))"

text \<open>What must hold before a file is edited: the error otherwise.\<close>

definition check_read :: "tool_state \<Rightarrow> path \<Rightarrow> tool_reply option" where
  "check_read s p =
     (case stat_of s p of
        Stat_Missing \<Rightarrow> Some (Refused R_Missing)
      | Stat_Error \<Rightarrow> Some (Failed F_Access)
      | Stat_Dir \<Rightarrow> Some (Refused R_Is_Dir)
      | Stat_File t \<Rightarrow>
          (if last_read s p = 0 then Some (Refused R_Unread)
           else if last_read s p < t then Some (Refused R_Modified) else None))"

definition splice :: "nat \<Rightarrow> nat \<Rightarrow> string \<Rightarrow> string \<Rightarrow> string" where
  "splice i n new c = take i c @ new @ drop (i + n) c"

definition delete_content :: "tool_world \<Rightarrow> path \<Rightarrow> string \<Rightarrow> tool_state \<Rightarrow> tool_reply \<times> tool_state" where
  "delete_content w p old s =
     (case check_read s p of
        Some r \<Rightarrow> (r, s)
      | None \<Rightarrow>
          (case read_content s p of
             None \<Rightarrow> (Failed F_Read, s)
           | Some c \<Rightarrow>
               (case index_of c old of
                  None \<Rightarrow> (Refused R_No_Match, s)
                | Some i \<Rightarrow>
                    (if last_index_of c old \<noteq> Some i then (Refused R_Many, s)
                     else finish_write w p (tool_request w ''edit'' ''write'' (''Delete content from file '' @ p) (permission_path w p))
                            c (splice i (length old) [] c) [] (''Content deleted from file: '' @ p) s))))"

definition replace_content :: "tool_world \<Rightarrow> path \<Rightarrow> string \<Rightarrow> string \<Rightarrow> tool_state \<Rightarrow> tool_reply \<times> tool_state" where
  "replace_content w p old new s =
     (case check_read s p of
        Some r \<Rightarrow> (r, s)
      | None \<Rightarrow>
          (case read_content s p of
             None \<Rightarrow> (Failed F_Read, s)
           | Some c \<Rightarrow>
               (case index_of c old of
                  None \<Rightarrow> (Refused R_No_Match, s)
                | Some i \<Rightarrow>
                    (if last_index_of c old \<noteq> Some i then (Refused R_Many, s)
                     else let c' = splice i (length old) new c
                       in if c = c' then (Refused R_Same, s)
                          else finish_write w p (tool_request w ''edit'' ''write'' (''Replace content in file '' @ p) (permission_path w p))
                                 c c' c' (''Content replaced in file: '' @ p) s))))"

text \<open>An error of the call or a panic ends the tool.\<close>

definition failed_reply :: "tool_reply \<Rightarrow> bool" where
  "failed_reply r = (case r of Failed f \<Rightarrow> True | Crashed x \<Rightarrow> True | _ \<Rightarrow> False)"

definition in_result :: "string \<Rightarrow> tool_reply \<Rightarrow> tool_reply" where
  "in_result e r = (case r of Text t \<Rightarrow> Text (''<result>'' @ [LF] @ t @ [LF] @ ''</result>'' @ e) | _ \<Rightarrow> r)"

definition edit_run :: "tool_world \<Rightarrow> path \<Rightarrow> string \<Rightarrow> string \<Rightarrow> tool_state \<Rightarrow> tool_reply \<times> tool_state" where
  "edit_run w path old new s =
     (if path = [] then (Refused R_No_Path, s)
      else let p = abs_path w path; (r1, s1) = (if old = [] then create_new_file w p new s else (Text [], s))
        in if failed_reply r1 then (r1, s1)
           else let (r2, s2) = (if new = [] then delete_content w p old s1 else (r1, s1))
             in if failed_reply r2 then (r2, s2)
                else let (r3, s3) = replace_content w p old new s2 in (in_result [LF] r3, s3))"

section \<open>The write tool\<close>

definition write_run :: "tool_world \<Rightarrow> path \<Rightarrow> string \<Rightarrow> tool_state \<Rightarrow> tool_reply \<times> tool_state" where
  "write_run w path c s =
     (if path = [] then (Refused R_No_Path, s)
      else if c = [] then (Refused R_No_Content, s)
      else let p = abs_path w path; st = stat_of s p;
               check = (case st of
                  Stat_Dir \<Rightarrow> Some (Refused R_Is_Dir)
                | Stat_File t \<Rightarrow>
                    (if last_read s p < t then Some (Refused R_Modified)
                     else if read_content s p = Some c then Some (Refused R_Same) else None)
                | Stat_Error \<Rightarrow> Some (Failed F_Access)
                | Stat_Missing \<Rightarrow> None)
        in case check of
             Some r \<Rightarrow> (r, s)
           | None \<Rightarrow>
               (case mkdir_all (path_dir p) (ts_disk s) of
                  Inl e \<Rightarrow> (Failed F_Mkdir, s)
                | Inr d \<Rightarrow>
                    (let s0 = s\<lparr>ts_disk := d\<rparr>; old = (case read_content s0 p of None \<Rightarrow> [] | Some x \<Rightarrow> x);
                         (r, s1) = finish_write w p (tool_request w ''write'' ''write'' (''Create file '' @ p) (permission_path w p))
                                     old c c (''File successfully written: '' @ p) s0
                     in (in_result [] r, s1))))"

section \<open>The view tool\<close>

definition max_read_size :: nat where
  "max_read_size = 250 * 1024"

definition scan_max :: nat where
  "scan_max = 64 * 1024"

definition view_tokens :: "string \<Rightarrow> string list" where
  "view_tokens c = (let ls = split_on LF c in map drop_cr (if last ls = [] then butlast ls else ls))"

definition cut_line :: "string \<Rightarrow> string" where
  "cut_line l = (if 2000 < length l then take 2000 l @ ''...'' else l)"

text \<open>The lines from \<open>offset\<close> on, at most \<open>limit\<close> of them, and the number of the last line that is counted: the
  scan that finds the limit reached has consumed a line, which is neither shown nor counted.\<close>

definition read_text_file :: "string \<Rightarrow> int \<Rightarrow> int \<Rightarrow> (string \<times> int) option" where
  "read_text_file c offset limit =
     (if list_ex (\<lambda>l. scan_max \<le> length l) (split_on LF c) then None
      else let rest = drop (nat offset) (view_tokens c); shown = take (nat limit) rest
        in Some (join_with [LF] (map cut_line shown),
                 wrap64 (offset + int (length shown) + int (length rest - Suc (nat limit)))))"

definition numbered_line :: "int \<Rightarrow> string \<Rightarrow> string" where
  "numbered_line n l = (let d = itoa n in replicate (6 - length d) (CHR '' '') @ d @ ''|'' @ trim_suffix l [CR])"

definition add_line_numbers :: "string \<Rightarrow> int \<Rightarrow> string" where
  "add_line_numbers c start =
     (if c = [] then []
      else join_with [LF] (map (\<lambda>(i, l). numbered_line (wrap64 (int i + start)) l) (enumerate 0 (split_on LF c))))"

definition is_image_file :: "tool_world \<Rightarrow> path \<Rightarrow> bool" where
  "is_image_file w p \<longleftrightarrow>
     List.member [''.jpg'', ''.jpeg'', ''.png'', ''.gif'', ''.bmp'', ''.svg'', ''.webp''] (to_lower (tw_lower w) (path_ext p))"

definition more_lines :: "int \<Rightarrow> string" where
  "more_lines n =
     [LF, LF] @ ''(File has more lines. Use '' @ [CHR 0x27] @ ''offset'' @ [CHR 0x27] @ '' parameter to read beyond line '' @ itoa n @ '')''"

definition view_note :: "string \<Rightarrow> int \<Rightarrow> int \<Rightarrow> string" where
  "view_note content offset counted =
     (let n = wrap64 (offset + int (length (split_on LF content)))
      in if n < counted
         then more_lines n else [])"

definition view_run :: "tool_world \<Rightarrow> path \<Rightarrow> int \<Rightarrow> int \<Rightarrow> tool_state \<Rightarrow> tool_reply \<times> tool_state" where
  "view_run w path offset limit s =
     (if path = [] then (Refused R_No_Path, s)
      else let p = abs_path w path; limit' = (if limit \<le> 0 then 2000 else limit)
        in case stat_of s p of
             Stat_Missing \<Rightarrow> (Refused R_Missing, s)
           | Stat_Error \<Rightarrow> (Failed F_Access, s)
           | Stat_Dir \<Rightarrow> (Refused R_Is_Dir, s)
           | Stat_File t \<Rightarrow>
               (case read_content s p of
                  None \<Rightarrow> (Failed F_Read, s)
                | Some c \<Rightarrow>
                    (if max_read_size < length c then (Refused R_Too_Large, s)
                     else if is_image_file w p then (Refused R_Image, s)
                     else case read_text_file c offset limit' of
                       None \<Rightarrow> (Failed F_Read, s)
                     | Some (content, counted) \<Rightarrow>
                         (Text (''<file>'' @ [LF] @ add_line_numbers content (wrap64 (offset + 1)) @ view_note content offset counted @
                                [LF] @ ''</file>'' @ [LF]),
                          record_read w p s))))"

section \<open>The patch tool\<close>

fun check_needed :: "tool_world \<Rightarrow> path list \<Rightarrow> tool_state \<Rightarrow> tool_reply option" where
  "check_needed w [] s = None"
| "check_needed w (f # fs) s =
     (let p = abs_path w f
      in if last_read s p = 0 then Some (Refused R_Unread)
         else case stat_of s p of
           Stat_Missing \<Rightarrow> Some (Refused R_Missing)
         | Stat_Error \<Rightarrow> Some (Failed F_Access)
         | Stat_Dir \<Rightarrow> Some (Refused R_Is_Dir)
         | Stat_File t \<Rightarrow> (if last_read s p < t then Some (Refused R_Modified) else check_needed w fs s))"

fun check_added :: "tool_world \<Rightarrow> path list \<Rightarrow> tool_state \<Rightarrow> tool_reply option" where
  "check_added w [] s = None"
| "check_added w (f # fs) s =
     (case stat_of s (abs_path w f) of
        Stat_Missing \<Rightarrow> check_added w fs s
      | Stat_Error \<Rightarrow> Some (Failed F_Access)
      | _ \<Rightarrow> Some (Refused R_Exists))"

fun read_needed :: "tool_world \<Rightarrow> path list \<Rightarrow> tool_state \<Rightarrow> loaded option" where
  "read_needed w [] s = Some []"
| "read_needed w (f # fs) s =
     (case read_content s (abs_path w f) of
        None \<Rightarrow> None | Some t \<Rightarrow> map_option (aput f t) (read_needed w fs s))"

definition change_request :: "tool_world \<Rightarrow> path \<Rightarrow> file_change \<Rightarrow> go_panic + permission_request" where
  "change_request w f x =
     (case fc_type x of
        Action_Add \<Rightarrow>
          (if fc_new x = None then Inl Nil_Deref
           else Inr (tool_request w ''patch'' ''create'' (''Create file '' @ f) (path_dir f)))
      | Action_Update \<Rightarrow> Inr (tool_request w ''patch'' ''update'' (''Update file '' @ f) (path_dir f))
      | Action_Delete \<Rightarrow>
          (if fc_old x = None then Inl Nil_Deref
           else Inr (tool_request w ''patch'' ''delete'' (''Delete file '' @ f) (path_dir f))))"

fun ask_changes :: "tool_world \<Rightarrow> agent_commit \<Rightarrow> tool_state \<Rightarrow> tool_reply option \<times> tool_state" where
  "ask_changes w [] s = (None, s)"
| "ask_changes w ((f, x) # c) s =
     (case change_request w f x of
        Inl e \<Rightarrow> (Some (Crashed e), s)
      | Inr q \<Rightarrow>
          (let (granted, s1) = ask w q s in if granted then ask_changes w c s1 else (Some (Failed F_Denied), s1)))"

definition patch_write :: "tool_world \<Rightarrow> tool_state writer" where
  "patch_write w f c s =
     (let p = abs_path w f
      in case mkdir_all (path_dir p) (ts_disk s) of
           Inl e \<Rightarrow> (Some ''mkdir'', s)
         | Inr d \<Rightarrow> (let (written, s1) = write_content w p c (s\<lparr>ts_disk := d\<rparr>) in (if written then None else Some ''write'', s1)))"

definition patch_remove :: "tool_world \<Rightarrow> tool_state remover" where
  "patch_remove w f s =
     (let q = path_clean (abs_path w f)
      in case os_remove q (ts_disk s) of
           Inl e \<Rightarrow> (Some ''remove'', s)
         | Inr d \<Rightarrow> (None, s\<lparr>ts_disk := d, ts_mtimes := adel q (ts_mtimes s)\<rparr>))"

definition text_of :: "string option \<Rightarrow> string" where
  "text_of x = (case x of None \<Rightarrow> [] | Some t \<Rightarrow> t)"

definition keep_change :: "tool_world \<Rightarrow> path \<Rightarrow> file_change \<Rightarrow> tool_state \<Rightarrow> tool_state" where
  "keep_change w f x s =
     (let p = abs_path w f; old = text_of (fc_old x); new = text_of (fc_new x); adds = (fc_type x = Action_Add);
          file = get_by_path_and_session (tw_env w) p (tw_session w) (ts_history s);
          (ok, s1) = (if file = None \<and> \<not> adds then keep_created w p old s else (file \<noteq> None, s));
          known = (case file of None \<Rightarrow> [] | Some r \<Rightarrow> hf_content r);
          s2 = (if ok \<and> \<not> adds \<and> known \<noteq> old then keep_version w p old s1 else s1);
          s3 = keep_version w p (if fc_type x = Action_Delete then [] else new) s2
      in record_read w p (record_write w p s3))"

definition keep_changes :: "tool_world \<Rightarrow> agent_commit \<Rightarrow> tool_state \<Rightarrow> tool_state" where
  "keep_changes w c s = fold (\<lambda>(f, x). keep_change w f x) c s"

definition patch_reply :: "tool_world \<Rightarrow> agent_commit \<Rightarrow> string" where
  "patch_reply w c =
     (let counts = map (\<lambda>(f, x). tw_counts w (text_of (fc_old x)) (text_of (fc_new x)) f) c
      in ''Patch applied successfully. '' @ nat_str (length c) @ '' files changed, '' @ itoa (sum_list (map fst counts)) @
         '' additions, '' @ itoa (sum_list (map snd counts)) @ '' removals'')"

text \<open>The tool with the files it has loaded.\<close>

definition patch_with :: "tool_world \<Rightarrow> agent_commit \<Rightarrow> tool_state \<Rightarrow> tool_reply \<times> tool_state" where
  "patch_with w c s =
     (if no_context w then (Failed F_Context, s)
      else case ask_changes w (wk_changes (tw_walks w (ts_tick s)) c) s of
        (Some r, s1) \<Rightarrow> (r, s1)
      | (None, s1) \<Rightarrow>
          (case apply_commit (wk_changes (tw_walks w (ts_tick s1))) (patch_write w) (patch_remove w) c s1 of
             (Some e, s2) \<Rightarrow> (Refused (R_Not_Applied e), s2)
           | (None, s2) \<Rightarrow> (Text (patch_reply w c), keep_changes w (wk_changes (tw_walks w (ts_tick s2)) c) s2)))"

text \<open>\<open>None\<close>: the parser does not end.\<close>

definition patch_run :: "tool_world \<Rightarrow> string \<Rightarrow> tool_state \<Rightarrow> (tool_reply \<times> tool_state) option" where
  "patch_run w text s =
     (let wk = tw_walks w (ts_tick s); needed = identify_files_needed (wk_paths wk) text;
          stopped = (\<lambda>e. Some (case e of Patch_Panic x \<Rightarrow> Crashed x | Diff_Error m \<Rightarrow> Refused (R_Patch e), s))
      in if text = [] then Some (Refused R_No_Content, s)
         else case check_needed w needed s of
           Some r \<Rightarrow> Some (r, s)
         | None \<Rightarrow>
             (case check_added w (identify_files_added (wk_paths wk) text) s of
                Some r \<Rightarrow> Some (r, s)
              | None \<Rightarrow>
                  (case read_needed w needed s of
                     None \<Rightarrow> Some (Failed F_Read, s)
                   | Some orig \<Rightarrow>
                       (case text_to_patch text orig of
                          None \<Rightarrow> None
                        | Some (Inl e) \<Rightarrow> stopped e
                        | Some (Inr (patch, fuzz)) \<Rightarrow>
                            (if 3 < fuzz then Some (Refused (R_Fuzzy fuzz), s)
                             else case patch_to_commit (wk_actions wk) patch orig of
                               Inl e \<Rightarrow> stopped e | Inr c \<Rightarrow> Some (patch_with w c s))))))"


section \<open>What the parts of a tool leave alone\<close>

text \<open>Nobody else changes files while the user is asked.\<close>

definition undisturbed :: "tool_world \<Rightarrow> bool" where
  "undisturbed w \<longleftrightarrow> (\<forall>n x. tw_others w n x = x)"

definition same_disk :: "tool_state \<Rightarrow> tool_state \<Rightarrow> bool" where
  "same_disk s s' \<longleftrightarrow> ts_disk s' = ts_disk s \<and> ts_mtimes s' = ts_mtimes s"

named_theorems tool_parts

lemma ask_parts [tool_parts]:
  assumes "ask w q s = (g, s')"
  shows "undisturbed w \<Longrightarrow> same_disk s s'" "ts_records s' = ts_records s" "ts_history s' = ts_history s"
    "g = fst (request_permission (tw_wd w) (tw_answer w (ts_tick s)) q (ts_perm s))" "ts_tick s' = Suc (ts_tick s)"
    "ts_perm s' = snd (request_permission (tw_wd w) (tw_answer w (ts_tick s)) q (ts_perm s))"
  using assms by (auto simp: ask_def same_disk_def undisturbed_def Let_def split: prod.splits)

lemma write_content_parts [tool_parts]:
  assumes "write_content w p c s = (g, s')"
  shows "\<not> g \<Longrightarrow> s' = s" "g \<Longrightarrow> reads (ts_disk s') = (reads (ts_disk s))(path_clean p \<mapsto> c)"
    "ts_records s' = ts_records s" "ts_history s' = ts_history s" "ts_perm s' = ts_perm s"
    "g \<Longrightarrow> write_file (path_clean p) c (ts_disk s) = Inr (ts_disk s')"
    "g \<Longrightarrow> mtime_of (ts_mtimes s') (path_clean p) = tw_now w (ts_tick s)" "g \<Longrightarrow> ts_tick s' = Suc (ts_tick s)"
  using assms by (auto simp: write_content_def mtime_of_def dest: write_file_reads split: sum.splits)

lemma write_content_either:
  "write_content w p c s = (g, s') \<Longrightarrow> s' = s \<or> reads (ts_disk s') = (reads (ts_disk s))(path_clean p \<mapsto> c)"
  using write_content_parts(1,2) by blast

lemma keep_created_parts [tool_parts]:
  assumes "keep_created w p c s = (g, s')"
  shows "same_disk s s'" "ts_records s' = ts_records s" "ts_perm s' = ts_perm s" "ts_tick s' = Suc (ts_tick s)"
  using assms by (auto simp: keep_created_def same_disk_def split: option.splits prod.splits)

lemma keep_version_parts [simp]:
  "ts_disk (keep_version w p c s) = ts_disk s" "ts_mtimes (keep_version w p c s) = ts_mtimes s"
  "ts_records (keep_version w p c s) = ts_records s" "ts_perm (keep_version w p c s) = ts_perm s"
  "ts_tick (keep_version w p c s) = Suc (ts_tick s)"
  by (simp_all add: keep_version_def split: option.split prod.split)

lemma record_parts [simp]:
  "ts_disk (record_read w p s) = ts_disk s" "ts_mtimes (record_read w p s) = ts_mtimes s"
  "ts_disk (record_write w p s) = ts_disk s" "ts_mtimes (record_write w p s) = ts_mtimes s"
  "last_read (record_read w p s) p = tw_now w (ts_tick s)" "last_read (record_write w p s) q = last_read s q"
  "ts_tick (record_read w p s) = Suc (ts_tick s)" "ts_tick (record_write w p s) = Suc (ts_tick s)"
  by (auto simp: record_read_def record_write_def last_read_def record_of_def split: option.split)

lemma keep_history_parts [tool_parts]:
  assumes "keep_history w p old new s = (g, s')"
  shows "same_disk s s'" "ts_records s' = ts_records s" "ts_perm s' = ts_perm s" "ts_tick s < ts_tick s'"
proof -
  obtain ok s1 where s1: "(if get_by_path_and_session (tw_env w) p (tw_session w) (ts_history s) = None then keep_created w p old s else (True, s)) = (ok, s1)"
    by (cases "if get_by_path_and_session (tw_env w) p (tw_session w) (ts_history s) = None then keep_created w p old s else (True, s)")
  then have "same_disk s s1 \<and> ts_records s1 = ts_records s \<and> ts_perm s1 = ts_perm s \<and> ts_tick s \<le> ts_tick s1 \<and> (\<not> ok \<longrightarrow> ts_tick s < ts_tick s1)"
    by (auto simp: same_disk_def split: if_splits dest: keep_created_parts)
  then show "same_disk s s'" "ts_records s' = ts_records s" "ts_perm s' = ts_perm s" "ts_tick s < ts_tick s'"
    using assms s1 by (auto simp: keep_history_def Let_def same_disk_def split: if_splits)
qed

lemma same_disk_stat: "same_disk s s' \<Longrightarrow> stat_of s' p = stat_of s p"
  by (simp add: same_disk_def stat_of_def Let_def)

lemma same_disk_read: "same_disk s s' \<Longrightarrow> read_content s' p = read_content s p"
  by (simp add: same_disk_def read_content_def)

text \<open>From the permission on: what is written is the new content, of this file only.\<close>

lemma finish_write_cases:
  assumes "finish_write w p q old new kept reply s = (r, s')" "undisturbed w"
  obtains (refused) f where "r = Failed f" "same_disk s s'" "ts_records s' = ts_records s"
  | (lost) "r = Failed F_History" "reads (ts_disk s') = (reads (ts_disk s))(path_clean p \<mapsto> new)"
  | (written) "r = Text reply" "reads (ts_disk s') = (reads (ts_disk s))(path_clean p \<mapsto> new)"
proof (cases "no_context w")
  case True
  with assms(1) show ?thesis by (intro refused) (auto simp: finish_write_def same_disk_def)
next
  case False
  obtain g s1 where a: "ask w q s = (g, s1)" by force
  note ask = ask_parts [OF a]
  obtain h s2 where b: "write_content w p new s1 = (h, s2)" by force
  note wr = write_content_parts [OF b]
  obtain k s3 where c: "keep_history w p old kept s2 = (k, s3)" by force
  note kh = keep_history_parts [OF c]
  have e: "(r, s') = (if \<not> g then (Failed F_Denied, s1) else if \<not> h then (Failed F_Write, s2)
      else if \<not> k then (Failed F_History, s3) else (Text reply, record_read w p (record_write w p s3)))"
    using assms(1) False by (auto simp: finish_write_def a b c)
  have d: "reads (ts_disk s2) = (reads (ts_disk s))(path_clean p \<mapsto> new)" if h
    using wr(2) [OF that] ask(1) [OF assms(2)] by (simp add: same_disk_def)
  show ?thesis
  proof (cases "g \<and> h")
    case True
    then show ?thesis using e d kh(1) by (cases k) (auto simp: same_disk_def intro: lost written)
  next
    case f: False
    then show ?thesis using e ask(1) [OF assms(2)] ask(2) wr(1,3)
      by (cases g) (auto intro: refused)
  qed
qed


text \<open>What a step does to the files: nothing, or it sets the contents of one.\<close>

definition sets_only :: "path \<Rightarrow> tool_state \<Rightarrow> tool_state \<Rightarrow> bool" where
  "sets_only p s s' \<longleftrightarrow> (\<forall>q. q \<noteq> path_clean p \<longrightarrow> reads (ts_disk s') q = reads (ts_disk s) q)"

lemma sets_only_refl: "sets_only p s s"
  by (simp add: sets_only_def)

lemma sets_only_trans: "sets_only p s1 s2 \<Longrightarrow> sets_only p s2 s3 \<Longrightarrow> sets_only p s1 s3"
  by (simp add: sets_only_def)

lemma finish_write_sets:
  "finish_write w p q old new kept reply s = (r, s') \<Longrightarrow> undisturbed w \<Longrightarrow> sets_only p s s'"
  by (erule finish_write_cases) (auto simp: sets_only_def same_disk_def)

lemma delete_content_sets:
  assumes "delete_content w p old s = (r, s')" "undisturbed w"
  shows "sets_only p s s'" "check_read s p = Some e \<Longrightarrow> r = e \<and> s' = s"
  using assms by (auto simp: delete_content_def sets_only_refl dest: finish_write_sets split: option.splits if_splits)

lemma replace_content_sets:
  assumes "replace_content w p old new s = (r, s')" "undisturbed w"
  shows "sets_only p s s'" "check_read s p = Some e \<Longrightarrow> r = e \<and> s' = s"
  using assms by (auto simp: replace_content_def sets_only_refl Let_def dest: finish_write_sets split: option.splits if_splits)

lemma create_new_file_sets:
  assumes "create_new_file w p c s = (r, s')" "undisturbed w"
  shows "sets_only p s s'" "stat_of s p = Stat_File t \<Longrightarrow> r = Refused R_Exists \<and> s' = s"
proof -
  show "stat_of s p = Stat_File t \<Longrightarrow> r = Refused R_Exists \<and> s' = s" using assms(1) by (simp add: create_new_file_def)
  show "sets_only p s s'"
    using assms
    by (auto simp: create_new_file_def Let_def sets_only_def same_disk_def
        dest!: ask_parts(1) write_content_either keep_created_parts(1) mkdir_all_reads
        split: file_stat.splits sum.splits prod.splits if_splits)
qed

lemma stat_of_read: "reads (ts_disk s) (path_clean p) = Some c \<Longrightarrow> stat_of s p = Stat_File (mtime_of (ts_mtimes s) (path_clean p))"
  by (auto simp: stat_of_def reads_alt Let_def split: if_splits)

lemma check_read_None:
  "check_read s p = None \<longleftrightarrow> (\<exists>t. stat_of s p = Stat_File t \<and> last_read s p \<noteq> 0 \<and> t \<le> last_read s p)"
  by (auto simp: check_read_def split: file_stat.splits)

lemma check_read_no_text: "check_read s p \<noteq> Some (Text t)"
  by (simp add: check_read_def split: file_stat.split)

lemma check_read_Some: "stat_of s p = Stat_File t \<Longrightarrow> check_read s p = Some e \<Longrightarrow> e = Refused R_Unread \<or> e = Refused R_Modified"
  by (auto simp: check_read_def split: if_splits)




lemma length_split_on: "length (split_on c s) \<le> Suc (length s)"
  by (induction c s rule: split_on.induct) (auto split: list.splits)

lemma index_of_Nil: "index_of s [] = Some 0"
  by (cases s) (simp_all add: has_prefix_def)

lemma last_index_of_Nil: "last_index_of s [] = Some (length s)"
  by (induction s) simp_all

text \<open>A clock that is set and does not run backwards.\<close>

definition good_clock :: "tool_world \<Rightarrow> bool" where
  "good_clock w \<longleftrightarrow> (\<forall>n. 0 < tw_now w n) \<and> mono (tw_now w)"

definition writable :: "tool_state \<Rightarrow> path \<Rightarrow> bool" where
  "writable s p \<longleftrightarrow> (\<exists>d. write_file (path_clean p) [] (ts_disk s) = Inr d)"

lemma writable_any: "writable s p \<Longrightarrow> \<exists>s'. write_content w p c s = (True, s')"
  by (auto simp: writable_def write_content_def write_file_def split: if_splits)


text \<open>The parts of the patch tool.\<close>

lemma keep_change_disk [simp]: "ts_disk (keep_change w f x s) = ts_disk s"
proof -
  have k: "ts_disk s' = ts_disk s" if "keep_created w p c s = (g, s')" for p c g s'
    using keep_created_parts(1) [OF that] by (simp add: same_disk_def)
  show ?thesis by (auto simp: keep_change_def Let_def dest: k split: prod.split)
qed

lemma mkdir_all_writable:
  "mkdir_all q d = Inr d' \<Longrightarrow> reads d p = Some c \<Longrightarrow> write_file p x d = Inr e \<Longrightarrow> \<exists>e'. write_file p y d' = Inr e'"
  by (auto simp: mkdir_all_def write_file_def reads_alt list_ex_iff Let_def split: if_splits)

lemma rewrite_adds:
  assumes "LF \<notin> set f" "fair_walks wk"
  shows "identify_files_added (wk_paths wk) (patch_text (rewrite_lines f old new)) = []"
proof -
  have none: "filter (\<lambda>l. has_prefix l (CHR ''*'' # r)) (map ((#) CHR ''-'') xs) = []"
    "filter (\<lambda>l. has_prefix l (CHR ''*'' # r)) (map ((#) CHR ''+'') xs) = []" for r xs
    by (induction xs) simp_all
  have "wk_paths wk [] = []" using assms(2) by (metis fair_walks_def mset_zero_iff)
  then show ?thesis
    unfolding identify_files_added_def patch_text_lines(1) [OF rewrite_lines_flat [OF assms(1)]]
    by (simp add: rewrite_lines_def paths_after_def none)
qed

section \<open>Properties\<close>

definition ex_world :: tool_world where
  "ex_world = \<lparr>tw_wd = ''/r'', tw_session = ''s'', tw_message = ''m'', tw_now = (\<lambda>n. int n + 10), tw_seconds = int, tw_ids = nat_str,
    tw_answer = (\<lambda>_ _. Grant), tw_others = (\<lambda>_ x. x), tw_env = ex_history_env, tw_walks = (\<lambda>_. ex_walks),
    tw_counts = (\<lambda>_ _ _. (0, 0)), tw_lower = id\<rparr>"

definition ex_tool_state :: tool_state where
  "ex_tool_state = \<lparr>ts_disk = \<lparr>d_files = [(''/r/f'', ''abc'')], d_dirs = [''/'', ''/r''], d_bad = []\<rparr>, ts_mtimes = [(''/r/f'', 5)],
    ts_records = [(''/r/f'', \<lparr>fr_read = 6, fr_write = 0\<rparr>)], ts_perm = new_permissions, ts_history = [], ts_tick = 0\<rparr>"

lemma ex_world_good:
  "undisturbed ex_world" "good_clock ex_world" "newest_first (he_newest (tw_env ex_world))" "\<not> no_context ex_world"
  using stable_rows.newest_first_axioms
  by (auto simp: undisturbed_def good_clock_def ex_world_def no_context_def ex_history_env_def intro: monoI)

lemma ex_paths: "abs_path ex_world ''f'' = ''/r/f''" "abs_path ex_world ''g'' = ''/r/g''" "path_clean ''/r/f'' = ''/r/f''" "path_clean ''/r/g'' = ''/r/g''"
  by code_simp+

lemma ex_readable: "check_read ex_tool_state ''/r/f'' = None" "read_content ex_tool_state ''/r/f'' = Some ''abc''"
  "reads (ts_disk ex_tool_state) ''/r/f'' = Some ''abc''"
  by code_simp+

lemma ex_writable: "writable ex_tool_state ''/r/f''"
  unfolding writable_def ex_paths by (simp add: write_file_def ex_tool_state_def)



text \<open> C27: without anybody else at work, the edit tool and the write tool change an existing file only if it is
  the one they were called for and it has been read since it was last modified. \<close>

theorem existing_files_need_reading:
  assumes "undisturbed w" "edit_run w path old new s = (r, s') \<or> write_run w path new s = (r, s')"
    and "reads (ts_disk s) q = Some c" "reads (ts_disk s') q \<noteq> Some c"
  shows "q = path_clean (abs_path w path) \<and> mtime_of (ts_mtimes s) q \<le> last_read s (abs_path w path)"
proof -
  let ?p = "abs_path w path"
  have only: "sets_only ?p s s'" using assms(2)
  proof
    assume "edit_run w path old new s = (r, s')"
    then show ?thesis
      by (auto simp: edit_run_def Let_def sets_only_refl split: if_splits prod.splits
          dest!: create_new_file_sets(1) [OF _ assms(1)] delete_content_sets(1) [OF _ assms(1)] replace_content_sets(1) [OF _ assms(1)]
          intro: sets_only_trans)
  next
    assume "write_run w path new s = (r, s')"
    then show ?thesis
      by (auto simp: write_run_def Let_def sets_only_refl sets_only_def dest!: finish_write_sets [OF _ assms(1)] mkdir_all_reads
          split: if_splits prod.splits sum.splits option.splits)
  qed
  then have q: "q = path_clean ?p" using assms(3,4) by (auto simp: sets_only_def)
  then have st: "stat_of s ?p = Stat_File (mtime_of (ts_mtimes s) q)" using stat_of_read [of s ?p c] assms(3) by simp
  have "mtime_of (ts_mtimes s) q \<le> last_read s ?p"
  proof (rule ccontr)
    assume late: "\<not> ?thesis"
    then obtain e where e: "check_read s ?p = Some e" using st by (cases "last_read s ?p = 0") (auto simp: check_read_def)
    have new: "create_new_file w ?p new s = (Refused R_Exists, s)" using st by (simp add: create_new_file_def)
    have del: "delete_content w ?p x s = (e, s)" and rep: "replace_content w ?p x y s = (e, s)" for x y
      using e by (simp_all add: delete_content_def replace_content_def)
    have ok: "\<not> failed_reply e" "\<not> failed_reply (Refused R_Exists)"
      using check_read_Some [OF st e] by (auto simp: failed_reply_def)
    have "edit_run w path old new s = (r, s') \<Longrightarrow> s' = s"
      by (auto simp: edit_run_def Let_def new del rep ok split: if_splits)
    moreover have "write_run w path new s = (r, s') \<Longrightarrow> s' = s"
      using late st by (auto simp: write_run_def Let_def split: if_splits)
    ultimately have "s' = s" using assms(2) by blast
    then show False using assms(3,4) by simp
  qed
  with q show ?thesis by blast
qed

lemma existing_files_need_reading_witness:
  "''/r/f'' = path_clean (abs_path ex_world ''f'') \<and> mtime_of (ts_mtimes ex_tool_state) ''/r/f'' \<le> last_read ex_tool_state (abs_path ex_world ''f'')"
proof -
  have "reads (ts_disk (snd (edit_run ex_world ''f'' ''b'' ''x'' ex_tool_state))) ''/r/f'' \<noteq> Some ''abc''" by code_simp
  then show ?thesis
    using existing_files_need_reading [OF ex_world_good(1) disjI1 [OF surjective_pairing] ex_readable(3)] by blast
qed


text \<open>A user who refuses everything.\<close>

definition refused_user :: "tool_world \<Rightarrow> tool_state \<Rightarrow> bool" where
  "refused_user w s \<longleftrightarrow> (\<forall>n q. tw_answer w n q = Deny) \<and> tw_session w \<notin> set (pm_auto (ts_perm s)) \<and> pm_granted (ts_perm s) = []"

lemma ask_refused:
  assumes "refused_user w s" "ask w q s = (g, s')" "pq_session q = tw_session w"
  shows "\<not> g"
  using assms ask_parts(4) [OF assms(2)] by (simp add: refused_user_def request_permission_def Let_def)

lemma request_session [simp]: "pq_session (tool_request w a b c p) = tw_session w"
  by (simp add: tool_request_def)

lemma finish_write_refused:
  assumes "refused_user w s" "undisturbed w" "finish_write w p q old new kept reply s = (r, s')" "pq_session q = tw_session w"
  shows "(\<exists>f. r = Failed f) \<and> same_disk s s'"
proof -
  obtain g s1 where a: "ask w q s = (g, s1)" by force
  from ask_refused [OF assms(1) a assms(4)] ask_parts(1) [OF a assms(2)] assms(3) show ?thesis
    by (auto simp: finish_write_def a same_disk_def split: if_splits)
qed

text \<open> C26: without consent nothing is written: when the session is not approved, nothing was granted and the
  user refuses, the edit, write and patch tools leave the contents of all files alone. \<close>

theorem nothing_without_consent:
  assumes "refused_user w s" "undisturbed w" "\<forall>n. fair_walks (tw_walks w n)"
    and "edit_run w path old new s = (r, s') \<or> write_run w path new s = (r, s') \<or> patch_run w text s = Some (r, s')"
  shows "reads (ts_disk s') = reads (ts_disk s)"
  using assms(4)
proof (elim disjE)
  assume e: "edit_run w path old new s = (r, s')"
  let ?p = "abs_path w path"
  have del: "(s2 = s \<or> failed_reply r2) \<and> reads (ts_disk s2) = reads (ts_disk s)" if "delete_content w ?p x s = (r2, s2)" for x r2 s2
    using that finish_write_refused [OF assms(1,2)]
    by (fastforce simp: delete_content_def failed_reply_def same_disk_def split: option.splits if_splits)
  have rep: "reads (ts_disk s2) = reads (ts_disk s)" if "replace_content w ?p x y s = (r2, s2)" for x y r2 s2
    using that finish_write_refused [OF assms(1,2)]
    by (fastforce simp: replace_content_def Let_def same_disk_def split: option.splits if_splits)
  have new: "(s2 = s \<or> failed_reply r2) \<and> reads (ts_disk s2) = reads (ts_disk s)" if "create_new_file w ?p x s = (r2, s2)" for x r2 s2
  proof -
    have "\<not> g \<and> same_disk (s\<lparr>ts_disk := d\<rparr>) s1"
      if "ask w (tool_request w a b m p) (s\<lparr>ts_disk := d\<rparr>) = (g, s1)" for a b m p d g s1
      using ask_refused [OF _ that] ask_parts(1) [OF that assms(2)] assms(1) by (auto simp: refused_user_def)
    with that show ?thesis
      by (fastforce simp: create_new_file_def failed_reply_def same_disk_def Let_def dest: mkdir_all_reads
          split: file_stat.splits sum.splits prod.splits if_splits)
  qed
  from e show ?thesis
    by (auto simp: edit_run_def Let_def split: if_splits prod.splits dest!: new del rep)
next
  assume "write_run w path new s = (r, s')"
  then show ?thesis using finish_write_refused [of w "s\<lparr>ts_disk := d\<rparr>" for d] assms(1,2)
    by (fastforce simp: write_run_def Let_def refused_user_def same_disk_def dest: mkdir_all_reads
        split: if_splits prod.splits sum.splits option.splits)
next
  assume "patch_run w text s = Some (r, s')"
  then have "s' = s \<or> (\<exists>c. patch_with w c s = (r, s'))"
    by (auto simp: patch_run_def Let_def split: if_splits option.splits sum.splits prod.splits)
  moreover have "reads (ts_disk s') = reads (ts_disk s)" if "patch_with w c s = (r, s')" for c
  proof (cases "c = []")
    case True
    then have "wk_changes (tw_walks w n) c = []" for n
      using assms(3) fair_walks_def by (metis mset_zero_iff)
    with True that show ?thesis by (auto simp: patch_with_def apply_commit_def keep_changes_def split: if_splits)
  next
    case False
    then have "wk_changes (tw_walks w (ts_tick s)) c \<noteq> []" using assms(3) fair_walks_def by (metis mset_zero_iff)
    then obtain f x c' where c': "wk_changes (tw_walks w (ts_tick s)) c = (f, x) # c'" by (metis neq_Nil_conv surj_pair)
    have "\<exists>e s1. ask_changes w ((f, x) # c') s = (Some e, s1) \<and> same_disk s s1"
    proof (cases "change_request w f x")
      case (Inr q)
      then have "pq_session q = tw_session w" by (auto simp: change_request_def split: action_type.splits if_splits)
      moreover obtain g s1 where a: "ask w q s = (g, s1)" by force
      ultimately show ?thesis using Inr ask_refused [OF assms(1) a] ask_parts(1) [OF a assms(2)] by simp
    qed (simp add: same_disk_def)
    then show ?thesis using that c' by (auto simp: patch_with_def same_disk_def split: if_splits)
  qed
  ultimately show ?thesis by blast
qed

lemma nothing_without_consent_witness:
  "reads (ts_disk (snd (edit_run (ex_world\<lparr>tw_answer := \<lambda>_ _. Deny\<rparr>) ''f'' ''b'' ''x'' ex_tool_state))) = reads (ts_disk ex_tool_state)"
proof -
  let ?w = "ex_world\<lparr>tw_answer := \<lambda>_ _. Deny\<rparr>"
  have "refused_user ?w ex_tool_state" "undisturbed ?w" "\<forall>n. fair_walks (tw_walks ?w n)"
    by (simp_all add: refused_user_def undisturbed_def ex_world_def ex_tool_state_def new_permissions_def ex_walks_fair)
  then show ?thesis by (rule nothing_without_consent) (rule disjI1, rule surjective_pairing)
qed


text \<open> A created file is reported as a failure: when the edit tool creates a file, it goes on to replace the
  empty text in it, which occurs more than once, so the reply is an error although the file is there. \<close>

theorem edit_create_reports_failure:
  assumes "undisturbed w" "path \<noteq> []" "new \<noteq> []" "create_new_file w (abs_path w path) new s = (Text t, s')"
  shows "\<exists>r. edit_run w path [] new s = (Refused r, s') \<and> reads (ts_disk s') (path_clean (abs_path w path)) = Some new"
proof -
  let ?p = "abs_path w path"
  have r: "reads (ts_disk s') (path_clean ?p) = Some new"
    using assms(4) by (auto simp: create_new_file_def Let_def same_disk_def dest!: write_content_parts(2) keep_created_parts(1)
        split: file_stat.splits sum.splits prod.splits if_splits)
  have "\<exists>e. replace_content w ?p [] new s' = (Refused e, s')"
  proof (cases "check_read s' ?p")
    case None
    then show ?thesis using r assms(3) by (simp add: replace_content_def read_content_def index_of_Nil last_index_of_Nil)
  next
    case (Some e)
    then show ?thesis using check_read_Some [OF stat_of_read [OF r] Some] by (auto simp: replace_content_def)
  qed
  then show ?thesis using assms(2-4) r by (auto simp: edit_run_def failed_reply_def in_result_def)
qed

lemma edit_create_reports_failure_witness:
  "\<exists>r s'. edit_run ex_world ''g'' [] ''x'' ex_tool_state = (Refused r, s') \<and> reads (ts_disk s') ''/r/g'' = Some ''x''"
proof -
  have "fst (create_new_file ex_world (abs_path ex_world ''g'') ''x'' ex_tool_state) = Text ''File created: /r/g''" by code_simp
  then have "create_new_file ex_world (abs_path ex_world ''g'') ''x'' ex_tool_state =
      (Text ''File created: /r/g'', snd (create_new_file ex_world (abs_path ex_world ''g'') ''x'' ex_tool_state))"
    by (metis prod.collapse)
  from edit_create_reports_failure [OF ex_world_good(1) _ _ this] show ?thesis by (auto simp: ex_paths)
qed

text \<open> So is a deletion: after the edit tool has deleted a text that then no longer occurs, it looks for it
  once more and replies with an error. \<close>

theorem edit_delete_reports_failure:
  assumes "undisturbed w" "path \<noteq> []" "old \<noteq> []" "delete_content w (abs_path w path) old s = (Text t, s')"
    and "read_content s (abs_path w path) = Some c" "index_of c old = Some i" "index_of (splice i (length old) [] c) old = None"
  shows "\<exists>r. edit_run w path old [] s = (Refused r, s') \<and>
    reads (ts_disk s') (path_clean (abs_path w path)) = Some (splice i (length old) [] c)"
proof -
  let ?p = "abs_path w path" and ?c = "splice i (length old) [] c"
  have r: "reads (ts_disk s') (path_clean ?p) = Some ?c"
    using assms(4-6) by (auto simp: delete_content_def check_read_no_text split: option.splits if_splits elim!: finish_write_cases [OF _ assms(1)])
  have "\<exists>e. replace_content w ?p old [] s' = (Refused e, s')"
  proof (cases "check_read s' ?p")
    case None
    then show ?thesis using r assms(7) by (simp add: replace_content_def read_content_def)
  next
    case (Some e)
    then show ?thesis using check_read_Some [OF stat_of_read [OF r] Some] by (auto simp: replace_content_def)
  qed
  then show ?thesis using assms(2-4) r by (auto simp: edit_run_def failed_reply_def in_result_def)
qed

lemma edit_delete_reports_failure_witness:
  "\<exists>r s'. edit_run ex_world ''f'' ''b'' [] ex_tool_state = (Refused r, s') \<and> reads (ts_disk s') ''/r/f'' = Some ''ac''"
proof -
  let ?d = "delete_content ex_world (abs_path ex_world ''f'') ''b'' ex_tool_state"
  have "fst ?d = Text ''Content deleted from file: /r/f''" by code_simp
  then have d: "?d = (Text ''Content deleted from file: /r/f'', snd ?d)" by (metis prod.collapse)
  have "index_of ''abc'' ''b'' = Some 1" "splice 1 (length ''b'') [] ''abc'' = ''ac''" "index_of ''ac'' ''b'' = None" by code_simp+
  with edit_delete_reports_failure [OF ex_world_good(1) _ _ d, of "''abc''" 1] ex_readable show ?thesis by (auto simp: ex_paths)
qed

text \<open> The view tool shows lines with their numbers: of a file of short lines those from the offset on, at
  most \<open>limit\<close> of them; it says that there are more only when more than one is left. \<close>

theorem view_shows_lines:
  fixes w s path ls lim off
  defines "p \<equiv> abs_path w path" and "shown \<equiv> take lim (drop off ls)"
  assumes "path \<noteq> []" "reads (ts_disk s) (path_clean p) = Some (join_with [LF] ls)" "\<not> is_image_file w p"
    and "length (join_with [LF] ls) \<le> max_read_size" "0 < lim" "int lim < 2 ^ 62"
    and "\<forall>l \<in> set ls. LF \<notin> set l \<and> CR \<notin> set l \<and> length l \<le> 2000" "ls \<noteq> []" "last ls \<noteq> []" "join_with [LF] shown \<noteq> []"
  shows "view_run w path (int off) (int lim) s =
    (Text (''<file>'' @ [LF] @ join_with [LF] (map (\<lambda>(n, l). numbered_line (int n) l) (enumerate (Suc off) shown)) @
       (if Suc (off + lim) < length ls
        then more_lines (int (off + lim))
        else []) @ [LF] @ ''</file>'' @ [LF]),
     record_read w p s)"
proof -
  have sp: "split_on LF (join_with [LF] ls) = ls" by (rule split_on_join) (use assms(9,10) in auto)
  have "shown \<noteq> []" using assms(12) by auto
  have sub: "set shown \<subseteq> set ls" unfolding shown_def by (meson order_trans set_drop_subset set_take_subset)
  have sp2: "split_on LF (join_with [LF] shown) = shown"
    by (rule split_on_join) (use \<open>shown \<noteq> []\<close> sub assms(9) in auto)
  have tok: "view_tokens (join_with [LF] ls) = ls"
    using assms(9-11) by (auto simp: view_tokens_def sp drop_cr_def intro!: map_idI) (metis last_in_set)
  have "cut_line l = l" if "l \<in> set shown" for l using that sub assms(9) by (force simp: cut_line_def)
  then have cut: "map cut_line shown = shown" by (simp add: map_idI)
  have len: "length ls \<le> Suc max_read_size" using length_split_on [of LF "join_with [LF] ls"] sp assms(6) by simp
  have off: "off < length ls" using \<open>shown \<noteq> []\<close> by (auto simp: shown_def)
  have small: "int off + 1 < 2 ^ 62" "int (length ls) < 2 ^ 62" using len off by (simp_all add: max_read_size_def)
  have wrap: "wrap64 i = i" if "0 \<le> i" "i < 2 ^ 63" for i using that by (intro wrap64_id) (simp add: in_int64_def)
  have short: "\<not> list_ex (\<lambda>l. scan_max \<le> length l) ls" using assms(9) by (fastforce simp: list_ex_iff scan_max_def)
  define counted where "counted = int off + int (length shown) + int (length ls - off - Suc lim)"
  have lsh: "length shown = min lim (length ls - off)" by (simp add: shown_def min.commute)
  have bound: "int off + int (length shown) + int (length ls - off - Suc lim) \<le> int (length ls)" using off by (simp add: lsh)
  have opened: "read_text_file (join_with [LF] ls) (int off) (int lim) = Some (join_with [LF] shown, counted)"
    using bound small(2) by (simp add: counted_def read_text_file_def sp short tok cut Let_def wrap lsh min.commute flip: shown_def)
  have tail: "view_note (join_with [LF] shown) (int off) counted =
      (if Suc (off + lim) < length ls then more_lines (int (off + lim)) else [])"
  proof -
    have w: "wrap64 (int off + int (length shown)) = int off + int (length shown)" using bound small(2) by (intro wrap) auto
    have more: "int off + int (length shown) < counted \<longleftrightarrow> Suc (off + lim) < length ls" by (auto simp: counted_def)
    show ?thesis
    proof (cases "Suc (off + lim) < length ls")
      case True
      then have "int off + int (length shown) = int (off + lim)" by (simp add: lsh)
      moreover have "int off + int (length shown) < counted" using True more by blast
      ultimately show ?thesis using True unfolding view_note_def sp2 w Let_def by (simp only: if_True)
    next
      case False
      then have "\<not> int off + int (length shown) < counted" using more by blast
      then show ?thesis using False by (simp only: view_note_def sp2 w Let_def if_False)
    qed
  qed
  have numbers: "add_line_numbers (join_with [LF] shown) (wrap64 (int off + 1)) =
      join_with [LF] (map (\<lambda>(n, l). numbered_line (int n) l) (enumerate (Suc off) shown))"
  proof -
    have "wrap64 (int i + wrap64 (int off + 1)) = int (Suc off + i)" if "i < length shown" for i
    proof -
      have "i + off < length ls" using that by (simp add: lsh less_diff_conv)
      then have "int i + int off < 2 ^ 62" using small(2) by linarith
      then have i: "int i + (int off + 1) < 2 ^ 63" by simp
      have "wrap64 (int off + 1) = int off + 1" using small by (intro wrap) auto
      moreover have "wrap64 (int i + (int off + 1)) = int i + (int off + 1)" using i by (intro wrap) auto
      ultimately show ?thesis by simp
    qed
    then have "map (\<lambda>(i, l). numbered_line (wrap64 (int i + wrap64 (int off + 1))) l) (enumerate 0 shown) =
        map (\<lambda>(n, l). numbered_line (int n) l) (enumerate (Suc off) shown)"
      by (intro nth_equalityI) (simp_all add: nth_enumerate_eq)
    then show ?thesis using assms(12) by (simp add: add_line_numbers_def sp2)
  qed
  show ?thesis
    using assms(3-7) unfolding view_run_def p_def [symmetric]
    by (simp add: stat_of_read read_content_def opened tail numbers Let_def)
qed

lemma view_shows_lines_witness:
  "fst (view_run ex_world ''f'' 0 2 ex_tool_state) = Text (''<file>'' @ [LF] @ ''     1|abc'' @ [LF] @ ''</file>'' @ [LF])"
proof -
  have "\<not> is_image_file ex_world ''/r/f''" by code_simp
  moreover have "numbered_line 1 ''abc'' = ''     1|abc''" by code_simp
  ultimately show ?thesis
    using view_shows_lines [where w = ex_world and path = "''f''" and s = ex_tool_state and ls = "[''abc'']" and off = 0 and lim = 2,
        unfolded ex_paths] ex_readable by (simp add: max_read_size_def)
qed


text \<open> The patch tool, the parser, the permissions and the disk work together: a patch that rewrites a file
  that was read, once granted, leaves the new content in that file and changes nothing else. \<close>

theorem patch_rewrites_file:
  fixes w s f old new
  defines "p \<equiv> abs_path w f"
  assumes "f \<noteq> []" "LF \<notin> set f" "\<forall>n. fair_walks (tw_walks w n)" "check_read s p = None" "read_content s p = Some old"
    and "undisturbed w" "\<not> no_context w" "writable s p" "mkdir_all (path_dir p) (ts_disk s) = Inr d"
    and "fst (request_permission (tw_wd w) (tw_answer w (ts_tick s))
      (tool_request w ''patch'' ''update'' (''Update file '' @ f) (path_dir f)) (ts_perm s))"
  shows "\<exists>t s'. patch_run w (patch_text (rewrite_lines f old new)) s = Some (Text t, s') \<and>
    reads (ts_disk s') = (reads (ts_disk s))(path_clean p \<mapsto> new)"
proof -
  let ?t = "patch_text (rewrite_lines f old new)" and ?wk = "tw_walks w (ts_tick s)"
  let ?x = "\<lparr>fc_type = Action_Update, fc_old = Some old, fc_new = Some new, fc_move = None\<rparr>"
  have fair: "fair_walks (tw_walks w n)" for n using assms(4) by blast
  have "?t \<noteq> []" using patch_text_lines(2) [OF rewrite_lines_flat [OF assms(3)]] by (metis has_prefix_iff append_is_Nil_conv list.distinct(1))
  moreover have "check_needed w [f] s = None"
    using assms(5) by (auto simp: check_read_None p_def)
  moreover have "read_needed w [f] s = Some [(f, old)]" using assms(6) by (simp add: p_def)
  moreover have "text_to_patch ?t [(f, old)] = Some (Inr ([(f, rewrite_action old new)], 0))"
    by (rule rewrite_parses [OF assms(2,3)]) simp
  moreover have "patch_to_commit (wk_actions ?wk) [(f, rewrite_action old new)] [(f, old)] = Inr [(f, ?x)]"
    by (simp only: patch_to_commit_def fair_single [OF fair] rewrite_commit map_of.simps fun_upd_same fst_conv snd_conv)
  ultimately have run: "patch_run w ?t s = Some (patch_with w [(f, ?x)] s)"
    by (simp add: patch_run_def rewrite_needs [OF assms(3) fair] rewrite_adds [OF assms(3) fair])
  let ?q = "tool_request w ''patch'' ''update'' (''Update file '' @ f) (path_dir f)"
  obtain s1 where a: "ask w ?q s = (True, s1)" using ask_parts(4) [of w ?q s] assms(11) by (cases "ask w ?q s") auto
  have s1: "ts_disk s1 = ts_disk s" using ask_parts(1) [OF a assms(7)] by (simp add: same_disk_def)
  have "writable (s1\<lparr>ts_disk := d\<rparr>) p" using assms(6,9,10) s1
    by (auto simp: writable_def read_content_def dest: mkdir_all_writable)
  then obtain s2 where b: "write_content w p new (s1\<lparr>ts_disk := d\<rparr>) = (True, s2)" using writable_any by blast
  have "patch_write w f new s1 = (None, s2)" using assms(10) b s1 by (simp add: patch_write_def p_def)
  then have "\<exists>t. patch_with w [(f, ?x)] s = (Text t, keep_change w f ?x s2)"
    using assms(8) a by (simp add: patch_with_def fair_single [OF fair] change_request_def apply_commit_def apply_change_def keep_changes_def)
  moreover have "reads (ts_disk s2) = (reads (ts_disk s))(path_clean p \<mapsto> new)"
    using write_content_parts(2) [OF b] mkdir_all_reads [OF assms(10)] by simp
  ultimately show ?thesis using run by auto
qed


lemma patch_rewrites_file_witness:
  "\<exists>t s'. patch_run ex_world (patch_text (rewrite_lines ''/r/f'' ''abc'' ''x'')) ex_tool_state = Some (Text t, s') \<and>
    reads (ts_disk s') ''/r/f'' = Some ''x''"
proof -
  have "\<exists>d. mkdir_all (path_dir ''/r/f'') (ts_disk ex_tool_state) = Inr d"
  proof -
    have "\<not> isl (mkdir_all (path_dir ''/r/f'') (ts_disk ex_tool_state))" by code_simp
    then show ?thesis by (cases "mkdir_all (path_dir ''/r/f'') (ts_disk ex_tool_state)") auto
  qed
  then obtain d where d: "mkdir_all (path_dir ''/r/f'') (ts_disk ex_tool_state) = Inr d" by blast
  have p: "abs_path ex_world ''/r/f'' = ''/r/f''" by code_simp
  have "fst (request_permission (tw_wd ex_world) (tw_answer ex_world (ts_tick ex_tool_state))
      (tool_request ex_world ''patch'' ''update'' (''Update file '' @ ''/r/f'') (path_dir ''/r/f'')) (ts_perm ex_tool_state))"
    by code_simp
  moreover have "\<forall>n. fair_walks (tw_walks ex_world n)" by (simp add: ex_world_def ex_walks_fair)
  ultimately show ?thesis
    using patch_rewrites_file [of "''/r/f''" ex_world ex_tool_state "''abc''" d "''x''", unfolded p] d ex_readable ex_writable ex_world_good
    by (auto simp: ex_paths)
qed

end
