(* ===== verification/Oracle.thy ===== *)
theory Oracle
  imports Mission_Meter Mission_DAG
begin

text \<open>
  The escalation of a thrashing mission, \<open>god/oracle.go\<close>: the prompt with the state of the mission,
  the call of the provider, the check of its plan and the event that records it.

  The provider is a state with a function \<open>send\<close>; the decoding of its answer and the random id are
  parameters, as are the clock and its RFC 3339 text of theory \<open>Lean_TSLN\<close>. The validation of the
  plan is that of theory \<open>Mission_DAG\<close>.
\<close>

section \<open>The prompt\<close>

record oracle_request =
  oq_spec :: string
  oq_ledger :: string
  oq_failing :: string
  oq_symbols :: "string list option"
  oq_metrics :: "mission_metrics option"

record oracle_env =
  oe_tsln :: tsln_env
  oe_lean :: bool
  oe_id :: string
  oe_row_now :: int
  oe_now :: int

definition oracle_template :: string where
  "oracle_template = join_with [LF]
     [''You are the Cloud God Oracle for GENESIS SSMP.'',
      ''A mission has entered THRASHING state and requires your intervention.'',
      [],
      ''You will receive a state vector containing:'',
      ''- The original task specification (spec_blob_id)'',
      ''- Recent decision history (decision_ledger_blob_id)'',
      ''- Failing test output (failing_test_blob_id)'',
      ''- Relevant symbols (symbol_shortlist)'',
      ''- Mission metrics showing the thrashing pattern (metrics_summary)'',
      [],
      ''Your job is to analyze the thrashing pattern and produce a corrected mission plan.'',
      [],
      ''RESPOND WITH EXACTLY ONE JSON OBJECT matching this schema:'',
      ''{'',
      ''  \"updated_dag\": {'',
      ''    \"plan_id\": \"<new unique plan ID>\",'',
      ''    \"task_desc\": \"<updated task description>\",'',
      ''    \"repo_path\": \"<repo path>\",'',
      ''    \"nodes\": ['',
      ''      {'',
      ''        \"mission\": {'',
      ''          \"mission_id\": \"<unique ID>\",'',
      ''          \"goal\": \"<goal>\",'',
      ''          \"base_rev\": \"HEAD\",'',
      ''          \"scopes\": [{\"scope_type\": \"symbol|file\", \"scope_value\": \"<name>\"}],'',
      ''          \"lease_ids\": [],'',
      ''          \"tasks\": [\"<task>\"],'',
      ''          \"token_budget\": 8000,'',
      ''          \"created_at\": \"<RFC3339>\"'',
      ''        },'',
      ''        \"depends_on\": []'',
      ''      }'',
      ''    ],'',
      ''    \"created_at\": \"<RFC3339>\"'',
      ''  },'',
      ''  \"leases_plan\": [{\"scope_type\": \"symbol|file\", \"scope_value\": \"<name>\"}],'',
      ''  \"risk_hotspots\": [\"<file_path_or_symbol>\"],'',
      ''  \"recommended_tests\": [\"<test_command_or_selector>\"]'',
      ''}'',
      [],
      ''Do NOT include any text outside the JSON object. Output ONLY valid JSON.'']"

definition tsln_note :: string where
  "tsln_note = [LF] @ ''METRICS FORMAT: TSLN pipe-delimited. Schema header has field names. +N = delta, = = repeat.''"

definition strings_json :: "string list option \<Rightarrow> json" where
  "strings_json xs = (case xs of None \<Rightarrow> JNull | Some ys \<Rightarrow> JArr (map JStr ys))"

definition metrics_json :: "mission_metrics \<Rightarrow> json" where
  "metrics_json m =
     JObj ([(''mission_id'', JStr (mm_id m)), (''pf_count'', jint (mm_pf_count m)), (''pf_response_size_total'', jint (mm_pf_size m)),
            (''retries'', jint (mm_retries m)), (''rejects'', jint (mm_rejects m)), (''conflicts'', jint (mm_conflicts m)),
            (''test_failures'', jint (mm_failures m)), (''tokens_in'', jint (mm_in m)), (''tokens_out'', jint (mm_out m)),
            (''started_at'', JStr (mm_started m)), (''elapsed_ms'', jint (mm_elapsed m)), (''turns'', jint (mm_turns m)),
            (''status'', JStr (mm_status m))] @
           (if mm_phases m = 0 then [] else [(''phase_transitions'', jint (mm_phases m))]) @
           (if mm_reason m = [] then [] else [(''thrash_reason'', JStr (mm_reason m))]))"

definition request_json :: "oracle_request \<Rightarrow> json" where
  "request_json q =
     JObj ([(''spec_blob_id'', JStr (oq_spec q))] @
           (if oq_ledger q = [] then [] else [(''decision_ledger_blob_id'', JStr (oq_ledger q))]) @
           (if oq_failing q = [] then [] else [(''failing_test_blob_id'', JStr (oq_failing q))]) @
           [(''symbol_shortlist'', strings_json (oq_symbols q)),
            (''metrics_summary'', case oq_metrics q of None \<Rightarrow> JNull | Some m \<Rightarrow> metrics_json m)])"

definition envelope_json :: "oracle_request \<Rightarrow> json" where
  "envelope_json q =
     JObj [(''decision_ledger_blob_id'', JStr (oq_ledger q)), (''failing_test_blob_id'', JStr (oq_failing q)),
           (''spec_blob_id'', JStr (oq_spec q)), (''symbol_shortlist'', strings_json (oq_symbols q))]"

text \<open>The time of the row is the start of the mission, when that parses.\<close>

definition metrics_to_lean_row :: "oracle_env \<Rightarrow> mission_metrics \<Rightarrow> metrics_row" where
  "metrics_to_lean_row oe m =
     metrics_row_of
       (if mm_started m = [] then oe_row_now oe
        else case te_parse (oe_tsln oe) (mm_started m) of None \<Rightarrow> oe_row_now oe | Some t \<Rightarrow> t) m"

definition tsln_mark :: string where
  "tsln_mark = [LF, LF] @ ''--- METRICS (TSLN) ---'' @ [LF]"

definition state_text :: "oracle_env \<Rightarrow> oracle_request \<Rightarrow> string" where
  "state_text oe q =
     (let plain = json_text (request_json q)
      in case oq_metrics q of
           None \<Rightarrow> plain
         | Some m \<Rightarrow>
             (if oe_lean oe
              then (case encode_metrics_row (oe_tsln oe) (metrics_to_lean_row oe m) of
                      Inl e \<Rightarrow> plain | Inr doc \<Rightarrow> json_text (envelope_json q) @ tsln_mark @ doc)
              else plain))"

definition state_mark :: string where
  "state_mark = [LF, LF] @ ''--- STATE VECTOR ---'' @ [LF]"

definition build_oracle_prompt :: "oracle_env \<Rightarrow> oracle_request \<Rightarrow> mission_pack" where
  "build_oracle_prompt oe q =
     (let state = state_text oe q
      in \<lparr>mp_header = oracle_template @ (if oe_lean oe then tsln_note else []) @ state_mark @ state,
          mp_mission = \<lparr>mi_id = ''oracle-'' @ oe_id oe, mi_goal = ''Resolve thrashing mission'', mi_base_rev = ''HEAD'',
            mi_scopes = [], mi_leases = [], mi_tasks = [''oracle_resolution''], mi_budget = 16000,
            mi_created = te_fmt (oe_tsln oe) (oe_now oe)\<rparr>,
          mp_shards = [], mp_endpoint = [],
          mp_budget = \<lparr>bm_budget = 16000, bm_header = 0, bm_mission = 0, bm_shards = 0,
            bm_total = estimate_tokens state + estimate_tokens oracle_template, bm_included = 0, bm_dropped = 0\<rparr>,
          mp_prompt = None, mp_phase = []\<rparr>)"

section \<open>Escalation\<close>

datatype oracle_failure = Send_Failed string | Bad_Answer | Bad_Plan oracle_error

record 'p escalator =
  oc_enabled :: bool
  oc_provider :: "'p option"
  oc_client :: client

definition escalation_event :: "oracle_request \<Rightarrow> oracle_response \<Rightarrow> mission_dag \<Rightarrow> json" where
  "escalation_event q r dag =
     JObj [(''leases_count'', jint (int (case or_leases r of None \<Rightarrow> 0 | Some xs \<Rightarrow> length xs))), (''new_plan_id'', JStr (dag_plan dag)),
           (''nodes_count'', jint (int (length (nodes_of dag)))), (''recommended_tests'', strings_json (or_tests r)),
           (''risk_hotspots'', strings_json (or_hotspots r)), (''spec_blob_id'', JStr (oq_spec q)), (''type'', JStr ''oracle_escalation'')]"

text \<open>\<open>None\<close>: the validation does not return. A response that passed has a plan.\<close>

definition escalate ::
  "world \<Rightarrow> oracle_env \<Rightarrow> ('p \<Rightarrow> mission_pack \<Rightarrow> (string + string) \<times> 'p) \<Rightarrow> (string \<Rightarrow> oracle_response option) \<Rightarrow>
   oracle_request \<Rightarrow> 'p escalator \<Rightarrow> ((oracle_failure + oracle_response option) \<times> 'p escalator) option" where
  "escalate w oe send decode q o1 =
     (case oc_provider o1 of
        None \<Rightarrow> Some (Inr None, o1)
      | Some p \<Rightarrow>
          (if \<not> oc_enabled o1 then Some (Inr None, o1)
           else let (ans, p') = send p (build_oracle_prompt oe q); o2 = o1\<lparr>oc_provider := Some p'\<rparr>
             in case ans of
                  Inl e \<Rightarrow> Some (Inl (Send_Failed e), o2)
                | Inr raw \<Rightarrow>
                    (case decode raw of
                       None \<Rightarrow> Some (Inl Bad_Answer, o2)
                     | Some r \<Rightarrow>
                         (case validate_oracle r of
                            None \<Rightarrow> None
                          | Some (Some e) \<Rightarrow> Some (Inl (Bad_Plan e), o2)
                          | Some None \<Rightarrow>
                              Some (Inr (Some r), o2\<lparr>oc_client := client_append_event w (escalation_event q r (the (or_dag r))) (oc_client o2)\<rparr>)))))"

definition escalate_on_thrash ::
  "world \<Rightarrow> oracle_env \<Rightarrow> ('p \<Rightarrow> mission_pack \<Rightarrow> (string + string) \<times> 'p) \<Rightarrow> (string \<Rightarrow> oracle_response option) \<Rightarrow>
   mission_metrics option \<Rightarrow> string \<Rightarrow> 'p escalator \<Rightarrow> ((oracle_failure + oracle_response option) \<times> 'p escalator) option" where
  "escalate_on_thrash w oe send decode metrics spec o1 =
     (case metrics of
        None \<Rightarrow> Some (Inr None, o1)
      | Some m \<Rightarrow>
          (if mm_status m \<noteq> ''thrashing'' then Some (Inr None, o1)
           else escalate w oe send decode
             \<lparr>oq_spec = spec, oq_ledger = [], oq_failing = [], oq_symbols = Some [], oq_metrics = metrics\<rparr> o1))"


section \<open>Properties\<close>

text \<open> An escalation always returns; the plan that it hands on has an id, nodes with ids and goals, and
  no cyclic dependency, and it is recorded in the event log, while without a plan the daemon is left alone. \<close>

theorem oracle_plan_sound:
  "\<exists>res o2. escalate w oe send decode q o1 = Some (res, o2) \<and>
    (case res of
       Inr (Some r) \<Rightarrow>
         (\<exists>dag ns. or_dag r = Some dag \<and> dag_plan dag \<noteq> [] \<and> dag_nodes dag = Some ns \<and> ns \<noteq> [] \<and>
            list_all (\<lambda>n. node_id n \<noteq> [] \<and> mi_goal (dn_mission n) \<noteq> []) ns \<and> acyclic (edges (deps_of ns)) \<and>
            oc_client o2 = client_append_event w (escalation_event q r dag) (oc_client o1))
     | _ \<Rightarrow> oc_client o2 = oc_client o1)"
proof (cases "oc_enabled o1 \<and> oc_provider o1 \<noteq> None")
  case True
  then obtain p where p: "oc_provider o1 = Some p" by blast
  obtain ans p' where s: "send p (build_oracle_prompt oe q) = (ans, p')" by force
  show ?thesis
  proof (cases ans)
    case (Inr raw)
    show ?thesis
    proof (cases "decode raw")
      case (Some r)
      obtain v where "validate_oracle r = Some v" and "v = None \<longleftrightarrow>
        (\<exists>dag ns. or_dag r = Some dag \<and> dag_plan dag \<noteq> [] \<and> dag_nodes dag = Some ns \<and> ns \<noteq> [] \<and>
           list_all (\<lambda>n. node_id n \<noteq> [] \<and> mi_goal (dn_mission n) \<noteq> []) ns \<and> acyclic (edges (deps_of ns)) \<and>
           or_leases r \<noteq> None \<and> or_hotspots r \<noteq> None \<and> or_tests r \<noteq> None)"
        using validate_oracle_accepts [of r] by blast
      then show ?thesis using True p s Inr Some by (cases v) (auto simp: escalate_def)
    qed (use True p s Inr in \<open>simp add: escalate_def\<close>)
  qed (use True p s in \<open>simp add: escalate_def\<close>)
qed (auto simp: escalate_def split: option.splits)

text \<open> With the lean encoding on, the oracle gets the metrics without loss: the prompt ends with a
  document that decodes to the status and all counters of the mission, and to its start in whole seconds,
  behind one line of JSON with the other parts of the state. \<close>

theorem oracle_sees_metrics:
  fixes oe m
  defines "r \<equiv> metrics_to_lean_row oe m"
  assumes "oe_lean oe" "rfc3339_ok (oe_tsln oe)" "row_ok (mw_time r) r" "oq_metrics q = Some m"
  shows "\<exists>doc. mp_header (build_oracle_prompt oe q) =
      oracle_template @ tsln_note @ state_mark @ json_text (envelope_json q) @ tsln_mark @ doc \<and>
    LF \<notin> set (json_text (envelope_json q)) \<and> json_valid (json_text (envelope_json q)) \<and>
    decode_tsln (oe_tsln oe) doc =
      Inr [row_map metrics_schema (V_Time (mw_time r div 1000000000 * 1000000000) # V_Str (mm_status m) # map V_Int (row_counters r))] \<and>
    row_counters r = [mm_pf_count m, mm_pf_size m, mm_retries m, mm_rejects m, mm_conflicts m, mm_failures m, mm_in m, mm_out m,
      mm_turns m, mm_elapsed m, mm_phases m]"
proof -
  obtain doc where doc: "encode_metrics_rows (oe_tsln oe) [r] = Inr doc"
    "decode_tsln (oe_tsln oe) doc = Inr (map (row_map metrics_schema) (seen_rows (mw_time r) (mw_time r div 1000000000 * 1000000000) None [r]))"
    using tsln_document [OF assms(3), of "[r]"] assms(4) by auto
  have row: "seen_rows (mw_time r) b None [r] = [V_Time b # V_Str (mm_status m) # map V_Int (row_counters r)]" for b
    by (simp add: seen_row_def millis_of_def r_def metrics_to_lean_row_def metrics_row_of_def)
  have ok: "json_ok (envelope_json q)" by (simp add: envelope_json_def strings_json_def list_all_iff split: option.split)
  have "mp_header (build_oracle_prompt oe q) =
      oracle_template @ tsln_note @ state_mark @ json_text (envelope_json q) @ tsln_mark @ doc"
    using assms(2,5) doc(1) by (simp add: build_oracle_prompt_def state_text_def encode_metrics_row_def r_def Let_def)
  moreover have "row_counters r = [mm_pf_count m, mm_pf_size m, mm_retries m, mm_rejects m, mm_conflicts m, mm_failures m, mm_in m, mm_out m,
      mm_turns m, mm_elapsed m, mm_phases m]" by (simp add: r_def metrics_to_lean_row_def metrics_row_of_def row_counters_def)
  ultimately show ?thesis using doc(2) row ok json_valid_text [OF ok] json_text_no_LF(1) [OF ok] by auto
qed


definition ex_oracle_env :: oracle_env where
  "ex_oracle_env = \<lparr>oe_tsln = ex_tsln, oe_lean = True, oe_id = ''1'', oe_row_now = 0, oe_now = 0\<rparr>"

lemma oracle_sees_metrics_witness:
  "\<exists>doc. mp_header (build_oracle_prompt ex_oracle_env
      \<lparr>oq_spec = ''b'', oq_ledger = [], oq_failing = [], oq_symbols = Some [], oq_metrics = Some (new_metrics ex_tsln 5000000000 ''m'')\<rparr>) =
    oracle_template @ tsln_note @ state_mark @ json_text (envelope_json
      \<lparr>oq_spec = ''b'', oq_ledger = [], oq_failing = [], oq_symbols = Some [], oq_metrics = Some (new_metrics ex_tsln 5000000000 ''m'')\<rparr>) @
    tsln_mark @ doc"
proof -
  let ?m = "new_metrics ex_tsln 5000000000 ''m''"
  let ?r = "metrics_to_lean_row ex_oracle_env ?m"
  have "row_ok (mw_time ?r) ?r"
    by (simp add: row_ok_def metrics_to_lean_row_def metrics_row_of_def new_metrics_def status_ok_def row_counters_def in_int64_def)
  with oracle_sees_metrics [of ex_oracle_env ?m
      "\<lparr>oq_spec = ''b'', oq_ledger = [], oq_failing = [], oq_symbols = Some [], oq_metrics = Some ?m\<rparr>"] ex_tsln_ok
  show ?thesis by (auto simp: ex_oracle_env_def)
qed

end
