(* ===== verification/LSP_Wire.thy ===== *)
theory LSP_Wire
  imports Json_Fields Plain_Text
begin

text \<open>
  The messages between the terminal client and a language server, \<open>protocol.go\<close>, and their framing
  on a byte stream, \<open>WriteMessage\<close> and \<open>ReadMessage\<close> of \<open>transport.go\<close> in \<open>cli/internal/lsp\<close>.

  A field of raw JSON is represented by its value. A stream is the string of the bytes still to be
  read, and its end is the end of the file. Memory is not exhausted: a length is too large only from
  the size on at which an allocation panics whatever memory there is.
\<close>

section \<open>Messages\<close>

record response_error =
  er_code :: int
  er_message :: string

record message =
  mg_version :: string
  mg_id :: int
  mg_method :: string
  mg_params :: "json option"
  mg_result :: "json option"
  mg_error :: "response_error option"

definition new_request :: "int \<Rightarrow> string \<Rightarrow> json \<Rightarrow> message" where
  "new_request i m ps =
     \<lparr>mg_version = ''2.0'', mg_id = i, mg_method = m, mg_params = Some ps, mg_result = None, mg_error = None\<rparr>"

definition new_notification :: "string \<Rightarrow> json \<Rightarrow> message" where
  "new_notification m ps =
     \<lparr>mg_version = ''2.0'', mg_id = 0, mg_method = m, mg_params = Some ps, mg_result = None, mg_error = None\<rparr>"

definition optional :: "string \<Rightarrow> json option \<Rightarrow> (string \<times> json) list" where
  "optional k v = (case v of None \<Rightarrow> [] | Some j \<Rightarrow> [(k, j)])"

definition error_json :: "response_error \<Rightarrow> json" where
  "error_json e = JObj [(''code'', jint (er_code e)), (''message'', JStr (er_message e))]"

definition message_json :: "message \<Rightarrow> json" where
  "message_json m =
     JObj ([(''jsonrpc'', JStr (mg_version m))] @
           (if mg_id m = 0 then [] else [(''id'', jint (mg_id m))]) @
           (if mg_method m = [] then [] else [(''method'', JStr (mg_method m))]) @
           optional ''params'' (mg_params m) @ optional ''result'' (mg_result m) @
           optional ''error'' (map_option error_json (mg_error m)))"

text \<open>Decoding an error object into a pointer: the object it points to is kept.\<close>

fun dec_error :: "string \<Rightarrow> (string \<times> json) list \<Rightarrow> response_error option \<Rightarrow> response_error option option" where
  "dec_error name [] cur = Some cur"
| "dec_error name ((k, v) # ms) cur =
     (if same_key k name
      then (case v of
              JObj es \<Rightarrow>
                (let old = (case cur of None \<Rightarrow> \<lparr>er_code = 0, er_message = []\<rparr> | Some e \<Rightarrow> e)
                 in case (dec_number 64 ''code'' es (er_code old), dec_str ''message'' es (er_message old)) of
                      (Some c, Some t) \<Rightarrow> dec_error name ms (Some \<lparr>er_code = c, er_message = t\<rparr>)
                    | _ \<Rightarrow> None)
            | JNull \<Rightarrow> dec_error name ms None
            | _ \<Rightarrow> None)
      else dec_error name ms cur)"

definition decode_message :: "json \<Rightarrow> message option" where
  "decode_message v =
     (case json_members_of v of
        None \<Rightarrow> None
      | Some ms \<Rightarrow>
          (case (dec_str ''jsonrpc'' ms [], dec_number 32 ''id'' ms 0, dec_str ''method'' ms [], dec_error ''error'' ms None) of
             (Some j, Some i, Some m, Some e) \<Rightarrow>
               Some \<lparr>mg_version = j, mg_id = i, mg_method = m, mg_params = dec_raw ''params'' ms None,
                     mg_result = dec_raw ''result'' ms None, mg_error = e\<rparr>
           | _ \<Rightarrow> None))"

section \<open>Frames\<close>

definition write_message :: "message \<Rightarrow> string" where
  "write_message m =
     (let data = json_text (message_json m)
      in ''Content-Length: '' @ nat_str (length data) @ [CR, LF, CR, LF] @ data)"

text \<open>\<open>ReadString\<close>: a line and what follows it.\<close>

definition read_line :: "string \<Rightarrow> (string \<times> string) option" where
  "read_line s = (if LF \<in> set s then Some (takeWhile (\<lambda>c. c \<noteq> LF) s, drop 1 (dropWhile (\<lambda>c. c \<noteq> LF) s)) else None)"

text \<open>The number that \<open>Sscanf\<close> finds after the name of the header; what follows the number is ignored.\<close>

definition scan_length :: "string \<Rightarrow> int option" where
  "scan_length s =
     (let t = trim_left s; sign = takeWhile (\<lambda>c. c \<in> set ''+-'') (take 1 t); r = drop (length sign) t
      in atoi (sign @ takeWhile is_digit r))"

lemma read_line_shorter: "read_line s = Some (l, r) \<Longrightarrow> length r < length s"
proof -
  assume "read_line s = Some (l, r)"
  then have m: "LF \<in> set s" and r: "r = drop 1 (dropWhile (\<lambda>c. c \<noteq> LF) s)" by (auto simp: read_line_def split: if_splits)
  from m have "dropWhile (\<lambda>c. c \<noteq> LF) s \<noteq> []" by (auto simp: dropWhile_eq_Nil_conv)
  then show ?thesis using r length_dropWhile_le [of "\<lambda>c. c \<noteq> LF" s] by (cases "dropWhile (\<lambda>c. c \<noteq> LF) s") auto
qed

function read_headers :: "string \<Rightarrow> int \<Rightarrow> (int \<times> string) option" where
  "read_headers s n =
     (case read_line s of
        None \<Rightarrow> None
      | Some (l, r) \<Rightarrow>
          (let t = trim_space l
           in if t = [] then Some (n, r)
              else if has_prefix t ''Content-Length: '' then
                (case scan_length (drop 16 t) of None \<Rightarrow> None | Some k \<Rightarrow> read_headers r k)
              else read_headers r n))"
  by auto
termination by (relation "measure (\<lambda>(s, n). length s)") (auto dest: read_line_shorter)

declare read_headers.simps [simp del]

datatype read_failure = Read_Error | Read_Panic go_panic

definition max_alloc :: int where
  "max_alloc = 2 ^ 48"

definition read_message :: "string \<Rightarrow> read_failure + message \<times> string" where
  "read_message s =
     (case read_headers s 0 of
        None \<Rightarrow> Inl Read_Error
      | Some (n, r) \<Rightarrow>
          (if n < 0 \<or> max_alloc < n then Inl (Read_Panic Out_Of_Range)
           else if int (length r) < n then Inl Read_Error
           else case json_parse (take (nat n) r) of
             None \<Rightarrow> Inl Read_Error
           | Some v \<Rightarrow> (case decode_message v of None \<Rightarrow> Inl Read_Error | Some m \<Rightarrow> Inr (m, drop (nat n) r))))"

text \<open>Up to \<open>k\<close> messages of the loop of \<open>handleMessages\<close>, which ends at the first failure.\<close>

fun read_messages :: "nat \<Rightarrow> string \<Rightarrow> message list \<times> string" where
  "read_messages 0 s = ([], s)"
| "read_messages (Suc k) s =
     (case read_message s of
        Inl e \<Rightarrow> ([], s)
      | Inr (m, r) \<Rightarrow> (let (ms, r') = read_messages k r in (m # ms, r')))"

section \<open>The code of a message can be read\<close>

definition message_ok :: "message \<Rightarrow> bool" where
  "message_ok m \<longleftrightarrow>
     - (2 ^ 31) \<le> mg_id m \<and> mg_id m < 2 ^ 31 \<and> pred_option json_ok (mg_params m) \<and> pred_option json_ok (mg_result m) \<and>
     (case mg_error m of None \<Rightarrow> True | Some e \<Rightarrow> in_int64 (er_code e)) \<and>
     int (length (json_text (message_json m))) \<le> max_alloc"


definition field_names :: "string list" where
  "field_names = [''jsonrpc'', ''id'', ''method'', ''params'', ''result'', ''error'', ''code'', ''message'']"

lemma field_names_differ: "list_all (\<lambda>a. list_all (\<lambda>b. same_key a b = (a = b)) field_names) field_names"
  by code_simp

lemma same_field: "a \<in> set field_names \<Longrightarrow> b \<in> set field_names \<Longrightarrow> same_key a b \<longleftrightarrow> a = b"
  using field_names_differ by (auto simp: list_all_iff)

lemmas same_literal = same_field [unfolded field_names_def, simplified]

lemma dec_error_append: "dec_error n (xs @ ys) c = (case dec_error n xs c of None \<Rightarrow> None | Some c' \<Rightarrow> dec_error n ys c')"
  by (induction n xs c rule: dec_error.induct) (auto simp: Let_def split: json.splits option.splits)

lemmas dec_append = dec_str_append dec_number_append dec_raw_append dec_error_append

text \<open>Members of other names are skipped.\<close>

lemma dec_skip:
  assumes "\<forall>(k, v) \<in> set ms. \<not> same_key k n"
  shows "dec_str n ms c = Some c" "dec_number b n ms i = Some i" "dec_raw n ms r = r" "dec_error n ms e = Some e"
  using assms by (induction ms) auto

lemma decode_error_json:
  "in_int64 (er_code e) \<Longrightarrow> dec_error ''error'' [(''error'', error_json e)] None = Some (Some e)"
  by (simp add: error_json_def jint_def int_literal_itoa same_literal)


definition message_members :: "message \<Rightarrow> (string \<times> json) list" where
  "message_members m =
     [(''jsonrpc'', JStr (mg_version m))] @ (if mg_id m = 0 then [] else [(''id'', jint (mg_id m))]) @
     (if mg_method m = [] then [] else [(''method'', JStr (mg_method m))]) @
     optional ''params'' (mg_params m) @ optional ''result'' (mg_result m) @ optional ''error'' (map_option error_json (mg_error m))"

lemma decode_members:
  assumes "message_ok m"
  shows "dec_str ''jsonrpc'' (message_members m) [] = Some (mg_version m)"
    "dec_number 32 ''id'' (message_members m) 0 = Some (mg_id m)"
    "dec_str ''method'' (message_members m) [] = Some (mg_method m)"
    "dec_raw ''params'' (message_members m) None = mg_params m"
    "dec_raw ''result'' (message_members m) None = mg_result m"
    "dec_error ''error'' (message_members m) None = Some (mg_error m)"
proof -
  have i: "int_literal 32 (itoa (mg_id m)) = Some (mg_id m)" using assms by (intro int_literal_itoa) (simp_all add: message_ok_def)
  have e: "dec_error ''error'' [(''error'', error_json x)] None = Some (Some x)" if "mg_error m = Some x" for x
    using assms that by (intro decode_error_json) (simp add: message_ok_def)
  note parts = message_members_def dec_append same_literal optional_def jint_def
  show "dec_str ''jsonrpc'' (message_members m) [] = Some (mg_version m)" by (simp add: parts split: option.split)
  show "dec_number 32 ''id'' (message_members m) 0 = Some (mg_id m)" by (simp add: parts i split: option.split)
  show "dec_str ''method'' (message_members m) [] = Some (mg_method m)" by (simp add: parts split: option.split)
  show "dec_raw ''params'' (message_members m) None = mg_params m" by (simp add: parts split: option.split)
  show "dec_raw ''result'' (message_members m) None = mg_result m" by (simp add: parts split: option.split)
  define front where "front = [(''jsonrpc'', JStr (mg_version m))] @ (if mg_id m = 0 then [] else [(''id'', jint (mg_id m))]) @
     (if mg_method m = [] then [] else [(''method'', JStr (mg_method m))]) @
     optional ''params'' (mg_params m) @ optional ''result'' (mg_result m)"
  have pre: "dec_error ''error'' front None = Some None" by (simp add: front_def parts split: option.split)
  have all: "message_members m = front @ optional ''error'' (map_option error_json (mg_error m))"
    by (simp add: front_def message_members_def)
  show "dec_error ''error'' (message_members m) None = Some (mg_error m)"
  proof (cases "mg_error m")
    case (Some x)
    then have "message_members m = front @ [(''error'', error_json x)]" by (simp add: all optional_def)
    then show ?thesis using Some by (simp only: dec_error_append pre option.case e [OF Some])
  qed (simp add: all pre optional_def)
qed

lemma decode_message_json:
  assumes "message_ok m"
  shows "decode_message (message_json m) = Some m"
proof -
  have "message_json m = JObj (message_members m)" by (simp add: message_json_def message_members_def)
  then show ?thesis using decode_members [OF assms] by (simp add: decode_message_def json_members_of_def)
qed

lemma message_json_ok: "message_ok m \<Longrightarrow> json_ok (message_json m)"
  by (auto simp: message_ok_def message_json_def optional_def error_json_def split: option.splits)


section \<open>A frame is read back\<close>

lemma trim_space_CR:
  assumes "s \<noteq> []" "word_char (hd s)" "word_char (last s)"
  shows "trim_space (s @ [CR]) = s"
proof -
  obtain c r where c: "s = c # r" using assms(1) by (cases s) auto
  obtain q e where e: "s = q @ [e]" using assms(1) by (cases s rule: rev_cases) auto
  have "trim_left (s @ [CR]) = s @ [CR]" using c assms(2) by (subst trim_left.simps) (simp add: space_len_word)
  moreover have "trim_left_rev (rev s) = rev s" using e assms(3) by (subst trim_left_rev.simps) (simp add: space_len_word)
  moreover have "space_len_rev (CR # rev s) = 1" by (simp add: space_len_rev_def space_runes_def)
  then have "trim_left_rev (CR # rev s) = trim_left_rev (rev s)" by (subst trim_left_rev.simps) simp
  ultimately show ?thesis by (simp add: trim_space_def trim_right_def)
qed

lemma read_line_append:
  assumes "LF \<notin> set l"
  shows "read_line (l @ LF # r) = Some (l, r)"
proof -
  have l: "\<And>x. x \<in> set l \<Longrightarrow> x \<noteq> LF" using assms by blast
  show ?thesis by (simp add: read_line_def takeWhile_append2 [OF l] dropWhile_append2 [OF l])
qed

lemma digit_word: "is_digit c \<Longrightarrow> word_char c"
  by (auto simp: is_digit_def digit_val_def word_char_def split: if_splits)

lemma nat_str_ends: "nat_str n \<noteq> []" "word_char (last (nat_str n))" "LF \<notin> set (nat_str n)"
proof -
  show ne: "nat_str n \<noteq> []" using nat_str_head [of n] by auto
  show "word_char (last (nat_str n))" using nat_str_digits last_in_set [OF ne] digit_word by blast
  show "LF \<notin> set (nat_str n)" using nat_str_digits [of LF n] by (auto simp: is_digit_def digit_val_def)
qed

lemma scan_length_itoa:
  assumes "in_int64 i"
  shows "scan_length (itoa i) = Some i"
proof -
  obtain c r where c: "nat_str (nat \<bar>i\<bar>) = c # r" "is_digit c"
    using nat_str_head [of "nat \<bar>i\<bar>"] nat_str_digits [of _ "nat \<bar>i\<bar>"] by (cases "nat_str (nat \<bar>i\<bar>)") auto
  have cs: "c \<notin> set ''+-''" using c(2) by (auto simp: is_digit_def digit_val_def split: if_splits)
  have "trim_left (itoa i) = itoa i"
    using c digit_word by (cases "i < 0") (subst trim_left.simps, simp add: space_len_word itoa_def word_char_def)+
  moreover have "takeWhile is_digit r = r" using valid_num_nat_str(1) [of "nat \<bar>i\<bar>"] c by simp
  ultimately show ?thesis using atoi_itoa [OF assms] c cs
    by (cases "i < 0") (simp_all add: scan_length_def itoa_def takeWhile_eq_all_conv [THEN iffD2])
qed

lemma itoa_line: "itoa i \<noteq> []" "word_char (last (itoa i))" "LF \<notin> set (itoa i)"
  using nat_str_ends [of "nat i"] nat_str_ends [of "nat (- i)"] by (simp_all add: itoa_def)

lemma read_frame:
  assumes "in_int64 i"
  shows "read_headers (''Content-Length: '' @ itoa i @ [CR, LF, CR, LF] @ r) k = Some (i, r)"
proof -
  define h where "h = ''Content-Length: '' @ itoa i"
  have ends: "h \<noteq> []" "word_char (hd h)" "word_char (last h)" using itoa_line(1,2) by (simp_all add: h_def word_char_def)
  have "read_line (h @ CR # LF # CR # LF # r) = Some (h @ [CR], CR # LF # r)"
    using read_line_append [of "h @ [CR]" "CR # LF # r"] itoa_line(3) by (simp add: h_def)
  moreover have "trim_space (h @ [CR]) = h" by (rule trim_space_CR [OF ends])
  moreover have "has_prefix h ''Content-Length: ''" "drop 16 h = itoa i" by (simp_all add: h_def)
  ultimately have "read_headers (h @ CR # LF # CR # LF # r) k = read_headers (CR # LF # r) i"
    using ends(1) scan_length_itoa [OF assms] by (subst read_headers.simps) (simp only: option.case prod.case Let_def if_True if_False)
  moreover have "read_line (CR # LF # r) = Some ([CR], r)" using read_line_append [of "[CR]" r] by simp
  moreover have "trim_space [CR] = []" by code_simp
  ultimately show ?thesis by (simp add: read_headers.simps [of "CR # LF # r"] h_def)
qed

lemma read_write:
  assumes "message_ok m"
  shows "read_message (write_message m @ r) = Inr (m, r)"
proof -
  let ?d = "json_text (message_json m)"
  have len: "int (length ?d) \<le> max_alloc" using assms by (simp add: message_ok_def)
  then have "in_int64 (int (length ?d))" by (simp add: max_alloc_def in_int64_def)
  from read_frame [OF this] have "read_headers (write_message m @ r) 0 = Some (int (length ?d), ?d @ r)"
    by (simp add: write_message_def itoa_def Let_def)
  then show ?thesis using len json_parse_text [OF message_json_ok [OF assms]] decode_message_json [OF assms]
    by (simp add: read_message_def)
qed

section \<open>Properties\<close>

text \<open> C31: a stream of written messages is read back message by message, whatever follows it. \<close>

theorem messages_read_back:
  assumes "list_all message_ok ms"
  shows "read_messages (length ms) (List.concat (map write_message ms) @ r) = (ms, r)"
  using assms by (induction ms) (simp_all add: read_write)

lemma messages_read_back_witness:
  "read_messages 2 (List.concat (map write_message [new_request 1 ''initialize'' (JObj []), new_notification ''exit'' JNull]) @ ''x'') =
     ([new_request 1 ''initialize'' (JObj []), new_notification ''exit'' JNull], ''x'')"
proof -
  have "length (json_text (message_json (new_request 1 ''initialize'' (JObj [])))) \<le> 100"
    "length (json_text (message_json (new_notification ''exit'' JNull))) \<le> 100" by code_simp+
  then have "list_all message_ok [new_request 1 ''initialize'' (JObj []), new_notification ''exit'' JNull]"
    by (simp add: message_ok_def new_request_def new_notification_def max_alloc_def)
  from messages_read_back [OF this, of "''x''"] show ?thesis by (simp add: numeral_2_eq_2)
qed

text \<open> A header with a negative length makes the reader panic. \<close>

theorem negative_length_panics:
  assumes "in_int64 i" "i < 0"
  shows "read_message (''Content-Length: '' @ itoa i @ [CR, LF, CR, LF] @ r) = Inl (Read_Panic Out_Of_Range)"
  unfolding read_message_def read_frame [OF assms(1)] using assms(2) by simp

lemma negative_length_panics_witness:
  "read_message (''Content-Length: '' @ itoa (- 1) @ [CR, LF, CR, LF] @ []) = Inl (Read_Panic Out_Of_Range)"
  by (rule negative_length_panics) (simp_all add: in_int64_def)

end
