(* ===== verification/LSP_Calls.thy ===== *)
theory LSP_Calls
  imports LSP_Wire "HOL-Library.Word"
begin

text \<open>
  The calls of the terminal client to a language server and the loop that dispatches what the server
  sends, \<open>Call\<close>, \<open>Notify\<close> and \<open>handleMessages\<close> of \<open>cli/internal/lsp/transport.go\<close>, as a state
  machine: several callers and one dispatcher, whose critical sections are the steps.

  A call has a channel with room for one message, which the dispatcher fills and closes; it registers
  the channel under its id, a counter of 32 bits, and removes the entry when it returns. Notification
  handlers run in goroutines of their own and are left out, and so is the use of the result. The
  server is arbitrary: it may send any message at any time. The handlers of its requests are a
  parameter.
\<close>

section \<open>State\<close>

datatype channel = Waiting | Answered message | Taken

record calls =
  lc_next :: "32 word"
  lc_handlers :: "(int \<times> nat) list"
  lc_channels :: "channel list"
  lc_calls :: "(nat \<times> int) list"
  lc_results :: "(int \<times> message) list"
  lc_sent :: "message list"
  lc_panicked :: bool

type_synonym request_handlers = "string \<Rightarrow> (json option \<Rightarrow> string + json) option"

definition new_calls :: calls where
  "new_calls = \<lparr>lc_next = 0, lc_handlers = [], lc_channels = [], lc_calls = [], lc_results = [], lc_sent = [], lc_panicked = False\<rparr>"

section \<open>Operations\<close>

text \<open>The first half of \<open>Call\<close>, up to the wait; \<open>ok\<close> tells whether the request could be written.\<close>

definition begin_call :: "bool \<Rightarrow> string \<Rightarrow> json \<Rightarrow> calls \<Rightarrow> int \<times> calls" where
  "begin_call ok method params s =
     (let w = lc_next s + 1; i = sint w; ch = length (lc_channels s);
          s1 = s\<lparr>lc_next := w, lc_channels := lc_channels s @ [Waiting], lc_handlers := aput i ch (lc_handlers s)\<rparr>
      in (i, if ok then s1\<lparr>lc_sent := lc_sent s @ [new_request i method params], lc_calls := lc_calls s @ [(ch, i)]\<rparr>
             else s1\<lparr>lc_handlers := adel i (lc_handlers s1)\<rparr>))"

text \<open>The second half, once the channel has a message.\<close>

definition finish_call :: "nat \<Rightarrow> int \<Rightarrow> calls \<Rightarrow> (message \<times> calls) option" where
  "finish_call ch i s =
     (case lc_channels s ! ch of
        Answered m \<Rightarrow>
          Some (m, s\<lparr>lc_channels := (lc_channels s)[ch := Taken], lc_calls := remove1 (ch, i) (lc_calls s),
                     lc_handlers := adel i (lc_handlers s), lc_results := lc_results s @ [(i, m)]\<rparr>)
      | _ \<Rightarrow> None)"

definition call_result :: "message \<Rightarrow> (string \<times> int) + json option" where
  "call_result m = (case mg_error m of Some e \<Rightarrow> Inl (er_message e, er_code e) | None \<Rightarrow> Inr (mg_result m))"

definition notify :: "string \<Rightarrow> json \<Rightarrow> calls \<Rightarrow> calls" where
  "notify method params s = s\<lparr>lc_sent := lc_sent s @ [new_notification method params]\<rparr>"

definition answer_to :: "request_handlers \<Rightarrow> message \<Rightarrow> message" where
  "answer_to h m =
     (let base = \<lparr>mg_version = ''2.0'', mg_id = mg_id m, mg_method = [], mg_params = None, mg_result = None, mg_error = None\<rparr>
      in case h (mg_method m) of
           None \<Rightarrow> base\<lparr>mg_error := Some \<lparr>er_code = - 32601, er_message = ''method not found: '' @ mg_method m\<rparr>\<rparr>
         | Some f \<Rightarrow>
             (case f (mg_params m) of
                Inl e \<Rightarrow> base\<lparr>mg_error := Some \<lparr>er_code = - 32603, er_message = e\<rparr>\<rparr>
              | Inr v \<Rightarrow> base\<lparr>mg_result := Some v\<rparr>))"

definition is_response :: "message \<Rightarrow> bool" where
  "is_response m \<longleftrightarrow> mg_id m \<noteq> 0 \<and> mg_method m = []"

definition dispatch :: "request_handlers \<Rightarrow> message \<Rightarrow> calls \<Rightarrow> calls" where
  "dispatch h m s =
     (if mg_method m \<noteq> [] \<and> mg_id m \<noteq> 0 then s\<lparr>lc_sent := lc_sent s @ [answer_to h m]\<rparr>
      else if is_response m then
        (case map_of (lc_handlers s) (mg_id m) of
           None \<Rightarrow> s
         | Some ch \<Rightarrow>
             (if lc_channels s ! ch = Waiting then s\<lparr>lc_channels := (lc_channels s)[ch := Answered m]\<rparr>
              else s\<lparr>lc_panicked := True\<rparr>))
      else s)"

section \<open>Runs\<close>

datatype event = Began int | Not_Sent int | Notified | Received message | Returned int message

inductive rpc_step :: "request_handlers \<Rightarrow> calls \<Rightarrow> event \<Rightarrow> calls \<Rightarrow> bool" for h where
  begins: "\<not> lc_panicked s \<Longrightarrow> begin_call True method params s = (i, s') \<Longrightarrow> rpc_step h s (Began i) s'"
| fails: "\<not> lc_panicked s \<Longrightarrow> begin_call False method params s = (i, s') \<Longrightarrow> rpc_step h s (Not_Sent i) s'"
| notifies: "\<not> lc_panicked s \<Longrightarrow> rpc_step h s Notified (notify method params s)"
| receives: "\<not> lc_panicked s \<Longrightarrow> rpc_step h s (Received m) (dispatch h m s)"
| returns: "\<not> lc_panicked s \<Longrightarrow> (ch, i) \<in> set (lc_calls s) \<Longrightarrow> finish_call ch i s = Some (m, s') \<Longrightarrow>
    rpc_step h s (Returned i m) s'"

inductive rpc_run :: "request_handlers \<Rightarrow> event list \<Rightarrow> calls \<Rightarrow> bool" for h where
  run_new: "rpc_run h [] new_calls"
| run_step: "rpc_run h es s \<Longrightarrow> rpc_step h s e s' \<Longrightarrow> rpc_run h (es @ [e]) s'"

inductive_cases rpc_stepE: "rpc_step h s e s'"

definition responses :: "event list \<Rightarrow> int \<Rightarrow> nat" where
  "responses es i = length (filter (\<lambda>e. case e of Received m \<Rightarrow> is_response m \<and> mg_id m = i | _ \<Rightarrow> False) es)"

definition returned :: "event list \<Rightarrow> (int \<times> message) list" where
  "returned es = List.map_filter (\<lambda>e. case e of Returned i m \<Rightarrow> Some (i, m) | _ \<Rightarrow> None) es"

section \<open>The invariant\<close>

definition id_of :: "nat \<Rightarrow> int" where
  "id_of ch = int ch + 1"

definition answered_well :: "event list \<Rightarrow> int \<Rightarrow> message \<Rightarrow> bool" where
  "answered_well es i m \<longleftrightarrow> is_response m \<and> mg_id m = i \<and> Received m \<in> set es"

definition handlers_ok :: "calls \<Rightarrow> bool" where
  "handlers_ok s \<longleftrightarrow> lc_next s = of_nat (length (lc_channels s)) \<and>
     (\<forall>i ch. map_of (lc_handlers s) i = Some ch \<longrightarrow> i = id_of ch \<and> ch < length (lc_channels s))"

definition calls_ok :: "calls \<Rightarrow> bool" where
  "calls_ok s \<longleftrightarrow> distinct (lc_calls s) \<and>
     (\<forall>(ch, i) \<in> set (lc_calls s). i = id_of ch \<and> ch < length (lc_channels s) \<and> map_of (lc_handlers s) i = Some ch \<and>
        lc_channels s ! ch \<noteq> Taken)"

definition channels_ok :: "event list \<Rightarrow> calls \<Rightarrow> bool" where
  "channels_ok es s \<longleftrightarrow>
     (\<forall>ch < length (lc_channels s).
        (lc_channels s ! ch \<noteq> Waiting \<longrightarrow> 0 < responses es (id_of ch)) \<and>
        (\<forall>m. lc_channels s ! ch = Answered m \<longrightarrow> answered_well es (id_of ch) m))"

definition results_ok :: "event list \<Rightarrow> calls \<Rightarrow> bool" where
  "results_ok es s \<longleftrightarrow> lc_results s = returned es \<and> distinct (map fst (lc_results s)) \<and>
     (\<forall>(i, m) \<in> set (lc_results s). answered_well es i m \<and>
        (\<exists>ch < length (lc_channels s). i = id_of ch \<and> lc_channels s ! ch = Taken))"

definition panic_ok :: "event list \<Rightarrow> calls \<Rightarrow> bool" where
  "panic_ok es s \<longleftrightarrow> (lc_panicked s \<longrightarrow> (\<exists>i. 2 \<le> responses es i))"

definition rpc_inv :: "event list \<Rightarrow> calls \<Rightarrow> bool" where
  "rpc_inv es s \<longleftrightarrow> handlers_ok s \<and> calls_ok s \<and> channels_ok es s \<and> results_ok es s \<and> panic_ok es s"

lemma calls_okD:
  assumes "calls_ok s" "(ch, i) \<in> set (lc_calls s)"
  shows "i = id_of ch" "ch < length (lc_channels s)" "map_of (lc_handlers s) i = Some ch" "lc_channels s ! ch \<noteq> Taken"
  using assms(1) bspec [OF conjunct2 [OF assms(1) [unfolded calls_ok_def]] assms(2)] by (auto simp only: prod.case)

lemma results_okE:
  assumes "results_ok es s" "(i, m) \<in> set (lc_results s)"
  obtains ch where "answered_well es i m" "ch < length (lc_channels s)" "i = id_of ch" "lc_channels s ! ch = Taken"
proof -
  from assms have "answered_well es i m \<and> (\<exists>ch < length (lc_channels s). i = id_of ch \<and> lc_channels s ! ch = Taken)"
    unfolding results_ok_def by blast
  with that show ?thesis by blast
qed

lemma next_sint: "n + 1 < 2 ^ 31 \<Longrightarrow> sint (of_nat n + 1 :: 32 word) = id_of n"
proof -
  assume n: "n + 1 < 2 ^ 31"
  have "sint (of_int (int n + 1) :: 32 word) = int n + 1"
    using n by (subst signed_of_int) (simp add: signed_take_bit_int_eq_self)
  then show ?thesis by (simp add: id_of_def)
qed

lemma id_of_inj [simp]: "id_of a = id_of b \<longleftrightarrow> a = b"
  by (simp add: id_of_def)

lemma responses_snoc [simp]:
  "responses (es @ [e]) i = responses es i + (case e of Received m \<Rightarrow> if is_response m \<and> mg_id m = i then 1 else 0 | _ \<Rightarrow> 0)"
  by (simp add: responses_def split: event.split)

lemma returned_snoc [simp]:
  "returned (es @ [e]) = returned es @ (case e of Returned i m \<Rightarrow> [(i, m)] | _ \<Rightarrow> [])"
  by (simp add: returned_def List.map_filter_def split: event.split)

lemma answered_well_snoc: "answered_well es i m \<Longrightarrow> answered_well (es @ [e]) i m"
  by (simp add: answered_well_def)

lemma responses_mono: "responses es i \<le> responses (es @ [e]) i"
  by simp

lemma channels_ok_snoc: "channels_ok es s \<Longrightarrow> channels_ok (es @ [e]) s"
  by (simp add: channels_ok_def answered_well_snoc)

lemma results_ok_kept:
  assumes "results_ok es s" "returned (es @ [e]) = returned es" "lc_results s' = lc_results s"
    and "\<And>ch. ch < length (lc_channels s) \<Longrightarrow> lc_channels s ! ch = Taken \<Longrightarrow> ch < length (lc_channels s') \<and> lc_channels s' ! ch = Taken"
  shows "results_ok (es @ [e]) s'"
proof -
  have "answered_well (es @ [e]) i m \<and> (\<exists>ch < length (lc_channels s'). i = id_of ch \<and> lc_channels s' ! ch = Taken)"
    if "(i, m) \<in> set (lc_results s)" for i m
  proof -
    obtain ch where "answered_well es i m" "ch < length (lc_channels s)" "i = id_of ch" "lc_channels s ! ch = Taken"
      using assms(1) \<open>(i, m) \<in> set (lc_results s)\<close> by (rule results_okE)
    then show ?thesis using answered_well_snoc assms(4) by blast
  qed
  then show ?thesis using assms(1-3) by (auto simp: results_ok_def)
qed

text \<open>A step that touches neither channels nor results.\<close>

lemma rpc_inv_frame:
  assumes "rpc_inv es s" "\<And>i m. e \<noteq> Returned i m" "lc_channels s' = lc_channels s" "lc_next s' = lc_next s"
    "lc_handlers s' = lc_handlers s" "lc_calls s' = lc_calls s" "lc_results s' = lc_results s" "lc_panicked s' \<Longrightarrow> panic_ok (es @ [e]) s'"
  shows "rpc_inv (es @ [e]) s'"
proof -
  have "returned (es @ [e]) = returned es" using assms(2) by (cases e) auto
  then have "results_ok (es @ [e]) s'" using assms(1,3,7) by (auto simp: rpc_inv_def intro: results_ok_kept)
  moreover have "channels_ok (es @ [e]) s'" using channels_ok_snoc [of es s e] assms(1,3) by (simp add: rpc_inv_def channels_ok_def)
  moreover have "handlers_ok s'" "calls_ok s'" using assms by (simp_all add: rpc_inv_def handlers_ok_def calls_ok_def)
  moreover have "panic_ok (es @ [e]) s'" using assms(8) by (auto simp: panic_ok_def)
  ultimately show ?thesis by (simp add: rpc_inv_def)
qed

lemma rpc_inv_begin:
  assumes "rpc_inv es s" "begin_call ok method params s = (i, s')" "length (lc_channels s) + 1 < 2 ^ 31" "\<not> lc_panicked s"
    and "e = Began i \<or> e = Not_Sent i"
  shows "rpc_inv (es @ [e]) s'"
proof -
  let ?n = "length (lc_channels s)"
  have inv: "handlers_ok s" "calls_ok s" "channels_ok (es @ [e]) s" "results_ok es s"
    using assms(1) channels_ok_snoc by (simp_all add: rpc_inv_def)
  have i: "sint (lc_next s + 1) = id_of ?n" using inv(1) assms(3) next_sint by (simp add: handlers_ok_def)
  have fresh: "map_of (lc_handlers s) (id_of ?n) = None"
    using inv(1) unfolding handlers_ok_def by (metis id_of_inj less_irrefl not_None_eq)
  have ret: "returned (es @ [e]) = returned es" using assms(5) by auto
  have chans: "lc_channels s' = lc_channels s @ [Waiting]" and next_id: "lc_next s' = lc_next s + 1"
    and hs: "map_of (lc_handlers s') = (if ok then (map_of (lc_handlers s))(id_of ?n \<mapsto> ?n) else map_of (lc_handlers s))"
    and cs: "lc_calls s' = (if ok then lc_calls s @ [(?n, id_of ?n)] else lc_calls s)"
    and rs: "lc_results s' = lc_results s" "\<not> lc_panicked s'"
    using assms(2,4) fresh by (cases ok; force simp: begin_call_def Let_def i)+
  have "handlers_ok s'" using inv(1) by (auto simp: handlers_ok_def chans next_id hs less_Suc_eq split: if_splits)
  moreover have "calls_ok s'" using inv(2) fresh by (auto simp: calls_ok_def chans hs cs nth_append split: if_splits)
  moreover have "channels_ok (es @ [e]) s'" using inv(3) by (auto simp: channels_ok_def chans nth_append less_Suc_eq)
  moreover have "results_ok (es @ [e]) s'" 
    by (rule results_ok_kept [OF inv(4) ret rs(1)]) (simp add: chans nth_append)
  ultimately show ?thesis using rs(2) by (simp add: rpc_inv_def panic_ok_def)
qed


lemma rpc_inv_receive:
  assumes "rpc_inv es s" "\<not> lc_panicked s"
  shows "rpc_inv (es @ [Received m]) (dispatch h m s)"
proof (cases "is_response m \<and> map_of (lc_handlers s) (mg_id m) \<noteq> None")
  case False
  then have "dispatch h m s = s \<or> (\<exists>x. dispatch h m s = s\<lparr>lc_sent := x\<rparr>)" by (auto simp: dispatch_def is_response_def)
  with assms(2) show ?thesis by (intro rpc_inv_frame [OF assms(1)]) auto
next
  case True
  then obtain ch where ch: "map_of (lc_handlers s) (mg_id m) = Some ch" by blast
  have inv: "handlers_ok s" "calls_ok s" "channels_ok es s" "channels_ok (es @ [Received m]) s" "results_ok es s"
    using assms(1) channels_ok_snoc by (simp_all add: rpc_inv_def)
  have id: "mg_id m = id_of ch" "ch < length (lc_channels s)" using inv(1) ch by (auto simp: handlers_ok_def)
  have d: "dispatch h m s = (if lc_channels s ! ch = Waiting then s\<lparr>lc_channels := (lc_channels s)[ch := Answered m]\<rparr>
      else s\<lparr>lc_panicked := True\<rparr>)" using True ch by (simp add: dispatch_def is_response_def)
  have ret: "returned (es @ [Received m]) = returned es" by simp
  show ?thesis
  proof (cases "lc_channels s ! ch = Waiting")
    case w: True
    let ?s = "s\<lparr>lc_channels := (lc_channels s)[ch := Answered m]\<rparr>"
    have taken: "lc_channels ?s ! a = Taken \<longleftrightarrow> lc_channels s ! a = Taken" for a
      using w id(2) by (cases "a = ch") simp_all
    have "handlers_ok ?s" using inv(1) by (simp add: handlers_ok_def)
    moreover have "calls_ok ?s" using inv(2) taken by (simp add: calls_ok_def)
    moreover have "channels_ok (es @ [Received m]) ?s"
      using inv(4) id True by (auto simp: channels_ok_def nth_list_update answered_well_def)
    moreover have "results_ok (es @ [Received m]) ?s"
    proof (rule results_ok_kept [OF inv(5) ret])
      fix a
      assume "a < length (lc_channels s)" "lc_channels s ! a = Taken"
      then show "a < length (lc_channels ?s) \<and> lc_channels ?s ! a = Taken" using taken by simp
    qed simp
    ultimately show ?thesis using assms(2) w by (simp add: d rpc_inv_def panic_ok_def)
  next
    case f: False
    then have "0 < responses es (id_of ch)" using inv(3) id(2) by (simp add: channels_ok_def)
    then have "2 \<le> responses (es @ [Received m]) (id_of ch)" using id(1) True by simp
    then have "panic_ok (es @ [Received m]) (s\<lparr>lc_panicked := True\<rparr>)" unfolding panic_ok_def by blast
    then show ?thesis using f by (intro rpc_inv_frame [OF assms(1)]) (simp_all add: d)
  qed
qed

lemma finish_call_someD:
  assumes "finish_call ch i s = Some (m, s')"
  shows "lc_channels s ! ch = Answered m"
    and "s' = s\<lparr>lc_channels := (lc_channels s)[ch := Taken], lc_calls := remove1 (ch, i) (lc_calls s),
        lc_handlers := adel i (lc_handlers s), lc_results := lc_results s @ [(i, m)]\<rparr>"
  using assms by (cases "lc_channels s ! ch"; simp add: finish_call_def)+

lemma step_channels:
  assumes "rpc_step h s e s'"
  shows "length (lc_channels s') = length (lc_channels s) + (case e of Began i \<Rightarrow> 1 | Not_Sent i \<Rightarrow> 1 | _ \<Rightarrow> 0)"
  using assms
proof (cases rule: rpc_step.cases)
  case (receives m)
  then show ?thesis by (simp add: dispatch_def split: option.split)
qed (auto simp: begin_call_def Let_def notify_def dest!: finish_call_someD(2))

lemma rpc_inv_return:
  assumes "rpc_inv es s" "\<not> lc_panicked s" "(ch, i) \<in> set (lc_calls s)" "finish_call ch i s = Some (m, s')"
  shows "rpc_inv (es @ [Returned i m]) s'"
proof -
  have inv: "handlers_ok s" "calls_ok s" "channels_ok es s" "channels_ok (es @ [Returned i m]) s" "results_ok es s"
    using assms(1) channels_ok_snoc by (simp_all add: rpc_inv_def)
  note f = finish_call_someD [OF assms(4)]
  have c: "i = id_of ch" "ch < length (lc_channels s)" "lc_channels s ! ch = Answered m"
    using calls_okD [OF inv(2) assms(3)] f(1) by simp_all
  note s' = f(2)
  have other: "ch' \<noteq> ch" if "(ch', j) \<in> set (remove1 (ch, i) (lc_calls s))" for ch' j
  proof
    assume "ch' = ch"
    moreover have "(ch', j) \<in> set (lc_calls s)" using that by (meson notin_set_remove1)
    ultimately show False using inv(2) c(1) that by (auto simp: calls_ok_def)
  qed
  have "handlers_ok s'" using inv(1) by (auto simp: handlers_ok_def s' split: if_splits)
  moreover have "calls_ok s'"
  proof -
    have "i' = id_of ch' \<and> ch' < length (lc_channels s') \<and> map_of (lc_handlers s') i' = Some ch' \<and> lc_channels s' ! ch' \<noteq> Taken"
      if "(ch', i') \<in> set (lc_calls s')" for ch' i'
      using that other [of ch' i'] inv(2) c(1) notin_set_remove1 [of "(ch', i')" "lc_calls s" "(ch, i)"]
      by (fastforce simp: calls_ok_def s')
    moreover have "distinct (lc_calls s')" using inv(2) by (simp add: calls_ok_def s')
    ultimately show ?thesis unfolding calls_ok_def by blast
  qed
  moreover have "channels_ok (es @ [Returned i m]) s'"
    using inv(3,4) c by (auto simp: channels_ok_def s' nth_list_update)
  moreover have "results_ok (es @ [Returned i m]) s'"
  proof -
    have well: "answered_well es i m" using inv(3) c by (simp add: channels_ok_def)
    have new: "i \<notin> fst ` set (lc_results s)" using inv(5) c by (fastforce simp: results_ok_def)
    have "answered_well (es @ [Returned i m]) j x \<and> (\<exists>k < length (lc_channels s'). j = id_of k \<and> lc_channels s' ! k = Taken)"
      if "(j, x) \<in> set (lc_results s')" for j x
    proof (cases "(j, x) \<in> set (lc_results s)")
      case True
      then obtain k where "answered_well es j x" "k < length (lc_channels s)" "j = id_of k" "lc_channels s ! k = Taken"
        using inv(5) True by (blast elim: results_okE)
      then show ?thesis using answered_well_snoc c(2) by (auto simp: s' nth_list_update)
    next
      case False
      with that have "j = i" "x = m" by (simp_all add: s')
      then show ?thesis using well answered_well_snoc c(1,2) by (auto simp: s')
    qed
    then show ?thesis using inv(5) new by (auto simp: results_ok_def s')
  qed
  ultimately show ?thesis using assms(2) by (simp add: rpc_inv_def panic_ok_def s')
qed

lemma rpc_run_inv:
  "rpc_run h es s \<Longrightarrow> length (lc_channels s) < 2 ^ 31 \<Longrightarrow> rpc_inv es s"
proof (induction rule: rpc_run.induct)
  case run_new
  show ?case by (simp add: new_calls_def rpc_inv_def handlers_ok_def calls_ok_def channels_ok_def results_ok_def panic_ok_def
        returned_def List.map_filter_def)
next
  case (run_step es s e s')
  note len = step_channels [OF run_step.hyps(2)]
  have inv: "rpc_inv es s" using run_step.IH run_step.prems len by simp
  from run_step.hyps(2) show ?case
  proof (cases rule: rpc_step.cases)
    case (begins name params i)
    with len run_step.prems show ?thesis by (intro rpc_inv_begin [OF inv]) auto
  next
    case (fails name params i)
    with len run_step.prems show ?thesis by (intro rpc_inv_begin [OF inv]) auto
  next
    case (notifies name params)
    then show ?thesis by (intro rpc_inv_frame [OF inv]) (auto simp: notify_def)
  next
    case (receives m)
    then show ?thesis using rpc_inv_receive [OF inv] by simp
  next
    case (returns ch i m)
    then show ?thesis using rpc_inv_return [OF inv] by simp
  qed
qed

section \<open>Properties\<close>

text \<open> C32: a call gets its own answer. In every run of any number of concurrent callers against any
  server, as long as fewer than two to the power of 31 calls have been made, a call that returns has
  returned a response the server really sent, with the id of that call; and no id returns twice.\<close>
theorem calls_get_own_answer:
  assumes "rpc_run h es s" "length (lc_channels s) < 2 ^ 31"
  shows "distinct (map fst (returned es)) \<and>
    (\<forall>i m. (i, m) \<in> set (returned es) \<longrightarrow> is_response m \<and> mg_id m = i \<and> Received m \<in> set es)"
  using rpc_run_inv [OF assms] by (auto simp: rpc_inv_def results_ok_def answered_well_def)

text \<open> A server that answers every request at most once never crashes the client: no answer is sent to a
  channel that was closed, whatever the callers do and whatever else arrives. \<close>
theorem single_answers_are_safe:
  assumes "rpc_run h es s" "length (lc_channels s) < 2 ^ 31" "\<And>i. responses es i \<le> 1"
  shows "\<not> lc_panicked s"
proof
  assume "lc_panicked s"
  then obtain i where "2 \<le> responses es i" using rpc_run_inv [OF assms(1,2)] by (auto simp: rpc_inv_def panic_ok_def)
  with assms(3) [of i] show False by simp
qed

lemma pending:
  assumes "rpc_run h es s" "length (lc_channels s) < 2 ^ 31" "(ch, i) \<in> set (lc_calls s)"
  shows "map_of (lc_handlers s) i = Some ch" "ch < length (lc_channels s)" "i = id_of ch" "lc_channels s ! ch \<noteq> Taken"
  using rpc_run_inv [OF assms(1,2)] calls_okD [OF _ assms(3)] by (simp_all add: rpc_inv_def)

text \<open> A call that waits, with no answer to it received yet, cannot return; the first answer is handed to
  it, whatever the other calls do, and it then returns with that answer and is forgotten. \<close>
theorem answer_completes_call:
  assumes "rpc_run h es s" "length (lc_channels s) < 2 ^ 31" "(ch, i) \<in> set (lc_calls s)" "lc_channels s ! ch = Waiting"
    and "is_response m" "mg_id m = i"
  shows "finish_call ch i s = None \<and> (\<exists>s'. finish_call ch i (dispatch h m s) = Some (m, s') \<and>
    map_of (lc_handlers s') i = None \<and> (ch, i) \<notin> set (lc_calls s'))"
proof -
  note p = pending [OF assms(1-3)]
  have "distinct (lc_calls s)" using rpc_run_inv [OF assms(1,2)] by (simp add: rpc_inv_def calls_ok_def)
  moreover have "dispatch h m s = s\<lparr>lc_channels := (lc_channels s)[ch := Answered m]\<rparr>"
    using assms(4-6) p(1) by (simp add: dispatch_def is_response_def)
  ultimately show ?thesis using assms(4) p(2) by (simp add: finish_call_def)
qed

text \<open> A server that answers a request twice before the call has returned crashes the client, because
  the second answer goes to a channel that is already closed. \<close>
theorem duplicate_answer_panics:
  assumes "rpc_run h es s" "length (lc_channels s) < 2 ^ 31" "(ch, i) \<in> set (lc_calls s)"
    and "is_response m" "mg_id m = i" "is_response m'" "mg_id m' = i"
  shows "lc_panicked (dispatch h m' (dispatch h m s))"
  using pending [OF assms(1-3)] assms(4-7)
  by (cases "lc_channels s ! ch") (simp_all add: dispatch_def is_response_def)

section \<open>A schedule that runs\<close>

datatype action = Do_Begin bool string json | Do_Notify string json | Do_Receive message | Do_Return nat int

fun act :: "request_handlers \<Rightarrow> action \<Rightarrow> calls \<Rightarrow> (event \<times> calls) option" where
  "act h (Do_Begin ok method params) s = (let (i, s') = begin_call ok method params s in Some (if ok then Began i else Not_Sent i, s'))"
| "act h (Do_Notify method params) s = Some (Notified, notify method params s)"
| "act h (Do_Receive m) s = Some (Received m, dispatch h m s)"
| "act h (Do_Return ch i) s =
     (if (ch, i) \<in> set (lc_calls s) then map_option (\<lambda>(m, s'). (Returned i m, s')) (finish_call ch i s) else None)"

fun perform :: "request_handlers \<Rightarrow> action list \<Rightarrow> event list \<times> calls \<Rightarrow> (event list \<times> calls) option" where
  "perform h [] st = Some st"
| "perform h (a # as) (es, s) =
     (if lc_panicked s then None else case act h a s of None \<Rightarrow> None | Some (e, s') \<Rightarrow> perform h as (es @ [e], s'))"

lemma act_step: "\<not> lc_panicked s \<Longrightarrow> act h a s = Some (e, s') \<Longrightarrow> rpc_step h s e s'"
  by (cases a) (auto simp: Let_def split: if_splits prod.splits intro: rpc_step.intros)

lemma perform_run: "perform h as (es, s) = Some (es', s') \<Longrightarrow> rpc_run h es s \<Longrightarrow> rpc_run h es' s'"
proof (induction as arbitrary: es s)
  case (Cons a as)
  then show ?case
    by (auto split: if_splits option.splits intro: run_step act_step)
qed simp

definition demo_response :: "int \<Rightarrow> message" where
  "demo_response i = \<lparr>mg_version = ''2.0'', mg_id = i, mg_method = [], mg_params = None, mg_result = Some JNull, mg_error = None\<rparr>"

text \<open>Two callers wait; then the answers come, in the other order.\<close>

definition two_begin :: "action list" where
  "two_begin = [Do_Begin True ''a'' JNull, Do_Begin True ''b'' JNull]"

definition two_waiting :: "event list \<times> calls" where
  "two_waiting = the (perform (\<lambda>_. None) two_begin ([], new_calls))"

definition crossed :: "event list \<times> calls" where
  "crossed = the (perform (\<lambda>_. None)
     (two_begin @ [Do_Receive (demo_response 2), Do_Receive (demo_response 1), Do_Return 0 1, Do_Return 1 2]) ([], new_calls))"

lemma run_of_perform:
  assumes "perform h as ([], new_calls) = Some st"
  shows "rpc_run h (fst st) (snd st)"
  using assms run_new perform_run [of h as "[]" new_calls "fst st" "snd st"] by simp

lemma two_waiting_run:
  "rpc_run (\<lambda>_. None) (fst two_waiting) (snd two_waiting)" "length (lc_channels (snd two_waiting)) < 2 ^ 31"
  "lc_calls (snd two_waiting) = [(0, 1), (1, 2)]" "lc_channels (snd two_waiting) = [Waiting, Waiting]"
proof -
  show "rpc_run (\<lambda>_. None) (fst two_waiting) (snd two_waiting)"
    by (rule run_of_perform [of _ two_begin]) (simp add: two_waiting_def two_begin_def new_calls_def begin_call_def)
qed (simp_all add: two_waiting_def two_begin_def new_calls_def begin_call_def)

lemmas crossed_eval = crossed_def two_begin_def new_calls_def begin_call_def dispatch_def is_response_def demo_response_def finish_call_def

lemma crossed_run:
  "rpc_run (\<lambda>_. None) (fst crossed) (snd crossed)" "length (lc_channels (snd crossed)) < 2 ^ 31"
  "fst crossed = [Began 1, Began 2, Received (demo_response 2), Received (demo_response 1),
     Returned 1 (demo_response 1), Returned 2 (demo_response 2)]"
proof -
  show "rpc_run (\<lambda>_. None) (fst crossed) (snd crossed)"
    by (rule run_of_perform [of _ "two_begin @ [Do_Receive (demo_response 2), Do_Receive (demo_response 1), Do_Return 0 1, Do_Return 1 2]"])
      (simp add: crossed_eval)
qed (simp_all add: crossed_eval)

theorem calls_get_own_answer_witness:
  "returned (fst crossed) = [(1, demo_response 1), (2, demo_response 2)] \<and> distinct (map fst (returned (fst crossed))) \<and>
   is_response (demo_response 2) \<and> mg_id (demo_response 2) = 2 \<and> Received (demo_response 2) \<in> set (fst crossed)"
proof -
  have r: "returned (fst crossed) = [(1, demo_response 1), (2, demo_response 2)]"
    by (simp add: crossed_run(3) returned_def List.map_filter_def)
  then have "(2, demo_response 2) \<in> set (returned (fst crossed))" by simp
  with r calls_get_own_answer [OF crossed_run(1,2)] show ?thesis by blast
qed

theorem single_answers_are_safe_witness: "\<not> lc_panicked (snd crossed)"
proof (rule single_answers_are_safe [OF crossed_run(1,2)])
  fix i
  show "responses (fst crossed) i \<le> 1" by (simp add: crossed_run(3) responses_def demo_response_def)
qed

theorem answer_completes_call_witness:
  "finish_call 1 2 (snd two_waiting) = None \<and>
   (\<exists>s'. finish_call 1 2 (dispatch (\<lambda>_. None) (demo_response 2) (snd two_waiting)) = Some (demo_response 2, s') \<and>
     map_of (lc_handlers s') 2 = None \<and> (1, 2) \<notin> set (lc_calls s'))"
  by (rule answer_completes_call [OF two_waiting_run(1,2)]) (simp_all add: two_waiting_run is_response_def demo_response_def)

theorem duplicate_answer_panics_witness:
  "lc_panicked (dispatch (\<lambda>_. None) (demo_response 2) (dispatch (\<lambda>_. None) (demo_response 2) (snd two_waiting)))"
  by (rule duplicate_answer_panics [OF two_waiting_run(1,2), of 1 2]) (simp_all add: two_waiting_run is_response_def demo_response_def)

end
