(* ===== verification/Workspace_Edit.thy ===== *)
theory Workspace_Edit
  imports Disk "HOL-Library.Multiset"
begin

text \<open>
  The edits a language server asks the terminal client to make in its files,
  \<open>cli/internal/lsp/util/edit.go\<close>: text edits of one file (\<open>applyTextEdits\<close>, \<open>applyTextEdit\<close>,
  \<open>rangesOverlap\<close>), file operations (\<open>applyDocumentChange\<close>) and whole workspace edits
  (\<open>ApplyWorkspaceEdit\<close>).

  A position counts lines and, as the code does, bytes of the line; both are unsigned integers of 32 bits
  that the code only compares and converts to a wider type, so they are natural numbers here. The order
  in which \<open>sort.Slice\<close> leaves edits that start at one place is not specified, so the sort is a
  parameter with the law the library documents, and the order of the map of changes is the list's.
\<close>

section \<open>Data\<close>

record position =
  po_line :: nat
  po_char :: nat

record edit_range =
  rg_start :: position
  rg_end :: position

record text_edit =
  te_range :: edit_range
  te_text :: string

datatype text_edit_elem = Plain_Edit text_edit | Annotated_Edit text_edit string | Nil_Edit | Other_Edit

record create_options =
  co_overwrite :: bool
  co_ignore_if_exists :: bool

record delete_options =
  do_recursive :: bool
  do_ignore_if_not_exists :: bool

record rename_options =
  ro_overwrite :: bool
  ro_ignore_if_exists :: bool

record document_change =
  dc_create :: "(string \<times> create_options option) option"
  dc_delete :: "(string \<times> delete_options option) option"
  dc_rename :: "(string \<times> string \<times> rename_options option) option"
  dc_edit :: "(string \<times> text_edit_elem list) option"

record workspace_edit =
  we_changes :: "(string \<times> text_edit list) list"
  we_document_changes :: "document_change list"

datatype edit_failure =
  Cannot_Read io_error | Overlapping nat nat | Invalid_Start nat | Cannot_Write io_error |
  Cannot_Create io_error | Cannot_Delete io_error | Cannot_Rename io_error | Target_Exists path | Invalid_Edit

section \<open>The text edits of one file\<close>

definition pos_less :: "position \<Rightarrow> position \<Rightarrow> bool" where
  "pos_less p q \<longleftrightarrow> po_line p < po_line q \<or> po_line p = po_line q \<and> po_char p < po_char q"

definition ranges_overlap :: "edit_range \<Rightarrow> edit_range \<Rightarrow> bool" where
  "ranges_overlap r1 r2 =
     (if po_line (rg_start r1) > po_line (rg_end r2) \<or> po_line (rg_start r2) > po_line (rg_end r1) then False
      else if po_line (rg_start r1) = po_line (rg_end r2) \<and> po_char (rg_start r1) > po_char (rg_end r2) then False
      else if po_line (rg_start r2) = po_line (rg_end r1) \<and> po_char (rg_start r2) > po_char (rg_end r1) then False
      else True)"

definition first_overlap :: "text_edit list \<Rightarrow> (nat \<times> nat) option" where
  "first_overlap es =
     find (\<lambda>(i, j). ranges_overlap (te_range (es ! i)) (te_range (es ! j)))
       (List.concat (map (\<lambda>i. map (\<lambda>j. (i, j)) [Suc i..<length es]) [0..<length es]))"

definition contains_crlf :: "string \<Rightarrow> bool" where
  "contains_crlf c \<longleftrightarrow> index_of c [CR, LF] \<noteq> None"

definition line_ending :: "string \<Rightarrow> string" where
  "line_ending c = (if contains_crlf c then [CR, LF] else [LF])"

fun split_crlf :: "string \<Rightarrow> string list" where
  "split_crlf (x # y # r) =
     (if x = CR \<and> y = LF then [] # split_crlf r
      else case split_crlf (y # r) of [] \<Rightarrow> [[x]] | l # ls \<Rightarrow> (x # l) # ls)"
| "split_crlf s = [s]"

definition split_lines :: "string \<Rightarrow> string list" where
  "split_lines c = (if contains_crlf c then split_crlf c else split_on LF c)"

definition apply_text_edit :: "string list \<Rightarrow> text_edit \<Rightarrow> edit_failure + string list" where
  "apply_text_edit ls ed =
     (let s = rg_start (te_range ed); t = rg_end (te_range ed); sl = po_line s;
          el = (if po_line t \<ge> length ls then length ls - 1 else po_line t)
      in if sl \<ge> length ls then Inl (Invalid_Start sl)
         else
           let start = ls ! sl; stop = ls ! el;
               sc = (if po_char s > length start then length start else po_char s);
               ec = (if po_char t > length stop then length stop else po_char t);
               prefix = take sc start; suffix = drop ec stop;
               new = split_on LF (te_text ed);
               middle = (if te_text ed = [] then (if prefix @ suffix \<noteq> [] then [prefix @ suffix] else [])
                 else if length new = 1 then [prefix @ hd new @ suffix]
                 else [prefix @ hd new] @ butlast (tl new) @ [last new @ suffix])
           in Inr (take sl ls @ middle @ drop (Suc el) ls))"

fun apply_each :: "string list \<Rightarrow> text_edit list \<Rightarrow> edit_failure + string list" where
  "apply_each ls [] = Inr ls"
| "apply_each ls (ed # es) = (case apply_text_edit ls ed of Inl e \<Rightarrow> Inl e | Inr ls' \<Rightarrow> apply_each ls' es)"

definition edit_text :: "(text_edit list \<Rightarrow> text_edit list) \<Rightarrow> string \<Rightarrow> text_edit list \<Rightarrow> edit_failure + string" where
  "edit_text sorted_by_start c es =
     (let e = line_ending c in
      case first_overlap es of
        Some (i, j) \<Rightarrow> Inl (Overlapping i j)
      | None \<Rightarrow>
          (case apply_each (split_lines c) (sorted_by_start es) of
             Inl err \<Rightarrow> Inl err
           | Inr ls \<Rightarrow>
               let new = join_with e ls
               in Inr (if has_suffix c e \<and> \<not> has_suffix new e then new @ e else new)))"

definition uri_path :: "string \<Rightarrow> path" where
  "uri_path uri = trim_prefix uri ''file://''"

definition apply_text_edits ::
    "(text_edit list \<Rightarrow> text_edit list) \<Rightarrow> string \<Rightarrow> text_edit list \<Rightarrow> disk \<Rightarrow> edit_failure option \<times> disk" where
  "apply_text_edits sorted_by_start uri es d =
     (case read_file d (uri_path uri) of
        Inl e \<Rightarrow> (Some (Cannot_Read e), d)
      | Inr c \<Rightarrow>
          (case edit_text sorted_by_start c es of
             Inl e \<Rightarrow> (Some e, d)
           | Inr c' \<Rightarrow>
               (case write_file (uri_path uri) c' d of
                  Inl e \<Rightarrow> (Some (Cannot_Write e), d)
                | Inr d' \<Rightarrow> (None, d'))))"

section \<open>File operations and workspace edits\<close>

text \<open>\<open>os.RemoveAll\<close> and \<open>os.Rename\<close>, which refuses a directory as its target.\<close>

definition below :: "path \<Rightarrow> path \<Rightarrow> bool" where
  "below p q \<longleftrightarrow> q = p \<or> has_prefix q (p @ ''/'')"

definition os_remove_all :: "path \<Rightarrow> disk \<Rightarrow> io_error + disk" where
  "os_remove_all p d =
     (if list_ex (below p) (d_bad d) then Inl IO_Denied
      else Inr (d\<lparr>d_files := filter (\<lambda>(q, _). \<not> below p q) (d_files d), d_dirs := filter (\<lambda>q. \<not> below p q) (d_dirs d)\<rparr>))"

definition moved :: "path \<Rightarrow> path \<Rightarrow> path \<Rightarrow> path" where
  "moved p p' q = (if below p q then p' @ drop (length p) q else q)"

definition os_rename :: "path \<Rightarrow> path \<Rightarrow> disk \<Rightarrow> io_error + disk" where
  "os_rename p p' d =
     (if List.member (d_bad d) p \<or> List.member (d_bad d) p' then Inl IO_Denied
      else if \<not> os_stat d p then Inl NotExist
      else if List.member (d_dirs d) p' then Inl Is_Dir
      else if \<not> List.member (d_dirs d) (path_dir p') then Inl NotExist
      else case map_of (d_files d) p of
          Some c \<Rightarrow> Inr (if p = p' then d else d\<lparr>d_files := aput p' c (adel p (d_files d))\<rparr>)
        | None \<Rightarrow>
            (if below p p' \<or> map_of (d_files d) p' \<noteq> None then Inl IO_Denied
             else Inr (d\<lparr>d_files := map (\<lambda>(q, c). (moved p p' q, c)) (d_files d), d_dirs := map (moved p p') (d_dirs d)\<rparr>)))"

definition as_text_edit :: "text_edit_elem \<Rightarrow> text_edit option" where
  "as_text_edit el = (case el of Plain_Edit ed \<Rightarrow> Some ed | Annotated_Edit ed _ \<Rightarrow> Some ed | _ \<Rightarrow> None)"

text \<open>A part of a change: the disk it leaves and how it goes on, \<open>None\<close> to the next part, \<open>Some r\<close> by
  returning \<open>r\<close>.\<close>

definition create_part :: "string \<times> create_options option \<Rightarrow> disk \<Rightarrow> edit_failure option option \<times> disk" where
  "create_part c d =
     (let p = uri_path (fst c) in
      if (case snd c of Some o1 \<Rightarrow> \<not> co_overwrite o1 \<and> co_ignore_if_exists o1 \<and> os_stat d p | None \<Rightarrow> False)
      then (Some None, d)
      else case write_file p [] d of Inl e \<Rightarrow> (Some (Some (Cannot_Create e)), d) | Inr d' \<Rightarrow> (None, d'))"

definition delete_part :: "string \<times> delete_options option \<Rightarrow> disk \<Rightarrow> edit_failure option option \<times> disk" where
  "delete_part c d =
     (let p = uri_path (fst c);
          recursive = (case snd c of Some o1 \<Rightarrow> do_recursive o1 | None \<Rightarrow> False)
      in case (if recursive then os_remove_all p d else os_remove p d) of
           Inl e \<Rightarrow> (Some (Some (Cannot_Delete e)), d) | Inr d' \<Rightarrow> (None, d'))"

definition rename_part :: "string \<times> string \<times> rename_options option \<Rightarrow> disk \<Rightarrow> edit_failure option option \<times> disk" where
  "rename_part c d =
     (let p = uri_path (fst c); q = uri_path (fst (snd c)) in
      if (case snd (snd c) of Some o1 \<Rightarrow> \<not> ro_overwrite o1 \<and> os_stat d q | None \<Rightarrow> False)
      then (Some (Some (Target_Exists q)), d)
      else case os_rename p q d of Inl e \<Rightarrow> (Some (Some (Cannot_Rename e)), d) | Inr d' \<Rightarrow> (None, d'))"

definition edit_part ::
    "(text_edit list \<Rightarrow> text_edit list) \<Rightarrow> string \<times> text_edit_elem list \<Rightarrow> disk \<Rightarrow> edit_failure option option \<times> disk" where
  "edit_part sorted_by_start c d =
     (case those (map as_text_edit (snd c)) of
        None \<Rightarrow> (Some (Some Invalid_Edit), d)
      | Some es \<Rightarrow> (let (r, d') = apply_text_edits sorted_by_start (fst c) es d in (Some r, d')))"

definition and_then ::
    "('a \<Rightarrow> disk \<Rightarrow> edit_failure option option \<times> disk) \<Rightarrow> 'a option \<Rightarrow>
     edit_failure option option \<times> disk \<Rightarrow> edit_failure option option \<times> disk" where
  "and_then part x st = (case st of (Some r, d) \<Rightarrow> (Some r, d) | (None, d) \<Rightarrow> (case x of None \<Rightarrow> (None, d) | Some y \<Rightarrow> part y d))"

definition apply_document_change ::
    "(text_edit list \<Rightarrow> text_edit list) \<Rightarrow> document_change \<Rightarrow> disk \<Rightarrow> edit_failure option \<times> disk" where
  "apply_document_change sorted_by_start ch d =
     (let (r, d') = and_then (edit_part sorted_by_start) (dc_edit ch) (and_then rename_part (dc_rename ch)
                      (and_then delete_part (dc_delete ch) (and_then create_part (dc_create ch) (None, d))))
      in (case r of None \<Rightarrow> None | Some e \<Rightarrow> e, d'))"

fun until_failure :: "('a \<Rightarrow> disk \<Rightarrow> edit_failure option \<times> disk) \<Rightarrow> 'a list \<Rightarrow> disk \<Rightarrow> edit_failure option \<times> disk" where
  "until_failure f [] d = (None, d)"
| "until_failure f (x # xs) d = (case f x d of (Some e, d') \<Rightarrow> (Some e, d') | (None, d') \<Rightarrow> until_failure f xs d')"

definition apply_workspace_edit ::
    "(text_edit list \<Rightarrow> text_edit list) \<Rightarrow> workspace_edit \<Rightarrow> disk \<Rightarrow> edit_failure option \<times> disk" where
  "apply_workspace_edit sorted_by_start we d =
     (case until_failure (\<lambda>(uri, es). apply_text_edits sorted_by_start uri es) (we_changes we) d of
        (Some e, d') \<Rightarrow> (Some e, d')
      | (None, d') \<Rightarrow> until_failure (apply_document_change sorted_by_start) (we_document_changes we) d')"

section \<open>Sorting by start\<close>

text \<open>What \<open>sort.Slice\<close> promises for the comparison of the code.\<close>

definition starts_after :: "text_edit \<Rightarrow> text_edit \<Rightarrow> bool" where
  "starts_after a b \<longleftrightarrow>
     (let p = rg_start (te_range a); q = rg_start (te_range b)
      in if po_line p \<noteq> po_line q then po_line p > po_line q else po_char p > po_char q)"

locale slice_sort =
  fixes by_start :: "text_edit list \<Rightarrow> text_edit list"
  assumes keeps: "mset (by_start es) = mset es"
    and orders: "sorted_wrt (\<lambda>a b. \<not> starts_after b a) (by_start es)"

fun insert_edit :: "text_edit \<Rightarrow> text_edit list \<Rightarrow> text_edit list" where
  "insert_edit e [] = [e]"
| "insert_edit e (x # xs) = (if starts_after x e then x # insert_edit e xs else e # x # xs)"

definition insertion_sort :: "text_edit list \<Rightarrow> text_edit list" where
  "insertion_sort es = foldr insert_edit es []"

lemma insertion_sort_one [simp]: "insertion_sort [e] = [e]"
  by (simp add: insertion_sort_def)

lemma starts_after_alt: "starts_after a b \<longleftrightarrow> pos_less (rg_start (te_range b)) (rg_start (te_range a))"
  by (auto simp: starts_after_def pos_less_def Let_def)

lemma starts_after_asym: "starts_after a b \<Longrightarrow> \<not> starts_after b a"
  by (auto simp: starts_after_alt pos_less_def)

lemma not_after_trans: "\<not> starts_after b a \<Longrightarrow> \<not> starts_after c b \<Longrightarrow> \<not> starts_after c a"
  by (simp add: starts_after_alt pos_less_def) linarith

lemma mset_insert_edit [simp]: "mset (insert_edit e xs) = add_mset e (mset xs)"
  by (induction xs) auto

lemma sorted_insert_edit:
  "sorted_wrt (\<lambda>a b. \<not> starts_after b a) xs \<Longrightarrow> sorted_wrt (\<lambda>a b. \<not> starts_after b a) (insert_edit e xs)"
proof (induction xs)
  case (Cons x xs)
  have s: "set (insert_edit e xs) = insert e (set xs)" by (metis mset_insert_edit set_mset_add_mset_insert set_mset_mset)
  show ?case
  proof (cases "starts_after x e")
    case True
    with Cons s show ?thesis by (auto dest: starts_after_asym)
  next
    case False
    with Cons.prems not_after_trans [of x e] show ?thesis by auto
  qed
qed simp

interpretation slices: slice_sort insertion_sort
proof
  fix es
  show "mset (insertion_sort es) = mset es" by (induction es) (simp_all add: insertion_sort_def)
  show "sorted_wrt (\<lambda>a b. \<not> starts_after b a) (insertion_sort es)"
    by (induction es) (simp_all add: insertion_sort_def sorted_insert_edit)
qed

section \<open>Lines and offsets\<close>

definition in_bounds :: "string list \<Rightarrow> position \<Rightarrow> bool" where
  "in_bounds ls p \<longleftrightarrow> po_line p < length ls \<and> po_char p \<le> length (ls ! po_line p)"

definition text_upto :: "string \<Rightarrow> string list \<Rightarrow> position \<Rightarrow> string" where
  "text_upto e ls p = join_with e (take (po_line p) ls @ [take (po_char p) (ls ! po_line p)])"

definition text_after :: "string \<Rightarrow> string list \<Rightarrow> position \<Rightarrow> string" where
  "text_after e ls p = join_with e (drop (po_char p) (ls ! po_line p) # drop (Suc (po_line p)) ls)"

lemma join_fuse: "join_with e (xs @ (x @ y) # ys) = join_with e (xs @ [x]) @ join_with e (y # ys)"
proof -
  have "join_with e ((x @ y) # ys) = x @ join_with e (y # ys)" by (cases ys) auto
  then show ?thesis by (cases "xs = []") (simp_all add: join_with_append)
qed

lemma text_upto_after:
  assumes "in_bounds ls p"
  shows "join_with e ls = text_upto e ls p @ text_after e ls p"
proof -
  have "ls = take (po_line p) ls @ (take (po_char p) (ls ! po_line p) @ drop (po_char p) (ls ! po_line p)) # drop (Suc (po_line p)) ls"
    using assms id_take_nth_drop [of "po_line p" ls] by (simp add: in_bounds_def)
  then have "join_with e ls = join_with e (take (po_line p) ls @
      (take (po_char p) (ls ! po_line p) @ drop (po_char p) (ls ! po_line p)) # drop (Suc (po_line p)) ls)" by (rule arg_cong)
  then show ?thesis by (simp only: join_fuse text_upto_def text_after_def)
qed

lemma text_after_drop: "in_bounds ls p \<Longrightarrow> text_after e ls p = drop (length (text_upto e ls p)) (join_with e ls)"
  using text_upto_after [of ls p e] by simp

lemma text_upto_take: "in_bounds ls p \<Longrightarrow> text_upto e ls p = take (length (text_upto e ls p)) (join_with e ls)"
  using text_upto_after [of ls p e] by simp

text \<open>Later positions are at later offsets.\<close>

lemma offset_mono:
  assumes "in_bounds ls p" "in_bounds ls q" "\<not> pos_less q p"
  shows "length (text_upto e ls p) \<le> length (text_upto e ls q)"
proof (cases "po_line p = po_line q")
  case True
  then have "take (po_char q) (ls ! po_line q) = take (po_char p) (ls ! po_line p) @ drop (po_char p) (take (po_char q) (ls ! po_line q))"
    using assms(3) by (simp add: pos_less_def min_def) (metis append_take_drop_id min_absorb1 not_less take_take)
  then have "text_upto e ls q = join_with e (take (po_line p) ls @
      (take (po_char p) (ls ! po_line p) @ drop (po_char p) (take (po_char q) (ls ! po_line q))) # [])"
    using True by (simp add: text_upto_def)
  then show ?thesis by (simp only: join_fuse text_upto_def length_append)
next
  case False
  then have l: "po_line p < po_line q" using assms(3) by (auto simp: pos_less_def)
  let ?ls = "take (po_line q) ls @ [take (po_char q) (ls ! po_line q)]"
  have "in_bounds ?ls p" using l assms(1,2) by (simp add: in_bounds_def nth_append)
  moreover have "text_upto e ?ls p = text_upto e ls p"
    using l assms(2) by (simp add: text_upto_def in_bounds_def nth_append min_def)
  ultimately have "text_upto e ls q = text_upto e ls p @ text_after e ?ls p"
    using text_upto_after [of ?ls p e] by (simp add: text_upto_def)
  then show ?thesis by simp
qed

text \<open>An edit that leaves something in its first line, or replaces it by something.\<close>

definition leaves_line :: "text_edit \<Rightarrow> bool" where
  "leaves_line ed \<longleftrightarrow> te_text ed \<noteq> [] \<or> 0 < po_char (rg_start (te_range ed))"

definition forward :: "text_edit \<Rightarrow> bool" where
  "forward ed \<longleftrightarrow> \<not> pos_less (rg_end (te_range ed)) (rg_start (te_range ed))"

definition fits :: "string list \<Rightarrow> text_edit \<Rightarrow> bool" where
  "fits ls ed \<longleftrightarrow> in_bounds ls (rg_start (te_range ed)) \<and> in_bounds ls (rg_end (te_range ed))"

abbreviation start_of :: "text_edit \<Rightarrow> position" where
  "start_of ed \<equiv> rg_start (te_range ed)"

abbreviation end_of :: "text_edit \<Rightarrow> position" where
  "end_of ed \<equiv> rg_end (te_range ed)"

lemma pos_le_less_trans: "\<not> pos_less q p \<Longrightarrow> pos_less q r \<Longrightarrow> pos_less p r"
  by (auto simp: pos_less_def)

lemma pos_less_asym: "pos_less p q \<Longrightarrow> \<not> pos_less q p"
  by (auto simp: pos_less_def)

lemma apply_text_edit_shape:
  assumes "fits ls ed" "leaves_line ed"
  obtains ls' x r where "apply_text_edit ls ed = Inr ls'"
    "ls' = take (po_line (start_of ed)) ls @ (take (po_char (start_of ed)) (ls ! po_line (start_of ed)) @ x) # r"
    "join_with e ls' = text_upto e ls (start_of ed) @ join_with e (split_on LF (te_text ed)) @ text_after e ls (end_of ed)"
proof -
  let ?s = "start_of ed" and ?t = "end_of ed"
  let ?pre = "take (po_char ?s) (ls ! po_line ?s)" and ?suf = "drop (po_char ?t) (ls ! po_line ?t)"
  let ?a = "take (po_line ?s) ls" and ?z = "drop (Suc (po_line ?t)) ls"
  obtain n ns where n: "split_on LF (te_text ed) = n # ns" by (cases "split_on LF (te_text ed)") auto
  have b: "po_line ?s < length ls" "po_char ?s \<le> length (ls ! po_line ?s)" "po_line ?t < length ls" "po_char ?t \<le> length (ls ! po_line ?t)"
    using assms(1) by (simp_all add: fits_def in_bounds_def)
  have pre: "te_text ed = [] \<Longrightarrow> ?pre \<noteq> []" using assms(2) b by (auto simp: leaves_line_def)
  show ?thesis
  proof (cases "ns = []")
    case True
    then have one: "te_text ed = [] \<Longrightarrow> n = []" using n by simp
    have r: "apply_text_edit ls ed = Inr (?a @ (?pre @ (n @ ?suf)) # ?z)"
      using b pre one n True by (auto simp: apply_text_edit_def Let_def)
    have "join_with e (?a @ (?pre @ (n @ ?suf)) # ?z) = text_upto e ls ?s @ join_with e (n # ns) @ text_after e ls ?t"
      using join_fuse [of e ?a ?pre "n @ ?suf" ?z] join_fuse [of e "[]" n ?suf ?z] True
      by (simp add: text_upto_def text_after_def)
    then show ?thesis using that [OF r] n by auto
  next
    case False
    then have "te_text ed \<noteq> []" using n by auto
    then have r: "apply_text_edit ls ed = Inr (?a @ (?pre @ n) # butlast ns @ (last ns @ ?suf) # ?z)"
      using b False n by (cases ns) (simp_all add: apply_text_edit_def Let_def)
    have "join_with e (?a @ (?pre @ n) # butlast ns @ (last ns @ ?suf) # ?z) =
        text_upto e ls ?s @ join_with e (n # butlast ns @ (last ns @ ?suf) # ?z)"
      using join_fuse [of e ?a ?pre n "butlast ns @ (last ns @ ?suf) # ?z"] by (simp add: text_upto_def)
    moreover have "join_with e (n # butlast ns @ (last ns @ ?suf) # ?z) = join_with e (n # ns) @ text_after e ls ?t"
      using join_fuse [of e "n # butlast ns" "last ns" ?suf ?z] False by (simp add: text_after_def)
    ultimately show ?thesis using that [OF r] n by auto
  qed
qed

text \<open>What precedes the start of an edit is as before.\<close>

lemma keeps_before:
  assumes "ls' = take (po_line q) ls @ (take (po_char q) (ls ! po_line q) @ x) # r" "in_bounds ls q" "in_bounds ls p" "\<not> pos_less q p"
  shows "in_bounds ls' p" "text_upto e ls' p = text_upto e ls p"
proof -
  have l: "po_line p \<le> po_line q" "po_line q < length ls" using assms(2,4) by (auto simp: pos_less_def in_bounds_def)
  have t: "take (po_line p) ls' = take (po_line p) ls" using l by (simp add: assms(1) min_def)
  show "in_bounds ls' p" "text_upto e ls' p = text_upto e ls p"
  proof (atomize (full), cases "po_line p = po_line q")
    case True
    then have "po_char p \<le> po_char q" using assms(4) by (simp add: pos_less_def)
    then show "in_bounds ls' p \<and> text_upto e ls' p = text_upto e ls p"
      using True l assms(1-3) t by (simp add: in_bounds_def text_upto_def nth_append min_def)
  next
    case False
    then have "ls' ! po_line p = ls ! po_line p" using l by (simp add: assms(1) nth_append)
    then show "in_bounds ls' p \<and> text_upto e ls' p = text_upto e ls p"
      using False l assms(3) t by (simp add: in_bounds_def text_upto_def assms(1))
  qed
qed

section \<open>Simultaneous replacement\<close>

text \<open>The specification: the text with every piece from one offset to the other replaced at once.\<close>

fun replace_from :: "nat \<Rightarrow> string \<Rightarrow> (nat \<times> nat \<times> string) list \<Rightarrow> string" where
  "replace_from i c [] = drop i c"
| "replace_from i c ((s, t, n) # es) = take (s - i) (drop i c) @ n @ replace_from t c es"

definition splice_at :: "nat \<times> nat \<times> string \<Rightarrow> string \<Rightarrow> string" where
  "splice_at x c = (case x of (s, t, n) \<Rightarrow> take s c @ n @ drop t c)"

fun chain :: "nat \<Rightarrow> (nat \<times> nat \<times> string) list \<Rightarrow> nat \<Rightarrow> bool" where
  "chain i [] m \<longleftrightarrow> i \<le> m"
| "chain i ((s, t, n) # es) m \<longleftrightarrow> i \<le> s \<and> s \<le> t \<and> chain t es m"

lemma chain_le: "chain i es m \<Longrightarrow> i \<le> m"
  by (induction i es m rule: chain.induct) auto

lemma splices_replace: "chain i es (length c) \<Longrightarrow> foldr splice_at es c = take i c @ replace_from i c es"
proof (induction es arbitrary: i)
  case (Cons x es)
  obtain s t n where x: "x = (s, t, n)" by (cases x) auto
  have c: "i \<le> s" "s \<le> t" "t \<le> length c" and ih: "foldr splice_at es c = take t c @ replace_from t c es"
    using Cons x chain_le by auto
  have p: "take s c = take i c @ take (s - i) (drop i c)" using c(1) by (metis le_add_diff_inverse take_add)
  have "foldr splice_at (x # es) c = splice_at (s, t, n) (take t c @ replace_from t c es)" by (simp only: foldr_Cons o_apply ih x)
  also have "\<dots> = take s c @ n @ replace_from t c es" using c by (simp add: splice_at_def min_def)
  finally show ?case by (simp add: p x)
qed simp

definition with_ending :: "string \<Rightarrow> string \<Rightarrow> string" where
  "with_ending e s = join_with e (split_on LF s)"

definition offsets :: "string \<Rightarrow> string list \<Rightarrow> text_edit \<Rightarrow> nat \<times> nat \<times> string" where
  "offsets e ls ed = (length (text_upto e ls (start_of ed)), length (text_upto e ls (end_of ed)), with_ending e (te_text ed))"

lemma apply_text_edit_splice:
  assumes "fits ls ed" "leaves_line ed"
  obtains ls' where "apply_text_edit ls ed = Inr ls'" "join_with e ls' = splice_at (offsets e ls ed) (join_with e ls)"
    "\<And>p. in_bounds ls p \<Longrightarrow> \<not> pos_less (start_of ed) p \<Longrightarrow> in_bounds ls' p \<and> text_upto e ls' p = text_upto e ls p"
proof -
  have b: "in_bounds ls (start_of ed)" "in_bounds ls (end_of ed)" using assms(1) by (simp_all add: fits_def)
  obtain ls' x r where r: "apply_text_edit ls ed = Inr ls'"
    "ls' = take (po_line (start_of ed)) ls @ (take (po_char (start_of ed)) (ls ! po_line (start_of ed)) @ x) # r"
    "join_with e ls' = text_upto e ls (start_of ed) @ join_with e (split_on LF (te_text ed)) @ text_after e ls (end_of ed)"
    using assms by (rule apply_text_edit_shape)
  have "join_with e ls' = splice_at (offsets e ls ed) (join_with e ls)"
    using r(3) text_upto_take [OF b(1), of e] text_after_drop [OF b(2), of e] by (simp add: splice_at_def offsets_def with_ending_def)
  then show ?thesis using that [OF r(1)] keeps_before [OF r(2) b(1)] by blast
qed

lemma apply_each_splices:
  assumes "sorted_wrt (\<lambda>a b. \<not> pos_less (start_of a) (end_of b)) es"
    and "\<And>ed. ed \<in> set es \<Longrightarrow> fits ls ed \<and> leaves_line ed \<and> forward ed"
  shows "\<exists>ls'. apply_each ls es = Inr ls' \<and> join_with e ls' = foldl (\<lambda>c x. splice_at x c) (join_with e ls) (map (offsets e ls) es)"
  using assms
proof (induction es arbitrary: ls)
  case (Cons ed es)
  then obtain ls1 where r: "apply_text_edit ls ed = Inr ls1" "join_with e ls1 = splice_at (offsets e ls ed) (join_with e ls)"
    "\<And>p. in_bounds ls p \<Longrightarrow> \<not> pos_less (start_of ed) p \<Longrightarrow> in_bounds ls1 p \<and> text_upto e ls1 p = text_upto e ls p"
    using apply_text_edit_splice [of ls ed e] by (metis list.set_intros(1))
  have later: "fits ls1 x \<and> offsets e ls1 x = offsets e ls x" if "x \<in> set es" for x
  proof -
    have "\<not> pos_less (start_of ed) (end_of x)" "forward x" "fits ls x" using Cons.prems that by auto
    moreover then have "\<not> pos_less (start_of ed) (start_of x)" by (auto simp: forward_def pos_less_def)
    ultimately show ?thesis using r(3) by (simp add: fits_def offsets_def)
  qed
  then obtain ls' where "apply_each ls1 es = Inr ls'"
    "join_with e ls' = foldl (\<lambda>c x. splice_at x c) (join_with e ls1) (map (offsets e ls1) es)"
    using Cons.IH [of ls1] Cons.prems by auto
  moreover have "map (offsets e ls1) es = map (offsets e ls) es" using later by simp
  ultimately show ?case using r(1,2) by simp
qed simp

section \<open>The overlap check\<close>

lemma ranges_overlap_iff:
  "ranges_overlap r1 r2 \<longleftrightarrow> \<not> pos_less (rg_end r1) (rg_start r2) \<and> \<not> pos_less (rg_end r2) (rg_start r1)"
  by (auto simp: ranges_overlap_def pos_less_def)

lemma first_overlap_None:
  assumes "first_overlap es = None" "i < j" "j < length es"
  shows "\<not> ranges_overlap (te_range (es ! i)) (te_range (es ! j))"
proof -
  have "(i, j) \<in> set (List.concat (map (\<lambda>i. map (\<lambda>j. (i, j)) [Suc i..<length es]) [0..<length es]))"
    using assms(2,3) by (simp del: upt_Suc) (rule bexI [of _ i]; simp)
  with assms(1) show ?thesis unfolding first_overlap_def find_None_iff by blast
qed

lemma separate_edits:
  assumes "first_overlap es = None" "\<And>ed. ed \<in> set es \<Longrightarrow> forward ed"
  shows "distinct es" "\<And>a b. a \<in> set es \<Longrightarrow> b \<in> set es \<Longrightarrow> a \<noteq> b \<Longrightarrow> pos_less (end_of a) (start_of b) \<or> pos_less (end_of b) (start_of a)"
proof -
  have two: "pos_less (end_of (es ! i)) (start_of (es ! j)) \<or> pos_less (end_of (es ! j)) (start_of (es ! i))"
    if "i < j" "j < length es" for i j
    using first_overlap_None [OF assms(1) that] by (auto simp: ranges_overlap_iff)
  have "es ! i \<noteq> es ! j" if "i < j" "j < length es" for i j
    using two [OF that] assms(2) [of "es ! i"] that by (auto simp: forward_def)
  then show "distinct es" by (metis distinct_conv_nth nat_neq_iff)
  fix a b
  assume "a \<in> set es" "b \<in> set es" "a \<noteq> b"
  then obtain i j where "i < length es" "j < length es" "a = es ! i" "b = es ! j" "i \<noteq> j" by (metis in_set_conv_nth)
  then show "pos_less (end_of a) (start_of b) \<or> pos_less (end_of b) (start_of a)"
    using two [of i j] two [of j i] by (auto simp: nat_neq_iff)
qed

section \<open>Edits that do not overlap\<close>

lemma split_crlf_nonempty [simp]: "split_crlf s \<noteq> []"
  by (induction s rule: split_crlf.induct) (auto split: list.splits)

lemma join_split_crlf: "join_with [CR, LF] (split_crlf s) = s"
proof (induction s rule: split_crlf.induct)
  case (1 x y r)
  show ?case
  proof (cases "x = CR \<and> y = LF")
    case True
    obtain l ls where "split_crlf r = l # ls" by (cases "split_crlf r") auto
    with 1(1) True show ?thesis by simp
  next
    case False
    then show ?thesis using 1(2) by (cases "split_crlf (y # r)"; cases "tl (split_crlf (y # r))") auto
  qed
qed simp_all

lemma join_split_lines: "join_with (line_ending c) (split_lines c) = c"
  by (simp add: line_ending_def split_lines_def join_split_crlf join_split_on)

lemma chain_offsets:
  assumes "sorted_wrt (\<lambda>a b. \<not> pos_less (start_of b) (end_of a)) as" "\<And>ed. ed \<in> set as \<Longrightarrow> fits ls ed \<and> forward ed"
    and "\<And>ed. ed \<in> set as \<Longrightarrow> i \<le> length (text_upto e ls (start_of ed))" "i \<le> length (join_with e ls)"
  shows "chain i (map (offsets e ls) as) (length (join_with e ls))"
  using assms
proof (induction as arbitrary: i)
  case (Cons ed as)
  have ed: "in_bounds ls (start_of ed)" "in_bounds ls (end_of ed)" "\<not> pos_less (end_of ed) (start_of ed)"
    using Cons.prems(2) [of ed] by (simp_all add: fits_def forward_def)
  have "chain (length (text_upto e ls (end_of ed))) (map (offsets e ls) as) (length (join_with e ls))"
  proof (rule Cons.IH)
    fix x
    assume x: "x \<in> set as"
    then have "\<not> pos_less (start_of x) (end_of ed)" "in_bounds ls (start_of x)" using Cons.prems(1,2) by (auto simp: fits_def)
    then show "length (text_upto e ls (end_of ed)) \<le> length (text_upto e ls (start_of x))" by (intro offset_mono ed(2))
  next
    show "length (text_upto e ls (end_of ed)) \<le> length (join_with e ls)" using text_upto_after [OF ed(2), of e] by simp
  qed (use Cons.prems(1,2) in auto)
  moreover have "offsets e ls ed = (length (text_upto e ls (start_of ed)), length (text_upto e ls (end_of ed)), with_ending e (te_text ed))"
    by (simp add: offsets_def)
  ultimately show ?case using Cons.prems(3) [of ed] offset_mono [OF ed(1,2,3)] by simp
qed simp

definition replaced :: "string \<Rightarrow> text_edit list \<Rightarrow> string" where
  "replaced c es = replace_from 0 c (map (offsets (line_ending c) (split_lines c)) es)"

definition keep_newline :: "string \<Rightarrow> string \<Rightarrow> string" where
  "keep_newline c new = (if has_suffix c (line_ending c) \<and> \<not> has_suffix new (line_ending c) then new @ line_ending c else new)"

context slice_sort
begin

lemma same_edits: "set (by_start es) = set es" "distinct (by_start es) \<longleftrightarrow> distinct es"
  using keeps by (metis set_mset_mset) (metis keeps mset_eq_imp_distinct_iff)

lemma descending:
  assumes "first_overlap es = None" "\<And>ed. ed \<in> set es \<Longrightarrow> forward ed"
  shows "sorted_wrt (\<lambda>a b. \<not> pos_less (start_of a) (end_of b)) (by_start es)"
proof -
  have "\<not> pos_less (start_of (by_start es ! i)) (end_of (by_start es ! j))" if "i < j" "j < length (by_start es)" for i j
  proof -
    let ?a = "by_start es ! i" and ?b = "by_start es ! j"
    have m: "?a \<in> set es" "?b \<in> set es" using that same_edits(1) [of es] by (metis nth_mem order.strict_trans)+
    have "?a \<noteq> ?b" using that same_edits(2) separate_edits(1) [OF assms] by (simp add: nth_eq_iff_index_eq)
    then have "pos_less (end_of ?a) (start_of ?b) \<or> pos_less (end_of ?b) (start_of ?a)" using separate_edits(2) [OF assms] m by blast
    moreover have "\<not> starts_after ?b ?a" using orders that by (simp add: sorted_wrt_iff_nth_less)
    moreover from this have "\<not> pos_less (start_of ?a) (start_of ?b)" by (simp add: starts_after_alt)
    moreover have "forward ?a" using assms(2) m(1) by blast
    ultimately show ?thesis unfolding forward_def using pos_le_less_trans pos_less_asym by blast
  qed
  then show ?thesis by (simp add: sorted_wrt_iff_nth_less)
qed

lemma edit_text_replaces:
  assumes "first_overlap es = None"
    and "\<And>ed. ed \<in> set es \<Longrightarrow> fits (split_lines c) ed \<and> forward ed \<and> leaves_line ed"
  shows "edit_text by_start c es = Inr (keep_newline c (replaced c (rev (by_start es))))"
proof -
  let ?e = "line_ending c" and ?ls = "split_lines c"
  have d: "sorted_wrt (\<lambda>a b. \<not> pos_less (start_of a) (end_of b)) (by_start es)" using assms by (intro descending) auto
  have all: "fits ?ls ed \<and> leaves_line ed \<and> forward ed" if "ed \<in> set (by_start es)" for ed
    using assms(2) that same_edits(1) by blast
  from apply_each_splices [OF d all, of ?e, unfolded join_split_lines]
  obtain ls' where ls': "apply_each ?ls (by_start es) = Inr ls'"
    "join_with ?e ls' = foldl (\<lambda>c x. splice_at x c) c (map (offsets ?e ?ls) (by_start es))" by blast
  have "chain 0 (map (offsets ?e ?ls) (rev (by_start es))) (length (join_with ?e ?ls))"
    using d all by (intro chain_offsets) (auto simp: sorted_wrt_rev)
  then have "join_with ?e ls' = replaced c (rev (by_start es))"
    using splices_replace [of 0 "map (offsets ?e ?ls) (rev (by_start es))" c]
    by (simp add: ls'(2) join_split_lines replaced_def foldl_conv_foldr rev_map)
  then show ?thesis using assms(1) ls'(1) by (simp add: edit_text_def Let_def keep_newline_def)
qed

end

section \<open>Properties\<close>

text \<open> C33: the edits of a file replace, all at once, what they name by their texts. When the client's own
  check finds no overlap and every edit lies within the file, ends where or after it starts, and does not
  delete from the very start of a line, the new text of the file is the old one with every named piece
  replaced, whatever order the edits come in and however ties are sorted; line feeds of the new texts
  become the file's line ending, and a file that ended in one still does.\<close>
theorem workspace_edits_replace:
  assumes "slice_sort sorted_by_start" "first_overlap es = None"
    and "\<forall>ed \<in> set es. fits (split_lines c) ed \<and> forward ed \<and> leaves_line ed"
  shows "edit_text sorted_by_start c es = Inr (keep_newline c (replaced c (rev (sorted_by_start es))))"
  using slice_sort.edit_text_replaces [OF assms(1,2), of c] assms(3) by blast

definition at :: "nat \<Rightarrow> nat \<Rightarrow> position" where
  "at l c = \<lparr>po_line = l, po_char = c\<rparr>"

definition edit :: "position \<Rightarrow> position \<Rightarrow> string \<Rightarrow> text_edit" where
  "edit s t n = \<lparr>te_range = \<lparr>rg_start = s, rg_end = t\<rparr>, te_text = n\<rparr>"

definition demo_text :: string where
  "demo_text = ''ab'' @ [LF] @ ''cd'' @ [LF]"

definition demo_edits :: "text_edit list" where
  "demo_edits = [edit (at 0 1) (at 0 2) ''X'', edit (at 1 1) (at 1 1) ([LF] @ ''Y'')]"

lemma demo_lines: "split_lines demo_text = [''ab'', ''cd'', []]" "line_ending demo_text = [LF]"
  by (simp_all add: demo_text_def split_lines_def line_ending_def contains_crlf_def has_prefix_def)

theorem workspace_edits_replace_witness:
  "edit_text insertion_sort demo_text demo_edits = Inr (keep_newline demo_text (replaced demo_text (rev (insertion_sort demo_edits))))
   \<and> replaced demo_text (rev (insertion_sort demo_edits)) = ''aX'' @ [LF] @ ''c'' @ [LF] @ ''Yd'' @ [LF]"
proof (rule conjI)
  show "edit_text insertion_sort demo_text demo_edits = Inr (keep_newline demo_text (replaced demo_text (rev (insertion_sort demo_edits))))"
    by (rule workspace_edits_replace [OF slices.slice_sort_axioms])
      (simp_all add: first_overlap_def demo_edits_def demo_lines fits_def forward_def leaves_line_def in_bounds_def edit_def at_def
        ranges_overlap_def pos_less_def upt_rec)
  have "rev (insertion_sort demo_edits) = demo_edits"
    by (simp add: insertion_sort_def demo_edits_def edit_def at_def starts_after_def)
  then show "replaced demo_text (rev (insertion_sort demo_edits)) = ''aX'' @ [LF] @ ''c'' @ [LF] @ ''Yd'' @ [LF]"
    by (simp only: replaced_def demo_lines) (simp add: demo_edits_def offsets_def edit_def at_def text_upto_def with_ending_def demo_text_def)
qed

lemma split_on_snoc: "d \<noteq> c \<Longrightarrow> split_on c (s @ [d]) = butlast (split_on c s) @ [last (split_on c s) @ [d]]"
  by (induction s) (auto split: list.splits)

lemma with_ending_snoc: "d \<noteq> LF \<Longrightarrow> with_ending e (s @ [d]) = with_ending e s @ [d]"
  using join_fuse [of e "butlast (split_on LF s)" "last (split_on LF s)" "[d]" "[]"]
  by (simp add: with_ending_def split_on_snoc)

lemma with_ending_LF: "with_ending e (s @ LF # t) = with_ending e s @ e @ with_ending e t"
  by (simp add: with_ending_def split_on_append join_with_append)

text \<open> In a file with Windows line endings a replacement text that has them too gets its carriage returns
  doubled: the code splits the text at line feeds only and joins with both bytes. \<close>
theorem crlf_text_doubles_cr:
  assumes "contains_crlf c" "fits (split_lines c) ed" "forward ed" "te_text ed = x @ [CR, LF] @ y"
  shows "\<exists>u v. edit_text insertion_sort c [ed] = Inr (u @ [CR, CR, LF] @ v)"
proof -
  have e: "line_ending c = [CR, LF]" using assms(1) by (simp add: line_ending_def)
  have "edit_text insertion_sort c [ed] = Inr (keep_newline c (replaced c (rev (insertion_sort [ed]))))"
    using assms(2-4) by (intro slices.edit_text_replaces) (auto simp: first_overlap_def leaves_line_def)
  moreover have "with_ending [CR, LF] (te_text ed) = with_ending [CR, LF] x @ [CR, CR, LF] @ with_ending [CR, LF] y"
    using with_ending_LF [of "[CR, LF]" "x @ [CR]" y] with_ending_snoc [of CR "[CR, LF]" x] by (simp add: assms(4))
  then obtain u v where r: "replaced c [ed] = u @ [CR, CR, LF] @ v"
    by (simp add: replaced_def offsets_def e) (metis append.assoc)
  obtain w where "keep_newline c s = s @ w" if "s = replaced c [ed]" for s
    by (cases "keep_newline c (replaced c [ed]) = replaced c [ed]") (auto simp: keep_newline_def split: if_splits)
  then have "keep_newline c (replaced c [ed]) = u @ [CR, CR, LF] @ (v @ w)" using r by simp
  ultimately show ?thesis by (metis insertion_sort_one rev_singleton_conv)
qed

theorem crlf_text_doubles_cr_witness:
  "\<exists>u v. edit_text insertion_sort [CR, LF] [edit (at 0 0) (at 0 0) [CR, LF]] = Inr (u @ [CR, CR, LF] @ v)"
  by (rule crlf_text_doubles_cr [of _ _ "[]" "[]"])
    (simp_all add: contains_crlf_def edit_def at_def fits_def in_bounds_def forward_def pos_less_def split_lines_def has_prefix_def)

text \<open> Deleting the whole content of a line deletes the line: its line break goes too, though it is not
  in the range. \<close>
theorem emptied_line_disappears:
  assumes "n < length (split_lines c)"
  shows "edit_text insertion_sort c [edit (at n 0) (at n (length (split_lines c ! n))) []] =
    Inr (keep_newline c (join_with (line_ending c) (take n (split_lines c) @ drop (Suc n) (split_lines c))))"
  using assms by (simp add: edit_text_def first_overlap_def insertion_sort_def apply_text_edit_def edit_def at_def keep_newline_def Let_def)

theorem emptied_line_disappears_witness:
  "edit_text insertion_sort demo_text [edit (at 0 0) (at 0 2) []] = Inr (keep_newline demo_text (''cd'' @ [LF]))"
  using emptied_line_disappears [of 0 demo_text] by (simp add: demo_lines numeral_2_eq_2)

lemma apply_text_edits_frame:
  assumes "q \<noteq> uri_path uri"
  shows "reads (snd (apply_text_edits sorted_by_start uri es d)) q = reads d q"
  using assms by (auto simp: apply_text_edits_def dest!: write_file_reads split: sum.split)

lemma until_failure_frame:
  assumes "\<And>x d. x \<in> set xs \<Longrightarrow> reads (snd (f x d)) q = reads d q"
  shows "reads (snd (until_failure f xs d)) q = reads d q"
  using assms
proof (induction xs arbitrary: d)
  case (Cons x xs)
  obtain r d1 where f: "f x d = (r, d1)" by fastforce
  moreover have "reads d1 q = reads d q" using Cons.prems [of x d] f by simp
  ultimately show ?case using Cons.IH [of d1] Cons.prems by (cases r) simp_all
qed simp

text \<open> A workspace edit made of text edits touches no file but those its changes name, whether it
  succeeds or fails half way. \<close>
theorem workspace_edit_frame:
  assumes "we_document_changes we = []" "q \<notin> (\<lambda>c. uri_path (fst c)) ` set (we_changes we)"
  shows "reads (snd (apply_workspace_edit sorted_by_start we d)) q = reads d q"
proof -
  have "reads (snd (until_failure (\<lambda>(uri, es). apply_text_edits sorted_by_start uri es) (we_changes we) d)) q = reads d q"
    using assms(2) by (intro until_failure_frame) (force intro: apply_text_edits_frame)
  then show ?thesis using assms(1) by (auto simp: apply_workspace_edit_def split: prod.split option.split)
qed

theorem workspace_edit_frame_witness:
  "reads (snd (apply_workspace_edit insertion_sort \<lparr>we_changes = [(''file:///r/f'', demo_edits)], we_document_changes = []\<rparr>
     \<lparr>d_files = [(''/r/f'', demo_text), (''/r/g'', ''x'')], d_dirs = [''/r''], d_bad = []\<rparr>)) ''/r/g'' = Some ''x''"
  by (subst workspace_edit_frame) (simp_all add: uri_path_def reads_alt trim_prefix_def has_prefix_def)

end
