(* ===== verification/Agent_Message.thy ===== *)
theory Agent_Message
  imports Json_Fields "HOL-Library.Multiset"
begin

text \<open>
  The messages of a conversation with an agent: their parts (\<open>cli/internal/message/content.go\<close>), the JSON
  in which the parts are stored and the operations of the service over the table of messages
  (\<open>cli/internal/message/message.go\<close>, \<open>cli/internal/db/messages.sql.go\<close>).

  Roles and finish reasons are strings as in the code. The bytes of a binary part are \<open>None\<close> for a nil
  slice; the decoding of a JSON array of numbers into bytes, which nothing writes, is left out. The table is
  the list of its rows in the order of insertion; messages of one second are listed in an order that SQL
  leaves open, so the sort is a parameter. Publishing to subscribers is left out.
\<close>

section \<open>Parts\<close>

record tool_call =
  tc_id :: string
  tc_name :: string
  tc_input :: string
  tc_type :: string
  tc_finished :: bool

record tool_result =
  tr_call :: string
  tr_name :: string
  tr_content :: string
  tr_metadata :: string
  tr_error :: bool

datatype part =
    Reasoning string
  | Text_Part string
  | Image_URL string string
  | Binary string string "string option"
  | Call_Part tool_call
  | Result_Part tool_result
  | Finish string int

record chat_message =
  cm_id :: string
  cm_role :: string
  cm_session :: string
  cm_parts :: "part list"
  cm_model :: string
  cm_created :: int
  cm_updated :: int

fun the_text :: "part \<Rightarrow> string option" where
  "the_text (Text_Part t) = Some t" | "the_text _ = None"

fun the_reasoning :: "part \<Rightarrow> string option" where
  "the_reasoning (Reasoning t) = Some t" | "the_reasoning _ = None"

fun the_image :: "part \<Rightarrow> (string \<times> string) option" where
  "the_image (Image_URL u d) = Some (u, d)" | "the_image _ = None"

fun the_binary :: "part \<Rightarrow> (string \<times> string \<times> string option) option" where
  "the_binary (Binary p m d) = Some (p, m, d)" | "the_binary _ = None"

fun the_call :: "part \<Rightarrow> tool_call option" where
  "the_call (Call_Part c) = Some c" | "the_call _ = None"

fun the_result :: "part \<Rightarrow> tool_result option" where
  "the_result (Result_Part r) = Some r" | "the_result _ = None"

fun the_finish :: "part \<Rightarrow> (string \<times> int) option" where
  "the_finish (Finish r t) = Some (r, t)" | "the_finish _ = None"

definition first_of :: "(part \<Rightarrow> 'a option) \<Rightarrow> part list \<Rightarrow> 'a option" where
  "first_of f ps = (case List.map_filter f ps of [] \<Rightarrow> None | x # xs \<Rightarrow> Some x)"

definition content_of :: "part list \<Rightarrow> string" where
  "content_of ps = (case first_of the_text ps of None \<Rightarrow> [] | Some t \<Rightarrow> t)"

definition reasoning_of :: "part list \<Rightarrow> string" where
  "reasoning_of ps = (case first_of the_reasoning ps of None \<Rightarrow> [] | Some t \<Rightarrow> t)"

definition images_of :: "part list \<Rightarrow> (string \<times> string) list" where
  "images_of ps = List.map_filter the_image ps"

definition binaries_of :: "part list \<Rightarrow> (string \<times> string \<times> string option) list" where
  "binaries_of ps = List.map_filter the_binary ps"

definition calls_of :: "part list \<Rightarrow> tool_call list" where
  "calls_of ps = List.map_filter the_call ps"

definition results_of :: "part list \<Rightarrow> tool_result list" where
  "results_of ps = List.map_filter the_result ps"

definition finish_of :: "part list \<Rightarrow> (string \<times> int) option" where
  "finish_of ps = first_of the_finish ps"

definition is_finished :: "part list \<Rightarrow> bool" where
  "is_finished ps \<longleftrightarrow> finish_of ps \<noteq> None"

definition finish_reason :: "part list \<Rightarrow> string" where
  "finish_reason ps = (case finish_of ps of None \<Rightarrow> [] | Some (r, t) \<Rightarrow> r)"

definition is_thinking :: "part list \<Rightarrow> bool" where
  "is_thinking ps \<longleftrightarrow> reasoning_of ps \<noteq> [] \<and> content_of ps = [] \<and> \<not> is_finished ps"

section \<open>Changing the parts\<close>

definition append_content :: "string \<Rightarrow> part list \<Rightarrow> part list" where
  "append_content d ps =
     (if list_ex (\<lambda>p. the_text p \<noteq> None) ps
      then map (\<lambda>p. case the_text p of Some t \<Rightarrow> Text_Part (t @ d) | None \<Rightarrow> p) ps else ps @ [Text_Part d])"

definition append_reasoning :: "string \<Rightarrow> part list \<Rightarrow> part list" where
  "append_reasoning d ps =
     (if list_ex (\<lambda>p. the_reasoning p \<noteq> None) ps
      then map (\<lambda>p. case the_reasoning p of Some t \<Rightarrow> Reasoning (t @ d) | None \<Rightarrow> p) ps else ps @ [Reasoning d])"

definition is_call :: "string \<Rightarrow> part \<Rightarrow> bool" where
  "is_call i p \<longleftrightarrow> (case the_call p of Some c \<Rightarrow> tc_id c = i | None \<Rightarrow> False)"

fun update_call :: "string \<Rightarrow> (tool_call \<Rightarrow> tool_call) \<Rightarrow> part list \<Rightarrow> part list" where
  "update_call i f [] = []"
| "update_call i f (p # ps) =
     (case the_call p of
        Some c \<Rightarrow> (if tc_id c = i then Call_Part (f c) # ps else p # update_call i f ps)
      | None \<Rightarrow> p # update_call i f ps)"

definition finish_tool_call :: "string \<Rightarrow> part list \<Rightarrow> part list" where
  "finish_tool_call i ps = update_call i (\<lambda>c. c\<lparr>tc_finished := True\<rparr>) ps"

definition append_tool_call_input :: "string \<Rightarrow> string \<Rightarrow> part list \<Rightarrow> part list" where
  "append_tool_call_input i d ps = update_call i (\<lambda>c. c\<lparr>tc_input := tc_input c @ d\<rparr>) ps"

definition add_tool_call :: "tool_call \<Rightarrow> part list \<Rightarrow> part list" where
  "add_tool_call c ps = (if list_ex (is_call (tc_id c)) ps then update_call (tc_id c) (\<lambda>_. c) ps else ps @ [Call_Part c])"

definition set_tool_calls :: "tool_call list \<Rightarrow> part list \<Rightarrow> part list" where
  "set_tool_calls cs ps = filter (\<lambda>p. the_call p = None) ps @ map Call_Part cs"

definition add_tool_result :: "tool_result \<Rightarrow> part list \<Rightarrow> part list" where
  "add_tool_result r ps = ps @ [Result_Part r]"

definition set_tool_results :: "tool_result list \<Rightarrow> part list \<Rightarrow> part list" where
  "set_tool_results rs ps = ps @ map Result_Part rs"

fun drop_first_finish :: "part list \<Rightarrow> part list" where
  "drop_first_finish [] = []"
| "drop_first_finish (p # ps) = (if the_finish p \<noteq> None then ps else p # drop_first_finish ps)"

definition add_finish :: "string \<Rightarrow> int \<Rightarrow> part list \<Rightarrow> part list" where
  "add_finish r now ps = drop_first_finish ps @ [Finish r now]"

definition add_image_url :: "string \<Rightarrow> string \<Rightarrow> part list \<Rightarrow> part list" where
  "add_image_url u d ps = ps @ [Image_URL u d]"

definition add_binary :: "string \<Rightarrow> string option \<Rightarrow> part list \<Rightarrow> part list" where
  "add_binary m d ps = ps @ [Binary [] m d]"

section \<open>The stored form\<close>

definition call_json :: "tool_call \<Rightarrow> json" where
  "call_json c = JObj [(''id'', JStr (tc_id c)), (''name'', JStr (tc_name c)), (''input'', JStr (tc_input c)),
     (''type'', JStr (tc_type c)), (''finished'', JBool (tc_finished c))]"

definition result_json :: "tool_result \<Rightarrow> json" where
  "result_json r = JObj [(''tool_call_id'', JStr (tr_call r)), (''name'', JStr (tr_name r)), (''content'', JStr (tr_content r)),
     (''metadata'', JStr (tr_metadata r)), (''is_error'', JBool (tr_error r))]"

fun part_json :: "part \<Rightarrow> string \<times> json" where
  "part_json (Reasoning t) = (''reasoning'', JObj [(''thinking'', JStr t)])"
| "part_json (Text_Part t) = (''text'', JObj [(''text'', JStr t)])"
| "part_json (Image_URL u d) = (''image_url'', JObj ((''url'', JStr u) # (if d = [] then [] else [(''detail'', JStr d)])))"
| "part_json (Binary p m d) = (''binary'', JObj [(''Path'', JStr p), (''MIMEType'', JStr m),
     (''Data'', case d of None \<Rightarrow> JNull | Some bs \<Rightarrow> JStr (b64_encode bs))])"
| "part_json (Call_Part c) = (''tool_call'', call_json c)"
| "part_json (Result_Part r) = (''tool_result'', result_json r)"
| "part_json (Finish r t) = (''finish'', JObj [(''reason'', JStr r), (''time'', jint t)])"

definition wrapped :: "part \<Rightarrow> json" where
  "wrapped p = (let (t, v) = part_json p in JObj [(''type'', JStr t), (''data'', v)])"

definition marshall_parts :: "part list \<Rightarrow> string" where
  "marshall_parts ps = json_text (JArr (map wrapped ps))"

fun dec_bytes :: "string \<Rightarrow> (string \<times> json) list \<Rightarrow> string option \<Rightarrow> string option option" where
  "dec_bytes name [] cur = Some cur"
| "dec_bytes name ((k, v) # ms) cur =
     (if same_key k name
      then (case v of
              JStr s \<Rightarrow> (case b64_decode s of None \<Rightarrow> None | Some b \<Rightarrow> dec_bytes name ms (Some b))
            | JNull \<Rightarrow> dec_bytes name ms None
            | _ \<Rightarrow> None)
      else dec_bytes name ms cur)"

definition dec_call :: "(string \<times> json) list \<Rightarrow> tool_call option" where
  "dec_call ms =
     (case (dec_str ''id'' ms [], dec_str ''name'' ms [], dec_str ''input'' ms [], dec_str ''type'' ms [], dec_bool ''finished'' ms False) of
        (Some i, Some n, Some p, Some t, Some b) \<Rightarrow> Some \<lparr>tc_id = i, tc_name = n, tc_input = p, tc_type = t, tc_finished = b\<rparr>
      | _ \<Rightarrow> None)"

definition dec_result :: "(string \<times> json) list \<Rightarrow> tool_result option" where
  "dec_result ms =
     (case (dec_str ''tool_call_id'' ms [], dec_str ''name'' ms [], dec_str ''content'' ms [], dec_str ''metadata'' ms [],
            dec_bool ''is_error'' ms False) of
        (Some i, Some n, Some c, Some m, Some b) \<Rightarrow> Some \<lparr>tr_call = i, tr_name = n, tr_content = c, tr_metadata = m, tr_error = b\<rparr>
      | _ \<Rightarrow> None)"

text \<open>The parts that one stored part adds: an image is decoded and not added.\<close>

definition dec_part :: "string \<Rightarrow> (string \<times> json) list \<Rightarrow> part list option" where
  "dec_part t ms =
     (if t = ''reasoning'' then map_option (\<lambda>x. [Reasoning x]) (dec_str ''thinking'' ms [])
      else if t = ''text'' then map_option (\<lambda>x. [Text_Part x]) (dec_str ''text'' ms [])
      else if t = ''image_url'' then
        (case (dec_str ''url'' ms [], dec_str ''detail'' ms []) of (Some u, Some d) \<Rightarrow> Some [] | _ \<Rightarrow> None)
      else if t = ''binary'' then
        (case (dec_str ''Path'' ms [], dec_str ''MIMEType'' ms [], dec_bytes ''Data'' ms None) of
           (Some p, Some m, Some d) \<Rightarrow> Some [Binary p m d] | _ \<Rightarrow> None)
      else if t = ''tool_call'' then map_option (\<lambda>c. [Call_Part c]) (dec_call ms)
      else if t = ''tool_result'' then map_option (\<lambda>r. [Result_Part r]) (dec_result ms)
      else if t = ''finish'' then
        (case (dec_str ''reason'' ms [], dec_number 64 ''time'' ms 0) of (Some r, Some n) \<Rightarrow> Some [Finish r n] | _ \<Rightarrow> None)
      else None)"

definition unwrap :: "json \<Rightarrow> part list option" where
  "unwrap v =
     (case json_members_of v of
        None \<Rightarrow> None
      | Some ms \<Rightarrow>
          (case (dec_str ''type'' ms [], dec_raw ''data'' ms None) of
             (Some t, Some d) \<Rightarrow> (case json_members_of d of None \<Rightarrow> None | Some fs \<Rightarrow> dec_part t fs)
           | _ \<Rightarrow> None))"

definition unmarshall_parts :: "string \<Rightarrow> part list option" where
  "unmarshall_parts s =
     (case json_parse s of
        Some (JArr vs) \<Rightarrow> map_option List.concat (those (map unwrap vs))
      | Some JNull \<Rightarrow> Some []
      | _ \<Rightarrow> None)"

section \<open>The service\<close>

record message_row =
  ms_id :: string
  ms_session :: string
  ms_role :: string
  ms_parts :: string
  ms_model :: string
  ms_created :: int
  ms_updated :: int
  ms_finished :: "int option"

type_synonym message_rows = "message_row list"

definition from_row :: "message_row \<Rightarrow> chat_message option" where
  "from_row r =
     (case unmarshall_parts (ms_parts r) of
        None \<Rightarrow> None
      | Some ps \<Rightarrow> Some \<lparr>cm_id = ms_id r, cm_role = ms_role r, cm_session = ms_session r, cm_parts = ps, cm_model = ms_model r,
                        cm_created = ms_created r, cm_updated = ms_updated r\<rparr>)"

text \<open>The id of a row is unique in the table.\<close>

definition create_message ::
    "string \<Rightarrow> int \<Rightarrow> string \<Rightarrow> string \<Rightarrow> part list \<Rightarrow> string \<Rightarrow> message_rows \<Rightarrow> (chat_message \<times> message_rows) option" where
  "create_message i now session role ps model rows =
     (let ps' = (if role \<noteq> ''assistant'' then ps @ [Finish ''stop'' 0] else ps);
          r = \<lparr>ms_id = i, ms_session = session, ms_role = role, ms_parts = marshall_parts ps', ms_model = model,
               ms_created = now, ms_updated = now, ms_finished = None\<rparr>
      in if list_ex (\<lambda>q. ms_id q = i) rows then None
         else case from_row r of None \<Rightarrow> None | Some m \<Rightarrow> Some (m, rows @ [r]))"

definition update_message :: "int \<Rightarrow> chat_message \<Rightarrow> message_rows \<Rightarrow> message_rows" where
  "update_message now m rows =
     map (\<lambda>r. if ms_id r = cm_id m
              then r\<lparr>ms_parts := marshall_parts (cm_parts m), ms_finished := map_option snd (finish_of (cm_parts m)), ms_updated := now\<rparr>
              else r) rows"

definition get_message :: "string \<Rightarrow> message_rows \<Rightarrow> chat_message option" where
  "get_message i rows = (case List.find (\<lambda>r. ms_id r = i) rows of None \<Rightarrow> None | Some r \<Rightarrow> from_row r)"

definition list_messages :: "(message_rows \<Rightarrow> message_rows) \<Rightarrow> string \<Rightarrow> message_rows \<Rightarrow> chat_message list option" where
  "list_messages oldest session rows = those (map from_row (oldest (filter (\<lambda>r. ms_session r = session) rows)))"

definition delete_message :: "string \<Rightarrow> message_rows \<Rightarrow> message_rows option" where
  "delete_message i rows =
     (case get_message i rows of None \<Rightarrow> None | Some m \<Rightarrow> Some (filter (\<lambda>r. ms_id r \<noteq> cm_id m) rows))"

fun delete_messages :: "string \<Rightarrow> chat_message list \<Rightarrow> message_rows \<Rightarrow> bool \<times> message_rows" where
  "delete_messages session [] rows = (True, rows)"
| "delete_messages session (m # ms) rows =
     (if cm_session m = session
      then (case delete_message (cm_id m) rows of None \<Rightarrow> (False, rows) | Some rows' \<Rightarrow> delete_messages session ms rows')
      else delete_messages session ms rows)"

definition delete_session_messages :: "(message_rows \<Rightarrow> message_rows) \<Rightarrow> string \<Rightarrow> message_rows \<Rightarrow> bool \<times> message_rows" where
  "delete_session_messages oldest session rows =
     (case list_messages oldest session rows of None \<Rightarrow> (False, rows) | Some ms \<Rightarrow> delete_messages session ms rows)"

section \<open>Lemmas on parts\<close>

lemma map_filter_append [simp]: "List.map_filter f (xs @ ys) = List.map_filter f xs @ List.map_filter f ys"
  by (simp add: List.map_filter_def)

lemma map_filter_none: "(\<And>x. x \<in> set xs \<Longrightarrow> f x = None) \<Longrightarrow> List.map_filter f xs = []"
  by (auto simp: List.map_filter_def filter_empty_conv)

lemma map_filter_Cons [simp]: "List.map_filter f (x # xs) = (case f x of None \<Rightarrow> List.map_filter f xs | Some y \<Rightarrow> y # List.map_filter f xs)"
  by (cases "f x") (simp_all add: List.map_filter_def)

lemma map_filter_Nil [simp]: "List.map_filter f [] = []"
  by (simp add: List.map_filter_def)

text \<open>What one kind of part is does not depend on changes of another.\<close>

lemma append_content_others [simp]:
  "calls_of (append_content d ps) = calls_of ps" "finish_of (append_content d ps) = finish_of ps"
  "reasoning_of (append_content d ps) = reasoning_of ps" "results_of (append_content d ps) = results_of ps"
proof -
  have m: "List.map_filter f (map (\<lambda>p. case the_text p of Some t \<Rightarrow> Text_Part (t @ d) | None \<Rightarrow> p) ps) = List.map_filter f ps"
    if "\<And>t. f (Text_Part t) = None" for f :: "part \<Rightarrow> 'x option"
  proof (induction ps)
    case (Cons p ps)
    then show ?case using that by (cases p) (simp_all split: option.split)
  qed simp
  show "calls_of (append_content d ps) = calls_of ps" "finish_of (append_content d ps) = finish_of ps"
    "reasoning_of (append_content d ps) = reasoning_of ps" "results_of (append_content d ps) = results_of ps"
    by (simp_all add: append_content_def calls_of_def finish_of_def reasoning_of_def results_of_def first_of_def m)
qed

lemma append_reasoning_others [simp]:
  "calls_of (append_reasoning d ps) = calls_of ps" "finish_of (append_reasoning d ps) = finish_of ps"
  "content_of (append_reasoning d ps) = content_of ps" "results_of (append_reasoning d ps) = results_of ps"
proof -
  have m: "List.map_filter f (map (\<lambda>p. case the_reasoning p of Some t \<Rightarrow> Reasoning (t @ d) | None \<Rightarrow> p) ps) = List.map_filter f ps"
    if "\<And>t. f (Reasoning t) = None" for f :: "part \<Rightarrow> 'x option"
  proof (induction ps)
    case (Cons p ps)
    then show ?case using that by (cases p) (simp_all split: option.split)
  qed simp
  show "calls_of (append_reasoning d ps) = calls_of ps" "finish_of (append_reasoning d ps) = finish_of ps"
    "content_of (append_reasoning d ps) = content_of ps" "results_of (append_reasoning d ps) = results_of ps"
    by (simp_all add: append_reasoning_def calls_of_def finish_of_def content_of_def results_of_def first_of_def m)
qed

lemma first_of_append: "first_of f (ps @ qs) = (case first_of f ps of None \<Rightarrow> first_of f qs | Some x \<Rightarrow> Some x)"
  by (simp add: first_of_def split: list.split)

lemma content_append: "content_of (append_content d ps) = content_of ps @ d"
proof (cases "list_ex (\<lambda>p. the_text p \<noteq> None) ps")
  case True
  then have "first_of the_text (map (\<lambda>p. case the_text p of Some t \<Rightarrow> Text_Part (t @ d) | None \<Rightarrow> p) ps) =
      map_option (\<lambda>t. t @ d) (first_of the_text ps) \<and> first_of the_text ps \<noteq> None"
  proof (induction ps)
    case (Cons p ps)
    then show ?case by (cases p) (auto simp: first_of_def)
  qed simp
  with True show ?thesis by (auto simp: append_content_def content_of_def)
next
  case False
  then have "List.map_filter the_text ps = []" by (intro map_filter_none) (auto simp: list_ex_iff)
  with False show ?thesis by (simp add: append_content_def content_of_def first_of_def)
qed

lemma reasoning_append: "reasoning_of (append_reasoning d ps) = reasoning_of ps @ d"
proof (cases "list_ex (\<lambda>p. the_reasoning p \<noteq> None) ps")
  case True
  then have "first_of the_reasoning (map (\<lambda>p. case the_reasoning p of Some t \<Rightarrow> Reasoning (t @ d) | None \<Rightarrow> p) ps) =
      map_option (\<lambda>t. t @ d) (first_of the_reasoning ps) \<and> first_of the_reasoning ps \<noteq> None"
  proof (induction ps)
    case (Cons p ps)
    then show ?case by (cases p) (auto simp: first_of_def)
  qed simp
  with True show ?thesis by (auto simp: append_reasoning_def reasoning_of_def)
next
  case False
  then have "List.map_filter the_reasoning ps = []" by (intro map_filter_none) (auto simp: list_ex_iff)
  with False show ?thesis by (simp add: append_reasoning_def reasoning_of_def first_of_def)
qed

text \<open>Changes of the calls, and of the finish, leave the rest alone.\<close>

lemma update_call_others:
  assumes "\<And>c. f (Call_Part c) = None"
  shows "List.map_filter f (update_call i g ps) = List.map_filter f ps"
proof (induction ps)
  case (Cons p ps)
  then show ?case using assms by (cases p) (simp_all split: option.split)
qed simp

lemma set_tool_calls_others:
  assumes "\<And>c. f (Call_Part c) = None"
  shows "List.map_filter f (set_tool_calls cs ps) = List.map_filter f ps"
proof -
  have "List.map_filter f (filter (\<lambda>p. the_call p = None) ps) = List.map_filter f ps"
  proof (induction ps)
    case (Cons p ps)
    then show ?case using assms by (cases p) (simp_all split: option.split)
  qed simp
  moreover have "List.map_filter f (map Call_Part cs) = []" by (rule map_filter_none) (use assms in auto)
  ultimately show ?thesis by (simp add: set_tool_calls_def)
qed

lemma call_changes_others [simp]:
  "content_of (update_call i g ps) = content_of ps" "reasoning_of (update_call i g ps) = reasoning_of ps"
  "finish_of (update_call i g ps) = finish_of ps" "results_of (update_call i g ps) = results_of ps"
  "content_of (set_tool_calls cs ps) = content_of ps" "reasoning_of (set_tool_calls cs ps) = reasoning_of ps"
  "finish_of (set_tool_calls cs ps) = finish_of ps" "results_of (set_tool_calls cs ps) = results_of ps"
  by (simp_all add: content_of_def reasoning_of_def finish_of_def results_of_def first_of_def update_call_others set_tool_calls_others)

lemma add_tool_call_others [simp]:
  "content_of (add_tool_call c ps) = content_of ps" "reasoning_of (add_tool_call c ps) = reasoning_of ps"
  "finish_of (add_tool_call c ps) = finish_of ps" "results_of (add_tool_call c ps) = results_of ps"
  by (simp_all add: add_tool_call_def)
    (simp_all add: content_of_def reasoning_of_def finish_of_def results_of_def first_of_def split: list.split)

lemma calls_set [simp]: "calls_of (set_tool_calls cs ps) = cs"
proof -
  have "List.map_filter the_call (map Call_Part cs) = cs" by (induction cs) simp_all
  moreover have "List.map_filter the_call (filter (\<lambda>p. the_call p = None) ps) = []" by (rule map_filter_none) simp
  ultimately show ?thesis by (simp add: calls_of_def set_tool_calls_def)
qed

lemma drop_first_finish_others:
  assumes "\<And>r t. f (Finish r t) = None"
  shows "List.map_filter f (drop_first_finish ps) = List.map_filter f ps"
proof (induction ps)
  case (Cons p ps)
  then show ?case using assms by (cases p) (simp_all split: option.split)
qed simp

lemma add_finish_others [simp]:
  "content_of (add_finish r t ps) = content_of ps" "reasoning_of (add_finish r t ps) = reasoning_of ps"
  "calls_of (add_finish r t ps) = calls_of ps" "results_of (add_finish r t ps) = results_of ps"
  by (simp_all add: content_of_def reasoning_of_def calls_of_def results_of_def first_of_def add_finish_def drop_first_finish_others)

text \<open>A message has one finish at most, and the latest replaces it.\<close>

definition one_finish :: "part list \<Rightarrow> bool" where
  "one_finish ps \<longleftrightarrow> length (List.map_filter the_finish ps) \<le> 1"

lemma drop_finish: "one_finish ps \<Longrightarrow> List.map_filter the_finish (drop_first_finish ps) = []"
  unfolding one_finish_def by (induction ps) (auto split: option.splits)

lemma finish_add [simp]:
  assumes "one_finish ps"
  shows "finish_of (add_finish r t ps) = Some (r, t)" "one_finish (add_finish r t ps)"
  using drop_finish [OF assms] by (simp_all add: finish_of_def add_finish_def first_of_append first_of_def one_finish_def)

lemma one_finish_others [simp]:
  "one_finish (append_content d ps) = one_finish ps" "one_finish (append_reasoning d ps) = one_finish ps"
  "one_finish (update_call i g ps) = one_finish ps" "one_finish (set_tool_calls cs ps) = one_finish ps"
  "one_finish (add_tool_call c ps) = one_finish ps"
proof -
  have t: "List.map_filter the_finish (map (\<lambda>p. case the_text p of Some t \<Rightarrow> Text_Part (t @ d) | None \<Rightarrow> p) ps) = List.map_filter the_finish ps"
    "List.map_filter the_finish (map (\<lambda>p. case the_reasoning p of Some t \<Rightarrow> Reasoning (t @ d) | None \<Rightarrow> p) ps) = List.map_filter the_finish ps"
    by (induction ps) (simp_all split: option.split, (case_tac a; simp)+)
  show "one_finish (append_content d ps) = one_finish ps" "one_finish (append_reasoning d ps) = one_finish ps"
    using t by (simp_all add: one_finish_def append_content_def append_reasoning_def)
  show u: "one_finish (update_call i g ps) = one_finish ps" for i g by (simp add: one_finish_def update_call_others)
  show "one_finish (set_tool_calls cs ps) = one_finish ps" by (simp add: one_finish_def set_tool_calls_others)
  show "one_finish (add_tool_call c ps) = one_finish ps" using u by (simp add: add_tool_call_def one_finish_def)
qed

section \<open>What is stored is read back\<close>

definition struct_fields :: "string list list" where
  "struct_fields = [[''type'', ''data''], [''url'', ''detail''], [''Path'', ''MIMEType'', ''Data''],
     [''id'', ''name'', ''input'', ''type'', ''finished''], [''tool_call_id'', ''name'', ''content'', ''metadata'', ''is_error''],
     [''reason'', ''time''], [''thinking''], [''text'']]"

lemma struct_fields_differ:
  "list_all (\<lambda>ns. list_all (\<lambda>a. list_all (\<lambda>b. same_key a b = (a = b)) ns) ns) struct_fields"
  by code_simp

lemmas field_keys = struct_fields_differ [unfolded struct_fields_def, simplified]

definition storable :: "part \<Rightarrow> bool" where
  "storable p \<longleftrightarrow> (case the_finish p of Some (r, t) \<Rightarrow> in_int64 t | None \<Rightarrow> True)"

definition stored :: "part \<Rightarrow> part list" where
  "stored p = (if the_image p = None then [p] else [])"

lemma dec_part_simps:
  "dec_part ''reasoning'' ms = map_option (\<lambda>x. [Reasoning x]) (dec_str ''thinking'' ms [])"
  "dec_part ''text'' ms = map_option (\<lambda>x. [Text_Part x]) (dec_str ''text'' ms [])"
  "dec_part ''image_url'' ms = (case (dec_str ''url'' ms [], dec_str ''detail'' ms []) of (Some u, Some d) \<Rightarrow> Some [] | _ \<Rightarrow> None)"
  "dec_part ''binary'' ms = (case (dec_str ''Path'' ms [], dec_str ''MIMEType'' ms [], dec_bytes ''Data'' ms None) of
     (Some p, Some m, Some d) \<Rightarrow> Some [Binary p m d] | _ \<Rightarrow> None)"
  "dec_part ''tool_call'' ms = map_option (\<lambda>c. [Call_Part c]) (dec_call ms)"
  "dec_part ''tool_result'' ms = map_option (\<lambda>r. [Result_Part r]) (dec_result ms)"
  "dec_part ''finish'' ms = (case (dec_str ''reason'' ms [], dec_number 64 ''time'' ms 0) of (Some r, Some n) \<Rightarrow> Some [Finish r n] | _ \<Rightarrow> None)"
  by (simp_all add: dec_part_def)

lemma dec_call_json: "call_json c = JObj ms \<Longrightarrow> dec_call ms = Some c"
  unfolding call_json_def json.inject by (drule sym) (simp add: dec_call_def field_keys)

lemma dec_result_json: "result_json r = JObj ms \<Longrightarrow> dec_result ms = Some r"
  unfolding result_json_def json.inject by (drule sym) (simp add: dec_result_def field_keys)

lemma unwrap_part:
  assumes "storable p" "part_json p = (t, v)"
  shows "\<exists>ms. v = JObj ms \<and> dec_part t ms = Some (stored p)"
proof (cases p)
  case (Reasoning x)
  with assms(2) [symmetric] show ?thesis by (simp add: dec_part_simps stored_def field_keys)
next
  case (Text_Part x)
  with assms(2) [symmetric] show ?thesis by (simp add: dec_part_simps stored_def field_keys)
next
  case (Image_URL u d)
  with assms(2) [symmetric] show ?thesis by (simp add: dec_part_simps stored_def field_keys)
next
  case (Binary a m d)
  with assms(2) [symmetric] show ?thesis by (cases d) (simp_all add: dec_part_simps stored_def field_keys b64_decode_encode)
next
  case (Call_Part c)
  obtain ms where "call_json c = JObj ms" by (simp add: call_json_def)
  with assms(2) [symmetric] Call_Part dec_call_json show ?thesis by (simp add: dec_part_simps stored_def)
next
  case (Result_Part r)
  obtain ms where "result_json r = JObj ms" by (simp add: result_json_def)
  with assms(2) [symmetric] Result_Part dec_result_json show ?thesis by (simp add: dec_part_simps stored_def)
next
  case (Finish r n)
  then have "int_literal 64 (itoa n) = Some n" using assms(1) by (simp add: storable_def int_literal_itoa)
  then show ?thesis using assms(2) [symmetric] Finish by (simp add: dec_part_simps stored_def field_keys jint_def)
qed

lemma unwrap_wrapped:
  assumes "storable p"
  shows "unwrap (wrapped p) = Some (stored p)"
proof -
  obtain t v where j: "part_json p = (t, v)" by force
  with unwrap_part [OF assms this] show ?thesis by (clarsimp simp add: unwrap_def wrapped_def json_members_of_def field_keys)
qed

lemma wrapped_ok: "json_ok (wrapped p)"
  by (cases p) (simp_all add: wrapped_def call_json_def result_json_def split: option.split)

definition kept_parts :: "part list \<Rightarrow> part list" where
  "kept_parts ps = filter (\<lambda>p. the_image p = None) ps"

lemma those_map_Some [simp]: "those (map Some xs) = Some xs"
  by (induction xs) simp_all

lemma unmarshall_marshall:
  assumes "list_all storable ps"
  shows "unmarshall_parts (marshall_parts ps) = Some (kept_parts ps)"
proof -
  have "json_ok (JArr (map wrapped ps))" using wrapped_ok by (simp add: list_all_iff)
  moreover have "map unwrap (map wrapped ps) = map Some (map stored ps)"
    using assms unwrap_wrapped by (simp add: list_all_iff)
  then have "those (map unwrap (map wrapped ps)) = Some (map stored ps)" by (simp only: those_map_Some)
  moreover have "List.concat (map stored ps) = kept_parts ps" by (induction ps) (simp_all add: stored_def kept_parts_def)
  ultimately show ?thesis
    unfolding unmarshall_parts_def marshall_parts_def json_parse_text [OF \<open>json_ok (JArr (map wrapped ps))\<close>] by simp
qed



section \<open>The table\<close>

definition rows_inv :: "message_rows \<Rightarrow> bool" where
  "rows_inv rows \<longleftrightarrow> distinct (map ms_id rows)"

definition sent_parts :: "string \<Rightarrow> part list \<Rightarrow> part list" where
  "sent_parts role ps = (if role \<noteq> ''assistant'' then ps @ [Finish ''stop'' 0] else ps)"

lemma create_message_Some:
  assumes "list_all storable ps" "i \<notin> ms_id ` set rows"
  shows "\<exists>r. create_message i now session role ps model rows =
      Some (\<lparr>cm_id = i, cm_role = role, cm_session = session, cm_parts = kept_parts (sent_parts role ps), cm_model = model,
              cm_created = now, cm_updated = now\<rparr>, rows @ [r]) \<and>
    ms_id r = i \<and> ms_session r = session \<and> ms_created r = now \<and> ms_parts r = marshall_parts (sent_parts role ps)"
proof -
  have "list_all storable (sent_parts role ps)" using assms(1) by (simp add: sent_parts_def storable_def in_int64_def)
  moreover have "\<not> list_ex (\<lambda>q. ms_id q = i) rows" using assms(2) by (auto simp: list_ex_iff)
  ultimately show ?thesis by (simp add: create_message_def Let_def from_row_def unmarshall_marshall flip: sent_parts_def)
qed

lemma create_message_inv:
  "rows_inv rows \<Longrightarrow> create_message i now session role ps model rows = Some (m, rows') \<Longrightarrow> rows_inv rows'"
  by (auto simp: create_message_def Let_def rows_inv_def list_ex_iff split: if_splits option.splits)

lemma update_message_inv: "rows_inv (update_message now m rows) = rows_inv rows"
proof -
  have "map ms_id (update_message now m rows) = map ms_id rows" by (simp add: update_message_def)
  then show ?thesis by (simp only: rows_inv_def)
qed

lemma get_update:
  assumes "cm_id m \<in> ms_id ` set rows" "list_all storable (cm_parts m)"
  shows "\<exists>x. get_message (cm_id m) (update_message now m rows) = Some x \<and> cm_id x = cm_id m \<and> cm_parts x = kept_parts (cm_parts m)"
proof -
  have f: "List.find (\<lambda>r. ms_id r = cm_id m) (update_message now m rows) = map_option
     (\<lambda>r. r\<lparr>ms_parts := marshall_parts (cm_parts m), ms_finished := map_option snd (finish_of (cm_parts m)), ms_updated := now\<rparr>)
     (List.find (\<lambda>r. ms_id r = cm_id m) rows)" by (induction rows) (simp_all add: update_message_def)
  obtain r where "List.find (\<lambda>r. ms_id r = cm_id m) rows = Some r" using assms(1) by (cases "List.find (\<lambda>r. ms_id r = cm_id m) rows") (auto simp: find_None_iff)
  moreover then have "ms_id r = cm_id m" by (auto simp: find_Some_iff)
  ultimately show ?thesis using f unmarshall_marshall [OF assms(2)] by (simp add: get_message_def from_row_def)
qed

lemma get_update_other: "i \<noteq> cm_id m \<Longrightarrow> get_message i (update_message now m rows) = get_message i rows"
proof -
  assume "i \<noteq> cm_id m"
  then have "List.find (\<lambda>r. ms_id r = i) (update_message now m rows) = List.find (\<lambda>r. ms_id r = i) rows"
    by (induction rows) (auto simp: update_message_def)
  then show ?thesis by (simp add: get_message_def)
qed

text \<open>A sort by the time of creation; what it does with equal times is open.\<close>

locale oldest_first =
  fixes oldest :: "message_rows \<Rightarrow> message_rows"
  assumes oldest_mset: "mset (oldest rows) = mset rows"
    and oldest_sorted: "sorted_wrt (\<lambda>a b. ms_created a \<le> ms_created b) (oldest rows)"
begin

lemma oldest_id:
  assumes "sorted_wrt (\<lambda>a b. ms_created a < ms_created b) rows"
  shows "oldest rows = rows"
proof -
  have d: "distinct (map ms_created rows)" using assms by (simp add: strict_sorted_iff flip: sorted_wrt_map)
  have s: "sorted (map ms_created (oldest rows))" "sorted (map ms_created rows)"
    using oldest_sorted assms by (simp_all add: sorted_wrt_map) (rule sorted_wrt_mono_rel [OF _ assms], simp)
  have m: "mset (oldest rows) = mset rows" by (rule oldest_mset)
  then have "map ms_created (oldest rows) = map ms_created rows"
    using s by (metis mset_map properties_for_sort sorted_sort_id)
  moreover have "inj_on ms_created (set (oldest rows) \<union> set rows)"
    using d m by (metis distinct_map mset_eq_setD sup.idem)
  ultimately show ?thesis by (rule map_inj_on)
qed

end

definition oldest_stably :: "message_rows \<Rightarrow> message_rows" where
  "oldest_stably rows = sort_key ms_created rows"

interpretation stable_messages: oldest_first oldest_stably
proof
  fix rows
  show "mset (oldest_stably rows) = mset rows" by (simp add: oldest_stably_def)
  have "sorted (map ms_created (oldest_stably rows))" unfolding oldest_stably_def by (rule sorted_sort_key)
  then show "sorted_wrt (\<lambda>a b. ms_created a \<le> ms_created b) (oldest_stably rows)" by (simp add: sorted_wrt_map)
qed

end
