(* ===== verification/Agent_Loop.thy ===== *)
theory Agent_Loop
  imports Agent_Message
begin

text \<open>
  A conversation with an agent, \<open>cli/internal/llm/agent/agent.go\<close>: the stream of a provider becomes a
  message, the calls of tools it holds are run, their results go back to the provider, until an answer calls no
  tool; with the sessions of \<open>cli/internal/session/session.go\<close> that it keeps up to date.

  Time is a counter of the points where the code looks at its context or the database; at each of them the
  context may have been cancelled and the database may fail, which also stands for its constraints. Tools,
  the stream of each request, ids, clock and the order of messages of one second are parameters; a tool has a
  state of its own and sees the session and the message it is called for. A stream ends, and an event that
  needs a call or a response has one. The cost in dollars, logs, subscribers and the configuration are left
  out. Two goroutines of one agent are the subject of the last sections.
\<close>

section \<open>Sessions\<close>

record chat_session =
  ss_id :: string
  ss_parent :: "string option"
  ss_title :: string
  ss_messages :: int
  ss_prompt :: int
  ss_completion :: int
  ss_summary :: string
  ss_created :: int
  ss_updated :: int

definition new_session :: "string \<Rightarrow> string option \<Rightarrow> string \<Rightarrow> int \<Rightarrow> chat_session" where
  "new_session i parent title now =
     \<lparr>ss_id = i, ss_parent = parent, ss_title = title, ss_messages = 0, ss_prompt = 0, ss_completion = 0, ss_summary = [],
      ss_created = now, ss_updated = now\<rparr>"

definition insert_session :: "chat_session \<Rightarrow> chat_session list \<Rightarrow> (chat_session \<times> chat_session list) option" where
  "insert_session s ss = (if list_ex (\<lambda>q. ss_id q = ss_id s) ss then None else Some (s, ss @ [s]))"

definition create_session :: "string \<Rightarrow> int \<Rightarrow> string \<Rightarrow> chat_session list \<Rightarrow> (chat_session \<times> chat_session list) option" where
  "create_session i now title = insert_session (new_session i None title now)"

definition create_task_session ::
    "int \<Rightarrow> string \<Rightarrow> string \<Rightarrow> string \<Rightarrow> chat_session list \<Rightarrow> (chat_session \<times> chat_session list) option" where
  "create_task_session now call parent title = insert_session (new_session call (Some parent) title now)"

definition create_title_session :: "int \<Rightarrow> string \<Rightarrow> chat_session list \<Rightarrow> (chat_session \<times> chat_session list) option" where
  "create_title_session now parent = insert_session (new_session (''title-'' @ parent) (Some parent) ''Generate a title'' now)"

definition get_session :: "string \<Rightarrow> chat_session list \<Rightarrow> chat_session option" where
  "get_session i ss = List.find (\<lambda>s. ss_id s = i) ss"

definition save_session :: "int \<Rightarrow> chat_session \<Rightarrow> chat_session list \<Rightarrow> (chat_session \<times> chat_session list) option" where
  "save_session now s ss =
     (case get_session (ss_id s) ss of
        None \<Rightarrow> None
      | Some q \<Rightarrow>
          (let q' = q\<lparr>ss_title := ss_title s, ss_prompt := ss_prompt s, ss_completion := ss_completion s, ss_summary := ss_summary s\<rparr>
           in Some (q', map (\<lambda>x. if ss_id x = ss_id s then q'\<lparr>ss_updated := now\<rparr> else x) ss)))"

definition list_sessions :: "(chat_session list \<Rightarrow> chat_session list) \<Rightarrow> chat_session list \<Rightarrow> chat_session list" where
  "list_sessions newest ss = newest (filter (\<lambda>s. ss_parent s = None) ss)"

text \<open>Deleting a session deletes its messages.\<close>

definition delete_session :: "string \<Rightarrow> chat_session list \<times> message_rows \<Rightarrow> (chat_session list \<times> message_rows) option" where
  "delete_session i db =
     (case get_session i (fst db) of
        None \<Rightarrow> None
      | Some s \<Rightarrow> Some (filter (\<lambda>q. ss_id q \<noteq> i) (fst db), filter (\<lambda>r. ms_session r \<noteq> i) (snd db)))"

definition count_messages :: "string \<Rightarrow> int \<Rightarrow> chat_session list \<Rightarrow> chat_session list" where
  "count_messages i n ss = map (\<lambda>s. if ss_id s = i then s\<lparr>ss_messages := ss_messages s + n\<rparr> else s) ss"

section \<open>Environment and state\<close>

record usage =
  us_input :: int
  us_output :: int
  us_cache_creation :: int
  us_cache_read :: int

record response =
  rp_calls :: "tool_call list"
  rp_usage :: usage
  rp_reason :: string

datatype stream_event =
    Ev_Thinking string
  | Ev_Content string
  | Ev_Tool_Start tool_call
  | Ev_Tool_Stop string
  | Ev_Error bool string
  | Ev_Complete response
  | Ev_Other

record tool_response =
  tp_content :: string
  tp_metadata :: string
  tp_error :: bool

datatype tool_failure = Denied | Other_Failure string

datatype agent_error = Canceled | Request_Cancelled | Db_Failed | Provider_Failed string

datatype agent_event = Error_Event agent_error | Reply chat_message

record 's agent_env =
  ae_tools :: "(string \<times> (string \<Rightarrow> string \<Rightarrow> tool_call \<Rightarrow> 's \<Rightarrow> (tool_response \<times> tool_failure option) \<times> 's)) list"
  ae_model :: string
  ae_stream :: "nat \<Rightarrow> chat_message list \<Rightarrow> stream_event list"
  ae_ids :: "nat \<Rightarrow> string"
  ae_now :: "nat \<Rightarrow> int"
  ae_cancelled :: "nat \<Rightarrow> bool"
  ae_db_fault :: "nat \<Rightarrow> bool"
  ae_oldest :: "message_rows \<Rightarrow> message_rows"

record 's agent_state =
  as_rows :: message_rows
  as_sessions :: "chat_session list"
  as_world :: 's
  as_tick :: nat
  as_made :: nat
  as_asked :: nat

definition tick :: "'s agent_state \<Rightarrow> 's agent_state" where
  "tick s = s\<lparr>as_tick := Suc (as_tick s)\<rparr>"

definition clock :: "'s agent_env \<Rightarrow> 's agent_state \<Rightarrow> int" where
  "clock e s = ae_now e (as_tick s)"

definition cancelled :: "'s agent_env \<Rightarrow> 's agent_state \<Rightarrow> bool" where
  "cancelled e s \<longleftrightarrow> ae_cancelled e (as_tick s)"

text \<open>The error of a call to the database, in the background or under the context.\<close>

definition db_error :: "'s agent_env \<Rightarrow> bool \<Rightarrow> 's agent_state \<Rightarrow> agent_error option" where
  "db_error e background s =
     (if \<not> background \<and> cancelled e s then Some Canceled else if ae_db_fault e (as_tick s) then Some Db_Failed else None)"

definition db_create ::
    "'s agent_env \<Rightarrow> bool \<Rightarrow> string \<Rightarrow> string \<Rightarrow> part list \<Rightarrow> string \<Rightarrow> 's agent_state \<Rightarrow> (agent_error + chat_message) \<times> 's agent_state" where
  "db_create e background session role ps model s =
     (case db_error e background s of
        Some err \<Rightarrow> (Inl err, tick s)
      | None \<Rightarrow>
          (case create_message (ae_ids e (as_made s)) (clock e s) session role ps model (as_rows s) of
             None \<Rightarrow> (Inl Db_Failed, (tick s)\<lparr>as_made := Suc (as_made s)\<rparr>)
           | Some (m, rows) \<Rightarrow>
               (Inr m, (tick s)\<lparr>as_made := Suc (as_made s), as_rows := rows, as_sessions := count_messages session 1 (as_sessions s)\<rparr>)))"

definition db_update :: "'s agent_env \<Rightarrow> bool \<Rightarrow> chat_message \<Rightarrow> 's agent_state \<Rightarrow> agent_error option \<times> 's agent_state" where
  "db_update e background m s =
     (case db_error e background s of
        Some err \<Rightarrow> (Some err, tick s)
      | None \<Rightarrow> (None, (tick s)\<lparr>as_rows := update_message (clock e s) m (as_rows s)\<rparr>))"

definition db_get_session :: "'s agent_env \<Rightarrow> bool \<Rightarrow> string \<Rightarrow> 's agent_state \<Rightarrow> (agent_error + chat_session) \<times> 's agent_state" where
  "db_get_session e background i s =
     (case db_error e background s of
        Some err \<Rightarrow> (Inl err, tick s)
      | None \<Rightarrow> (case get_session i (as_sessions s) of None \<Rightarrow> (Inl Db_Failed, tick s) | Some x \<Rightarrow> (Inr x, tick s)))"

definition db_save_session :: "'s agent_env \<Rightarrow> bool \<Rightarrow> chat_session \<Rightarrow> 's agent_state \<Rightarrow> agent_error option \<times> 's agent_state" where
  "db_save_session e background x s =
     (case db_error e background s of
        Some err \<Rightarrow> (Some err, tick s)
      | None \<Rightarrow>
          (case save_session (clock e s) x (as_sessions s) of
             None \<Rightarrow> (Some Db_Failed, tick s) | Some (_, ss) \<Rightarrow> (None, (tick s)\<lparr>as_sessions := ss\<rparr>)))"

definition db_list :: "'s agent_env \<Rightarrow> string \<Rightarrow> 's agent_state \<Rightarrow> (agent_error + chat_message list) \<times> 's agent_state" where
  "db_list e session s =
     (case db_error e False s of
        Some err \<Rightarrow> (Inl err, tick s)
      | None \<Rightarrow> (case list_messages (ae_oldest e) session (as_rows s) of None \<Rightarrow> (Inl Db_Failed, tick s) | Some ms \<Rightarrow> (Inr ms, tick s)))"

section \<open>The stream of a provider\<close>

definition set_parts :: "(part list \<Rightarrow> part list) \<Rightarrow> chat_message \<Rightarrow> chat_message" where
  "set_parts f m = m\<lparr>cm_parts := f (cm_parts m)\<rparr>"

definition finish_message :: "'s agent_env \<Rightarrow> bool \<Rightarrow> string \<Rightarrow> chat_message \<Rightarrow> 's agent_state \<Rightarrow> chat_message \<times> 's agent_state" where
  "finish_message e background reason m s =
     (let m' = set_parts (add_finish reason (clock e s)) m in (m', snd (db_update e background m' s)))"

definition track_usage :: "'s agent_env \<Rightarrow> string \<Rightarrow> usage \<Rightarrow> 's agent_state \<Rightarrow> agent_error option \<times> 's agent_state" where
  "track_usage e session u s =
     (case db_get_session e False session s of
        (Inl err, s1) \<Rightarrow> (Some err, s1)
      | (Inr x, s1) \<Rightarrow>
          db_save_session e False (x\<lparr>ss_completion := us_output u + us_cache_read u, ss_prompt := us_input u + us_cache_creation u\<rparr>) s1)"

definition process_event ::
    "'s agent_env \<Rightarrow> string \<Rightarrow> chat_message \<Rightarrow> stream_event \<Rightarrow> 's agent_state \<Rightarrow> agent_error option \<times> chat_message \<times> 's agent_state" where
  "process_event e session m ev s =
     (if cancelled e s then (Some Canceled, m, tick s)
      else
        let s1 = tick s; change = (\<lambda>f. let m' = set_parts f m; (r, s2) = db_update e False m' s1 in (r, m', s2))
        in case ev of
             Ev_Thinking t \<Rightarrow> change (append_reasoning t)
           | Ev_Content t \<Rightarrow> change (append_content t)
           | Ev_Tool_Start c \<Rightarrow> change (add_tool_call c)
           | Ev_Tool_Stop i \<Rightarrow> change (finish_tool_call i)
           | Ev_Error is_cancel t \<Rightarrow> (Some (if is_cancel then Canceled else Provider_Failed t), m, s1)
           | Ev_Complete r \<Rightarrow>
               (case change (\<lambda>ps. add_finish (rp_reason r) (clock e s1) (set_tool_calls (rp_calls r) ps)) of
                  (Some err, m', s2) \<Rightarrow> (Some err, m', s2)
                | (None, m', s2) \<Rightarrow> (let (err, s3) = track_usage e session (rp_usage r) s2 in (err, m', s3)))
           | Ev_Other \<Rightarrow> (None, m, s1))"

fun run_stream ::
    "'s agent_env \<Rightarrow> string \<Rightarrow> stream_event list \<Rightarrow> chat_message \<Rightarrow> 's agent_state \<Rightarrow> agent_error option \<times> chat_message \<times> 's agent_state" where
  "run_stream e session [] m s = (None, m, s)"
| "run_stream e session (ev # evs) m s =
     (case process_event e session m ev s of
        (Some err, m1, s1) \<Rightarrow> (let (m2, s2) = finish_message e False ''canceled'' m1 s1 in (Some err, m2, s2))
      | (None, m1, s1) \<Rightarrow>
          (if cancelled e s1
           then (let (m2, s2) = finish_message e True ''canceled'' m1 (tick s1) in (Some Canceled, m2, s2))
           else run_stream e session evs m1 (tick s1)))"

section \<open>The calls of tools\<close>

definition cancelled_result :: "tool_call \<Rightarrow> tool_result" where
  "cancelled_result c = \<lparr>tr_call = tc_id c, tr_name = [], tr_content = ''Tool execution canceled by user'', tr_metadata = [], tr_error = True\<rparr>"

definition missing_result :: "tool_call \<Rightarrow> tool_result" where
  "missing_result c = \<lparr>tr_call = tc_id c, tr_name = [], tr_content = ''Tool not found: '' @ tc_name c, tr_metadata = [], tr_error = True\<rparr>"

definition denied_result :: "tool_call \<Rightarrow> tool_result" where
  "denied_result c = \<lparr>tr_call = tc_id c, tr_name = [], tr_content = ''Permission denied'', tr_metadata = [], tr_error = True\<rparr>"

definition tool_result_of :: "tool_call \<Rightarrow> tool_response \<Rightarrow> tool_result" where
  "tool_result_of c r = \<lparr>tr_call = tc_id c, tr_name = [], tr_content = tp_content r, tr_metadata = tp_metadata r, tr_error = tp_error r\<rparr>"

text \<open>The results are filled in from position \<open>i\<close> on; a denied call marks all that follow, and the loop goes
  on: the \<open>break\<close> of the code leaves the \<open>select\<close> only.\<close>

fun run_calls ::
    "'s agent_env \<Rightarrow> nat \<Rightarrow> tool_call list \<Rightarrow> tool_result list \<Rightarrow> chat_message \<Rightarrow> 's agent_state \<Rightarrow>
     tool_result list \<times> chat_message \<times> 's agent_state" where
  "run_calls e i [] rs m s = (rs, m, s)"
| "run_calls e i (c # cs) rs m s =
     (if cancelled e s
      then (let (m', s') = finish_message e True ''canceled'' m (tick s) in (take i rs @ map cancelled_result (c # cs), m', s'))
      else
        let s1 = tick s in
        case map_of (ae_tools e) (tc_name c) of
          None \<Rightarrow> run_calls e (Suc i) cs (rs[i := missing_result c]) m s1
        | Some run \<Rightarrow>
            (let ((r, failure), w) = run (cm_session m) (cm_id m) c (as_world s1); s2 = s1\<lparr>as_world := w\<rparr>
             in if failure = Some Denied
                then (let (m', s3) = finish_message e False ''permission_denied'' m s2
                      in run_calls e (Suc i) cs (take i rs @ denied_result c # map cancelled_result cs) m' s3)
                else run_calls e (Suc i) cs (rs[i := tool_result_of c r]) m s2))"

definition no_result :: tool_result where
  "no_result = \<lparr>tr_call = [], tr_name = [], tr_content = [], tr_metadata = [], tr_error = False\<rparr>"

definition no_message :: chat_message where
  "no_message = \<lparr>cm_id = [], cm_role = [], cm_session = [], cm_parts = [], cm_model = [], cm_created = 0, cm_updated = 0\<rparr>"

definition stream_and_handle ::
    "'s agent_env \<Rightarrow> string \<Rightarrow> chat_message list \<Rightarrow> 's agent_state \<Rightarrow>
     (chat_message \<times> chat_message option \<times> agent_error option) \<times> 's agent_state" where
  "stream_and_handle e session hist s =
     (let evs = ae_stream e (as_asked s) hist
      in case db_create e False session ''assistant'' [] (ae_model e) (s\<lparr>as_asked := Suc (as_asked s)\<rparr>) of
           (Inl err, s1) \<Rightarrow> ((no_message, None, Some err), s1)
         | (Inr m, s1) \<Rightarrow>
             (case run_stream e session evs m s1 of
                (Some err, m1, s2) \<Rightarrow> ((m1, None, Some err), s2)
              | (None, m1, s2) \<Rightarrow>
                  (let calls = calls_of (cm_parts m1);
                       (rs, m2, s3) = run_calls e 0 calls (replicate (length calls) no_result) m1 s2
                   in if rs = [] then ((m2, None, None), s3)
                      else case db_create e True (cm_session m2) ''tool'' (map Result_Part rs) [] s3 of
                             (Inl err, s4) \<Rightarrow> ((m2, None, Some err), s4)
                           | (Inr t, s4) \<Rightarrow> ((m2, Some t, None), s4))))"

section \<open>The loop\<close>

partial_function (option) generation_loop ::
    "'s agent_env \<Rightarrow> string \<Rightarrow> chat_message list \<Rightarrow> 's agent_state \<Rightarrow> (agent_event \<times> 's agent_state) option" where
  "generation_loop e session hist s =
     (if cancelled e s then Some (Error_Event Canceled, tick s)
      else case stream_and_handle e session hist (tick s) of
             ((m, t, Some err), s1) \<Rightarrow>
               (if err = Canceled
                then Some (Error_Event Request_Cancelled, snd (finish_message e True ''canceled'' m s1))
                else Some (Error_Event err, s1))
           | ((m, t, None), s1) \<Rightarrow>
               (case t of
                  None \<Rightarrow> Some (Reply m, s1)
                | Some tm \<Rightarrow>
                    (if finish_reason (cm_parts m) = ''tool_use'' then generation_loop e session (hist @ [m, tm]) s1
                     else Some (Reply m, s1))))"

text \<open>The history the provider is shown: from the summary on, which becomes a message of the user.\<close>

definition from_summary :: "string \<Rightarrow> chat_message list \<Rightarrow> chat_message list" where
  "from_summary summary ms =
     (if summary = [] then ms
      else case dropWhile (\<lambda>m. cm_id m \<noteq> summary) ms of [] \<Rightarrow> ms | m # r \<Rightarrow> m\<lparr>cm_role := ''user''\<rparr> # r)"

definition process_generation ::
    "'s agent_env \<Rightarrow> string \<Rightarrow> string \<Rightarrow> part list \<Rightarrow> 's agent_state \<Rightarrow> (agent_event \<times> 's agent_state) option" where
  "process_generation e session content attachments s =
     (case db_list e session s of
        (Inl err, s1) \<Rightarrow> Some (Error_Event err, s1)
      | (Inr ms, s1) \<Rightarrow>
          (case db_get_session e False session s1 of
             (Inl err, s2) \<Rightarrow> Some (Error_Event err, s2)
           | (Inr x, s2) \<Rightarrow>
               (case db_create e False session ''user'' (Text_Part content # attachments) [] s2 of
                  (Inl err, s3) \<Rightarrow> Some (Error_Event err, s3)
                | (Inr u, s3) \<Rightarrow> generation_loop e session (from_summary (ss_summary x) ms @ [u]) s3)))"

section \<open>Time goes on\<close>

lemma tick_parts [simp]:
  "as_tick (tick s) = Suc (as_tick s)" "as_rows (tick s) = as_rows s" "as_sessions (tick s) = as_sessions s"
  "as_world (tick s) = as_world s" "as_made (tick s) = as_made s" "as_asked (tick s) = as_asked s"
  by (simp_all add: tick_def)








section \<open>Every call is answered\<close>

lemma finish_message_keeps:
  assumes "finish_message e b reason m s = (m', s1)"
  shows "calls_of (cm_parts m') = calls_of (cm_parts m)" "cm_session m' = cm_session m" "cm_id m' = cm_id m" "cm_role m' = cm_role m"
  using assms by (auto simp: finish_message_def set_parts_def Let_def)

lemma result_ids [simp]:
  "tr_call (cancelled_result c) = tc_id c" "tr_call (missing_result c) = tc_id c" "tr_call (denied_result c) = tc_id c"
  "tr_call (tool_result_of c r) = tc_id c"
  by (simp_all add: cancelled_result_def missing_result_def denied_result_def tool_result_of_def)

definition answers :: "tool_result list \<Rightarrow> tool_call list \<Rightarrow> bool" where
  "answers rs cs \<longleftrightarrow> map tr_call rs = map tc_id cs"

lemma answers_next:
  assumes "length rs = i + length (c # cs)" "tr_call (rs ! i) = tc_id c" "take (Suc i) rs' = take (Suc i) rs"
    "answers (drop (Suc i) rs') cs" "length rs' = length rs"
  shows "take i rs' = take i rs" "answers (drop i rs') (c # cs)"
proof -
  show "take i rs' = take i rs" using arg_cong [OF assms(3), of "take i"] by simp
  have "rs' ! i = rs ! i" using arg_cong [OF assms(3), of "\<lambda>x. x ! i"] assms(1) by simp
  moreover have "drop i rs' = rs' ! i # drop (Suc i) rs'" using assms(1,5) by (simp add: Cons_nth_drop_Suc)
  ultimately show "answers (drop i rs') (c # cs)" using assms(2,4) by (simp add: answers_def)
qed

lemma run_calls_answers:
  assumes "run_calls e i cs rs m s = (rs', m', s')" "length rs = i + length cs"
  shows "length rs' = length rs \<and> take i rs' = take i rs \<and> answers (drop i rs') cs \<and>
    calls_of (cm_parts m') = calls_of (cm_parts m) \<and> cm_session m' = cm_session m \<and> cm_id m' = cm_id m"
  using assms
proof (induction cs arbitrary: i rs m s)
  case Nil
  then show ?case by (simp add: answers_def)
next
  case (Cons c cs)
  have step: ?case if "run_calls e (Suc i) cs rs1 m1 s1 = (rs', m', s')" "length rs1 = length rs" "take i rs1 = take i rs"
    "tr_call (rs1 ! i) = tc_id c" "calls_of (cm_parts m1) = calls_of (cm_parts m)" "cm_session m1 = cm_session m" "cm_id m1 = cm_id m" for rs1 m1 s1
  proof -
    note ih = Cons.IH [OF that(1)]
    have l: "length rs1 = i + length (c # cs)" using that(2) Cons.prems(2) by simp
    then have r: "length rs' = length rs1" "take (Suc i) rs' = take (Suc i) rs1" "answers (drop (Suc i) rs') cs"
      and m: "calls_of (cm_parts m') = calls_of (cm_parts m1)" "cm_session m' = cm_session m1" "cm_id m' = cm_id m1" using ih by simp_all
    show ?thesis using answers_next [OF l that(4) r(2,3,1)] r(1) m that(2,3,5-7) by simp
  qed
  show ?case
  proof (cases "cancelled e s")
    case True
    obtain m1 s1 where f: "finish_message e True ''canceled'' m (tick s) = (m1, s1)" by force
    have "rs' = take i rs @ map cancelled_result (c # cs)" "m' = m1" using Cons.prems(1) True f by simp_all
    then show ?thesis using finish_message_keeps [OF f] Cons.prems(2) by (simp add: answers_def min_def comp_def)
  next
    case False
    show ?thesis
    proof (cases "map_of (ae_tools e) (tc_name c)")
      case None
      have "run_calls e (Suc i) cs (rs[i := missing_result c]) m (tick s) = (rs', m', s')" using Cons.prems(1) False None by simp
      then show ?thesis by (rule step) (use Cons.prems(2) in simp_all)
    next
      case (Some run)
      obtain r f w where w: "run (cm_session m) (cm_id m) c (as_world (tick s)) = ((r, f), w)" by (metis surj_pair)
      let ?s = "(tick s)\<lparr>as_world := w\<rparr>"
      show ?thesis
      proof (cases "f = Some Denied")
        case True
        obtain m1 s1 where g: "finish_message e False ''permission_denied'' m ?s = (m1, s1)" by force
        have "run_calls e (Suc i) cs (take i rs @ denied_result c # map cancelled_result cs) m1 s1 = (rs', m', s')"
          using Cons.prems(1) False Some w True g by simp
        then show ?thesis by (rule step) (use Cons.prems(2) finish_message_keeps [OF g] in \<open>simp_all add: nth_append min_def\<close>)
      next
        case f: False
        have "run_calls e (Suc i) cs (rs[i := tool_result_of c r]) m ?s = (rs', m', s')"
          using Cons.prems(1) False Some w f by simp
        then show ?thesis by (rule step) (use Cons.prems(2) in simp_all)
      qed
    qed
  qed
qed

lemma results_storable [simp]: "list_all storable (map Result_Part rs)"
  by (simp add: list_all_iff storable_def)

lemma db_create_tool:
  assumes "db_create e b session ''tool'' (map Result_Part rs) model s = (Inr t, s1)"
  shows "cm_role t = ''tool'' \<and> cm_parts t = map Result_Part rs @ [Finish ''stop'' 0]"
proof -
  obtain i now rows rows' where c: "create_message i now session ''tool'' (map Result_Part rs) model rows = Some (t, rows')"
    using assms by (auto simp: db_create_def split: option.splits)
  then have "i \<notin> ms_id ` set rows" by (auto simp: create_message_def Let_def list_ex_iff split: if_splits)
  from create_message_Some [OF results_storable this, of now session "''tool''" rs model] c
  have "cm_role t = ''tool'' \<and> cm_parts t = kept_parts (sent_parts ''tool'' (map Result_Part rs))" by auto
  moreover have "kept_parts (map Result_Part rs) = map Result_Part rs" by (simp add: kept_parts_def filter_id_conv)
  ultimately show ?thesis by (simp add: sent_parts_def kept_parts_def)
qed

lemma results_of_map [simp]: "results_of (map Result_Part rs @ [Finish r t]) = rs"
  by (induction rs) (simp_all add: results_of_def)

lemma calls_of_results [simp]: "calls_of (map Result_Part rs @ [Finish r t]) = []"
  by (induction rs) (simp_all add: calls_of_def)

lemma tool_message:
  assumes "stream_and_handle e session hist s = ((m, t, None), s1)"
  shows "case t of None \<Rightarrow> calls_of (cm_parts m) = []
    | Some tm \<Rightarrow> calls_of (cm_parts m) \<noteq> [] \<and> cm_role tm = ''tool'' \<and> calls_of (cm_parts tm) = [] \<and>
        answers (results_of (cm_parts tm)) (calls_of (cm_parts m))"
proof -
  obtain m0 s0 m1 s2 where st: "db_create e False session ''assistant'' [] (ae_model e) (s\<lparr>as_asked := Suc (as_asked s)\<rparr>) = (Inr m0, s0)"
    "run_stream e session (ae_stream e (as_asked s) hist) m0 s0 = (None, m1, s2)"
    using assms by (auto simp: stream_and_handle_def Let_def split: prod.splits sum.splits option.splits)
  let ?cs = "calls_of (cm_parts m1)"
  obtain rs m2 s3 where r: "run_calls e 0 ?cs (replicate (length ?cs) no_result) m1 s2 = (rs, m2, s3)" by (metis prod_cases3)
  from run_calls_answers [OF r] have a: "answers rs ?cs" "calls_of (cm_parts m2) = ?cs" by simp_all
  show ?thesis
  proof (cases "rs = []")
    case True
    then have "m = m2" "t = None" using assms st r by (simp_all add: stream_and_handle_def Let_def)
    with a True show ?thesis by (simp add: answers_def)
  next
    case False
    then obtain tm s4 where c: "db_create e True (cm_session m2) ''tool'' (map Result_Part rs) [] s3 = (Inr tm, s4)" "m = m2" "t = Some tm"
      using assms st r by (auto simp: stream_and_handle_def Let_def split: prod.splits sum.splits)
    with db_create_tool [OF c(1)] a False show ?thesis by (auto simp: answers_def)
  qed
qed

text \<open> C35: every call of a tool is answered: when the answer of a provider has been handled without an error,
  also if it was cancelled, a call was denied, or a tool is unknown or fails, then there is a message of results
  exactly if there are calls, and it holds one result for each call, in their order.\<close>
theorem every_call_answered:
  assumes "stream_and_handle e session hist s = ((m, t, None), s1)"
  shows "case t of None \<Rightarrow> calls_of (cm_parts m) = []
    | Some tm \<Rightarrow> calls_of (cm_parts m) \<noteq> [] \<and> cm_role tm = ''tool'' \<and>
        map tr_call (results_of (cm_parts tm)) = map tc_id (calls_of (cm_parts m))"
  using tool_message [OF assms] by (auto simp: answers_def split: option.splits)

text \<open>The histories that one generation shows to the provider.\<close>

inductive shown :: "'s agent_env \<Rightarrow> string \<Rightarrow> chat_message list \<Rightarrow> 's agent_state \<Rightarrow> chat_message list \<Rightarrow> bool" for e session where
  shown_now: "\<not> cancelled e s \<Longrightarrow> shown e session hist s hist"
| shown_later: "\<not> cancelled e s \<Longrightarrow> stream_and_handle e session hist (tick s) = ((m, Some t, None), s1) \<Longrightarrow>
    finish_reason (cm_parts m) = ''tool_use'' \<Longrightarrow> shown e session (hist @ [m, t]) s1 h \<Longrightarrow> shown e session hist s h"

fun answered :: "chat_message list \<Rightarrow> bool" where
  "answered [] = True"
| "answered [m] \<longleftrightarrow> calls_of (cm_parts m) = []"
| "answered (m # t # r) \<longleftrightarrow>
     (calls_of (cm_parts m) \<noteq> [] \<longrightarrow> cm_role t = ''tool'' \<and> map tr_call (results_of (cm_parts t)) = map tc_id (calls_of (cm_parts m))) \<and>
     answered (t # r)"

lemma answered_round:
  assumes "answered hist" "cm_role t = ''tool''" "calls_of (cm_parts t) = []"
    "map tr_call (results_of (cm_parts t)) = map tc_id (calls_of (cm_parts m))"
  shows "answered (hist @ [m, t])"
  using assms by (induction hist rule: answered.induct) auto

text \<open> The provider never sees a call without its result: when every call of the history is followed by the
  results of exactly its message, this is so of all histories that the generation sends. \<close>
theorem provider_sees_answered_calls:
  assumes "shown e session hist s h" "answered hist"
  shows "answered h"
  using assms
proof (induction rule: shown.induct)
  case (shown_later s hist m t s1 h)
  from tool_message [OF shown_later.hyps(2)] have "answered (hist @ [m, t])"
    by (intro answered_round shown_later.prems) (simp_all add: answers_def)
  then show ?case by (rule shown_later.IH)
qed

section \<open>A cancelled generation ends\<close>


section \<open>What a stream leaves\<close>

definition quiet :: "'s agent_env \<Rightarrow> bool" where
  "quiet e \<longleftrightarrow> (\<forall>t. \<not> ae_cancelled e t \<and> \<not> ae_db_fault e t \<and> in_int64 (ae_now e t))"

fun is_delta :: "stream_event \<Rightarrow> bool" where
  "is_delta (Ev_Error _ _) = False" | "is_delta (Ev_Complete _) = False" | "is_delta _ = True"

fun text_of_event :: "stream_event \<Rightarrow> string" where
  "text_of_event (Ev_Content t) = t" | "text_of_event _ = []"

fun thinking_of_event :: "stream_event \<Rightarrow> string" where
  "thinking_of_event (Ev_Thinking t) = t" | "thinking_of_event _ = []"

text \<open>Parts that a stream makes: no image, one finish at most, and all of them can be stored.\<close>

definition plain_part :: "part \<Rightarrow> bool" where
  "plain_part p \<longleftrightarrow> the_image p = None \<and> storable p"

definition streamed :: "part list \<Rightarrow> bool" where
  "streamed ps \<longleftrightarrow> one_finish ps \<and> list_all plain_part ps"

lemma plain_simps [simp]:
  "plain_part (Text_Part t)" "plain_part (Reasoning t)" "plain_part (Call_Part c)" "in_int64 n \<Longrightarrow> plain_part (Finish r n)"
  by (simp_all add: plain_part_def storable_def)

lemma plain_update: "list_all plain_part ps \<Longrightarrow> list_all plain_part (update_call i f ps)"
  by (induction ps) (auto split: option.splits)

lemma plain_drop: "list_all plain_part ps \<Longrightarrow> list_all plain_part (drop_first_finish ps)"
  by (induction ps) auto

lemma streamed_changes:
  assumes "streamed ps"
  shows "streamed (append_content t ps)" "streamed (append_reasoning t ps)" "streamed (update_call i f ps)" "streamed (add_tool_call c ps)"
    "streamed (set_tool_calls cs ps)" "in_int64 n \<Longrightarrow> streamed (add_finish r n ps)"
proof -
  have ps: "one_finish ps" "list_all plain_part ps" using assms by (simp_all add: streamed_def)
  have "list_all plain_part (append_content t ps)" "list_all plain_part (append_reasoning t ps)"
    using ps by (auto simp: append_content_def append_reasoning_def list_all_iff split: option.split)
  then show "streamed (append_content t ps)" "streamed (append_reasoning t ps)" using ps by (simp_all add: streamed_def)
  show u: "streamed (update_call i f ps)" for i f using ps plain_update by (simp add: streamed_def)
  have "list_all plain_part (add_tool_call c ps)" "list_all plain_part (set_tool_calls cs ps)"
    using ps plain_update by (auto simp: add_tool_call_def set_tool_calls_def list_all_iff)
  then show "streamed (add_tool_call c ps)" "streamed (set_tool_calls cs ps)" using ps by (simp_all add: streamed_def)
  show "in_int64 n \<Longrightarrow> streamed (add_finish r n ps)" using ps plain_drop by (simp add: streamed_def) (simp add: add_finish_def)
qed

lemma streamed_stored: "streamed ps \<Longrightarrow> list_all storable ps \<and> kept_parts ps = ps"
  by (auto simp: streamed_def plain_part_def kept_parts_def list_all_iff filter_id_conv)

lemma quiet_simps:
  assumes "quiet e"
  shows "\<not> cancelled e s" "db_error e b s = None" "in_int64 (clock e s)"
  using assms by (simp_all add: quiet_def cancelled_def db_error_def clock_def)

lemma quiet_update:
  "quiet e \<Longrightarrow> db_update e b m s = (None, (tick s)\<lparr>as_rows := update_message (clock e s) m (as_rows s)\<rparr>)"
  by (simp add: db_update_def quiet_simps)

definition known :: "chat_message \<Rightarrow> 's agent_state \<Rightarrow> bool" where
  "known m s \<longleftrightarrow> cm_id m \<in> ms_id ` set (as_rows s)"

lemma update_known: "ms_id ` set (update_message now m rows) = ms_id ` set rows"
proof -
  have "map ms_id (update_message now m rows) = map ms_id rows" by (simp add: update_message_def)
  then show ?thesis by (metis set_map)
qed

text \<open>One delta.\<close>

lemma process_delta:
  assumes "quiet e" "is_delta ev" "streamed (cm_parts m)"
  shows "\<exists>m' s'. process_event e session m ev s = (None, m', s') \<and> streamed (cm_parts m') \<and> cm_id m' = cm_id m \<and> cm_session m' = cm_session m \<and>
    content_of (cm_parts m') = content_of (cm_parts m) @ text_of_event ev \<and>
    reasoning_of (cm_parts m') = reasoning_of (cm_parts m) @ thinking_of_event ev \<and>
    as_sessions s' = as_sessions s \<and> ms_id ` set (as_rows s') = ms_id ` set (as_rows s)"
  using assms
  by (cases ev) (simp_all add: process_event_def Let_def quiet_simps quiet_update set_parts_def streamed_changes content_append
      reasoning_append update_known finish_tool_call_def)

lemma run_deltas:
  assumes "quiet e" "list_all is_delta evs" "streamed (cm_parts m)"
  shows "\<exists>m' s'. (\<forall>more. run_stream e session (evs @ more) m s = run_stream e session more m' s') \<and> streamed (cm_parts m') \<and>
    cm_id m' = cm_id m \<and> cm_session m' = cm_session m \<and>
    content_of (cm_parts m') = content_of (cm_parts m) @ List.concat (map text_of_event evs) \<and>
    reasoning_of (cm_parts m') = reasoning_of (cm_parts m) @ List.concat (map thinking_of_event evs) \<and>
    as_sessions s' = as_sessions s \<and> ms_id ` set (as_rows s') = ms_id ` set (as_rows s)"
  using assms(2,3)
proof (induction evs arbitrary: m s)
  case (Cons ev evs)
  have ev: "is_delta ev" "list_all is_delta evs" using Cons.prems(1) by simp_all
  obtain m1 s1 where 1: "process_event e session m ev s = (None, m1, s1)" "streamed (cm_parts m1)" "cm_id m1 = cm_id m"
    "cm_session m1 = cm_session m" "content_of (cm_parts m1) = content_of (cm_parts m) @ text_of_event ev"
    "reasoning_of (cm_parts m1) = reasoning_of (cm_parts m) @ thinking_of_event ev"
    "as_sessions s1 = as_sessions s" "ms_id ` set (as_rows s1) = ms_id ` set (as_rows s)"
    using process_delta [OF assms(1) ev(1) Cons.prems(2)] by blast
  have "run_stream e session ((ev # evs) @ more) m s = run_stream e session (evs @ more) m1 (tick s1)" for more
    by (simp add: 1(1) quiet_simps [OF assms(1)])
  with Cons.IH [OF ev(2) 1(2), of "tick s1"] 1(3-8) show ?case by auto
qed auto

lemma find_map:
  assumes "\<And>x. P (f x) = P x"
  shows "List.find P (map f xs) = map_option f (List.find P xs)"
  using assms by (induction xs) auto

lemma save_session_get:
  assumes "get_session (ss_id x) ss = Some q"
  shows "\<exists>y ss'. save_session now x ss = Some (y, ss') \<and>
    get_session (ss_id x) ss' = Some (q\<lparr>ss_title := ss_title x, ss_prompt := ss_prompt x, ss_completion := ss_completion x,
      ss_summary := ss_summary x, ss_updated := now\<rparr>)"
proof -
  have "ss_id q = ss_id x" using assms by (auto simp: get_session_def find_Some_iff)
  then show ?thesis using assms by (simp add: save_session_def Let_def get_session_def find_map)
qed

lemma track_usage_quiet:
  assumes "quiet e" "get_session session (as_sessions s) = Some x"
  shows "\<exists>s' y. track_usage e session u s = (None, s') \<and> as_rows s' = as_rows s \<and> get_session session (as_sessions s') = Some y \<and>
    ss_prompt y = us_input u + us_cache_creation u \<and> ss_completion y = us_output u + us_cache_read u \<and> ss_title y = ss_title x"
proof -
  have i: "ss_id x = session" using assms(2) by (auto simp: get_session_def find_Some_iff)
  let ?x = "x\<lparr>ss_completion := us_output u + us_cache_read u, ss_prompt := us_input u + us_cache_creation u\<rparr>"
  have "get_session (ss_id ?x) (as_sessions (tick s)) = Some x" using assms(2) i by simp
  from save_session_get [OF this, of "clock e (tick s)"] show ?thesis
    using assms i by (auto simp: track_usage_def db_get_session_def db_save_session_def quiet_simps)
qed

lemma process_complete:
  assumes "quiet e" "streamed (cm_parts m)" "known m s" "get_session session (as_sessions s) = Some x"
  shows "\<exists>m' s' y z. process_event e session m (Ev_Complete r) s = (None, m', s') \<and>
    content_of (cm_parts m') = content_of (cm_parts m) \<and> reasoning_of (cm_parts m') = reasoning_of (cm_parts m) \<and>
    calls_of (cm_parts m') = rp_calls r \<and> finish_reason (cm_parts m') = rp_reason r \<and>
    get_message (cm_id m) (as_rows s') = Some y \<and> cm_parts y = cm_parts m' \<and> get_session session (as_sessions s') = Some z \<and>
    ss_prompt z = us_input (rp_usage r) + us_cache_creation (rp_usage r) \<and> ss_completion z = us_output (rp_usage r) + us_cache_read (rp_usage r)"
proof -
  let ?s1 = "tick s"
  let ?m = "set_parts (\<lambda>ps. add_finish (rp_reason r) (clock e ?s1) (set_tool_calls (rp_calls r) ps)) m"
  have p: "streamed (cm_parts ?m)" using assms(2) by (simp add: set_parts_def streamed_changes quiet_simps [OF assms(1)])
  have one: "one_finish (cm_parts m)" using assms(2) by (simp add: streamed_def)
  let ?s2 = "(tick ?s1)\<lparr>as_rows := update_message (clock e ?s1) ?m (as_rows ?s1)\<rparr>"
  have k: "cm_id ?m \<in> ms_id ` set (as_rows ?s1)" using assms(3) by (simp add: known_def set_parts_def)
  from get_update [OF k, of "clock e ?s1"] streamed_stored [OF p] obtain y where
    y: "get_message (cm_id m) (as_rows ?s2) = Some y" "cm_parts y = cm_parts ?m" by (auto simp: set_parts_def)
  have "get_session session (as_sessions ?s2) = Some x" using assms(4) by simp
  from track_usage_quiet [OF assms(1) this, of "rp_usage r"] obtain s' z where
    t: "track_usage e session (rp_usage r) ?s2 = (None, s')" "as_rows s' = as_rows ?s2" "get_session session (as_sessions s') = Some z"
    "ss_prompt z = us_input (rp_usage r) + us_cache_creation (rp_usage r)" "ss_completion z = us_output (rp_usage r) + us_cache_read (rp_usage r)" by blast
  have "process_event e session m (Ev_Complete r) s = (None, ?m, s')"
    using t(1) by (simp add: process_event_def Let_def quiet_simps [OF assms(1)] quiet_update [OF assms(1)])
  moreover have "content_of (cm_parts ?m) = content_of (cm_parts m)" "reasoning_of (cm_parts ?m) = reasoning_of (cm_parts m)"
    "calls_of (cm_parts ?m) = rp_calls r" "finish_reason (cm_parts ?m) = rp_reason r"
    using one by (simp_all add: set_parts_def finish_reason_def)
  ultimately show ?thesis using y t(2-5) by (metis)
qed

lemma streamed_answer:
  assumes "quiet e" "list_all is_delta evs" "cm_parts m = []" "known m s" "get_session session (as_sessions s) = Some x"
  shows "\<exists>m' s' y z. run_stream e session (evs @ [Ev_Complete r]) m s = (None, m', s') \<and>
    content_of (cm_parts m') = List.concat (map text_of_event evs) \<and>
    reasoning_of (cm_parts m') = List.concat (map thinking_of_event evs) \<and>
    calls_of (cm_parts m') = rp_calls r \<and> finish_reason (cm_parts m') = rp_reason r \<and>
    get_message (cm_id m) (as_rows s') = Some y \<and> cm_parts y = cm_parts m' \<and> get_session session (as_sessions s') = Some z \<and>
    ss_prompt z = us_input (rp_usage r) + us_cache_creation (rp_usage r) \<and> ss_completion z = us_output (rp_usage r) + us_cache_read (rp_usage r)"
proof -
  have "streamed (cm_parts m)" using assms(3) by (simp add: streamed_def one_finish_def)
  from run_deltas [OF assms(1,2) this, of session s] assms(3) obtain m1 s1 where
    1: "\<And>more. run_stream e session (evs @ more) m s = run_stream e session more m1 s1" "streamed (cm_parts m1)" "cm_id m1 = cm_id m"
    "content_of (cm_parts m1) = List.concat (map text_of_event evs)" "reasoning_of (cm_parts m1) = List.concat (map thinking_of_event evs)"
    "as_sessions s1 = as_sessions s" "ms_id ` set (as_rows s1) = ms_id ` set (as_rows s)"
    by (auto simp: content_of_def reasoning_of_def first_of_def)
  have k: "known m1 s1" "get_session session (as_sessions s1) = Some x" using assms(4,5) 1(3,6,7) by (simp_all add: known_def)
  from process_complete [OF assms(1) 1(2) k, of r] obtain m' s' y z where
    2: "process_event e session m1 (Ev_Complete r) s1 = (None, m', s')" "content_of (cm_parts m') = content_of (cm_parts m1)"
    "reasoning_of (cm_parts m') = reasoning_of (cm_parts m1)" "calls_of (cm_parts m') = rp_calls r" "finish_reason (cm_parts m') = rp_reason r"
    "get_message (cm_id m1) (as_rows s') = Some y" "cm_parts y = cm_parts m'" "get_session session (as_sessions s') = Some z"
    "ss_prompt z = us_input (rp_usage r) + us_cache_creation (rp_usage r)" "ss_completion z = us_output (rp_usage r) + us_cache_read (rp_usage r)" by blast
  have "run_stream e session (evs @ [Ev_Complete r]) m s = (None, m', tick s')"
    by (simp add: 1(1) 2(1) quiet_simps [OF assms(1)])
  moreover have "as_rows (tick s') = as_rows s'" "as_sessions (tick s') = as_sessions s'" by simp_all
  ultimately show ?thesis using 1(3-5) 2(2-10) by (metis)
qed


section \<open>A round in which nothing fails returns\<close>

definition same_ids :: "'s agent_state \<Rightarrow> 's agent_state \<Rightarrow> bool" where
  "same_ids s s1 \<longleftrightarrow> as_made s1 = as_made s \<and> ms_id ` set (as_rows s1) = ms_id ` set (as_rows s)"

lemma same_ids_trans: "same_ids s s1 \<Longrightarrow> same_ids s1 s2 \<Longrightarrow> same_ids s s2"
  by (simp add: same_ids_def)

lemma same_ids_tick [simp]: "same_ids (tick s) t = same_ids s t" "same_ids s (tick t) = same_ids s t" "same_ids s s"
  by (simp_all add: same_ids_def)

lemma db_same:
  "db_update e b m s = (u, s1) \<Longrightarrow> same_ids s s1"
  "db_get_session e b session s = (g, s1) \<Longrightarrow> same_ids s s1"
  "db_save_session e b x s = (u, s1) \<Longrightarrow> same_ids s s1"
  by (auto simp: db_update_def db_get_session_def db_save_session_def same_ids_def update_known split: option.splits
      simp del: image_eqI del: equalityI subsetI)

lemma finish_same: "finish_message e b reason m s = (m', s1) \<Longrightarrow> same_ids s s1"
  using db_same(1) [of e b "set_parts (add_finish reason (clock e s)) m" s]
  by (cases "db_update e b (set_parts (add_finish reason (clock e s)) m) s") (simp add: finish_message_def Let_def)

lemma track_same: "track_usage e session u s = (r, s1) \<Longrightarrow> same_ids s s1"
  by (auto simp: track_usage_def split: prod.splits sum.splits dest!: db_same(2,3) intro: same_ids_trans)

lemma process_event_same: "process_event e session m ev s = (r, m1, s1) \<Longrightarrow> same_ids s s1"
  by (cases ev) (auto simp: process_event_def Let_def split: prod.splits if_splits option.splits dest!: db_same(1) track_same intro: same_ids_trans)

lemma run_stream_same: "run_stream e session evs m s = (r, m1, s1) \<Longrightarrow> same_ids s s1"
proof (induction evs arbitrary: m s)
  case (Cons ev evs)
  obtain r0 m0 s0 where p: "process_event e session m ev s = (r0, m0, s0)" by (metis prod_cases3)
  note t = process_event_same [OF p]
  show ?case
  proof (cases r0)
    case None
    then show ?thesis using Cons.prems p t Cons.IH [of m0 "tick s0"]
      by (auto split: if_splits prod.splits dest!: finish_same intro: same_ids_trans)
  qed (use Cons.prems p t in \<open>auto split: prod.splits dest!: finish_same intro: same_ids_trans\<close>)
qed simp

lemma run_calls_same: "run_calls e i cs rs m s = (rs1, m1, s1) \<Longrightarrow> same_ids s s1"
proof (induction cs arbitrary: i rs m s)
  case (Cons c cs)
  show ?case
  proof (cases "cancelled e s")
    case True
    then show ?thesis using Cons.prems by (auto split: prod.splits dest!: finish_same)
  next
    case False
    show ?thesis
    proof (cases "map_of (ae_tools e) (tc_name c)")
      case None
      then show ?thesis using Cons.prems False Cons.IH by fastforce
    next
      case (Some run)
      obtain r f w where w: "run (cm_session m) (cm_id m) c (as_world (tick s)) = ((r, f), w)" by (metis surj_pair)
      let ?s = "(tick s)\<lparr>as_world := w\<rparr>"
      obtain m' s' where g: "finish_message e False ''permission_denied'' m ?s = (m', s')" by force
      have "same_ids s ?s" by (simp add: same_ids_def)
      with finish_same [OF g] have "same_ids s ?s" "same_ids s s'" by (auto intro: same_ids_trans)
      note ids = this
      have "\<exists>j rs' m'' s''. run_calls e j cs rs' m'' s'' = (rs1, m1, s1) \<and> (s'' = ?s \<or> s'' = s')"
        using Cons.prems False Some w g by (cases "f = Some Denied") (simp_all add: Let_def split: if_splits, blast+)
      then show ?thesis using Cons.IH ids same_ids_trans by metis
    qed
  qed
qed simp

lemma create_quiet:
  assumes "quiet e" "list_all storable ps" "inj (ae_ids e)" "ms_id ` set (as_rows s) \<subseteq> ae_ids e ` {..<as_made s}"
  shows "\<exists>m s1. db_create e b session role ps model s = (Inr m, s1) \<and> cm_id m = ae_ids e (as_made s) \<and>
    cm_parts m = kept_parts (sent_parts role ps) \<and> as_made s1 = Suc (as_made s) \<and>
    ms_id ` set (as_rows s1) = insert (cm_id m) (ms_id ` set (as_rows s)) \<and> as_sessions s1 = count_messages session 1 (as_sessions s)"
proof -
  have "ae_ids e (as_made s) \<notin> ms_id ` set (as_rows s)" using assms(3,4) by (force dest!: subsetD simp: inj_eq)
  from create_message_Some [OF assms(2) this, of "clock e s" session role model] show ?thesis
    using assms(1) by (auto simp: db_create_def quiet_simps)
qed

lemma get_counted:
  "get_session i (count_messages j n ss) = map_option (\<lambda>s. if ss_id s = j then s\<lparr>ss_messages := ss_messages s + n\<rparr> else s) (get_session i ss)"
  by (simp add: get_session_def count_messages_def find_map)

lemma quiet_round:
  assumes "quiet e" "ae_stream e (as_asked s) hist = evs @ [Ev_Complete r]" "list_all is_delta evs" "get_session session (as_sessions s) = Some x"
    "inj (ae_ids e)" "ms_id ` set (as_rows s) \<subseteq> ae_ids e ` {..<as_made s}"
  shows "\<exists>m t s1. stream_and_handle e session hist s = ((m, t, None), s1)"
proof -
  let ?s = "s\<lparr>as_asked := Suc (as_asked s)\<rparr>"
  obtain m s1 where 1: "db_create e False session ''assistant'' [] (ae_model e) ?s = (Inr m, s1)" "cm_id m = ae_ids e (as_made s)" "cm_parts m = []"
    "as_made s1 = Suc (as_made s)" "ms_id ` set (as_rows s1) = insert (cm_id m) (ms_id ` set (as_rows s))"
    "as_sessions s1 = count_messages session 1 (as_sessions s)"
    using create_quiet [of e "[]" ?s False session "''assistant''" "ae_model e"] assms(1,5,6) by (auto simp: kept_parts_def sent_parts_def)
  have k: "known m s1" "\<exists>y. get_session session (as_sessions s1) = Some y" using 1(5) assms(4) by (auto simp: known_def 1(6) get_counted)
  then obtain y where y: "get_session session (as_sessions s1) = Some y" by blast
  from streamed_answer [OF assms(1,3) 1(3) k(1) y, of r] obtain m1 s2 where
    2: "run_stream e session (evs @ [Ev_Complete r]) m s1 = (None, m1, s2)" by blast
  obtain rs m2 s3 where 3: "run_calls e 0 (calls_of (cm_parts m1)) (replicate (length (calls_of (cm_parts m1))) no_result) m1 s2 = (rs, m2, s3)"
    by (metis prod_cases3)
  have "same_ids s1 s3" using run_stream_same [OF 2] run_calls_same [OF 3] by (rule same_ids_trans)
  then have "as_made s3 = Suc (as_made s)" "ms_id ` set (as_rows s3) = insert (ae_ids e (as_made s)) (ms_id ` set (as_rows s))"
    using 1(2,4,5) by (simp_all add: same_ids_def)
  then have "ms_id ` set (as_rows s3) \<subseteq> ae_ids e ` {..<as_made s3}" unfolding lessThan_Suc image_insert using assms(6) by (simp add: lessThan_Suc subset_insertI2)
  from create_quiet [OF assms(1) results_storable assms(5) this] obtain t s4 where
    4: "db_create e True (cm_session m2) ''tool'' (map Result_Part rs) [] s3 = (Inr t, s4)" by blast
  show ?thesis
  proof (cases "rs = []")
    case True
    have "stream_and_handle e session hist s = ((m2, None, None), s3)"
      unfolding stream_and_handle_def Let_def assms(2) 1(1) prod.case sum.case 2 option.case 3 using True by simp
    then show ?thesis by blast
  next
    case False
    have "stream_and_handle e session hist s = ((m2, Some t, None), s4)"
      unfolding stream_and_handle_def Let_def assms(2) 1(1) prod.case sum.case 2 option.case 3 4 using False by simp
    then show ?thesis by blast
  qed
qed

section \<open>Denied and failing tools\<close>


section \<open>A small conversation\<close>

text \<open>An environment in which nothing fails, two tools, and a provider that calls both and then stops.\<close>

definition calm_env :: "(nat \<Rightarrow> chat_message list \<Rightarrow> stream_event list) \<Rightarrow> nat agent_env" where
  "calm_env stream =
     \<lparr>ae_tools = [(''count'', \<lambda>_ _ _ n. ((\<lparr>tp_content = ''counted'', tp_metadata = [], tp_error = False\<rparr>, None), Suc n)),
                   (''forbidden'', \<lambda>_ _ _ n. ((\<lparr>tp_content = [], tp_metadata = [], tp_error = False\<rparr>, Some Denied), n))],
      ae_model = ''model'', ae_stream = stream, ae_ids = (\<lambda>n. replicate (Suc n) CHR ''a''), ae_now = (\<lambda>_. 0),
      ae_cancelled = (\<lambda>_. False), ae_db_fault = (\<lambda>_. False), ae_oldest = oldest_stably\<rparr>"

definition calm_state :: "nat agent_state" where
  "calm_state = \<lparr>as_rows = [], as_sessions = [new_session ''s'' None ''t'' 0], as_world = 0, as_tick = 0, as_made = 0, as_asked = 0\<rparr>"

definition call_named :: "string \<Rightarrow> string \<Rightarrow> tool_call" where
  "call_named i name = \<lparr>tc_id = i, tc_name = name, tc_input = ''{}'', tc_type = [], tc_finished = True\<rparr>"

definition some_usage :: usage where
  "some_usage = \<lparr>us_input = 5, us_output = 7, us_cache_creation = 1, us_cache_read = 2\<rparr>"

definition calling :: "nat \<Rightarrow> chat_message list \<Rightarrow> stream_event list" where
  "calling n hist =
     (if n = 0
      then [Ev_Content ''let '', Ev_Content ''me'',
            Ev_Complete \<lparr>rp_calls = [call_named ''1'' ''count'', call_named ''2'' ''other''], rp_usage = some_usage, rp_reason = ''tool_use''\<rparr>]
      else [Ev_Complete \<lparr>rp_calls = [], rp_usage = some_usage, rp_reason = ''end_turn''\<rparr>])"

lemma quiet_calm: "quiet (calm_env stream)"
  by (simp add: quiet_def calm_env_def in_int64_def)

lemma calm_round: "\<exists>m t s1. stream_and_handle (calm_env calling) ''s'' [] calm_state = ((m, t, None), s1)"
proof -
  have "ae_stream (calm_env calling) (as_asked calm_state) [] = [Ev_Content ''let '', Ev_Content ''me''] @
      [Ev_Complete \<lparr>rp_calls = [call_named ''1'' ''count'', call_named ''2'' ''other''], rp_usage = some_usage, rp_reason = ''tool_use''\<rparr>]"
    by (simp add: calm_env_def calling_def calm_state_def)
  moreover have "get_session ''s'' (as_sessions calm_state) = Some (new_session ''s'' None ''t'' 0)"
    by (simp add: calm_state_def get_session_def new_session_def)
  moreover have "inj (ae_ids (calm_env calling))" "ms_id ` set (as_rows calm_state) \<subseteq> ae_ids (calm_env calling) ` {..<as_made calm_state}"
    by (simp_all add: calm_env_def calm_state_def inj_def)
  ultimately show ?thesis using quiet_round [OF quiet_calm, of calling calm_state "[]"] by fastforce
qed

theorem every_call_answered_witness:
  "\<exists>m t s1. stream_and_handle (calm_env calling) ''s'' [] calm_state = ((m, t, None), s1) \<and>
     (case t of None \<Rightarrow> calls_of (cm_parts m) = []
      | Some tm \<Rightarrow> calls_of (cm_parts m) \<noteq> [] \<and> cm_role tm = ''tool'' \<and>
          map tr_call (results_of (cm_parts tm)) = map tc_id (calls_of (cm_parts m)))"
  using calm_round every_call_answered by blast

theorem provider_sees_answered_calls_witness: "answered [no_message]"
proof (rule provider_sees_answered_calls)
  show "shown (calm_env calling) ''s'' [no_message] calm_state [no_message]"
    by (rule shown_now) (simp add: cancelled_def calm_env_def)
  show "answered [no_message]" by (simp add: no_message_def calls_of_def)
qed




end
