(* ===== verification/Agent_Runs.thy ===== *)
theory Agent_Runs
  imports Agent_Loop "HOL-Library.AList"
begin

text \<open>
  What goes on beside the loop of one generation (\<open>cli/internal/llm/agent/agent.go\<close>): the title of a new
  session, the summary that replaces a long conversation, and the table of active requests by which the agent
  keeps a session to one run. The title is made in a goroutine of its own, so its read and its write are two
  operations with the run between them. Starting, cancelling and ending a run are the steps of a machine; each
  is taken as atomic.
\<close>

section \<open>The title\<close>

definition title_of :: "string \<Rightarrow> string" where
  "title_of answer = trim_space (replace_all answer ''\<newline>'' '' '')"

definition write_title :: "'s agent_env \<Rightarrow> chat_session \<Rightarrow> string \<Rightarrow> 's agent_state \<Rightarrow> agent_error option \<times> 's agent_state" where
  "write_title e x answer s =
     (if title_of answer = [] then (None, s) else db_save_session e True (x\<lparr>ss_title := title_of answer\<rparr>) s)"

text \<open>The run goes on while the provider is asked for the title.\<close>

definition generate_title ::
    "'s agent_env \<Rightarrow> (string \<Rightarrow> string option) \<Rightarrow> ('s agent_state \<Rightarrow> 's agent_state) \<Rightarrow> string \<Rightarrow> string \<Rightarrow> 's agent_state \<Rightarrow>
     agent_error option \<times> 's agent_state" where
  "generate_title e ask meanwhile session content s =
     (if content = [] then (None, s)
      else case db_get_session e True session s of
             (Inl err, s1) \<Rightarrow> (Some err, s1)
           | (Inr x, s1) \<Rightarrow>
               (case ask content of
                  None \<Rightarrow> (Some (Provider_Failed []), meanwhile s1)
                | Some answer \<Rightarrow> write_title e x answer (meanwhile s1)))"

lemma get_quiet:
  assumes "quiet e" "get_session session (as_sessions s) = Some x"
  shows "db_get_session e b session s = (Inr x, tick s)"
  using assms by (simp add: db_get_session_def quiet_simps)

lemma save_quiet:
  assumes "quiet e" "get_session (ss_id x) (as_sessions s) = Some q"
  shows "\<exists>s' y. db_save_session e b x s = (None, s') \<and> as_rows s' = as_rows s \<and> as_made s' = as_made s \<and> as_tick s' = Suc (as_tick s) \<and>
    get_session (ss_id x) (as_sessions s') = Some y \<and> ss_id y = ss_id x \<and> ss_title y = ss_title x \<and> ss_prompt y = ss_prompt x \<and>
    ss_completion y = ss_completion x \<and> ss_summary y = ss_summary x"
proof -
  have i: "ss_id q = ss_id x" using assms(2) by (auto simp: get_session_def find_Some_iff)
  from save_session_get [OF assms(2), of "clock e s"] assms i show ?thesis
    by (auto simp: db_save_session_def quiet_simps)
qed

text \<open> The title of a new session puts back old numbers: the session is read before the provider is asked for
  a title and saved as a whole after, so that what the run recorded in between, here the tokens of its first
  answer, is overwritten by what the session had at the start. \<close>
theorem title_overwrites_usage:
  assumes "quiet e" "get_session session (as_sessions s) = Some x" "content \<noteq> []" "ask content = Some answer" "title_of answer \<noteq> []"
  shows "\<exists>s1 s' y z. generate_title e ask (\<lambda>t. snd (track_usage e session u t)) session content s = (None, s') \<and>
    s1 = snd (track_usage e session u (tick s)) \<and> get_session session (as_sessions s1) = Some y \<and>
    ss_prompt y = us_input u + us_cache_creation u \<and> ss_completion y = us_output u + us_cache_read u \<and>
    get_session session (as_sessions s') = Some z \<and> ss_title z = title_of answer \<and> ss_prompt z = ss_prompt x \<and> ss_completion z = ss_completion x"
proof -
  have i: "ss_id x = session" using assms(2) by (auto simp: get_session_def find_Some_iff)
  have "get_session session (as_sessions (tick s)) = Some x" using assms(2) by simp
  from track_usage_quiet [OF assms(1) this, of u] obtain s1 y where
    1: "track_usage e session u (tick s) = (None, s1)" "get_session session (as_sessions s1) = Some y"
    "ss_prompt y = us_input u + us_cache_creation u" "ss_completion y = us_output u + us_cache_read u" by blast
  let ?x = "x\<lparr>ss_title := title_of answer\<rparr>"
  have "get_session (ss_id ?x) (as_sessions s1) = Some y" using 1(2) i by simp
  from save_quiet [OF assms(1) this, of True] i obtain s' z where
    2: "db_save_session e True ?x s1 = (None, s')" "get_session session (as_sessions s') = Some z" "ss_title z = title_of answer"
    "ss_prompt z = ss_prompt x" "ss_completion z = ss_completion x" by auto
  have "generate_title e ask (\<lambda>t. snd (track_usage e session u t)) session content s = (None, s')"
    using assms(3-5) 1(1) 2(1) by (simp add: generate_title_def write_title_def get_quiet [OF assms(1,2)])
  then show ?thesis using 1 2 by auto
qed

theorem title_overwrites_usage_witness:
  "\<exists>s' z. generate_title (calm_env calling) (\<lambda>_. Some '' A title '') (\<lambda>t. snd (track_usage (calm_env calling) ''s'' some_usage t)) ''s'' ''hi'' calm_state =
      (None, s') \<and> get_session ''s'' (as_sessions s') = Some z \<and> ss_title z = ''A title'' \<and> ss_prompt z = 0"
proof -
  have "get_session ''s'' (as_sessions calm_state) = Some (new_session ''s'' None ''t'' 0)"
    by (simp add: calm_state_def get_session_def new_session_def)
  moreover have "title_of '' A title '' = ''A title''" by code_simp
  ultimately show ?thesis
    using title_overwrites_usage [OF quiet_calm [of calling], of "''s''" calm_state "new_session ''s'' None ''t'' 0" "''hi''" "\<lambda>_. Some '' A title ''"
        "'' A title ''" some_usage]
    by (auto simp: new_session_def)
qed

section \<open>The summary\<close>
















section \<open>Active requests\<close>

text \<open>The table maps a session, or a session with a suffix for its summary, to the request that can be cancelled.\<close>

record requests =
  rq_active :: "(string \<times> nat) list"
  rq_live :: "(nat \<times> string) list"
  rq_cancelled :: "nat list"
  rq_started :: nat

datatype request_action = Start string | Start_Summary string | Cancel string | Ends nat | Panics nat

definition summary_key :: "string \<Rightarrow> string" where
  "summary_key session = session @ ''-summarize''"

definition is_session_busy :: "string \<Rightarrow> requests \<Rightarrow> bool" where
  "is_session_busy key q \<longleftrightarrow> map_of (rq_active q) key \<noteq> None"

definition is_busy :: "requests \<Rightarrow> bool" where
  "is_busy q \<longleftrightarrow> rq_active q \<noteq> []"

definition store_request :: "string \<Rightarrow> requests \<Rightarrow> requests" where
  "store_request key q = q\<lparr>rq_active := AList.update key (rq_started q) (rq_active q), rq_live := (rq_started q, key) # rq_live q,
     rq_started := Suc (rq_started q)\<rparr>"

definition cancel_key :: "string \<Rightarrow> requests \<Rightarrow> requests" where
  "cancel_key key q =
     (case map_of (rq_active q) key of
        None \<Rightarrow> q | Some n \<Rightarrow> q\<lparr>rq_active := AList.delete key (rq_active q), rq_cancelled := n # rq_cancelled q\<rparr>)"

definition end_request :: "bool \<Rightarrow> nat \<Rightarrow> requests \<Rightarrow> requests" where
  "end_request panicked n q =
     (case map_of (rq_live q) n of
        None \<Rightarrow> q
      | Some key \<Rightarrow> (let q' = q\<lparr>rq_live := AList.delete n (rq_live q)\<rparr>
                     in if panicked then q' else q'\<lparr>rq_active := AList.delete key (rq_active q)\<rparr>))"

text \<open>A summary is refused when a run is active, not when a summary is; a run is refused when a run is active.
  A summary that panics unregisters itself by its deferred calls and takes the process with it: it has no
  recovery, so only runs have the step \<open>Panics\<close>.\<close>

fun request_step :: "request_action \<Rightarrow> requests \<Rightarrow> requests" where
  "request_step (Start session) q = (if is_session_busy session q then q else store_request session q)"
| "request_step (Start_Summary session) q = (if is_session_busy session q then q else store_request (summary_key session) q)"
| "request_step (Cancel session) q = cancel_key (summary_key session) (cancel_key session q)"
| "request_step (Ends n) q = end_request False n q"
| "request_step (Panics n) q = end_request True n q"

definition no_requests :: requests where
  "no_requests = \<lparr>rq_active = [], rq_live = [], rq_cancelled = [], rq_started = 0\<rparr>"

definition request_run :: "request_action list \<Rightarrow> requests" where
  "request_run acts = fold request_step acts no_requests"

text \<open>The runs of a key that have started and not ended.\<close>

definition live_runs :: "string \<Rightarrow> requests \<Rightarrow> nat list" where
  "live_runs key q = map fst (filter (\<lambda>p. snd p = key) (rq_live q))"

definition requests_inv :: "requests \<Rightarrow> bool" where
  "requests_inv q \<longleftrightarrow> distinct (map fst (rq_live q)) \<and> (\<forall>n \<in> fst ` set (rq_live q). n < rq_started q) \<and> distinct (map fst (rq_active q))"

lemma delete_set: "set (AList.delete k xs) \<subseteq> set xs"
  by (auto simp: AList.delete_eq)

lemma step_inv:
  assumes "requests_inv q"
  shows "requests_inv (request_step a q)"
proof -
  have store: "requests_inv (store_request key q)" for key
    using assms by (force simp: requests_inv_def store_request_def distinct_update)
  have cancel: "requests_inv (cancel_key key p)" if "requests_inv p" for key p
    using that by (auto simp: requests_inv_def cancel_key_def distinct_delete split: option.split)
  have ends: "requests_inv (end_request b n q)" for b n
    using assms by (auto simp: requests_inv_def end_request_def Let_def distinct_delete split: option.split dest!: subsetD [OF delete_set])
  show ?thesis by (cases a) (simp_all add: store cancel ends assms)
qed

lemma live_delete:
  assumes "requests_inv q" "map_of (rq_live q) n = Some key"
  shows "map fst (filter (\<lambda>p. snd p = k) (AList.delete n (rq_live q))) = (if k = key then remove1 n (live_runs k q) else live_runs k q)"
proof -
  have "distinct (map fst ps) \<Longrightarrow> map_of ps n = Some key \<Longrightarrow>
      map fst (filter (\<lambda>p. snd p = k) (AList.delete n ps)) = (if k = key then remove1 n (map fst (filter (\<lambda>p. snd p = k) ps))
        else map fst (filter (\<lambda>p. snd p = k) ps))" for ps :: "(nat \<times> string) list"
    by (induction ps) (auto simp: delete_idem remove1_idem split: if_splits)
  with assms show ?thesis by (simp add: requests_inv_def live_runs_def)
qed

lemma active_delete: "map_of (AList.delete k xs) l = (if l = k then None else map_of xs l)"
  by (simp add: delete_conv')

lemma ends_effect:
  assumes "requests_inv q"
  shows "live_runs key (end_request b n q) = (if map_of (rq_live q) n = Some key then remove1 n (live_runs key q) else live_runs key q)"
    "is_session_busy key (end_request b n q) = (is_session_busy key q \<and> (b \<or> map_of (rq_live q) n \<noteq> Some key))"
proof -
  show "live_runs key (end_request b n q) = (if map_of (rq_live q) n = Some key then remove1 n (live_runs key q) else live_runs key q)"
    using live_delete [OF assms, of n _ key] by (auto simp: end_request_def Let_def live_runs_def split: option.split)
  show "is_session_busy key (end_request b n q) = (is_session_busy key q \<and> (b \<or> map_of (rq_live q) n \<noteq> Some key))"
    by (auto simp: end_request_def Let_def is_session_busy_def active_delete split: option.split)
qed

lemma store_effect:
  "live_runs key (store_request k q) = (if k = key then rq_started q # live_runs key q else live_runs key q)"
  "is_session_busy key (store_request k q) = (k = key \<or> is_session_busy key q)"
  by (simp_all add: store_request_def live_runs_def is_session_busy_def update_conv')

lemma cancel_effect:
  "live_runs key (cancel_key k q) = live_runs key q"
  "k \<noteq> key \<Longrightarrow> is_session_busy key (cancel_key k q) = is_session_busy key q"
  by (simp_all add: cancel_key_def live_runs_def is_session_busy_def active_delete split: option.split)

lemma live_runs_of: "map_of (rq_live q) n = Some key \<Longrightarrow> n \<in> set (live_runs key q)"
  by (force simp: live_runs_def dest: map_of_SomeD)

text \<open>One live run at most, and then the session is busy.\<close>

definition one_run :: "string \<Rightarrow> requests \<Rightarrow> bool" where
  "one_run session q \<longleftrightarrow> live_runs session q = [] \<or> (\<exists>n. live_runs session q = [n]) \<and> is_session_busy session q"

lemma one_run_step:
  assumes "requests_inv q" "one_run session q" "\<And>t. session \<noteq> summary_key t" "a \<noteq> Cancel session"
  shows "one_run session (request_step a q)"
proof -
  have ends: "one_run session (end_request b n q)" for b n
  proof (cases "map_of (rq_live q) n = Some session")
    case True
    then have "live_runs session q = [n]" using live_runs_of [OF True] assms(2) by (auto simp: one_run_def)
    then show ?thesis using True ends_effect(1) [OF assms(1), of session b n] by (simp add: one_run_def)
  qed (use assms(2) ends_effect [OF assms(1), of session b n] in \<open>simp add: one_run_def\<close>)
  show ?thesis
  proof (cases a)
    case (Start t)
    then show ?thesis using assms(2) by (auto simp: one_run_def store_effect)
  next
    case (Start_Summary t)
    then show ?thesis using assms(2,3) by (auto simp: one_run_def store_effect)
  next
    case (Cancel t)
    then show ?thesis using assms(2,3) assms(3) [of t, symmetric] assms(4) by (simp add: one_run_def cancel_effect)
  qed (simp_all add: ends)
qed

lemma requests_reached_inv: "requests_inv (request_run acts)"
proof -
  have "requests_inv q \<Longrightarrow> requests_inv (fold request_step acts q)" for q
    by (induction acts arbitrary: q) (simp_all add: step_inv)
  then show ?thesis by (simp add: request_run_def requests_inv_def no_requests_def)
qed

lemma one_run_fold:
  assumes "requests_inv q" "one_run session q" "\<And>t. session \<noteq> summary_key t" "Cancel session \<notin> set acts"
  shows "one_run session (fold request_step acts q)"
  using assms(1,2,4) by (induction acts arbitrary: q) (auto simp: step_inv one_run_step assms(3))

lemma one_run_reached:
  assumes "\<And>t. session \<noteq> summary_key t" "Cancel session \<notin> set acts"
  shows "one_run session (request_run acts)"
  unfolding request_run_def by (rule one_run_fold) (use assms in \<open>simp_all add: requests_inv_def one_run_def live_runs_def no_requests_def\<close>)



text \<open> Cancelling lets runs of one session overlap: a cancelled run leaves the table while it is still winding
  down, the next run enters, and the end of the first takes the entry of the second away; a third run can start
  beside the second, none of the two was cancelled, and a later cancellation reaches the third only. \<close>
theorem cancel_lets_runs_overlap:
  "live_runs session (request_run [Start session, Cancel session, Start session, Ends 0, Start session]) = [2, 1] \<and>
   rq_cancelled (request_run [Start session, Cancel session, Start session, Ends 0, Start session]) = [0] \<and>
   rq_cancelled (request_run [Start session, Cancel session, Start session, Ends 0, Start session, Cancel session]) = [2, 0] \<and>
   \<not> is_session_busy session (request_run [Start session, Cancel session, Start session, Ends 0, Start session, Cancel session])"
proof -
  have "summary_key session \<noteq> session" by (simp add: summary_key_def)
  then show ?thesis
    by (simp add: request_run_def no_requests_def is_session_busy_def store_request_def cancel_key_def end_request_def live_runs_def)
qed

text \<open> A run that panics blocks its session: the table keeps its entry, so without a cancellation the session
  is busy for ever and no run of it starts again. \<close>
theorem panicked_session_stays_busy:
  assumes "\<And>t. session \<noteq> summary_key t" "Cancel session \<notin> set before" "Cancel session \<notin> set after"
    "map_of (rq_live (request_run before)) n = Some session"
  shows "live_runs session (request_run (before @ Panics n # after)) = [] \<and>
    is_session_busy session (request_run (before @ Panics n # after))"
proof -
  let ?blocked = "\<lambda>q. requests_inv q \<and> live_runs session q = [] \<and> is_session_busy session q"
  have step: "?blocked (request_step a q)" if "?blocked q" "a \<noteq> Cancel session" for a q
  proof -
    have n: "map_of (rq_live q) k \<noteq> Some session" for k using live_runs_of [of q k session] that(1) by auto
    have ends: "live_runs session (end_request b k q) = [] \<and> is_session_busy session (end_request b k q)" for b k
      using that(1) n ends_effect [of q session b k] by simp
    have "live_runs session (request_step a q) = [] \<and> is_session_busy session (request_step a q)"
      using that assms(1) by (cases a) (auto simp: store_effect cancel_effect ends assms(1) [symmetric])
    then show ?thesis using that(1) by (simp add: step_inv)
  qed
  have blocked: "?blocked q \<Longrightarrow> Cancel session \<notin> set as \<Longrightarrow> ?blocked (fold request_step as q)" for as q
  proof (induction as arbitrary: q)
    case (Cons a as)
    then have "?blocked (request_step a q)" "Cancel session \<notin> set as" using step [of q a] by auto
    then show ?case using Cons.IH by simp
  qed simp
  let ?q = "request_run before"
  have one: "live_runs session ?q = [n]" "is_session_busy session ?q"
    using one_run_reached [OF assms(1,2)] live_runs_of [OF assms(4)] by (auto simp: one_run_def)
  then have "?blocked (request_step (Panics n) ?q)"
    using step_inv [where q = ?q and a = "Panics n", OF requests_reached_inv] ends_effect [where q = ?q and key = session and b = True and n = n, OF requests_reached_inv] assms(4) by simp
  from blocked [OF this assms(3)] show ?thesis by (simp add: request_run_def)
qed

theorem panicked_session_stays_busy_witness:
  "live_runs ''a'' (request_run ([Start ''a''] @ Panics 0 # [Start ''a'', Ends 0, Start ''a''])) = []"
  using panicked_session_stays_busy [of "''a''" "[Start ''a'']" "[Start ''a'', Ends 0, Start ''a'']" 0]
  by (simp add: summary_key_def request_run_def no_requests_def is_session_busy_def store_request_def Cons_eq_append_conv)

end
