(* ===== verification/Agent_Shell.thy ===== *)
theory Agent_Shell
  imports Agent_Store Plain_Text
begin

text \<open>
  The shell of an agent: the tool (\<open>cli/internal/llm/tools/bash.go\<close>) with its lists of banned and of safe
  commands, the permission it asks for and the text it returns, and the script by which a command is handed to
  the persistent shell (\<open>cli/internal/llm/tools/shell/shell.go\<close>). The shell itself is a process: it is a
  parameter with a state of its own that leaves the contents of the files the script names; the file with
  the status holds the number that \<open>echo\<close> wrote, or nothing. What a shell reads as one word is given by a
  reference definition of its quoting. The times in the metadata are left out.
\<close>

section \<open>Handing a command to the shell\<close>

abbreviation QUOTE :: char where "QUOTE \<equiv> CHR 0x27"

abbreviation BACKSLASH :: char where "BACKSLASH \<equiv> CHR 0x5C"

definition shell_quote :: "string \<Rightarrow> string" where
  "shell_quote s = [QUOTE] @ replace_all s [QUOTE] [QUOTE, BACKSLASH, QUOTE, QUOTE] @ [QUOTE]"

record shell_names =
  sn_stdout :: string
  sn_stderr :: string
  sn_status :: string
  sn_cwd :: string

definition shell_script :: "shell_names \<Rightarrow> string \<Rightarrow> string" where
  "shell_script ns command =
     ''\<newline>eval '' @ shell_quote command @ '' < /dev/null > '' @ shell_quote (sn_stdout ns) @ '' 2> '' @ shell_quote (sn_stderr ns) @
     ''\<newline>EXEC_EXIT_CODE=$?\<newline>pwd > '' @ shell_quote (sn_cwd ns) @ ''\<newline>echo $EXEC_EXIT_CODE > '' @ shell_quote (sn_status ns) @ ''\<newline>''"

record shell_files =
  sf_stdout :: string
  sf_stderr :: string
  sf_status :: "int option"
  sf_cwd :: string
  sf_interrupted :: bool

record shell_result =
  sr_stdout :: string
  sr_stderr :: string
  sr_code :: int
  sr_interrupted :: bool

definition shell_result_of :: "shell_files \<Rightarrow> shell_result" where
  "shell_result_of f =
     \<lparr>sr_stdout = sf_stdout f,
      sr_stderr = (if sf_status f = None \<and> sf_interrupted f
                   then sf_stderr f @ ''\<newline>Command execution timed out or was interrupted'' else sf_stderr f),
      sr_code = (case sf_status f of Some n \<Rightarrow> n | None \<Rightarrow> if sf_interrupted f then 143 else 0),
      sr_interrupted = sf_interrupted f\<rparr>"

text \<open>The persistent shell: its directory, and the process as long as it is alive.\<close>

record 's shell =
  sh_alive :: bool
  sh_cwd :: string
  sh_process :: 's

definition shell_exec ::
    "(string \<Rightarrow> int \<Rightarrow> 's \<Rightarrow> shell_files option \<times> 's) \<Rightarrow> shell_names \<Rightarrow> string \<Rightarrow> int \<Rightarrow> 's shell \<Rightarrow> shell_result option \<times> 's shell" where
  "shell_exec proc ns command timeout sh =
     (if \<not> sh_alive sh then (None, sh)
      else case proc (shell_script ns command @ ''\<newline>'') timeout (sh_process sh) of
             (None, p) \<Rightarrow> (None, sh\<lparr>sh_process := p\<rparr>)
           | (Some f, p) \<Rightarrow>
               (Some (shell_result_of f),
                sh\<lparr>sh_process := p, sh_cwd := (if sf_cwd f \<noteq> [] then trim_space (sf_cwd f) else sh_cwd sh)\<rparr>))"

section \<open>The tool\<close>

definition banned_commands :: "string list" where
  "banned_commands =
     [''alias'', ''curl'', ''curlie'', ''wget'', ''axel'', ''aria2c'', ''nc'', ''telnet'', ''lynx'', ''w3m'', ''links'', ''httpie'', ''xh'',
      ''http-prompt'', ''chrome'', ''firefox'', ''safari'']"

definition safe_commands :: "string list" where
  "safe_commands =
     [''ls'', ''echo'', ''pwd'', ''date'', ''cal'', ''uptime'', ''whoami'', ''id'', ''groups'', ''env'', ''printenv'', ''set'', ''unset'', ''which'', ''type'',
      ''whereis'', ''whatis'', ''uname'', ''hostname'', ''df'', ''du'', ''free'', ''top'', ''ps'', ''kill'', ''killall'', ''nice'', ''nohup'', ''time'', ''timeout'',
      ''git status'', ''git log'', ''git diff'', ''git show'', ''git branch'', ''git tag'', ''git remote'', ''git ls-files'', ''git ls-remote'',
      ''git rev-parse'', ''git config --get'', ''git config --list'', ''git describe'', ''git blame'', ''git grep'', ''git shortlog'',
      ''go version'', ''go help'', ''go list'', ''go env'', ''go doc'', ''go vet'', ''go fmt'', ''go mod'', ''go test'', ''go build'', ''go run'', ''go install'',
      ''go clean'']"

text \<open>\<open>strings.EqualFold\<close> with an ASCII text: besides the case of letters, the Kelvin sign folds to k and the long s
  to s.\<close>

definition equal_fold_ascii :: "string \<Rightarrow> string \<Rightarrow> bool" where
  "equal_fold_ascii s t \<longleftrightarrow>
     map fold_char (replace_all (replace_all s [CHR 0xE2, CHR 0x84, CHR 0xAA] ''k'') [CHR 0xC5, CHR 0xBF] ''s'') = map fold_char t"

definition safe_read_only :: "(string \<Rightarrow> string) \<Rightarrow> string \<Rightarrow> bool" where
  "safe_read_only ul command =
     (let c = to_lower ul command
      in list_ex (\<lambda>safe. has_prefix c (to_lower ul safe) \<and>
           (length c = length safe \<or> (length safe < length c \<and> (c ! length safe = CHR '' '' \<or> c ! length safe = CHR ''-'')))) safe_commands)"

definition count_lines :: "string \<Rightarrow> nat" where
  "count_lines s = (if s = [] then 0 else length (split_on LF s))"

definition max_output :: nat where
  "max_output = 30000"

definition truncate_output :: "string \<Rightarrow> string" where
  "truncate_output s =
     (if length s \<le> max_output then s
      else let h = max_output div 2
           in take h s @ ''\<newline>\<newline>... ['' @ nat_str (count_lines (take (length s - h - h) (drop h s))) @ '' lines truncated] ...\<newline>\<newline>'' @
              drop (length s - h) s)"

definition bash_timeout :: "int \<Rightarrow> int" where
  "bash_timeout t = (if t > 10 * 60 * 1000 then 10 * 60 * 1000 else if t \<le> 0 then 60 * 1000 else t)"

definition bash_text :: "shell_result \<Rightarrow> string" where
  "bash_text r =
     (let out = truncate_output (sr_stdout r); err = truncate_output (sr_stderr r);
          line = (if err \<noteq> [] then err @ ''\<newline>'' else []);
          message = (if sr_interrupted r then line @ ''Command was aborted before completion''
                     else if sr_code r \<noteq> 0 then line @ ''Exit code '' @ itoa (sr_code r) else err);
          out1 = (if out \<noteq> [] \<and> err \<noteq> [] then out @ ''\<newline>'' else out);
          out2 = (if message \<noteq> [] then out1 @ ''\<newline>'' @ message else out1)
      in if out2 = [] then ''no output'' else out2)"

record 's bash_world =
  bw_wd :: path
  bw_session :: string
  bw_message :: string
  bw_answer :: "permission_request \<Rightarrow> user_answer"
  bw_lower :: "string \<Rightarrow> string"
  bw_names :: "'s \<Rightarrow> shell_names"
  bw_process :: "string \<Rightarrow> int \<Rightarrow> 's \<Rightarrow> shell_files option \<times> 's"
  bw_start :: "string \<Rightarrow> 's \<Rightarrow> 's"

datatype bash_reply = Bash_Panics | Bash_Text string | Bash_Refused string | Bash_Failed string | Bash_Denied

definition bash_request :: "'s bash_world \<Rightarrow> string \<Rightarrow> permission_request" where
  "bash_request w command =
     \<lparr>pq_session = bw_session w, pq_tool = ''bash'', pq_description = ''Execute command: '' @ command, pq_action = ''execute'', pq_path = bw_wd w\<rparr>"

text \<open>A shell that has died is started anew in its last directory.\<close>

definition alive_shell :: "'s bash_world \<Rightarrow> 's shell \<Rightarrow> 's shell" where
  "alive_shell w sh = (if sh_alive sh then sh else sh\<lparr>sh_alive := True, sh_process := bw_start w (sh_cwd sh) (sh_process sh)\<rparr>)"

definition bash_execute :: "'s bash_world \<Rightarrow> string \<Rightarrow> int \<Rightarrow> permissions \<times> 's shell \<Rightarrow> bash_reply \<times> permissions \<times> 's shell" where
  "bash_execute w command timeout s =
     (let sh = alive_shell w (snd s)
      in case shell_exec (bw_process w) (bw_names w (sh_process sh)) command (bash_timeout timeout) sh of
           (None, sh') \<Rightarrow> (Bash_Failed ''error executing command'', fst s, sh')
         | (Some r, sh') \<Rightarrow> (Bash_Text (bash_text r), fst s, sh'))"

definition bash_run :: "'s bash_world \<Rightarrow> string \<Rightarrow> int \<Rightarrow> permissions \<times> 's shell \<Rightarrow> bash_reply \<times> permissions \<times> 's shell" where
  "bash_run w command timeout s =
     (if command = [] then (Bash_Refused ''missing command'', s)
      else case Prelude.fields command of
        [] \<Rightarrow> (Bash_Panics, s)
      | base # args \<Rightarrow>
          (if list_ex (equal_fold_ascii base) banned_commands then (Bash_Refused (''command '' @ [QUOTE] @ base @ [QUOTE] @ '' is not allowed''), s)
           else if bw_session w = [] \<or> bw_message w = []
             then (Bash_Failed ''session ID and message ID are required for creating a new file'', s)
           else if safe_read_only (bw_lower w) command then bash_execute w command timeout s
           else case request_permission (bw_wd w) (bw_answer w) (bash_request w command) (fst s) of
                  (False, pm) \<Rightarrow> (Bash_Denied, pm, snd s)
                | (True, pm) \<Rightarrow> bash_execute w command timeout (pm, snd s)))"

section \<open>What a shell reads as one word\<close>

text \<open>Between quotes every byte stands for itself; outside, a backslash quotes one byte, blanks and operators end the
  word, a few bytes are plain, and what might be expanded is refused.\<close>

definition word_ends :: string where
  "word_ends = [CHR '' '', CHR 0x09, LF, CHR ''|'', CHR ''&'', CHR '';'', CHR ''('', CHR '')'', CHR ''<'', CHR ''>'']"

definition plain_byte :: "char \<Rightarrow> bool" where
  "plain_byte c \<longleftrightarrow> c \<in> set ''abcdefghijklmnopqrstuvwxyzABCDEFGHIJKLMNOPQRSTUVWXYZ0123456789_-./,:+@%''"

fun sh_word :: "bool \<Rightarrow> string \<Rightarrow> (string \<times> string) option" where
  "sh_word False [] = Some ([], [])"
| "sh_word True [] = None"
| "sh_word True (c # s) = (if c = QUOTE then sh_word False s else map_option (apfst (Cons c)) (sh_word True s))"
| "sh_word False (c # s) =
     (if c = QUOTE then sh_word True s
      else if c = BACKSLASH
        then (case s of [] \<Rightarrow> None | d # r \<Rightarrow> if d = LF then None else map_option (apfst (Cons d)) (sh_word False r))
      else if c \<in> set word_ends then Some ([], c # s)
      else if plain_byte c then map_option (apfst (Cons c)) (sh_word False s) else None)"

lemma replace_byte: "replace_all s [a] new = List.concat (map (\<lambda>c. if c = a then new else [c]) s)"
  by (induction s) (subst replace_all.simps; simp add: has_prefix_iff)+

lemma quoted_word:
  assumes "c \<in> set word_ends"
  shows "sh_word True (List.concat (map (\<lambda>c. if c = QUOTE then [QUOTE, BACKSLASH, QUOTE, QUOTE] else [c]) s) @ QUOTE # c # rest) = Some (s, c # rest)"
proof (induction s)
  case Nil
  have "c \<noteq> QUOTE" "c \<noteq> BACKSLASH" using assms by (auto simp: word_ends_def)
  then show ?case using assms by simp
qed simp

text \<open> Quoting is safe: whatever bytes a text holds, quotes, dollars, line breaks and all, the shell reads its
  quoted form as one word which is this text, and goes on right after it. \<close>
theorem shell_quote_one_word:
  assumes "c \<in> set word_ends"
  shows "sh_word False (shell_quote s @ c # rest) = Some (s, c # rest)"
  using quoted_word [OF assms] by (simp add: shell_quote_def replace_byte)

theorem shell_quote_one_word_witness:
  "sh_word False (shell_quote [CHR ''a'', QUOTE, CHR '';'', CHR 0x24, LF] @ '' < /dev/null'') = Some ([CHR ''a'', QUOTE, CHR '';'', CHR 0x24, LF], '' < /dev/null'')"
  by (rule shell_quote_one_word) (simp add: word_ends_def)

text \<open> The script runs the command as it is: the word after \<open>eval\<close> is the command and nothing else. \<close>
theorem script_evaluates_command:
  "\<exists>rest. sh_word False (drop (length ''\<newline>eval '') (shell_script ns command)) = Some (command, '' < /dev/null > '' @ rest)"
proof -
  obtain rest where "shell_script ns command = ''\<newline>eval '' @ shell_quote command @ CHR '' '' # ''< /dev/null > '' @ rest"
    by (simp add: shell_script_def)
  moreover have "CHR '' '' \<in> set word_ends" by (simp add: word_ends_def)
  ultimately show ?thesis using quoted_word by (simp add: shell_quote_def replace_byte)
qed

section \<open>What is returned\<close>

lemma count_lines_bound: "count_lines s \<le> length s + 1"
proof -
  have "length (split_on LF s) \<le> length s + 1" by (induction s rule: split_on.induct) (auto split: list.split)
  then show ?thesis by (simp add: count_lines_def)
qed

text \<open> A long output is cut to its ends: up to the limit it is returned as it is, beyond, its first and its last
  half remain with one line between them that counts the lines left out. \<close>
theorem truncate_output_ends:
  "(length s \<le> 30000 \<longrightarrow> truncate_output s = s) \<and>
   (30000 < length s \<longrightarrow> (\<exists>a m z. s = a @ m @ z \<and> length a = 15000 \<and> length z = 15000 \<and>
      truncate_output s = a @ ''\<newline>\<newline>... ['' @ nat_str (count_lines m) @ '' lines truncated] ...\<newline>\<newline>'' @ z))"
proof (intro conjI impI)
  show "length s \<le> 30000 \<Longrightarrow> truncate_output s = s" by (simp add: truncate_output_def max_output_def)
  assume l: "30000 < length s"
  let ?a = "take 15000 s" and ?m = "take (length s - 30000) (drop 15000 s)" and ?z = "drop (length s - 15000) s"
  have "?m @ ?z = drop 15000 s" using l append_take_drop_id [of "length s - 30000" "drop 15000 s"] by simp
  then have "s = ?a @ ?m @ ?z" by (metis append_take_drop_id)
  moreover have "truncate_output s = ?a @ ''\<newline>\<newline>... ['' @ nat_str (count_lines ?m) @ '' lines truncated] ...\<newline>\<newline>'' @ ?z"
    using l by (simp add: truncate_output_def max_output_def Let_def)
  ultimately show "\<exists>a m z. s = a @ m @ z \<and> length a = 15000 \<and> length z = 15000 \<and>
      truncate_output s = a @ ''\<newline>\<newline>... ['' @ nat_str (count_lines m) @ '' lines truncated] ...\<newline>\<newline>'' @ z"
    using l by (intro exI [of _ ?a] exI [of _ ?m] exI [of _ ?z]) simp
qed

section \<open>Consent\<close>

lemma execute_shell: "snd (snd (bash_execute w command timeout s)) = snd (shell_exec (bw_process w) (bw_names w (sh_process (alive_shell w (snd s)))) command
    (bash_timeout timeout) (alive_shell w (snd s)))"
  by (simp add: bash_execute_def Let_def split: prod.split option.split)


lemma ls_runs:
  assumes "list_all (\<lambda>c. (of_char c :: nat) < 128) rest" "bw_session w \<noteq> []" "bw_message w \<noteq> []"
  shows "bash_run w (''ls '' @ rest) timeout s = bash_execute w (''ls '' @ rest) timeout s"
proof -
  have "nonblank ''ls''" by (simp add: nonblank_def word_char_def)
  from fields_nonblank(2) [OF this, of rest] have f: "Prelude.fields (''ls '' @ rest) = ''ls'' # Prelude.fields rest" by simp
  have b: "\<not> list_ex (equal_fold_ascii ''ls'') banned_commands" by code_simp
  have "to_lower (bw_lower w) (''ls '' @ rest) = ''ls '' @ map fold_char rest" "to_lower (bw_lower w) ''ls'' = ''ls''"
    using assms(1) by (simp_all add: to_lower_def fold_char_def)
  moreover have "safe_commands = ''ls'' # tl safe_commands" by (simp add: safe_commands_def)
  then have "list_ex P safe_commands" if "P ''ls''" for P using that by (metis list_ex_iff list.set_intros(1))
  ultimately have "safe_read_only (bw_lower w) (''ls '' @ rest)" by (simp add: safe_read_only_def Let_def)
  with f b assms(2,3) show ?thesis by (simp add: bash_run_def del: append_Cons)
qed

text \<open> The lists do not look beyond the first words: any ASCII text after \<open>ls\<close> and a blank, further commands and
  banned ones included, is handed to the shell without asking, though the user would deny it. \<close>
theorem safe_prefix_hides_anything:
  assumes "list_all (\<lambda>c. (of_char c :: nat) < 128) rest" "bw_session w \<noteq> []" "bw_message w \<noteq> []"
  shows "bash_run w (''ls '' @ rest) timeout s = bash_execute w (''ls '' @ rest) timeout s"
  using assms by (rule ls_runs)

text \<open> Consent for one command is consent for all: once the user has granted a command for the session, every
  later command of this session passes, whatever it is and whatever the user would say. \<close>
theorem persistent_grant_covers_all:
  assumes "bw_answer w (asked (bw_wd w) (bash_request w command)) = Grant_Persistent"
    "request_permission (bw_wd w) (bw_answer w) (bash_request w command) pm = (granted, pm')"
  shows "request_permission (bw_wd w) answer (bash_request w command') pm' = (True, pm')"
  using assms
  by (auto simp: request_permission_def Let_def bash_request_def asked_def same_permission_def grant_persistent_def list_ex_iff split: if_splits)

text \<open> A command of blanks only makes the tool panic: it is not empty, but has no first word. \<close>
theorem blank_command_panics:
  assumes "command \<noteq> []" "Prelude.fields command = []"
  shows "bash_run w command timeout s = (Bash_Panics, s)"
  using assms by (simp add: bash_run_def)

definition deny_world :: "nat bash_world" where
  "deny_world = \<lparr>bw_wd = ''/w'', bw_session = ''s'', bw_message = ''m'', bw_answer = (\<lambda>_. Deny), bw_lower = (\<lambda>s. s),
     bw_names = (\<lambda>_. \<lparr>sn_stdout = ''/tmp/o'', sn_stderr = ''/tmp/e'', sn_status = ''/tmp/s'', sn_cwd = ''/tmp/c''\<rparr>),
     bw_process = (\<lambda>_ _ p. (Some \<lparr>sf_stdout = ''done'', sf_stderr = [], sf_status = Some 0, sf_cwd = ''/v'', sf_interrupted = False\<rparr>, Suc p)),
     bw_start = (\<lambda>_ p. p)\<rparr>"

definition live_shell :: "nat shell" where
  "live_shell = \<lparr>sh_alive = True, sh_cwd = ''/w'', sh_process = 0\<rparr>"

theorem safe_prefix_hides_anything_witness:
  "bash_run deny_world (''ls '' @ ''x; curl y'') 0 (new_permissions, live_shell) = bash_execute deny_world (''ls '' @ ''x; curl y'') 0 (new_permissions, live_shell)"
  by (rule safe_prefix_hides_anything) (simp_all add: deny_world_def)


theorem persistent_grant_covers_all_witness:
  "\<exists>pm'. request_permission (bw_wd deny_world) (\<lambda>_. Deny) (bash_request deny_world ''rm -rf x'') pm' = (True, pm')"
proof -
  let ?w = "deny_world\<lparr>bw_answer := (\<lambda>_. Grant_Persistent)\<rparr>"
  obtain g pm' where "request_permission (bw_wd ?w) (bw_answer ?w) (bash_request ?w ''make'') new_permissions = (g, pm')" by force
  from persistent_grant_covers_all [OF _ this, of "\<lambda>_. Deny" "''rm -rf x''"] show ?thesis by (auto simp: bash_request_def)
qed

theorem blank_command_panics_witness: "bash_run deny_world ''  '' 0 (new_permissions, live_shell) = (Bash_Panics, (new_permissions, live_shell))"
  by (rule blank_command_panics) (simp, code_simp)

end
