(* ===== verification/Agent_Events.thy ===== *)
theory Agent_Events
  imports Prelude
begin

text \<open>
  The broker by which the parts of the terminal client hear of each other's changes
  (\<open>cli/internal/pubsub/broker.go\<close>), as a machine whose actions are the sections between locks: a publisher copies
  the subscribers under the lock and sends to them after it, one by one, while contexts end and the broker is
  shut down. Channels are numbered; a channel that was made and is not open is closed, sending to it and
  closing it again panics. An action that is not possible changes nothing, and nothing happens after a panic.
\<close>

section \<open>The machine\<close>

record 'e broker =
  bk_subs :: "nat list"
  bk_count :: int
  bk_done :: bool
  bk_made :: nat
  bk_open :: "nat list"
  bk_watch :: "nat list"
  bk_queue :: "nat \<Rightarrow> 'e list"
  bk_sends :: "('e \<times> nat list) list"
  bk_looks :: nat
  bk_drains :: nat
  bk_panics :: bool

datatype 'e broker_action =
    Subscribe
  | Context_Ends nat
  | Publish 'e
  | Send nat nat
  | Receive nat
  | Shutdown_Looks
  | Shutdown_Closes
  | Shutdown_Drains

definition buffer_size :: nat where
  "buffer_size = 64"

definition new_broker :: "'e broker" where
  "new_broker = \<lparr>bk_subs = [], bk_count = 0, bk_done = False, bk_made = 0, bk_open = [], bk_watch = [], bk_queue = (\<lambda>_. []),
     bk_sends = [], bk_looks = 0, bk_drains = 0, bk_panics = False\<rparr>"

text \<open>A broker that is shut down gives a closed channel.\<close>

definition subscribe :: "'e broker \<Rightarrow> 'e broker" where
  "subscribe b =
     (let c = bk_made b; b1 = b\<lparr>bk_made := Suc c\<rparr>
      in if bk_done b then b1
         else b1\<lparr>bk_subs := bk_subs b @ [c], bk_count := bk_count b + 1, bk_open := bk_open b @ [c], bk_watch := bk_watch b @ [c]\<rparr>)"

text \<open>The goroutine of a subscription, which waits for the end of its context.\<close>

definition context_ends :: "nat \<Rightarrow> 'e broker \<Rightarrow> 'e broker" where
  "context_ends c b =
     (if c \<notin> set (bk_watch b) then b
      else let b1 = b\<lparr>bk_watch := removeAll c (bk_watch b)\<rparr>
        in if bk_done b then b1
           else if c \<notin> set (bk_open b) then b1\<lparr>bk_panics := True\<rparr>
           else b1\<lparr>bk_subs := removeAll c (bk_subs b), bk_open := removeAll c (bk_open b), bk_count := bk_count b - 1\<rparr>)"

definition publish :: "'e \<Rightarrow> 'e broker \<Rightarrow> 'e broker" where
  "publish e b = (if bk_done b then b else b\<lparr>bk_sends := bk_sends b @ [(e, bk_subs b)]\<rparr>)"

text \<open>A full channel is passed over.\<close>

definition send_next :: "nat \<Rightarrow> nat \<Rightarrow> 'e broker \<Rightarrow> 'e broker" where
  "send_next i c b =
     (if i < length (bk_sends b) \<and> c \<in> set (snd (bk_sends b ! i))
      then let (e, rest) = bk_sends b ! i; b1 = b\<lparr>bk_sends := (bk_sends b)[i := (e, removeAll c rest)]\<rparr>
        in if c \<notin> set (bk_open b) then b1\<lparr>bk_panics := True\<rparr>
           else if length (bk_queue b c) < buffer_size then b1\<lparr>bk_queue := (bk_queue b)(c := bk_queue b c @ [e])\<rparr>
           else b1
      else b)"

definition receive :: "nat \<Rightarrow> 'e broker \<Rightarrow> 'e broker" where
  "receive c b = b\<lparr>bk_queue := (bk_queue b)(c := tl (bk_queue b c))\<rparr>"

definition shutdown_looks :: "'e broker \<Rightarrow> 'e broker" where
  "shutdown_looks b = (if bk_done b then b else b\<lparr>bk_looks := Suc (bk_looks b)\<rparr>)"

definition shutdown_closes :: "'e broker \<Rightarrow> 'e broker" where
  "shutdown_closes b =
     (if bk_looks b = 0 then b
      else let b1 = b\<lparr>bk_looks := bk_looks b - 1\<rparr>
        in if bk_done b then b1\<lparr>bk_panics := True\<rparr> else b1\<lparr>bk_done := True, bk_drains := Suc (bk_drains b)\<rparr>)"

definition shutdown_drains :: "'e broker \<Rightarrow> 'e broker" where
  "shutdown_drains b =
     (if bk_drains b = 0 then b
      else b\<lparr>bk_drains := bk_drains b - 1, bk_subs := [], bk_open := filter (\<lambda>c. c \<notin> set (bk_subs b)) (bk_open b), bk_count := 0\<rparr>)"

fun broker_act :: "'e broker_action \<Rightarrow> 'e broker \<Rightarrow> 'e broker" where
  "broker_act Subscribe b = subscribe b"
| "broker_act (Context_Ends c) b = context_ends c b"
| "broker_act (Publish e) b = publish e b"
| "broker_act (Send i c) b = send_next i c b"
| "broker_act (Receive c) b = receive c b"
| "broker_act Shutdown_Looks b = shutdown_looks b"
| "broker_act Shutdown_Closes b = shutdown_closes b"
| "broker_act Shutdown_Drains b = shutdown_drains b"

definition broker_step :: "'e broker_action \<Rightarrow> 'e broker \<Rightarrow> 'e broker" where
  "broker_step a b = (if bk_panics b then b else broker_act a b)"

fun broker_run :: "'e broker_action list \<Rightarrow> 'e broker \<Rightarrow> 'e broker" where
  "broker_run [] b = b"
| "broker_run (a # as) b = broker_run as (broker_step a b)"

section \<open>Its invariant\<close>

definition subs_ok :: "'e broker \<Rightarrow> bool" where
  "subs_ok b \<longleftrightarrow> set (bk_subs b) \<subseteq> set (bk_open b) \<and> set (bk_open b) \<subseteq> {..<bk_made b} \<and> distinct (bk_subs b)"

definition watch_ok :: "'e broker \<Rightarrow> bool" where
  "watch_ok b \<longleftrightarrow> set (bk_watch b) \<subseteq> {..<bk_made b} \<and> (\<not> bk_done b \<longrightarrow> set (bk_watch b) = set (bk_subs b) \<and> bk_drains b = 0)"

definition count_ok :: "'e broker \<Rightarrow> bool" where
  "count_ok b \<longleftrightarrow> bk_count b = int (length (bk_subs b))"

definition queues_ok :: "'e broker \<Rightarrow> bool" where
  "queues_ok b \<longleftrightarrow> (\<forall>c. length (bk_queue b c) \<le> buffer_size)"

definition broker_inv :: "'e broker \<Rightarrow> bool" where
  "broker_inv b \<longleftrightarrow> subs_ok b \<and> watch_ok b \<and> count_ok b \<and> queues_ok b"

lemmas broker_defs = subs_ok_def watch_ok_def count_ok_def queues_ok_def

lemma removeAll_length: "distinct xs \<Longrightarrow> c \<in> set xs \<Longrightarrow> int (length (removeAll c xs)) = int (length xs) - 1"
proof -
  assume "distinct xs" "c \<in> set xs"
  then have "length xs = Suc (length (removeAll c xs))" by (metis distinct_remove1_removeAll length_remove1 length_pos_if_in_set Suc_pred')
  then show ?thesis by simp
qed

lemma act_inv:
  assumes "broker_inv b"
  shows "broker_inv (broker_act a b)"
proof (cases a)
  case Subscribe
  have "bk_made b \<notin> set (bk_subs b)" using assms by (auto simp: broker_inv_def subs_ok_def)
  then show ?thesis using assms unfolding Subscribe by (auto simp: broker_inv_def broker_defs subscribe_def Let_def)
next
  case (Context_Ends c)
  have "c \<in> set (bk_watch b) \<Longrightarrow> \<not> bk_done b \<Longrightarrow> int (length (removeAll c (bk_subs b))) = int (length (bk_subs b)) - 1"
    using assms by (intro removeAll_length) (auto simp: broker_inv_def broker_defs)
  then show ?thesis using assms unfolding Context_Ends
    by (auto simp: broker_inv_def broker_defs context_ends_def Let_def distinct_removeAll)
next
  case (Send i c)
  then show ?thesis using assms by (auto simp: broker_inv_def broker_defs send_next_def Let_def split: prod.split)
next
  case (Receive c)
  have "length (tl (bk_queue b c)) \<le> buffer_size" using assms by (auto simp: broker_inv_def queues_ok_def intro: le_diff_conv [THEN iffD2] trans_le_add1)
  then show ?thesis using assms Receive by (auto simp: broker_inv_def broker_defs receive_def)
qed (use assms in \<open>auto simp: broker_inv_def broker_defs publish_def shutdown_looks_def shutdown_closes_def shutdown_drains_def Let_def\<close>)

lemma run_reaches_inv: "broker_inv (broker_run acts new_broker)"
proof -
  have "broker_inv b \<Longrightarrow> broker_inv (broker_run acts b)" for b :: "'a broker"
    by (induction acts b rule: broker_run.induct) (simp_all add: broker_step_def act_inv)
  then show ?thesis by (simp add: broker_inv_def broker_defs new_broker_def)
qed

text \<open> In every run the broker is consistent: a subscriber is open, subscribers are counted, and no more than 64
  events wait in a channel, however slow its reader is. \<close>
theorem broker_consistent:
  "set (bk_subs (broker_run acts new_broker)) \<subseteq> set (bk_open (broker_run acts new_broker)) \<and>
   bk_count (broker_run acts new_broker) = int (length (bk_subs (broker_run acts new_broker))) \<and>
   length (bk_queue (broker_run acts new_broker) c) \<le> 64"
  using run_reaches_inv [of acts] by (simp add: broker_inv_def broker_defs buffer_size_def)

section \<open>When it panics\<close>

text \<open> A subscriber that leaves while an event is being sent brings the process down: the publisher sends to
  the copy it made under the lock, and its channel is closed by then; and two shutdowns that both look before
  one of them closes do so, too. \<close>
theorem late_send_panics:
  "bk_panics (broker_run [Subscribe, Publish e, Context_Ends 0, Send 0 0] new_broker) \<and>
   bk_panics (broker_run [Subscribe, Publish e, Shutdown_Looks, Shutdown_Closes, Shutdown_Drains, Send 0 0] new_broker) \<and>
   bk_panics (broker_run [Shutdown_Looks, Shutdown_Looks, Shutdown_Closes, Shutdown_Closes :: 'e broker_action] new_broker)"
  by (simp add: broker_step_def new_broker_def subscribe_def publish_def context_ends_def send_next_def shutdown_looks_def shutdown_closes_def
      shutdown_drains_def Let_def)

text \<open>Runs in which a channel is closed only when no event is on its way to it, and one caller shuts down.\<close>

definition awaits :: "nat \<Rightarrow> 'e broker \<Rightarrow> bool" where
  "awaits c b \<longleftrightarrow> list_ex (\<lambda>x. c \<in> set (snd x)) (bk_sends b)"

definition orderly :: "'e broker_action \<Rightarrow> 'e broker \<Rightarrow> bool" where
  "orderly a b \<longleftrightarrow>
     (case a of
        Context_Ends c \<Rightarrow> \<not> awaits c b
      | Shutdown_Drains \<Rightarrow> list_all (\<lambda>x. snd x = []) (bk_sends b)
      | Shutdown_Looks \<Rightarrow> bk_looks b = 0
      | _ \<Rightarrow> True)"

fun orderly_run :: "'e broker_action list \<Rightarrow> 'e broker \<Rightarrow> bool" where
  "orderly_run [] b \<longleftrightarrow> True"
| "orderly_run (a # as) b \<longleftrightarrow> orderly a b \<and> orderly_run as (broker_step a b)"

definition sends_open :: "'e broker \<Rightarrow> bool" where
  "sends_open b \<longleftrightarrow> (\<forall>x \<in> set (bk_sends b). set (snd x) \<subseteq> set (bk_open b))"

definition safe_broker :: "'e broker \<Rightarrow> bool" where
  "safe_broker b \<longleftrightarrow> \<not> bk_panics b \<and> sends_open b \<and> bk_looks b \<le> 1 \<and> (bk_done b \<longrightarrow> bk_looks b = 0)"

lemma orderly_safe:
  assumes "broker_inv b" "safe_broker b" "orderly a b"
  shows "safe_broker (broker_act a b)"
proof (cases a)
  case Subscribe
  then show ?thesis using assms(2) unfolding safe_broker_def by (auto simp: sends_open_def subscribe_def Let_def)
next
  case (Context_Ends c)
  have "\<not> awaits c b" using assms(3) Context_Ends by (simp add: orderly_def)
  then have "set (snd x) \<subseteq> set (removeAll c (bk_open b))" if "x \<in> set (bk_sends b)" for x
    using assms(2) that by (auto simp: awaits_def list_ex_iff safe_broker_def sends_open_def)
  moreover have "c \<in> set (bk_watch b) \<Longrightarrow> \<not> bk_done b \<Longrightarrow> c \<in> set (bk_open b)" using assms(1) by (auto simp: broker_inv_def broker_defs)
  ultimately show ?thesis using assms(2) Context_Ends unfolding safe_broker_def by (simp add: context_ends_def Let_def sends_open_def)
next
  case (Publish e)
  then show ?thesis using assms(1,2) by (auto simp: safe_broker_def sends_open_def publish_def broker_inv_def subs_ok_def)
next
  case (Send i c)
  show ?thesis
  proof (cases "i < length (bk_sends b) \<and> c \<in> set (snd (bk_sends b ! i))")
    case True
    obtain e rest where r: "bk_sends b ! i = (e, rest)" by force
    let ?sends = "(bk_sends b)[i := (e, removeAll c rest)]"
    have "(e, rest) \<in> set (bk_sends b)" using True r by (metis nth_mem)
    then have rest: "set rest \<subseteq> set (bk_open b)" using assms(2) by (force simp: safe_broker_def sends_open_def)
    then have "set (snd x) \<subseteq> set (bk_open b)" if "x \<in> set ?sends" for x
      using assms(2) that rest set_update_subset_insert [of "bk_sends b" i "(e, removeAll c rest)"] by (fastforce simp: safe_broker_def sends_open_def)
    moreover have "c \<in> set (bk_open b)" using rest True r by auto
    ultimately show ?thesis using assms(2) Send True r unfolding safe_broker_def by (simp add: send_next_def Let_def sends_open_def)
  next
    case False
    then have "send_next i c b = b" unfolding send_next_def by (simp only: if_False)
    then show ?thesis using assms(2) Send by simp
  qed
next
  case (Receive c)
  then show ?thesis using assms(2) unfolding safe_broker_def by (simp add: receive_def sends_open_def)
next
  case Shutdown_Drains
  then have "list_all (\<lambda>x. snd x = []) (bk_sends b)" using assms(3) by (simp add: orderly_def)
  then show ?thesis using assms(2) Shutdown_Drains unfolding safe_broker_def by (simp add: sends_open_def shutdown_drains_def list_all_iff)
next
  case Shutdown_Looks
  then show ?thesis using assms(2,3) unfolding safe_broker_def by (simp add: sends_open_def shutdown_looks_def orderly_def)
next
  case Shutdown_Closes
  then show ?thesis using assms(2) unfolding safe_broker_def by (simp add: sends_open_def shutdown_closes_def Let_def)
qed

text \<open> An orderly broker never panics: when channels are closed only while no event is on its way to them and no
  two callers shut it down at once, no run panics. \<close>
theorem orderly_broker_never_panics:
  assumes "orderly_run acts new_broker"
  shows "\<not> bk_panics (broker_run acts new_broker)"
proof -
  have "broker_inv b \<Longrightarrow> safe_broker b \<Longrightarrow> orderly_run acts b \<Longrightarrow> safe_broker (broker_run acts b)" for b :: "'a broker"
  proof (induction acts b rule: broker_run.induct)
    case (2 a as b)
    then have "\<not> bk_panics b" by (simp add: safe_broker_def)
    then have "safe_broker (broker_step a b)" "broker_inv (broker_step a b)"
      using 2 by (simp_all add: broker_step_def orderly_safe act_inv)
    then show ?case using 2 by simp
  qed simp
  moreover have "broker_inv new_broker" using run_reaches_inv [of "[]"] by simp
  moreover have "safe_broker new_broker" by (simp add: safe_broker_def sends_open_def new_broker_def)
  ultimately have "safe_broker (broker_run acts new_broker)" using assms by blast
  then show ?thesis by (simp add: safe_broker_def)
qed

theorem orderly_broker_never_panics_witness:
  "\<not> bk_panics (broker_run [Subscribe, Publish ''e'', Send 0 0, Context_Ends 0, Shutdown_Looks, Shutdown_Closes, Shutdown_Drains] new_broker)"
  by (rule orderly_broker_never_panics)
    (simp add: orderly_def awaits_def broker_step_def new_broker_def subscribe_def publish_def context_ends_def send_next_def shutdown_looks_def
      shutdown_closes_def shutdown_drains_def Let_def buffer_size_def)

end
