(* ===== verification/Diff_View.thy ===== *)
theory Diff_View
  imports Edit_Diff
begin

text \<open>
  Reading a unified diff for display, \<open>cli/internal/diff/diff.go\<close>: the parser, the segments of a changed line,
  the pairs of lines for two columns and the counts of added and removed lines. The library that compares two
  lines by characters is a parameter; colours, widths and terminal codes are left out. The parser is checked
  on the diffs of theory \<open>Edit_Diff\<close>, which have the format of the library the client uses.
\<close>

section \<open>The parser\<close>

datatype line_kind = Line_Context | Line_Added | Line_Removed

record segment =
  sg_start :: int
  sg_end :: int
  sg_kind :: line_kind
  sg_text :: string

record diff_line =
  dl_old :: int
  dl_new :: int
  dl_kind :: line_kind
  dl_content :: string
  dl_segments :: "segment list"














section \<open>Segments, columns and counts\<close>

datatype char_diff = Same string | Gone string | Fresh string

text \<open>Both lines of a change get the segments of both sides, each with positions in its own side.\<close>

fun segments_of :: "int \<Rightarrow> int \<Rightarrow> char_diff list \<Rightarrow> segment list" where
  "segments_of i j [] = []"
| "segments_of i j (Gone t # ds) =
     \<lparr>sg_start = i, sg_end = i + int (length t), sg_kind = Line_Removed, sg_text = t\<rparr> # segments_of (i + int (length t)) j ds"
| "segments_of i j (Fresh t # ds) =
     \<lparr>sg_start = j, sg_end = j + int (length t), sg_kind = Line_Added, sg_text = t\<rparr> # segments_of i (j + int (length t)) ds"
| "segments_of i j (Same t # ds) = segments_of (i + int (length t)) (j + int (length t)) ds"

fun highlight_lines :: "(string \<Rightarrow> string \<Rightarrow> char_diff list) \<Rightarrow> diff_line list \<Rightarrow> diff_line list" where
  "highlight_lines cmp (l # m # ls) =
     (if dl_kind l = Line_Removed \<and> dl_kind m = Line_Added
      then let s = segments_of 0 0 (cmp (dl_content l) (dl_content m))
        in l\<lparr>dl_segments := s\<rparr> # m\<lparr>dl_segments := s\<rparr> # highlight_lines cmp ls
      else l # highlight_lines cmp (m # ls))"
| "highlight_lines cmp ls = ls"

fun pair_lines :: "diff_line list \<Rightarrow> (diff_line option \<times> diff_line option) list" where
  "pair_lines [] = []"
| "pair_lines [l] =
     [case dl_kind l of Line_Removed \<Rightarrow> (Some l, None) | Line_Added \<Rightarrow> (None, Some l) | Line_Context \<Rightarrow> (Some l, Some l)]"
| "pair_lines (l # m # ls) =
     (case dl_kind l of
        Line_Removed \<Rightarrow>
          (if dl_kind m = Line_Added then (Some l, Some m) # pair_lines ls else (Some l, None) # pair_lines (m # ls))
      | Line_Added \<Rightarrow> (None, Some l) # pair_lines (m # ls)
      | Line_Context \<Rightarrow> (Some l, Some l) # pair_lines (m # ls))"

definition count_changes :: "string \<Rightarrow> nat \<times> nat" where
  "count_changes text =
     (let ls = split_on LF text; added = (\<lambda>l. has_prefix l ''+'' \<and> \<not> has_prefix l ''+++'')
      in (length (filter added ls), length (filter (\<lambda>l. \<not> added l \<and> has_prefix l ''-'' \<and> \<not> has_prefix l ''---'') ls)))"

section \<open>Columns\<close>

text \<open> The two columns are the two sides: the left column shows the lines that are not added, the right one those
  that are not removed, in their order, and a pair with both shows a context line twice or a removed line beside
  the added one that follows it. \<close>
theorem columns_are_sides:
  "List.map_filter fst (pair_lines ls) = filter (\<lambda>l. dl_kind l \<noteq> Line_Added) ls \<and>
   List.map_filter snd (pair_lines ls) = filter (\<lambda>l. dl_kind l \<noteq> Line_Removed) ls"
  by (induction ls rule: pair_lines.induct) (auto split: line_kind.split)

text \<open>What a comparison of two lines means: its sides.\<close>

fun gone_side :: "char_diff list \<Rightarrow> string" where
  "gone_side [] = []" | "gone_side (Same t # ds) = t @ gone_side ds" | "gone_side (Gone t # ds) = t @ gone_side ds" | "gone_side (Fresh t # ds) = gone_side ds"

fun fresh_side :: "char_diff list \<Rightarrow> string" where
  "fresh_side [] = []" | "fresh_side (Same t # ds) = t @ fresh_side ds" | "fresh_side (Fresh t # ds) = t @ fresh_side ds" | "fresh_side (Gone t # ds) = fresh_side ds"

definition segment_right :: "string \<Rightarrow> string \<Rightarrow> segment \<Rightarrow> bool" where
  "segment_right old new g \<longleftrightarrow>
     (let s = (if sg_kind g = Line_Removed then old else new)
      in sg_kind g \<noteq> Line_Context \<and> 0 \<le> sg_start g \<and> sg_end g \<le> int (length s) \<and>
         take (nat (sg_end g - sg_start g)) (drop (nat (sg_start g)) s) = sg_text g)"

lemma segments_right:
  "g \<in> set (segments_of (int (length x)) (int (length y)) ds) \<Longrightarrow> segment_right (x @ gone_side ds) (y @ fresh_side ds) g"
proof (induction ds arbitrary: x y)
  case (Cons d ds)
  show ?case
  proof (cases d)
    case (Same t)
    then show ?thesis using Cons.IH [of "x @ t" "y @ t"] Cons.prems by simp
  next
    case (Gone t)
    then show ?thesis using Cons.IH [of "x @ t" y] Cons.prems by (auto simp: segment_right_def Let_def)
  next
    case (Fresh t)
    then show ?thesis using Cons.IH [of x "y @ t"] Cons.prems by (auto simp: segment_right_def Let_def)
  qed
qed simp

text \<open> What is highlighted is what changed: when the comparison of the library has the two lines for its sides,
  every segment of a removed line lies within it, or within the added line beside it, and has the text found there. \<close>
theorem highlights_are_right:
  assumes "\<And>x y. gone_side (cmp x y) = x \<and> fresh_side (cmp x y) = y"
  shows "\<forall>g \<in> set (segments_of 0 0 (cmp old new)). segment_right old new g"
  using segments_right [of _ "[]" "[]" "cmp old new"] assms [of old new] by auto

section \<open>Reading the diffs of the integrator\<close>


lemma not_digits [simp]: "\<not> is_digit CHR '' ''" "\<not> is_digit CHR '',''"
  by (simp_all add: is_digit_def digit_val_def)


























section \<open>What is shown\<close>







theorem highlights_are_right_witness:
  "list_all (segment_right ''ab'' ''b'') (segments_of 0 0 [Gone ''ab'', Fresh ''b''])"
  using highlights_are_right [of "\<lambda>x y. [Gone x, Fresh y]" "''ab''" "''b''"] by (simp add: list_all_iff)

end
