(* ===== verification/Heaven_Wire.thy ===== *)
theory Heaven_Wire
  imports Heaven_Server Json_Fields
begin

text \<open>
  What goes over the wire between the daemon and its clients: the routes and the JSON of requests and responses
  (\<open>heaven/server.go\<close> with the structs of \<open>leases.go\<close>, \<open>irindex.go\<close>, \<open>pf.go\<close>), and what the client of God writes
  and reads (\<open>god/heaven_client.go\<close>). The properties justify \<open>Heaven_Client\<close>, where requests and responses are passed
  as values. A path is the list of its segments, a query its parsed parameters. The JSON of prompts and page faults,
  which no client here reads, is the parameter \<open>other\<close>; the members of a map are written in the order of the map,
  which no reader depends on. A list that a body names twice is the last one.
\<close>

section \<open>Requests\<close>

record http_request =
  hq_method :: string
  hq_path :: "string list"
  hq_query :: "(string \<times> string) list"
  hq_body :: string

definition query_param :: "string \<Rightarrow> http_request \<Rightarrow> string" where
  "query_param name q = (case map_of (hq_query q) name of Some v \<Rightarrow> v | None \<Rightarrow> [])"

definition path_value :: "nat \<Rightarrow> http_request \<Rightarrow> string" where
  "path_value i q = hq_path q ! i"

definition body_members :: "string \<Rightarrow> (string \<times> json) list option" where
  "body_members b = Option.bind (first_value b) json_members_of"

fun dec_all :: "(json \<Rightarrow> 'a option) \<Rightarrow> json list \<Rightarrow> 'a list option" where
  "dec_all f [] = Some []"
| "dec_all f (v # vs) = (case (f v, dec_all f vs) of (Some x, Some xs) \<Rightarrow> Some (x # xs) | _ \<Rightarrow> None)"

fun dec_list :: "(json \<Rightarrow> 'a option) \<Rightarrow> string \<Rightarrow> (string \<times> json) list \<Rightarrow> 'a list \<Rightarrow> 'a list option" where
  "dec_list f name [] cur = Some cur"
| "dec_list f name ((k, v) # ms) cur =
     (if same_key k name
      then (case v of
              JArr vs \<Rightarrow> (case dec_all f vs of None \<Rightarrow> None | Some xs \<Rightarrow> dec_list f name ms xs)
            | JNull \<Rightarrow> dec_list f name ms []
            | _ \<Rightarrow> None)
      else dec_list f name ms cur)"

fun dec_ints :: "(string \<times> json) list \<Rightarrow> (string \<times> int) list \<Rightarrow> (string \<times> int) list option" where
  "dec_ints [] m = Some m"
| "dec_ints ((k, v) # ms) m =
     (case v of
        JNum l \<Rightarrow> (case int_literal 64 l of None \<Rightarrow> None | Some i \<Rightarrow> dec_ints ms (aput k i m))
      | JNull \<Rightarrow> dec_ints ms (aput k 0 m)
      | _ \<Rightarrow> None)"

text \<open>A map of integers, nil when it is missing or null.\<close>

fun dec_int_map :: "string \<Rightarrow> (string \<times> json) list \<Rightarrow> (string \<times> int) list option \<Rightarrow> (string \<times> int) list option option" where
  "dec_int_map name [] cur = Some cur"
| "dec_int_map name ((k, v) # ms) cur =
     (if same_key k name
      then (case v of
              JObj xs \<Rightarrow> (case dec_ints xs (case cur of None \<Rightarrow> [] | Some m \<Rightarrow> m) of
                            None \<Rightarrow> None | Some m \<Rightarrow> dec_int_map name ms (Some m))
            | JNull \<Rightarrow> dec_int_map name ms None
            | _ \<Rightarrow> None)
      else dec_int_map name ms cur)"

definition dec_scope :: "json \<Rightarrow> scope_target option" where
  "dec_scope v =
     (case json_members_of v of
        None \<Rightarrow> None
      | Some ms \<Rightarrow>
          (case (dec_str ''scope_type'' ms [], dec_str ''scope_value'' ms []) of
             (Some t, Some x) \<Rightarrow> Some \<lparr>st_type = t, st_value = x\<rparr>
           | _ \<Rightarrow> None))"

definition dec_acquire :: "string \<Rightarrow> acquire_req option" where
  "dec_acquire b =
     (case body_members b of
        None \<Rightarrow> None
      | Some ms \<Rightarrow>
          (case (dec_str ''owner_id'' ms [], dec_str ''mission_id'' ms [], dec_list dec_scope ''scopes'' ms []) of
             (Some ow, Some mi, Some sc) \<Rightarrow> Some \<lparr>aq_owner = ow, aq_mission = mi, aq_scopes = sc\<rparr>
           | _ \<Rightarrow> None))"

definition dec_manifest :: "string \<Rightarrow> manifest_req option" where
  "dec_manifest b =
     (case body_members b of
        None \<Rightarrow> None
      | Some ms \<Rightarrow>
          (case (dec_str ''owner_id'' ms [], dec_str ''mission_id'' ms [], dec_strs ''symbols_touched'' ms [],
                 dec_strs ''files_touched'' ms [], dec_int_map ''expected_clocks'' ms None) of
             (Some ow, Some mi, Some sy, Some fs, Some cl) \<Rightarrow>
               Some \<lparr>mr_owner = ow, mr_mission = mi, mr_symbols = sy, mr_files = fs, mr_clocks = cl\<rparr>
           | _ \<Rightarrow> None))"

definition dec_strings :: "string \<Rightarrow> string \<Rightarrow> string list option" where
  "dec_strings name b = Option.bind (body_members b) (\<lambda>ms. dec_strs name ms [])"

definition dec_text :: "string \<Rightarrow> string \<Rightarrow> string option" where
  "dec_text name b = Option.bind (body_members b) (\<lambda>ms. dec_str name ms [])"

definition dec_pf_args :: "(string \<times> json) list \<Rightarrow> pf_args option" where
  "dec_pf_args ms =
     (case (dec_str ''mission_id'' ms [], dec_str ''symbol'' ms [], dec_str ''path'' ms [], dec_number 64 ''start_line'' ms 0,
            dec_number 64 ''n'' ms 0, dec_str ''query'' ms [], dec_number 64 ''top_k'' ms 0, dec_str ''depth'' ms [],
            dec_str ''prompt_id'' ms [], dec_number 64 ''section_index'' ms 0) of
        (Some mi, Some sy, Some p, Some st, Some n, Some qu, Some k, Some de, Some pr, Some se) \<Rightarrow>
          Some \<lparr>pa_mission = mi, pa_symbol = sy, pa_path = p, pa_start_line = st, pa_n = n, pa_query = qu, pa_top_k = k,
                pa_depth = de, pa_prompt = pr, pa_section = se\<rparr>
      | _ \<Rightarrow> None)"

definition dec_pf :: "string \<Rightarrow> pf_request option" where
  "dec_pf b =
     (case body_members b of
        None \<Rightarrow> None
      | Some ms \<Rightarrow>
          (case (dec_str ''type'' ms [], dec_str ''command'' ms [], Option.bind (dec_sub ''args'' ms) dec_pf_args) of
             (Some t, Some c, Some a) \<Rightarrow> Some \<lparr>pr_type = t, pr_command = c, pr_args = a\<rparr>
           | _ \<Rightarrow> None))"

section \<open>Routes\<close>

text \<open>A pattern has fixed segments and wildcards, which match one segment that is not empty.\<close>

definition matches :: "string option list \<Rightarrow> string list \<Rightarrow> bool" where
  "matches pat p = list_all2 (\<lambda>x s. case x of Some y \<Rightarrow> s = y | None \<Rightarrow> s \<noteq> []) pat p"

definition routes :: "(string \<times> string option list \<times> (http_request \<Rightarrow> request)) list" where
  "routes =
     [(''GET'', [Some ''status''], \<lambda>q. Get_Status),
      (''POST'', [Some ''blob''], \<lambda>q. Put_Blob (Some (hq_body q))),
      (''GET'', [Some ''blob'', None], \<lambda>q. Get_Blob (path_value 1 q)),
      (''POST'', [Some ''event''], \<lambda>q. Append_Event (Some (hq_body q))),
      (''GET'', [Some ''events'', Some ''tail''], \<lambda>q. Tail_Events (query_param ''n'' q)),
      (''POST'', [Some ''ir'', Some ''build''], \<lambda>q. IR_Build (dec_text ''repo_path'' (hq_body q))),
      (''GET'', [Some ''ir'', Some ''symdef''], \<lambda>q. IR_Symdef (query_param ''name'' q)),
      (''GET'', [Some ''ir'', Some ''callers''], \<lambda>q. IR_Callers (query_param ''name'' q) (query_param ''top_k'' q)),
      (''GET'', [Some ''ir'', Some ''slice''], \<lambda>q. IR_Slice (query_param ''path'' q) (query_param ''start_line'' q) (query_param ''n'' q)),
      (''GET'', [Some ''ir'', Some ''search''], \<lambda>q. IR_Search (query_param ''q'' q) (query_param ''top_k'' q)),
      (''POST'', [Some ''pf''], \<lambda>q. Page_Fault (dec_pf (hq_body q))),
      (''POST'', [Some ''lease'', Some ''acquire''], \<lambda>q. Lease_Acquire (dec_acquire (hq_body q))),
      (''POST'', [Some ''lease'', Some ''release''], \<lambda>q. Lease_Release (dec_strings ''lease_ids'' (hq_body q))),
      (''GET'', [Some ''lease'', Some ''list''], \<lambda>q. Lease_List (query_param ''active_only'' q)),
      (''POST'', [Some ''file-clock'', Some ''get''], \<lambda>q. Clock_Get (dec_strings ''paths'' (hq_body q))),
      (''POST'', [Some ''file-clock'', Some ''inc''], \<lambda>q. Clock_Inc (dec_strings ''paths'' (hq_body q))),
      (''POST'', [Some ''validate-manifest''], \<lambda>q. Validate_Manifest (dec_manifest (hq_body q))),
      (''POST'', [Some ''prompt'', Some ''store''], \<lambda>q. Prompt_Put (Some (hq_body q))),
      (''GET'', [Some ''prompt'', None], \<lambda>q. Prompt_Fetch_Req (path_value 1 q)),
      (''GET'', [Some ''prompt'', None, Some ''section'', None], \<lambda>q. Prompt_Section_Req (path_value 1 q) (path_value 3 q)),
      (''GET'', [Some ''prompt'', None, Some ''reconstruct''], \<lambda>q. Prompt_Reconstruct_Req (path_value 1 q))]"

definition route :: "http_request \<Rightarrow> nat + request" where
  "route q =
     (case find (\<lambda>(m, pat, f). m = hq_method q \<and> matches pat (hq_path q)) routes of
        Some (m, pat, f) \<Rightarrow> Inr (f q)
      | None \<Rightarrow> Inl (if list_ex (\<lambda>(m, pat, f). matches pat (hq_path q)) routes then 405 else 404))"

section \<open>Responses\<close>

definition list_field :: "string \<Rightarrow> ('a \<Rightarrow> json) \<Rightarrow> 'a list \<Rightarrow> string \<times> json" where
  "list_field name f xs = (name, JArr (map f xs))"

text \<open>A field with \<open>omitempty\<close>.\<close>

definition unless_empty :: "string \<Rightarrow> 'a list \<Rightarrow> json \<Rightarrow> (string \<times> json) list" where
  "unless_empty name xs v = (if xs = [] then [] else [(name, v)])"

definition stats_json :: "index_stats \<Rightarrow> json" where
  "stats_json st = JObj [(''files'', jnat (st_files st)), (''symbols'', jnat (st_symbols st)), (''refs'', jnat (st_refs st))]"

definition manifest_json :: "manifest_resp \<Rightarrow> json" where
  "manifest_json m = JObj ((''allowed'', JBool (mv_allowed m)) #
     unless_empty ''reason'' (mv_reason m) (JStr (mv_reason m)) @
     unless_empty ''missing_leases'' (mv_missing m) (JArr (map JStr (mv_missing m))) @
     unless_empty ''clock_drift'' (mv_drift m) (JArr (map JStr (mv_drift m))))"

text \<open>A raw event that is not JSON cannot be written, and the body stays empty.\<close>

definition response_json :: "(response \<Rightarrow> json) \<Rightarrow> response \<Rightarrow> json option" where
  "response_json other r =
     (case r of
        R_Error n m \<Rightarrow> Some (JObj [(''error'', JStr m)])
      | R_Status w n clocks \<Rightarrow>
          Some (JObj [(''state_rev'', jint w), (''active_leases_count'', jnat n), (''hotset_summary'', JObj []),
                      (''file_clock_summary'', JObj (map (\<lambda>(k, v). (k, JStr v)) clocks))])
      | R_Blob_Id b \<Rightarrow> Some (JObj [(''blob_id'', JStr b)])
      | R_Blob b c \<Rightarrow> Some (JObj [(''blob_id'', JStr b), (''content'', JStr c)])
      | R_Offset n \<Rightarrow> Some (JObj [(''offset'', jnat n)])
      | R_Events es \<Rightarrow> map_option (\<lambda>vs. JObj [(''events'', JArr vs)]) (those (map json_parse es))
      | R_Indexed n st \<Rightarrow> Some (JObj [(''files_indexed'', jnat n), (''stats'', stats_json st)])
      | R_Symbols ss \<Rightarrow> Some (JObj [list_field ''symbols'' symbol_json ss])
      | R_Refs rs \<Rightarrow> Some (JObj [list_field ''refs'' ref_json rs])
      | R_Content c \<Rightarrow> Some (JObj [(''content'', JStr c)])
      | R_Acquired a \<Rightarrow> Some (JObj [list_field ''acquired'' lease_json (ar_acquired a), list_field ''denied'' JStr (ar_denied a)])
      | R_Released n \<Rightarrow> Some (JObj [(''released'', jnat n)])
      | R_Leases ls \<Rightarrow> Some (JObj [list_field ''leases'' lease_json ls])
      | R_Clocks m \<Rightarrow> Some (JObj [(''clocks'', JObj (map (\<lambda>(k, v). (k, jint v)) m))])
      | R_Manifest m \<Rightarrow> Some (manifest_json m)
      | _ \<Rightarrow> Some (other r))"

text \<open>The status and the body; a handler that panics drops the connection.\<close>

datatype http_reply = Dropped | Reply nat string

definition reply_of :: "(response \<Rightarrow> json) \<Rightarrow> response \<Rightarrow> http_reply" where
  "reply_of other r =
     (case r of
        R_Panic p \<Rightarrow> Dropped
      | _ \<Rightarrow> Reply (case r of R_Error n m \<Rightarrow> n | _ \<Rightarrow> 200)
               (case response_json other r of None \<Rightarrow> [] | Some v \<Rightarrow> json_text v @ ''\<newline>''))"

definition serve_http :: "(response \<Rightarrow> json) \<Rightarrow> env \<Rightarrow> input \<Rightarrow> http_request \<Rightarrow> server \<Rightarrow> http_reply \<times> server" where
  "serve_http other en inp q s =
     (case route q of
        Inl code \<Rightarrow> (Reply code (if code = 405 then ''Method Not Allowed\<newline>'' else ''404 page not found\<newline>''), s)
      | Inr req \<Rightarrow> (case serve en inp req s of (r, s') \<Rightarrow> (reply_of other r, s')))"


section \<open>The client of God\<close>

definition http_post :: "string list \<Rightarrow> json \<Rightarrow> http_request" where
  "http_post p v = \<lparr>hq_method = ''POST'', hq_path = p, hq_query = [], hq_body = json_text v\<rparr>"

definition http_get :: "string list \<Rightarrow> (string \<times> string) list \<Rightarrow> http_request" where
  "http_get p q = \<lparr>hq_method = ''GET'', hq_path = p, hq_query = q, hq_body = []\<rparr>"

definition scope_json :: "scope_target \<Rightarrow> json" where
  "scope_json t = JObj [(''scope_type'', JStr (st_type t)), (''scope_value'', JStr (st_value t))]"

definition clocks_json :: "clocks option \<Rightarrow> json" where
  "clocks_json m = (case m of None \<Rightarrow> JNull | Some m \<Rightarrow> JObj (map (\<lambda>(k, v). (k, jint v)) m))"

text \<open>The keys of a map are written in their order. \<open>unescape\<close> is what the daemon reads of a text that was put into the
  URL as it is.\<close>

definition god_ir_build :: "path \<Rightarrow> http_request" where
  "god_ir_build p = http_post [''ir'', ''build''] (JObj [(''repo_path'', JStr p)])"

definition god_ir_search :: "(string \<Rightarrow> string) \<Rightarrow> string \<Rightarrow> int \<Rightarrow> http_request" where
  "god_ir_search unescape q k = http_get [''ir'', ''search''] [(''q'', unescape q), (''top_k'', itoa k)]"

definition god_ir_symdef :: "(string \<Rightarrow> string) \<Rightarrow> string \<Rightarrow> http_request" where
  "god_ir_symdef unescape n = http_get [''ir'', ''symdef''] [(''name'', unescape n)]"

definition god_ir_callers :: "(string \<Rightarrow> string) \<Rightarrow> string \<Rightarrow> int \<Rightarrow> http_request" where
  "god_ir_callers unescape n k = http_get [''ir'', ''callers''] [(''name'', unescape n), (''top_k'', itoa k)]"

definition god_lease_acquire :: "string \<Rightarrow> string \<Rightarrow> scope_target list \<Rightarrow> http_request" where
  "god_lease_acquire ow mission scopes = http_post [''lease'', ''acquire'']
     (JObj [(''mission_id'', JStr mission), (''owner_id'', JStr ow), (''scopes'', JArr (map scope_json scopes))])"

definition god_validate :: "manifest_req \<Rightarrow> http_request" where
  "god_validate q = http_post [''validate-manifest'']
     (JObj [(''expected_clocks'', clocks_json (mr_clocks q)), (''files_touched'', JArr (map JStr (mr_files q))),
            (''mission_id'', JStr (mr_mission q)), (''owner_id'', JStr (mr_owner q)), (''symbols_touched'', JArr (map JStr (mr_symbols q)))])"

definition god_clocks :: "string \<Rightarrow> path list \<Rightarrow> http_request" where
  "god_clocks verb ps = http_post [''file-clock'', verb] (JObj [(''paths'', JArr (map JStr ps))])"

definition god_put_blob :: "string \<Rightarrow> http_request" where
  "god_put_blob b = \<lparr>hq_method = ''POST'', hq_path = [''blob''], hq_query = [], hq_body = b\<rparr>"

definition god_append_event :: "json \<Rightarrow> http_request" where
  "god_append_event ev = http_post [''event''] ev"

definition god_status :: http_request where
  "god_status = http_get [''status''] []"

definition god_tail_events :: "int \<Rightarrow> http_request" where
  "god_tail_events n = http_get [''events'', ''tail''] [(''n'', itoa n)]"









section \<open>Requests arrive as they were meant\<close>

definition wire_names :: "string list" where
  "wire_names = [''owner_id'', ''mission_id'', ''scopes'', ''scope_type'', ''scope_value'', ''expected_clocks'', ''files_touched'', ''symbols_touched'',
     ''paths'', ''repo_path'', ''lease_id'', ''issued_at'', ''expires_at'', ''acquired'', ''denied'', ''allowed'', ''reason'', ''missing_leases'',
     ''clock_drift'', ''clocks'', ''events'', ''blob_id'', ''files_indexed'', ''stats'']"

lemma wire_names_lower: "list_all (\<lambda>a. map fold_char a = a) wire_names"
  by code_simp

lemma wire_keys: "a \<in> set wire_names \<Longrightarrow> b \<in> set wire_names \<Longrightarrow> same_key a b \<longleftrightarrow> a = b"
  using wire_names_lower by (simp add: list_all_iff same_key_def)

lemmas wire_simps = wire_keys [unfolded wire_names_def]

lemma body_text: "json_ok v \<Longrightarrow> body_members (json_text v) = json_members_of v"
  using first_value_text [of v "[]"] by (simp add: body_members_def)

lemma dec_all_map: "(\<And>x. x \<in> set xs \<Longrightarrow> f (g x) = Some (h x)) \<Longrightarrow> dec_all f (map g xs) = Some (map h xs)"
  by (induction xs) auto

lemma dec_scope_json: "dec_scope (scope_json t) = Some t"
  by (simp add: dec_scope_def scope_json_def json_members_of_def wire_simps)

lemma dec_ints_clocks: "distinct (map fst m) \<Longrightarrow> list_all (\<lambda>(k, v). in_int64 v) m \<Longrightarrow>
    \<exists>m'. dec_ints (map (\<lambda>(k, v). (k, jint v)) m) acc = Some m' \<and> map_of m' = map_of acc ++ map_of m"
proof (induction m arbitrary: acc)
  case (Cons x m)
  obtain k v where x: "x = (k, v)" by (cases x)
  then have p: "in_int64 v" "k \<notin> fst ` set m" "distinct (map fst m)" "list_all (\<lambda>(k, v). in_int64 v) m" using Cons.prems by auto
  obtain m' where m': "dec_ints (map (\<lambda>(k, v). (k, jint v)) m) (aput k v acc) = Some m'" "map_of m' = map_of (aput k v acc) ++ map_of m"
    using Cons.IH [OF p(3,4)] by blast
  have "map_of (aput k v acc) ++ map_of m = map_of acc ++ map_of ((k, v) # m)"
    using p(2) map_of_eq_None_iff [of m k] by (auto simp: map_add_def fun_eq_iff split: option.split)
  then have "map_of m' = map_of acc ++ map_of (x # m)" using m'(2) x by simp
  moreover have "dec_ints (map (\<lambda>(k, v). (k, jint v)) (x # m)) acc = Some m'" using x p(1) m'(1) by (simp add: jint_def int_literal_itoa)
  ultimately show ?case by blast
qed simp

lemma dec_int_map_skips: "list_all (\<lambda>m. \<not> same_key (fst m) name) ms \<Longrightarrow> dec_int_map name ms cur = Some cur"
  by (induction ms arbitrary: cur) auto

lemma dec_int_map_one:
  assumes "list_all (\<lambda>m. \<not> same_key (fst m) name) ms"
  shows "dec_int_map name (x # ms) cur = dec_int_map name [x] cur"
  using dec_int_map_skips [OF assms] by (cases x) (auto split: json.split option.split)

text \<open> What God sends is what the daemon gets: for every method of its client, whatever the texts in it, the route and
  the decoding of the body give the request that the method stands for; a map of clocks arrives as the same map. \<close>
theorem god_requests_arrive:
  "route (god_ir_build p) = Inr (IR_Build (Some p)) \<and>
   route (god_ir_search unescape q k) = Inr (IR_Search (unescape q) (itoa k)) \<and>
   route (god_ir_symdef unescape n) = Inr (IR_Symdef (unescape n)) \<and>
   route (god_ir_callers unescape n k) = Inr (IR_Callers (unescape n) (itoa k)) \<and>
   route (god_lease_acquire ow mi scopes) = Inr (Lease_Acquire (Some \<lparr>aq_owner = ow, aq_mission = mi, aq_scopes = scopes\<rparr>)) \<and>
   route (god_clocks ''get'' ps) = Inr (Clock_Get (Some ps)) \<and> route (god_clocks ''inc'' ps) = Inr (Clock_Inc (Some ps)) \<and>
   route (god_put_blob b) = Inr (Put_Blob (Some b)) \<and>
   route (god_append_event ev) = Inr (Append_Event (Some (json_text ev))) \<and>
   route god_status = Inr Get_Status \<and>
   route (god_tail_events i) = Inr (Tail_Events (itoa i))"
proof -
  have b: "dec_text ''repo_path'' (json_text (JObj [(''repo_path'', JStr p)])) = Some p"
    by (simp add: dec_text_def body_text json_members_of_def wire_simps del: json_text.simps)
  have c: "dec_strings ''paths'' (json_text (JObj [(''paths'', JArr (map JStr ps))])) = Some ps"
    by (simp add: dec_strings_def body_text json_members_of_def wire_simps list_all_iff del: json_text.simps)
  have "list_all json_ok (map scope_json scopes)" by (simp add: list_all_iff scope_json_def)
  moreover have "dec_all dec_scope (map scope_json scopes) = Some scopes" using dec_all_map [of scopes dec_scope scope_json id] dec_scope_json by simp
  ultimately have a: "dec_acquire (json_text (JObj [(''mission_id'', JStr mi), (''owner_id'', JStr ow), (''scopes'', JArr (map scope_json scopes))])) =
      Some \<lparr>aq_owner = ow, aq_mission = mi, aq_scopes = scopes\<rparr>"
    by (simp add: dec_acquire_def body_text json_members_of_def wire_simps del: json_text.simps)
  note d = route_def routes_def matches_def http_post_def http_get_def query_param_def
  show ?thesis
    by (intro conjI)
      (simp_all add: d a b c god_ir_build_def god_ir_search_def god_ir_symdef_def god_ir_callers_def god_lease_acquire_def god_clocks_def
        god_put_blob_def god_append_event_def god_status_def god_tail_events_def del: json_text.simps)
qed

text \<open> A manifest arrives as it was meant: with the same owner, mission, symbols and files, and the same clock for every
  path. \<close>
theorem god_manifest_arrives:
  assumes "case mr_clocks q of None \<Rightarrow> True | Some m \<Rightarrow> distinct (map fst m) \<and> list_all (\<lambda>(k, v). in_int64 v) m"
  shows "\<exists>cl. route (god_validate q) = Inr (Validate_Manifest (Some (q\<lparr>mr_clocks := cl\<rparr>))) \<and> map_option map_of cl = map_option map_of (mr_clocks q)"
proof -
  obtain cl where cl: "dec_int_map ''expected_clocks'' [(''expected_clocks'', clocks_json (mr_clocks q))] None = Some cl"
    "map_option map_of cl = map_option map_of (mr_clocks q)"
  proof (cases "mr_clocks q")
    case None
    then show ?thesis using that [of None] by (simp add: clocks_json_def wire_simps)
  next
    case (Some m)
    then obtain m' where "dec_ints (map (\<lambda>(k, v). (k, jint v)) m) [] = Some m'" "map_of m' = map_of m"
      using assms dec_ints_clocks [of m "[]"] by auto
    then show ?thesis using that [of "Some m'"] Some by (simp add: clocks_json_def wire_simps)
  qed
  have ok: "json_ok (clocks_json (mr_clocks q))" by (auto simp: clocks_json_def list_all_iff split: option.split)
  let ?ms = "[(''expected_clocks'', clocks_json (mr_clocks q)), (''files_touched'', JArr (map JStr (mr_files q))),
      (''mission_id'', JStr (mr_mission q)), (''owner_id'', JStr (mr_owner q)), (''symbols_touched'', JArr (map JStr (mr_symbols q)))]"
  have "dec_int_map ''expected_clocks'' ?ms None = Some cl"
    by (subst dec_int_map_one) (simp_all add: wire_simps cl(1) del: dec_int_map.simps)
  then have "dec_manifest (json_text (JObj ?ms)) = Some (q\<lparr>mr_clocks := cl\<rparr>)"
    using ok by (simp add: dec_manifest_def body_text json_members_of_def wire_simps list_all_iff del: json_text.simps)
  then have "route (god_validate q) = Inr (Validate_Manifest (Some (q\<lparr>mr_clocks := cl\<rparr>)))"
    by (simp add: route_def routes_def matches_def http_post_def god_validate_def del: json_text.simps)
  with cl(2) show ?thesis by blast
qed

theorem god_manifest_arrives_witness:
  "\<exists>cl. route (god_validate \<lparr>mr_owner = ''o'', mr_mission = ''m'', mr_symbols = [], mr_files = [''a''], mr_clocks = Some [(''a'', 3)]\<rparr>) =
     Inr (Validate_Manifest (Some \<lparr>mr_owner = ''o'', mr_mission = ''m'', mr_symbols = [], mr_files = [''a''], mr_clocks = cl\<rparr>)) \<and>
     map_option (\<lambda>m. map_of m ''a'') cl = Some (Some 3)"
proof -
  let ?q = "\<lparr>mr_owner = ''o'', mr_mission = ''m'', mr_symbols = [], mr_files = [''a''], mr_clocks = Some [(''a'', 3)]\<rparr>"
  obtain cl where "route (god_validate ?q) = Inr (Validate_Manifest (Some (?q\<lparr>mr_clocks := cl\<rparr>)))" "map_option map_of cl = map_option map_of (mr_clocks ?q)"
    using god_manifest_arrives [of ?q] by (auto simp: in_int64_def)
  then show ?thesis by (cases cl) auto
qed

section \<open>Responses are read as they were meant\<close>


definition answers :: "response \<Rightarrow> bool" where
  "answers r = (case r of R_Error n m \<Rightarrow> False | R_Panic p \<Rightarrow> False | _ \<Rightarrow> True)"

lemma answers_simps [simp]:
  "answers (R_Blob_Id b)" "answers (R_Acquired a)" "answers (R_Manifest v)" "answers (R_Indexed n st)" "answers (R_Events es)"
  "answers (R_Clocks m)" "answers (R_Status w n cl)" "answers (R_Offset k)"
  by (simp_all add: answers_def)











end
