(* ===== verification/Dir_Tree.thy ===== *)
theory Dir_Tree
  imports Disk
begin

text \<open>
  \<open>filepath.Walk\<close> over a directory tree, and the operations on names that its callers use. A tree is what the walk
  finds: a file, or a directory with its entries in the order of their names, which may be unreadable. An entry that
  disappears during the walk is like one that is not there for all callers, which ignore errors.
\<close>

datatype tree = Leaf (tree_name: string) | Branch (tree_name: string) bool "tree list"

fun is_branch :: "tree \<Rightarrow> bool" where
  "is_branch (Leaf x) = False" | "is_branch (Branch x r ts) = True"

datatype entry = Plain_File | Directory | Unreadable

datatype verdict = Go_On | Skip_Dir | Stop_Walk

text \<open>The callback sees a path and what is there, and returns nil, \<open>SkipDir\<close> or \<open>SkipAll\<close>. It sees an unreadable
  directory once, with the error.\<close>

fun walk :: "(path \<Rightarrow> entry \<Rightarrow> 's \<Rightarrow> verdict \<times> 's) \<Rightarrow> path \<Rightarrow> tree \<Rightarrow> 's \<Rightarrow> verdict \<times> 's"
  and walk_list :: "(path \<Rightarrow> entry \<Rightarrow> 's \<Rightarrow> verdict \<times> 's) \<Rightarrow> path \<Rightarrow> tree list \<Rightarrow> 's \<Rightarrow> verdict \<times> 's" where
  "walk f p (Leaf x) s = f p Plain_File s"
| "walk f p (Branch x readable ts) s =
     (if \<not> readable then f p Unreadable s
      else case f p Directory s of (Go_On, s1) \<Rightarrow> walk_list f p ts s1 | (v, s1) \<Rightarrow> (v, s1))"
| "walk_list f p [] s = (Go_On, s)"
| "walk_list f p (t # ts) s =
     (case walk f (path_join [p, tree_name t]) t s of
        (Go_On, s1) \<Rightarrow> walk_list f p ts s1
      | (Skip_Dir, s1) \<Rightarrow> (if is_branch t then walk_list f p ts s1 else (Skip_Dir, s1))
      | (Stop_Walk, s1) \<Rightarrow> (Stop_Walk, s1))"

definition walk_from :: "(path \<Rightarrow> entry \<Rightarrow> 's \<Rightarrow> verdict \<times> 's) \<Rightarrow> path \<Rightarrow> tree \<Rightarrow> 's \<Rightarrow> 's" where
  "walk_from f root t s = snd (walk f root t s)"

section \<open>Names\<close>

definition path_base :: "path \<Rightarrow> string" where
  "path_base p =
     (if p = [] then ''.''
      else let q = trim_right_set p ''/'' in if q = [] then ''/'' else last (split_on CHR ''/'' q))"

definition path_ext :: "path \<Rightarrow> string" where
  "path_ext p =
     (let b = last (split_on CHR ''/'' p)
      in if CHR ''.'' \<in> set b then CHR ''.'' # last (split_on CHR ''.'' b) else [])"

text \<open>\<open>filepath.Rel\<close> for a path that the walk of \<open>root\<close> visits.\<close>

definition path_below :: "path \<Rightarrow> path \<Rightarrow> path" where
  "path_below root p =
     (let r = path_clean root; q = path_clean p
      in if r = q then ''.'' else if r = ''.'' then q else trim_prefix (trim_prefix q r) ''/'')"

section \<open>The walk that keeps what a test accepts\<close>

text \<open>What the walk visits when the callback skips the directories that \<open>skip\<close> tells and never stops.\<close>

fun visited :: "(path \<Rightarrow> bool) \<Rightarrow> path \<Rightarrow> tree \<Rightarrow> (path \<times> entry) list"
  and visited_list :: "(path \<Rightarrow> bool) \<Rightarrow> path \<Rightarrow> tree list \<Rightarrow> (path \<times> entry) list" where
  "visited skip p (Leaf x) = [(p, Plain_File)]"
| "visited skip p (Branch x readable ts) =
     (if \<not> readable then [(p, Unreadable)] else if skip p then [] else (p, Directory) # visited_list skip p ts)"
| "visited_list skip p [] = []"
| "visited_list skip p (t # ts) = visited skip (path_join [p, tree_name t]) t @ visited_list skip p ts"

text \<open>A callback that skips what \<open>skip\<close> tells and otherwise handles an entry, and says whether to stop.\<close>

definition stopping ::
  "(path \<Rightarrow> bool) \<Rightarrow> (path \<Rightarrow> entry \<Rightarrow> 's \<Rightarrow> bool \<times> 's) \<Rightarrow> path \<Rightarrow> entry \<Rightarrow> 's \<Rightarrow> verdict \<times> 's" where
  "stopping skip g p e s =
     (if e = Directory \<and> skip p then (Skip_Dir, s)
      else case g p e s of (b, s1) \<Rightarrow> (if b then Stop_Walk else Go_On, s1))"

fun handle :: "(path \<Rightarrow> entry \<Rightarrow> 's \<Rightarrow> bool \<times> 's) \<Rightarrow> (path \<times> entry) list \<Rightarrow> 's \<Rightarrow> bool \<times> 's" where
  "handle g [] s = (False, s)"
| "handle g ((p, e) # xs) s = (case g p e s of (True, s1) \<Rightarrow> (True, s1) | (False, s1) \<Rightarrow> handle g xs s1)"

lemma handle_append: "handle g (xs @ ys) s = (case handle g xs s of (True, s1) \<Rightarrow> (True, s1) | (False, s1) \<Rightarrow> handle g ys s1)"
  by (induction g xs s rule: handle.induct) (auto split: prod.split bool.split)

text \<open>The walk handles what is visited, in order, until it stops.\<close>

lemma walk_stopping:
  "walk (stopping skip g) p t s =
     (if is_branch t \<and> visited skip p t = [] then (Skip_Dir, s)
      else case handle g (visited skip p t) s of (b, s1) \<Rightarrow> (if b then Stop_Walk else Go_On, s1))"
  "walk_list (stopping skip g) p ts s =
     (case handle g (visited_list skip p ts) s of (b, s1) \<Rightarrow> (if b then Stop_Walk else Go_On, s1))"
proof (induction "stopping skip g" p t s and "stopping skip g" p ts s rule: walk_walk_list.induct)
  case (2 p x readable ts s)
  then show ?case by (auto simp: stopping_def split: prod.split bool.split)
next
  case (4 p t ts s)
  then show ?case by (cases t) (auto simp: stopping_def handle_append split: prod.splits bool.splits)
qed (auto simp: stopping_def split: prod.split bool.split)

text \<open>A callback that never stops collects.\<close>

definition collects :: "(path \<Rightarrow> bool) \<Rightarrow> (path \<Rightarrow> entry \<Rightarrow> 's \<Rightarrow> 's) \<Rightarrow> path \<Rightarrow> entry \<Rightarrow> 's \<Rightarrow> verdict \<times> 's" where
  "collects skip g = stopping skip (\<lambda>p e s. (False, g p e s))"

lemma handle_collects: "handle (\<lambda>p e s. (False, g p e s)) xs s = (False, fold (\<lambda>(p, e). g p e) xs s)"
  by (induction xs arbitrary: s) auto

lemma walk_collects: "walk_from (collects skip g) p t s = fold (\<lambda>(q, e). g q e) (visited skip p t) s"
  by (auto simp: walk_from_def collects_def walk_stopping handle_collects)

end
