(* ===== verification/Angel_Provider.thy ===== *)
theory Angel_Provider
  imports Dir_Tree Provider Json Plain_Text
begin

text \<open>
  The provider that sends a mission pack through a command line client, \<open>cli/internal/genesis/angel_provider.go\<close>: the
  prompt with its source files, the search for the JSON object in the answer, the anchors that it fills in and the
  tokens it counts. The client is the parameter \<open>ae_run\<close>, the decoding of its result and of the response, the encoding
  of a response and the indented text of a mission are parameters. The cost in dollars is left out.
\<close>

section \<open>Finding the JSON object\<close>

definition QUOTE :: char where "QUOTE = CHR 0x22"
definition BACKSLASH :: char where "BACKSLASH = CHR 0x5C"
definition OPENING :: char where "OPENING = CHR 0x7B"
definition CLOSING :: char where "CLOSING = CHR 0x7D"

lemmas json_marks = QUOTE_def BACKSLASH_def OPENING_def CLOSING_def

text \<open>What follows a quote up to the quote that ends the string, and the rest.\<close>

fun skip_text :: "string \<Rightarrow> string \<times> string" where
  "skip_text [] = ([], [])"
| "skip_text (c # s) =
     (if c = QUOTE then ([c], s)
      else if c = BACKSLASH
        then (case s of [] \<Rightarrow> ([c], []) | e # r \<Rightarrow> (let (t, rest) = skip_text r in (c # e # t, rest)))
      else (let (t, rest) = skip_text s in (c # t, rest)))"

lemma skip_text_shorter: "(t, rest) = skip_text s \<Longrightarrow> length rest \<le> length s"
  by (induction s arbitrary: t rule: skip_text.induct) (fastforce simp: Let_def split: prod.splits list.splits if_splits)+

text \<open>The text up to the brace that closes the first, or \<open>None\<close> when there is none.\<close>

function scan_braces :: "nat \<Rightarrow> string \<Rightarrow> string option" where
  "scan_braces depth [] = None"
| "scan_braces depth (c # s) =
     (if c = OPENING then map_option (Cons c) (scan_braces (depth + 1) s)
      else if c = CLOSING
        then (if depth = 1 then Some [c] else map_option (Cons c) (scan_braces (depth - 1) s))
      else if c = QUOTE then (case skip_text s of (t, rest) \<Rightarrow> map_option (\<lambda>u. c # t @ u) (scan_braces depth rest))
      else map_option (Cons c) (scan_braces depth s))"
  by pat_completeness auto
termination
  by (relation "measure (length \<circ> snd)") (auto dest: skip_text_shorter)



section \<open>Anchors\<close>

text \<open>\<open>readLines\<close> reads as the integrator does.\<close>

definition provider_lines :: "path \<Rightarrow> disk \<Rightarrow> string list option" where
  "provider_lines p d = (case read_file d p of Inl e \<Rightarrow> None | Inr c \<Rightarrow> Some (split_on LF (trim_suffix c [LF])))"

definition first_line_with :: "string \<Rightarrow> string list \<Rightarrow> nat option" where
  "first_line_with name ls = map_option fst (find (\<lambda>(j, l). contains l name) (List.enumerate 0 ls))"

definition fix_anchor :: "(string \<Rightarrow> string) \<Rightarrow> path \<Rightarrow> disk \<Rightarrow> edit_op \<Rightarrow> edit_op" where
  "fix_anchor sha root d op =
     (let k = eo_op op
      in if k = ''add_file'' then op\<lparr>eo_anchor := compute_anchor_hash sha [] 0 0\<rparr>
         else if k = ''replace_span'' \<or> k = ''delete_span''
           then (if length (eo_lines op) \<noteq> 2 then op
                 else case provider_lines (path_join [root, eo_path op]) d of
                   None \<Rightarrow> op
                 | Some ls \<Rightarrow>
                     (if eo_lines op ! 1 \<le> int (length ls)
                      then op\<lparr>eo_anchor := compute_anchor_hash sha ls (eo_lines op ! 0) (eo_lines op ! 1)\<rparr> else op))
         else if k = ''insert_after_symbol''
           then (case provider_lines (path_join [root, eo_path op]) d of
                   None \<Rightarrow> op
                 | Some ls \<Rightarrow>
                     (case first_line_with (eo_symbol op) ls of
                        None \<Rightarrow> op
                      | Some j \<Rightarrow> op\<lparr>eo_anchor := compute_anchor_hash sha ls (int j + 1) (int j + 1)\<rparr>))
         else op)"


section \<open>The prompt\<close>

definition content_path :: "string \<Rightarrow> path" where
  "content_path c =
     (case json_parse c of
        Some (JObj ms) \<Rightarrow> (case map_of (rev ms) ''path'' of Some (JStr p) \<Rightarrow> p | _ \<Rightarrow> [])
      | _ \<Rightarrow> [])"

definition meta_path :: "pack_meta \<Rightarrow> path" where
  "meta_path m = (case m of Ranked score tokens symbol p \<Rightarrow> p | Pinned i \<Rightarrow> [])"

definition add_path :: "path \<Rightarrow> path list \<Rightarrow> path list" where
  "add_path p ps = (if p \<in> set ps then ps else ps @ [p])"

definition add_named :: "path \<Rightarrow> path list \<Rightarrow> path list" where
  "add_named p ps = (if p \<noteq> [] then add_path p ps else ps)"

definition scan_entry :: "path \<Rightarrow> path \<Rightarrow> entry \<Rightarrow> path list \<Rightarrow> verdict \<times> path list" where
  "scan_entry root p e files =
     (case e of
        Unreadable \<Rightarrow> (Go_On, files)
      | Directory \<Rightarrow>
          (if path_base p \<in> {''.git'', ''.genesis'', ''__pycache__'', ''node_modules''} then (Skip_Dir, files) else (Go_On, files))
      | Plain_File \<Rightarrow> (Go_On, if path_ext p \<in> {''.py'', ''.md''} then files @ [path_below root p] else files))"

definition scan_source_files :: "path \<Rightarrow> tree \<Rightarrow> path list" where
  "scan_source_files root t = walk_from (scan_entry root) root t []"

definition collect_file_paths :: "path \<Rightarrow> tree \<Rightarrow> mission_pack \<Rightarrow> path list" where
  "collect_file_paths root t pack =
     (let ps = fold (\<lambda>s. add_named (content_path (pk_content s)) \<circ> add_named (meta_path (pk_meta s))) (mp_shards pack) [];
          ps = fold (\<lambda>s. if sc_type s = ''file'' then add_path (sc_value s) else id) (mi_scopes (mp_mission pack)) ps
      in if ps = [] then scan_source_files root t else ps)"




section \<open>Usage\<close>

record tokens =
  tk_in :: int
  tk_out :: int
  tk_read :: int
  tk_created :: int

record cli_result =
  cr_text :: string
  cr_error :: bool
  cr_duration :: int
  cr_turns :: int
  cr_usage :: tokens
  cr_models :: "(string \<times> tokens) list"

record cli_usage =
  cu_tokens :: tokens
  cu_turns :: int
  cu_duration :: int

definition tokens_with :: "(int \<Rightarrow> int \<Rightarrow> int) \<Rightarrow> tokens \<Rightarrow> tokens \<Rightarrow> tokens" where
  "tokens_with f x y = \<lparr>tk_in = wrap64 (f (tk_in x) (tk_in y)), tk_out = wrap64 (f (tk_out x) (tk_out y)),
     tk_read = wrap64 (f (tk_read x) (tk_read y)), tk_created = wrap64 (f (tk_created x) (tk_created y))\<rparr>"

definition usage_of :: "cli_result \<Rightarrow> cli_usage" where
  "usage_of r =
     (let u = fold (\<lambda>(m, x) y. tokens_with (+) y x) (cr_models r) (cr_usage r)
      in \<lparr>cu_tokens = if cr_models r \<noteq> [] then tokens_with (-) u (cr_usage r) else u,
          cu_turns = cr_turns r, cu_duration = cr_duration r\<rparr>)"

section \<open>Sending\<close>


record angel_env =
  ae_client :: bool
  ae_run :: "string \<Rightarrow> string + string"
  ae_result :: "string \<Rightarrow> cli_result option"
  ae_decode :: "string \<Rightarrow> angel_response option"
  ae_encode :: "angel_response \<Rightarrow> string"
  ae_indent :: "mission \<Rightarrow> string"
  ae_sha :: "string \<Rightarrow> string"



section \<open>The object is found\<close>

text \<open>A text that the scan passes at any depth.\<close>

definition passes :: "string \<Rightarrow> bool" where
  "passes t \<longleftrightarrow> (\<forall>n r. scan_braces (Suc n) (t @ r) = (case scan_braces (Suc n) r of None \<Rightarrow> None | Some u \<Rightarrow> Some (t @ u)))"

definition plain_char :: "char \<Rightarrow> bool" where
  "plain_char c \<longleftrightarrow> c \<noteq> OPENING \<and> c \<noteq> CLOSING \<and> c \<noteq> QUOTE"


lemma passes_Nil [simp]: "passes []"
  by (auto simp: passes_def split: option.splits)











lemma punct_plain [simp]: "plain_char CHR '',''" "plain_char CHR '':''" "plain_char CHR ''[''" "plain_char CHR '']''"
  by (simp_all add: plain_char_def json_marks)
















section \<open>The anchors hold\<close>

lemma provider_lines_same: "provider_lines p d = (case read_file_lines p d of Inl e \<Rightarrow> None | Inr ls \<Rightarrow> Some ls)"
  by (simp add: provider_lines_def read_file_lines_def split: sum.split)

lemma first_line_same: "first_line_with name ls = find_symbol_line name ls"
  by (simp add: first_line_with_def find_symbol_line_def)

definition angel_kinds :: "string list" where
  "angel_kinds = [''replace_span'', ''insert_after_symbol'', ''add_file'', ''delete_span'']"

lemma fix_anchor_fields [simp]:
  "eo_op (fix_anchor sha root d op) = eo_op op" "eo_path (fix_anchor sha root d op) = eo_path op"
  "eo_lines (fix_anchor sha root d op) = eo_lines op" "eo_symbol (fix_anchor sha root d op) = eo_symbol op"
  "eo_content (fix_anchor sha root d op) = eo_content op"
  by (auto simp: fix_anchor_def Let_def split: option.split)

lemma write_no_anchor: "write_file_lines p ls d \<noteq> Inl (E_Anchor x y)"
  by (auto simp: write_file_lines_def split: sum.split)

lemma read_no_anchor: "read_file_lines p d \<noteq> Inl (E_Anchor x y)"
  by (auto simp: read_file_lines_def split: sum.split)

lemma fixed_op_holds:
  assumes "eo_op op \<in> set angel_kinds" "reads d1 (path_join [root, eo_path op]) = reads d (path_join [root, eo_path op])"
  shows "fst (apply_op sha root (fix_anchor sha root d op) d1) \<noteq> Inl (E_Anchor x y)"
proof -
  let ?p = "path_join [root, eo_path op]" and ?f = "fix_anchor sha root d op"
  have r: "provider_lines ?p d = Some ls" if "read_file_lines ?p d1 = Inr ls" for ls
    using read_file_lines_same [OF that, of d] assms(2) by (simp add: provider_lines_same)
  have span: "eo_anchor ?f = compute_anchor_hash sha ls (eo_lines op ! 0) (eo_lines op ! 1)"
    if "eo_op op = ''replace_span'' \<or> eo_op op = ''delete_span''" "length (eo_lines op) = 2" "read_file_lines ?p d1 = Inr ls"
      "eo_lines op ! 1 \<le> int (length ls)" for ls
    using that r [OF that(3)] by (auto simp: fix_anchor_def Let_def)
  have sym: "eo_anchor ?f = compute_anchor_hash sha ls (int i + 1) (int i + 1)"
    if "eo_op op = ''insert_after_symbol''" "read_file_lines ?p d1 = Inr ls" "find_symbol_line (eo_symbol op) ls = Some i" for ls i
    using that r [OF that(2)] by (simp add: fix_anchor_def first_line_same)
  have "apply_replace_span sha ?p ?f d1 \<noteq> Inl (E_Anchor x y)" if "eo_op op = ''replace_span''"
    using that span read_no_anchor write_no_anchor by (auto simp: apply_replace_span_def anchored_write_def Let_def split: sum.split)
  moreover have "apply_delete_span sha ?p ?f d1 \<noteq> Inl (E_Anchor x y)" if "eo_op op = ''delete_span''"
    using that span read_no_anchor write_no_anchor by (auto simp: apply_delete_span_def anchored_write_def Let_def split: sum.split)
  moreover have "apply_insert_after_symbol sha ?p ?f d1 \<noteq> Inl (E_Anchor x y)" if "eo_op op = ''insert_after_symbol''"
    using that sym read_no_anchor write_no_anchor by (auto simp: apply_insert_after_symbol_def anchored_write_def split: sum.split option.split)
  moreover have "fst (apply_add_file ?p ?f d1) \<noteq> Inl (E_Anchor x y)"
    by (auto simp: apply_add_file_def split: sum.split)
  ultimately show ?thesis using assms(1) by (auto simp: apply_op_def angel_kinds_def with_disk_def Let_def)
qed

lemma fixed_ops_hold:
  assumes "list_all (\<lambda>op. eo_op op \<in> set angel_kinds) ops" "distinct (map (\<lambda>op. path_join [root, eo_path op]) ops)"
    "\<forall>op \<in> set ops. reads d1 (path_join [root, eo_path op]) = reads d (path_join [root, eo_path op])"
  shows "fst (apply_ops sha root i (map (fix_anchor sha root d) ops) r d1) \<noteq> Inl (k, E_Anchor x y)"
  using assms
proof (induction ops arbitrary: i r d1)
  case (Cons op ops)
  obtain v d2 where a: "apply_op sha root (fix_anchor sha root d op) d1 = (v, d2)" by (metis prod.exhaust)
  show ?case
  proof (cases v)
    case (Inl e)
    have "v \<noteq> Inl (E_Anchor x y)" using fixed_op_holds [of op d1 root d sha x y] Cons.prems(1,3) a by simp
    then show ?thesis using Inl a by simp
  next
    case (Inr u)
    have "reads d2 (path_join [root, eo_path o']) = reads d (path_join [root, eo_path o'])" if "o' \<in> set ops" for o'
    proof -
      have "path_join [root, eo_path o'] \<in> (\<lambda>op. path_join [root, eo_path op]) ` set ops" using that by (rule imageI)
      then have "path_join [root, eo_path o'] \<noteq> path_join [root, eo_path (fix_anchor sha root d op)]" using Cons.prems(2) by auto
      then show ?thesis using apply_op_frame [OF a] Cons.prems(3) that by simp
    qed
    then show ?thesis using Cons.IH Cons.prems(1,2) Inr a by simp
  qed
qed simp

text \<open> The anchors that the provider fills in hold: when the files are as they were when the answer came and no two
  operations, of the kinds that the prompt names, are for one file, applying them never fails at an anchor. So an
  anchor says nothing about what the model has seen. \<close>
theorem fixed_anchors_hold:
  assumes "list_all (\<lambda>op. eo_op op \<in> set angel_kinds) ops" "distinct (map (\<lambda>op. path_join [root, eo_path op]) ops)"
  shows "fst (apply_edit_ir sha root (map (fix_anchor sha root d) ops) d) \<noteq> Inl (k, E_Anchor x y)"
  unfolding apply_edit_ir_def using fixed_ops_hold [OF assms] by simp


definition ex_angel :: "string \<Rightarrow> angel_env" where
  "ex_angel text = \<lparr>ae_client = True, ae_run = (\<lambda>prompt. Inr ''out''),
     ae_result = (\<lambda>out. Some \<lparr>cr_text = text, cr_error = False, cr_duration = 5, cr_turns = 1,
        cr_usage = \<lparr>tk_in = 1, tk_out = 2, tk_read = 0, tk_created = 0\<rparr>,
        cr_models = [(''a'', \<lparr>tk_in = 10, tk_out = 20, tk_read = 0, tk_created = 0\<rparr>), (''b'', \<lparr>tk_in = 3, tk_out = 4, tk_read = 0, tk_created = 0\<rparr>)]\<rparr>),
     ae_decode = (\<lambda>s. Some \<lparr>ar_mission = ''m'', ar_type = ''diff_fallback'', ar_edit = None, ar_macro = None, ar_diff = s,
        ar_symbols = None, ar_files = None\<rparr>),
     ae_encode = ar_diff, ae_indent = mi_id, ae_sha = id\<rparr>"



definition ex_span :: "int \<Rightarrow> string \<Rightarrow> edit_op" where
  "ex_span n c = \<lparr>eo_op = ''replace_span'', eo_path = ''a'', eo_anchor = ''placeholder'', eo_lines = [n, n],
     eo_content = c, eo_symbol = [], eo_template = [], eo_instances = []\<rparr>"

theorem fixed_anchors_hold_witness:
  "fst (apply_edit_ir id ''r'' [fix_anchor id ''r'' (ex_repo ex_text) (ex_span 2 ''new'')] (ex_repo ex_text)) \<noteq> Inl (0, E_Anchor ''placeholder'' ''x'')"
  using fixed_anchors_hold [of "[ex_span 2 ''new'']" "''r''" id "ex_repo ex_text" 0 "''placeholder''" "''x''"]
  by (simp add: ex_span_def angel_kinds_def)

text \<open> Anchors are for the files as they were before all operations: of two operations for neighbouring lines, the
  first, when it changes its line, makes the second fail at its anchor, with the file changed by half of the answer. \<close>
theorem second_span_fails:
  assumes "read_file_lines p d = Inr (l # m # rest)" "p = path_join [root, path]" "\<not> List.member (d_dirs d) p"
    "split_content c = [n]" "n \<noteq> l" "inj sha"
    "ops = [(ex_span 1 c)\<lparr>eo_path := path\<rparr>, (ex_span 2 c')\<lparr>eo_path := path\<rparr>]"
  shows "\<exists>x y d'. apply_edit_ir sha root (map (fix_anchor sha root d) ops) d = (Inl (1, E_Anchor x y), d') \<and>
    read_file_lines p d' = Inr (n # m # rest)"
proof -
  let ?ls = "l # m # rest"
  let ?f1 = "fix_anchor sha root d ((ex_span 1 c)\<lparr>eo_path := path\<rparr>)" and ?f2 = "fix_anchor sha root d ((ex_span 2 c')\<lparr>eo_path := path\<rparr>)"
  have pl: "provider_lines (path_join [root, path]) d = Some ?ls" using assms(1,2) by (simp add: provider_lines_same)
  have a: "eo_anchor ?f1 = compute_anchor_hash sha ?ls 1 1" "eo_anchor ?f2 = compute_anchor_hash sha ?ls 2 2"
    using pl by (simp_all add: fix_anchor_def ex_span_def)
  obtain d' where w: "write_file_lines p (n # m # rest) d = Inr d'" using write_lines_exists [OF assms(1,3)] by blast
  have no: "\<forall>x \<in> set (n # m # rest). LF \<notin> set x"
    using read_file_lines_no_LF [OF assms(1)] split_content_no_LF [of n c] assms(4) by auto
  have r: "read_file_lines p d' = Inr (n # m # rest)" using read_after_write [OF w no] by simp
  have one: "apply_op sha root ?f1 d = (Inr d', d')"
    using assms(1,2,4) a(1) w by (simp add: apply_op_def ex_span_def apply_replace_span_def anchored_write_def with_disk_def)
  have "anchor_text (n # m # rest) 2 2 \<noteq> anchor_text ?ls 2 2" using assms(5) by (simp add: anchor_text_def anchor_line_def)
  then have h: "compute_anchor_hash sha (n # m # rest) 2 2 \<noteq> eo_anchor ?f2"
    using a(2) injD [OF assms(6)] by (auto simp: compute_anchor_hash_def)
  then have two: "apply_op sha root ?f2 d' = (Inl (E_Anchor (eo_anchor ?f2) (compute_anchor_hash sha (n # m # rest) 2 2)), d')"
    using r assms(2) by (simp add: apply_op_def ex_span_def apply_replace_span_def anchored_write_def with_disk_def Let_def)
  have "apply_edit_ir sha root (map (fix_anchor sha root d) ops) d =
      (Inl (1, E_Anchor (eo_anchor ?f2) (compute_anchor_hash sha (n # m # rest) 2 2)), d')"
    unfolding assms(7) apply_edit_ir_def using one two by simp
  with r show ?thesis by blast
qed

theorem second_span_fails_witness:
  "\<exists>x y d'. apply_edit_ir id ''r'' (map (fix_anchor id ''r'' (ex_repo ex_text)) [ex_span 1 ''u'', ex_span 2 ''v'']) (ex_repo ex_text) = (Inl (1, E_Anchor x y), d') \<and>
    read_file_lines ''r/a'' d' = Inr [''u'', ''y'', ''z'']"
proof -
  have "read_file_lines ''r/a'' (ex_repo ex_text) = Inr [''x'', ''y'', ''z'']" by code_simp
  moreover have "''r/a'' = path_join [''r'', ''a'']" by code_simp
  moreover have "\<not> List.member (d_dirs (ex_repo ex_text)) ''r/a''" by code_simp
  moreover have "split_content ''u'' = [''u'']" by code_simp
  ultimately show ?thesis
    by (rule second_span_fails) (simp_all add: ex_span_def)
qed

section \<open>Usage, files and the prompt\<close>

lemma wrap64_steps: "wrap64 (wrap64 a + b) = wrap64 (a + b)" "wrap64 (wrap64 a - b) = wrap64 (a - b)"
  using wrap64_wrap64 [of a b] wrap64_wrap64 [of a "- b"] by simp_all

lemma fold_tokens:
  assumes "ms \<noteq> []"
  shows "fold (\<lambda>(m, x) y. tokens_with (+) y x) ms u =
    \<lparr>tk_in = wrap64 (tk_in u + (\<Sum>x\<leftarrow>map snd ms. tk_in x)), tk_out = wrap64 (tk_out u + (\<Sum>x\<leftarrow>map snd ms. tk_out x)),
     tk_read = wrap64 (tk_read u + (\<Sum>x\<leftarrow>map snd ms. tk_read x)), tk_created = wrap64 (tk_created u + (\<Sum>x\<leftarrow>map snd ms. tk_created x))\<rparr>"
  using assms
proof (induction ms arbitrary: u)
  case (Cons m ms)
  then show ?case
    by (cases "ms = []") (simp_all add: case_prod_beta tokens_with_def wrap64_steps add.assoc)
qed simp

text \<open> Tokens are counted once: when the client reports them by model, what is kept is the sum over the models, in
  64 bits, whatever the totals of the last turn are. \<close>
theorem usage_is_sum:
  assumes "cr_models r \<noteq> []"
  shows "cu_tokens (usage_of r) =
    \<lparr>tk_in = wrap64 (\<Sum>x\<leftarrow>map snd (cr_models r). tk_in x), tk_out = wrap64 (\<Sum>x\<leftarrow>map snd (cr_models r). tk_out x),
     tk_read = wrap64 (\<Sum>x\<leftarrow>map snd (cr_models r). tk_read x), tk_created = wrap64 (\<Sum>x\<leftarrow>map snd (cr_models r). tk_created x)\<rparr>"
  using assms fold_tokens [OF assms] by (simp add: usage_of_def tokens_with_def wrap64_steps)

theorem usage_is_sum_witness:
  "cu_tokens (usage_of (the (ae_result (ex_angel []) []))) = \<lparr>tk_in = 13, tk_out = 24, tk_read = 0, tk_created = 0\<rparr>"
  using usage_is_sum [of "the (ae_result (ex_angel []) [])"] by (simp add: ex_angel_def wrap64_def)

definition source_file :: "path \<times> entry \<Rightarrow> bool" where
  "source_file x \<longleftrightarrow> snd x = Plain_File \<and> path_ext (fst x) \<in> {''.py'', ''.md''}"

definition scanned :: "path \<Rightarrow> path \<Rightarrow> entry \<Rightarrow> path list \<Rightarrow> path list" where
  "scanned root p e files = (if source_file (p, e) then files @ [path_below root p] else files)"

lemma scan_entry_collects:
  "scan_entry root = collects (\<lambda>p. path_base p \<in> {''.git'', ''.genesis'', ''__pycache__'', ''node_modules''}) (scanned root)"
  by (intro ext) (auto simp: scan_entry_def collects_def stopping_def scanned_def source_file_def split: entry.split)

text \<open> The search for sources finds the Python and Markdown files, in order, by their paths below the root, outside
  the four directories that it skips. \<close>
theorem scan_finds_sources:
  "scan_source_files root t =
     map (path_below root \<circ> fst) (filter source_file
       (visited (\<lambda>p. path_base p \<in> {''.git'', ''.genesis'', ''__pycache__'', ''node_modules''}) root t))"
proof -
  have "fold (\<lambda>(p, e). scanned root p e) xs fs =
      fs @ map (path_below root \<circ> fst) (filter source_file xs)" for xs fs
    by (induction xs arbitrary: fs) (auto simp: scanned_def)
  then show ?thesis
    unfolding scan_source_files_def scan_entry_collects walk_collects by simp
qed

lemma add_path_keeps: "distinct ps \<Longrightarrow> distinct (add_path p ps)" "set (add_path p ps) = insert p (set ps)"
  by (auto simp: add_path_def)

text \<open> Every file that the mission names is in the prompt once: the paths are distinct, and the files among the
  scopes are all there, before what the repository holds is looked at. \<close>
theorem scoped_files_collected:
  assumes "s \<in> set (mi_scopes (mp_mission pack))" "sc_type s = ''file''"
  shows "distinct (collect_file_paths root t pack) \<and> sc_value s \<in> set (collect_file_paths root t pack)"
proof -
  let ?f = "\<lambda>s. add_named (content_path (pk_content s)) \<circ> add_named (meta_path (pk_meta s))"
  let ?g = "\<lambda>s. if sc_type s = ''file'' then add_path (sc_value s) else id"
  have f0: "distinct ps \<Longrightarrow> distinct (fold ?f ss ps)" for ss ps
    by (induction ss arbitrary: ps) (auto simp: add_named_def add_path_keeps)
  have f: "distinct (fold ?f (mp_shards pack) [])" by (rule f0) simp
  have g: "distinct ps \<Longrightarrow> distinct (fold ?g ss ps)" "set (fold ?g ss ps) = set ps \<union> sc_value ` {s \<in> set ss. sc_type s = ''file''}" for ss ps
    by (induction ss arbitrary: ps) (auto simp: add_path_keeps)
  have "sc_value s \<in> set (fold ?g (mi_scopes (mp_mission pack)) (fold ?f (mp_shards pack) []))" using g(2) assms by auto
  then show ?thesis using g(1) [OF f] by (auto simp: collect_file_paths_def Let_def)
qed


theorem scoped_files_collected_witness:
  "\<forall>pack. let p = pack\<lparr>mp_mission := (mp_mission pack)\<lparr>mi_scopes := [\<lparr>sc_type = ''file'', sc_value = ''a.go''\<rparr>]\<rparr>\<rparr>
     in ''a.go'' \<in> set (collect_file_paths ''/r'' (Leaf ''r'') p)"
  using scoped_files_collected [of "\<lparr>sc_type = ''file'', sc_value = ''a.go''\<rparr>"] by (simp add: Let_def)

end
