(* ===== verification/Agent_Listing.thy ===== *)
theory Agent_Listing
  imports Dir_Tree "HOL-Library.Sublist"
begin

text \<open>
  The tool that lists a directory, \<open>cli/internal/llm/tools/ls.go\<close>: the walk that collects up to a limit of entries,
  and the tree that is built from their paths and printed. The nodes of the tree are shared through pointers in the
  code; here they are the values of a map from paths, with children named by their keys. \<open>filepath.Match\<close> is a
  parameter, \<open>None\<close> for a bad pattern.
\<close>

section \<open>What is listed\<close>

definition skipped_names :: "string list" where
  "skipped_names = [''__pycache__'', ''node_modules'', ''dist'', ''build'', ''target'', ''vendor'', ''bin'', ''obj'', ''.git'', ''.idea'',
     ''.vscode'', ''.DS_Store'']"

definition skipped_suffixes :: "string list" where
  "skipped_suffixes = [''.pyc'', ''.pyo'', ''.pyd'', ''.so'', ''.dll'', ''.exe'']"

definition should_skip :: "(string \<Rightarrow> string \<Rightarrow> bool option) \<Rightarrow> string list \<Rightarrow> path \<Rightarrow> bool" where
  "should_skip match patterns p =
     (let base = path_base p
      in (base \<noteq> ''.'' \<and> has_prefix base ''.'') \<or> contains p ''__pycache__'' \<or> List.member skipped_names base
         \<or> list_ex (has_suffix base) skipped_suffixes \<or> list_ex (\<lambda>x. match x base = Some True) patterns)"

definition list_entry ::
  "(path \<Rightarrow> bool) \<Rightarrow> path \<Rightarrow> nat \<Rightarrow> path \<Rightarrow> entry \<Rightarrow> path list \<times> bool \<Rightarrow> verdict \<times> path list \<times> bool" where
  "list_entry skip root limit p e s =
     (if e = Unreadable then (Go_On, s)
      else if skip p then (if e = Directory then Skip_Dir else Go_On, s)
      else let results = (if p \<noteq> root then fst s @ [if e = Directory then p @ ''/'' else p] else fst s)
        in if limit \<le> length results then (Stop_Walk, results, True) else (Go_On, results, snd s))"

text \<open>The directory, which \<open>Lstat\<close> may not find.\<close>

definition list_directory :: "(path \<Rightarrow> bool) \<Rightarrow> path \<Rightarrow> tree option \<Rightarrow> nat \<Rightarrow> path list \<times> bool" where
  "list_directory skip root t limit =
     (case t of None \<Rightarrow> ([], False) | Some t \<Rightarrow> walk_from (list_entry skip root limit) root t ([], False))"

section \<open>The tree\<close>

record tree_node =
  tn_name :: string
  tn_dir :: bool
  tn_children :: "path list"

record file_tree =
  ft_root :: "path list"
  ft_nodes :: "(path \<times> tree_node) list"

fun add_parts :: "bool \<Rightarrow> path \<Rightarrow> path \<Rightarrow> bool \<Rightarrow> string list \<Rightarrow> file_tree \<Rightarrow> file_tree" where
  "add_parts slash current parent first [] ft = ft"
| "add_parts slash current parent first (x # xs) ft =
     (let current' = (if current = [] then x else path_join [current, x])
      in if map_of (ft_nodes ft) current' \<noteq> None then add_parts slash current' current' False xs ft
         else
           let n = \<lparr>tn_name = x, tn_dir = xs \<noteq> [] \<or> slash, tn_children = []\<rparr>;
               ft1 = ft\<lparr>ft_nodes := aput current' n (ft_nodes ft)\<rparr>;
               ft2 = (if \<not> first \<and> parent \<noteq> []
                      then (case map_of (ft_nodes ft1) parent of
                              None \<Rightarrow> ft1
                            | Some m \<Rightarrow> ft1\<lparr>ft_nodes := aput parent (m\<lparr>tn_children := tn_children m @ [current']\<rparr>) (ft_nodes ft1)\<rparr>)
                      else ft1\<lparr>ft_root := ft_root ft1 @ [current']\<rparr>)
           in add_parts slash current' current' False xs ft2)"

definition path_parts :: "path \<Rightarrow> string list" where
  "path_parts p = filter (\<lambda>x. x \<noteq> []) (split_on CHR ''/'' p)"

definition add_listed :: "path \<Rightarrow> file_tree \<Rightarrow> file_tree" where
  "add_listed p ft = add_parts (has_suffix p ''/'') [] [] True (path_parts p) ft"

definition create_file_tree :: "path list \<Rightarrow> file_tree" where
  "create_file_tree ps = fold add_listed ps \<lparr>ft_root = [], ft_nodes = []\<rparr>"

definition node_line :: "nat \<Rightarrow> string \<Rightarrow> bool \<Rightarrow> string" where
  "node_line level name dir = List.concat (replicate level ''  '') @ ''- '' @ name @ (if dir then ''/'' else []) @ ''\<newline>''"

text \<open>A node has one parent and was made after it, so a chain of nodes is no longer than their number.\<close>

fun print_node :: "nat \<Rightarrow> nat \<Rightarrow> (path \<times> tree_node) list \<Rightarrow> path \<Rightarrow> string" where
  "print_node 0 level ns k = []"
| "print_node (Suc fuel) level ns k =
     (case map_of ns k of
        None \<Rightarrow> []
      | Some n \<Rightarrow> node_line level (tn_name n) (tn_dir n) @
          (if tn_dir n then List.concat (map (print_node fuel (Suc level) ns) (tn_children n)) else []))"

definition print_tree :: "file_tree \<Rightarrow> path \<Rightarrow> string" where
  "print_tree ft root =
     ''- '' @ root @ ''/\<newline>'' @ List.concat (map (print_node (length (ft_nodes ft)) 1 (ft_nodes ft)) (ft_root ft))"

section \<open>The tool\<close>

datatype ls_reply = Ls_Error string | Ls_Text string nat bool

definition max_ls_files :: nat where
  "max_ls_files = 1000"

definition ls_search_path :: "path \<Rightarrow> path \<Rightarrow> path" where
  "ls_search_path wd p = (let p = (if p = [] then wd else p) in if rooted p then p else path_join [wd, p])"

definition ls_run ::
  "(string \<Rightarrow> string \<Rightarrow> bool option) \<Rightarrow> path \<Rightarrow> (path \<Rightarrow> bool) \<Rightarrow> (path \<Rightarrow> tree option) \<Rightarrow> path \<Rightarrow> string list \<Rightarrow> ls_reply" where
  "ls_run match wd exists look p ignore =
     (let p = ls_search_path wd p
      in if \<not> exists p then Ls_Error (''path does not exist: '' @ p)
         else let (files, truncated) = list_directory (should_skip match ignore) p (look p) max_ls_files;
                  output = print_tree (create_file_tree files) p;
                  k = nat_str max_ls_files
           in Ls_Text (if truncated
                then ''There are more than '' @ k @ '' files in the directory. Use a more specific path or use the Glob tool to find specific files. The first '' @ k
                  @ '' files and directories are included below:\<newline>\<newline>'' @ output
                else output) (length files) truncated)"

section \<open>The listing\<close>

definition listed :: "(path \<Rightarrow> bool) \<Rightarrow> path \<Rightarrow> path \<times> entry \<Rightarrow> bool" where
  "listed skip root x \<longleftrightarrow> snd x \<noteq> Unreadable \<and> \<not> skip (fst x) \<and> fst x \<noteq> root"

definition shown_path :: "path \<times> entry \<Rightarrow> path" where
  "shown_path x = (if snd x = Directory then fst x @ ''/'' else fst x)"

definition entry_step ::
  "(path \<Rightarrow> bool) \<Rightarrow> path \<Rightarrow> nat \<Rightarrow> path \<Rightarrow> entry \<Rightarrow> path list \<times> bool \<Rightarrow> bool \<times> path list \<times> bool" where
  "entry_step skip root limit p e s =
     (if e = Unreadable \<or> skip p then (False, s)
      else let results = (if p \<noteq> root then fst s @ [shown_path (p, e)] else fst s)
        in if limit \<le> length results then (True, results, True) else (False, results, snd s))"

lemma list_entry_stopping: "list_entry skip root limit = stopping skip (entry_step skip root limit)"
  by (intro ext) (auto simp: list_entry_def stopping_def entry_step_def shown_path_def Let_def)

lemma handle_listing:
  assumes "length rs < limit"
  shows "snd (handle (entry_step skip root limit) xs (rs, False)) =
    (let found = rs @ map shown_path (filter (listed skip root) xs) in (take limit found, limit \<le> length found))"
  using assms
proof (induction xs arbitrary: rs)
  case (Cons x xs)
  obtain p e where x: "x = (p, e)" by (cases x)
  show ?case
  proof (cases "listed skip root x")
    case True
    then show ?thesis using Cons.IH [of "rs @ [shown_path x]"] Cons.prems x
      by (auto simp: listed_def entry_step_def Let_def take_Cons')
  next
    case False
    then show ?thesis using Cons.IH [of rs] Cons.prems x by (auto simp: listed_def entry_step_def Let_def)
  qed
qed simp

text \<open> A listing is cut, never wrong: it has the first entries, up to the limit, of those that are not skipped, in
  the order of the walk, and says that it is cut exactly when there are as many as the limit. \<close>
theorem listing_is_a_prefix:
  assumes "0 < limit"
  shows "list_directory skip root (Some t) limit =
    (let found = map shown_path (filter (listed skip root) (visited skip root t)) in (take limit found, limit \<le> length found))"
proof -
  have "snd (case handle g xs s of (b, s1) \<Rightarrow> (if b then Stop_Walk else Go_On, s1)) = snd (handle g xs s)" for g xs and s :: "path list \<times> bool"
    by (simp add: case_prod_beta)
  then show ?thesis using handle_listing [of "[]" limit skip root "visited skip root t"] assms
    by (auto simp: list_directory_def walk_from_def list_entry_stopping walk_stopping Let_def)
qed

theorem listing_is_a_prefix_witness:
  "list_directory (should_skip (\<lambda>x y. None) []) ''/r'' (Some (Branch ''r'' True [Leaf ''a'', Branch ''b'' True [Leaf ''.x'', Leaf ''c'']])) 2 =
     ([''/r/a'', ''/r/b/''], True)"
proof -
  let ?t = "Branch ''r'' True [Leaf ''a'', Branch ''b'' True [Leaf ''.x'', Leaf ''c'']]" and ?s = "should_skip (\<lambda>x y. None) []"
  have "map shown_path (filter (listed ?s ''/r'') (visited ?s ''/r'' ?t)) = [''/r/a'', ''/r/b/'', ''/r/b/c'']" by code_simp
  then show ?thesis using listing_is_a_prefix [of 2 ?s "''/r''" ?t] by (simp add: Let_def)
qed

text \<open> A directory whose own name is skipped lists as empty: the test does not spare the directory that was asked
  for, so \<open>vendor\<close>, \<open>build\<close>, \<open>bin\<close> or \<open>.config\<close> show nothing. \<close>
theorem skipped_root_is_empty:
  assumes "should_skip match ignore root"
  shows "list_directory (should_skip match ignore) root (Some (Branch x readable ts)) limit = ([], False)"
  using assms by (simp add: list_directory_def walk_from_def list_entry_def)

theorem skipped_root_is_empty_witness:
  "list_directory (should_skip (\<lambda>x y. None) []) ''/r/vendor'' (Some (Branch ''vendor'' True [Leaf ''a.go''])) 1000 = ([], False)"
  by (rule skipped_root_is_empty) code_simp


section \<open>The tree shows the paths\<close>

text \<open>The names of the first level in the order in which they first appear, whether the first path through a name is to
  a directory, what lies below, and the nested listing of it all.\<close>

definition firsts :: "'a list \<Rightarrow> 'a list" where
  "firsts xs = fold (\<lambda>x acc. if x \<in> set acc then acc else acc @ [x]) xs []"




lemma firsts_snoc [simp]: "firsts [] = []" "firsts (xs @ [x]) = (if x \<in> set (firsts xs) then firsts xs else firsts xs @ [x])"
  by (simp_all add: firsts_def)

lemma set_firsts [simp]: "set (firsts xs) = set xs"
  by (induction xs rule: rev_induct) auto




text \<open>Below a chain of names, and the node that the map has for it.\<close>

definition below :: "string list \<Rightarrow> (string list \<times> bool) list \<Rightarrow> (string list \<times> bool) list" where
  "below x ps = map (apfst (drop (length x))) (filter (\<lambda>c. prefix x (fst c)) ps)"













lemma below_Nil [simp]: "below [] ps = ps"
  by (induction ps) (auto simp: below_def)



















end
