(* ===== verification/Agent_Search.thy ===== *)
theory Agent_Search
  imports Dir_Tree Agent_Shell "HOL-Library.Multiset"
begin

text \<open>
  The tools that search, \<open>cli/internal/llm/tools/grep.go\<close> and \<open>glob.go\<close>, with \<open>cli/internal/fileutil/fileutil.go\<close>. The
  program \<open>rg\<close>, the regular expressions, the walk of the glob library and the sort by time, which is not stable, are
  parameters. A time is a number; a file that cannot be read has none.
\<close>

section \<open>Hidden paths\<close>

definition ignored_dirs :: "string list" where
  "ignored_dirs = [''.opencode'', ''node_modules'', ''vendor'', ''dist'', ''build'', ''target'', ''.git'', ''.idea'', ''.vscode'', ''__pycache__'',
     ''bin'', ''obj'', ''out'', ''coverage'', ''tmp'', ''temp'', ''logs'', ''generated'', ''bower_components'', ''jspm_packages'']"

definition skip_hidden :: "path \<Rightarrow> bool" where
  "skip_hidden p =
     ((path_base p \<noteq> ''.'' \<and> has_prefix (path_base p) ''.'') \<or> list_ex (List.member ignored_dirs) (split_on CHR ''/'' p))"

section \<open>Patterns\<close>

definition special_chars :: string where
  "special_chars = BACKSLASH # ''.+*?()[]{}^$|''"

definition escape_regex_pattern :: "string \<Rightarrow> string" where
  "escape_regex_pattern pattern = fold (\<lambda>c s. replace_all s [c] [BACKSLASH, c]) special_chars pattern"

text \<open>The matches of \<open>{([^}]+)}\<close>, leftmost first, become alternatives.\<close>

function glob_braces :: "string \<Rightarrow> string" where
  "glob_braces [] = []"
| "glob_braces (c # s) =
     (let inner = takeWhile (\<lambda>x. x \<noteq> CHR ''}'') s; rest = dropWhile (\<lambda>x. x \<noteq> CHR ''}'') s
      in if c = CHR ''{'' \<and> inner \<noteq> [] \<and> rest \<noteq> []
         then ''('' @ replace_all inner '','' ''|'' @ '')'' @ glob_braces (tl rest)
         else c # glob_braces s)"
  by pat_completeness auto
termination
  by (relation "measure length") (auto simp: length_dropWhile_le less_Suc_eq_le le_trans [OF diff_le_self])

definition glob_to_regex :: "string \<Rightarrow> string" where
  "glob_to_regex glob =
     glob_braces (replace_all (replace_all (replace_all glob ''.'' [BACKSLASH, CHR ''.'']) ''*'' ''.*'') ''?'' ''.'')"

section \<open>Searching contents\<close>

record grep_match =
  gm_path :: path
  gm_time :: int
  gm_line :: int
  gm_text :: string

text \<open>What a search sees: the text of files, their times, and the run of \<open>rg\<close>: \<open>None\<close> when there is none or it fails,
  otherwise its output, empty when it finds nothing.\<close>

record search_world =
  sw_read :: "path \<Rightarrow> string option"
  sw_time :: "path \<Rightarrow> int option"
  sw_rg :: "string list \<Rightarrow> string option"
  sw_compile :: "string \<Rightarrow> (string \<Rightarrow> bool) option"
  sw_sort :: "grep_match list \<Rightarrow> grep_match list"

definition rg_args :: "string \<Rightarrow> path \<Rightarrow> string \<Rightarrow> string list" where
  "rg_args pattern p include =
     [''-H'', ''-n'', pattern] @ (if include \<noteq> [] then [''--glob'', include] else []) @ [p]"

text \<open>One line of the output: file, line number and text, separated by colons.\<close>

definition parse_rg_line :: "(path \<Rightarrow> int option) \<Rightarrow> string \<Rightarrow> grep_match list" where
  "parse_rg_line time line =
     (case split2 CHR '':'' line of
        (p, Some r) \<Rightarrow>
          (case split2 CHR '':'' r of
             (n, Some text) \<Rightarrow>
               (case (atoi n, time p) of
                  (Some k, Some t) \<Rightarrow> [\<lparr>gm_path = p, gm_time = t, gm_line = k, gm_text = text\<rparr>]
                | _ \<Rightarrow> [])
           | _ \<Rightarrow> [])
      | _ \<Rightarrow> [])"

definition parse_rg_output :: "(path \<Rightarrow> int option) \<Rightarrow> string \<Rightarrow> grep_match list" where
  "parse_rg_output time output =
     List.concat (map (\<lambda>l. if l = [] then [] else parse_rg_line time l) (split_on LF (trim_space output)))"

definition search_with_ripgrep :: "search_world \<Rightarrow> string \<Rightarrow> path \<Rightarrow> string \<Rightarrow> grep_match list option" where
  "search_with_ripgrep w pattern p include = map_option (parse_rg_output (sw_time w)) (sw_rg w (rg_args pattern p include))"

text \<open>The scanner drops a carriage return at the end of a line and fails at a line that fills its buffer.\<close>

definition scan_max :: nat where
  "scan_max = 64 * 1024"

definition drop_cr :: "string \<Rightarrow> string" where
  "drop_cr l = trim_suffix l [CR]"

fun first_match :: "(string \<Rightarrow> bool) \<Rightarrow> int \<Rightarrow> string list \<Rightarrow> (int \<times> string) option" where
  "first_match rx n [] = None"
| "first_match rx n (l # ls) =
     (if scan_max \<le> length l then None
      else if rx (drop_cr l) then Some (n + 1, drop_cr l) else first_match rx (n + 1) ls)"

definition file_lines :: "string \<Rightarrow> string list" where
  "file_lines c = (let ls = split_on LF c in if last ls = [] then butlast ls else ls)"

definition file_contains_pattern :: "search_world \<Rightarrow> path \<Rightarrow> (string \<Rightarrow> bool) \<Rightarrow> (int \<times> string) option" where
  "file_contains_pattern w p rx = (case sw_read w p of None \<Rightarrow> None | Some c \<Rightarrow> first_match rx 0 (file_lines c))"

definition max_found :: nat where
  "max_found = 200"

definition grep_entry ::
  "search_world \<Rightarrow> (string \<Rightarrow> bool) \<Rightarrow> (string \<Rightarrow> bool) option \<Rightarrow> path \<Rightarrow> entry \<Rightarrow> grep_match list \<Rightarrow> verdict \<times> grep_match list" where
  "grep_entry w rx include p e ms =
     (if e \<noteq> Plain_File then (Go_On, ms)
      else if skip_hidden p then (Go_On, ms)
      else if (case include of None \<Rightarrow> False | Some inc \<Rightarrow> \<not> inc p) then (Go_On, ms)
      else case file_contains_pattern w p rx of
        None \<Rightarrow> (Go_On, ms)
      | Some (n, text) \<Rightarrow>
          (let ms' = ms @ [\<lparr>gm_path = p, gm_time = (case sw_time w p of Some t \<Rightarrow> t | None \<Rightarrow> 0), gm_line = n, gm_text = text\<rparr>]
           in (if max_found \<le> length ms' then Stop_Walk else Go_On, ms')))"

datatype search_error = Bad_Pattern | Bad_Include

definition search_files_with_regex ::
  "search_world \<Rightarrow> string \<Rightarrow> path \<Rightarrow> tree option \<Rightarrow> string \<Rightarrow> search_error + grep_match list" where
  "search_files_with_regex w pattern root t include =
     (case sw_compile w pattern of
        None \<Rightarrow> Inl Bad_Pattern
      | Some rx \<Rightarrow>
          (let inc = (if include \<noteq> [] then map_option Some (sw_compile w (glob_to_regex include)) else Some None)
           in case inc of
                None \<Rightarrow> Inl Bad_Include
              | Some f \<Rightarrow> Inr (case t of None \<Rightarrow> [] | Some t \<Rightarrow> walk_from (grep_entry w rx f) root t [])))"

definition search_files ::
  "search_world \<Rightarrow> string \<Rightarrow> path \<Rightarrow> tree option \<Rightarrow> string \<Rightarrow> nat \<Rightarrow> search_error + (grep_match list \<times> bool)" where
  "search_files w pattern root t include limit =
     (case (case search_with_ripgrep w pattern root include of
              Some ms \<Rightarrow> Inr ms | None \<Rightarrow> search_files_with_regex w pattern root t include) of
        Inl e \<Rightarrow> Inl e
      | Inr ms \<Rightarrow> (let ms = sw_sort w ms in Inr (take limit ms, limit < length ms)))"

fun grep_text :: "path \<Rightarrow> grep_match list \<Rightarrow> string" where
  "grep_text current [] = []"
| "grep_text current (m # ms) =
     (if current \<noteq> gm_path m then (if current \<noteq> [] then ''\<newline>'' else []) @ gm_path m @ '':\<newline>'' else []) @
     (if gm_line m > 0 then ''  Line '' @ itoa (gm_line m) @ '': '' @ gm_text m @ ''\<newline>'' else ''  '' @ gm_path m @ ''\<newline>'') @
     grep_text (gm_path m) ms"

datatype search_reply = Search_Error string | Search_Failed search_error | Search_Text string nat bool

definition truncated_note :: string where
  "truncated_note = ''(Results are truncated. Consider using a more specific path or pattern.)''"

definition grep_run ::
  "search_world \<Rightarrow> path \<Rightarrow> (path \<Rightarrow> tree option) \<Rightarrow> string \<Rightarrow> path \<Rightarrow> string \<Rightarrow> bool \<Rightarrow> search_reply" where
  "grep_run w wd look pattern p include literal =
     (if pattern = [] then Search_Error ''pattern is required''
      else
        let pat = (if literal then escape_regex_pattern pattern else pattern);
            root = (if p = [] then wd else p)
        in case search_files w pat root (look root) include 100 of
             Inl e \<Rightarrow> Search_Failed e
           | Inr (ms, truncated) \<Rightarrow>
               Search_Text (if ms = [] then ''No files found''
                 else ''Found '' @ nat_str (length ms) @ '' matches\<newline>'' @ grep_text [] ms @ (if truncated then ''\<newline>'' @ truncated_note else []))
                 (length ms) truncated)"

section \<open>Searching names\<close>

definition rg_pattern :: "string \<Rightarrow> string" where
  "rg_pattern pattern = (if \<not> rooted pattern then ''/'' @ pattern else pattern)"

definition rg_files_args :: "string \<Rightarrow> string list" where
  "rg_files_args pattern = [''--files'', ''-L'', ''--null''] @ (if pattern \<noteq> [] then [''--glob'', rg_pattern pattern] else [])"

text \<open>The outcome of \<open>rg\<close>: its output, or its exit code.\<close>

definition run_ripgrep :: "string + int \<Rightarrow> path \<Rightarrow> nat \<Rightarrow> path list option" where
  "run_ripgrep outcome root limit =
     (case outcome of
        Inr code \<Rightarrow> (if code = 1 then Some [] else None)
      | Inl out \<Rightarrow>
          (let ps = map (\<lambda>p. if rooted p then p else path_join [root, p]) (filter (\<lambda>p. p \<noteq> []) (split_on (CHR 0x00) out));
               ms = sort_key length (filter (\<lambda>p. \<not> skip_hidden p) ps)
           in Some (if 0 < limit then take limit ms else ms)))"

record glob_file =
  gl_path :: path
  gl_dir :: bool
  gl_time :: "int option"

text \<open>The walk of the library gives entries below the root; the callback stops it at twice the limit.\<close>

fun glob_collect :: "path \<Rightarrow> nat \<Rightarrow> glob_file list \<Rightarrow> (path \<times> int) list \<Rightarrow> (path \<times> int) list" where
  "glob_collect root limit [] ms = ms"
| "glob_collect root limit (x # xs) ms =
     (if gl_dir x \<or> skip_hidden (gl_path x) then glob_collect root limit xs ms
      else case gl_time x of
        None \<Rightarrow> glob_collect root limit xs ms
      | Some t \<Rightarrow>
          (let abs = (if (\<not> has_prefix (gl_path x) root \<and> root \<noteq> ''.'') \<or> (\<not> has_prefix (gl_path x) ''/'' \<and> root = ''.'')
                      then path_join [root, gl_path x] else gl_path x);
               ms' = ms @ [(abs, t)]
           in if 0 < limit \<and> limit * 2 \<le> length ms' then ms' else glob_collect root limit xs ms'))"

definition glob_with_doublestar ::
  "((path \<times> int) list \<Rightarrow> (path \<times> int) list) \<Rightarrow> path \<Rightarrow> nat \<Rightarrow> glob_file list option \<Rightarrow> (path list \<times> bool) option" where
  "glob_with_doublestar newest root limit found =
     (case found of
        None \<Rightarrow> None
      | Some xs \<Rightarrow>
          (let ms = newest (glob_collect root limit xs []); cut = 0 < limit \<and> limit < length ms
           in Some (map fst (if cut then take limit ms else ms), cut)))"

record glob_world =
  gw_rg :: "path \<Rightarrow> string list \<Rightarrow> (string + int) option"
  gw_walk :: "path \<Rightarrow> string \<Rightarrow> glob_file list option"
  gw_newest :: "(path \<times> int) list \<Rightarrow> (path \<times> int) list"

definition glob_files :: "glob_world \<Rightarrow> string \<Rightarrow> path \<Rightarrow> nat \<Rightarrow> (path list \<times> bool) option" where
  "glob_files w pattern root limit =
     (case (case gw_rg w root (rg_files_args pattern) of None \<Rightarrow> None | Some outcome \<Rightarrow> run_ripgrep outcome root limit) of
        Some ms \<Rightarrow> Some (ms, limit \<le> length ms \<and> 0 < limit)
      | None \<Rightarrow> glob_with_doublestar (gw_newest w) root limit (gw_walk w root (trim_prefix pattern ''/'')))"

datatype glob_reply = Glob_Error string | Glob_Failed | Glob_Text string nat bool

definition glob_run :: "glob_world \<Rightarrow> path \<Rightarrow> string \<Rightarrow> path \<Rightarrow> glob_reply" where
  "glob_run w wd pattern p =
     (if pattern = [] then Glob_Error ''pattern is required''
      else case glob_files w pattern (if p = [] then wd else p) 100 of
        None \<Rightarrow> Glob_Failed
      | Some (files, truncated) \<Rightarrow>
          Glob_Text (if files = [] then ''No files found''
            else join_with ''\<newline>'' files @ (if truncated then ''\<newline>\<newline>'' @ truncated_note else [])) (length files) truncated)"


section \<open>Literal patterns\<close>

text \<open>How a regular expression without operators reads: a special character stands for itself after a backslash.\<close>

fun read_literal :: "string \<Rightarrow> string option" where
  "read_literal [] = Some []"
| "read_literal [c] = (if c \<in> set special_chars then None else Some [c])"
| "read_literal (c # d # s) =
     (if c = BACKSLASH then (if d \<in> set special_chars then map_option (Cons d) (read_literal s) else None)
      else if c \<in> set special_chars then None else map_option (Cons c) (read_literal (d # s)))"

definition escape_with :: "string \<Rightarrow> string \<Rightarrow> string" where
  "escape_with cs s = List.concat (map (\<lambda>c. if c \<in> set cs then [BACKSLASH, c] else [c]) s)"

lemma escape_next:
  assumes "c \<notin> set cs" "BACKSLASH \<in> set cs"
  shows "replace_all (escape_with cs s) [c] [BACKSLASH, c] = escape_with (c # cs) s"
proof -
  have "BACKSLASH \<noteq> c" using assms by auto
  then have "List.concat (map (\<lambda>x. if x = c then [BACKSLASH, c] else [x]) (escape_with cs s)) = escape_with (c # cs) s"
    using assms(1) by (induction s) (auto simp: escape_with_def)
  then show ?thesis by (simp add: replace_byte)
qed

lemma escape_all:
  "distinct (rev cs @ ds) \<Longrightarrow> BACKSLASH \<in> set ds \<Longrightarrow> fold (\<lambda>c s. replace_all s [c] [BACKSLASH, c]) cs (escape_with ds s) = escape_with (rev cs @ ds) s"
  by (induction cs arbitrary: ds) (auto simp: escape_next)

lemma escape_set: "set cs = set ds \<Longrightarrow> escape_with cs s = escape_with ds s"
  by (simp add: escape_with_def)

lemma escape_regex_chars: "escape_regex_pattern p = escape_with special_chars p"
proof -
  have "replace_all p [BACKSLASH] [BACKSLASH, BACKSLASH] = escape_with [BACKSLASH] p"
    by (simp add: replace_byte escape_with_def cong: map_cong) (metis (mono_tags, lifting))
  moreover have "distinct (rev ''.+*?()[]{}^$|'' @ [BACKSLASH])" by simp
  ultimately have "escape_regex_pattern p = escape_with (rev ''.+*?()[]{}^$|'' @ [BACKSLASH]) p"
    using escape_all [of "''.+*?()[]{}^$|''" "[BACKSLASH]" p] by (simp add: escape_regex_pattern_def special_chars_def)
  also have "set (rev cs @ [c]) = set (c # cs)" for cs and c :: char by simp
  then have "escape_with (rev ''.+*?()[]{}^$|'' @ [BACKSLASH]) p = escape_with special_chars p"
    unfolding special_chars_def by (rule escape_set)
  finally show ?thesis .
qed

text \<open> A literal search is literal: however many special characters a text has, backslashes included, the pattern that
  is made of it, one replacement after the other, reads as this text. \<close>
theorem escaped_pattern_is_literal: "read_literal (escape_regex_pattern p) = Some p"
proof -
  have "BACKSLASH \<in> set special_chars" by (simp add: special_chars_def)
  then have "read_literal (escape_with special_chars p) = Some p"
  proof (induction p)
    case (Cons c p)
    show ?case
    proof (cases "c \<in> set special_chars")
      case False
      then have "c \<noteq> BACKSLASH" using Cons.prems by auto
      moreover have "escape_with special_chars (c # p) = c # escape_with special_chars p" using False by (simp add: escape_with_def)
      ultimately show ?thesis using False Cons by (cases "escape_with special_chars p") simp_all
    next
      case True
      then have "escape_with special_chars (c # p) = BACKSLASH # c # escape_with special_chars p" by (simp add: escape_with_def)
      then show ?thesis using True Cons by simp
    qed
  qed (simp add: escape_with_def)
  then show ?thesis by (simp add: escape_regex_chars)
qed

section \<open>The output of rg is read back\<close>

definition rg_line :: "grep_match \<Rightarrow> string" where
  "rg_line m = gm_path m @ '':'' @ itoa (gm_line m) @ '':'' @ gm_text m"

definition rg_output :: "grep_match list \<Rightarrow> string" where
  "rg_output ms = List.concat (map (\<lambda>m. rg_line m @ ''\<newline>'') ms)"

definition rg_plain :: "(path \<Rightarrow> int option) \<Rightarrow> grep_match \<Rightarrow> bool" where
  "rg_plain time m \<longleftrightarrow> CHR '':'' \<notin> set (gm_path m) \<and> LF \<notin> set (gm_path m) \<and> LF \<notin> set (gm_text m) \<and> in_int64 (gm_line m)
     \<and> time (gm_path m) = Some (gm_time m)"

lemma split2_no_sep: "c \<notin> set a \<Longrightarrow> split2 c (a @ c # r) = (a, Some r)"
  by (induction a) auto

lemma itoa_plain: "CHR '':'' \<notin> set (itoa i)" "LF \<notin> set (itoa i)"
proof -
  have "\<not> is_digit CHR '':''" "\<not> is_digit LF" by (simp_all add: is_digit_def digit_val_def)
  then have "CHR '':'' \<notin> set (nat_str n)" "LF \<notin> set (nat_str n)" for n using nat_str_digits by blast+
  then show "CHR '':'' \<notin> set (itoa i)" "LF \<notin> set (itoa i)" by (auto simp: itoa_def)
qed

lemma rg_line_read: "rg_plain time m \<Longrightarrow> parse_rg_line time (rg_line m) = [m]"
  using itoa_plain [of "gm_line m"] split2_no_sep [of "CHR '':''" "gm_path m"] split2_no_sep [of "CHR '':''" "itoa (gm_line m)"]
  by (simp add: parse_rg_line_def rg_line_def rg_plain_def atoi_itoa)

lemma trim_last_break:
  assumes "s \<noteq> []" "word_char (hd s)" "word_char (last s)"
  shows "trim_space (s @ ''\<newline>'') = s"
proof -
  obtain c r where c: "s = c # r" using assms(1) by (cases s) auto
  have "trim_left (s @ ''\<newline>'') = s @ ''\<newline>''" using c assms(2) by (subst trim_left.simps) (simp add: space_len_word)
  moreover have "space_len_rev (LF # x) = 1" for x by (simp add: space_len_rev_def space_runes_def)
  then have "trim_left_rev (LF # rev s) = trim_left_rev (rev s)" by (subst trim_left_rev.simps) simp
  moreover have "trim_left s = s" using c assms(2) by (subst trim_left.simps) (simp add: space_len_word)
  ultimately show ?thesis using trim_space_id [OF assms] by (simp add: trim_space_def trim_right_def)
qed

lemma rg_line_nonempty [simp]: "rg_line m \<noteq> []"
  by (simp add: rg_line_def)

lemma last_join_rg: "ms \<noteq> [] \<Longrightarrow> join_with ''\<newline>'' (map rg_line ms) \<noteq> [] \<and> last (join_with ''\<newline>'' (map rg_line ms)) = last (rg_line (last ms))"
  by (induction ms rule: induct_list012) (simp_all add: last_append)

lemma rg_output_join: "ms \<noteq> [] \<Longrightarrow> rg_output ms = join_with ''\<newline>'' (map rg_line ms) @ ''\<newline>''"
proof (induction ms rule: induct_list012)
  case (3 m n ms)
  then show ?case by (simp add: rg_output_def)
qed (simp_all add: rg_output_def)

text \<open> What \<open>rg\<close> prints is read back: every match with its file, line and text, when no file name has a colon or a line
  break in it and the output does not end in white space. \<close>
theorem rg_output_read_back:
  assumes "list_all (rg_plain time) ms" "ms \<noteq> []" "word_char (hd (rg_line (hd ms)))" "word_char (last (rg_line (last ms)))"
  shows "parse_rg_output time (rg_output ms) = ms"
proof -
  let ?t = "join_with ''\<newline>'' (map rg_line ms)"
  have ne: "rg_line m \<noteq> []" for m by (simp add: rg_line_def)
  have nl: "LF \<notin> set (rg_line m)" if "m \<in> set ms" for m
    using assms(1) that itoa_plain by (auto simp: rg_line_def rg_plain_def list_all_iff)
  have "?t \<noteq> []" "hd ?t = hd (rg_line (hd ms))" using assms(2) ne by (cases ms; cases "tl ms"; simp)+
  moreover have "last ?t = last (rg_line (last ms))"
    using assms(2) ne last_join_rg [of ms] by simp
  ultimately have "trim_space (?t @ ''\<newline>'') = ?t" using trim_last_break assms(3,4) by simp
  moreover have "split_on LF ?t = map rg_line ms" using nl assms(2) by (intro split_on_join) auto
  moreover have "List.concat (map (\<lambda>l. if l = [] then [] else parse_rg_line time l) (map rg_line ms)) = ms"
    using assms(1) ne by (induction ms) (auto simp: rg_line_read)
  ultimately show ?thesis using rg_output_join [OF assms(2)] by (simp add: parse_rg_output_def)
qed

theorem rg_output_read_back_witness:
  "parse_rg_output (\<lambda>p. Some 7) (rg_output [\<lparr>gm_path = ''a.go'', gm_time = 7, gm_line = 12, gm_text = ''  x := 1''\<rparr>]) =
     [\<lparr>gm_path = ''a.go'', gm_time = 7, gm_line = 12, gm_text = ''  x := 1''\<rparr>]"
  by (rule rg_output_read_back) (simp_all add: rg_plain_def in_int64_def rg_line_def word_char_def)


section \<open>What a search finds\<close>

definition searched :: "search_world \<Rightarrow> (string \<Rightarrow> bool) \<Rightarrow> (string \<Rightarrow> bool) option \<Rightarrow> path \<times> entry \<Rightarrow> grep_match list" where
  "searched w rx include x =
     (if snd x = Plain_File \<and> \<not> skip_hidden (fst x) \<and> (case include of None \<Rightarrow> True | Some inc \<Rightarrow> inc (fst x))
      then (case file_contains_pattern w (fst x) rx of
              None \<Rightarrow> []
            | Some (n, text) \<Rightarrow> [\<lparr>gm_path = fst x, gm_time = (case sw_time w (fst x) of Some t \<Rightarrow> t | None \<Rightarrow> 0), gm_line = n, gm_text = text\<rparr>])
      else [])"

definition grep_step ::
  "search_world \<Rightarrow> (string \<Rightarrow> bool) \<Rightarrow> (string \<Rightarrow> bool) option \<Rightarrow> path \<Rightarrow> entry \<Rightarrow> grep_match list \<Rightarrow> bool \<times> grep_match list" where
  "grep_step w rx include p e ms =
     (let new = searched w rx include (p, e) in (new \<noteq> [] \<and> max_found \<le> length (ms @ new), ms @ new))"

lemma grep_entry_stopping: "grep_entry w rx include = stopping (\<lambda>p. False) (grep_step w rx include)"
  by (intro ext) (auto simp: grep_entry_def stopping_def grep_step_def searched_def Let_def split: option.splits)

lemma handle_grep:
  assumes "length ms < max_found"
  shows "snd (handle (grep_step w rx include) xs ms) = take max_found (ms @ List.concat (map (searched w rx include) xs))"
  using assms
proof (induction xs arbitrary: ms)
  case (Cons x xs)
  obtain p e where x: "x = (p, e)" by (cases x)
  have one: "searched w rx include x = [] \<or> (\<exists>m. searched w rx include x = [m])"
    by (auto simp: searched_def split: option.split prod.split)
  then show ?case
  proof
    assume "searched w rx include x = []"
    then show ?thesis using Cons x by (simp add: grep_step_def)
  next
    assume "\<exists>m. searched w rx include x = [m]"
    then obtain m where "searched w rx include x = [m]" by blast
    then have m: "searched w rx include (p, e) = [m]" "grep_step w rx include p e ms = (max_found \<le> Suc (length ms), ms @ [m])"
      using x by (simp_all add: grep_step_def)
    show ?thesis
    proof (cases "max_found \<le> Suc (length ms)")
      case True
      then have "max_found - length ms = 1" using Cons.prems by simp
      then show ?thesis using True m x by simp
    next
      case False
      then show ?thesis using Cons.IH [of "ms @ [m]"] m x by simp
    qed
  qed
qed simp

lemma walked_grep:
  "walk_from (grep_entry w rx include) root t [] = take max_found (List.concat (map (searched w rx include) (visited (\<lambda>p. False) root t)))"
proof -
  have "snd (case handle g xs s of (b, s1) \<Rightarrow> (if b then Stop_Walk else Go_On, s1)) = snd (handle g xs s)" for g xs and s :: "grep_match list"
    by (simp add: case_prod_beta)
  moreover have "length [] < max_found" by (simp add: max_found_def)
  moreover have "visited (\<lambda>p. False) root t \<noteq> []" by (cases t) auto
  ultimately show ?thesis using handle_grep [of "[]" w rx "include"] by (simp add: walk_from_def grep_entry_stopping walk_stopping)
qed

text \<open> Without \<open>rg\<close> a search finds, for each file of the tree in the order of the walk that is not hidden and whose path
  the include pattern accepts, its first line that matches, and no more than 200 of them; of a tree that has more, the
  newest files may be left out. \<close>
theorem fallback_finds_first_lines:
  assumes "sw_rg w (rg_args pattern root include) = None" "sw_compile w pattern = Some rx"
    "if include = [] then inc = None else map_option Some (sw_compile w (glob_to_regex include)) = Some inc"
  shows "search_files w pattern root (Some t) include limit =
    (let found = sw_sort w (take max_found (List.concat (map (searched w rx inc) (visited (\<lambda>p. False) root t))))
     in Inr (take limit found, limit < length found))"
proof -
  have "search_files_with_regex w pattern root (Some t) include = Inr (walk_from (grep_entry w rx inc) root t [])"
    using assms(2,3) by (auto simp: search_files_with_regex_def split: if_splits)
  then show ?thesis using assms(1) by (simp add: search_files_def search_with_ripgrep_def walked_grep Let_def)
qed

definition ex_world :: search_world where
  "ex_world = \<lparr>sw_read = (\<lambda>p. Some ''a\<newline>bx\<newline>cx''), sw_time = (\<lambda>p. Some 1), sw_rg = (\<lambda>args. None), sw_compile = (\<lambda>r. Some (\<lambda>l. contains l r)),
     sw_sort = (\<lambda>ms. ms)\<rparr>"

theorem fallback_finds_first_lines_witness:
  "search_files ex_world ''x'' ''/r'' (Some (Branch ''r'' True [Leaf ''f'', Branch ''bin'' True [Leaf ''g'']])) [] 100 =
     Inr ([\<lparr>gm_path = ''/r/f'', gm_time = 1, gm_line = 2, gm_text = ''bx''\<rparr>], False)"
proof -
  let ?t = "Branch ''r'' True [Leaf ''f'', Branch ''bin'' True [Leaf ''g'']]"
  have "List.concat (map (searched ex_world (\<lambda>l. contains l ''x'') None) (visited (\<lambda>p. False) ''/r'' ?t)) =
      [\<lparr>gm_path = ''/r/f'', gm_time = 1, gm_line = 2, gm_text = ''bx''\<rparr>]"
  proof -
    have "visited (\<lambda>p. False) ''/r'' ?t = [(''/r'', Directory), (''/r/f'', Plain_File), (''/r/bin'', Directory), (''/r/bin/g'', Plain_File)]" by code_simp
    moreover have "\<not> skip_hidden ''/r/f''" "skip_hidden ''/r/bin/g''" by code_simp+
    moreover have "path_join [''/r/bin'', ''g''] = ''/r/bin/g''" by code_simp
    moreover have "file_lines ''a\<newline>bx\<newline>cx'' = [''a'', ''bx'', ''cx'']" by code_simp
    moreover have "\<not> contains ''a'' ''x''" "contains ''bx'' ''x''" by code_simp+
    ultimately show ?thesis
      by (simp add: searched_def ex_world_def file_contains_pattern_def scan_max_def drop_cr_def trim_suffix_def has_suffix_def)
  qed
  then show ?thesis
    using fallback_finds_first_lines [of ex_world "''x''" "''/r''" "[]" "\<lambda>l. contains l ''x''" None ?t 100]
    by (simp add: ex_world_def max_found_def Let_def)
qed

section \<open>Below a directory with an ignored name\<close>

definition rooted_at :: "string list \<Rightarrow> path" where
  "rooted_at cs = CHR ''/'' # join_with ''/'' cs"

fun plain_tree :: "tree \<Rightarrow> bool" where
  "plain_tree (Leaf x) = plain_name x"
| "plain_tree (Branch x readable ts) = (plain_name x \<and> list_all plain_tree ts)"

lemma plain_tree_name: "plain_tree t \<Longrightarrow> plain_name (tree_name t)"
  by (cases t) auto

lemma rooted_comps: "list_all plain_name cs \<Longrightarrow> cs \<noteq> [] \<Longrightarrow> split_on CHR ''/'' (rooted_at cs) = [] # cs"
  by (auto simp: rooted_at_def list_all_iff plain_name_def intro!: split_on_join)

lemma rooted_below:
  assumes "list_all plain_name cs" "cs \<noteq> []" "plain_name n"
  shows "path_join [rooted_at cs, n] = rooted_at (cs @ [n])"
proof -
  have "rooted (rooted_at cs)" by (simp add: rooted_def rooted_at_def has_prefix_def)
  moreover have "clean_comps True [] ([] # cs) = cs" using clean_comps_plain [OF assms(1), of True "[]"] by simp
  ultimately show ?thesis
    using path_join_root [of "rooted_at cs" "[n]"] assms rooted_comps [OF assms(1,2)] by (simp add: rooted_at_def)
qed

definition ignored_at :: "string list \<Rightarrow> bool" where
  "ignored_at cs \<longleftrightarrow> list_all plain_name cs \<and> list_ex (List.member ignored_dirs) cs"

lemma ignored_hidden: "ignored_at cs \<Longrightarrow> skip_hidden (rooted_at cs)"
  using rooted_comps [of cs] by (cases cs) (auto simp: ignored_at_def skip_hidden_def)

lemma ignored_visited:
  "ignored_at cs \<Longrightarrow> plain_tree t \<Longrightarrow> \<forall>x \<in> set (visited skip (rooted_at cs) t). skip_hidden (fst x)"
  "ignored_at cs \<Longrightarrow> list_all plain_tree ts \<Longrightarrow> \<forall>x \<in> set (visited_list skip (rooted_at cs) ts). skip_hidden (fst x)"
proof (induction skip "rooted_at cs" t and skip "rooted_at cs" ts arbitrary: cs and cs rule: visited_visited_list.induct)
  case (4 skip t ts)
  have ne: "cs \<noteq> []" using 4(3) by (auto simp: ignored_at_def)
  have n: "plain_name (tree_name t)" using 4(4) plain_tree_name by simp
  have "path_join [rooted_at cs, tree_name t] = rooted_at (cs @ [tree_name t])" using rooted_below [OF _ ne n] 4(3) by (simp add: ignored_at_def)
  moreover have "ignored_at (cs @ [tree_name t])" using 4(3) n by (simp add: ignored_at_def)
  ultimately show ?case using 4 by auto
qed (auto simp: ignored_hidden)

text \<open> Below a directory with one of the ignored names nothing is found: the test is made on the whole path, so a search
  in \<open>/tmp/x\<close> or in a repository under \<open>build\<close> or \<open>out\<close> answers that there are no files, whatever they contain. \<close>
theorem search_below_ignored_finds_nothing:
  assumes "ignored_at cs" "plain_tree t" "sw_compile w pattern = Some rx" "sw_rg w (rg_args pattern (rooted_at cs) []) = None"
    "sw_sort w [] = []" "pattern \<noteq> []"
  shows "grep_run w wd (\<lambda>p. Some t) pattern (rooted_at cs) [] False = Search_Text ''No files found'' 0 False"
proof -
  have "searched w rx None x = []" if "x \<in> set (visited (\<lambda>p. False) (rooted_at cs) t)" for x
    using ignored_visited(1) [OF assms(1,2)] that by (auto simp: searched_def)
  then have "List.concat (map (searched w rx None) (visited (\<lambda>p. False) (rooted_at cs) t)) = []" by simp
  then have "search_files_with_regex w pattern (rooted_at cs) (Some t) [] = Inr []"
    using assms(3) by (simp add: search_files_with_regex_def walked_grep)
  then have "search_files w pattern (rooted_at cs) (Some t) [] 100 = Inr ([], False)"
    using assms(4,5) by (simp add: search_files_def search_with_ripgrep_def)
  then show ?thesis using assms(6) by (simp add: grep_run_def rooted_at_def)
qed

theorem search_below_ignored_finds_nothing_witness:
  "grep_run ex_world ''/w'' (\<lambda>p. Some (Branch ''x'' True [Leaf ''f''])) ''x'' ''/tmp/x'' [] False = Search_Text ''No files found'' 0 False"
proof -
  have "rooted_at [''tmp'', ''x''] = ''/tmp/x''" by (simp add: rooted_at_def)
  moreover have "ignored_at [''tmp'', ''x'']" "plain_tree (Branch ''x'' True [Leaf ''f''])" by code_simp+
  ultimately show ?thesis
    using search_below_ignored_finds_nothing [of "[''tmp'', ''x'']" "Branch ''x'' True [Leaf ''f'']" ex_world "''x''"] by (simp add: ex_world_def)
qed

end
