(* ===== verification/Spec2Isabelle.thy ===== *)
theory Spec2Isabelle
  imports Prompt_Store Prompt_Compiler Integrator Patch_V1 Genesis_ISA Lean_TSLN Mission_Meter Recorder_File Verifier Solo Agent_Tools Oracle LSP_Calls Workspace_Edit Agent_Runs Agent_Shell Agent_Events Diff_View
    Heaven_Wire Angel_Provider Agent_Listing Agent_Search
begin

text \<open>
  A verification library for Genesis SSMP: the daemon Heaven that holds all memory of a swarm of agents,
  the orchestrator God that plans, packs, checks and integrates their work, and the parts of the terminal
  client that hold conversations, change files and talk to language servers. The programs are Go; each theory translates the
  files it names, definition by definition, and proves what makes the component correct. Paths are
  relative to \<open>src/\<close>.

  The parts and how they interact.

  \<^item> Heaven (\<open>heaven/\<close>) is an HTTP daemon over one directory. Leases and file clocks are rebuilt from an
    append-only log of events; blobs lie in a content-addressed store; prompts are split into sections and
    kept as blobs; an index of symbols answers queries; page faults bring pieces of context to agents.
  \<^item> God (\<open>god/\<close>) talks to the daemon through its HTTP client. It plans missions from the index and takes
    leases for them, compiles a pack of shards for each, sends it to a provider, validates the answer,
    applies its edits to the repository under leases, clocks and anchor hashes, runs the tests and stores a
    receipt; it meters missions, detects thrashing, and asks an oracle for a new plan.
  \<^item> The terminal client (\<open>cli/internal/\<close>) gives an agent tools to view, edit, write and patch files, with
    permissions and a history, and lets a language server edit the workspace.

  Foundations.

  \<^item> \<open>Prelude\<close>: Go strings as lists of bytes with the operations of \<open>strings\<close> and \<open>strconv\<close>, association
    lists for Go maps, 64-bit wrap-around, the invariants of step systems.
  \<^item> \<open>Disk\<close>: paths and the file system, with I/O errors on a set of bad paths. \<open>Json\<close>: values, text, parser
    and the decoding of structs; \<open>Json_Fields\<close>: numbers, booleans and bytes in base64. \<open>Plain_Text\<close>: words and lines that survive trimming and splitting.

  Heaven.

  \<^item> \<open>Event_Log\<close> (\<open>eventlog.go\<close>), \<open>Blob_Store\<close> (\<open>blob.go\<close>), \<open>File_Clock\<close> (\<open>fileclock.go\<close>), \<open>Lease_Manager\<close>
    (\<open>leases.go\<close>): the state of each is a record of the fields of its Go struct. Two contracts carry the proofs:
    \<open>append_log\<close>, that an event that fits on a line is read back, and \<open>event_sourced\<close>, that an operation does
    what the replay of its events does; clocks and leases are instances. \<open>content_store\<close> is the contract of the
    blobs.
  \<^item> \<open>Prompt_Sectioner\<close> (\<open>sectioner.go\<close>), \<open>Prompt_Store\<close> (\<open>prompt.go\<close>): sectioning is a partition of the prompt,
    and a stored prompt is reconstructed byte for byte.
  \<^item> \<open>IR_Index\<close> (\<open>irindex.go\<close>, \<open>irparse.go\<close>): three tables as lists of rows, with their consistency as invariant.
  \<^item> \<open>PF_Router\<close> (\<open>pf.go\<close>, \<open>pf_delta.go\<close>, \<open>pf_governor.go\<close>): the nine commands, the delta tracker and the budget.
  \<^item> \<open>Heaven_Server\<close> (\<open>server.go\<close>): one definition per handler and the boot; the main invariant holds in every
    state reached through any interleaving of requests and reboots, by the locale \<open>step_invariant\<close>.

  God.

  \<^item> \<open>Heaven_Client\<close> (\<open>heaven_client.go\<close>): each method is an exchange with the modelled daemon, before which
    other clients may act, and whose messages may be lost; \<open>guarantee\<close> is the frame of a client. \<open>Heaven_Wire\<close>
    (routes and structs of \<open>server.go\<close>, \<open>heaven_client.go\<close>) is the text of these messages: what one side writes
    the other side reads as it was meant, which is what lets the exchanges be modelled as values.
  \<^item> \<open>Mission_DAG\<close> (\<open>mission.go\<close>, validation of \<open>oracle.go\<close>), \<open>Oracle\<close> (\<open>oracle.go\<close>), \<open>Planner\<close> (\<open>planner.go\<close>),
    \<open>Prompt_Compiler\<close> (\<open>prompt_compiler.go\<close>), \<open>Solo\<close> (\<open>solo.go\<close>): plans, packs and their execution.
  \<^item> \<open>Provider\<close> (\<open>provider.go\<close>, \<open>macro_ops.go\<close>, \<open>output_vm.go\<close>), \<open>Recorder\<close> and \<open>Recorder_File\<close> (\<open>recorder.go\<close>), \<open>Mission_Meter\<close>
    (\<open>meter.go\<close>, \<open>thrash.go\<close>), \<open>Lean_TSLN\<close> (\<open>internal/lean/\<close>): the provider with its retry, its record and replay,
    the meters against a tally of the operations, and the lean notation of their rows.
  \<^item> \<open>Angel_Assembly\<close> (\<open>aa_*.go\<close>), \<open>Genesis_ISA\<close> (\<open>isa_*.go\<close>), \<open>Patch_V1\<close> (\<open>patch_v1.go\<close>): the line languages, with
    printers as the reference for their parsers.
  \<^item> \<open>Edit_Apply\<close> (\<open>edit_apply.go\<close>), \<open>Edit_Diff\<close> (\<open>edit_diff.go\<close>), \<open>Integrator\<close> (\<open>integrator.go\<close>), \<open>Verifier\<close>
    (\<open>verifier.go\<close>): edits splice lines under an anchor, a diff patches the old file to the new one, an
    integration holds the leases it needs, a receipt is served by the daemon.

  Terminal client.

  \<^item> \<open>Agent_Patch\<close> (\<open>diff/patch.go\<close>): the patch format; a parse without fuzz replaces exactly what it says, and
    the parser ends on texts with known markers only.
  \<^item> \<open>Agent_Store\<close> (\<open>permission/\<close>, \<open>history/\<close>), \<open>Agent_Tools\<close> (\<open>llm/tools/\<close>): what a tool may change, when it asks,
    and what it does when granted.
  \<^item> \<open>Agent_Shell\<close> (\<open>llm/tools/bash.go\<close>, \<open>llm/tools/shell/\<close>): which commands run without asking, the script, whose
    quoting a reader of shell words undoes, and the cut of long outputs.
  \<^item> \<open>Dir_Tree\<close>: the walk of a directory of the library as a walk of a tree, with a callback that may skip and stop.
    On it, \<open>Agent_Listing\<close> (\<open>llm/tools/ls.go\<close>), whose linked nodes print as a nested listing, and \<open>Agent_Search\<close>
    (\<open>grep.go\<close>, \<open>glob.go\<close>, \<open>fileutil/\<close>), with both ways of searching, by \<open>rg\<close> and by itself.
  \<^item> \<open>Angel_Provider\<close> (\<open>genesis/angel_provider.go\<close>): the provider that the client gives to God: its prompt, the JSON
    object it finds in an answer, and the anchors it fills in.
  \<^item> \<open>Diff_View\<close> (\<open>diff/diff.go\<close>): the reader of unified diffs against the diffs that God writes, the two columns and
    the highlighted segments. \<open>Agent_Events\<close> (\<open>pubsub/broker.go\<close>): the broker as a machine of its critical sections.
  \<^item> \<open>Agent_Message\<close> (\<open>message/\<close>): the parts of a message and their storage. \<open>Agent_Loop\<close> (\<open>llm/agent/agent.go\<close>,
    \<open>session/\<close>): a generation, from the stream of the provider over the calls of tools to the reply, on states of
    the tables; \<open>quiet\<close> is an environment in which nothing fails. \<open>Agent_Runs\<close>: titles, summaries and the
    table of active requests as a machine.
  \<^item> \<open>LSP_Wire\<close> (\<open>lsp/protocol.go\<close>, framing of \<open>lsp/transport.go\<close>): written messages are read back. \<open>LSP_Calls\<close>
    (\<open>Call\<close>, \<open>Notify\<close>, \<open>handleMessages\<close>): concurrent callers and the dispatcher as a step relation, with the
    invariant that a call gets its own answer.
  \<^item> \<open>Workspace_Edit\<close> (\<open>lsp/util/edit.go\<close>): text edits are a simultaneous replacement, file operations follow the
    options of the protocol as far as the code reads them.

  What is chosen and why it is enough.

  \<^item> Go's \<open>int\<close> and \<open>int64\<close> are \<open>int\<close> with the wrap-around written out (\<open>wrap64\<close>) where a claim depends on it, and
    unbounded in counters that grow by one per request; the ids of language server calls are words of 32 bits.
  \<^item> A loop that may not end has the value \<open>None\<close> (the patch parser, the loop of an agent), the search for cycles has fuel that is
    proved to be always enough, all other recursion is proved to terminate.
  \<^item> Errors are values of a sum or option type, panics of the run-time system are explicit. Where the code
    only formats a text for a reader, the error is classified.
  \<^item> Digests, random ids, clocks, \<open>time.Parse\<close>, \<open>json.Marshal\<close> of foreign types, the tree-sitter parser, providers,
    subprocesses and the answers of users are parameters. The order of a Go map and of an unstable sort is a
    parameter with the law the library documents; each such locale is interpreted on an instance of it.

  What is not modelled: HTTP and SQL themselves; the terminal interface and the configuration of the client,
  which are I/O around libraries; the generated protocol types and the file watcher of the
  language server client; the shell process itself, regular expressions and glob patterns; benchmarks, the test kit and the command line; costs in dollars and other floating-point figures.

  The properties come with the theory of their component. Each stands after a text that states it and, where it
  has hypotheses, before a theorem that applies it to concrete values.
\<close>

end
